(* ===== verification/GoStrings.thy ===== *)
theory GoStrings
  imports Prelude
begin

text \<open>
  Go strings are byte sequences, as Isabelle's \<open>string\<close> (a list of 256-valued characters) is.
  This theory models the parts of \<open>unicode/utf8\<close> and \<open>strings\<close> that the code calls: decoding
  and encoding of runes, \<open>HasPrefix\<close>, \<open>HasSuffix\<close>, \<open>Contains\<close>, \<open>Split\<close>, \<open>Join\<close> and the
  \<open>Trim\<close> and \<open>Cut\<close> variants.
\<close>

type_synonym rune = nat

abbreviation byte :: "char \<Rightarrow> nat" where "byte c \<equiv> of_char c"

definition runeError :: rune where "runeError = 0xFFFD"

subsection \<open>UTF-8\<close>

definition contByte :: "nat \<Rightarrow> bool" where
  "contByte b \<longleftrightarrow> 0x80 \<le> b \<and> b < 0xC0"

text \<open>The accepted range of the second byte depends on the first: no overlong form, no surrogate.\<close>

definition secondOk :: "nat \<Rightarrow> nat \<Rightarrow> bool" where
  "secondOk b0 b1 \<longleftrightarrow> contByte b1 \<and> (b0 = 0xE0 \<longrightarrow> 0xA0 \<le> b1) \<and> (b0 = 0xED \<longrightarrow> b1 < 0xA0) \<and>
     (b0 = 0xF0 \<longrightarrow> 0x90 \<le> b1) \<and> (b0 = 0xF4 \<longrightarrow> b1 < 0x90)"

text \<open>\<open>utf8.DecodeRuneInString\<close>: the first rune and its width, \<open>(RuneError, 1)\<close> for a bad sequence.\<close>

fun decodeRune :: "string \<Rightarrow> rune \<times> nat" where
  "decodeRune [] = (runeError, 0)"
| "decodeRune (c0 # s) =
     (let b0 = byte c0 in
      if b0 < 0x80 then (b0, 1)
      else if 0xC2 \<le> b0 \<and> b0 \<le> 0xDF then
        (case s of c1 # _ \<Rightarrow>
           if secondOk b0 (byte c1) then ((b0 - 0xC0) * 64 + (byte c1 - 0x80), 2) else (runeError, 1)
         | _ \<Rightarrow> (runeError, 1))
      else if 0xE0 \<le> b0 \<and> b0 \<le> 0xEF then
        (case s of c1 # c2 # _ \<Rightarrow>
           if secondOk b0 (byte c1) \<and> contByte (byte c2)
           then ((b0 - 0xE0) * 4096 + (byte c1 - 0x80) * 64 + (byte c2 - 0x80), 3)
           else (runeError, 1)
         | _ \<Rightarrow> (runeError, 1))
      else if 0xF0 \<le> b0 \<and> b0 \<le> 0xF4 then
        (case s of c1 # c2 # c3 # _ \<Rightarrow>
           if secondOk b0 (byte c1) \<and> contByte (byte c2) \<and> contByte (byte c3)
           then ((b0 - 0xF0) * 262144 + (byte c1 - 0x80) * 4096 + (byte c2 - 0x80) * 64
                   + (byte c3 - 0x80), 4)
           else (runeError, 1)
         | _ \<Rightarrow> (runeError, 1))
      else (runeError, 1))"

lemma decodeRune_width: "0 < snd (decodeRune (c # s)) \<and> snd (decodeRune (c # s)) \<le> length (c # s)"
  by (auto simp: Let_def split: list.splits)

text \<open>\<open>[]rune(s)\<close>.\<close>

function runes :: "string \<Rightarrow> rune list" where
  "runes [] = []"
| "runes (c # s) = fst (decodeRune (c # s)) # runes (drop (snd (decodeRune (c # s))) (c # s))"
  by pat_completeness auto
termination
  by (relation "measure length") (use decodeRune_width in \<open>auto simp del: decodeRune.simps\<close>)

definition runeCount :: "string \<Rightarrow> nat" where "runeCount s = length (runes s)"

text \<open>\<open>utf8.ValidString\<close>: no position decodes as a width-1 \<open>RuneError\<close>.\<close>

function validString :: "string \<Rightarrow> bool" where
  "validString [] = True"
| "validString (c # s) =
     (decodeRune (c # s) \<noteq> (runeError, 1) \<and> validString (drop (snd (decodeRune (c # s))) (c # s)))"
  by pat_completeness auto
termination
  by (relation "measure length") (use decodeRune_width in \<open>auto simp del: decodeRune.simps\<close>)

definition validRune :: "rune \<Rightarrow> bool" where
  "validRune r \<longleftrightarrow> r < 0xD800 \<or> 0xE000 \<le> r \<and> r \<le> 0x10FFFF"

abbreviation chr :: "nat \<Rightarrow> char" where "chr n \<equiv> char_of n"

text \<open>\<open>Builder.WriteRune\<close>.\<close>

definition encodeRune :: "rune \<Rightarrow> string" where
  "encodeRune r0 = (let r = (if validRune r0 then r0 else runeError) in
     if r < 0x80 then [chr r]
     else if r < 0x800 then [chr (0xC0 + r div 64), chr (0x80 + r mod 64)]
     else if r < 0x10000 then
       [chr (0xE0 + r div 4096), chr (0x80 + r div 64 mod 64), chr (0x80 + r mod 64)]
     else [chr (0xF0 + r div 262144), chr (0x80 + r div 4096 mod 64),
           chr (0x80 + r div 64 mod 64), chr (0x80 + r mod 64)])"

lemma byte_chr [simp]: "n < 256 \<Longrightarrow> byte (chr n) = n"
  by simp

lemma div_4096: "(r::nat) div 4096 = r div 64 div 64" by (simp flip: div_mult2_eq)
lemma div_262144: "(r::nat) div 262144 = r div 64 div 64 div 64" by (simp flip: div_mult2_eq)
lemma encode_decode:
  assumes "validRune r" shows "decodeRune (encodeRune r @ s) = (r, length (encodeRune r))"
proof -
  define z r1 where "z = r mod 64" and "r1 = r div 64"
  define y r2 where "y = r1 mod 64" and "r2 = r1 div 64"
  define x w where "x = r2 mod 64" and "w = r2 div 64"
  have z: "z < 64" "y < 64" "x < 64" by (simp_all add: z_def y_def x_def)
  have r: "r = 64 * r1 + z" "r1 = 64 * r2 + y" "r2 = 64 * w + x" 
    by (simp_all add: z_def y_def x_def r1_def r2_def w_def)
  note d = div_4096 div_262144 z_def[symmetric] y_def[symmetric] x_def[symmetric] r1_def[symmetric] r2_def[symmetric] w_def[symmetric]
  consider "r < 0x80" | "0x80 \<le> r" "r < 0x800" | "0x800 \<le> r" "r < 0x10000" | "0x10000 \<le> r" by linarith
  then show ?thesis
  proof cases
    case 1 then show ?thesis using assms by (simp add: encodeRune_def)
  next
    case 2
    then have "2 \<le> r1" "r1 < 32" using r(1) z by linarith+
    then show ?thesis using 2 assms z r(1) by (simp add: encodeRune_def secondOk_def contByte_def d)
  next
    case 3
    then have b: "r2 < 16" "r2 = 0 \<Longrightarrow> 32 \<le> y" "r2 = 13 \<Longrightarrow> y < 32" using r(1,2) z assms 
     unfolding validRune_def by linarith+
    from 3 assms have e: "encodeRune r = [chr (0xE0 + r2), chr (0x80 + y), chr (0x80 + z)]"
      by (simp add: encodeRune_def d)
    have "r = 4096 * r2 + 64 * y + z" using r by simp
    then show ?thesis unfolding e using z b by (simp add: secondOk_def contByte_def)
  next
    case 4
    then have b: "w < 5" "w = 0 \<Longrightarrow> 16 \<le> x" "w = 4 \<Longrightarrow> x < 16" using r z assms 
     unfolding validRune_def by linarith+
    from 4 assms have e: "encodeRune r = [chr (0xF0 + w), chr (0x80 + x), chr (0x80 + y), chr (0x80 + z)]"
      by (simp add: encodeRune_def d)
    have "r = 262144 * w + 4096 * x + 64 * y + z" using r by simp
    then show ?thesis unfolding e using z b by (simp add: secondOk_def contByte_def)
  qed
qed

lemma encodeRune_nonempty [simp]: "encodeRune r \<noteq> []"
  by (simp add: encodeRune_def Let_def)

lemma runes_encode:
  assumes "validRune r"
  shows "runes (encodeRune r @ s) = r # runes s"
proof -
  obtain c cs where e: "encodeRune r = c # cs"
    using encodeRune_nonempty [of r] by (cases "encodeRune r") blast+
  have "decodeRune (c # cs @ s) = (r, Suc (length cs))"
    using encode_decode [OF assms, of s] by (simp only: e append_Cons list.size)  simp
  then show ?thesis by (simp add: e del: decodeRune.simps)
qed

lemma runes_encode_all: "\<forall>r \<in> set rs. validRune r \<Longrightarrow> runes (concat (map encodeRune rs)) = rs"
  by (induction rs) (simp_all add: runes_encode)

lemma runes_ascii: "\<forall>c \<in> set s. byte c < 0x80 \<Longrightarrow> runes s = map byte s"
  by (induction s) simp_all

lemma runeCount_le: "runeCount s \<le> length s"
proof (induction s rule: runes.induct)
  case (2 c s)
  have "0 < snd (decodeRune (c # s))" "snd (decodeRune (c # s)) \<le> length (c # s)"
    using decodeRune_width [of c s] by blast+
  with 2 show ?case
    by (simp add: runeCount_def del: decodeRune.simps)
qed (simp add: runeCount_def)

subsection \<open>Package strings\<close>

definition hasPrefix :: "string \<Rightarrow> string \<Rightarrow> bool" where
  "hasPrefix s p \<longleftrightarrow> take (length p) s = p"

definition hasSuffix :: "string \<Rightarrow> string \<Rightarrow> bool" where
  "hasSuffix s p \<longleftrightarrow> length p \<le> length s \<and> drop (length s - length p) s = p"

fun containsStr :: "string \<Rightarrow> string \<Rightarrow> bool" where
  "containsStr [] p \<longleftrightarrow> p = []"
| "containsStr (c # s) p \<longleftrightarrow> hasPrefix (c # s) p \<or> containsStr s p"

lemma hasPrefix_iff: "hasPrefix s p \<longleftrightarrow> prefix p s"
  by (auto simp: hasPrefix_def prefix_def) (metis append_take_drop_id)

lemma hasSuffix_iff: "hasSuffix s p \<longleftrightarrow> suffix p s"
  by (auto simp: hasSuffix_def suffix_def) (metis append_take_drop_id)

lemma containsStr_iff: "containsStr s p \<longleftrightarrow> sublist p s"
  by (induction s) (auto simp: hasPrefix_iff sublist_Cons_right)

definition trimPrefix :: "string \<Rightarrow> string \<Rightarrow> string" where
  "trimPrefix s p = (if hasPrefix s p then drop (length p) s else s)"

definition trimSuffix :: "string \<Rightarrow> string \<Rightarrow> string" where
  "trimSuffix s p = (if hasSuffix s p then take (length s - length p) s else s)"

definition cutPrefix :: "string \<Rightarrow> string \<Rightarrow> string option" where
  "cutPrefix s p = (if hasPrefix s p then Some (drop (length p) s) else None)"

text \<open>\<open>strings.Split(s, sep)\<close> for a one-byte separator: always at least one part.\<close>

fun splitOn :: "char \<Rightarrow> string \<Rightarrow> string list" where
  "splitOn sep [] = [[]]"
| "splitOn sep (c # s) =
     (if c = sep then [] # splitOn sep s
      else (case splitOn sep s of [] \<Rightarrow> [[c]] | p # ps \<Rightarrow> (c # p) # ps))"

fun joinWith :: "string \<Rightarrow> string list \<Rightarrow> string" where
  "joinWith sep [] = []"
| "joinWith sep [p] = p"
| "joinWith sep (p # q # ps) = p @ sep @ joinWith sep (q # ps)"

lemma splitOn_nonempty [simp]: "splitOn sep s \<noteq> []"
  by (cases s) (auto split: list.split)

lemma splitOn_noSep: "p \<in> set (splitOn sep s) \<Longrightarrow> sep \<notin> set p"
proof (induction s arbitrary: p)
  case (Cons c s)
  then show ?case by (cases "splitOn sep s") (auto split: if_splits)
qed simp

lemma joinWith_Cons: "ps \<noteq> [] \<Longrightarrow> joinWith sep (p # ps) = p @ sep @ joinWith sep ps"
  by (cases ps) auto

lemma joinWith_Cons_char: "joinWith sep ((c # p) # ps) = c # joinWith sep (p # ps)"
  by (cases ps) auto

lemma join_split: "joinWith [sep] (splitOn sep s) = s"
proof (induction s)
  case (Cons c s)
  then show ?case
    by (cases "splitOn sep s") (auto simp: joinWith_Cons joinWith_Cons_char)
qed simp

lemma splitOn_append_sep: "sep \<notin> set p \<Longrightarrow> splitOn sep (p @ sep # s) = p # splitOn sep s"
  by (induction p) auto

lemma splitOn_single: "sep \<notin> set p \<Longrightarrow> splitOn sep p = [p]"
  by (induction p) auto

lemma split_join:
  "ps \<noteq> [] \<Longrightarrow> \<forall>p \<in> set ps. sep \<notin> set p \<Longrightarrow> splitOn sep (joinWith [sep] ps) = ps"
proof (induction "[sep]" ps rule: joinWith.induct)
  case (3 p q ps)
  then show ?case by (simp add: splitOn_append_sep)
qed (auto simp: splitOn_single)

subsection \<open>strings.TrimSpace\<close>

text \<open>
  The runes of \<open>unicode.IsSpace\<close>. A string starts (ends) with a space when it starts (ends) with
  the encoding of one: the first byte of each of these encodings starts a rune, so decoding
  from the end finds the same rune.
\<close>

definition spaceRunes :: "rune list" where
  "spaceRunes = [0x9, 0xA, 0xB, 0xC, 0xD, 0x20, 0x85, 0xA0, 0x1680] @ [0x2000..<0x200B] @
     [0x2028, 0x2029, 0x202F, 0x205F, 0x3000]"

definition leadingSpace :: "string \<Rightarrow> string option" where
  "leadingSpace s = map_option encodeRune (find (\<lambda>r. hasPrefix s (encodeRune r)) spaceRunes)"

definition trailingSpace :: "string \<Rightarrow> string option" where
  "trailingSpace s = map_option encodeRune (find (\<lambda>r. hasSuffix s (encodeRune r)) spaceRunes)"

lemma leadingSpace_Some: "leadingSpace s = Some p \<Longrightarrow> p \<noteq> [] \<and> prefix p s"
  by (auto simp: leadingSpace_def find_Some_iff hasPrefix_iff)

lemma trailingSpace_Some: "trailingSpace s = Some p \<Longrightarrow> p \<noteq> [] \<and> suffix p s"
  by (auto simp: trailingSpace_def find_Some_iff hasSuffix_iff)

function trimLeftSpace :: "string \<Rightarrow> string" where
  "trimLeftSpace s = (case leadingSpace s of None \<Rightarrow> s | Some p \<Rightarrow> trimLeftSpace (drop (length p) s))"
  by pat_completeness auto
termination
  by (relation "measure length") (auto dest!: leadingSpace_Some simp: prefix_def)

function trimRightSpace :: "string \<Rightarrow> string" where
  "trimRightSpace s =
     (case trailingSpace s of None \<Rightarrow> s | Some p \<Rightarrow> trimRightSpace (take (length s - length p) s))"
  by pat_completeness auto
termination
  by (relation "measure length") (auto dest!: trailingSpace_Some simp: suffix_def)

declare trimLeftSpace.simps [simp del] trimRightSpace.simps [simp del]

definition trimSpace :: "string \<Rightarrow> string" where
  "trimSpace s = trimRightSpace (trimLeftSpace s)"

lemma trimSpace_id: "leadingSpace s = None \<Longrightarrow> trailingSpace s = None \<Longrightarrow> trimSpace s = s"
  by (simp add: trimSpace_def trimLeftSpace.simps [of s] trimRightSpace.simps [of s])

end
