(* ===== verification/GoInt.thy ===== *)
theory GoInt
  imports GoStrings "HOL-Library.Word" "HOL-Library.Signed_Division"
begin

text \<open>
  Go's \<open>int64\<close> as a 64-bit word read in two's complement: addition, subtraction and
  multiplication wrap around, division and remainder truncate towards zero, and the smallest
  value divided by minus one wraps to itself. \<open>strconv.ParseInt\<close> and \<open>Atoi\<close> in base ten.
\<close>

type_synonym int64 = "64 word"

abbreviation i64 :: "int \<Rightarrow> int64" where "i64 \<equiv> word_of_int"

definition inInt64 :: "int \<Rightarrow> bool" where
  "inInt64 z \<longleftrightarrow> - (2 ^ 63) \<le> z \<and> z < 2 ^ 63"

definition minInt64 :: int64 where "minInt64 = i64 (- (2 ^ 63))"

definition ltI64 :: "int64 \<Rightarrow> int64 \<Rightarrow> bool" where "ltI64 a b \<longleftrightarrow> sint a < sint b"

definition divI64 :: "int64 \<Rightarrow> int64 \<Rightarrow> int64" where
  "divI64 a b = i64 (sint a sdiv sint b)"

definition remI64 :: "int64 \<Rightarrow> int64 \<Rightarrow> int64" where
  "remI64 a b = i64 (sint a smod sint b)"

lemma sint_i64 [simp]: "inInt64 z \<Longrightarrow> sint (i64 z) = z"
  unfolding inInt64_def
  by (simp add: signed_of_int signed_take_bit_int_eq_self)

lemma inInt64_sint [simp]: "inInt64 (sint (a :: int64))"
  using sint_greater_eq [of a] sint_less [of a] by (simp add: inInt64_def)

lemma i64_sint [simp]: "i64 (sint a) = a"
  by simp

lemma i64_inject: "inInt64 x \<Longrightarrow> inInt64 y \<Longrightarrow> i64 x = i64 y \<longleftrightarrow> x = y"
  by (metis sint_i64)

lemma sint_minInt64 [simp]: "sint minInt64 = - (2 ^ 63)"
  unfolding minInt64_def by (rule sint_i64) (simp add: inInt64_def)

lemma sint_eq_iff: "(a :: int64) = b \<longleftrightarrow> sint a = sint b"
  by (metis i64_sint)

text \<open>A wrapped value is off by a multiple of \<open>2^64\<close>.\<close>

lemma sint_wrap: "sint (i64 z) = (z + 2 ^ 63) mod 2 ^ 64 - 2 ^ 63"
  by (simp add: signed_of_int signed_take_bit_eq_take_bit_shift take_bit_eq_mod)

lemma sint_i64_mod: "\<exists>k. sint (i64 z) = z - k * 2 ^ 64"
proof -
  have "(z + 2 ^ 63) mod 2 ^ 64 = z + 2 ^ 63 - (z + 2 ^ 63) div 2 ^ 64 * 2 ^ 64"
    by (rule minus_div_mult_eq_mod [symmetric])
  then have "sint (i64 z) = z - (z + 2 ^ 63) div 2 ^ 64 * 2 ^ 64"
    by (simp add: sint_wrap)
  then show ?thesis ..
qed

lemma sint_add: "sint (a + b :: int64) = sint (i64 (sint a + sint b))"
  by (simp add: of_int_add)

lemma sint_diff: "sint (a - b :: int64) = sint (i64 (sint a - sint b))"
  by (simp add: of_int_diff)

lemma sint_mult: "sint (a * b :: int64) = sint (i64 (sint a * sint b))"
  by (simp add: of_int_mult)

text \<open>Between two \<open>int64\<close> values an overflowing sum wraps exactly once.\<close>

lemma wrap_once:
  assumes "- (2 ^ 64) \<le> z" "z < 2 ^ 64"
  shows "sint (i64 z) = (if z < - (2 ^ 63) then z + 2 ^ 64
           else if 2 ^ 63 \<le> z then z - 2 ^ 64 else z)"
proof -
  have "(z + 2 ^ 63) mod 2 ^ 64 = z + 2 ^ 63 + 2 ^ 64" if "z < - (2 ^ 63)"
    by (rule trans [OF mod_add_self2 [symmetric] mod_pos_pos_trivial])
       (use that assms in simp_all)
  moreover have "(z + 2 ^ 63) mod 2 ^ 64 = z + 2 ^ 63 - 2 ^ 64" if "2 ^ 63 \<le> z"
    by (rule trans [OF minus_mod_self2 [symmetric] mod_pos_pos_trivial])
       (use that assms in simp_all)
  moreover have "(z + 2 ^ 63) mod 2 ^ 64 = z + 2 ^ 63" if "- (2 ^ 63) \<le> z" "z < 2 ^ 63"
    using that by (intro mod_pos_pos_trivial) simp_all
  ultimately show ?thesis by (simp add: sint_wrap)
qed

subsection \<open>Division\<close>

text \<open>Truncated division by a nonzero value leaves \<open>int64\<close> only for the smallest value and \<open>-1\<close>.\<close>

lemma abs_sdiv_half:
  assumes "2 \<le> \<bar>y :: int\<bar>" shows "\<bar>x sdiv y\<bar> \<le> \<bar>x\<bar> div 2"
proof -
  have "\<bar>x\<bar> div \<bar>y\<bar> \<le> \<bar>x\<bar> div 2" using assms by (intro zdiv_mono2) simp_all
  moreover have "0 \<le> \<bar>x\<bar> div \<bar>y\<bar>" using assms by (simp add: pos_imp_zdiv_nonneg_iff)
  ultimately show ?thesis
    by (auto simp: signed_divide_int_def abs_mult abs_sgn_eq split: if_splits)
qed

lemma sdiv_inInt64:
  assumes "inInt64 x" "\<not> (x = - (2 ^ 63) \<and> y = - 1)"
  shows "inInt64 (x sdiv y)"
proof -
  consider "y = 0" | "y = 1" | "y = - 1" | "2 \<le> \<bar>y\<bar>" by linarith
  then show ?thesis
  proof cases
    case 4
    then have "\<bar>x sdiv y\<bar> \<le> \<bar>x\<bar> div 2" by (rule abs_sdiv_half)
    with assms(1) show ?thesis unfolding inInt64_def by linarith
  qed (use assms in \<open>auto simp: inInt64_def\<close>)
qed

lemma smod_inInt64: "inInt64 y \<Longrightarrow> y \<noteq> 0 \<Longrightarrow> inInt64 (x smod y)"
  using smod_int_range [of y x] unfolding inInt64_def by simp linarith

lemma sint_divI64:
  "\<not> (a = minInt64 \<and> b = i64 (- 1)) \<Longrightarrow> sint (divI64 a b) = sint a sdiv sint b"
  unfolding divI64_def
  by (rule sint_i64, rule sdiv_inInt64 [OF inInt64_sint])
     (auto simp: sint_eq_iff sint_i64 inInt64_def)

lemma sint_remI64: "b \<noteq> 0 \<Longrightarrow> sint (remI64 a b) = sint a smod sint b"
  unfolding remI64_def by (rule sint_i64, rule smod_inInt64) (auto simp: sint_eq_iff)

lemma sdiv_mult_cancel: "b \<noteq> 0 \<Longrightarrow> (a * b) sdiv b = (a :: int)"
  by (simp add: signed_divide_int_def abs_mult sgn_mult abs_sgn)
     (metis abs_sgn mult.commute mult_sgn_abs sgn_mult_self_eq mult.left_commute mult.assoc
        mult_1 sgn_0_0 of_bool_eq(2))

subsection \<open>strconv.ParseInt and Atoi in base ten\<close>

definition isDigit :: "char \<Rightarrow> bool" where
  "isDigit c \<longleftrightarrow> 48 \<le> byte c \<and> byte c \<le> 57"

definition digitVal :: "char \<Rightarrow> int" where "digitVal c = int (byte c) - 48"

definition digitsVal :: "string \<Rightarrow> int" where
  "digitsVal s = foldl (\<lambda>v c. v * 10 + digitVal c) 0 s"

lemma foldl_digits_nonneg:
  "0 \<le> v \<Longrightarrow> list_all isDigit s \<Longrightarrow> 0 \<le> foldl (\<lambda>v c. v * 10 + digitVal c) v s"
  by (induction s arbitrary: v) (auto simp: isDigit_def digitVal_def)

lemma digitsVal_nonneg: "list_all isDigit s \<Longrightarrow> 0 \<le> digitsVal s"
  unfolding digitsVal_def by (rule foldl_digits_nonneg) simp_all

definition decimalInt :: "string \<Rightarrow> int option" where
  "decimalInt s = (if s \<noteq> [] \<and> list_all isDigit s then Some (digitsVal s) else None)"

text \<open>An optional sign, then digits; a syntax error and a range error are both \<open>None\<close>.\<close>

definition parseInt :: "string \<Rightarrow> int option" where
  "parseInt s =
     (let neg = (s \<noteq> [] \<and> hd s = CHR ''-'');
          t = (if s \<noteq> [] \<and> (hd s = CHR ''-'' \<or> hd s = CHR ''+'') then tl s else s) in
      case decimalInt t of
        None \<Rightarrow> None
      | Some n \<Rightarrow>
          (let z = (if neg then - n else n) in if inInt64 z then Some z else None))"

lemma parseInt_range: "parseInt s = Some z \<Longrightarrow> inInt64 z"
  by (auto simp: parseInt_def Let_def split: option.splits if_splits)

lemma parseInt_digits:
  "s \<noteq> [] \<Longrightarrow> list_all isDigit s \<Longrightarrow>
   parseInt s = (if digitsVal s < 2 ^ 63 then Some (digitsVal s) else None)"
  using digitsVal_nonneg [of s]
  by (cases s) (auto simp: parseInt_def decimalInt_def inInt64_def isDigit_def Let_def)

end
