(* ===== verification/Ir.thy ===== *)
theory Ir
  imports GoInt
begin

text \<open>
  The compiled schema of \<open>internal/onkir/ir.go\<close> and the plain queries on it from
  \<open>internal/onkir/helpers.go\<close>. The Go data is a pointer graph with cycles (a message has
  fields whose types point at messages), so messages, enums and files live in the tables of a
  \<open>schema\<close> and a Go pointer is an index into its table; pointer equality is equality of
  indices. A nil pointer is \<open>None\<close>. Inner structs that are reached only through their owner
  (fields, oneofs, variants, headers, methods, services) are values.
\<close>

type_synonym mref = nat
type_synonym eref = nat
type_synonym fileref = nat

datatype scalarKind = ScalarString | ScalarBool | ScalarInt32 | ScalarInt64 | ScalarUint32
  | ScalarUint64 | ScalarFloat32 | ScalarFloat64 | ScalarBytes | ScalarTimestamp | ScalarJSON

fun scalarKindName :: "scalarKind \<Rightarrow> string" where
  "scalarKindName ScalarString = ''string''"
| "scalarKindName ScalarBool = ''bool''"
| "scalarKindName ScalarInt32 = ''int32''"
| "scalarKindName ScalarInt64 = ''int64''"
| "scalarKindName ScalarUint32 = ''uint32''"
| "scalarKindName ScalarUint64 = ''uint64''"
| "scalarKindName ScalarFloat32 = ''float32''"
| "scalarKindName ScalarFloat64 = ''float64''"
| "scalarKindName ScalarBytes = ''bytes''"
| "scalarKindName ScalarTimestamp = ''timestamp''"
| "scalarKindName ScalarJSON = ''json''"

definition allScalarKinds :: "scalarKind list" where
  "allScalarKinds = [ScalarString, ScalarBool, ScalarInt32, ScalarInt64, ScalarUint32,
     ScalarUint64, ScalarFloat32, ScalarFloat64, ScalarBytes, ScalarTimestamp, ScalarJSON]"

text \<open>\<open>scalarKindsByName\<close> is built from \<open>scalarKindNames\<close>, here as an association list.\<close>

definition scalarKindsByName :: "(string \<times> scalarKind) list" where
  "scalarKindsByName = map (\<lambda>k. (scalarKindName k, k)) allScalarKinds"

definition parseScalarKind :: "string \<Rightarrow> scalarKind option" where
  "parseScalarKind name = map_of scalarKindsByName name"

datatype irType = TScalar scalarKind | TMessage mref | TEnum eref | TMap scalarKind irType

record arg =
  argName :: string
  argValue :: string
  argQuoted :: bool

record decorator =
  decName :: string
  decArgs :: "arg list"

record variant =
  vName :: string
  vType :: "irType option"
  vDecorators :: "decorator list"

record oneof =
  oArgs :: "arg list"
  oVariants :: "variant list"

record field =
  fName :: string
  fLine :: nat
  fDoc :: string
  fType :: "irType option"
  fRepeated :: bool
  fOptional :: bool
  fDecorators :: "decorator list"
  fOneof :: "oneof option"
  fMessage :: mref
  fInt64Number :: bool
  fEmitZero :: bool
  fAlwaysSent :: bool
  fValueItems :: bool
  fNullable :: bool

record message =
  mName :: string
  mSchemaName :: string
  mDoc :: string
  mErrorType :: bool
  mFields :: "field list"
  mNested :: "mref list"
  mNestedEnums :: "eref list"
  mDecorators :: "decorator list"
  mFile :: "fileref option"
  mParent :: "mref option"
  mResponseOnly :: bool

record enumValue =
  evName :: string
  evDoc :: string
  evDecorators :: "decorator list"
  evIndex :: nat

record enum =
  enName :: string
  enSchemaName :: string
  enDoc :: string
  enValues :: "enumValue list"
  enFile :: "fileref option"
  enParent :: "mref option"

record header =
  hName :: string
  hType :: scalarKind
  hDecorators :: "decorator list"

record rpc =
  rName :: string
  rLine :: nat
  rDoc :: string
  rRequest :: "mref option"
  rResponse :: "mref option"
  rErrorTypes :: "mref list"
  rDecorators :: "decorator list"
  rHeaders :: "header list"
  rPrincipal :: "mref option"

record service =
  sName :: string
  sDoc :: string
  sBasePath :: string
  sHeaders :: "header list"
  sMethods :: "rpc list"

record schemaFile =
  flPath :: string
  flPackage :: string
  flImports :: "string list"
  flMessages :: "mref list"
  flEnums :: "eref list"
  flServices :: "service list"

record schema =
  schMessages :: "message list"
  schEnums :: "enum list"
  schFiles :: "schemaFile list"

text \<open>
  Dereferencing. The compiler only makes pointers to allocated messages and enums
  (\<open>wfSchema\<close> below); the fallback values are never reached from a well-formed schema.
\<close>

definition nilMessage :: message where
  "nilMessage = \<lparr>mName = [], mSchemaName = [], mDoc = [], mErrorType = False, mFields = [],
     mNested = [], mNestedEnums = [], mDecorators = [], mFile = None, mParent = None,
     mResponseOnly = False\<rparr>"

definition nilEnum :: enum where
  "nilEnum = \<lparr>enName = [], enSchemaName = [], enDoc = [], enValues = [], enFile = None,
     enParent = None\<rparr>"

definition msgAt :: "schema \<Rightarrow> mref \<Rightarrow> message" where
  "msgAt S r = (if r < length (schMessages S) then schMessages S ! r else nilMessage)"

definition enumAt :: "schema \<Rightarrow> eref \<Rightarrow> enum" where
  "enumAt S r = (if r < length (schEnums S) then schEnums S ! r else nilEnum)"

definition filePackage :: "schema \<Rightarrow> fileref option \<Rightarrow> string" where
  "filePackage S f = (case f of
     Some i \<Rightarrow> if i < length (schFiles S) then flPackage (schFiles S ! i) else []
   | None \<Rightarrow> [])"

subsection \<open>Decorators and arguments\<close>

definition findDecorator :: "decorator list \<Rightarrow> string \<Rightarrow> decorator option" where
  "findDecorator ds name = find (\<lambda>d. decName d = name) ds"

definition hasDecorator :: "decorator list \<Rightarrow> string \<Rightarrow> bool" where
  "hasDecorator ds name = (findDecorator ds name \<noteq> None)"

definition decoratorArg :: "decorator \<Rightarrow> nat \<Rightarrow> string option" where
  "decoratorArg d i = (if i < length (decArgs d) then Some (argValue (decArgs d ! i)) else None)"

definition namedArgIn :: "arg list \<Rightarrow> string \<Rightarrow> string option" where
  "namedArgIn args name = map_option argValue (find (\<lambda>a. argName a = name) args)"

definition decoratorNamedArg :: "decorator \<Rightarrow> string \<Rightarrow> string option" where
  "decoratorNamedArg d name = namedArgIn (decArgs d) name"

definition decoratorValue :: "decorator \<Rightarrow> string option" where
  "decoratorValue d = decoratorArg d 0"

definition fieldDecorator :: "field \<Rightarrow> string \<Rightarrow> decorator option" where
  "fieldDecorator f name = findDecorator (fDecorators f) name"

definition fieldHasDecorator :: "field \<Rightarrow> string \<Rightarrow> bool" where
  "fieldHasDecorator f name = hasDecorator (fDecorators f) name"

definition oneofNamedArg :: "oneof \<Rightarrow> string \<Rightarrow> string option" where
  "oneofNamedArg o1 name = namedArgIn (oArgs o1) name"

definition discriminator :: "oneof \<Rightarrow> string option" where
  "discriminator o1 = oneofNamedArg o1 ''discriminator''"

definition oneofFlatten :: "oneof \<Rightarrow> bool" where
  "oneofFlatten o1 = (oneofNamedArg o1 ''flatten'' = Some ''true'')"

definition variantDecorator :: "variant \<Rightarrow> string \<Rightarrow> decorator option" where
  "variantDecorator v name = findDecorator (vDecorators v) name"

definition variantTag :: "variant \<Rightarrow> string" where
  "variantTag v = (case variantDecorator v ''tag'' of
     Some d \<Rightarrow> (case decoratorValue d of Some val \<Rightarrow> val | None \<Rightarrow> vName v)
   | None \<Rightarrow> vName v)"

subsection \<open>Headers\<close>

definition headerDecorator :: "header \<Rightarrow> string \<Rightarrow> decorator option" where
  "headerDecorator h name = findDecorator (hDecorators h) name"

definition headerRequired :: "header \<Rightarrow> bool" where
  "headerRequired h = hasDecorator (hDecorators h) ''required''"

definition headerFormat :: "header \<Rightarrow> string option" where
  "headerFormat h = Option.bind (headerDecorator h ''format'') decoratorValue"

definition headerExample :: "header \<Rightarrow> string option" where
  "headerExample h = Option.bind (headerDecorator h ''example'') decoratorValue"

text \<open>The reason is empty when \<open>@deprecated\<close> has no argument.\<close>

definition deprecation :: "decorator list \<Rightarrow> string option" where
  "deprecation ds = (case findDecorator ds ''deprecated'' of
     None \<Rightarrow> None
   | Some d \<Rightarrow> Some (case decoratorValue d of Some r \<Rightarrow> r | None \<Rightarrow> []))"

definition headerAuthType :: "header \<Rightarrow> string option" where
  "headerAuthType h = Option.bind (headerDecorator h ''auth'') decoratorValue"

definition headerAuthSchemeName :: "header \<Rightarrow> string option" where
  "headerAuthSchemeName h = Option.bind (headerDecorator h ''auth_scheme_name'') decoratorValue"

definition isLetter :: "char \<Rightarrow> bool" where
  "isLetter c \<longleftrightarrow> 97 \<le> byte c \<and> byte c \<le> 122 \<or> 65 \<le> byte c \<and> byte c \<le> 90"

definition securitySchemeSafe :: "char \<Rightarrow> bool" where
  "securitySchemeSafe c \<longleftrightarrow> isLetter c \<or> isDigit c \<or> c \<in> set ''_.-''"

definition securitySchemeName :: "header \<Rightarrow> string" where
  "securitySchemeName h =
     (let name = filter securitySchemeSafe (hName h);
          derived = (if name = [] then ''Header'' else name) @ ''Auth'' in
      case headerAuthSchemeName h of
        Some declared \<Rightarrow> if declared \<noteq> [] then declared else derived
      | None \<Rightarrow> derived)"

lemma securitySchemeName_nonempty: "securitySchemeName h \<noteq> []"
  by (simp add: securitySchemeName_def Let_def split: option.split)

subsection \<open>Methods\<close>

definition httpVerbs :: "string list" where
  "httpVerbs = [''get'', ''post'', ''put'', ''delete'', ''patch'', ''query'', ''any'']"

definition methodDecorator :: "rpc \<Rightarrow> string \<Rightarrow> decorator option" where
  "methodDecorator m name = findDecorator (rDecorators m) name"

definition methodHasDecorator :: "rpc \<Rightarrow> string \<Rightarrow> bool" where
  "methodHasDecorator m name = hasDecorator (rDecorators m) name"

definition methodVerb :: "rpc \<Rightarrow> string option" where
  "methodVerb m = map_option decName (find (\<lambda>d. decName d \<in> set httpVerbs) (rDecorators m))"

definition methodPath :: "rpc \<Rightarrow> string option" where
  "methodPath m = (case methodVerb m of
     None \<Rightarrow> None
   | Some verb \<Rightarrow> Option.bind (methodDecorator m verb) decoratorValue)"

definition requiredScopes :: "rpc \<Rightarrow> string list" where
  "requiredScopes m = (case methodDecorator m ''requires'' of
     None \<Rightarrow> [] | Some d \<Rightarrow> map argValue (decArgs d))"

definition methodGuards :: "rpc \<Rightarrow> string list" where
  "methodGuards m =
     concat (map (\<lambda>d. if decName d \<noteq> ''guard'' then [] else map argValue (decArgs d)) (rDecorators m))"

definition isRawHTTP :: "rpc \<Rightarrow> bool" where
  "isRawHTTP m = methodHasDecorator m ''http''"

definition rawContentType :: "rpc \<Rightarrow> string" where
  "rawContentType m = (case methodDecorator m ''http'' of
     None \<Rightarrow> []
   | Some d \<Rightarrow> (case find (\<lambda>a. argName a = []) (decArgs d) of Some a \<Rightarrow> argValue a | None \<Rightarrow> []))"

definition isBodyBearingVerb :: "string \<Rightarrow> bool" where
  "isBodyBearingVerb verb \<longleftrightarrow> verb = ''post'' \<or> verb = ''put'' \<or> verb = ''patch'' \<or> verb = ''query''
     \<or> verb = ''any''"

definition rawRequestKind :: "rpc \<Rightarrow> string" where
  "rawRequestKind m =
     (case Option.bind (methodDecorator m ''http'') (\<lambda>d. decoratorNamedArg d ''request'') of
        Some kind \<Rightarrow> kind
      | None \<Rightarrow> (case methodVerb m of
          Some verb \<Rightarrow> if isBodyBearingVerb verb then ''stream'' else ''none''
        | None \<Rightarrow> ''none''))"

definition rawResponseKind :: "rpc \<Rightarrow> string" where
  "rawResponseKind m =
     (case Option.bind (methodDecorator m ''http'') (\<lambda>d. decoratorNamedArg d ''response'') of
        Some kind \<Rightarrow> kind | None \<Rightarrow> ''stream'')"

definition rawIsFetchable :: "rpc \<Rightarrow> bool" where
  "rawIsFetchable m = (let kind = rawResponseKind m in kind \<noteq> ''redirect'' \<and> kind \<noteq> ''websocket'')"

definition successStatus :: "rpc \<Rightarrow> int" where
  "successStatus m = (case methodDecorator m ''success'' of
     None \<Rightarrow> 200
   | Some d \<Rightarrow> (case parseInt (case decoratorValue d of Some v \<Rightarrow> v | None \<Rightarrow> []) of
                 Some status \<Rightarrow> status | None \<Rightarrow> 200))"

definition isStream :: "rpc \<Rightarrow> bool" where
  "isStream m = methodHasDecorator m ''stream''"

definition webSocketPath :: "rpc \<Rightarrow> string option" where
  "webSocketPath m = Option.bind (methodDecorator m ''ws'') decoratorValue"

definition isWebSocket :: "rpc \<Rightarrow> bool" where
  "isWebSocket m = (webSocketPath m \<noteq> None)"

definition bodyField :: "rpc \<Rightarrow> string option" where
  "bodyField m = Option.bind (methodDecorator m ''body'') decoratorValue"

definition authorizeRules :: "rpc \<Rightarrow> decorator list" where
  "authorizeRules m = filter (\<lambda>d. decName d = ''authorize'') (rDecorators m)"

definition methodMeta :: "rpc \<Rightarrow> (string \<times> string) list" where
  "methodMeta m = map (\<lambda>d. (argValue (decArgs d ! 0), argValue (decArgs d ! 1)))
     (filter (\<lambda>d. decName d = ''meta'' \<and> length (decArgs d) = 2) (rDecorators m))"

subsection \<open>Messages, enums, files\<close>

definition messageIsError :: "message \<Rightarrow> bool" where
  "messageIsError m = (mErrorType m \<or> hasSuffix (mName m) ''Error'')"

definition statusCode :: "message \<Rightarrow> int option" where
  "statusCode m = Option.bind (Option.bind (findDecorator (mDecorators m) ''status'') decoratorValue)
     parseInt"

definition isPrincipal :: "message \<Rightarrow> bool" where
  "isPrincipal m = (findDecorator (mDecorators m) ''principal'' \<noteq> None)"

definition enumJSONName :: "enumValue \<Rightarrow> string" where
  "enumJSONName v = (case Option.bind (findDecorator (evDecorators v) ''json'') decoratorValue of
     Some val \<Rightarrow> val | None \<Rightarrow> evName v)"

text \<open>
  The names of the enclosing messages, nearest first. The parent chain of a compiled message
  is finite; \<open>k\<close> bounds the walk by the number of messages.
\<close>

fun parentNames :: "nat \<Rightarrow> schema \<Rightarrow> mref option \<Rightarrow> string list" where
  "parentNames 0 S p = []"
| "parentNames (Suc k) S p = (case p of
     None \<Rightarrow> [] | Some r \<Rightarrow> mName (msgAt S r) # parentNames k S (mParent (msgAt S r)))"

definition qualifiedName :: "schema \<Rightarrow> string \<Rightarrow> mref option \<Rightarrow> fileref option \<Rightarrow> string" where
  "qualifiedName S leaf parent file =
     (let parts = leaf # parentNames (Suc (length (schMessages S))) S parent;
          joined = joinWith ''.'' (rev parts); pkg = filePackage S file in
      if pkg \<noteq> [] then pkg @ ''.'' @ joined else joined)"

definition messageFullName :: "schema \<Rightarrow> mref \<Rightarrow> string" where
  "messageFullName S r = (let m = msgAt S r in
     if mSchemaName m \<noteq> [] then mSchemaName m else qualifiedName S (mName m) (mParent m) (mFile m))"

definition enumFullName :: "schema \<Rightarrow> eref \<Rightarrow> string" where
  "enumFullName S r = (let e = enumAt S r in
     if enSchemaName e \<noteq> [] then enSchemaName e else qualifiedName S (enName e) (enParent e) (enFile e))"

definition findField :: "schema \<Rightarrow> mref option \<Rightarrow> string \<Rightarrow> field option" where
  "findField S m name = (case m of
     None \<Rightarrow> None | Some r \<Rightarrow> find (\<lambda>f. fName f = name) (mFields (msgAt S r)))"

definition fileHasStreamMethods :: "schemaFile \<Rightarrow> bool" where
  "fileHasStreamMethods fl = list_ex (\<lambda>s. list_ex isStream (sMethods s)) (flServices fl)"

definition fileHasWSMethods :: "schemaFile \<Rightarrow> bool" where
  "fileHasWSMethods fl = list_ex (\<lambda>s. list_ex isWebSocket (sMethods s)) (flServices fl)"

definition streamEventOneof :: "schema \<Rightarrow> rpc \<Rightarrow> field option" where
  "streamEventOneof S m = (case rResponse m of
     None \<Rightarrow> None
   | Some r \<Rightarrow> if \<not> isStream m then None else find (\<lambda>f. fOneof f \<noteq> None) (mFields (msgAt S r)))"

subsection \<open>Paths\<close>

text \<open>\<open>cur\<close> is the text since the last unmatched opening brace, the slice \<open>path[start:i]\<close>.\<close>

fun pathParams :: "string option \<Rightarrow> string \<Rightarrow> string list" where
  "pathParams cur [] = []"
| "pathParams cur (c # path) =
     (if c = CHR ''{'' then pathParams (Some []) path
      else case cur of
        None \<Rightarrow> pathParams None path
      | Some name \<Rightarrow>
          if c = CHR ''}'' then trimSuffix name ''...'' # pathParams None path
          else pathParams (Some (name @ [c])) path)"

definition pathParamNames :: "string \<Rightarrow> string list" where
  "pathParamNames path = pathParams None path"

definition wildcardParam :: "string \<Rightarrow> string option" where
  "wildcardParam path =
     (let lst = last (splitOn (CHR ''/'') path);
          inner = trimSuffix (trimPrefix lst ''{'') ''}'' in
      if hasPrefix lst ''{'' \<and> hasSuffix lst ''}'' \<and> hasSuffix inner ''...''
      then Some (trimSuffix inner ''...'') else None)"

definition isWildcardParam :: "string \<Rightarrow> string \<Rightarrow> bool" where
  "isWildcardParam path name = (wildcardParam path = Some name)"

definition pathPlaceholder :: "string \<Rightarrow> string \<Rightarrow> string" where
  "pathPlaceholder path name =
     (if isWildcardParam path name then ''{'' @ name @ ''...'' @ ''}'' else ''{'' @ name @ ''}'')"

subsection \<open>Properties\<close>

lemma scalarKindName_inj: "scalarKindName j = scalarKindName k \<Longrightarrow> j = k"
  by (cases j; cases k; simp)

lemma allScalarKinds_all: "k \<in> set allScalarKinds"
  by (cases k) (simp_all add: allScalarKinds_def)

text \<open>\<open>String\<close> and \<open>ParseScalarKind\<close> are inverse.\<close>

lemma parseScalarKind_iff: "parseScalarKind s = Some k \<longleftrightarrow> s = scalarKindName k"
proof -
  have "distinct (map fst scalarKindsByName)"
    by (auto simp: scalarKindsByName_def distinct_map comp_def inj_on_def allScalarKinds_def
        dest: scalarKindName_inj)
  then have "parseScalarKind s = Some k \<longleftrightarrow> (s, k) \<in> set scalarKindsByName"
    by (simp add: parseScalarKind_def)
  then show ?thesis by (auto simp: scalarKindsByName_def allScalarKinds_all)
qed

text \<open>A brace-free text contributes no parameter, a brace-free name between braces one.\<close>

definition noBraces :: "string \<Rightarrow> bool" where
  "noBraces s \<longleftrightarrow> CHR ''{'' \<notin> set s \<and> CHR ''}'' \<notin> set s"

lemma noBraces_simps [simp]:
  "noBraces []" "noBraces (c # s) \<longleftrightarrow> c \<noteq> CHR ''{'' \<and> c \<noteq> CHR ''}'' \<and> noBraces s"
  "noBraces (s @ t) \<longleftrightarrow> noBraces s \<and> noBraces t"
  by (auto simp: noBraces_def)

lemma pathParams_text: "CHR ''{'' \<notin> set s \<Longrightarrow> pathParams None (s @ path) = pathParams None path"
  by (induction s) auto

lemma pathParams_name:
  "noBraces s \<Longrightarrow> pathParams (Some cur) (s @ CHR ''}'' # path) = trimSuffix (cur @ s) ''...'' # pathParams None path"
  by (induction s arbitrary: cur) auto

lemma pathParamNames_step:
  "CHR ''{'' \<notin> set s \<Longrightarrow> noBraces name \<Longrightarrow>
   pathParamNames (s @ ''{'' @ name @ ''}'' @ path) = trimSuffix name ''...'' # pathParamNames path"
  by (simp add: pathParamNames_def pathParams_text pathParams_name)

lemma splitOn_last: "\<exists>pre. s = pre @ last (splitOn sep s) \<and> (pre = [] \<or> last pre = sep)"
proof (induction s)
  case (Cons c s)
  then obtain pre where pre: "s = pre @ last (splitOn sep s)" "pre = [] \<or> last pre = sep" by blast
  show ?case
  proof (cases "c = sep")
    case True
    with pre have "c # s = (c # pre) @ last (splitOn sep (c # s))" by simp
    moreover have "last (c # pre) = sep" using True pre(2) by auto
    ultimately show ?thesis by blast
  next
    case False
    obtain q qs where q: "splitOn sep s = q # qs" by (cases "splitOn sep s") auto
    show ?thesis
    proof (cases qs)
      case Nil
      have "sep \<notin> set s"
      proof
        assume "sep \<in> set s"
        then obtain a b where "s = a @ sep # b" "sep \<notin> set a" by (meson split_list_first)
        with q Nil show False by (simp add: splitOn_append_sep)
      qed
      with False q Nil have "splitOn sep (c # s) = [c # s]" by (simp add: splitOn_single)
      then show ?thesis by simp
    next
      case (Cons r rs)
      with pre q False have "c # s = (c # pre) @ last (splitOn sep (c # s))" by simp
      moreover have "pre \<noteq> []"
      proof
        assume "pre = []"
        with pre(1) have "s = last (splitOn sep s)" by simp
        moreover have "sep \<notin> set (last (splitOn sep s))" by (rule splitOn_noSep [OF last_in_set]) simp
        ultimately have "sep \<notin> set s" by metis
        with q Cons show False by (simp add: splitOn_single)
      qed
      ultimately show ?thesis using pre(2) by (metis last_ConsR)
    qed
  qed
qed simp

lemma pathParams_last:
  "noBraces name \<Longrightarrow> \<exists>ns. pathParams cur (pre @ ''{'' @ name @ ''}'') = ns @ [trimSuffix name ''...'']"
proof (induction cur pre rule: pathParams.induct)
  case (1 cur)
  then show ?case using pathParams_name [of name "[]" "[]"] by simp
next
  case (2 cur c pre)
  then show ?case by (cases cur) (auto simp: append_eq_Cons_conv)
qed

text \<open>The wildcard parameter of a path is the last of its parameters.\<close>

lemma wildcardParam_last:
  assumes "wildcardParam path = Some w" "noBraces w"
  shows "pathParamNames path \<noteq> [] \<and> last (pathParamNames path) = w \<and> pathPlaceholder path w = last (splitOn (CHR ''/'') path)"
proof -
  define lst where "lst = last (splitOn (CHR ''/'') path)"
  define inner where "inner = trimSuffix (trimPrefix lst ''{'') ''}''"
  have h: "hasPrefix lst ''{''" "hasSuffix lst ''}''" "hasSuffix inner ''...''" "w = trimSuffix inner ''...''"
    using assms(1) by (auto simp: wildcardParam_def Let_def lst_def inner_def split: if_splits)
  from h(3,4) have inner: "inner = w @ ''...''"
    by (auto simp: trimSuffix_def hasSuffix_def) (metis append_take_drop_id)
  obtain t where t: "lst = CHR ''{'' # t" using h(1) by (cases lst) (auto simp: hasPrefix_def)
  have "t \<noteq> []" using h(2) t by (auto simp: hasSuffix_def)
  moreover have "last lst = CHR ''}''" using h(2) by (auto simp: hasSuffix_iff suffix_def)
  ultimately have "last t = CHR ''}''" using t by simp
  with \<open>t \<noteq> []\<close> obtain b where b: "t = b @ ''}''" by (metis append_butlast_last_id)
  have "inner = b" by (simp add: inner_def t b trimPrefix_def hasPrefix_def trimSuffix_def hasSuffix_def)
  with inner b t have lst: "lst = ''{'' @ (w @ ''...'') @ ''}''" by simp
  obtain pre where pre: "path = pre @ lst" unfolding lst_def using splitOn_last by blast
  obtain ns where "pathParamNames path = ns @ [trimSuffix (w @ ''...'') ''...'']"
    using pathParams_last [of "w @ ''...''" None pre] assms(2) by (auto simp: pathParamNames_def pre lst)
  then have "pathParamNames path = ns @ [w]" by (simp add: trimSuffix_def hasSuffix_def)
  moreover have "pathPlaceholder path w = lst" using assms(1) by (simp add: pathPlaceholder_def isWildcardParam_def lst)
  ultimately show ?thesis by (simp add: lst_def)
qed

end
