(* ===== verification/Decl.thy ===== *)
theory Decl
  imports Ir
begin

text \<open>
  What a front end hands to the compiler, \<open>internal/onkschema/schema.go\<close>: packages of messages,
  enums and services whose type references and decorators are unresolved names. The fields the
  JSON form leaves out (comments, and the source order of declarations, both for formatters) are
  not part of the model: the compiler does not read them. Then the compiler's errors and options,
  \<open>Error\<close>, \<open>Source\<close> and \<open>CompileOptions\<close> in \<open>internal/onkcompile/compile.go\<close>. An argument and a
  decorator have the shape they have in the compiled schema, with a position.
\<close>

record span =
  spLine :: nat
  spCol :: nat
  spEndLine :: nat
  spEndCol :: nat

datatype typeRef = TypeRef (trSpan: span) (trName: string) (trIsMap: bool) (trMapKey: string)
  (trMapVal: "typeRef option")

record decoratorDecl =
  ddName :: string
  ddArgs :: "arg list"
  ddLine :: nat
  ddCol :: nat

record variantDecl =
  vdName :: string
  vdType :: "typeRef option"
  vdDecorators :: "decoratorDecl list"
  vdLine :: nat
  vdCol :: nat

record oneofDecl =
  odArgs :: "arg list"
  odVariants :: "variantDecl list"
  odLine :: nat
  odCol :: nat

record fieldDecl =
  fdName :: string
  fdDoc :: string
  fdType :: "typeRef option"
  fdRepeated :: bool
  fdOptional :: bool
  fdDecorators :: "decoratorDecl list"
  fdOneof :: "oneofDecl option"
  fdLine :: nat
  fdCol :: nat

record enumValueDecl =
  evdName :: string
  evdDoc :: string
  evdDecorators :: "decoratorDecl list"
  evdLine :: nat
  evdCol :: nat

record enumDecl =
  edName :: string
  edDoc :: string
  edValues :: "enumValueDecl list"
  edLine :: nat
  edCol :: nat

datatype messageDecl = MessageDecl (mdName: string) (mdDoc: string) (mdDecorators: "decoratorDecl list")
  (mdFields: "fieldDecl list") (mdNested: "messageDecl list") (mdNestedEn: "enumDecl list")
  (mdLine: nat) (mdCol: nat)

record headerDecl =
  hdName :: string
  hdType :: string
  hdDecorators :: "decoratorDecl list"
  hdLine :: nat
  hdCol :: nat

record rpcDecl =
  rdName :: string
  rdDoc :: string
  rdRequestSpan :: span
  rdResponseSpan :: span
  rdErrorSpans :: "span list"
  rdRequestType :: string
  rdResponseType :: string
  rdErrorTypes :: "string list"
  rdDecorators :: "decoratorDecl list"
  rdHeaders :: "headerDecl list"
  rdLine :: nat
  rdCol :: nat

record serviceDecl =
  sdName :: string
  sdDoc :: string
  sdBasePath :: string
  sdHeaders :: "headerDecl list"
  sdRPCs :: "rpcDecl list"
  sdLine :: nat
  sdCol :: nat

record fileDecl =
  fldPackage :: string
  fldImports :: "string list"
  fldMessages :: "messageDecl list"
  fldEnums :: "enumDecl list"
  fldServices :: "serviceDecl list"

record source =
  srcPath :: string
  srcAST :: fileDecl

text \<open>
  A message is the format of the source's \<open>fmt.Sprintf\<close> with its arguments in order. \<open>Panic\<close> is a
  Go run-time panic (a nil pointer or an index out of range), which is no error value.
\<close>

type_synonym message_text = "string \<times> string list"

datatype cfailure =
    CompileError (cePath: string) (ceLine: nat) (ceCol: nat) (ceCode: string) (ceMsg: message_text)
  | Panic

abbreviation errAt :: "string \<Rightarrow> nat \<Rightarrow> string \<Rightarrow> string list \<Rightarrow> cfailure + 'a" where
  "errAt path line fmt args \<equiv> Inl (CompileError path line 0 [] (fmt, args))"

abbreviation errCol :: "string \<Rightarrow> nat \<Rightarrow> nat \<Rightarrow> string \<Rightarrow> string list \<Rightarrow> cfailure + 'a" where
  "errCol path line col fmt args \<equiv> Inl (CompileError path line col [] (fmt, args))"

record compileOptions =
  allowLegacy :: bool
  int64Encoding :: string
  emitZeroValues :: bool
  repeatedValues :: bool
  targets :: "string list option"

definition generates :: "compileOptions \<Rightarrow> string list \<Rightarrow> bool" where
  "generates opts names \<longleftrightarrow>
     (case targets opts of None \<Rightarrow> True | Some ts \<Rightarrow> list_ex (\<lambda>n. n \<in> set ts) names)"

definition hasDecoratorDecl :: "decoratorDecl list \<Rightarrow> string \<Rightarrow> bool" where
  "hasDecoratorDecl ds name \<longleftrightarrow> find (\<lambda>d. ddName d = name) ds \<noteq> None"

definition findDecoratorDecl :: "decoratorDecl list \<Rightarrow> string \<Rightarrow> decoratorDecl option" where
  "findDecoratorDecl ds name = find (\<lambda>d. ddName d = name) ds"

lemma hasDecoratorDecl_iff: "hasDecoratorDecl ds name \<longleftrightarrow> (\<exists>d \<in> set ds. ddName d = name)"
  by (auto simp: hasDecoratorDecl_def find_None_iff)

text \<open>A check: it has no result but the error.\<close>

type_synonym checked = "cfailure + unit"

abbreviation passed :: checked where "passed \<equiv> Inr ()"

definition andThen :: "checked \<Rightarrow> checked \<Rightarrow> checked" where
  "andThen c d = (case c of Inl e \<Rightarrow> Inl e | Inr _ \<Rightarrow> d)"

fun checkAll :: "('a \<Rightarrow> checked) \<Rightarrow> 'a list \<Rightarrow> checked" where
  "checkAll f [] = passed"
| "checkAll f (x # xs) = andThen (f x) (checkAll f xs)"

lemma andThen_passed [simp]: "andThen c d = Inr u \<longleftrightarrow> c = passed \<and> d = passed"
  by (auto simp: andThen_def split: sum.split)

lemma andThen_left [simp]: "andThen passed d = d" "andThen (Inl e) d = Inl e"
  by (simp_all add: andThen_def)

lemma andThen_Inl [result_simps]: "andThen c d = Inl e \<longleftrightarrow> c = Inl e \<or> c = passed \<and> d = Inl e"
  by (auto simp: andThen_def split: sum.split)

lemma checkAll_passed: "checkAll f xs = Inr u \<longleftrightarrow> (\<forall>x \<in> set xs. f x = passed)"
  by (induction xs) auto

lemma checkAll_Inl: "checkAll f xs = Inl e \<Longrightarrow> \<exists>x \<in> set xs. f x = Inl e"
  by (induction xs) (auto simp: andThen_Inl)

lemma checkAll_cong [fundef_cong]:
  "xs = ys \<Longrightarrow> (\<And>x. x \<in> set ys \<Longrightarrow> f x = g x) \<Longrightarrow> checkAll f xs = checkAll g ys"
  by (induction ys arbitrary: xs) auto

text \<open>A loop over \<open>xs\<close> that updates a state and may return early with an error.\<close>

fun foldE :: "('a \<Rightarrow> 's \<Rightarrow> 'e + 's) \<Rightarrow> 'a list \<Rightarrow> 's \<Rightarrow> 'e + 's" where
  "foldE f [] s = Inr s"
| "foldE f (x # xs) s = bindE (f x s) (foldE f xs)"

lemma foldE_cong [fundef_cong]:
  "xs = ys \<Longrightarrow> s = t \<Longrightarrow> (\<And>x s. x \<in> set ys \<Longrightarrow> f x s = g x s) \<Longrightarrow> foldE f xs s = foldE g ys t"
proof (induction ys arbitrary: xs s t)
  case (Cons y ys)
  then show ?case by (cases "g y t") auto
qed simp

lemma foldE_append: "foldE f (xs @ ys) s = bindE (foldE f xs s) (foldE f ys)"
proof (induction xs arbitrary: s)
  case (Cons x xs)
  then show ?case by (cases "f x s") auto
qed simp

lemma foldE_Inl: "foldE f xs s = Inl e \<Longrightarrow> \<exists>x \<in> set xs. \<exists>t. f x t = Inl e"
  by (induction xs arbitrary: s) (auto simp: bindE_eq_Inl)

lemma foldE_invariant:
  assumes "foldE f xs s = Inr t" "P s" "\<And>x s t. x \<in> set xs \<Longrightarrow> f x s = Inr t \<Longrightarrow> P s \<Longrightarrow> P t"
  shows "P t"
  using assms by (induction xs arbitrary: s) (auto simp: bindE_eq_Inr)

lemma foldE_each: "foldE f xs s = Inr t \<Longrightarrow> x \<in> set xs \<Longrightarrow> \<exists>a b. f x a = Inr b"
  by (induction xs arbitrary: s) (auto simp: bindE_eq_Inr)

text \<open>A loop over \<open>xs\<close> that may return early with an error and has no other result.\<close>

fun eachE :: "('a \<Rightarrow> 'e + unit) \<Rightarrow> 'a list \<Rightarrow> 'e + unit" where
  "eachE f [] = Inr ()"
| "eachE f (x # xs) = bindE (f x) (\<lambda>_. eachE f xs)"

lemma eachE_cong [fundef_cong]:
  "xs = ys \<Longrightarrow> (\<And>x. x \<in> set ys \<Longrightarrow> f x = g x) \<Longrightarrow> eachE f xs = eachE g ys"
  by (induction ys arbitrary: xs) auto

lemma eachE_Inr: "eachE f xs = Inr u \<longleftrightarrow> (\<forall>x \<in> set xs. f x = Inr ())"
  by (induction xs) (auto simp: bindE_eq_Inr)

text \<open>\<open>args[i].Value\<close>, which panics out of range.\<close>

definition argValueAt :: "arg list \<Rightarrow> nat \<Rightarrow> cfailure + string" where
  "argValueAt args i = (if i < length args then Inr (argValue (args ! i)) else Inl Panic)"

lemma argValueAt_ok [simp]: "i < length args \<Longrightarrow> argValueAt args i = Inr (argValue (args ! i))"
  by (simp add: argValueAt_def)

subsection \<open>Runs without a panic\<close>

named_theorems safe_intros "why a check does not panic"

definition safeRun :: "cfailure + 'a \<Rightarrow> bool" where
  "safeRun m \<longleftrightarrow> m \<noteq> Inl Panic"

lemma safeRun_simps [simp]: "safeRun (Inr x)" "safeRun (Inl e) \<longleftrightarrow> e \<noteq> Panic"
  by (simp_all add: safeRun_def)

lemma safeRun_bindE [safe_intros]: "safeRun m \<Longrightarrow> (\<And>x. m = Inr x \<Longrightarrow> safeRun (f x)) \<Longrightarrow> safeRun (bindE m f)"
  by (cases m) auto

lemma safeRun_andThen [safe_intros]: "safeRun c \<Longrightarrow> (c = passed \<Longrightarrow> safeRun d) \<Longrightarrow> safeRun (andThen c d)"
  by (cases c) auto

lemma safeRun_checkAll [safe_intros]: "(\<And>x. x \<in> set xs \<Longrightarrow> safeRun (f x)) \<Longrightarrow> safeRun (checkAll f xs)"
  by (induction xs) (auto intro: safe_intros)

lemma safeRun_foldE [safe_intros]: "(\<And>x s. x \<in> set xs \<Longrightarrow> safeRun (f x s)) \<Longrightarrow> safeRun (foldE f xs s)"
  by (induction xs arbitrary: s) (auto intro: safe_intros)

lemma safe_argValueAt [safe_intros]: "i < length args \<Longrightarrow> safeRun (argValueAt args i)"
  by simp

lemma safeRun_if [safe_intros]: "(c \<Longrightarrow> safeRun a) \<Longrightarrow> (\<not> c \<Longrightarrow> safeRun b) \<Longrightarrow> safeRun (if c then a else b)"
  by simp

lemma safeRun_option [safe_intros]:
  "(x = None \<Longrightarrow> safeRun a) \<Longrightarrow> (\<And>y. x = Some y \<Longrightarrow> safeRun (f y)) \<Longrightarrow> safeRun (case x of None \<Rightarrow> a | Some y \<Rightarrow> f y)"
  by (cases x) auto

lemma safeRun_prod [safe_intros]: "(\<And>a b. x = (a, b) \<Longrightarrow> safeRun (f a b)) \<Longrightarrow> safeRun (case x of (a, b) \<Rightarrow> f a b)"
  by (cases x) auto

lemma safeRun_result [safe_intros]: "safeRun (Inr x)" "safeRun (Inl (CompileError p l c d m))"
  by simp_all

text \<open>Keys met one after another are distinct when each step refuses a key already in its map.\<close>

lemma foldE_keys:
  assumes step: "\<And>x s t. x \<in> set xs \<Longrightarrow> f x s = Inr t \<Longrightarrow> m s (key x) = None \<and> m t = (m s)(key x \<mapsto> val x)"
  shows "foldE f xs s = Inr t \<Longrightarrow>
    distinct (map key xs) \<and> (\<forall>x \<in> set xs. m s (key x) = None) \<and> dom (m t) = dom (m s) \<union> key ` set xs"
  using step
proof (induction xs arbitrary: s)
  case (Cons x xs)
  then obtain s1 where 1: "f x s = Inr s1" "foldE f xs s1 = Inr t" by (auto simp: bindE_eq_Inr)
  from Cons.prems(2) [OF _ 1(1)] have 2: "m s (key x) = None" "m s1 = (m s)(key x \<mapsto> val x)" by auto
  have 3: "distinct (map key xs) \<and> (\<forall>y \<in> set xs. m s1 (key y) = None) \<and> dom (m t) = dom (m s1) \<union> key ` set xs"
    by (rule Cons.IH [OF 1(2)]) (use Cons.prems(2) in auto)
  then have y: "key y \<noteq> key x \<and> m s (key y) = None" if "y \<in> set xs" for y
    using 2(2) that by (metis fun_upd_apply option.discI)
  then have "key x \<notin> key ` set xs" by (metis imageE)
  with 2 3 y show ?case by auto
qed simp

text \<open>The same for steps that add several keys.\<close>

lemma foldE_disjoint:
  assumes step: "\<And>x s t. x \<in> set xs \<Longrightarrow> f x s = Inr t \<Longrightarrow>
      distinct (keys x) \<and> set (keys x) \<inter> dom (m s) = {} \<and> dom (m t) = dom (m s) \<union> set (keys x)"
  shows "foldE f xs s = Inr t \<Longrightarrow>
    distinct (concat (map keys xs)) \<and> set (concat (map keys xs)) \<inter> dom (m s) = {} \<and>
    dom (m t) = dom (m s) \<union> set (concat (map keys xs))"
  using step
proof (induction xs arbitrary: s)
  case (Cons x xs)
  then obtain s1 where 1: "f x s = Inr s1" "foldE f xs s1 = Inr t" by (auto simp: bindE_eq_Inr)
  have 2: "distinct (keys x) \<and> set (keys x) \<inter> dom (m s) = {} \<and> dom (m s1) = dom (m s) \<union> set (keys x)"
    by (rule Cons.prems(2) [OF _ 1(1)]) simp
  have 3: "distinct (concat (map keys xs)) \<and> set (concat (map keys xs)) \<inter> dom (m s1) = {} \<and>
      dom (m t) = dom (m s1) \<union> set (concat (map keys xs))"
    by (rule Cons.IH [OF 1(2)]) (use Cons.prems(2) in auto)
  from 2 3 show ?case by auto
qed simp

end
