(* ===== verification/GoPath.thy ===== *)
theory GoPath
  imports GoStrings
begin

text \<open>
  \<open>path.Clean\<close> and the \<open>path/filepath\<close> functions the compiler uses, on a Unix system: lexical
  processing of slash-separated elements. \<open>FromSlash\<close> is the identity there.
\<close>

text \<open>One element against the elements kept so far, the last one first.\<close>

definition cleanStep :: "bool \<Rightarrow> string list \<Rightarrow> string \<Rightarrow> string list" where
  "cleanStep rooted kept el =
     (if el = [] \<or> el = ''.'' then kept
      else if el = ''..'' then
        (case kept of
           [] \<Rightarrow> if rooted then [] else [''..'']
         | k # ks \<Rightarrow> if k = ''..'' then ''..'' # kept else ks)
      else el # kept)"

definition isAbs :: "string \<Rightarrow> bool" where "isAbs p = hasPrefix p ''/''"

definition pathClean :: "string \<Rightarrow> string" where
  "pathClean p =
     (let rooted = isAbs p;
          out = joinWith ''/'' (rev (foldl (cleanStep rooted) [] (splitOn (CHR ''/'') p))) in
      if rooted then ''/'' @ out else if out = [] then ''.'' else out)"

text \<open>The text up to and including the last slash.\<close>

definition dirPart :: "string \<Rightarrow> string" where
  "dirPart p = rev (dropWhile (\<lambda>c. c \<noteq> CHR ''/'') (rev p))"

definition pathDir :: "string \<Rightarrow> string" where "pathDir p = pathClean (dirPart p)"

definition pathJoin :: "string \<Rightarrow> string \<Rightarrow> string" where
  "pathJoin a b = (if a = [] then (if b = [] then [] else pathClean b) else pathClean (a @ ''/'' @ b))"

subsection \<open>Cleaning twice\<close>

text \<open>The elements that survive: no empty one, no dot, and dot-dots only at the front of a relative path.\<close>

definition plainEl :: "string \<Rightarrow> bool" where
  "plainEl el \<longleftrightarrow> el \<noteq> [] \<and> el \<noteq> ''.'' \<and> CHR ''/'' \<notin> set el"

definition keptOk :: "bool \<Rightarrow> string list \<Rightarrow> bool" where
  "keptOk rooted kept \<longleftrightarrow> (\<forall>el \<in> set kept. plainEl el) \<and>
     (\<exists>names dots. kept = names @ dots \<and> (\<forall>el \<in> set names. el \<noteq> ''..'') \<and> (\<forall>el \<in> set dots. el = ''..'') \<and>
        (rooted \<longrightarrow> dots = []))"

lemma keptOk_Nil [simp]: "keptOk rooted []"
  by (simp add: keptOk_def)

lemma keptOk_tl: "keptOk rooted (k # ks) \<Longrightarrow> keptOk rooted ks"
  unfolding keptOk_def
proof (elim conjE exE)
  fix names dots
  assume *: "\<forall>el\<in>set (k # ks). plainEl el" "k # ks = names @ dots" "\<forall>el\<in>set names. el \<noteq> ''..''"
    "\<forall>el\<in>set dots. el = ''..''" "rooted \<longrightarrow> dots = []"
  show "(\<forall>el\<in>set ks. plainEl el) \<and> (\<exists>names dots. ks = names @ dots \<and> (\<forall>el\<in>set names. el \<noteq> ''..'') \<and>
      (\<forall>el\<in>set dots. el = ''..'') \<and> (rooted \<longrightarrow> dots = []))"
  proof (cases names)
    case Nil
    then have "ks = [] @ ks \<and> (\<forall>el\<in>set ks. el = ''..'') \<and> (rooted \<longrightarrow> ks = [])" using * by auto
    then show ?thesis using *(1) by (intro conjI exI [of _ "[]"] exI [of _ ks]) auto
  next
    case (Cons n ns)
    then have "ks = ns @ dots" "\<forall>el\<in>set ns. el \<noteq> ''..''" using * by auto
    then show ?thesis using * by (intro conjI exI [of _ ns] exI [of _ dots]) auto
  qed
qed

lemma keptOk_dots: "keptOk rooted (''..'' # ks) \<Longrightarrow> \<not> rooted \<and> (\<forall>el \<in> set ks. el = ''..'')"
  unfolding keptOk_def by (auto simp: Cons_eq_append_conv)

lemma keptOk_step:
  assumes "keptOk rooted kept" "CHR ''/'' \<notin> set el"
  shows "keptOk rooted (cleanStep rooted kept el)"
proof -
  consider "el = [] \<or> el = ''.''" | "el = ''..''" | "el \<noteq> []" "el \<noteq> ''.''" "el \<noteq> ''..''" by blast
  then show ?thesis
  proof cases
    case 1
    then show ?thesis using assms(1) by (auto simp: cleanStep_def)
  next
    case 2
    show ?thesis
    proof (cases kept)
      case Nil
      have "keptOk False [''..'']"
        unfolding keptOk_def by (intro conjI exI [of _ "[]"] exI [of _ "[''..'']"]) (simp_all add: plainEl_def)
      then show ?thesis using 2 Nil by (simp add: cleanStep_def)
    next
      case (Cons k ks)
      show ?thesis
      proof (cases "k = ''..''")
        case True
        with Cons assms(1) have d: "\<not> rooted" "\<forall>el \<in> set kept. el = ''..''" using keptOk_dots [of rooted ks] by auto
        have "keptOk rooted (''..'' # kept)"
          unfolding keptOk_def using d
          by (intro conjI exI [of _ "[]"] exI [of _ "''..'' # kept"]) (auto simp: plainEl_def)
        then show ?thesis using 2 Cons True by (simp add: cleanStep_def)
      next
        case False
        then show ?thesis using 2 Cons assms(1) keptOk_tl [of rooted k ks] by (simp add: cleanStep_def)
      qed
    qed
  next
    case 3
    then have p: "plainEl el" using assms(2) by (simp add: plainEl_def)
    from assms(1) obtain names dots where k: "\<forall>x \<in> set kept. plainEl x" "kept = names @ dots" "\<forall>x \<in> set names. x \<noteq> ''..''"
      "\<forall>x \<in> set dots. x = ''..''" "rooted \<longrightarrow> dots = []" unfolding keptOk_def by blast
    have "keptOk rooted (el # kept)"
      unfolding keptOk_def using k p 3 by (intro conjI exI [of _ "el # names"] exI [of _ dots]) auto
    then show ?thesis using 3 by (simp add: cleanStep_def)
  qed
qed

lemma keptOk_fold:
  "keptOk rooted kept \<Longrightarrow> \<forall>el \<in> set els. CHR ''/'' \<notin> set el \<Longrightarrow> keptOk rooted (foldl (cleanStep rooted) kept els)"
  by (induction els arbitrary: kept) (auto intro: keptOk_step)

text \<open>Kept elements are kept again.\<close>

lemma cleanStep_kept: "keptOk rooted (el # kept) \<Longrightarrow> cleanStep rooted kept el = el # kept"
proof (cases "el = ''..''")
  case True
  assume k: "keptOk rooted (el # kept)"
  with True have "\<not> rooted" "\<forall>x \<in> set kept. x = ''..''" using keptOk_dots [of rooted kept] by auto
  with True show ?thesis by (cases kept) (auto simp: cleanStep_def)
next
  case False
  assume "keptOk rooted (el # kept)"
  then have "plainEl el" by (simp add: keptOk_def)
  with False show ?thesis by (simp add: cleanStep_def plainEl_def)
qed

lemma fold_kept: "keptOk rooted kept \<Longrightarrow> foldl (cleanStep rooted) [] (rev kept) = kept"
proof (induction kept)
  case (Cons k ks)
  then show ?case using keptOk_tl [OF Cons.prems] cleanStep_kept [OF Cons.prems] by simp
qed simp

lemma pathClean_idem: "pathClean (pathClean p) = pathClean p"
proof -
  define kept where "kept = foldl (cleanStep (isAbs p)) [] (splitOn (CHR ''/'') p)"
  have ok: "keptOk (isAbs p) kept"
    unfolding kept_def by (rule keptOk_fold) (auto dest: splitOn_noSep)
  have plain: "\<forall>el \<in> set (rev kept). plainEl el" using ok by (simp add: keptOk_def)
  have clean: "pathClean p = (if isAbs p then ''/'' @ joinWith ''/'' (rev kept)
      else if joinWith ''/'' (rev kept) = [] then ''.'' else joinWith ''/'' (rev kept))"
    by (simp add: pathClean_def Let_def kept_def)
  show ?thesis
  proof (cases "kept = []")
    case True
    then show ?thesis unfolding clean
      by (cases "isAbs p") (simp_all add: pathClean_def Let_def isAbs_def hasPrefix_def cleanStep_def)
  next
    case False
    have noSep: "\<forall>el \<in> set (rev kept). CHR ''/'' \<notin> set el" using plain by (simp add: plainEl_def)
    have split: "splitOn (CHR ''/'') (joinWith ''/'' (rev kept)) = rev kept"
      using split_join [OF _ noSep] False by simp
    obtain c cs rest where hd: "rev kept = (c # cs) # rest"
      using False plain by (cases "rev kept"; cases "hd (rev kept)") (auto simp: plainEl_def)
    have c: "c \<noteq> CHR ''/''" using noSep hd by auto
    have j: "\<exists>t. joinWith ''/'' (rev kept) = c # t" unfolding hd by (cases rest) auto
    show ?thesis
    proof (cases "isAbs p")
      case True
      have "foldl (cleanStep True) [] (splitOn (CHR ''/'') (CHR ''/'' # joinWith ''/'' (rev kept))) = kept"
        using fold_kept [OF ok] True by (simp add: split cleanStep_def)
      then show ?thesis using True unfolding clean by (simp add: pathClean_def Let_def isAbs_def hasPrefix_def)
    next
      case f: False
      have "\<not> isAbs (joinWith ''/'' (rev kept))" using j c by (auto simp: isAbs_def hasPrefix_def)
      then have "pathClean (joinWith ''/'' (rev kept)) = joinWith ''/'' (rev kept)"
        using fold_kept [OF ok] f j by (auto simp: pathClean_def Let_def split)
      then show ?thesis using f j unfolding clean by auto
    qed
  qed
qed

end
