(* ===== verification/GoFloat.thy ===== *)
theory GoFloat
  imports GoInt Complex_Main
begin

text \<open>
  Go's \<open>float64\<close>: IEEE 754 binary64 with rounding to nearest, ties to even. A finite value is
  \<open>FNum s m e\<close> for \<open>(-1)^s * m * 2^e\<close>; \<open>canonical\<close> says that it is one of the representable
  values in its unique form. Every operation computes the exact result and rounds it once
  (\<open>roundF\<close>), as the standard requires. \<open>strconv.ParseFloat\<close> on a number token rounds the
  exact decimal value in the same way.
\<close>

datatype f64 = FNaN | FInf bool | FNum bool int int

definition fzero :: "bool \<Rightarrow> f64" where "fzero s = FNum s 0 (- 1074)"

definition canonical :: "f64 \<Rightarrow> bool" where
  "canonical x = (case x of
     FNum s m e \<Rightarrow> 0 \<le> m \<and> m < 2 ^ 53 \<and> - 1074 \<le> e \<and> e \<le> 971 \<and> (2 ^ 52 \<le> m \<or> e = - 1074)
   | _ \<Rightarrow> True)"

definition isFinite :: "f64 \<Rightarrow> bool" where
  "isFinite x = (case x of FNum _ _ _ \<Rightarrow> True | _ \<Rightarrow> False)"

function bitlen :: "int \<Rightarrow> int" where
  "bitlen n = (if n \<le> 0 then 0 else 1 + bitlen (n div 2))"
  by pat_completeness auto
termination by (relation "measure nat") auto

declare bitlen.simps [simp del]

text \<open>\<open>num / den / 2^e\<close> as a fraction.\<close>

definition scaleNum :: "int \<Rightarrow> int \<Rightarrow> int" where
  "scaleNum num e = (if 0 \<le> e then num else num * 2 ^ nat (- e))"

definition scaleDen :: "int \<Rightarrow> int \<Rightarrow> int" where
  "scaleDen den e = (if 0 \<le> e then den * 2 ^ nat e else den)"

text \<open>The nearest integer to \<open>a / b\<close>, ties to even.\<close>

definition roundDiv :: "int \<Rightarrow> int \<Rightarrow> int" where
  "roundDiv a b =
     (let q = a div b; r = a mod b in
      if b < 2 * r \<or> (b = 2 * r \<and> odd q) then q + 1 else q)"

text \<open>The exponent at which \<open>num / den\<close> has a 53-bit integer part, at least the smallest one.\<close>

definition exponentOf :: "int \<Rightarrow> int \<Rightarrow> int" where
  "exponentOf num den =
     (let e0 = bitlen num - bitlen den - 53;
          e1 = (if 2 ^ 53 \<le> scaleNum num e0 div scaleDen den e0 then e0 + 1 else e0) in
      max (- 1074) e1)"

definition roundF :: "bool \<Rightarrow> int \<Rightarrow> int \<Rightarrow> f64" where
  "roundF s num den =
     (if num = 0 then fzero s
      else
        let e = exponentOf num den;
            m = roundDiv (scaleNum num e) (scaleDen den e);
            m' = (if m = 2 ^ 53 then 2 ^ 52 else m);
            e' = (if m = 2 ^ 53 then e + 1 else e) in
        if 971 < e' then FInf s else FNum s m' e')"

text \<open>\<open>m * 2^e\<close> rounded.\<close>

definition roundDyadic :: "bool \<Rightarrow> int \<Rightarrow> int \<Rightarrow> f64" where
  "roundDyadic s m e = (if 0 \<le> e then roundF s (m * 2 ^ nat e) 1 else roundF s m (2 ^ nat (- e)))"

subsection \<open>Arithmetic\<close>

fun fneg :: "f64 \<Rightarrow> f64" where
  "fneg FNaN = FNaN"
| "fneg (FInf s) = FInf (\<not> s)"
| "fneg (FNum s m e) = FNum (\<not> s) m e"

definition signedMant :: "bool \<Rightarrow> int \<Rightarrow> int" where
  "signedMant s m = (if s then - m else m)"

text \<open>The numerator of \<open>x\<close> over the common exponent \<open>c \<le> e\<close>.\<close>

definition alignTo :: "int \<Rightarrow> bool \<Rightarrow> int \<Rightarrow> int \<Rightarrow> int" where
  "alignTo c s m e = signedMant s m * 2 ^ nat (e - c)"

fun fadd :: "f64 \<Rightarrow> f64 \<Rightarrow> f64" where
  "fadd FNaN y = FNaN"
| "fadd (FInf s) FNaN = FNaN"
| "fadd (FNum s m e) FNaN = FNaN"
| "fadd (FInf s) (FInf t) = (if s = t then FInf s else FNaN)"
| "fadd (FInf s) (FNum t m e) = FInf s"
| "fadd (FNum s m e) (FInf t) = FInf t"
| "fadd (FNum s m e) (FNum t n f) =
     (let c = min e f; z = alignTo c s m e + alignTo c t n f in
      if z = 0 then fzero (m = 0 \<and> n = 0 \<and> s \<and> t)
      else roundDyadic (z < 0) \<bar>z\<bar> c)"

definition fsub :: "f64 \<Rightarrow> f64 \<Rightarrow> f64" where "fsub x y = fadd x (fneg y)"

definition fisZero :: "f64 \<Rightarrow> bool" where
  "fisZero x = (case x of FNum _ m _ \<Rightarrow> m = 0 | _ \<Rightarrow> False)"

fun fmul :: "f64 \<Rightarrow> f64 \<Rightarrow> f64" where
  "fmul FNaN y = FNaN"
| "fmul (FInf s) FNaN = FNaN"
| "fmul (FNum s m e) FNaN = FNaN"
| "fmul (FInf s) (FInf t) = FInf (s \<noteq> t)"
| "fmul (FInf s) (FNum t m e) = (if m = 0 then FNaN else FInf (s \<noteq> t))"
| "fmul (FNum s m e) (FInf t) = (if m = 0 then FNaN else FInf (s \<noteq> t))"
| "fmul (FNum s m e) (FNum t n f) = roundDyadic (s \<noteq> t) (m * n) (e + f)"

fun fdiv :: "f64 \<Rightarrow> f64 \<Rightarrow> f64" where
  "fdiv FNaN y = FNaN"
| "fdiv (FInf s) FNaN = FNaN"
| "fdiv (FNum s m e) FNaN = FNaN"
| "fdiv (FInf s) (FInf t) = FNaN"
| "fdiv (FInf s) (FNum t m e) = FInf (s \<noteq> t)"
| "fdiv (FNum s m e) (FInf t) = fzero (s \<noteq> t)"
| "fdiv (FNum s m e) (FNum t n f) =
     (if n = 0 then (if m = 0 then FNaN else FInf (s \<noteq> t))
      else if f \<le> e then roundF (s \<noteq> t) (m * 2 ^ nat (e - f)) n
      else roundF (s \<noteq> t) m (n * 2 ^ nat (f - e)))"

subsection \<open>Comparison\<close>

fun fless :: "f64 \<Rightarrow> f64 \<Rightarrow> bool" where
  "fless FNaN y = False"
| "fless (FInf s) FNaN = False"
| "fless (FNum s m e) FNaN = False"
| "fless (FInf s) (FInf t) = (s \<and> \<not> t)"
| "fless (FInf s) (FNum t n f) = s"
| "fless (FNum s m e) (FInf t) = (\<not> t)"
| "fless (FNum s m e) (FNum t n f) =
     (let c = min e f in alignTo c s m e < alignTo c t n f)"

fun feq :: "f64 \<Rightarrow> f64 \<Rightarrow> bool" where
  "feq FNaN y = False"
| "feq (FInf s) FNaN = False"
| "feq (FNum s m e) FNaN = False"
| "feq (FInf s) (FInf t) = (s = t)"
| "feq (FInf s) (FNum t n f) = False"
| "feq (FNum s m e) (FInf t) = False"
| "feq (FNum s m e) (FNum t n f) =
     (let c = min e f in alignTo c s m e = alignTo c t n f)"

subsection \<open>Conversions\<close>

definition ofInt :: "int \<Rightarrow> f64" where "ofInt z = roundF (z < 0) \<bar>z\<bar> 1"

text \<open>The conversion \<open>int64(c)\<close> of a finite double drops its fraction.\<close>

definition truncInt :: "bool \<Rightarrow> int \<Rightarrow> int \<Rightarrow> int" where
  "truncInt s m e = signedMant s (if 0 \<le> e then m * 2 ^ nat e else m div 2 ^ nat (- e))"

definition f2p63 :: f64 where "f2p63 = FNum False (2 ^ 52) 11"

text \<open>The exponent of a number: an optional sign and digits.\<close>

definition parseExp :: "string \<Rightarrow> int option" where
  "parseExp s =
     (let neg = (s \<noteq> [] \<and> hd s = CHR ''-'');
          t = (if s \<noteq> [] \<and> (hd s = CHR ''-'' \<or> hd s = CHR ''+'') then tl s else s) in
      map_option (\<lambda>n. if neg then - n else n) (decimalInt t))"

text \<open>
  A number token: digits, an optional fraction, an optional exponent. \<open>None\<close> when the text is
  not of that form.
\<close>

definition parseFloatTok :: "string \<Rightarrow> f64 option" where
  "parseFloatTok s =
     (let ip = takeWhile isDigit s; r1 = dropWhile isDigit s;
          hasDot = (r1 \<noteq> [] \<and> hd r1 = CHR ''.'');
          fp = (if hasDot then takeWhile isDigit (tl r1) else []);
          r2 = (if hasDot then dropWhile isDigit (tl r1) else r1);
          hasExp = (r2 \<noteq> [] \<and> (hd r2 = CHR ''e'' \<or> hd r2 = CHR ''E''));
          ex = (if hasExp then parseExp (tl r2) else if r2 = [] then Some 0 else None) in
      if ip @ fp = [] then None
      else map_option (\<lambda>x.
        let m = digitsVal (ip @ fp); d = x - int (length fp) in
        if 0 \<le> d then roundF False (m * 10 ^ nat d) 1 else roundF False m (10 ^ nat (- d))) ex)"

subsection \<open>Rounding gives a canonical value\<close>

lemma bitlen_0 [simp]: "bitlen 0 = 0" by (subst bitlen.simps) simp
lemma bitlen_pos: "0 < n \<Longrightarrow> 0 < bitlen n \<and> 2 ^ nat (bitlen n - 1) \<le> n \<and> n < 2 ^ nat (bitlen n)"
proof (induction n rule: bitlen.induct)
  case (1 n)
  then have eq: "bitlen n = 1 + bitlen (n div 2)" by (subst bitlen.simps) simp
  show ?case
  proof (cases "n = 1")
    case True
    have "bitlen 1 = 1" by (subst bitlen.simps) simp
    with True show ?thesis by simp
  next
    case False
    with 1(2) have n2: "0 < n div 2" by linarith
    with 1 have b: "0 < bitlen (n div 2)" "2 ^ nat (bitlen (n div 2) - 1) \<le> n div 2" "n div 2 < 2 ^ nat (bitlen (n div 2))"
     by auto
    obtain k where k: "bitlen (n div 2) = int (Suc k)" using b(1)  
      by (metis Suc_pred' nat_0_le less_imp_le zero_less_nat_eq)
    have nb: "nat (bitlen n - 1) = Suc k" "nat (bitlen n) = Suc (Suc k)" "0 < bitlen n"
      using k eq by auto
    have "nat (bitlen (n div 2) - 1) = k" "nat (bitlen (n div 2)) = Suc k" using k by auto
    then have "2 ^ k \<le> n div 2" "n div 2 < 2 ^ Suc k" using b(2,3) by (simp_all only:)
    then have "2 ^ Suc k \<le> n" "n < 2 ^ Suc (Suc k)" unfolding power_Suc by linarith+
    then show ?thesis by (simp only: nb simp_thms)
  qed
qed

lemma scale_ratio: "0 < den \<Longrightarrow> of_int (scaleNum num e) / of_int (scaleDen den e) = (of_int num / of_int den :: real) * 2 powi (- e)"
  by (auto simp: scaleNum_def scaleDen_def power_int_def divide_simps)

lemma scaleDen_pos: "0 < den \<Longrightarrow> 0 < scaleDen den e" by (simp add: scaleDen_def)
lemma scaleNum_nonneg: "0 \<le> num \<Longrightarrow> 0 \<le> scaleNum num e" by (simp add: scaleNum_def)

lemma scale_div_less: "0 < den \<Longrightarrow> scaleNum num e div scaleDen den e < k \<longleftrightarrow> (of_int num / of_int den :: real) * 2 powi (- e) < of_int k"
  by (simp only: scale_ratio [symmetric] floor_divide_of_int_eq [symmetric, where ?'a=real] floor_less_iff)

lemma scale_div_ge: "0 < den \<Longrightarrow> k \<le> scaleNum num e div scaleDen den e \<longleftrightarrow> of_int k \<le> (of_int num / of_int den :: real) * 2 powi (- e)"
  by (simp only: scale_ratio [symmetric] floor_divide_of_int_eq [symmetric, where ?'a=real] le_floor_iff)

lemma bitlen_real: "0 < n \<Longrightarrow> 2 powi (bitlen n - 1) \<le> (of_int n :: real) \<and> of_int n < (2 :: real) powi (bitlen n)"
  using bitlen_pos[of n] 
  by (simp add: power_int_def)

lemma ratio_bounds: assumes "0 < num" "0 < den"
  defines "x \<equiv> (of_int num / of_int den :: real)" and "l \<equiv> bitlen num - bitlen den"
  shows "2 powi (l - 1) < x" "x < 2 powi (l + 1)"
proof -
  have n: "2 powi (bitlen num - 1) \<le> (of_int num :: real)" "of_int num < (2 :: real) powi (bitlen num)"
   and d: "2 powi (bitlen den - 1) \<le> (of_int den :: real)" "of_int den < (2 :: real) powi (bitlen den)"
    using bitlen_real assms by auto
  have dp: "(of_int den :: real) > 0" using assms by simp
  have "2 powi (l - 1) * of_int den < (2::real) powi (l - 1) * 2 powi (bitlen den)"
    using d by simp
  also have "\<dots> = 2 powi (bitlen num - 1)" by (simp add: l_def flip: power_int_add)
  finally show "2 powi (l - 1) < x" using n dp by (simp add: x_def pos_less_divide_eq)
  have "(2::real) powi (bitlen num) = 2 powi (l + 1) * 2 powi (bitlen den - 1)" by (simp add: l_def flip: power_int_add)
  also have "\<dots> \<le> 2 powi (l + 1) * of_int den" using d by simp
  finally show "x < 2 powi (l + 1)" using n dp by (simp add: x_def pos_divide_less_eq)
qed

lemma exponentOf_bounds:
  assumes "0 < num" "0 < den"
  shows "- 1074 \<le> exponentOf num den"
    and "scaleNum num (exponentOf num den) div scaleDen den (exponentOf num den) < 2 ^ 53"
    and "exponentOf num den = - 1074 \<or>
      2 ^ 52 \<le> scaleNum num (exponentOf num den) div scaleDen den (exponentOf num den)"
proof -
  define x where "x = (of_int num / of_int den :: real)"
  define e0 where "e0 = bitlen num - bitlen den - 53"
  define e1 where "e1 = (if 2 ^ 53 \<le> scaleNum num e0 div scaleDen den e0 then e0 + 1 else e0)"
  have e: "exponentOf num den = max (- 1074) e1"
    by (simp add: exponentOf_def e1_def e0_def Let_def)
  have x0: "0 < x" using assms by (simp add: x_def)
  have lo: "2 powi (e0 + 52) < x" and hi: "x < 2 powi (e0 + 54)"
    using ratio_bounds [OF assms] by (simp_all add: x_def e0_def algebra_simps)
  have lo1: "2 ^ 52 \<le> x * 2 powi (- e1)" and hi1: "x * 2 powi (- e1) < 2 ^ 53"
  proof -
    have a: "2 ^ 52 < x * 2 powi (- e0)" "x * 2 powi (- e0) < 2 ^ 54"
      using lo hi by (simp_all add: power_int_minus field_simps power_int_add)
    have b: "x * 2 powi (- e0) = 2 * (x * 2 powi (- e0 - 1))"
      using power_int_add [of "2 :: real" "- e0 - 1" 1] by simp
    have g: "2 ^ 53 \<le> scaleNum num e0 div scaleDen den e0 \<longleftrightarrow> 2 ^ 53 \<le> x * 2 powi (- e0)"
      using scale_div_ge [OF assms(2), of "2 ^ 53" num e0] by (simp add: x_def)
    show "2 ^ 52 \<le> x * 2 powi (- e1)" "x * 2 powi (- e1) < 2 ^ 53"
      using a g b by (cases "2 ^ 53 \<le> scaleNum num e0 div scaleDen den e0"; simp add: e1_def del: mult_cancel_left; linarith)+
  qed
  show "- 1074 \<le> exponentOf num den" by (simp add: e)
  have "x * 2 powi (- exponentOf num den) \<le> x * 2 powi (- e1)"
    using x0 by (simp add: e power_int_increasing)
  with hi1 have "x * 2 powi (- exponentOf num den) < of_int (2 ^ 53)" by simp
  then show "scaleNum num (exponentOf num den) div scaleDen den (exponentOf num den) < 2 ^ 53"
    using scale_div_less [OF assms(2)] by (simp add: x_def)
  show "exponentOf num den = - 1074 \<or>
      2 ^ 52 \<le> scaleNum num (exponentOf num den) div scaleDen den (exponentOf num den)"
  proof (cases "e1 \<le> - 1074")
    case False
    then have "exponentOf num den = e1" by (simp add: e)
    with lo1 show ?thesis
      using scale_div_ge [OF assms(2), of "2 ^ 52" num e1] by (simp add: x_def)
  qed (simp add: e)
qed

lemma roundDiv_bounds: "a div b \<le> roundDiv a b" "roundDiv a b \<le> a div b + 1"
  by (simp_all add: roundDiv_def Let_def)

lemma canonical_fzero [simp]: "canonical (fzero s)"
  by (simp add: canonical_def fzero_def)

lemma roundF_canonical:
  assumes "0 \<le> num" "0 < den"
  shows "canonical (roundF s num den)"
proof (cases "num = 0")
  case False
  with assms have n: "0 < num" by simp
  note b = exponentOf_bounds [OF n assms(2)]
  define e where "e = exponentOf num den"
  define q where "q = scaleNum num e div scaleDen den e"
  define m where "m = roundDiv (scaleNum num e) (scaleDen den e)"
  have q: "q < 2 ^ 53" "- 1074 \<le> e" "e = - 1074 \<or> 2 ^ 52 \<le> q"
    using b by (auto simp: q_def e_def)
  have m: "q \<le> m" "m \<le> q + 1" using roundDiv_bounds by (auto simp: q_def m_def)
  have "0 \<le> q" unfolding q_def using scaleNum_nonneg [OF assms(1)] scaleDen_pos [OF assms(2)]
    by (simp add: pos_imp_zdiv_nonneg_iff)
  with q m have "m \<noteq> 2 ^ 53 \<Longrightarrow> 0 \<le> m \<and> m < 2 ^ 53 \<and> (2 ^ 52 \<le> m \<or> e = - 1074)"
    by (auto simp: )
  then show ?thesis using n q(2)
    by (auto simp: roundF_def canonical_def Let_def m_def [symmetric] e_def [symmetric])
qed (simp add: roundF_def)

lemma roundF_int:
  assumes "0 < n" "n < 2 ^ 53"
  shows "roundF s n 1 = FNum s (n * 2 ^ nat (53 - bitlen n)) (bitlen n - 53)"
proof -
  have bl: "0 < bitlen n" "2 ^ nat (bitlen n - 1) \<le> n" "n < 2 ^ nat (bitlen n)"
    using bitlen_pos [OF assms(1)] by auto
  have b53: "bitlen n \<le> 53"
  proof (rule ccontr)
    assume "\<not> bitlen n \<le> 53"
    then have "(2::int) ^ 53 \<le> 2 ^ nat (bitlen n - 1)" by (intro power_increasing) auto
    with bl(2) assms(2) show False by linarith
  qed
  have b1: "bitlen 1 = 1" by (subst bitlen.simps) simp
  define k where "k = nat (bitlen n - 1)"
  have k: "bitlen n = int k + 1" "k \<le> 52" using bl(1) b53 by (auto simp: k_def)
  have nk: "2 ^ k \<le> n" "n < 2 ^ Suc k" using bl k by (auto simp: nat_add_distrib)
  have sc: "scaleNum n (int k - 53) = n * 2 ^ (53 - k)" "scaleDen 1 (int k - 53) = 1"
    "scaleNum n (int k - 52) = n * 2 ^ (52 - k)" "scaleDen 1 (int k - 52) = 1"
    using k(2) by (auto simp: scaleNum_def scaleDen_def nat_diff_distrib intro!: arg_cong2 [where f = "(^)"])
  have g: "(2::int) ^ 53 \<le> n * 2 ^ (53 - k)"
  proof -
    have "(2::int) ^ 53 = 2 ^ k * 2 ^ (53 - k)" using k(2) by (simp flip: power_add)
    also have "\<dots> \<le> n * 2 ^ (53 - k)" using nk(1) by (intro mult_right_mono) simp_all
    finally show ?thesis .
  qed
  have g2: "(2::int) ^ 52 \<le> n * 2 ^ (52 - k)" "n * 2 ^ (52 - k) < 2 ^ 53"
  proof -
    have a: "(2::int) ^ 52 = 2 ^ k * 2 ^ (52 - k)" "(2::int) ^ 53 = 2 ^ Suc k * 2 ^ (52 - k)"
      using k(2) by (simp_all flip: power_add)
    show "(2::int) ^ 52 \<le> n * 2 ^ (52 - k)" unfolding a(1) using nk(1) by simp
    show "n * 2 ^ (52 - k) < 2 ^ 53" unfolding a(2) using nk(2) by (intro mult_strict_right_mono) simp_all
  qed
  have e: "exponentOf n 1 = int k - 52"
    using g k(2) by (simp add: exponentOf_def k(1) b1 sc Let_def)
  have "roundDiv (n * 2 ^ (52 - k)) 1 = n * 2 ^ (52 - k)" by (simp add: roundDiv_def)
  then show ?thesis
    using assms g2 k by (auto simp: roundF_def e sc Let_def nat_diff_distrib intro!: arg_cong2 [where f = "(^)"])
qed


lemma bitlen_le_53: "0 < n \<Longrightarrow> n < 2 ^ 53 \<Longrightarrow> bitlen n \<le> 53 \<and> 0 < bitlen n"
proof
  assume n: "0 < n" "n < 2 ^ 53"
  then have bl: "0 < bitlen n" "2 ^ nat (bitlen n - 1) \<le> n" using bitlen_pos [OF n(1)] by auto
  show "bitlen n \<le> 53"
  proof (rule ccontr)
    assume "\<not> bitlen n \<le> 53"
    then have "(2::int) ^ 53 \<le> 2 ^ nat (bitlen n - 1)" by (intro power_increasing) auto
    with bl(2) n(2) show False by linarith
  qed
  show "0 < bitlen n" by fact
qed

text \<open>Integers below \<open>2^53\<close> survive the conversion to a double and back.\<close>

lemma ofInt_exact:
  assumes "\<bar>z\<bar> < 2 ^ 53"
  shows "\<exists>m e. ofInt z = FNum (z < 0) m e \<and> truncInt (z < 0) m e = z \<and> e \<le> 0"
proof (cases "z = 0")
  case True
  then show ?thesis by (simp add: ofInt_def roundF_def fzero_def truncInt_def signedMant_def)
next
  case False
  with assms have n: "0 < \<bar>z\<bar>" "\<bar>z\<bar> < 2 ^ 53" by auto
  have b: "bitlen \<bar>z\<bar> - 53 \<le> 0" using bitlen_le_53 [OF n] by simp
  have "truncInt (z < 0) (\<bar>z\<bar> * 2 ^ nat (53 - bitlen \<bar>z\<bar>)) (bitlen \<bar>z\<bar> - 53) = z"
  proof (cases "bitlen \<bar>z\<bar> = 53")
    case False
    with b have "bitlen \<bar>z\<bar> - 53 < 0" by simp
    then show ?thesis by (simp add: truncInt_def signedMant_def)
  qed (simp add: truncInt_def signedMant_def)
  then show ?thesis using roundF_int [OF n] b by (simp add: ofInt_def)
qed

lemma roundDyadic_canonical: "0 \<le> m \<Longrightarrow> canonical (roundDyadic s m e)"
  by (simp add: roundDyadic_def roundF_canonical)

lemma canonical_mant_nonneg: "canonical (FNum s m e) \<Longrightarrow> 0 \<le> m"
  by (simp add: canonical_def)

lemma canonical_simps [simp]: "canonical FNaN" "canonical (FInf s)"
  by (simp_all add: canonical_def)

lemma fneg_canonical: "canonical x \<Longrightarrow> canonical (fneg x)"
  by (cases x) (auto simp: canonical_def)

lemma fadd_canonical: "canonical x \<Longrightarrow> canonical y \<Longrightarrow> canonical (fadd x y)"
  by (cases x; cases y) (auto simp: Let_def roundDyadic_canonical)

lemma fsub_canonical: "canonical x \<Longrightarrow> canonical y \<Longrightarrow> canonical (fsub x y)"
  by (simp add: fsub_def fadd_canonical fneg_canonical)

lemma fmul_canonical: "canonical x \<Longrightarrow> canonical y \<Longrightarrow> canonical (fmul x y)"
  by (cases x; cases y) (auto dest: canonical_mant_nonneg intro!: roundDyadic_canonical mult_nonneg_nonneg)

lemma fdiv_canonical: "canonical x \<Longrightarrow> canonical y \<Longrightarrow> canonical (fdiv x y)"
  by (cases x; cases y)
     (auto dest!: canonical_mant_nonneg intro!: roundF_canonical simp: less_le)

lemma ofInt_canonical: "canonical (ofInt z)"
  by (simp add: ofInt_def roundF_canonical)

lemmas float_canonical = fneg_canonical fadd_canonical fsub_canonical fmul_canonical
  fdiv_canonical ofInt_canonical

lemma takeWhile_digits: "list_all isDigit (takeWhile isDigit s)"
  by (simp add: list_all_iff) (metis set_takeWhileD)

lemma parseFloatTok_canonical: "parseFloatTok s = Some x \<Longrightarrow> canonical x"
proof -
  have d: "0 \<le> digitsVal (takeWhile isDigit s @ takeWhile isDigit t)"
    "0 \<le> digitsVal (takeWhile isDigit s)" for t
    by (rule digitsVal_nonneg, simp add: takeWhile_digits)+
  assume "parseFloatTok s = Some x"
  then show ?thesis
    by (auto simp: parseFloatTok_def Let_def d intro!: roundF_canonical split: if_splits)
qed

end
