(* ===== verification/Regex.thy ===== *)
theory Regex
  imports GoStrings Prelude
begin

text \<open>
  \<open>internal/onkexpr/regex.go\<close>: the check that a pattern is in the portable subset, on the runes
  \<open>src\<close> of the pattern and the index \<open>pos\<close> of the \<open>regexParser\<close>. Every function returns the new
  index with its result. \<open>errorf\<close> reports \<open>pos + 1\<close>. The budget \<open>k\<close> of \<open>alternation\<close> is
  \<open>maxRegexDepth + 1\<close> less the source's \<open>depth\<close>; a loop gets the number of runes left as its
  bound, and \<open>RxLoopBound\<close> is the overrun that the lemmas below exclude.
\<close>

definition maxRegexBytes :: nat where "maxRegexBytes = 256"
definition maxRegexDepth :: nat where "maxRegexDepth = 8"
definition maxRepeat :: nat where "maxRepeat = 1000"

datatype regexMsg = RxEmpty | RxTooLong | RxNotUtf8 | RxUnmatchedParen | RxTooDeep
  | RxNestedRepetition | RxRepeatsAlternation | RxEmptyAlternative | RxGroupOptions
  | RxMissingParen | RxDot | RxAnchor | RxNothingToRepeat rune | RxEscapeLiteral rune
  | RxTrailingBackslash | RxDashOutside | RxUnportableEscape rune | RxMissingBracket
  | RxEmptyClass | RxBackwardsRange rune rune | RxNestedBracket | RxDashInClass
  | RxCaretInClass | RxDoubled rune | RxLazy | RxPossessive | RxNumberExpected | RxOpenEnded
  | RxMissingBrace | RxBounds | RxLoopBound

record rxerror =
  rxAt :: "nat option"
  rxMsg :: regexMsg

type_synonym 'a rxres = "rxerror + 'a \<times> nat"

abbreviation rxErr :: "nat \<Rightarrow> regexMsg \<Rightarrow> rxerror" where
  "rxErr pos m \<equiv> \<lparr>rxAt = Some (pos + 1), rxMsg = m\<rparr>"

record regexInfo =
  repeats :: bool
  alternates :: bool

definition noInfo :: regexInfo where "noInfo = \<lparr>repeats = False, alternates = False\<rparr>"

text \<open>\<open>p.pos < len(p.src) && p.src[p.pos] == c\<close>.\<close>

definition runeIs :: "rune list \<Rightarrow> nat \<Rightarrow> char \<Rightarrow> bool" where
  "runeIs src pos c \<longleftrightarrow> pos < length src \<and> src ! pos = byte c"

definition isOneOf :: "rune \<Rightarrow> string \<Rightarrow> bool" where
  "isOneOf r cs \<longleftrightarrow> r \<in> byte ` set cs"

subsection \<open>Escapes and bracket classes\<close>

definition escapeRune :: "bool \<Rightarrow> rune list \<Rightarrow> nat \<Rightarrow> rune rxres" where
  "escapeRune inClass src pos0 =
     (let pos = pos0 + 1 in
      if length src \<le> pos then Inl (rxErr pos RxTrailingBackslash)
      else
        (let c = src ! pos; pos = pos + 1 in
         if c = byte CHR ''n'' then Inr (10, pos)
         else if c = byte CHR ''t'' then Inr (9, pos)
         else if c = byte CHR ''r'' then Inr (13, pos)
         else if c = 0x5C \<or> isOneOf c ''.^$|?*+()[]{}/'' then Inr (c, pos)
         else if c = byte CHR ''-'' then
           (if inClass then Inr (c, pos) else Inl (rxErr pos RxDashOutside))
         else Inl (rxErr pos (RxUnportableEscape c))))"

definition classChar :: "rune list \<Rightarrow> nat \<Rightarrow> rune rxres" where
  "classChar src pos =
     (let c = src ! pos in
      if c = 0x5C then escapeRune True src pos
      else if c = byte CHR ''['' then Inl (rxErr pos RxNestedBracket)
      else if c = byte CHR ''-'' then Inl (rxErr pos RxDashInClass)
      else if c = byte CHR ''^'' then Inl (rxErr pos RxCaretInClass)
      else if isOneOf c ''&|~'' \<and> 0 < pos \<and> src ! (pos - 1) = c then Inl (rxErr pos (RxDoubled c))
      else Inr (c, pos + 1))"

text \<open>
  The body of the loop of \<open>class\<close> after the checks for its end: one character or one range. The
  source does not guard the second \<open>classChar\<close>; the test before it says that a rune is left.
\<close>

definition classItem :: "rune list \<Rightarrow> nat \<Rightarrow> unit rxres" where
  "classItem src pos =
     bindE (classChar src pos) (\<lambda>(low, pos).
       if pos + 1 < length src \<and> src ! pos = byte CHR ''-'' \<and> src ! (pos + 1) \<noteq> byte CHR '']'' then
         bindE (classChar src (pos + 1)) (\<lambda>(high, pos).
           if high < low then Inl (rxErr pos (RxBackwardsRange low high)) else Inr ((), pos))
       else Inr ((), pos))"

fun classLoop :: "nat \<Rightarrow> nat \<Rightarrow> rune list \<Rightarrow> nat \<Rightarrow> unit rxres" where
  "classLoop 0 items src pos = Inl (rxErr pos RxLoopBound)"
| "classLoop (Suc n) items src pos =
     (if length src \<le> pos then Inl (rxErr pos RxMissingBracket)
      else if src ! pos = byte CHR '']'' then
        (if items = 0 then Inl (rxErr pos RxEmptyClass) else Inr ((), pos + 1))
      else bindE (classItem src pos) (\<lambda>(_, pos). classLoop n (items + 1) src pos))"

definition class1 :: "rune list \<Rightarrow> nat \<Rightarrow> unit rxres" where
  "class1 src pos0 =
     (let pos = pos0 + 1; pos = (if runeIs src pos CHR ''^'' then pos + 1 else pos) in
      classLoop (Suc (length src - pos)) 0 src pos)"

subsection \<open>Quantifiers\<close>

datatype quant = QuantNone | QuantOptional | QuantRepeat

definition isDigitRune :: "rune \<Rightarrow> bool" where
  "isDigitRune r \<longleftrightarrow> byte CHR ''0'' \<le> r \<and> r \<le> byte CHR ''9''"

definition clampDigit :: "nat \<Rightarrow> rune \<Rightarrow> nat" where
  "clampDigit v r = (let v = v * 10 + (r - byte CHR ''0'') in
     if v > maxRepeat * 10 then maxRepeat * 10 else v)"

definition number :: "rune list \<Rightarrow> nat \<Rightarrow> nat \<times> bool \<times> nat" where
  "number src pos =
     (let ds = takeWhile isDigitRune (drop pos src) in
      (foldl clampDigit 0 ds, ds \<noteq> [], pos + length ds))"

definition bounds :: "rune list \<Rightarrow> nat \<Rightarrow> unit rxres" where
  "bounds src pos0 =
     (let (low, ok, pos) = number src (pos0 + 1) in
      if \<not> ok then Inl (rxErr pos RxNumberExpected)
      else
        bindE
          (if runeIs src pos CHR '','' then
             (let (high, ok, pos) = number src (pos + 1) in
              if \<not> ok then Inl (rxErr pos RxOpenEnded) else Inr (high, pos))
           else Inr (low, pos))
          (\<lambda>(high, pos).
            if \<not> runeIs src pos CHR ''}'' then Inl (rxErr pos RxMissingBrace)
            else if high < low \<or> maxRepeat < high then Inl (rxErr (pos + 1) RxBounds)
            else Inr ((), pos + 1)))"

definition noSecondQuantifier :: "quant \<Rightarrow> rune list \<Rightarrow> nat \<Rightarrow> quant rxres" where
  "noSecondQuantifier q src pos =
     (if runeIs src pos CHR ''?'' then Inl (rxErr pos RxLazy)
      else if runeIs src pos CHR ''+'' then Inl (rxErr pos RxPossessive)
      else if runeIs src pos CHR ''*'' \<or> runeIs src pos CHR ''{'' then
        Inl (rxErr pos RxNestedRepetition)
      else Inr (q, pos))"

definition quantifier :: "rune list \<Rightarrow> nat \<Rightarrow> quant rxres" where
  "quantifier src pos =
     (if length src \<le> pos then Inr (QuantNone, pos)
      else if src ! pos = byte CHR ''?'' then noSecondQuantifier QuantOptional src (pos + 1)
      else if src ! pos = byte CHR ''*'' \<or> src ! pos = byte CHR ''+'' then
        noSecondQuantifier QuantRepeat src (pos + 1)
      else if src ! pos = byte CHR ''{'' then
        bindE (bounds src pos) (\<lambda>(_, pos). noSecondQuantifier QuantRepeat src pos)
      else Inr (QuantNone, pos))"

subsection \<open>Alternatives, concatenations, groups\<close>

type_synonym groupParser = "rune list \<Rightarrow> nat \<Rightarrow> regexInfo rxres"

definition atom :: "groupParser \<Rightarrow> groupParser" where
  "atom g src pos =
     (let c = src ! pos in
      if c = byte CHR ''('' then
        bindE
          (if runeIs src (pos + 1) CHR ''?'' then
             (if runeIs src (pos + 2) CHR '':'' then Inr (pos + 3)
              else Inl (rxErr (pos + 1) RxGroupOptions))
           else Inr (pos + 1)) (\<lambda>pos.
        bindE (g src pos) (\<lambda>(info, pos).
          if runeIs src pos CHR '')'' then Inr (info, pos + 1)
          else Inl (rxErr pos RxMissingParen)))
      else if c = byte CHR ''['' then bindE (class1 src pos) (\<lambda>(_, pos). Inr (noInfo, pos))
      else if c = 0x5C then bindE (escapeRune False src pos) (\<lambda>(_, pos). Inr (noInfo, pos))
      else if c = byte CHR ''.'' then Inl (rxErr pos RxDot)
      else if isOneOf c ''^$'' then Inl (rxErr pos RxAnchor)
      else if isOneOf c ''*+?{'' then Inl (rxErr pos (RxNothingToRepeat c))
      else if isOneOf c ''}]'' then Inl (rxErr pos (RxEscapeLiteral c))
      else Inr (noInfo, pos + 1))"

definition orInfo :: "regexInfo \<Rightarrow> regexInfo \<Rightarrow> regexInfo" where
  "orInfo a b = \<lparr>repeats = (repeats a \<or> repeats b), alternates = (alternates a \<or> alternates b)\<rparr>"

text \<open>One round of the loop of \<open>concat\<close>: an atom and its quantifier.\<close>

definition concatStep :: "groupParser \<Rightarrow> groupParser" where
  "concatStep g src pos =
     bindE (atom g src pos) (\<lambda>(a, pos).
     bindE (quantifier src pos) (\<lambda>(q, pos).
       if q = QuantRepeat then
         (if repeats a then Inl (rxErr pos RxNestedRepetition)
          else if alternates a then Inl (rxErr pos RxRepeatsAlternation)
          else Inr (a\<lparr>repeats := True\<rparr>, pos))
       else Inr (a, pos)))"

fun concatLoop :: "nat \<Rightarrow> nat \<Rightarrow> regexInfo \<Rightarrow> groupParser \<Rightarrow> groupParser" where
  "concatLoop 0 count info g src pos = Inl (rxErr pos RxLoopBound)"
| "concatLoop (Suc n) count info g src pos =
     (if pos < length src \<and> src ! pos \<noteq> byte CHR ''|'' \<and> src ! pos \<noteq> byte CHR '')'' then
        bindE (concatStep g src pos) (\<lambda>(a, pos). concatLoop n (count + 1) (orInfo info a) g src pos)
      else if count = 0 then Inl (rxErr pos RxEmptyAlternative)
      else Inr (info, pos))"

definition concat1 :: "groupParser \<Rightarrow> groupParser" where
  "concat1 g src pos = concatLoop (Suc (length src - pos)) 0 noInfo g src pos"

fun altLoop :: "nat \<Rightarrow> regexInfo \<Rightarrow> groupParser \<Rightarrow> groupParser" where
  "altLoop 0 info g src pos = Inl (rxErr pos RxLoopBound)"
| "altLoop (Suc n) info g src pos =
     bindE (concat1 g src pos) (\<lambda>(branch, pos).
       let info = orInfo info branch in
       if runeIs src pos CHR ''|'' then altLoop n (info\<lparr>alternates := True\<rparr>) g src (pos + 1)
       else Inr (info, pos))"

fun alternation :: "nat \<Rightarrow> groupParser" where
  "alternation 0 src pos = Inl (rxErr pos RxTooDeep)"
| "alternation (Suc k) src pos = altLoop (Suc (length src - pos)) noInfo (alternation k) src pos"

definition validateRegex :: "string \<Rightarrow> rxerror + unit" where
  "validateRegex re =
     (if re = [] then Inl \<lparr>rxAt = None, rxMsg = RxEmpty\<rparr>
      else if maxRegexBytes < length re then Inl \<lparr>rxAt = None, rxMsg = RxTooLong\<rparr>
      else if \<not> validString re then Inl \<lparr>rxAt = None, rxMsg = RxNotUtf8\<rparr>
      else
        (let src = runes re in
         bindE (alternation (Suc maxRegexDepth) src 0) (\<lambda>(_, pos).
           if pos < length src then Inl (rxErr pos RxUnmatchedParen) else Inr ())))"

end
