(* ===== verification/ExprAst.thy ===== *)
theory ExprAst
  imports Ir GoFloat Regex
begin

text \<open>
  The data of \<open>internal/onkexpr\<close>: errors with their offset (\<open>ast.go\<close>), tokens (\<open>lexer.go\<close>),
  the types of the rule language and its syntax tree (\<open>ast.go\<close>). An error's message is a
  value of \<open>emsg\<close> that carries what the source formats into the text.
\<close>

datatype ty = TyBool | TyInt | TyDouble | TyString | TyBytes | TyList ty | TyMap ty
  | TyMessage mref | TyEnum eref

text \<open>\<open>Type.Equal\<close>: pointer equality on messages and enums.\<close>

fun tyEqual :: "ty \<Rightarrow> ty \<Rightarrow> bool" where
  "tyEqual TyBool u = (case u of TyBool \<Rightarrow> True | _ \<Rightarrow> False)"
| "tyEqual TyInt u = (case u of TyInt \<Rightarrow> True | _ \<Rightarrow> False)"
| "tyEqual TyDouble u = (case u of TyDouble \<Rightarrow> True | _ \<Rightarrow> False)"
| "tyEqual TyString u = (case u of TyString \<Rightarrow> True | _ \<Rightarrow> False)"
| "tyEqual TyBytes u = (case u of TyBytes \<Rightarrow> True | _ \<Rightarrow> False)"
| "tyEqual (TyList a) u = (case u of TyList b \<Rightarrow> tyEqual a b | _ \<Rightarrow> False)"
| "tyEqual (TyMap a) u = (case u of TyMap b \<Rightarrow> tyEqual a b | _ \<Rightarrow> False)"
| "tyEqual (TyMessage m) u = (case u of TyMessage n \<Rightarrow> m = n | _ \<Rightarrow> False)"
| "tyEqual (TyEnum m) u = (case u of TyEnum n \<Rightarrow> m = n | _ \<Rightarrow> False)"

lemma tyEqual_iff [simp]: "tyEqual a b \<longleftrightarrow> a = b"
  by (induction a arbitrary: b) (auto split: ty.splits)

fun tyString :: "schema \<Rightarrow> ty \<Rightarrow> string" where
  "tyString S TyBool = ''bool''"
| "tyString S TyInt = ''int''"
| "tyString S TyDouble = ''double''"
| "tyString S TyString = ''string''"
| "tyString S TyBytes = ''bytes''"
| "tyString S (TyList t) = ''list<'' @ tyString S t @ ''>''"
| "tyString S (TyMap t) = ''map<string, '' @ tyString S t @ ''>''"
| "tyString S (TyMessage m) = mName (msgAt S m)"
| "tyString S (TyEnum e) = enName (enumAt S e)"

subsection \<open>Tokens and errors\<close>

datatype tokKind = TokEOF | TokIdent | TokInt | TokDouble | TokString | TokPunct

record token =
  tkKind :: tokKind
  tkText :: string
  tkPos :: nat

datatype lexMsg =
    SourceTooLong
  | UnexpectedChar rune
  | UnterminatedString
  | NeedFourHex
  | InvalidUnicodeEscape
  | UnknownEscape char

datatype parseMsg =
    UnexpectedEnd
  | UnexpectedToken token
  | ExpectedButEnded string
  | ExpectedGot string token
  | TooDeep
  | ChainedComparison
  | MacroNeedsVar string
  | IntTooLarge string
  | NumberOutOfRange string
  | LoopBound

text \<open>Why \<open>FieldType\<close> refuses a field.\<close>

datatype fieldMsg =
    OneofFieldUnusable string
  | Uint64FieldUnusable string
  | ScalarFieldUnusable scalarKind string
  | FieldUnusable string

text \<open>
  \<open>OperandTypes what ts hint\<close> stands for the messages of the form ``\<open>what\<close> needs \<open>...\<close>, not
  \<open>ts\<close>'', where \<open>hint\<close> says whether the int/double conversion hint is appended.
\<close>

datatype checkMsg =
    UnknownName string "string list"
  | EmptyListLiteral
  | ListElemsDiffer ty ty
  | ListElemKind
  | SelectNonMessage string ty
  | BadField fieldMsg
  | NoSuchField string string "string list"
  | CannotIndex ty
  | Arity string nat nat
  | HasNeedsField
  | OperandTypes string "ty list" bool
  | PatternNotLiteral
  | InvalidPattern string rxerror
  | UnknownFunction string
  | MacroOnNonList string ty
  | MacroBodyNotBool string ty
  | BranchesDiffer ty ty
  | BranchKind ty
  | UnsupportedOperator string
  | NotEnumValue string string "string list"
  | UncomparableKind string ty
  | EnumMemberNotLiteral
  | InContainer ty
  | RuleNotBool ty
  | CheckBound

datatype emsg = LexMsg lexMsg | ParseMsg parseMsg | CheckMsg checkMsg | EnvMsg fieldMsg

record xerror =
  eOffset :: nat
  eMsg :: emsg

abbreviation lexErr :: "nat \<Rightarrow> lexMsg \<Rightarrow> xerror" where
  "lexErr off m \<equiv> \<lparr>eOffset = off, eMsg = LexMsg m\<rparr>"

abbreviation parseErr :: "nat \<Rightarrow> parseMsg \<Rightarrow> xerror" where
  "parseErr off m \<equiv> \<lparr>eOffset = off, eMsg = ParseMsg m\<rparr>"

abbreviation checkErr :: "nat \<Rightarrow> checkMsg \<Rightarrow> xerror" where
  "checkErr off m \<equiv> \<lparr>eOffset = off, eMsg = CheckMsg m\<rparr>"

subsection \<open>The syntax tree\<close>

text \<open>
  Every node has the offset of its \<open>base\<close> and the type the checker stores in it (\<open>None\<close>
  until then). \<open>Select\<close> also has the field the checker resolves and \<open>Call\<close> the pattern of a
  checked \<open>matches\<close>.
\<close>

datatype node =
    IntLit nat "ty option" int64
  | DoubleLit nat "ty option" f64
  | StringLit nat "ty option" string
  | BoolLit nat "ty option" bool
  | ListLit nat "ty option" "node list"
  | Ident nat "ty option" string
  | Select nat "ty option" node string "field option"
  | Index nat "ty option" node node
  | Call nat "ty option" string "node list" string
  | Macro nat "ty option" string node string node
  | Unary nat "ty option" string node
  | Binary nat "ty option" string node node
  | Ternary nat "ty option" node node node

fun position :: "node \<Rightarrow> nat" where
  "position (IntLit p _ _) = p"
| "position (DoubleLit p _ _) = p"
| "position (StringLit p _ _) = p"
| "position (BoolLit p _ _) = p"
| "position (ListLit p _ _) = p"
| "position (Ident p _ _) = p"
| "position (Select p _ _ _ _) = p"
| "position (Index p _ _ _) = p"
| "position (Call p _ _ _ _) = p"
| "position (Macro p _ _ _ _ _) = p"
| "position (Unary p _ _ _) = p"
| "position (Binary p _ _ _ _) = p"
| "position (Ternary p _ _ _ _) = p"

fun nodeType :: "node \<Rightarrow> ty option" where
  "nodeType (IntLit _ t _) = t"
| "nodeType (DoubleLit _ t _) = t"
| "nodeType (StringLit _ t _) = t"
| "nodeType (BoolLit _ t _) = t"
| "nodeType (ListLit _ t _) = t"
| "nodeType (Ident _ t _) = t"
| "nodeType (Select _ t _ _ _) = t"
| "nodeType (Index _ t _ _) = t"
| "nodeType (Call _ t _ _ _) = t"
| "nodeType (Macro _ t _ _ _ _) = t"
| "nodeType (Unary _ t _ _) = t"
| "nodeType (Binary _ t _ _ _) = t"
| "nodeType (Ternary _ t _ _ _) = t"

fun setType :: "ty \<Rightarrow> node \<Rightarrow> node" where
  "setType t (IntLit p _ v) = IntLit p (Some t) v"
| "setType t (DoubleLit p _ v) = DoubleLit p (Some t) v"
| "setType t (StringLit p _ v) = StringLit p (Some t) v"
| "setType t (BoolLit p _ v) = BoolLit p (Some t) v"
| "setType t (ListLit p _ es) = ListLit p (Some t) es"
| "setType t (Ident p _ x) = Ident p (Some t) x"
| "setType t (Select p _ x n f) = Select p (Some t) x n f"
| "setType t (Index p _ x i) = Index p (Some t) x i"
| "setType t (Call p _ fn args re) = Call p (Some t) fn args re"
| "setType t (Macro p _ k r v b) = Macro p (Some t) k r v b"
| "setType t (Unary p _ op x) = Unary p (Some t) op x"
| "setType t (Binary p _ op l r) = Binary p (Some t) op l r"
| "setType t (Ternary p _ c a b) = Ternary p (Some t) c a b"

lemma nodeType_setType [simp]: "nodeType (setType t n) = Some t"
  by (cases n) auto

lemma position_setType [simp]: "position (setType t n) = position n"
  by (cases n) auto

text \<open>The height of a tree, which no annotation changes.\<close>

fun height :: "node \<Rightarrow> nat" where
  "height (IntLit _ _ _) = 0"
| "height (DoubleLit _ _ _) = 0"
| "height (StringLit _ _ _) = 0"
| "height (BoolLit _ _ _) = 0"
| "height (ListLit _ _ es) = Suc (fold max (map height es) 0)"
| "height (Ident _ _ _) = 0"
| "height (Select _ _ x _ _) = Suc (height x)"
| "height (Index _ _ x i) = Suc (max (height x) (height i))"
| "height (Call _ _ _ args _) = Suc (fold max (map height args) 0)"
| "height (Macro _ _ _ r _ b) = Suc (max (height r) (height b))"
| "height (Unary _ _ _ x) = Suc (height x)"
| "height (Binary _ _ _ l r) = Suc (max (height l) (height r))"
| "height (Ternary _ _ c a b) = Suc (max (height c) (max (height a) (height b)))"

lemma height_setType [simp]: "height (setType t n) = height n"
  by (cases n) auto

lemma fold_max_ge: "(a :: nat) \<le> fold max xs a"
proof (induction xs arbitrary: a)
  case (Cons x xs)
  have "a \<le> max x a" by simp
  also have "\<dots> \<le> fold max xs (max x a)" by (rule Cons.IH)
  finally show ?case by simp
qed simp

lemma fold_max_mem: "x \<in> set xs \<Longrightarrow> (x :: nat) \<le> fold max xs a"
proof (induction xs arbitrary: a)
  case (Cons y xs)
  show ?case
  proof (cases "x = y")
    case True
    have "y \<le> max y a" by simp
    also have "\<dots> \<le> fold max xs (max y a)" by (rule fold_max_ge)
    finally show ?thesis using True by simp
  qed (use Cons in auto)
qed simp

lemma height_elem: "e \<in> set es \<Longrightarrow> height e \<le> fold max (map height es) 0"
  by (rule fold_max_mem) simp

lemma fold_max_cong: "map height es = map height es' \<Longrightarrow>
  fold max (map height es) 0 = fold max (map height es') 0"
  by simp

end
