(* ===== verification/Lexer.thy ===== *)
theory Lexer
  imports ExprAst
begin

text \<open>
  \<open>internal/onkexpr/lexer.go\<close>. The source indexes the text; here a scanner gets the rest of
  the text from its index on and, where the code reports an offset, the index itself.
\<close>

definition maxSourceBytes :: nat where "maxSourceBytes = 1024"

definition maxDepth :: nat where "maxDepth = 48"

definition isIdentStart :: "char \<Rightarrow> bool" where
  "isIdentStart c \<longleftrightarrow> c = CHR ''_'' \<or> isLetter c"

definition isIdentPart :: "char \<Rightarrow> bool" where
  "isIdentPart c \<longleftrightarrow> isIdentStart c \<or> isDigit c"

definition isSpace :: "char \<Rightarrow> bool" where
  "isSpace c \<longleftrightarrow> c = CHR '' '' \<or> c = CHR 0x09 \<or> c = CHR 0x0A \<or> c = CHR 0x0D"

text \<open>The optional \<open>e[+-]digits\<close>: the text it takes, empty when there is no exponent.\<close>

definition scanExponent :: "string \<Rightarrow> string" where
  "scanExponent s =
     (case s of
        [] \<Rightarrow> []
      | c # r \<Rightarrow>
          if c = CHR ''e'' \<or> c = CHR ''E'' then
            let sign = (case r of d # _ \<Rightarrow> if d = CHR ''+'' \<or> d = CHR ''-'' then [d] else [] | [] \<Rightarrow> []);
                ds = takeWhile isDigit (drop (length sign) r) in
            if ds = [] then [] else c # sign @ ds
          else [])"

definition scanNumber :: "string \<Rightarrow> string \<times> tokKind" where
  "scanNumber src =
     (let ip = takeWhile isDigit src;
          r1 = dropWhile isDigit src;
          frac = (case r1 of c # d # _ \<Rightarrow>
                    if c = CHR ''.'' \<and> isDigit d then c # takeWhile isDigit (tl r1) else []
                  | _ \<Rightarrow> []);
          ex = scanExponent (drop (length frac) r1) in
      (ip @ frac @ ex, if frac = [] \<and> ex = [] then TokInt else TokDouble))"

definition puncts :: "string list" where
  "puncts = [''||'', ''&&'', ''=='', ''!='', ''<='', ''>='', ''<'', ''>'', ''+'', ''-'', ''*'',
     ''/'', ''%'', ''!'', ''?'', '':'', ''.'', '','', ''('', '')'', ''['', '']'']"

definition scanPunct :: "string \<Rightarrow> string" where
  "scanPunct src = (case find (hasPrefix src) puncts of Some p \<Rightarrow> p | None \<Rightarrow> [])"

definition hexDigit :: "char \<Rightarrow> nat option" where
  "hexDigit c =
     (let b = byte c in
      if 48 \<le> b \<and> b \<le> 57 then Some (b - 48)
      else if 97 \<le> b \<and> b \<le> 102 then Some (b - 97 + 10)
      else if 65 \<le> b \<and> b \<le> 70 then Some (b - 65 + 10)
      else None)"

fun hexRuneAcc :: "nat \<Rightarrow> string \<Rightarrow> nat option" where
  "hexRuneAcc code [] = Some code"
| "hexRuneAcc code (c # cs) =
     (case hexDigit c of Some v \<Rightarrow> hexRuneAcc (code * 16 + v) cs | None \<Rightarrow> None)"

definition hexRune :: "string \<Rightarrow> rune option" where "hexRune digits = hexRuneAcc 0 digits"

text \<open>
  An escape, \<open>r\<close> being the text after the backslash and \<open>i\<close> the index of the escaped character:
  what it stands for and the number of bytes it takes.
\<close>

definition scanEscape :: "nat \<Rightarrow> nat \<Rightarrow> string \<Rightarrow> xerror + string \<times> nat" where
  "scanEscape start i r =
     (case r of
        [] \<Rightarrow> Inl (lexErr start UnterminatedString)
      | x # r' \<Rightarrow>
          if x = CHR ''n'' then Inr ([CHR 0x0A], 1)
          else if x = CHR ''t'' then Inr ([CHR 0x09], 1)
          else if x = CHR ''r'' then Inr ([CHR 0x0D], 1)
          else if x = CHR 0x5C \<or> x = CHR 0x27 \<or> x = CHR 0x22 then Inr ([x], 1)
          else if x = CHR ''u'' then
            (if length r' < 4 then Inl (lexErr i NeedFourHex)
             else case hexRune (take 4 r') of
               None \<Rightarrow> Inl (lexErr i InvalidUnicodeEscape)
             | Some code \<Rightarrow>
                 if 0xD800 \<le> code \<and> code \<le> 0xDFFF then Inl (lexErr i InvalidUnicodeEscape)
                 else Inr (encodeRune code, 5))
          else Inl (lexErr i (UnknownEscape x)))"

text \<open>
  \<open>scanString\<close> after its opening quote: \<open>start\<close> is the offset of the quote, \<open>i\<close> the index of
  the rest \<open>s\<close>, \<open>out\<close> the decoded text so far. The result is the value and the index after
  the closing quote.
\<close>

function scanStringFrom :: "char \<Rightarrow> nat \<Rightarrow> nat \<Rightarrow> string \<Rightarrow> string \<Rightarrow> xerror + string \<times> nat" where
  "scanStringFrom quote start i [] out = Inl (lexErr start UnterminatedString)"
| "scanStringFrom quote start i (c # r) out =
     (if c = quote then Inr (out, i + 1)
      else if c = CHR 0x0A then Inl (lexErr start UnterminatedString)
      else if c = CHR 0x5C then
        bindE (scanEscape start (i + 1) r) (\<lambda>(tx, k).
          scanStringFrom quote start (i + 1 + k) (drop k r) (out @ tx))
      else scanStringFrom quote start (i + 1) r (out @ [c]))"
  by pat_completeness auto
termination
  by (relation "measure (\<lambda>(q, st, i, s, out). length s)") auto

definition scanString :: "string \<Rightarrow> nat \<Rightarrow> xerror + string \<times> nat" where
  "scanString src start = scanStringFrom (src ! start) start (start + 1) (drop (start + 1) src) []"

lemma scanEscape_width:
  "scanEscape start i r = Inr (tx, k) \<Longrightarrow> 0 < k \<and> k \<le> length r"
  by (auto simp: scanEscape_def split: list.splits if_splits option.splits)

lemma scanEscape_offset:
  "scanEscape start i r = Inl e \<Longrightarrow> eOffset e = start \<or> eOffset e = i \<and> r \<noteq> []"
  by (auto simp: scanEscape_def split: list.splits if_splits option.splits)

lemma scanStringFrom_next:
  "scanStringFrom quote start i s out = Inr (v, j) \<Longrightarrow> i < j \<and> j \<le> i + length s"
proof (induction quote start i s out arbitrary: v j rule: scanStringFrom.induct)
  case (2 quote start i c r out)
  from "2.prems" consider "j = i + 1"
    | tx k where "scanEscape start (i + 1) r = Inr (tx, k)" "c = CHR 0x5C" "c \<noteq> quote"
        "scanStringFrom quote start (i + 1 + k) (drop k r) (out @ tx) = Inr (v, j)"
    | "c \<noteq> CHR 0x5C" "c \<noteq> quote" "c \<noteq> CHR 0x0A"
        "scanStringFrom quote start (i + 1) r (out @ [c]) = Inr (v, j)"
    by (auto simp: bindE_eq_Inr split: if_splits)
  then show ?case
  proof cases
    case (2 tx k)
    then have "i + 1 + k < j \<and> j \<le> i + 1 + k + length (drop k r)"
      using "2.IH"(1) by simp
    with scanEscape_width [OF 2(1)] show ?thesis by auto
  next
    case 3
    then show ?thesis using "2.IH"(2) by fastforce
  qed simp
qed simp

lemma scanNumber_length: "isDigit c \<Longrightarrow> 0 < length (fst (scanNumber (c # s)))"
  by (simp add: scanNumber_def Let_def)

lemma scanPunct_nonempty: "scanPunct s \<noteq> [] \<Longrightarrow> 0 < length (scanPunct s)"
  by simp

function lexFrom :: "nat \<Rightarrow> string \<Rightarrow> xerror + token list" where
  "lexFrom i s =
     (case s of
        [] \<Rightarrow> Inr [\<lparr>tkKind = TokEOF, tkText = [], tkPos = i\<rparr>]
      | c # r \<Rightarrow>
          if isSpace c then lexFrom (i + 1) r
          else if isIdentStart c then
            (let name = takeWhile isIdentPart s in
             bindE (lexFrom (i + length name) (drop (length name) s)) (\<lambda>ts.
               Inr (\<lparr>tkKind = TokIdent, tkText = name, tkPos = i\<rparr> # ts)))
          else if isDigit c then
            (let (tx, kind) = scanNumber s in
             bindE (lexFrom (i + length tx) (drop (length tx) s)) (\<lambda>ts.
               Inr (\<lparr>tkKind = kind, tkText = tx, tkPos = i\<rparr> # ts)))
          else if c = CHR 0x27 \<or> c = CHR 0x22 then
            (case scanStringFrom c i (i + 1) r [] of
               Inl e \<Rightarrow> Inl e
             | Inr (val, nxt) \<Rightarrow>
                 bindE (lexFrom nxt (drop (nxt - i) s)) (\<lambda>ts.
                   Inr (\<lparr>tkKind = TokString, tkText = val, tkPos = i\<rparr> # ts)))
          else
            (let p = scanPunct s in
             if p = [] then Inl (lexErr i (UnexpectedChar (fst (decodeRune s))))
             else bindE (lexFrom (i + length p) (drop (length p) s)) (\<lambda>ts.
               Inr (\<lparr>tkKind = TokPunct, tkText = p, tkPos = i\<rparr> # ts))))"
  by pat_completeness auto
termination
proof (relation "measure (\<lambda>(i, s). length s)", goal_cases)
  case (3 i s c r)
  then show ?case by (simp add: isIdentPart_def)
next
  case (4 i s c r x tx kind)
  then have "tx \<noteq> []" using scanNumber_length [of c r] by (cases "scanNumber (c # r)") auto
  with 4 show ?case by simp
next
  case (5 i s c r p val nxt)
  then show ?case by (auto dest: scanStringFrom_next)
qed auto

declare lexFrom.simps [simp del]

definition lex :: "string \<Rightarrow> xerror + token list" where
  "lex src =
     (if maxSourceBytes < length src then Inl (lexErr 0 SourceTooLong) else lexFrom 0 src)"

subsection \<open>What the lexer promises\<close>

lemma scanStringFrom_offset:
  "scanStringFrom quote start i s out = Inl e \<Longrightarrow> start < i \<Longrightarrow> start \<le> eOffset e \<and> eOffset e < i + length s"
proof (induction quote start i s out rule: scanStringFrom.induct)
  case (2 quote start i c r out)
  from "2.prems" consider "eOffset e = start"
    | "scanEscape start (i + 1) r = Inl e"
    | tx k where "scanEscape start (i + 1) r = Inr (tx, k)" "c = CHR 0x5C" "c \<noteq> quote"
        "scanStringFrom quote start (i + 1 + k) (drop k r) (out @ tx) = Inl e"
    | "c \<noteq> CHR 0x5C" "c \<noteq> quote" "c \<noteq> CHR 0x0A"
        "scanStringFrom quote start (i + 1) r (out @ [c]) = Inl e"
    by (auto simp: bindE_eq_Inl split: if_splits)
  then show ?case
  proof cases
    case 2
    with scanEscape_offset [OF 2] "2.prems"(2) show ?thesis by auto
  next
    case (3 tx k)
    then have "start \<le> eOffset e \<and> eOffset e < i + 1 + k + length (drop k r)"
      using "2.IH"(1) "2.prems"(2) by simp
    with scanEscape_width [OF 3(1)] show ?thesis by auto
  next
    case 4
    then show ?thesis using "2.IH"(2) "2.prems"(2) by fastforce
  qed (use "2.prems"(2) in simp)
qed auto

lemma scanExponent_le: "length (scanExponent s) \<le> length s"
proof (cases s)
  case (Cons c r)
  have "length (takeWhile isDigit (drop n r)) \<le> length (drop n r)" for n by (rule length_takeWhile_le)
  from this[of 0] this[of 1] show ?thesis unfolding Cons by (auto simp: scanExponent_def Let_def split: list.splits)
qed (simp add: scanExponent_def)

lemma scanNumber_le: "length (fst (scanNumber s)) \<le> length s"
proof -
  have e: "length f + length (scanExponent (drop (length f) r)) \<le> length r" if "length f \<le> length r" for f r :: string
    using scanExponent_le[of "drop (length f) r"] that by simp
  have s: "length s = length (takeWhile isDigit s) + length (dropWhile isDigit s)"
    by (metis length_append takeWhile_dropWhile_id)
  have t: "length (takeWhile isDigit x) \<le> length x" for x by (rule length_takeWhile_le)
  let ?r = "dropWhile isDigit s"
  let ?f = "case ?r of c # d # _ \<Rightarrow> if c = CHR ''.'' \<and> isDigit d then c # takeWhile isDigit (tl ?r) else [] | _ \<Rightarrow> []"
  have "length ?f \<le> length ?r"
    using t [of "tl ?r"] by (cases ?r) (auto split: list.splits simp: length_takeWhile_le)
  from e [OF this] show ?thesis unfolding scanNumber_def Let_def fst_conv length_append
    by (subst s) linarith
qed

lemma scanNumber_kind: "snd (scanNumber s) \<noteq> TokEOF" by (simp add: scanNumber_def Let_def)

lemma scanPunct_le: "length (scanPunct s) \<le> length s"
proof (cases "find (hasPrefix s) puncts")
  case (Some p)
  then have "hasPrefix s p" by (metis find_Some_iff)
  then show ?thesis by (auto simp: scanPunct_def Some hasPrefix_def) (metis length_take min.cobounded1)
qed (simp add: scanPunct_def)

text \<open>One round of the loop: skip a space, take one token, or fail inside the text.\<close>

lemmas lexFrom_Cons = lexFrom.simps [of i "c # r" for i c r, simplified list.case]

lemma scanEscape_msg: "scanEscape start i r = Inl e \<Longrightarrow> \<exists>m. eMsg e = LexMsg m"
  by (auto simp: scanEscape_def split: list.splits if_splits option.splits)

lemma scanStringFrom_msg: "scanStringFrom quote start i s out = Inl e \<Longrightarrow> \<exists>m. eMsg e = LexMsg m"
  by (induction quote start i s out rule: scanStringFrom.induct)
    (auto simp: bindE_eq_Inl scanEscape_msg split: if_splits)

lemma lexFrom_cases:
  assumes "s = c # r"
  obtains (skip) "lexFrom i s = lexFrom (i + 1) r"
    | (tok) t n where "0 < n" "n \<le> length s" "tkKind t \<noteq> TokEOF" "tkPos t = i"
        "lexFrom i s = bindE (lexFrom (i + n) (drop n s)) (\<lambda>ts. Inr (t # ts))"
    | (err) e where "lexFrom i s = Inl e" "i \<le> eOffset e" "eOffset e < i + length s"
        "\<exists>m. eMsg e = LexMsg m"
proof -
  consider "isSpace c" | "\<not> isSpace c" "isIdentStart c"
    | "\<not> isSpace c" "\<not> isIdentStart c" "isDigit c"
    | "\<not> isSpace c" "\<not> isIdentStart c" "\<not> isDigit c" "c = CHR 0x27 \<or> c = CHR 0x22"
    | "\<not> isSpace c" "\<not> isIdentStart c" "\<not> isDigit c" "\<not> (c = CHR 0x27 \<or> c = CHR 0x22)"
    by blast
  then show thesis
  proof cases
    case 1
    then have "lexFrom i s = lexFrom (i + 1) r"
      by (simp add: lexFrom_Cons assms)
    then show thesis by (rule skip)
  next
    case 2
    let ?n = "takeWhile isIdentPart s"
    have "lexFrom i s = bindE (lexFrom (i + length ?n) (drop (length ?n) s))
        (\<lambda>ts. Inr (\<lparr>tkKind = TokIdent, tkText = ?n, tkPos = i\<rparr> # ts))"
      using 2 by (simp only: lexFrom_Cons assms Let_def if_True if_False simp_thms)
    then show thesis
      by (rule tok [rotated 4]) (use 2 assms length_takeWhile_le [of isIdentPart s] in
        \<open>simp_all add: isIdentPart_def\<close>)
  next
    case 3
    obtain tx k where n: "scanNumber s = (tx, k)" by fastforce
    have "lexFrom i s = bindE (lexFrom (i + length tx) (drop (length tx) s))
        (\<lambda>ts. Inr (\<lparr>tkKind = k, tkText = tx, tkPos = i\<rparr> # ts))"
      using 3 assms n by (simp add: lexFrom_Cons)
    then show thesis
      by (rule tok [rotated 4]) (use 3 assms n scanNumber_length [of c r] scanNumber_le [of s]
        scanNumber_kind [of s] in auto)
  next
    case 4
    show thesis
    proof (cases "scanStringFrom c i (i + 1) r []")
      case (Inl e)
      then have "lexFrom i s = Inl e" using 4 assms by (simp add: lexFrom_Cons)
      then show thesis
        by (rule err) (use scanStringFrom_offset [OF Inl] scanStringFrom_msg [OF Inl] assms in auto)
    next
      case (Inr p)
      obtain v j where p: "p = (v, j)" by fastforce
      have j: "i + 1 < j" "j \<le> i + 1 + length r"
        using scanStringFrom_next [OF Inr [unfolded p]] by auto
      have "lexFrom i s = bindE (lexFrom (i + (j - i)) (drop (j - i) s))
          (\<lambda>ts. Inr (\<lparr>tkKind = TokString, tkText = v, tkPos = i\<rparr> # ts))"
        using 4 assms Inr p j by (simp add: lexFrom_Cons)
      then show thesis by (rule tok [rotated 4]) (use j assms in simp_all)
    qed
  next
    case 5
    show thesis
    proof (cases "scanPunct s = []")
      case True
      have "lexFrom i s = Inl (lexErr i (UnexpectedChar (fst (decodeRune s))))"
        using 5 assms True by (simp add: lexFrom_Cons)
      then show thesis by (rule err) (simp_all add: assms)
    next
      case False
      have "lexFrom i s = bindE (lexFrom (i + length (scanPunct s)) (drop (length (scanPunct s)) s))
          (\<lambda>ts. Inr (\<lparr>tkKind = TokPunct, tkText = scanPunct s, tkPos = i\<rparr> # ts))"
        using 5 assms False by (simp add: lexFrom_Cons Let_def)
      then show thesis
        by (rule tok [rotated 4]) (use False scanPunct_le [of s] in simp_all)
    qed
  qed
qed

definition wfToks :: "token list \<Rightarrow> bool" where
  "wfToks ts \<longleftrightarrow> ts \<noteq> [] \<and> tkKind (last ts) = TokEOF \<and> (\<forall>t \<in> set (butlast ts). tkKind t \<noteq> TokEOF)"

lemma lexFrom_tokens:
  "lexFrom i s = Inr ts \<Longrightarrow>
     wfToks ts \<and> tkPos (last ts) = i + length s \<and> sorted_wrt (<) (map tkPos ts) \<and>
     (\<forall>t \<in> set ts. i \<le> tkPos t)"
proof (induction "length s" arbitrary: i s ts rule: less_induct)
  case less
  show ?case
  proof (cases s)
    case Nil
    with less.prems show ?thesis by (auto simp: lexFrom.simps wfToks_def)
  next
    case (Cons c r)
    then show ?thesis
    proof (cases rule: lexFrom_cases [of s c r i])
      case skip
      with less.prems have "lexFrom (i + 1) r = Inr ts" by simp
      from less.hyps [OF _ this] Cons show ?thesis by force
    next
      case (tok t n)
      with less.prems obtain us where u: "lexFrom (i + n) (drop n s) = Inr us" "ts = t # us"
        by (auto simp: bindE_eq_Inr)
      from less.hyps [OF _ u(1)] tok(1,2)
      have us: "wfToks us" "tkPos (last us) = i + n + length (drop n s)"
        "sorted_wrt (<) (map tkPos us)" "\<forall>t \<in> set us. i + n \<le> tkPos t" by auto
      have "us \<noteq> []" using us(1) by (simp add: wfToks_def)
      moreover have "\<forall>t \<in> set us. i < tkPos t" using us(4) tok(1) by fastforce
      ultimately show ?thesis using us tok(1-4) u(2) by (auto simp: wfToks_def less_imp_le)
    qed (use less.prems in simp)
  qed
qed

lemma lexFrom_error:
  "lexFrom i s = Inl e \<Longrightarrow> i \<le> eOffset e \<and> eOffset e < i + length s \<and> (\<exists>m. eMsg e = LexMsg m)"
proof (induction "length s" arbitrary: i s rule: less_induct)
  case less
  show ?case
  proof (cases s)
    case Nil
    with less.prems show ?thesis by (simp add: lexFrom.simps)
  next
    case (Cons c r)
    then show ?thesis
    proof (cases rule: lexFrom_cases [of s c r i])
      case skip
      with less.prems have "lexFrom (i + 1) r = Inl e" by simp
      from less.hyps [OF _ this] Cons show ?thesis by force
    next
      case (tok t n)
      with less.prems have "lexFrom (i + n) (drop n s) = Inl e" by (auto simp: bindE_eq_Inl)
      from less.hyps [OF _ this] tok(1,2) show ?thesis by force
    next
      case (err e')
      with less.prems show ?thesis by simp
    qed
  qed
qed

end
