(* ===== verification/Parser.thy ===== *)
theory Parser
  imports Lexer
begin

text \<open>
  \<open>internal/onkexpr/parser.go\<close>. The parser's position in its token array is the list of the
  tokens that are left. Its recursion always passes \<open>parseTernary\<close> or \<open>parseUnary\<close>, which count
  the depth: \<open>k\<close> is what is left of \<open>maxDepth\<close>, so \<open>enter\<close> fails at 0. The functions between
  them take the deeper parser as an argument. A \<open>for\<close> loop gets the number of tokens left as
  its bound; \<open>LoopBound\<close> is its overrun, which the lemmas below exclude.
\<close>

type_synonym 'a pres = "xerror + 'a \<times> token list"
type_synonym nodeParser = "token list \<Rightarrow> node pres"

subsection \<open>The token cursor\<close>

definition eofTok :: token where
  "eofTok = \<lparr>tkKind = TokEOF, tkText = [], tkPos = 0\<rparr>"

text \<open>The token list ends in \<open>TokEOF\<close> and the cursor never passes it, so it is never empty.\<close>

definition peek :: "token list \<Rightarrow> token" where
  "peek ts = (case ts of t # _ \<Rightarrow> t | [] \<Rightarrow> eofTok)"

definition advance :: "token list \<Rightarrow> token list" where
  "advance ts = (if tkKind (peek ts) \<noteq> TokEOF then tl ts else ts)"

definition isPunct :: "string \<Rightarrow> token list \<Rightarrow> bool" where
  "isPunct tx ts \<longleftrightarrow> tkKind (peek ts) = TokPunct \<and> tkText (peek ts) = tx"

definition unexpected :: "token \<Rightarrow> xerror" where
  "unexpected tok = (if tkKind tok = TokEOF then parseErr (tkPos tok) UnexpectedEnd
     else parseErr (tkPos tok) (UnexpectedToken tok))"

definition expectPunct :: "string \<Rightarrow> token list \<Rightarrow> unit pres" where
  "expectPunct tx ts =
     (let tok = peek ts in
      if tkKind tok \<noteq> TokPunct \<or> tkText tok \<noteq> tx then
        (if tkKind tok = TokEOF then Inl (parseErr (tkPos tok) (ExpectedButEnded tx))
         else Inl (parseErr (tkPos tok) (ExpectedGot tx tok)))
      else Inr ((), advance ts))"

subsection \<open>Binary operators\<close>

text \<open>The loop of \<open>parseOr\<close>, \<open>parseAnd\<close>, \<open>parseAdd\<close> and \<open>parseMul\<close>: a left-associative chain.\<close>

fun binLoop :: "string list \<Rightarrow> nat \<Rightarrow> nodeParser \<Rightarrow> node \<Rightarrow> nodeParser" where
  "binLoop ops 0 p left ts = Inl (parseErr 0 LoopBound)"
| "binLoop ops (Suc n) p left ts =
     (if list_ex (\<lambda>op1. isPunct op1 ts) ops then
        (let tok = peek ts in
         bindE (p (advance ts)) (\<lambda>(right, ts').
           binLoop ops n p (Binary (tkPos tok) None (tkText tok) left right) ts'))
      else Inr (left, ts))"

definition parseMul :: "nodeParser \<Rightarrow> nodeParser" where
  "parseMul pUnary ts = bindE (pUnary ts) (\<lambda>(left, ts').
     binLoop [''*'', ''/'', ''%''] (Suc (length ts')) pUnary left ts')"

definition parseAdd :: "nodeParser \<Rightarrow> nodeParser" where
  "parseAdd pUnary ts = bindE (parseMul pUnary ts) (\<lambda>(left, ts').
     binLoop [''+'', ''-''] (Suc (length ts')) (parseMul pUnary) left ts')"

definition relationOps :: "string list" where
  "relationOps = [''=='', ''!='', ''<'', ''<='', ''>'', ''>='']"

definition isRelation :: "token \<Rightarrow> bool" where
  "isRelation tok \<longleftrightarrow> tkKind tok = TokPunct \<and> tkText tok \<in> set relationOps \<or>
     tkKind tok = TokIdent \<and> tkText tok = ''in''"

definition parseRelation :: "nodeParser \<Rightarrow> nodeParser" where
  "parseRelation pUnary ts = bindE (parseAdd pUnary ts) (\<lambda>(left, ts1).
     let tok = peek ts1 in
     if \<not> isRelation tok then Inr (left, ts1)
     else bindE (parseAdd pUnary (advance ts1)) (\<lambda>(right, ts2).
       if isRelation (peek ts2) then Inl (parseErr (tkPos (peek ts2)) ChainedComparison)
       else Inr (Binary (tkPos tok) None (tkText tok) left right, ts2)))"

definition parseAnd :: "nodeParser \<Rightarrow> nodeParser" where
  "parseAnd pUnary ts = bindE (parseRelation pUnary ts) (\<lambda>(left, ts').
     binLoop [''&&''] (Suc (length ts')) (parseRelation pUnary) left ts')"

definition parseOr :: "nodeParser \<Rightarrow> nodeParser" where
  "parseOr pUnary ts = bindE (parseAnd pUnary ts) (\<lambda>(left, ts').
     binLoop [''||''] (Suc (length ts')) (parseAnd pUnary) left ts')"

subsection \<open>Arguments, primary expressions, postfix operators\<close>

text \<open>The comma-separated expressions of \<open>parseArgs\<close> and of a list literal, up to \<open>close\<close>.\<close>

fun elemsLoop :: "string \<Rightarrow> nat \<Rightarrow> nodeParser \<Rightarrow> node list \<Rightarrow> token list \<Rightarrow> node list pres" where
  "elemsLoop close 0 p acc ts = Inl (parseErr 0 LoopBound)"
| "elemsLoop close (Suc n) p acc ts =
     bindE (p ts) (\<lambda>(arg, ts').
       if isPunct '','' ts' then elemsLoop close n p (acc @ [arg]) (advance ts')
       else bindE (expectPunct close ts') (\<lambda>(_, ts''). Inr (acc @ [arg], ts'')))"

definition parseArgs :: "nodeParser \<Rightarrow> token list \<Rightarrow> node list pres" where
  "parseArgs pTernary ts =
     (if isPunct '')'' ts then Inr ([], advance ts)
      else elemsLoop '')'' (Suc (length ts)) pTernary [] ts)"

definition parseMethod :: "nodeParser \<Rightarrow> node \<Rightarrow> token \<Rightarrow> nodeParser" where
  "parseMethod pTernary recv name ts0 =
     (let ts = advance ts0 in
      if tkText name = ''all'' \<or> tkText name = ''exists'' then
        (let variable = peek ts in
         if tkKind variable \<noteq> TokIdent then
           Inl (parseErr (tkPos variable) (MacroNeedsVar (tkText name)))
         else
           bindE (expectPunct '','' (advance ts)) (\<lambda>(_, ts2).
           bindE (pTernary ts2) (\<lambda>(body, ts3).
           bindE (expectPunct '')'' ts3) (\<lambda>(_, ts4).
             Inr (Macro (tkPos name) None (tkText name) recv (tkText variable) body, ts4)))))
      else
        bindE (parseArgs pTernary ts) (\<lambda>(args, ts2).
          Inr (Call (tkPos name) None (tkText name) (recv # args) [], ts2)))"

definition parsePrimary :: "nodeParser \<Rightarrow> nodeParser" where
  "parsePrimary pTernary ts0 =
     (let tok = peek ts0; ts = advance ts0 in
      case tkKind tok of
        TokInt \<Rightarrow>
          (case parseInt (tkText tok) of
             None \<Rightarrow> Inl (parseErr (tkPos tok) (IntTooLarge (tkText tok)))
           | Some v \<Rightarrow> Inr (IntLit (tkPos tok) None (i64 v), ts))
      | TokDouble \<Rightarrow>
          (case parseFloatTok (tkText tok) of
             Some v \<Rightarrow> if isFinite v then Inr (DoubleLit (tkPos tok) None v, ts)
                       else Inl (parseErr (tkPos tok) (NumberOutOfRange (tkText tok)))
           | None \<Rightarrow> Inl (parseErr (tkPos tok) (NumberOutOfRange (tkText tok))))
      | TokString \<Rightarrow> Inr (StringLit (tkPos tok) None (tkText tok), ts)
      | TokIdent \<Rightarrow>
          (if tkText tok = ''true'' \<or> tkText tok = ''false'' then
             Inr (BoolLit (tkPos tok) None (tkText tok = ''true''), ts)
           else if isPunct ''('' ts then
             bindE (parseArgs pTernary (advance ts)) (\<lambda>(args, ts').
               Inr (Call (tkPos tok) None (tkText tok) args [], ts'))
           else Inr (Ident (tkPos tok) None (tkText tok), ts))
      | TokPunct \<Rightarrow>
          (if tkText tok = ''('' then
             bindE (pTernary ts) (\<lambda>(inner, ts').
             bindE (expectPunct '')'' ts') (\<lambda>(_, ts''). Inr (inner, ts'')))
           else if tkText tok = ''['' then
             (if isPunct '']'' ts then Inr (ListLit (tkPos tok) None [], advance ts)
              else bindE (elemsLoop '']'' (Suc (length ts)) pTernary [] ts) (\<lambda>(es, ts').
                Inr (ListLit (tkPos tok) None es, ts')))
           else Inl (unexpected tok))
      | TokEOF \<Rightarrow> Inl (unexpected tok))"

fun postfixLoop :: "nat \<Rightarrow> nodeParser \<Rightarrow> node \<Rightarrow> nodeParser" where
  "postfixLoop 0 pTernary nd ts = Inl (parseErr 0 LoopBound)"
| "postfixLoop (Suc n) pTernary nd ts =
     (if isPunct ''.'' ts then
        (let ts1 = advance ts; name = peek ts1; ts2 = advance ts1 in
         if tkKind name \<noteq> TokIdent then Inl (unexpected name)
         else if isPunct ''('' ts2 then
           bindE (parseMethod pTernary nd name ts2) (\<lambda>(nd', ts3). postfixLoop n pTernary nd' ts3)
         else postfixLoop n pTernary (Select (tkPos name) None nd (tkText name) None) ts2)
      else if isPunct ''['' ts then
        (let open1 = peek ts in
         bindE (pTernary (advance ts)) (\<lambda>(idx, ts1).
         bindE (expectPunct '']'' ts1) (\<lambda>(_, ts2).
           postfixLoop n pTernary (Index (tkPos open1) None nd idx) ts2)))
      else Inr (nd, ts))"

definition parsePostfix :: "nodeParser \<Rightarrow> nodeParser" where
  "parsePostfix pTernary ts = bindE (parsePrimary pTernary ts) (\<lambda>(nd, ts').
     postfixLoop (Suc (length ts')) pTernary nd ts')"

subsection \<open>The recursion\<close>

fun parseTernary :: "nat \<Rightarrow> nodeParser" and parseUnary :: "nat \<Rightarrow> nodeParser" where
  "parseTernary 0 ts = Inl (parseErr (tkPos (peek ts)) TooDeep)"
| "parseTernary (Suc k) ts =
     bindE (parseOr (parseUnary k) ts) (\<lambda>(cond, ts1).
       if \<not> isPunct ''?'' ts1 then Inr (cond, ts1)
       else
         bindE (parseTernary k (advance ts1)) (\<lambda>(a, ts2).
         bindE (expectPunct '':'' ts2) (\<lambda>(_, ts3).
         bindE (parseTernary k ts3) (\<lambda>(b, ts4).
           Inr (Ternary (tkPos (peek ts1)) None cond a b, ts4)))))"
| "parseUnary 0 ts = Inl (parseErr (tkPos (peek ts)) TooDeep)"
| "parseUnary (Suc k) ts =
     (if isPunct ''!'' ts \<or> isPunct ''-'' ts then
        (let tok = peek ts; ts1 = advance ts in
         if tkText tok = ''-'' \<and> tkKind (peek ts1) = TokInt
            \<and> tkText (peek ts1) = ''9223372036854775808'' then
           Inr (IntLit (tkPos tok) None minInt64, advance ts1)
         else bindE (parseUnary k ts1) (\<lambda>(operand, ts2).
           Inr (Unary (tkPos tok) None (tkText tok) operand, ts2)))
      else parsePostfix (parseTernary k) ts)"

text \<open>\<open>Parse\<close>.\<close>

definition parseExpr :: "string \<Rightarrow> xerror + node" where
  "parseExpr src =
     bindE (lex src) (\<lambda>tokens.
     bindE (parseTernary maxDepth tokens) (\<lambda>(nd, ts).
       if tkKind (peek ts) \<noteq> TokEOF then Inl (unexpected (peek ts)) else Inr nd))"

subsection \<open>What the parser promises\<close>

text \<open>A tree as the parser builds it: every offset is one of \<open>P\<close> and nothing is annotated.\<close>

fun fresh :: "nat set \<Rightarrow> node \<Rightarrow> bool" where
  "fresh P (IntLit p t _) \<longleftrightarrow> p \<in> P \<and> t = None"
| "fresh P (DoubleLit p t v) \<longleftrightarrow> p \<in> P \<and> t = None \<and> isFinite v"
| "fresh P (StringLit p t _) \<longleftrightarrow> p \<in> P \<and> t = None"
| "fresh P (BoolLit p t _) \<longleftrightarrow> p \<in> P \<and> t = None"
| "fresh P (ListLit p t es) \<longleftrightarrow> p \<in> P \<and> t = None \<and> (\<forall>e \<in> set es. fresh P e)"
| "fresh P (Ident p t _) \<longleftrightarrow> p \<in> P \<and> t = None"
| "fresh P (Select p t x _ f) \<longleftrightarrow> p \<in> P \<and> t = None \<and> f = None \<and> fresh P x"
| "fresh P (Index p t x i) \<longleftrightarrow> p \<in> P \<and> t = None \<and> fresh P x \<and> fresh P i"
| "fresh P (Call p t _ args re) \<longleftrightarrow> p \<in> P \<and> t = None \<and> re = [] \<and> (\<forall>e \<in> set args. fresh P e)"
| "fresh P (Macro p t k r _ b) \<longleftrightarrow> p \<in> P \<and> t = None \<and> k \<in> {''all'', ''exists''} \<and> fresh P r \<and> fresh P b"
| "fresh P (Unary p t op x) \<longleftrightarrow> p \<in> P \<and> t = None \<and> op \<in> {''!'', ''-''} \<and> fresh P x"
| "fresh P (Binary p t op l r) \<longleftrightarrow> p \<in> P \<and> t = None \<and>
     op \<in> set ([''*'', ''/'', ''%'', ''+'', ''-'', ''&&'', ''||'', ''in''] @ relationOps) \<and>
     fresh P l \<and> fresh P r"
| "fresh P (Ternary p t c a b) \<longleftrightarrow> p \<in> P \<and> t = None \<and> fresh P c \<and> fresh P a \<and> fresh P b"

text \<open>A cursor into the token array \<open>T\<close>, and a result that leaves fewer than \<open>n\<close> tokens.\<close>

definition cursor :: "token list \<Rightarrow> token list \<Rightarrow> bool" where
  "cursor T ts \<longleftrightarrow> wfToks ts \<and> suffix ts T"

fun resOk :: "('a \<Rightarrow> bool) \<Rightarrow> token list \<Rightarrow> nat \<Rightarrow> 'a pres \<Rightarrow> bool" where
  "resOk V T n (Inl e) \<longleftrightarrow> eOffset e \<in> tkPos ` set T \<and> eMsg e \<noteq> ParseMsg LoopBound"
| "resOk V T n (Inr (x, ts)) \<longleftrightarrow> V x \<and> cursor T ts \<and> length ts < n"

lemma resOk_bind:
  "resOk V T n m \<Longrightarrow>
    (\<And>x ts. V x \<Longrightarrow> cursor T ts \<Longrightarrow> length ts < n \<Longrightarrow> resOk W T k (f (x, ts))) \<Longrightarrow>
    resOk W T k (bindE m f)"
  by (cases m) auto

lemma resOk_mono: "resOk V T n m \<Longrightarrow> n \<le> k \<Longrightarrow> resOk V T k m"
  by (cases "(V, T, n, m)" rule: resOk.cases) auto

lemma peek_in: "cursor T ts \<Longrightarrow> peek ts \<in> set T"
  by (cases ts) (auto simp: cursor_def wfToks_def peek_def dest: suffix_set)

lemma peek_pos: "cursor T ts \<Longrightarrow> tkPos (peek ts) \<in> tkPos ` set T"
  by (simp add: peek_in)

lemma advance_cursor:
  assumes "cursor T ts" "tkKind (peek ts) \<noteq> TokEOF"
  shows "cursor T (advance ts)" and "length (advance ts) < length ts"
proof -
  obtain t us where ts: "ts = t # us" "tkKind t \<noteq> TokEOF"
    using assms by (cases ts) (auto simp: cursor_def wfToks_def peek_def eofTok_def)
  then have "us \<noteq> []" using assms(1) by (auto simp: cursor_def wfToks_def)
  then show "cursor T (advance ts)"
    using ts assms(1) by (auto simp: cursor_def wfToks_def advance_def peek_def dest: suffix_ConsD)
  show "length (advance ts) < length ts"
    using ts by (simp add: advance_def peek_def)
qed

lemma isPunct_cursor:
  "cursor T ts \<Longrightarrow> isPunct tx ts \<Longrightarrow> cursor T (advance ts) \<and> length (advance ts) < length ts"
  by (simp add: advance_cursor isPunct_def)

lemma kind_cursor:
  "cursor T ts \<Longrightarrow> tkKind (peek ts) = k \<Longrightarrow> k \<noteq> TokEOF \<Longrightarrow>
     cursor T (advance ts) \<and> length (advance ts) < length ts"
  by (auto simp: advance_cursor)

lemma resOk_unexpected: "cursor T ts \<Longrightarrow> resOk V T n (Inl (unexpected (peek ts)))"
  by (simp add: unexpected_def peek_pos)

lemma resOk_expectPunct: "cursor T ts \<Longrightarrow> resOk (\<lambda>_. True) T (length ts) (expectPunct tx ts)"
  using advance_cursor [of T ts] peek_pos [of T ts] by (auto simp: expectPunct_def Let_def)

text \<open>The contract between the levels of the grammar.\<close>

locale token_parser =
  fixes T :: "token list" and p :: nodeParser
  assumes parses: "cursor T ts \<Longrightarrow> resOk (fresh (tkPos ` set T)) T (length ts) (p ts)"
begin

lemma parses_le: "cursor T ts \<Longrightarrow> length ts \<le> n \<Longrightarrow> resOk (fresh (tkPos ` set T)) T n (p ts)"
  by (rule resOk_mono [OF parses])

lemma binLoop_ok:
  assumes ops: "set ops \<subseteq> {''*'', ''/'', ''%'', ''+'', ''-'', ''&&'', ''||''}"
  shows "fresh (tkPos ` set T) left \<Longrightarrow> cursor T ts \<Longrightarrow> length ts < n \<Longrightarrow>
    resOk (fresh (tkPos ` set T)) T (Suc (length ts)) (binLoop ops n p left ts)"
proof (induction n arbitrary: left ts)
  case (Suc n)
  show ?case
  proof (cases "list_ex (\<lambda>op1. isPunct op1 ts) ops")
    case True
    then obtain op1 where op: "op1 \<in> set ops" "isPunct op1 ts" by (auto simp: list_ex_iff)
    then have adv: "cursor T (advance ts)" "length (advance ts) < length ts"
      using isPunct_cursor [OF Suc.prems(2)] by auto
    have tx: "tkText (peek ts) = op1" using op by (simp add: isPunct_def)
    have "resOk (fresh (tkPos ` set T)) T (Suc (length ts))
        (bindE (p (advance ts)) (\<lambda>(right, ts').
          binLoop ops n p (Binary (tkPos (peek ts)) None (tkText (peek ts)) left right) ts'))"
    proof (rule resOk_bind [OF parses_le [OF adv(1) order.strict_implies_order [OF adv(2)]]])
      fix r us
      assume r: "fresh (tkPos ` set T) r" "cursor T us" "length us < length ts"
      have "fresh (tkPos ` set T) (Binary (tkPos (peek ts)) None (tkText (peek ts)) left r)"
        using r(1) Suc.prems(1) peek_pos [OF Suc.prems(2)] ops op(1) tx by auto
      from resOk_mono [OF Suc.IH [OF this r(2)]] r(3) Suc.prems(3)
      show "resOk (fresh (tkPos ` set T)) T (Suc (length ts)) (case (r, us) of (right, ts') \<Rightarrow>
          binLoop ops n p (Binary (tkPos (peek ts)) None (tkText (peek ts)) left right) ts')"
        by simp
    qed
    with True show ?thesis by (simp add: Let_def)
  qed (use Suc.prems in simp)
qed simp

lemma chain_ok:
  assumes "set ops \<subseteq> {''*'', ''/'', ''%'', ''+'', ''-'', ''&&'', ''||''}"
  shows "token_parser T (\<lambda>ts. bindE (p ts) (\<lambda>(left, ts'). binLoop ops (Suc (length ts')) p left ts'))"
proof (rule token_parser.intro, rule resOk_bind [OF parses], assumption, unfold prod.case)
  fix ts x us
  assume "fresh (tkPos ` set T) x" "cursor T us" "length us < length (ts :: token list)"
  then show "resOk (fresh (tkPos ` set T)) T (length ts) (binLoop ops (Suc (length us)) p x us)"
    using resOk_mono [OF binLoop_ok [OF assms]] by (simp del: binLoop.simps)
qed

lemma elemsLoop_ok:
  "\<forall>e \<in> set acc. fresh (tkPos ` set T) e \<Longrightarrow> cursor T ts \<Longrightarrow> length ts < n \<Longrightarrow>
    resOk (\<lambda>es. \<forall>e \<in> set es. fresh (tkPos ` set T) e) T (length ts) (elemsLoop close n p acc ts)"
proof (induction n arbitrary: acc ts)
  case (Suc n)
  show ?case unfolding elemsLoop.simps
  proof (rule resOk_bind [OF parses [OF Suc.prems(2)]], unfold prod.case)
    fix x us
    assume x: "fresh (tkPos ` set T) x" "cursor T us" "length us < length ts"
    have "resOk (\<lambda>es. \<forall>e \<in> set es. fresh (tkPos ` set T) e) T (length ts)
        (elemsLoop close n p (acc @ [x]) (advance us))" if "isPunct '','' us"
    proof (rule resOk_mono [OF Suc.IH])
      show "cursor T (advance us)" "length (advance us) < n" "length (advance us) \<le> length ts"
        using isPunct_cursor [OF x(2) that] x(3) Suc.prems(3) by auto
    qed (use x(1) Suc.prems(1) in auto)
    moreover have "resOk (\<lambda>es. \<forall>e \<in> set es. fresh (tkPos ` set T) e) T (length ts)
        (bindE (expectPunct close us) (\<lambda>(_, ts''). Inr (acc @ [x], ts'')))"
      by (rule resOk_bind [OF resOk_expectPunct [OF x(2)]]) (use x Suc.prems(1) in auto)
    ultimately show "resOk (\<lambda>es. \<forall>e \<in> set es. fresh (tkPos ` set T) e) T (length ts)
        (if isPunct '','' us then elemsLoop close n p (acc @ [x]) (advance us)
         else bindE (expectPunct close us) (\<lambda>(_, ts''). Inr (acc @ [x], ts'')))"
      by simp
  qed
qed simp

lemma parseArgs_ok:
  "cursor T ts \<Longrightarrow>
    resOk (\<lambda>es. \<forall>e \<in> set es. fresh (tkPos ` set T) e) T (length ts) (parseArgs p ts)"
  using elemsLoop_ok [of "[]" ts "Suc (length ts)"] isPunct_cursor [of T ts]
  by (auto simp: parseArgs_def)

lemma parseMethod_ok:
  assumes "fresh (tkPos ` set T) recv" "name \<in> set T" "cursor T ts" "isPunct ''('' ts"
  shows "resOk (fresh (tkPos ` set T)) T (length ts) (parseMethod p recv name ts)"
proof -
  let ?ts = "advance ts"
  have c: "cursor T ?ts" "length ?ts < length ts" using isPunct_cursor [OF assms(3,4)] by auto
  show ?thesis
  proof (cases "tkText name = ''all'' \<or> tkText name = ''exists''")
    case True
    have var: "cursor T (advance ?ts) \<and> length (advance ?ts) < length ts" if "tkKind (peek ?ts) = TokIdent"
      using kind_cursor [OF c(1) that] c(2) by auto
    have body: "resOk (fresh (tkPos ` set T)) T (length ts) (bindE (p us) (\<lambda>(body, ts3).
        bindE (expectPunct '')'' ts3) (\<lambda>(_, ts4).
          Inr (Macro (tkPos name) None (tkText name) recv (tkText (peek ?ts)) body, ts4))))"
      if "cursor T us" "length us < length ts" for us
    proof (rule resOk_bind [OF parses_le [OF that(1) order_refl]], unfold prod.case)
      fix b vs assume "fresh (tkPos ` set T) b" "cursor T vs" "length vs < length us"
      then show "resOk (fresh (tkPos ` set T)) T (length ts) (bindE (expectPunct '')'' vs) (\<lambda>(_, ts4).
          Inr (Macro (tkPos name) None (tkText name) recv (tkText (peek ?ts)) b, ts4)))"
        by (intro resOk_bind [OF resOk_expectPunct]) (use assms that True in auto)
    qed
    have "resOk (fresh (tkPos ` set T)) T (length ts) (bindE (expectPunct '','' (advance ?ts)) (\<lambda>(_, ts2).
        bindE (p ts2) (\<lambda>(body, ts3). bindE (expectPunct '')'' ts3) (\<lambda>(_, ts4).
          Inr (Macro (tkPos name) None (tkText name) recv (tkText (peek ?ts)) body, ts4)))))"
      if "tkKind (peek ?ts) = TokIdent"
      by (rule resOk_bind [OF resOk_expectPunct]) (use var [OF that] in \<open>auto intro!: body\<close>)
    then show ?thesis using True peek_pos [OF c(1)] by (simp add: parseMethod_def Let_def)
  next
    case False
    have "resOk (fresh (tkPos ` set T)) T (length ts) (bindE (parseArgs p ?ts) (\<lambda>(args, ts2).
        Inr (Call (tkPos name) None (tkText name) (recv # args) [], ts2)))"
      by (rule resOk_bind [OF parseArgs_ok [OF c(1)]]) (use assms c(2) in auto)
    then show ?thesis using False by (simp add: parseMethod_def Let_def)
  qed
qed

lemma parsePrimary_ok:
  assumes "cursor T ts"
  shows "resOk (fresh (tkPos ` set T)) T (length ts) (parsePrimary p ts)"
proof -
  let ?tok = "peek ts" and ?ts = "advance ts"
  have pos: "tkPos ?tok \<in> tkPos ` set T" by (rule peek_pos [OF assms])
  have adv: "cursor T ?ts \<and> length ?ts < length ts" if "tkKind ?tok \<noteq> TokEOF"
    using advance_cursor [OF assms that] by simp
  show ?thesis
  proof (cases "tkKind ?tok")
    case TokIdent
    have "resOk (fresh (tkPos ` set T)) T (length ts) (bindE (parseArgs p (advance ?ts)) (\<lambda>(args, ts').
        Inr (Call (tkPos ?tok) None (tkText ?tok) args [], ts')))" if "isPunct ''('' ?ts"
      using adv TokIdent pos isPunct_cursor [OF _ that, of T]
      by (intro resOk_bind [OF parseArgs_ok]) fastforce+
    then show ?thesis using TokIdent adv pos by (simp add: parsePrimary_def Let_def)
  next
    case TokPunct
    have "resOk (fresh (tkPos ` set T)) T (length ts) (bindE (p ?ts) (\<lambda>(inner, ts').
        bindE (expectPunct '')'' ts') (\<lambda>(_, ts''). Inr (inner, ts''))))"
    proof (rule resOk_bind [OF parses_le [OF _ order_refl]], unfold prod.case)
      fix x us assume "fresh (tkPos ` set T) x" "cursor T us" "length us < length ?ts"
      then show "resOk (fresh (tkPos ` set T)) T (length ts)
          (bindE (expectPunct '')'' us) (\<lambda>(_, ts''). Inr (x, ts'')))"
        by (intro resOk_bind [OF resOk_expectPunct]) (use adv TokPunct in auto)
    qed (use adv TokPunct in simp)
    moreover have "resOk (fresh (tkPos ` set T)) T (length ts)
        (bindE (elemsLoop '']'' (Suc (length ?ts)) p [] ?ts) (\<lambda>(es, ts').
          Inr (ListLit (tkPos ?tok) None es, ts')))"
      by (rule resOk_bind [OF elemsLoop_ok]) (use adv TokPunct pos in auto)
    moreover have "cursor T (advance ?ts) \<and> length (advance ?ts) < length ts" if "isPunct '']'' ?ts"
      using isPunct_cursor [OF _ that] adv TokPunct by fastforce
    ultimately show ?thesis using TokPunct adv pos resOk_unexpected [OF assms]
      by (simp add: parsePrimary_def Let_def del: elemsLoop.simps)
  qed (use adv pos resOk_unexpected [OF assms] in \<open>auto simp: parsePrimary_def Let_def split: option.splits\<close>)
qed

lemma postfixLoop_ok:
  "fresh (tkPos ` set T) nd \<Longrightarrow> cursor T ts \<Longrightarrow> length ts < n \<Longrightarrow>
    resOk (fresh (tkPos ` set T)) T (Suc (length ts)) (postfixLoop n p nd ts)"
proof (induction n arbitrary: nd ts)
  case (Suc n)
  have IH: "resOk (fresh (tkPos ` set T)) T (Suc (length ts)) (postfixLoop n p x us)"
    if "fresh (tkPos ` set T) x" "cursor T us" "length us < length ts" for x us
    using resOk_mono [OF Suc.IH [OF that(1,2)]] that(3) Suc.prems(3) by simp
  let ?ts1 = "advance ts" and ?name = "peek (advance ts)" and ?ts2 = "advance (advance ts)"
  consider (dot) "isPunct ''.'' ts" | (bracket) "\<not> isPunct ''.'' ts" "isPunct ''['' ts"
    | (stop) "\<not> isPunct ''.'' ts" "\<not> isPunct ''['' ts" by blast
  then show ?case
  proof cases
    case dot
    have c1: "cursor T ?ts1" "length ?ts1 < length ts" using isPunct_cursor [OF Suc.prems(2) dot] by auto
    have nm: "?name \<in> set T" by (rule peek_in [OF c1(1)])
    have c2: "cursor T ?ts2 \<and> length ?ts2 < length ts" if "tkKind ?name = TokIdent"
      using kind_cursor [OF c1(1) that] c1(2) by auto
    have "resOk (fresh (tkPos ` set T)) T (Suc (length ts)) (bindE (parseMethod p nd ?name ?ts2)
        (\<lambda>(nd', ts3). postfixLoop n p nd' ts3))" if "tkKind ?name = TokIdent" "isPunct ''('' ?ts2"
    proof (rule resOk_bind [OF parseMethod_ok [OF Suc.prems(1) nm _ that(2)]], unfold prod.case)
      fix x us assume "fresh (tkPos ` set T) x" "cursor T us" "length us < length ?ts2"
      then show "resOk (fresh (tkPos ` set T)) T (Suc (length ts)) (postfixLoop n p x us)"
        using IH c2 [OF that(1)] by auto
    qed (use c2 [OF that(1)] in simp)
    moreover have "resOk (fresh (tkPos ` set T)) T (Suc (length ts))
        (postfixLoop n p (Select (tkPos ?name) None nd (tkText ?name) None) ?ts2)"
      if "tkKind ?name = TokIdent"
      by (rule IH) (use c2 [OF that] nm Suc.prems(1) in auto)
    ultimately show ?thesis using dot resOk_unexpected [OF c1(1)] by (simp add: Let_def)
  next
    case bracket
    have c1: "cursor T ?ts1" "length ?ts1 < length ts" using isPunct_cursor [OF Suc.prems(2) bracket(2)] by auto
    have "resOk (fresh (tkPos ` set T)) T (Suc (length ts)) (bindE (p ?ts1) (\<lambda>(idx, us).
        bindE (expectPunct '']'' us) (\<lambda>(_, ts2).
          postfixLoop n p (Index (tkPos (peek ts)) None nd idx) ts2)))"
    proof (rule resOk_bind [OF parses [OF c1(1)]], unfold prod.case)
      fix x us assume x: "fresh (tkPos ` set T) x" "cursor T us" "length us < length ?ts1"
      then have "fresh (tkPos ` set T) (Index (tkPos (peek ts)) None nd x)"
        using Suc.prems(1) peek_pos [OF Suc.prems(2)] by simp
      then show "resOk (fresh (tkPos ` set T)) T (Suc (length ts)) (bindE (expectPunct '']'' us) (\<lambda>(_, ts2).
          postfixLoop n p (Index (tkPos (peek ts)) None nd x) ts2))"
        by (intro resOk_bind [OF resOk_expectPunct [OF x(2)]]) (use IH x c1 in auto)
    qed
    with bracket show ?thesis by (simp add: Let_def)
  qed (use Suc.prems in simp)
qed simp

lemma parsePostfix_parser: "token_parser T (parsePostfix p)"
proof (rule token_parser.intro, unfold parsePostfix_def, rule resOk_bind [OF parsePrimary_ok],
    assumption, unfold prod.case)
  fix ts x us
  assume "fresh (tkPos ` set T) x" "cursor T us" "length us < length (ts :: token list)"
  then show "resOk (fresh (tkPos ` set T)) T (length ts) (postfixLoop (Suc (length us)) p x us)"
    using resOk_mono [OF postfixLoop_ok] by (simp del: postfixLoop.simps)
qed

end

lemma parseMul_parser: "token_parser T p \<Longrightarrow> token_parser T (parseMul p)"
  using token_parser.chain_ok [of T p "[''*'', ''/'', ''%'']"] by (simp add: parseMul_def [abs_def])

lemma parseAdd_parser: "token_parser T p \<Longrightarrow> token_parser T (parseAdd p)"
  using token_parser.chain_ok [OF parseMul_parser, of T p "[''+'', ''-'']"]
  by (simp add: parseAdd_def [abs_def])

lemma isRelation_op:
  assumes "isRelation tok"
  shows "tkKind tok \<noteq> TokEOF" and "tkText tok \<in> set ([''in''] @ relationOps)"
  using assms by (auto simp: isRelation_def)

lemma parseRelation_parser:
  assumes "token_parser T p"
  shows "token_parser T (parseRelation p)"
proof
  note add = token_parser.parses [OF parseAdd_parser [OF assms]]
  let ?F = "fresh (tkPos ` set T)"
  fix ts assume "cursor T ts"
  then show "resOk ?F T (length ts) (parseRelation p ts)"
    unfolding parseRelation_def
  proof (rule resOk_bind [OF add], unfold prod.case Let_def)
    fix l us assume l: "?F l" "cursor T us" "length us < length ts"
    have "resOk ?F T (length ts) (bindE (parseAdd p (advance us)) (\<lambda>(right, ts2).
        if isRelation (peek ts2) then Inl (parseErr (tkPos (peek ts2)) ChainedComparison)
        else Inr (Binary (tkPos (peek us)) None (tkText (peek us)) l right, ts2)))"
      if r: "isRelation (peek us)"
    proof (rule resOk_bind [OF add], unfold prod.case)
      show "cursor T (advance us)" by (rule advance_cursor [OF l(2) isRelation_op(1) [OF r]])
      fix x vs assume "?F x" "cursor T vs" "length vs < length (advance us)"
      then show "resOk ?F T (length ts) (if isRelation (peek vs)
          then Inl (parseErr (tkPos (peek vs)) ChainedComparison)
          else Inr (Binary (tkPos (peek us)) None (tkText (peek us)) l x, vs))"
        using l isRelation_op [OF r] advance_cursor(2) [OF l(2) isRelation_op(1) [OF r]]
          peek_pos [OF l(2)] peek_pos [of T vs] by auto
    qed
    then show "resOk ?F T (length ts) (if \<not> isRelation (peek us) then Inr (l, us)
        else bindE (parseAdd p (advance us)) (\<lambda>(right, ts2).
          if isRelation (peek ts2) then Inl (parseErr (tkPos (peek ts2)) ChainedComparison)
          else Inr (Binary (tkPos (peek us)) None (tkText (peek us)) l right, ts2)))"
      using l by simp
  qed
qed

lemma parseAnd_parser: "token_parser T p \<Longrightarrow> token_parser T (parseAnd p)"
  using token_parser.chain_ok [OF parseRelation_parser, of T p "[''&&'']"]
  by (simp add: parseAnd_def [abs_def])

lemma parseOr_parser: "token_parser T p \<Longrightarrow> token_parser T (parseOr p)"
  using token_parser.chain_ok [OF parseAnd_parser, of T p "[''||'']"]
  by (simp add: parseOr_def [abs_def])

lemma parseTernary_step:
  assumes u: "token_parser T (parseUnary k)" and t: "token_parser T (parseTernary k)"
  shows "token_parser T (parseTernary (Suc k))"
proof
  let ?F = "fresh (tkPos ` set T)"
  note tern = token_parser.parses [OF t]
  fix ts assume c: "cursor T ts"
  show "resOk ?F T (length ts) (parseTernary (Suc k) ts)"
    unfolding parseTernary.simps
  proof (rule resOk_bind [OF token_parser.parses [OF parseOr_parser [OF u] c]], unfold prod.case)
    fix x us assume x: "?F x" "cursor T us" "length us < length ts"
    have "resOk ?F T (length ts) (bindE (parseTernary k (advance us)) (\<lambda>(a, ts2).
         bindE (expectPunct '':'' ts2) (\<lambda>(_, ts3).
         bindE (parseTernary k ts3) (\<lambda>(b, ts4).
           Inr (Ternary (tkPos (peek us)) None x a b, ts4)))))" if "isPunct ''?'' us"
    proof (rule resOk_bind [OF tern], unfold prod.case)
      show "cursor T (advance us)" using isPunct_cursor [OF x(2) that] by simp
      fix a vs assume a: "?F a" "cursor T vs" "length vs < length (advance us)"
      show "resOk ?F T (length ts) (bindE (expectPunct '':'' vs) (\<lambda>(_, ts3).
         bindE (parseTernary k ts3) (\<lambda>(b, ts4).
           Inr (Ternary (tkPos (peek us)) None x a b, ts4))))"
      proof (rule resOk_bind [OF resOk_expectPunct [OF a(2)]], unfold prod.case)
        fix ws assume "cursor T ws" "length ws < length vs"
        then show "resOk ?F T (length ts) (bindE (parseTernary k ws) (\<lambda>(b, ts4).
           Inr (Ternary (tkPos (peek us)) None x a b, ts4)))"
          by (intro resOk_bind [OF tern])
            (use x a isPunct_cursor [OF x(2) that] peek_pos [OF x(2)] in auto)
      qed
    qed
    then show "resOk ?F T (length ts) (if \<not> isPunct ''?'' us then Inr (x, us)
       else
         bindE (parseTernary k (advance us)) (\<lambda>(a, ts2).
         bindE (expectPunct '':'' ts2) (\<lambda>(_, ts3).
         bindE (parseTernary k ts3) (\<lambda>(b, ts4).
           Inr (Ternary (tkPos (peek us)) None x a b, ts4)))))"
      using x by simp
  qed
qed

lemma parseUnary_step:
  assumes u: "token_parser T (parseUnary k)" and t: "token_parser T (parseTernary k)"
  shows "token_parser T (parseUnary (Suc k))"
proof
  let ?F = "fresh (tkPos ` set T)"
  fix ts assume c: "cursor T ts"
  let ?tok = "peek ts" and ?ts = "advance ts"
  show "resOk ?F T (length ts) (parseUnary (Suc k) ts)"
  proof (cases "isPunct ''!'' ts \<or> isPunct ''-'' ts")
    case True
    then have a: "cursor T ?ts" "length ?ts < length ts" using isPunct_cursor [OF c] by auto
    have tx: "tkText ?tok \<in> {''!'', ''-''}" using True by (auto simp: isPunct_def)
    have "resOk ?F T (length ts) (bindE (parseUnary k ?ts) (\<lambda>(operand, ts2).
        Inr (Unary (tkPos ?tok) None (tkText ?tok) operand, ts2)))"
      by (rule resOk_bind [OF token_parser.parses [OF u a(1)]]) (use tx peek_pos [OF c] a in auto)
    moreover have "cursor T (advance ?ts) \<and> length (advance ?ts) < length ts"
      if "tkKind (peek ?ts) = TokInt"
      using kind_cursor [OF a(1) that] a(2) by simp
    ultimately show ?thesis using True peek_pos [OF c] by (simp add: Let_def)
  qed (use token_parser.parses [OF token_parser.parsePostfix_parser [OF t] c] in simp)
qed

lemma parse_parsers: "token_parser T (parseTernary k) \<and> token_parser T (parseUnary k)"
proof (induction k)
  case 0
  show ?case by (simp add: token_parser_def peek_pos)
next
  case (Suc k)
  then show ?case by (simp add: parseTernary_step parseUnary_step del: parseTernary.simps parseUnary.simps)
qed

interpretation ternary: token_parser T "parseTernary k" for T k
  using parse_parsers by blast

interpretation unary: token_parser T "parseUnary k" for T k
  using parse_parsers by blast

lemma sorted_wrt_last:
  "sorted_wrt (<) (map f xs) \<Longrightarrow> x \<in> set xs \<Longrightarrow> (f x :: nat) \<le> f (last xs)"
  by (induction xs rule: rev_induct) (auto simp: sorted_wrt_append less_imp_le)

lemma lex_cursor:
  assumes "lex src = Inr ts"
  shows "cursor ts ts" and "tkPos ` set ts \<subseteq> {0..length src}" and "length src \<le> maxSourceBytes"
proof -
  have "lexFrom 0 src = Inr ts" and le: "length src \<le> maxSourceBytes"
    using assms by (auto simp: lex_def split: if_splits)
  from lexFrom_tokens [OF this(1)] have ts: "wfToks ts" "tkPos (last ts) = length src"
    "sorted_wrt (<) (map tkPos ts)" by auto
  then show "cursor ts ts" "tkPos ` set ts \<subseteq> {0..length src}"
    using sorted_wrt_last [OF ts(3)] by (auto simp: cursor_def)
  show "length src \<le> maxSourceBytes" by (rule le)
qed

lemma lex_error: "lex src = Inl e \<Longrightarrow> eOffset e \<le> length src \<and> (\<exists>m. eMsg e = LexMsg m)"
  using lexFrom_error [of 0 src e]
  by (auto simp: lex_def split: if_splits)

lemma fresh_mono: "fresh P nd \<Longrightarrow> P \<subseteq> Q \<Longrightarrow> fresh Q nd"
  by (induction P nd rule: fresh.induct) auto

text \<open>A parse succeeds with a fresh tree or fails at an offset of the source.\<close>

lemma parseExpr_result:
  "case parseExpr src of
     Inl e \<Rightarrow> eOffset e \<le> length src \<and> eMsg e \<noteq> ParseMsg LoopBound
   | Inr nd \<Rightarrow> length src \<le> maxSourceBytes \<and> fresh {0..length src} nd"
proof (cases "lex src")
  case (Inl e)
  then show ?thesis using lex_error [OF Inl] by (auto simp: parseExpr_def)
next
  case (Inr ts)
  note c = lex_cursor [OF Inr]
  have r: "resOk (fresh (tkPos ` set ts)) ts (length ts) (parseTernary maxDepth ts)"
    by (rule ternary.parses [OF c(1)])
  show ?thesis
  proof (cases "parseTernary maxDepth ts")
    case (Inl e)
    with r c \<open>lex src = Inr ts\<close> show ?thesis by (auto simp: parseExpr_def)
  next
    case (Inr p)
    obtain nd us where p: "p = (nd, us)" by fastforce
    have us: "cursor ts us" "fresh (tkPos ` set ts) nd" using r Inr p by auto
    have "tkPos (peek us) \<le> length src" using peek_pos [OF us(1)] c(2) by auto
    then show ?thesis
      using Inr \<open>lex src = Inr ts\<close> p c(3) fresh_mono [OF us(2) c(2)]
      by (auto simp: parseExpr_def unexpected_def)
  qed
qed

end
