(* ===== verification/Checker.thy ===== *)
theory Checker
  imports Parser
begin

text \<open>
  \<open>internal/onkexpr/check.go\<close>. The source annotates the tree while it checks it, also when it
  ends in an error, so a check returns the annotated tree next to its result. Each \<open>infer\<close>
  function takes the recursive \<open>check\<close> as its argument \<open>chk\<close>; \<open>checkD\<close> ties the knot with a
  bound on the depth, and \<open>check\<close> starts from the height of the tree, which suffices
  (\<open>CheckBound\<close> is the overrun). The environment is an association list; a scope frame holds
  one variable, the innermost first.
\<close>

type_synonym tenv = "(string \<times> ty) list"
type_synonym checkFn = "tenv \<Rightarrow> node \<Rightarrow> node \<times> (xerror + ty)"

text \<open>Check a part, put it back in its place, and go on unless it failed.\<close>

definition stepC ::
  "'n \<times> (xerror + 'a) \<Rightarrow> ('n \<Rightarrow> 'm) \<Rightarrow> ('n \<Rightarrow> 'a \<Rightarrow> 'm \<times> (xerror + 'b)) \<Rightarrow> 'm \<times> (xerror + 'b)" where
  "stepC m rebuild go =
     (case m of (n', Inl e) \<Rightarrow> (rebuild n', Inl e) | (n', Inr a) \<Rightarrow> go n' a)"

lemma stepC_Inr [result_simps]:
  "stepC m f g = (n, Inr t) \<longleftrightarrow> (\<exists>x a. m = (x, Inr a) \<and> g x a = (n, Inr t))"
  by (cases m; cases "snd m") (auto simp: stepC_def)

lemma stepC_simps [simp]:
  "stepC (x, Inl e) f g = (f x, Inl e)" "stepC (x, Inr a) f g = g x a"
  by (simp_all add: stepC_def)

lemma stepC_cong [fundef_cong]:
  "m = m' \<Longrightarrow> (\<And>x e. m' = (x, Inl e) \<Longrightarrow> f x = f' x) \<Longrightarrow> (\<And>x a. m' = (x, Inr a) \<Longrightarrow> g x a = g' x a) \<Longrightarrow>
    stepC m f g = stepC m' f' g'"
  by (cases m'; cases "snd m'") (auto simp: stepC_def)

subsection \<open>Types of fields\<close>

fun valueType :: "irType \<Rightarrow> string \<Rightarrow> fieldMsg + ty" where
  "valueType (TScalar k) name =
     (case k of
        ScalarString \<Rightarrow> Inr TyString
      | ScalarBool \<Rightarrow> Inr TyBool
      | ScalarInt32 \<Rightarrow> Inr TyInt
      | ScalarUint32 \<Rightarrow> Inr TyInt
      | ScalarInt64 \<Rightarrow> Inr TyInt
      | ScalarFloat32 \<Rightarrow> Inr TyDouble
      | ScalarFloat64 \<Rightarrow> Inr TyDouble
      | ScalarBytes \<Rightarrow> Inr TyBytes
      | ScalarUint64 \<Rightarrow> Inl (Uint64FieldUnusable name)
      | _ \<Rightarrow> Inl (ScalarFieldUnusable k name))"
| "valueType (TEnum e) name = Inr (TyEnum e)"
| "valueType (TMessage m) name = Inr (TyMessage m)"
| "valueType (TMap k v) name = bindE (valueType v name) (\<lambda>elem. Inr (TyMap elem))"

text \<open>A field without a oneof has a type; the compiler makes no other.\<close>

definition fieldType :: "field \<Rightarrow> fieldMsg + ty" where
  "fieldType f =
     (if fOneof f \<noteq> None then Inl (OneofFieldUnusable (fName f))
      else case fType f of
        None \<Rightarrow> Inl (FieldUnusable (fName f))
      | Some ft \<Rightarrow> bindE (valueType ft (fName f)) (\<lambda>t.
          if fRepeated f then Inr (TyList t) else Inr t))"

subsection \<open>Names\<close>

definition lookupName :: "tenv \<Rightarrow> tenv \<Rightarrow> string \<Rightarrow> ty option" where
  "lookupName env scope name = (case map_of scope name of Some t \<Rightarrow> Some t | None \<Rightarrow> map_of env name)"

text \<open>Go's \<open><\<close> on strings compares bytes.\<close>

fun strLess :: "string \<Rightarrow> string \<Rightarrow> bool" where
  "strLess [] t = (t \<noteq> [])"
| "strLess (c # s) [] = False"
| "strLess (c # s) (d # t) = (byte c < byte d \<or> c = d \<and> strLess s t)"

text \<open>
  \<open>sortStrings\<close>: the inner loop swaps \<open>values[j]\<close> towards the front while it is smaller than its
  left neighbour. The sorted prefix is kept reversed, so the swaps run from its head.
\<close>

fun swapDown :: "string \<Rightarrow> string list \<Rightarrow> string list" where
  "swapDown v [] = [v]"
| "swapDown v (w # ws) = (if strLess v w then w # swapDown v ws else v # w # ws)"

definition sortStrings :: "string list \<Rightarrow> string list" where
  "sortStrings vs = rev (foldl (\<lambda>acc v. swapDown v acc) [] vs)"

definition hintNames :: "tenv \<Rightarrow> tenv \<Rightarrow> string list" where
  "hintNames env scope = sortStrings (map fst env @ map fst (rev scope))"

subsection \<open>Kinds of types\<close>

definition isListTy :: "ty \<Rightarrow> bool" where
  "isListTy t = (case t of TyList _ \<Rightarrow> True | _ \<Rightarrow> False)"

definition isEnumTy :: "ty \<Rightarrow> bool" where
  "isEnumTy t = (case t of TyEnum _ \<Rightarrow> True | _ \<Rightarrow> False)"

text \<open>The kinds a value comparison accepts: \<open>KindBool, KindInt, KindDouble, KindString, KindEnum\<close>.\<close>

definition isBasicTy :: "ty \<Rightarrow> bool" where
  "isBasicTy t \<longleftrightarrow> t = TyBool \<or> t = TyInt \<or> t = TyDouble \<or> t = TyString \<or> isEnumTy t"

definition isNumTy :: "ty \<Rightarrow> bool" where
  "isNumTy t \<longleftrightarrow> t = TyInt \<or> t = TyDouble"

definition mixHint :: "ty \<Rightarrow> ty \<Rightarrow> bool" where
  "mixHint l r \<longleftrightarrow> l = TyInt \<and> r = TyDouble \<or> l = TyDouble \<and> r = TyInt"

subsection \<open>Lists, selections, indexing\<close>

fun checkElems :: "(node \<Rightarrow> node \<times> (xerror + ty)) \<Rightarrow> ty \<Rightarrow> node list \<Rightarrow> node list \<times> (xerror + unit)" where
  "checkElems chk first [] = ([], Inr ())"
| "checkElems chk first (elem # es) =
     stepC (chk elem) (\<lambda>elem'. elem' # es) (\<lambda>elem' t.
       if \<not> tyEqual t first then (elem' # es, Inl (checkErr (position elem) (ListElemsDiffer t first)))
       else stepC (checkElems chk first es) (\<lambda>es'. elem' # es') (\<lambda>es' _. (elem' # es', Inr ())))"

definition inferList :: "(node \<Rightarrow> node \<times> (xerror + ty)) \<Rightarrow> nat \<Rightarrow> ty option \<Rightarrow> node list \<Rightarrow> node \<times> (xerror + ty)" where
  "inferList chk p ot elems =
     (case elems of
        [] \<Rightarrow> (ListLit p ot [], Inl (checkErr p EmptyListLiteral))
      | e # es \<Rightarrow>
          stepC (chk e) (\<lambda>e'. ListLit p ot (e' # es)) (\<lambda>e' first.
          stepC (checkElems chk first es) (\<lambda>es'. ListLit p ot (e' # es')) (\<lambda>es' _.
            (ListLit p ot (e' # es'),
             case first of
               TyMessage _ \<Rightarrow> Inl (checkErr p ListElemKind)
             | TyList _ \<Rightarrow> Inl (checkErr p ListElemKind)
             | TyMap _ \<Rightarrow> Inl (checkErr p ListElemKind)
             | _ \<Rightarrow> Inr (TyList first)))))"

definition inferSelect :: "schema \<Rightarrow> (node \<Rightarrow> node \<times> (xerror + ty)) \<Rightarrow> nat \<Rightarrow> ty option \<Rightarrow> node \<Rightarrow> string \<Rightarrow>
    field option \<Rightarrow> node \<times> (xerror + ty)" where
  "inferSelect S chk p ot x name fld =
     stepC (chk x) (\<lambda>x'. Select p ot x' name fld) (\<lambda>x' tx.
       case tx of
         TyMessage m \<Rightarrow>
           (case find (\<lambda>f. fName f = name) (mFields (msgAt S m)) of
              Some f \<Rightarrow>
                (case fieldType f of
                   Inl e \<Rightarrow> (Select p ot x' name fld, Inl (checkErr p (BadField e)))
                 | Inr t \<Rightarrow> (Select p ot x' name (Some f), Inr t))
            | None \<Rightarrow> (Select p ot x' name fld, Inl (checkErr p
                (NoSuchField (mName (msgAt S m)) name (map fName (mFields (msgAt S m)))))))
       | _ \<Rightarrow> (Select p ot x' name fld, Inl (checkErr p (SelectNonMessage name tx))))"

definition inferIndex :: "(node \<Rightarrow> node \<times> (xerror + ty)) \<Rightarrow> nat \<Rightarrow> ty option \<Rightarrow> node \<Rightarrow> node \<Rightarrow>
    node \<times> (xerror + ty)" where
  "inferIndex chk p ot x idx =
     stepC (chk x) (\<lambda>x'. Index p ot x' idx) (\<lambda>x' tx.
     stepC (chk idx) (\<lambda>idx'. Index p ot x' idx') (\<lambda>idx' ti.
       (Index p ot x' idx',
        case tx of
          TyList elem \<Rightarrow> if ti \<noteq> TyInt then
              Inl (checkErr (position idx) (OperandTypes ''a list index'' [ti] False))
            else Inr elem
        | TyMap elem \<Rightarrow> if ti \<noteq> TyString then
              Inl (checkErr (position idx) (OperandTypes ''a map key'' [ti] False))
            else Inr elem
        | _ \<Rightarrow> Inl (checkErr p (CannotIndex tx)))))"

subsection \<open>Calls and macros\<close>

fun checkArgs :: "(node \<Rightarrow> node \<times> (xerror + ty)) \<Rightarrow> node list \<Rightarrow> node list \<times> (xerror + ty list)" where
  "checkArgs chk [] = ([], Inr [])"
| "checkArgs chk (a # args) =
     stepC (chk a) (\<lambda>a'. a' # args) (\<lambda>a' t.
     stepC (checkArgs chk args) (\<lambda>args'. a' # args') (\<lambda>args' ts. (a' # args', Inr (t # ts))))"

definition arity :: "nat \<Rightarrow> string \<Rightarrow> nat \<Rightarrow> nat \<Rightarrow> xerror + unit" where
  "arity p fn got want = (if got \<noteq> want then Inl (checkErr p (Arity fn want got)) else Inr ())"

text \<open>The first argument that is not a string, in \<open>startsWith\<close>, \<open>endsWith\<close> and \<open>contains\<close>.\<close>

fun allStrings :: "string \<Rightarrow> (node \<times> ty) list \<Rightarrow> xerror + unit" where
  "allStrings fn [] = Inr ()"
| "allStrings fn ((a, t) # rest) =
     (if t \<noteq> TyString then Inl (checkErr (position a) (OperandTypes fn [t] False))
      else allStrings fn rest)"

text \<open>The pattern goes into the node, so the result is the pattern.\<close>

definition inferMatches :: "nat \<Rightarrow> node list \<Rightarrow> ty list \<Rightarrow> xerror + string" where
  "inferMatches p args ts =
     bindE (arity p ''matches'' (length args) 2) (\<lambda>_.
       if hd ts \<noteq> TyString then
         Inl (checkErr (position (hd args)) (OperandTypes ''matches'' [hd ts] False))
       else
         (case args ! 1 of
            StringLit lp lt lit \<Rightarrow>
              (case validateRegex lit of
                 Inl e \<Rightarrow> Inl (checkErr lp (InvalidPattern lit e))
               | Inr _ \<Rightarrow> Inr lit)
          | _ \<Rightarrow> Inl (checkErr (position (args ! 1)) PatternNotLiteral)))"

definition isResolvedSelect :: "node \<Rightarrow> bool" where
  "isResolvedSelect n = (case n of Select _ _ _ _ (Some _) \<Rightarrow> True | _ \<Rightarrow> False)"

text \<open>The type of a call whose arguments have been checked, with the pattern of a \<open>matches\<close>.\<close>

definition inferFn :: "nat \<Rightarrow> string \<Rightarrow> node list \<Rightarrow> ty list \<Rightarrow> string \<Rightarrow> xerror + string \<times> ty" where
  "inferFn p fn args ts re =
     (if fn = ''size'' then
        bindE (arity p fn (length args) 1) (\<lambda>_.
          case hd ts of
            TyString \<Rightarrow> Inr (re, TyInt)
          | TyList _ \<Rightarrow> Inr (re, TyInt)
          | TyMap _ \<Rightarrow> Inr (re, TyInt)
          | TyBytes \<Rightarrow> Inr (re, TyInt)
          | _ \<Rightarrow> Inl (checkErr p (OperandTypes fn [hd ts] False)))
      else if fn = ''has'' then
        bindE (arity p fn (length args) 1) (\<lambda>_.
          if isResolvedSelect (hd args) then Inr (re, TyBool) else Inl (checkErr p HasNeedsField))
      else if fn = ''int'' then
        bindE (arity p fn (length args) 1) (\<lambda>_.
          if \<not> isNumTy (hd ts) then Inl (checkErr p (OperandTypes fn [hd ts] False))
          else Inr (re, TyInt))
      else if fn = ''double'' then
        bindE (arity p fn (length args) 1) (\<lambda>_.
          if \<not> isNumTy (hd ts) then Inl (checkErr p (OperandTypes fn [hd ts] False))
          else Inr (re, TyDouble))
      else if fn = ''startsWith'' \<or> fn = ''endsWith'' \<or> fn = ''contains'' then
        bindE (arity p fn (length args) 2) (\<lambda>_.
        bindE (allStrings fn (zip args ts)) (\<lambda>_. Inr (re, TyBool)))
      else if fn = ''matches'' then
        bindE (inferMatches p args ts) (\<lambda>lit. Inr (lit, TyBool))
      else Inl (checkErr p (UnknownFunction fn)))"

definition inferCall :: "(node \<Rightarrow> node \<times> (xerror + ty)) \<Rightarrow> nat \<Rightarrow> ty option \<Rightarrow> string \<Rightarrow> node list \<Rightarrow>
    string \<Rightarrow> node \<times> (xerror + ty)" where
  "inferCall chk p ot fn args re =
     stepC (checkArgs chk args) (\<lambda>args'. Call p ot fn args' re) (\<lambda>args' ts.
       case inferFn p fn args' ts re of
         Inl e \<Rightarrow> (Call p ot fn args' re, Inl e)
       | Inr (re', t) \<Rightarrow> (Call p ot fn args' re', Inr t))"

definition inferMacro :: "checkFn \<Rightarrow> tenv \<Rightarrow> nat \<Rightarrow> ty option \<Rightarrow> string \<Rightarrow> node \<Rightarrow> string \<Rightarrow> node \<Rightarrow>
    node \<times> (xerror + ty)" where
  "inferMacro chk scope p ot kind range1 var body =
     stepC (chk scope range1) (\<lambda>r'. Macro p ot kind r' var body) (\<lambda>r' tr.
       case tr of
         TyList elem \<Rightarrow>
           stepC (chk ((var, elem) # scope) body) (\<lambda>b'. Macro p ot kind r' var b') (\<lambda>b' tb.
             (Macro p ot kind r' var b',
              if tb \<noteq> TyBool then Inl (checkErr (position body) (MacroBodyNotBool kind tb))
              else Inr TyBool))
       | _ \<Rightarrow> (Macro p ot kind r' var body, Inl (checkErr p (MacroOnNonList kind tr))))"

subsection \<open>Operators\<close>

definition inferUnary :: "(node \<Rightarrow> node \<times> (xerror + ty)) \<Rightarrow> nat \<Rightarrow> ty option \<Rightarrow> string \<Rightarrow> node \<Rightarrow>
    node \<times> (xerror + ty)" where
  "inferUnary chk p ot op1 x =
     stepC (chk x) (\<lambda>x'. Unary p ot op1 x') (\<lambda>x' tx.
       (Unary p ot op1 x',
        if op1 = ''!'' then
          (if tx \<noteq> TyBool then Inl (checkErr p (OperandTypes op1 [tx] False)) else Inr TyBool)
        else if \<not> isNumTy tx then Inl (checkErr p (OperandTypes ''unary -'' [tx] False))
        else Inr tx))"

definition inferTernary :: "(node \<Rightarrow> node \<times> (xerror + ty)) \<Rightarrow> nat \<Rightarrow> ty option \<Rightarrow> node \<Rightarrow> node \<Rightarrow> node \<Rightarrow>
    node \<times> (xerror + ty)" where
  "inferTernary chk p ot c a b =
     stepC (chk c) (\<lambda>c'. Ternary p ot c' a b) (\<lambda>c' tc.
       if tc \<noteq> TyBool then
         (Ternary p ot c' a b, Inl (checkErr (position c) (OperandTypes ''the condition of ?:'' [tc] False)))
       else
         stepC (chk a) (\<lambda>a'. Ternary p ot c' a' b) (\<lambda>a' ta.
         stepC (chk b) (\<lambda>b'. Ternary p ot c' a' b') (\<lambda>b' tb.
           (Ternary p ot c' a' b',
            if \<not> tyEqual ta tb then Inl (checkErr p (BranchesDiffer ta tb))
            else if isBasicTy ta then Inr ta
            else Inl (checkErr p (BranchKind ta))))))"

text \<open>A literal that is compared with an enum becomes a value of the enum.\<close>

definition enumLiteral :: "schema \<Rightarrow> nat \<Rightarrow> ty option \<Rightarrow> string \<Rightarrow> eref \<Rightarrow> node \<times> (xerror + unit)" where
  "enumLiteral S p ot val e =
     (if list_ex (\<lambda>v. evName v = val) (enValues (enumAt S e))
      then (StringLit p (Some (TyEnum e)) val, Inr ())
      else (StringLit p ot val, Inl (checkErr p
        (NotEnumValue val (enName (enumAt S e)) (map evName (enValues (enumAt S e)))))))"

definition inferEquality :: "nat \<Rightarrow> string \<Rightarrow> ty \<Rightarrow> ty \<Rightarrow> xerror + ty" where
  "inferEquality p op1 l r =
     (if \<not> tyEqual l r then Inl (checkErr p (OperandTypes op1 [l, r] (mixHint l r)))
      else if isBasicTy l then Inr TyBool
      else Inl (checkErr p (UncomparableKind op1 l)))"

fun enumMembers :: "schema \<Rightarrow> eref \<Rightarrow> node list \<Rightarrow> node list \<times> (xerror + unit)" where
  "enumMembers S e [] = ([], Inr ())"
| "enumMembers S e (elem # es) =
     (case elem of
        StringLit p ot val \<Rightarrow>
          stepC (enumLiteral S p ot val e) (\<lambda>elem'. elem' # es) (\<lambda>elem' _.
          stepC (enumMembers S e es) (\<lambda>es'. elem' # es') (\<lambda>es' _. (elem' # es', Inr ())))
      | _ \<Rightarrow> (elem # es, Inl (checkErr (position elem) EnumMemberNotLiteral)))"

definition inferContainer :: "nat \<Rightarrow> ty \<Rightarrow> ty \<Rightarrow> xerror + ty" where
  "inferContainer p l r =
     (case r of
        TyList elem \<Rightarrow>
          if \<not> tyEqual l elem then Inl (checkErr p (OperandTypes ''in'' [l, elem] False))
          else if isBasicTy l then Inr TyBool
          else Inl (checkErr p (UncomparableKind ''in'' l))
      | TyMap _ \<Rightarrow> if l \<noteq> TyString then Inl (checkErr p (OperandTypes ''in'' [l] False)) else Inr TyBool
      | _ \<Rightarrow> Inl (checkErr p (InContainer r)))"

text \<open>\<open>inferIn\<close>, on the checked left side \<open>l'\<close> of type \<open>tl1\<close>; it returns the right side too.\<close>

definition inferIn :: "schema \<Rightarrow> (node \<Rightarrow> node \<times> (xerror + ty)) \<Rightarrow> nat \<Rightarrow> ty \<Rightarrow> node \<Rightarrow> node \<times> (xerror + ty)" where
  "inferIn S chk p tl1 r =
     (let other = stepC (chk r) (\<lambda>r'. r') (\<lambda>r' tr. (r', inferContainer p tl1 tr)) in
      case r of
        ListLit lp lt elems \<Rightarrow>
          (case tl1 of
             TyEnum e \<Rightarrow>
               stepC (enumMembers S e elems) (\<lambda>es'. ListLit lp lt es') (\<lambda>es' _.
                 (ListLit lp (Some (TyList (TyEnum e))) es', Inr TyBool))
           | _ \<Rightarrow> other)
      | _ \<Rightarrow> other)"

text \<open>The two steps of \<open>inferBinary\<close> that turn a string literal beside an enum into its value.\<close>

definition enumRight :: "schema \<Rightarrow> ty \<Rightarrow> node \<Rightarrow> node \<times> (xerror + unit)" where
  "enumRight S tl1 r =
     (case r of
        StringLit p ot val \<Rightarrow> (case tl1 of TyEnum e \<Rightarrow> enumLiteral S p ot val e | _ \<Rightarrow> (r, Inr ()))
      | _ \<Rightarrow> (r, Inr ()))"

definition enumLeft :: "schema \<Rightarrow> (node \<Rightarrow> node \<times> (xerror + ty)) \<Rightarrow> node \<Rightarrow> node \<Rightarrow>
    (node \<times> node) \<times> (xerror + unit)" where
  "enumLeft S chk l r =
     (case l of
        StringLit p ot val \<Rightarrow>
          (case chk r of
             (r', Inr (TyEnum e)) \<Rightarrow>
               stepC (enumLiteral S p ot val e) (\<lambda>l'. (l', r')) (\<lambda>l' _. ((l', r'), Inr ()))
           | (r', _) \<Rightarrow> ((l, r'), Inr ()))
      | _ \<Rightarrow> ((l, r), Inr ()))"

definition isEqualityOp :: "string \<Rightarrow> bool" where
  "isEqualityOp op1 \<longleftrightarrow> op1 = ''=='' \<or> op1 = ''!=''"

definition inferOperator :: "nat \<Rightarrow> string \<Rightarrow> ty \<Rightarrow> ty \<Rightarrow> xerror + ty" where
  "inferOperator p op1 l r =
     (if isEqualityOp op1 then inferEquality p op1 l r
      else if op1 = ''&&'' \<or> op1 = ''||'' then
        (if l \<noteq> TyBool \<or> r \<noteq> TyBool then Inl (checkErr p (OperandTypes op1 [l, r] False))
         else Inr TyBool)
      else if op1 = ''<'' \<or> op1 = ''<='' \<or> op1 = ''>'' \<or> op1 = ''>='' then
        (if \<not> tyEqual l r \<or> \<not> isNumTy l then Inl (checkErr p (OperandTypes op1 [l, r] (mixHint l r)))
         else Inr TyBool)
      else if op1 = ''+'' \<or> op1 = ''-'' \<or> op1 = ''*'' \<or> op1 = ''/'' then
        (if \<not> tyEqual l r \<or> \<not> isNumTy l then Inl (checkErr p (OperandTypes op1 [l, r] (mixHint l r)))
         else Inr l)
      else if op1 = ''%'' then
        (if l \<noteq> TyInt \<or> r \<noteq> TyInt then Inl (checkErr p (OperandTypes op1 [l, r] False))
         else Inr TyInt)
      else Inl (checkErr p (UnsupportedOperator op1)))"

text \<open>\<open>n.L.Type()\<close> after the check of \<open>n.L\<close>, which stored a type there.\<close>

definition typeOf :: "node \<Rightarrow> ty" where
  "typeOf n = (case nodeType n of Some t \<Rightarrow> t | None \<Rightarrow> TyBool)"

definition inferBinary :: "schema \<Rightarrow> (node \<Rightarrow> node \<times> (xerror + ty)) \<Rightarrow> nat \<Rightarrow> ty option \<Rightarrow> string \<Rightarrow> node \<Rightarrow>
    node \<Rightarrow> node \<times> (xerror + ty)" where
  "inferBinary S chk p ot op1 l r =
     stepC (chk l) (\<lambda>l'. Binary p ot op1 l' r) (\<lambda>l1 tl1.
       if op1 = ''in'' then
         (case inferIn S chk p tl1 r of (r', res) \<Rightarrow> (Binary p ot op1 l1 r', res))
       else
         stepC (if isEqualityOp op1 then enumRight S tl1 r else (r, Inr ()))
           (\<lambda>r'. Binary p ot op1 l1 r') (\<lambda>r1 _.
         stepC (if isEqualityOp op1 then enumLeft S chk l1 r1 else ((l1, r1), Inr ()))
           (\<lambda>(l', r'). Binary p ot op1 l' r') (\<lambda>(l2, r2) _.
         stepC (chk r2) (\<lambda>r'. Binary p ot op1 l2 r') (\<lambda>r3 tr.
           (Binary p ot op1 l2 r3, inferOperator p op1 (typeOf l2) tr)))))"

subsection \<open>The recursion\<close>

definition infer :: "schema \<Rightarrow> tenv \<Rightarrow> checkFn \<Rightarrow> checkFn" where
  "infer S env chk scope n =
     (case n of
        IntLit p ot v \<Rightarrow> (n, Inr TyInt)
      | DoubleLit p ot v \<Rightarrow> (n, Inr TyDouble)
      | StringLit p ot v \<Rightarrow> (n, Inr (case ot of Some (TyEnum e) \<Rightarrow> TyEnum e | _ \<Rightarrow> TyString))
      | BoolLit p ot v \<Rightarrow> (n, Inr TyBool)
      | ListLit p ot elems \<Rightarrow> inferList (chk scope) p ot elems
      | Ident p ot name \<Rightarrow>
          (n, case lookupName env scope name of
                Some t \<Rightarrow> Inr t
              | None \<Rightarrow> Inl (checkErr p (UnknownName name (hintNames env scope))))
      | Select p ot x name fld \<Rightarrow> inferSelect S (chk scope) p ot x name fld
      | Index p ot x idx \<Rightarrow> inferIndex (chk scope) p ot x idx
      | Call p ot fn args re \<Rightarrow> inferCall (chk scope) p ot fn args re
      | Macro p ot kind range1 var body \<Rightarrow> inferMacro chk scope p ot kind range1 var body
      | Unary p ot op1 x \<Rightarrow> inferUnary (chk scope) p ot op1 x
      | Binary p ot op1 l r \<Rightarrow> inferBinary S (chk scope) p ot op1 l r
      | Ternary p ot c a b \<Rightarrow> inferTernary (chk scope) p ot c a b)"

fun checkD :: "schema \<Rightarrow> tenv \<Rightarrow> nat \<Rightarrow> checkFn" where
  "checkD S env 0 scope n = (n, Inl (checkErr (position n) CheckBound))"
| "checkD S env (Suc k) scope n =
     stepC (infer S env (checkD S env k) scope n) (\<lambda>n'. n') (\<lambda>n' t. (setType t n', Inr t))"

definition check :: "schema \<Rightarrow> tenv \<Rightarrow> node \<Rightarrow> node \<times> (xerror + ty)" where
  "check S env n = checkD S env (Suc (height n)) [] n"

definition checkRule :: "schema \<Rightarrow> tenv \<Rightarrow> string \<Rightarrow> xerror + node" where
  "checkRule S env src =
     bindE (parseExpr src) (\<lambda>n.
       case check S env n of
         (_, Inl e) \<Rightarrow> Inl e
       | (n', Inr t) \<Rightarrow>
           if t \<noteq> TyBool then Inl (checkErr (position n') (RuleNotBool t)) else Inr n')"

end
