(* ===== verification/StringOrder.thy ===== *)
theory StringOrder
  imports Checker "HOL-Library.Multiset" "HOL-Library.List_Lexorder" "HOL-Library.Char_ord"
begin

text \<open>
  The order of Go strings is the library's lexicographic order of byte strings, and the
  checker's own insertion sort (\<open>sortStrings\<close> in \<open>internal/onkexpr/check.go\<close>) computes the same
  list as \<open>sort.Strings\<close>, here \<open>sort\<close>.
\<close>

lemma strLess_less: "strLess a b \<longleftrightarrow> a < b"
proof (induction a b rule: strLess.induct)
  case (3 c s d t)
  have "c = d \<longleftrightarrow> byte c = byte d" by (metis of_char_eq_iff)
  with 3 show ?case by (auto simp: less_char_def)
next
  case (1 t)
  then show ?case by (cases t) auto
qed auto

lemma mset_swapDown: "mset (swapDown v ws) = add_mset v (mset ws)"
  by (induction ws) auto

lemma set_swapDown: "set (swapDown v ws) = insert v (set ws)"
  using arg_cong [OF mset_swapDown, of set_mset v ws] by simp

text \<open>The reversed prefix is sorted from its largest string down.\<close>

lemma sorted_swapDown: "sorted_wrt (\<ge>) ws \<Longrightarrow> sorted_wrt (\<ge>) (swapDown v ws)"
  by (induction ws) (auto simp: set_swapDown strLess_less)

lemma sortStrings_sort: "sortStrings vs = sort vs"
proof -
  have "sorted_wrt (\<ge>) acc \<Longrightarrow>
      mset (foldl (\<lambda>acc v. swapDown v acc) acc vs) = mset acc + mset vs \<and>
      sorted_wrt (\<ge>) (foldl (\<lambda>acc v. swapDown v acc) acc vs)" for acc
    by (induction vs arbitrary: acc) (auto simp: mset_swapDown sorted_swapDown)
  from this [of "[]"] have "mset (sortStrings vs) = mset vs" "sorted (sortStrings vs)"
    by (simp_all add: sortStrings_def sorted_wrt_rev)
  then show ?thesis by (simp add: properties_for_sort)
qed

end
