(* ===== verification/Imports.thy ===== *)
theory Imports
  imports Decl GoPath StringOrder
begin

text \<open>
  Imports between schema files: \<open>validateAndBuildImportScopes\<close> in
  \<open>internal/onkcompile/compile.go\<close>. The graph is the Go map from a file to the files it imports
  (a missing key reads as the empty list). Both recursive closures of the source get \<open>k\<close> levels;
  \<open>rejectImportCycles_result\<close> and \<open>buildImportScopes_exact\<close> show that the number of files is
  enough for the first and, once cycles are rejected, for the second.
\<close>

type_synonym graph = "string \<Rightarrow> string list"

fun indexSources :: "string list \<Rightarrow> source list \<Rightarrow> cfailure + string list" where
  "indexSources byPath [] = Inr byPath"
| "indexSources byPath (s # ss) =
     (let path = pathClean (srcPath s) in
      if path \<in> set byPath then errAt (srcPath s) 0 ''duplicate source path'' []
      else indexSources (byPath @ [path]) ss)"

definition indexSourcesByPath :: "source list \<Rightarrow> cfailure + string list" where
  "indexSourcesByPath sources = indexSources [] sources"

text \<open>The loop over the imports of one file; \<open>seen\<close> holds the targets met so far.\<close>

fun importTargets :: "string list \<Rightarrow> string \<Rightarrow> string list \<Rightarrow> string list \<Rightarrow> cfailure + string list" where
  "importTargets byPath src seen [] = Inr []"
| "importTargets byPath src seen (imp # imps) =
     (if imp = [] then errAt src 0 ''import path must not be empty'' []
      else if isAbs imp then errAt src 0 ''import %q must be relative'' [imp]
      else
        let target = pathClean (pathJoin (pathDir (pathClean src)) imp) in
        if target \<notin> set byPath then errAt src 0 ''import %q does not match a discovered schema file'' [imp]
        else if target \<in> set seen then errAt src 0 ''duplicate import %q'' [imp]
        else bindE (importTargets byPath src (target # seen) imps) (\<lambda>ts. Inr (target # ts)))"

fun buildImportGraph :: "string list \<Rightarrow> source list \<Rightarrow> graph \<Rightarrow> cfailure + graph" where
  "buildImportGraph byPath [] g = Inr g"
| "buildImportGraph byPath (s # ss) g =
     bindE (importTargets byPath (srcPath s) [] (fldImports (srcAST s)))
       (\<lambda>ts. let path = pathClean (srcPath s) in
             buildImportGraph byPath ss (g(path := g path @ ts)))"

text \<open>Three colours: 0 not visited, 1 on the current branch, 2 done.\<close>

type_synonym colours = "string \<Rightarrow> nat"

fun visitAll :: "(string \<Rightarrow> colours \<Rightarrow> (cfailure + colours) option) \<Rightarrow> string list \<Rightarrow> colours
    \<Rightarrow> (cfailure + colours) option" where
  "visitAll visit [] st = Some (Inr st)"
| "visitAll visit (p # ps) st =
     (case visit p st of
        None \<Rightarrow> None
      | Some (Inl e) \<Rightarrow> Some (Inl e)
      | Some (Inr s) \<Rightarrow> visitAll visit ps s)"

fun visit :: "nat \<Rightarrow> graph \<Rightarrow> string \<Rightarrow> colours \<Rightarrow> (cfailure + colours) option" where
  "visit 0 g path st = None"
| "visit (Suc k) g path st =
     (if st path = 1 then Some (errAt path 0 ''cyclic schema import'' [])
      else if st path = 2 then Some (Inr st)
      else case visitAll (visit k g) (g path) (st(path := 1)) of
             None \<Rightarrow> None
           | Some (Inl e) \<Rightarrow> Some (Inl e)
           | Some (Inr s) \<Rightarrow> Some (Inr (s(path := 2))))"

definition rejectImportCycles :: "string list \<Rightarrow> graph \<Rightarrow> (cfailure + unit) option" where
  "rejectImportCycles paths g =
     (case visitAll (visit (Suc (length paths)) g) paths (\<lambda>p. 0) of
        None \<Rightarrow> None
      | Some (Inl e) \<Rightarrow> Some (Inl e)
      | Some (Inr s) \<Rightarrow> Some (Inr ()))"

text \<open>\<open>memo\<close> and \<open>scopes\<close> are the two Go maps of the same name, in that order.\<close>

type_synonym scopes = "string \<Rightarrow> string set option"
type_synonym memos = "scopes \<times> scopes"

fun unionScopes :: "(string \<Rightarrow> memos \<Rightarrow> (string set \<times> memos) option) \<Rightarrow> string list \<Rightarrow> string set \<Rightarrow> memos
    \<Rightarrow> (string set \<times> memos) option" where
  "unionScopes scope [] acc ms = Some (acc, ms)"
| "unionScopes scope (t # ts) acc ms =
     (case scope t ms of None \<Rightarrow> None | Some (dirs, ms') \<Rightarrow> unionScopes scope ts (acc \<union> dirs) ms')"

fun importScope :: "nat \<Rightarrow> graph \<Rightarrow> string \<Rightarrow> memos \<Rightarrow> (string set \<times> memos) option" where
  "importScope 0 g path ms = None"
| "importScope (Suc k) g path ms =
     (case fst ms path of
        Some dirs \<Rightarrow> Some (dirs, ms)
      | None \<Rightarrow>
          (case unionScopes (importScope k g) (g path) {pathDir path} ms of
             None \<Rightarrow> None
           | Some (dirs, memo, scopes) \<Rightarrow>
               Some (dirs, memo(path \<mapsto> dirs), if g path \<noteq> [] then scopes(path \<mapsto> dirs) else scopes)))"

fun scopeEach :: "nat \<Rightarrow> graph \<Rightarrow> string list \<Rightarrow> memos \<Rightarrow> memos option" where
  "scopeEach k g [] ms = Some ms"
| "scopeEach k g (p # ps) ms =
     (if g p \<noteq> [] then
        (case importScope k g p ms of None \<Rightarrow> None | Some (dirs, ms') \<Rightarrow> scopeEach k g ps ms')
      else scopeEach k g ps ms)"

definition buildImportScopes :: "string list \<Rightarrow> graph \<Rightarrow> scopes option" where
  "buildImportScopes paths g =
     map_option snd (scopeEach (Suc (length paths)) g paths (\<lambda>p. None, \<lambda>p. None))"

definition validateAndBuildImportScopes :: "source list \<Rightarrow> (cfailure + scopes) option" where
  "validateAndBuildImportScopes sources =
     (case indexSourcesByPath sources of
        Inl e \<Rightarrow> Some (Inl e)
      | Inr byPath \<Rightarrow>
          (case buildImportGraph byPath sources (\<lambda>p. []) of
             Inl e \<Rightarrow> Some (Inl e)
           | Inr g \<Rightarrow>
               let paths = sort byPath in
               (case rejectImportCycles paths g of
                  None \<Rightarrow> None
                | Some (Inl e) \<Rightarrow> Some (Inl e)
                | Some (Inr _) \<Rightarrow> map_option Inr (buildImportScopes paths g))))"

subsection \<open>Cycles\<close>

definition edges :: "graph \<Rightarrow> (string \<times> string) set" where
  "edges g = {(a, b). b \<in> set (g a)}"

lemma edges_iff [simp]: "(a, b) \<in> edges g \<longleftrightarrow> b \<in> set (g a)"
  by (simp add: edges_def)

text \<open>Every import is one of the files.\<close>

definition closedIn :: "string list \<Rightarrow> graph \<Rightarrow> bool" where
  "closedIn paths g \<longleftrightarrow> (\<forall>p. set (g p) \<subseteq> set paths \<and> (g p \<noteq> [] \<longrightarrow> p \<in> set paths))"

text \<open>
  The invariant of the search: the files on the branch are those coloured 1, each leads to the
  file about to be visited, and what is coloured 2 is closed and holds no cycle.
\<close>

definition onBranch :: "graph \<Rightarrow> colours \<Rightarrow> string \<Rightarrow> bool" where
  "onBranch g st p \<longleftrightarrow> (\<forall>q. st q = 1 \<longrightarrow> (q, p) \<in> (edges g)\<^sup>+)"

definition doneOk :: "graph \<Rightarrow> colours \<Rightarrow> bool" where
  "doneOk g st \<longleftrightarrow> (\<forall>q. st q = 2 \<longrightarrow> (q, q) \<notin> (edges g)\<^sup>+ \<and> (\<forall>b \<in> set (g q). st b = 2))"

definition grown :: "colours \<Rightarrow> colours \<Rightarrow> bool" where
  "grown st s \<longleftrightarrow> (\<forall>q. (s q = 1 \<longleftrightarrow> st q = 1) \<and> (st q = 2 \<longrightarrow> s q = 2))"

definition cyclicError :: "graph \<Rightarrow> cfailure \<Rightarrow> bool" where
  "cyclicError g e \<longleftrightarrow>
     (\<exists>p. e = CompileError p 0 0 [] (''cyclic schema import'', []) \<and> (p, p) \<in> (edges g)\<^sup>+)"

lemma grown_refl: "grown st st"
  by (simp add: grown_def)

lemma grown_trans: "grown a b \<Longrightarrow> grown b c \<Longrightarrow> grown a c"
  by (simp add: grown_def)

lemma grown_onBranch: "grown st s \<Longrightarrow> onBranch g st p \<Longrightarrow> onBranch g s p"
  by (simp add: grown_def onBranch_def)

lemma done_reach: "(p, q) \<in> (edges g)\<^sup>+ \<Longrightarrow> doneOk g st \<Longrightarrow> st p = 2 \<Longrightarrow> st q = 2"
  by (induction rule: trancl_induct) (auto simp: doneOk_def)

lemma visitAll_ok:
  assumes v: "\<And>p st s. f p st = Some (Inr s) \<Longrightarrow> onBranch g st p \<Longrightarrow> doneOk g st \<Longrightarrow>
      doneOk g s \<and> grown st s \<and> s p = 2"
  shows "visitAll f ps st = Some (Inr s) \<Longrightarrow> \<forall>p \<in> set ps. onBranch g st p \<Longrightarrow> doneOk g st \<Longrightarrow>
      doneOk g s \<and> grown st s \<and> (\<forall>p \<in> set ps. s p = 2)"
proof (induction ps arbitrary: st)
  case (Cons p ps)
  then obtain s1 where s1: "f p st = Some (Inr s1)" "visitAll f ps s1 = Some (Inr s)"
    by (auto split: option.splits sum.splits)
  with v Cons.prems have *: "doneOk g s1" "grown st s1" "s1 p = 2" by auto
  then have "\<forall>p \<in> set ps. onBranch g s1 p" using Cons.prems(2) grown_onBranch by auto
  with Cons.IH [OF s1(2)] * show ?case by (auto intro: grown_trans) (simp add: grown_def)
qed (simp add: grown_refl)

lemma branch_step:
  assumes "onBranch g st p" "st p \<noteq> 1"
  shows "\<forall>b \<in> set (g p). onBranch g (st(p := 1)) b"
  using assms by (auto simp: onBranch_def intro: trancl_into_trancl)

lemma visit_ok:
  "visit k g p st = Some (Inr s) \<Longrightarrow> onBranch g st p \<Longrightarrow> doneOk g st \<Longrightarrow> doneOk g s \<and> grown st s \<and> s p = 2"
proof (induction k arbitrary: p st s)
  case (Suc k)
  show ?case
  proof (cases "st p = 2")
    case True
    with Suc.prems show ?thesis by (auto simp: grown_refl)
  next
    case False
    with Suc.prems(1) obtain s1 where new: "st p \<noteq> 1" and run: "visitAll (visit k g) (g p) (st(p := 1)) = Some (Inr s1)"
      and s: "s = s1(p := 2)" by (auto split: if_splits option.splits sum.splits)
    have "doneOk g (st(p := 1))" using Suc.prems(3) False by (auto simp: doneOk_def)
    from visitAll_ok [where f = "visit k g", OF Suc.IH run branch_step [OF Suc.prems(2) new] this]
    have s1: "doneOk g s1" "grown (st(p := 1)) s1" "\<forall>b \<in> set (g p). s1 b = 2" by blast+
    from s1(2) have p: "s1 p = 1" by (simp add: grown_def)
    have "(p, p) \<notin> (edges g)\<^sup>+"
    proof
      assume "(p, p) \<in> (edges g)\<^sup>+"
      then obtain b where b: "b \<in> set (g p)" "(b, p) \<in> (edges g)\<^sup>*" using tranclD by fastforce
      then have "s1 p = 2" using s1(1,3) rtranclD [OF b(2)] done_reach [of b p g s1] by blast
      with p show False by simp
    qed
    moreover have "doneOk g (s1(p := 2))" unfolding doneOk_def
      using s1(1,3) calculation by (simp add: doneOk_def)
    moreover have "grown st (s1(p := 2))" unfolding grown_def
      using s1(2) new by (auto simp: grown_def)
    ultimately show ?thesis by (simp add: s del: fun_upd_apply) simp
  qed
qed simp

lemma visitAll_err:
  assumes v: "\<And>p st e. f p st = Some (Inl e) \<Longrightarrow> onBranch g st p \<Longrightarrow> doneOk g st \<Longrightarrow> P e"
    and ok: "\<And>p st s. f p st = Some (Inr s) \<Longrightarrow> onBranch g st p \<Longrightarrow> doneOk g st \<Longrightarrow> doneOk g s \<and> grown st s"
  shows "visitAll f ps st = Some (Inl e) \<Longrightarrow> \<forall>p \<in> set ps. onBranch g st p \<Longrightarrow> doneOk g st \<Longrightarrow> P e"
proof (induction ps arbitrary: st)
  case (Cons p ps)
  show ?case
  proof (cases "f p st")
    case (Some r)
    show ?thesis
    proof (cases r)
      case (Inl e1)
      with Some Cons.prems v [of p st e1] show ?thesis by simp
    next
      case (Inr s1)
      with Some Cons.prems ok [of p st s1] have "doneOk g s1" "grown st s1" by auto
      with Inr Some Cons.prems Cons.IH [of s1] show ?thesis by (auto intro: grown_onBranch)
    qed
  qed (use Cons.prems in simp)
qed simp

lemma visit_err:
  "visit k g p st = Some (Inl e) \<Longrightarrow> onBranch g st p \<Longrightarrow> doneOk g st \<Longrightarrow> cyclicError g e"
proof (induction k arbitrary: p st e)
  case (Suc k)
  show ?case
  proof (cases "st p = 1")
    case True
    with Suc.prems show ?thesis by (auto simp: onBranch_def cyclicError_def)
  next
    case False
    with Suc.prems(1) have old: "st p \<noteq> 2" and run: "visitAll (visit k g) (g p) (st(p := 1)) = Some (Inl e)"
      by (auto split: if_splits option.splits sum.splits)
    have "doneOk g (st(p := 1))" using Suc.prems(3) old by (auto simp: doneOk_def)
    show ?thesis
    proof (rule visitAll_err [OF _ _ run branch_step [OF Suc.prems(2) False] \<open>doneOk g (st(p := 1))\<close>])
      show "doneOk g s \<and> grown st s" if "visit k g p st = Some (Inr s)" "onBranch g st p" "doneOk g st" for p st s
        using visit_ok [OF that] by blast
    qed (erule (2) Suc.IH)
  qed
qed simp

text \<open>Each nested call has coloured one more file, so as many levels as files are enough.\<close>

definition unvisited :: "string list \<Rightarrow> colours \<Rightarrow> nat" where
  "unvisited paths st = card {p \<in> set paths. st p \<noteq> 1 \<and> st p \<noteq> 2}"

definition older :: "colours \<Rightarrow> colours \<Rightarrow> bool" where
  "older st s \<longleftrightarrow> (\<forall>q. st q = 1 \<or> st q = 2 \<longrightarrow> s q = 1 \<or> s q = 2)"

lemma older_unvisited: "older st s \<Longrightarrow> unvisited paths s \<le> unvisited paths st"
  unfolding unvisited_def older_def by (rule card_mono) auto

lemma unvisited_mark: "p \<in> set paths \<Longrightarrow> st p \<noteq> 1 \<Longrightarrow> st p \<noteq> 2 \<Longrightarrow> unvisited paths (st(p := 1)) < unvisited paths st"
  unfolding unvisited_def by (rule psubset_card_mono) auto

lemma visitAll_enough:
  assumes v: "\<And>p st. unvisited paths st < k \<Longrightarrow> p \<in> set paths \<Longrightarrow>
      \<exists>r. f p st = Some r \<and> (\<forall>s. r = Inr s \<longrightarrow> older st s)"
  shows "unvisited paths st < k \<Longrightarrow> set ps \<subseteq> set paths \<Longrightarrow>
      \<exists>r. visitAll f ps st = Some r \<and> (\<forall>s. r = Inr s \<longrightarrow> older st s)"
proof (induction ps arbitrary: st)
  case (Cons p ps)
  then obtain r where r: "f p st = Some r" "\<forall>s. r = Inr s \<longrightarrow> older st s" using v by force
  show ?case
  proof (cases r)
    case (Inr s)
    with r have "older st s" by simp
    with Cons.prems older_unvisited [of st s paths] have "unvisited paths s < k" by simp
    with Cons.IH [of s] Cons.prems Inr r \<open>older st s\<close> show ?thesis by (auto simp: older_def)
  qed (use r in simp)
qed (simp add: older_def)

lemma visit_enough:
  assumes g: "closedIn paths g"
  shows "unvisited paths st < k \<Longrightarrow> p \<in> set paths \<Longrightarrow> \<exists>r. visit k g p st = Some r \<and> (\<forall>s. r = Inr s \<longrightarrow> older st s)"
proof (induction k arbitrary: p st)
  case (Suc k)
  show ?case
  proof (cases "st p = 1 \<or> st p = 2")
    case False
    with unvisited_mark [of p paths st] Suc.prems have "unvisited paths (st(p := 1)) < k" by simp
    moreover have "set (g p) \<subseteq> set paths" using g by (simp add: closedIn_def)
    ultimately obtain r where r: "visitAll (visit k g) (g p) (st(p := 1)) = Some r"
        "\<forall>s. r = Inr s \<longrightarrow> older (st(p := 1)) s"
      using visitAll_enough [where f = "visit k g", OF Suc.IH] by blast
    then show ?thesis using False
      by (cases r) (auto simp: older_def)
  qed (auto simp: older_def)
qed simp

theorem rejectImportCycles_result:
  assumes g: "closedIn paths g"
  shows "\<exists>r. rejectImportCycles paths g = Some r \<and>
    (case r of Inr _ \<Rightarrow> acyclic (edges g) | Inl e \<Rightarrow> cyclicError g e)"
proof -
  have "unvisited paths (\<lambda>p. 0) \<le> card (set paths)"
    by (auto simp: unvisited_def intro: card_mono)
  then have "unvisited paths (\<lambda>p. 0) < Suc (length paths)" using card_length [of paths] by simp
  from visitAll_enough [where f = "visit (Suc (length paths)) g", OF visit_enough [OF g] this subset_refl]
  obtain r where r: "visitAll (visit (Suc (length paths)) g) paths (\<lambda>p. 0) = Some r" by blast
  have st: "\<forall>p \<in> set paths. onBranch g (\<lambda>p. 0) p" "doneOk g (\<lambda>p. 0)" by (simp_all add: onBranch_def doneOk_def)
  show ?thesis
  proof (cases r)
    case (Inl e)
    have "cyclicError g e"
    proof (rule visitAll_err [OF _ _ _ st])
      show "doneOk g s \<and> grown st s"
        if "visit (Suc (length paths)) g p st = Some (Inr s)" "onBranch g st p" "doneOk g st" for p st s
        using visit_ok [OF that] by blast
      show "visitAll (visit (Suc (length paths)) g) paths (\<lambda>p. 0) = Some (Inl e)" using r Inl by simp
    qed (erule (2) visit_err)
    with r Inl show ?thesis by (simp add: rejectImportCycles_def)
  next
    case (Inr s)
    have "visitAll (visit (Suc (length paths)) g) paths (\<lambda>p. 0) = Some (Inr s)" using r Inr by simp
    from visitAll_ok [where f = "visit (Suc (length paths)) g", OF visit_ok [where k = "Suc (length paths)"] this st]
    have s: "doneOk g s" "\<forall>p \<in> set paths. s p = 2" by blast+
    have "acyclic (edges g)"
      unfolding acyclic_def
    proof (intro allI notI)
      fix p assume c: "(p, p) \<in> (edges g)\<^sup>+"
      then have "g p \<noteq> []" by (metis edges_iff empty_iff empty_set tranclD)
      with g s(2) have "s p = 2" by (simp add: closedIn_def)
      with s(1) c show False by (simp add: doneOk_def)
    qed
    with r Inr show ?thesis by (simp add: rejectImportCycles_def)
  qed
qed

subsection \<open>Scopes\<close>

text \<open>What a scope means: the directories of the files reachable through imports.\<close>

definition reachDirs :: "graph \<Rightarrow> string \<Rightarrow> string set" where
  "reachDirs g p = pathDir ` {q. (p, q) \<in> (edges g)\<^sup>*}"

lemma reachDirs_unfold: "reachDirs g p = {pathDir p} \<union> (\<Union>b \<in> set (g p). reachDirs g b)"
proof -
  have "{q. (p, q) \<in> (edges g)\<^sup>*} = {p} \<union> (\<Union>b \<in> set (g p). {q. (b, q) \<in> (edges g)\<^sup>*})"
    by (auto intro: converse_rtrancl_into_rtrancl elim: converse_rtranclE)
  then show ?thesis by (simp add: reachDirs_def image_UN)
qed

definition memosOk :: "graph \<Rightarrow> memos \<Rightarrow> bool" where
  "memosOk g ms \<longleftrightarrow>
     (\<forall>p D. fst ms p = Some D \<longrightarrow> D = reachDirs g p) \<and>
     (\<forall>p. snd ms p = (if g p = [] then None else fst ms p))"

definition knows :: "memos \<Rightarrow> memos \<Rightarrow> bool" where
  "knows ms ms' \<longleftrightarrow> (\<forall>p. fst ms p \<noteq> None \<longrightarrow> fst ms' p \<noteq> None)"

lemma knows_refl: "knows ms ms"
  by (simp add: knows_def)

lemma knows_trans: "knows a b \<Longrightarrow> knows b c \<Longrightarrow> knows a c"
  by (simp add: knows_def)

lemma unionScopes_exact:
  assumes v: "\<And>p ms. p \<in> set ps \<Longrightarrow> memosOk g ms \<Longrightarrow>
      \<exists>ms'. f p ms = Some (reachDirs g p, ms') \<and> memosOk g ms' \<and> knows ms ms'"
  shows "memosOk g ms \<Longrightarrow>
      \<exists>ms'. unionScopes f ps acc ms = Some (acc \<union> (\<Union>p \<in> set ps. reachDirs g p), ms') \<and> memosOk g ms' \<and> knows ms ms'"
  using v
proof (induction ps arbitrary: acc ms)
  case (Cons p ps)
  obtain ms1 where 1: "f p ms = Some (reachDirs g p, ms1)" "memosOk g ms1" "knows ms ms1"
    using Cons.prems(2) [of p ms] Cons.prems(1) by auto
  obtain ms2 where 2: "unionScopes f ps (acc \<union> reachDirs g p) ms1 =
      Some ((acc \<union> reachDirs g p) \<union> (\<Union>p \<in> set ps. reachDirs g p), ms2)" "memosOk g ms2" "knows ms1 ms2"
    using Cons.IH [of ms1 "acc \<union> reachDirs g p"] 1(2) Cons.prems(2) by (metis list.set_intros(2))
  from 1 2 show ?case by (auto simp: Un_assoc intro: knows_trans)
qed (simp add: knows_refl)

text \<open>Without cycles the number of files below a file falls along every import.\<close>

definition below :: "graph \<Rightarrow> string \<Rightarrow> nat" where
  "below g p = card ((edges g)\<^sup>+ `` {p})"

lemma finite_below: "closedIn paths g \<Longrightarrow> (edges g)\<^sup>+ `` {p} \<subseteq> set paths"
proof
  fix q assume g: "closedIn paths g" and "q \<in> (edges g)\<^sup>+ `` {p}"
  then obtain r where "q \<in> set (g r)" by (auto elim: tranclE)
  with g show "q \<in> set paths" by (auto simp: closedIn_def)
qed

lemma below_step:
  assumes "closedIn paths g" "acyclic (edges g)" "b \<in> set (g p)"
  shows "below g b < below g p"
  unfolding below_def
proof (rule psubset_card_mono)
  show "finite ((edges g)\<^sup>+ `` {p})" using finite_below [OF assms(1)] by (rule finite_subset) simp
  have "b \<in> (edges g)\<^sup>+ `` {p}" "b \<notin> (edges g)\<^sup>+ `` {b}" using assms by (auto simp: acyclic_def)
  moreover have "(edges g)\<^sup>+ `` {b} \<subseteq> (edges g)\<^sup>+ `` {p}"
    using assms(3) by (auto intro: trancl_into_trancl2)
  ultimately show "(edges g)\<^sup>+ `` {b} \<subset> (edges g)\<^sup>+ `` {p}" by blast
qed

lemma importScope_exact:
  assumes g: "closedIn paths g" "acyclic (edges g)"
  shows "below g p < k \<Longrightarrow> memosOk g ms \<Longrightarrow>
    \<exists>ms'. importScope k g p ms = Some (reachDirs g p, ms') \<and> memosOk g ms' \<and> knows ms ms' \<and> fst ms' p \<noteq> None"
proof (induction k arbitrary: p ms)
  case (Suc k)
  show ?case
  proof (cases "fst ms p")
    case (Some D)
    with Suc.prems(2) show ?thesis by (auto simp: memosOk_def knows_refl)
  next
    case None
    have "\<exists>ms'. importScope k g b ms = Some (reachDirs g b, ms') \<and> memosOk g ms' \<and> knows ms ms'"
      if "b \<in> set (g p)" "memosOk g ms" for b ms
      using Suc.IH [OF _ that(2)] below_step [OF g that(1)] Suc.prems(1) by (meson Suc_leI less_Suc_eq_le order_less_le_trans)
    from unionScopes_exact [where f = "importScope k g" and ps = "g p" and acc = "{pathDir p}", OF this Suc.prems(2)]
    obtain memo scopes where *: "unionScopes (importScope k g) (g p) {pathDir p} ms = Some (reachDirs g p, memo, scopes)"
      "memosOk g (memo, scopes)" "knows ms (memo, scopes)"
      unfolding reachDirs_unfold [of g p, symmetric] by auto
    then show ?thesis using None by (auto simp: memosOk_def knows_def)
  qed
qed simp

lemma scopeEach_exact:
  assumes g: "closedIn paths g" "acyclic (edges g)" and k: "\<And>p. below g p < k"
  shows "memosOk g ms \<Longrightarrow> \<exists>ms'. scopeEach k g ps ms = Some ms' \<and> memosOk g ms' \<and> knows ms ms' \<and>
    (\<forall>p \<in> set ps. g p \<noteq> [] \<longrightarrow> fst ms' p \<noteq> None)"
proof (induction ps arbitrary: ms)
  case (Cons p ps)
  show ?case
  proof (cases "g p = []")
    case False
    obtain ms1 where 1: "importScope k g p ms = Some (reachDirs g p, ms1)" "memosOk g ms1" "knows ms ms1" "fst ms1 p \<noteq> None"
      using importScope_exact [OF g k Cons.prems] by blast
    with Cons.IH [OF 1(2)] False show ?thesis by (auto intro: knows_trans) (auto simp: knows_def)
  qed (use Cons in auto)
qed (simp add: knows_refl)

theorem buildImportScopes_exact:
  assumes g: "closedIn paths g" "acyclic (edges g)"
  shows "buildImportScopes paths g = Some (\<lambda>p. if g p = [] then None else Some (reachDirs g p))"
proof -
  have "below g p < Suc (length paths)" for p
    using card_mono [OF _ finite_below [OF g(1)], of p] card_length [of paths] by (simp add: below_def)
  moreover have "memosOk g (\<lambda>p. None, \<lambda>p. None)" by (simp add: memosOk_def)
  ultimately obtain ms where ms: "scopeEach (Suc (length paths)) g paths (\<lambda>p. None, \<lambda>p. None) = Some ms" "memosOk g ms"
    "\<forall>p \<in> set paths. g p \<noteq> [] \<longrightarrow> fst ms p \<noteq> None"
    using scopeEach_exact [OF g] by blast
  have "snd ms p = (if g p = [] then None else Some (reachDirs g p))" for p
  proof (cases "g p = []")
    case False
    with g(1) ms(3) have "fst ms p \<noteq> None" by (simp add: closedIn_def)
    with ms(2) False show ?thesis by (auto simp: memosOk_def)
  qed (use ms(2) in \<open>simp add: memosOk_def\<close>)
  with ms(1) show ?thesis by (auto simp: buildImportScopes_def)
qed

subsection \<open>The graph\<close>

text \<open>The file an import of \<open>src\<close> names.\<close>

definition importFile :: "string \<Rightarrow> string \<Rightarrow> string" where
  "importFile src imp = pathClean (pathJoin (pathDir (pathClean src)) imp)"

lemma importTargets_ok:
  "importTargets byPath src seen imps = Inr ts \<Longrightarrow>
     ts = map (importFile src) imps \<and> distinct ts \<and> (\<forall>t \<in> set ts. t \<notin> set seen) \<and>
     (\<forall>imp \<in> set imps. imp \<noteq> [] \<and> \<not> isAbs imp \<and> importFile src imp \<in> set byPath)"
proof (induction imps arbitrary: seen ts)
  case (Cons imp imps)
  then obtain ts' where t: "importTargets byPath src (importFile src imp # seen) imps = Inr ts'"
    "ts = importFile src imp # ts'" "imp \<noteq> []" "\<not> isAbs imp" "importFile src imp \<in> set byPath"
    "importFile src imp \<notin> set seen"
    by (auto simp: bindE_eq_Inr importFile_def Let_def split: if_splits)
  with Cons.IH [OF t(1)] show ?case by auto
qed simp

lemma indexSources_ok:
  "indexSources byPath ss = Inr ps \<Longrightarrow> distinct byPath \<Longrightarrow>
     ps = byPath @ map (\<lambda>s. pathClean (srcPath s)) ss \<and>
     distinct (byPath @ map (\<lambda>s. pathClean (srcPath s)) ss)"
proof (induction ss arbitrary: byPath)
  case (Cons s ss)
  then have "pathClean (srcPath s) \<notin> set byPath" "indexSources (byPath @ [pathClean (srcPath s)]) ss = Inr ps"
    by (auto simp: Let_def split: if_splits)
  moreover from this Cons.prems(2) have "distinct (byPath @ [pathClean (srcPath s)])" by simp
  ultimately show ?case using Cons.IH [of "byPath @ [pathClean (srcPath s)]"] by simp
qed simp

lemma buildImportGraph_ok:
  "buildImportGraph byPath ss g = Inr g' \<Longrightarrow> distinct (map (\<lambda>s. pathClean (srcPath s)) ss) \<Longrightarrow>
     \<forall>s \<in> set ss. g (pathClean (srcPath s)) = [] \<Longrightarrow>
     (\<forall>s \<in> set ss. g' (pathClean (srcPath s)) = map (importFile (srcPath s)) (fldImports (srcAST s)) \<and>
        (\<forall>imp \<in> set (fldImports (srcAST s)). importFile (srcPath s) imp \<in> set byPath)) \<and>
     (\<forall>p. p \<notin> (\<lambda>s. pathClean (srcPath s)) ` set ss \<longrightarrow> g' p = g p)"
proof (induction ss arbitrary: g)
  case (Cons s ss)
  then obtain ts where ts: "importTargets byPath (srcPath s) [] (fldImports (srcAST s)) = Inr ts"
    and rest: "buildImportGraph byPath ss (g(pathClean (srcPath s) := ts)) = Inr g'"
    by (auto simp: bindE_eq_Inr Let_def)
  have new: "pathClean (srcPath s) \<notin> (\<lambda>s. pathClean (srcPath s)) ` set ss"
    and d: "distinct (map (\<lambda>s. pathClean (srcPath s)) ss)" using Cons.prems(2) by auto
  from new have "pathClean (srcPath x) \<noteq> pathClean (srcPath s)" if "x \<in> set ss" for x
    using that by (metis image_eqI)
  with Cons.prems have "\<forall>x \<in> set ss. (g(pathClean (srcPath s) := ts)) (pathClean (srcPath x)) = []" by simp
  from Cons.IH [OF rest d this] new importTargets_ok [OF ts] show ?case by simp
qed simp

text \<open>The graph of the declared imports.\<close>

definition importsFrom :: "source list \<Rightarrow> graph" where
  "importsFrom sources p =
     (case find (\<lambda>s. pathClean (srcPath s) = p) sources of
        None \<Rightarrow> [] | Some s \<Rightarrow> map (importFile (srcPath s)) (fldImports (srcAST s)))"

lemma graph_of_sources:
  assumes "indexSourcesByPath sources = Inr byPath" "buildImportGraph byPath sources (\<lambda>p. []) = Inr g"
  shows "g = importsFrom sources \<and> closedIn (sort byPath) g \<and> distinct (map (\<lambda>s. pathClean (srcPath s)) sources)"
proof -
  from assms(1) indexSources_ok [of "[]" sources byPath]
  have b: "byPath = map (\<lambda>s. pathClean (srcPath s)) sources" and d: "distinct byPath"
    by (auto simp: indexSourcesByPath_def)
  with buildImportGraph_ok [OF assms(2)] have
    1: "\<And>s. s \<in> set sources \<Longrightarrow> g (pathClean (srcPath s)) = map (importFile (srcPath s)) (fldImports (srcAST s))" and
    2: "\<And>s imp. s \<in> set sources \<Longrightarrow> imp \<in> set (fldImports (srcAST s)) \<Longrightarrow> importFile (srcPath s) imp \<in> set byPath" and
    3: "\<And>p. p \<notin> set byPath \<Longrightarrow> g p = []" by auto
  have g: "g p = importsFrom sources p" for p
  proof (cases "find (\<lambda>s. pathClean (srcPath s) = p) sources")
    case None
    then have "p \<notin> set byPath" using b by (auto simp: find_None_iff)
    with 3 None show ?thesis by (simp add: importsFrom_def)
  next
    case (Some s)
    then have "s \<in> set sources" "pathClean (srcPath s) = p" by (auto simp: find_Some_iff)
    with 1 Some show ?thesis by (auto simp: importsFrom_def)
  qed
  have "set (importsFrom sources p) \<subseteq> set byPath" for p
    unfolding importsFrom_def by (auto simp: find_Some_iff find_Some_iff2 split: option.split intro: 2)
  moreover have "p \<in> set byPath" if "importsFrom sources p \<noteq> []" for p
    using that 3 [of p] g [of p] by metis
  ultimately have "closedIn (sort byPath) (importsFrom sources)" by (simp add: closedIn_def)
  with g d b show ?thesis by (simp add: ext [OF g])
qed

text \<open>What the import pass guarantees about accepted sources.\<close>

definition scopesOf :: "source list \<Rightarrow> scopes" where
  "scopesOf sources p = (if importsFrom sources p = [] then None else Some (reachDirs (importsFrom sources) p))"

lemma importScopes_result:
  "\<exists>r. validateAndBuildImportScopes sources = Some r \<and>
     (case r of
        Inr scopes \<Rightarrow> acyclic (edges (importsFrom sources)) \<and> scopes = scopesOf sources \<and>
          distinct (map (\<lambda>s. pathClean (srcPath s)) sources)
      | Inl e \<Rightarrow>
          (\<exists>byPath. indexSourcesByPath sources = Inl e \<or>
             indexSourcesByPath sources = Inr byPath \<and> buildImportGraph byPath sources (\<lambda>p. []) = Inl e)
          \<or> cyclicError (importsFrom sources) e)"
proof (cases "indexSourcesByPath sources")
  case 1: (Inr byPath)
  show ?thesis
  proof (cases "buildImportGraph byPath sources (\<lambda>p. [])")
    case 2: (Inr g)
    from graph_of_sources [OF 1 2] have g: "g = importsFrom sources" "closedIn (sort byPath) g"
      "distinct (map (\<lambda>s. pathClean (srcPath s)) sources)" by auto
    from rejectImportCycles_result [OF g(2)] obtain r where
      r: "rejectImportCycles (sort byPath) g = Some r" "case r of Inr _ \<Rightarrow> acyclic (edges g) | Inl e \<Rightarrow> cyclicError g e"
      by blast
    show ?thesis
    proof (cases r)
      case (Inl e)
      with r g(1) 1 2 show ?thesis by (simp add: validateAndBuildImportScopes_def)
    next
      case (Inr u)
      with r have "acyclic (edges g)" by simp
      with buildImportScopes_exact [OF g(2)] have "buildImportScopes (sort byPath) g = Some (scopesOf sources)"
        unfolding scopesOf_def g(1) by simp
      with r Inr g 1 2 \<open>acyclic (edges g)\<close> show ?thesis by (simp add: validateAndBuildImportScopes_def)
    qed
  qed (use 1 in \<open>auto simp: validateAndBuildImportScopes_def\<close>)
qed (auto simp: validateAndBuildImportScopes_def)

end
