(* ===== verification/GoFmt.thy ===== *)
theory GoFmt
  imports Prelude GoInt "HOL-Library.AList"
begin

text \<open>
  Pieces of the Go standard library that the schema tools print and collect with:
  \<open>strconv.Itoa\<close>, \<open>%t\<close>, \<open>strings.Cut\<close> and \<open>strings.ToLower\<close>, and Go maps that are ranged over. A
  map is an association list in the order of first insertion; Go ranges over it in an
  unspecified order, and every caller modelled here sorts what it collects.
\<close>

fun showNat :: "nat \<Rightarrow> string" where
  "showNat n = (if n < 10 then [chr (48 + n)] else showNat (n div 10) @ [chr (48 + n mod 10)])"

declare showNat.simps [simp del]

definition showInt :: "int \<Rightarrow> string" where
  "showInt z = (if z < 0 then CHR ''-'' # showNat (nat (- z)) else showNat (nat z))"

definition showBool :: "bool \<Rightarrow> string" where
  "showBool b = (if b then ''true'' else ''false'')"

text \<open>\<open>strings.Cut(s, sep)\<close> for a one-byte separator.\<close>

definition cutOn :: "char \<Rightarrow> string \<Rightarrow> string \<times> string" where
  "cutOn sep s = (takeWhile (\<lambda>c. c \<noteq> sep) s, drop 1 (dropWhile (\<lambda>c. c \<noteq> sep) s))"

text \<open>\<open>strings.ToLower\<close> on ASCII text.\<close>

definition lowerChar :: "char \<Rightarrow> char" where
  "lowerChar c = (if 65 \<le> byte c \<and> byte c \<le> 90 then chr (byte c + 32) else c)"

definition toLower :: "string \<Rightarrow> string" where "toLower s = map lowerChar s"

subsection \<open>Maps built by assignments\<close>

definition goMap :: "('k \<times> 'v) list \<Rightarrow> ('k \<times> 'v) list" where
  "goMap kvs = foldl (\<lambda>m kv. AList.update (fst kv) (snd kv) m) [] kvs"

lemma goMap_snoc: "goMap (kvs @ [(k, v)]) = AList.update k v (goMap kvs)"
  by (simp add: goMap_def)

text \<open>The last assignment to a key wins.\<close>

lemma map_of_goMap: "map_of (goMap kvs) = map_of (rev kvs)"
proof (induction kvs rule: rev_induct)
  case (snoc kv kvs)
  then show ?case by (cases kv) (simp add: goMap_snoc AList.update_conv')
qed (simp add: goMap_def)

lemma distinct_goMap: "distinct (map fst (goMap kvs))"
proof (induction kvs rule: rev_induct)
  case (snoc kv kvs)
  then show ?case by (cases kv) (simp add: goMap_snoc AList.distinct_update)
qed (simp add: goMap_def)

lemma fst_goMap: "fst ` set (goMap kvs) = fst ` set kvs"
proof (induction kvs rule: rev_induct)
  case (snoc kv kvs)
  then show ?case by (cases kv) (simp add: goMap_snoc AList.dom_update)
qed (simp add: goMap_def)

lemma goMap_mem: "(k, v) \<in> set (goMap kvs) \<longleftrightarrow> map_of (goMap kvs) k = Some v"
  by (simp add: distinct_goMap)

lemma goMap_distinct: "distinct (map fst kvs) \<Longrightarrow> map_of (goMap kvs) = map_of kvs"
  using map_of_inject_set [of "rev kvs" kvs] by (simp add: map_of_goMap flip: rev_map)

text \<open>A map whose keys are collected before it is used, as in \<open>for k := range m\<close>.\<close>

definition keyUnion :: "('k \<times> 'a) list \<Rightarrow> ('k \<times> 'b) list \<Rightarrow> 'k list" where
  "keyUnion m m' = remdups (map fst m @ map fst m')"

subsection \<open>Numbers are printed faithfully\<close>

lemma showNat_digits: "list_all isDigit (showNat n) \<and> showNat n \<noteq> []"
proof (induction n rule: showNat.induct)
  case (1 n)
  have "isDigit (chr (48 + n mod 10))" by (simp add: isDigit_def)
  then show ?case using 1 by (cases "n < 10") (simp_all add: showNat.simps [of n])
qed

lemma digitsVal_snoc: "digitsVal (s @ [c]) = digitsVal s * 10 + digitVal c"
  by (simp add: digitsVal_def)

lemma digitsVal_showNat: "digitsVal (showNat n) = int n"
proof (induction n rule: showNat.induct)
  case (1 n)
  show ?case
  proof (cases "n < 10")
    case True
    then show ?thesis by (subst showNat.simps) (simp add: digitsVal_def digitVal_def)
  next
    case False
    then have "digitsVal (showNat n) = int (n div 10) * 10 + int (n mod 10)"
      using 1 by (subst showNat.simps) (simp add: digitsVal_snoc digitVal_def)
    also have "\<dots> = int n" by presburger
    finally show ?thesis .
  qed
qed

lemma parseInt_showInt:
  assumes "inInt64 z" shows "parseInt (showInt z) = Some z"
proof -
  note d = showNat_digits [of "nat (- z)"] showNat_digits [of "nat z"]
  have hd: "hd (showNat (nat z)) \<noteq> CHR ''-'' \<and> hd (showNat (nat z)) \<noteq> CHR ''+''"
    using d(2) by (cases "showNat (nat z)") (auto simp: isDigit_def)
  show ?thesis
    using assms d hd by (auto simp: parseInt_def showInt_def decimalInt_def digitsVal_showNat Let_def)
qed

end
