(* ===== verification/GoParse.thy ===== *)
theory GoParse
  imports GoFloat GoFmt
begin

text \<open>
  Number parsing of the standard library as the schema compiler uses it: \<open>strconv.ParseFloat\<close>,
  \<open>big.Int.SetString\<close> in base ten, the decimal literal pattern of
  \<open>internal/onkcompile/bounds.go\<close>, and the lower-casing used for lookups in ASCII tables.
\<close>

definition signOf :: "string \<Rightarrow> bool \<times> string" where
  "signOf s = (case s of [] \<Rightarrow> (False, [])
     | c # t \<Rightarrow> if c = CHR ''-'' then (True, t) else if c = CHR ''+'' then (False, t) else (False, s))"

definition parseBigInt :: "string \<Rightarrow> int option" where
  "parseBigInt s = (let (neg, t) = signOf s in map_option (\<lambda>n. if neg then - n else n) (decimalInt t))"

definition hexVal :: "char \<Rightarrow> int option" where
  "hexVal c =
     (if isDigit c then Some (digitVal c)
      else let l = byte (lowerChar c) in if 97 \<le> l \<and> l \<le> 102 then Some (int l - 87) else None)"

definition mantDigit :: "bool \<Rightarrow> char \<Rightarrow> int option" where
  "mantDigit hex c = (if hex then hexVal c else if isDigit c then Some (digitVal c) else None)"

text \<open>
  The loop over the mantissa: its value, the digits after the point, whether a point, a digit or
  an underscore was seen, and the text it stops at.
\<close>

record mantissa =
  mtValue :: int
  mtFrac :: int
  mtDot :: bool
  mtDigits :: bool
  mtUnder :: bool

fun scanMantissa :: "bool \<Rightarrow> mantissa \<Rightarrow> string \<Rightarrow> mantissa \<times> string" where
  "scanMantissa hex m [] = (m, [])"
| "scanMantissa hex m (c # s) =
     (if c = CHR ''_'' then scanMantissa hex (m\<lparr>mtUnder := True\<rparr>) s
      else if c = CHR ''.'' then
        (if mtDot m then (m, c # s) else scanMantissa hex (m\<lparr>mtDot := True\<rparr>) s)
      else case mantDigit hex c of
        None \<Rightarrow> (m, c # s)
      | Some d \<Rightarrow> scanMantissa hex
          (m\<lparr>mtValue := mtValue m * (if hex then 16 else 10) + d,
             mtFrac := mtFrac m + (if mtDot m then 1 else 0), mtDigits := True\<rparr>) s)"

text \<open>The digits of an exponent, which stops growing at 10000.\<close>

fun scanExp10 :: "int \<Rightarrow> bool \<Rightarrow> string \<Rightarrow> int \<times> bool \<times> string" where
  "scanExp10 e us [] = (e, us, [])"
| "scanExp10 e us (c # s) =
     (if c = CHR ''_'' then scanExp10 e True s
      else if isDigit c then scanExp10 (if e < 10000 then e * 10 + digitVal c else e) us s
      else (e, us, c # s))"

text \<open>\<open>underscoreOK\<close>: \<open>saw\<close> is the class of the last character, 0 for a digit or a base prefix.\<close>

fun underscores :: "bool \<Rightarrow> char \<Rightarrow> string \<Rightarrow> bool" where
  "underscores hex saw [] \<longleftrightarrow> saw \<noteq> CHR ''_''"
| "underscores hex saw (c # s) \<longleftrightarrow>
     (if isDigit c \<or> hex \<and> hexVal c \<noteq> None then underscores hex (CHR ''0'') s
      else if c = CHR ''_'' then saw = CHR ''0'' \<and> underscores hex (CHR ''_'') s
      else saw \<noteq> CHR ''_'' \<and> underscores hex (CHR ''!'') s)"

definition basePrefix :: "string \<Rightarrow> char option" where
  "basePrefix s = (case s of a # b # t \<Rightarrow>
       if a = CHR ''0'' \<and> lowerChar b \<in> set ''box'' then Some (lowerChar b) else None
     | _ \<Rightarrow> None)"

definition underscoreOK :: "string \<Rightarrow> bool" where
  "underscoreOK s =
     (let t = snd (signOf s) in
      case basePrefix t of
        Some c \<Rightarrow> underscores (c = CHR ''x'') (CHR ''0'') (drop 2 t)
      | None \<Rightarrow> underscores False (CHR ''^'') t)"

definition floatValue :: "bool \<Rightarrow> bool \<Rightarrow> int \<Rightarrow> int \<Rightarrow> f64 option" where
  "floatValue neg hex m e =
     (let b = (if hex then 2 else 10);
          x = (if m = 0 then fzero neg
               else if 0 \<le> e then roundF neg (m * b ^ nat e) 1 else roundF neg m (b ^ nat (- e))) in
      case x of FNum _ _ _ \<Rightarrow> Some x | _ \<Rightarrow> None)"

text \<open>\<open>readFloat\<close> on the whole text; a syntax error and a range error are both \<open>None\<close>.\<close>

definition readFloat :: "string \<Rightarrow> f64 option" where
  "readFloat s =
     (let (neg, t) = signOf s;
          hex = (2 < length t \<and> basePrefix t = Some (CHR ''x''));
          (m, r) = scanMantissa hex \<lparr>mtValue = 0, mtFrac = 0, mtDot = False, mtDigits = False, mtUnder = False\<rparr>
             (if hex then drop 2 t else t);
          frac = (if hex then 4 * mtFrac m else mtFrac m) in
      if \<not> mtDigits m then None
      else case r of
        [] \<Rightarrow> if hex \<or> mtUnder m \<and> \<not> underscoreOK s then None else floatValue neg hex (mtValue m) (- frac)
      | c # r1 \<Rightarrow>
          if lowerChar c \<noteq> (if hex then CHR ''p'' else CHR ''e'') then None
          else
            let (eneg, r2) = signOf r1 in
            if r2 = [] \<or> \<not> isDigit (hd r2) then None
            else
              let (e, us, rest) = scanExp10 0 (mtUnder m) r2 in
              if rest \<noteq> [] \<or> us \<and> \<not> underscoreOK s then None
              else floatValue neg hex (mtValue m) ((if eneg then - e else e) - frac))"

text \<open>The names of the special values, in any case; a NaN has no sign.\<close>

definition specialFloat :: "string \<Rightarrow> f64 option" where
  "specialFloat s =
     (let (neg, t) = signOf s in
      if toLower t \<in> {''inf'', ''infinity''} then Some (FInf neg)
      else if toLower s = ''nan'' then Some FNaN else None)"

definition parseFloat :: "string \<Rightarrow> f64 option" where
  "parseFloat s = (case specialFloat s of Some x \<Rightarrow> Some x | None \<Rightarrow> readFloat s)"

text \<open>The text left after one or more digits, after an optional group.\<close>

definition digits1 :: "string \<Rightarrow> string option" where
  "digits1 s = (if s \<noteq> [] \<and> isDigit (hd s) then Some (dropWhile isDigit s) else None)"

definition decimalLiteral :: "string \<Rightarrow> bool" where
  "decimalLiteral s =
     (case digits1 (snd (signOf s)) of
        None \<Rightarrow> False
      | Some r \<Rightarrow>
          (let r' = (case r of c # t \<Rightarrow>
                       if c = CHR ''.'' then (case digits1 t of Some u \<Rightarrow> u | None \<Rightarrow> r) else r
                     | [] \<Rightarrow> []) in
           case r' of
             [] \<Rightarrow> True
           | c # t \<Rightarrow> c \<in> set ''eE'' \<and> digits1 (snd (signOf t)) = Some []))"

text \<open>
  \<open>strings.ToLower\<close> for a lookup in a table of ASCII words: besides the ASCII capitals only
  U+0130 and the Kelvin sign become ASCII letters; any other rune stays outside ASCII and is
  left as it is.
\<close>

definition lowerRune :: "rune \<Rightarrow> rune" where
  "lowerRune r = (if 65 \<le> r \<and> r \<le> 90 then r + 32 else if r = 0x130 then 105 else if r = 0x212A then 107 else r)"

definition toLowerKey :: "string \<Rightarrow> string" where
  "toLowerKey s = concat (map (\<lambda>r. encodeRune (lowerRune r)) (runes s))"

end
