(* ===== verification/Search.thy ===== *)
theory Search
  imports Main
begin

text \<open>
  Depth-first search with a set of visited nodes, the shape of \<open>wsIDField\<close> and
  \<open>messageHasRaw\<close> in \<open>internal/onkir/helpers.go\<close>: a node is a message, and its loop over
  fields and variants is the list of its items in source order, each a result that ends the
  search or a node to visit. The visited set is one Go map shared by all the calls, so it is
  threaded through them. A call is given \<open>k\<close> levels of recursion; \<open>walk\<close> gives one more than
  there are nodes with items, which \<open>search_enough\<close> shows is never used up.
\<close>

datatype 'r item = Visit nat | Hit 'r

type_synonym 'r found = "('r option \<times> nat list) option"

fun searchItems :: "(nat \<Rightarrow> nat list \<Rightarrow> 'r found) \<Rightarrow> 'r item list \<Rightarrow> nat list \<Rightarrow> 'r found" where
  "searchItems visit [] seen = Some (None, seen)"
| "searchItems visit (Hit x # is) seen = Some (Some x, seen)"
| "searchItems visit (Visit m # is) seen =
     (case visit m seen of
        None \<Rightarrow> None
      | Some (Some x, s) \<Rightarrow> Some (Some x, s)
      | Some (None, s) \<Rightarrow> searchItems visit is s)"

fun search :: "(nat \<Rightarrow> 'r item list) \<Rightarrow> (nat \<Rightarrow> bool) \<Rightarrow> nat \<Rightarrow> nat \<Rightarrow> nat list \<Rightarrow> 'r found" where
  "search items skip 0 m seen = None"
| "search items skip (Suc k) m seen =
     (if m \<in> set seen \<or> skip m then Some (None, seen)
      else searchItems (search items skip k) (items m) (m # seen))"

definition walk :: "(nat \<Rightarrow> 'r item list) \<Rightarrow> (nat \<Rightarrow> bool) \<Rightarrow> nat \<Rightarrow> nat \<Rightarrow> 'r option" where
  "walk items skip n m = (case search items skip (Suc n) m [] of Some (r, _) \<Rightarrow> r | None \<Rightarrow> None)"

text \<open>The nodes a search may look at.\<close>

inductive reach :: "(nat \<Rightarrow> 'r item list) \<Rightarrow> (nat \<Rightarrow> bool) \<Rightarrow> nat \<Rightarrow> nat \<Rightarrow> bool" for items skip m where
  R_here: "\<not> skip m \<Longrightarrow> reach items skip m m"
| R_step: "reach items skip m a \<Longrightarrow> Visit b \<in> set (items a) \<Longrightarrow> \<not> skip b \<Longrightarrow> reach items skip m b"

lemma reach_front:
  assumes "reach items skip b a" "\<not> skip m" "Visit b \<in> set (items m)"
  shows "reach items skip m a"
  using assms(1)
proof induction
  case R_here
  then show ?case using assms by (blast intro: reach.intros)
qed (blast intro: reach.intros)

text \<open>Every item of a node is dealt with: no hit is left, and what it leads to was visited.\<close>

definition explored :: "(nat \<Rightarrow> 'r item list) \<Rightarrow> (nat \<Rightarrow> bool) \<Rightarrow> nat list \<Rightarrow> 'r item list \<Rightarrow> bool" where
  "explored items skip s is \<longleftrightarrow>
     (\<forall>x. Hit x \<notin> set is) \<and> (\<forall>b. Visit b \<in> set is \<longrightarrow> skip b \<or> b \<in> set s)"

lemma explored_mono: "explored items skip s is \<Longrightarrow> set s \<subseteq> set s' \<Longrightarrow> explored items skip s' is"
  by (auto simp: explored_def)

locale finite_search =
  fixes items :: "nat \<Rightarrow> 'r item list" and skip :: "nat \<Rightarrow> bool" and n :: nat
  assumes outside: "n \<le> m \<Longrightarrow> items m = []"
begin

lemma searchItems_sound:
  assumes v: "\<And>m seen s. visit m seen = Some (Some x, s) \<Longrightarrow> P m"
  shows "searchItems visit is seen = Some (Some x, s) \<Longrightarrow> Hit x \<in> set is \<or> (\<exists>m. Visit m \<in> set is \<and> P m)"
proof (induction "is" arbitrary: seen)
  case (Cons i "is")
  show ?case
  proof (cases i)
    case (Visit m)
    from Cons.prems Visit obtain r s1 where r: "visit m seen = Some (r, s1)"
      by (cases "visit m seen") auto
    show ?thesis
    proof (cases r)
      case None
      with Cons Visit r show ?thesis by auto
    next
      case (Some y)
      with Cons.prems Visit r have "visit m seen = Some (Some x, s)" by simp
      with v Visit show ?thesis by auto
    qed
  next
    case (Hit y)
    with Cons.prems show ?thesis by simp
  qed
qed simp

lemma search_sound:
  "search items skip k m seen = Some (Some x, s) \<Longrightarrow> \<exists>a. reach items skip m a \<and> Hit x \<in> set (items a)"
proof (induction k arbitrary: m seen s)
  case (Suc k)
  then have new: "\<not> skip m" and run: "searchItems (search items skip k) (items m) (m # seen) = Some (Some x, s)"
    by (auto split: if_splits)
  from searchItems_sound [OF _ run, of "\<lambda>b. \<exists>a. reach items skip b a \<and> Hit x \<in> set (items a)"] Suc.IH
  have "Hit x \<in> set (items m) \<or> (\<exists>b. Visit b \<in> set (items m) \<and> (\<exists>a. reach items skip b a \<and> Hit x \<in> set (items a)))"
    by blast
  with new show ?case by (blast intro: reach_front R_here)
qed simp

text \<open>When nothing is found, every newly visited node is explored.\<close>

definition covers :: "nat list \<Rightarrow> nat list \<Rightarrow> bool" where
  "covers seen s \<longleftrightarrow> set seen \<subseteq> set s \<and>
     (\<forall>a \<in> set s - set seen. \<not> skip a \<and> explored items skip s (items a))"

lemma covers_refl: "covers s s"
  by (simp add: covers_def)

lemma covers_trans: "covers a b \<Longrightarrow> covers b c \<Longrightarrow> covers a c"
  unfolding covers_def by (meson Diff_iff explored_mono subset_trans subsetD)

lemma searchItems_complete:
  assumes v: "\<And>m seen s. visit m seen = Some (None, s) \<Longrightarrow> covers seen s \<and> (skip m \<or> m \<in> set s)"
  shows "searchItems visit is seen = Some (None, s) \<Longrightarrow> covers seen s \<and> explored items skip s is"
proof (induction "is" arbitrary: seen)
  case Nil
  then show ?case by (simp add: covers_refl explored_def)
next
  case (Cons i "is")
  then obtain m where i: "i = Visit m" by (cases i) auto
  from Cons.prems i obtain r s1 where r: "visit m seen = Some (r, s1)"
    by (cases "visit m seen") auto
  with Cons.prems i have n: "r = None" by (cases r) auto
  with Cons i r have rest: "covers s1 s \<and> explored items skip s is" by simp
  from v r n have "covers seen s1" "skip m \<or> m \<in> set s1" by auto
  with rest i show ?case
    by (auto simp: explored_def intro: covers_trans) (auto simp: covers_def)
qed

lemma search_complete:
  "search items skip k m seen = Some (None, s) \<Longrightarrow> covers seen s \<and> (skip m \<or> m \<in> set s)"
proof (induction k arbitrary: m seen s)
  case (Suc k)
  show ?case
  proof (cases "m \<in> set seen \<or> skip m")
    case True
    with Suc.prems show ?thesis by (auto simp: covers_refl)
  next
    case False
    with Suc.prems have "searchItems (search items skip k) (items m) (m # seen) = Some (None, s)" by simp
    from searchItems_complete [OF Suc.IH this]
    have "covers (m # seen) s" "explored items skip s (items m)" by auto
    with False show ?thesis by (auto simp: covers_def)
  qed
qed simp

text \<open>Enough levels are never used up: each nested call has marked one more node.\<close>

definition unseen :: "nat list \<Rightarrow> nat" where
  "unseen seen = card ({..<n} - set seen)"

lemma unseen_mono: "set seen \<subseteq> set s \<Longrightarrow> unseen s \<le> unseen seen"
  by (auto simp: unseen_def intro: card_mono)

lemma unseen_mark: "m < n \<Longrightarrow> m \<notin> set seen \<Longrightarrow> unseen (m # seen) < unseen seen"
  unfolding unseen_def by (rule psubset_card_mono) auto

lemma searchItems_enough:
  assumes v: "\<And>m seen. unseen seen < k \<Longrightarrow> \<exists>r s. visit m seen = Some (r, s) \<and> set seen \<subseteq> set s"
  shows "unseen seen < k \<Longrightarrow> \<exists>r s. searchItems visit is seen = Some (r, s) \<and> set seen \<subseteq> set s"
proof (induction "is" arbitrary: seen)
  case (Cons i "is")
  show ?case
  proof (cases i)
    case (Visit m)
    from v [OF Cons.prems] obtain r s where r: "visit m seen = Some (r, s)" "set seen \<subseteq> set s" by blast
    have "unseen s < k" by (rule le_less_trans [OF unseen_mono [OF r(2)] Cons.prems])
    from Cons.IH [OF this] r Visit show ?thesis by (cases r) auto
  qed simp
qed simp

lemma search_enough:
  "unseen seen < k \<Longrightarrow> \<exists>r s. search items skip k m seen = Some (r, s) \<and> set seen \<subseteq> set s"
proof (induction k arbitrary: m seen)
  case (Suc k)
  show ?case
  proof (cases "m \<in> set seen \<or> skip m")
    case False
    show ?thesis
    proof (cases "m < n")
      case True
      with unseen_mark [of m seen] False Suc.prems have "unseen (m # seen) < k" by simp
      from searchItems_enough [OF Suc.IH this]
      have "\<exists>r s. searchItems (search items skip k) (items m) (m # seen) = Some (r, s) \<and> set (m # seen) \<subseteq> set s" .
      with False show ?thesis by auto
    next
      case out: False
      with False show ?thesis by (auto simp: outside)
    qed
  qed auto
qed simp

lemma walk_result: "\<exists>s. search items skip (Suc n) m [] = Some (walk items skip n m, s)"
  using search_enough [of "[]" "Suc n" m] by (auto simp: unseen_def walk_def)

lemma walk_Some: "walk items skip n m = Some x \<Longrightarrow> \<exists>a. reach items skip m a \<and> Hit x \<in> set (items a)"
  using walk_result search_sound by metis

lemma reach_covered:
  assumes "reach items skip m a" "m \<in> set s \<or> skip m" "covers [] s"
  shows "a \<in> set s"
  using assms by induction (auto simp: covers_def explored_def)

lemma walk_None: "walk items skip n m = None \<Longrightarrow> reach items skip m a \<Longrightarrow> Hit x \<notin> set (items a)"
  using walk_result [of m] search_complete reach_covered [of m a]
  by (metis Diff_iff covers_def empty_iff empty_set explored_def)

text \<open>The search finds something exactly when a reachable node holds a hit.\<close>

lemma walk_iff: "walk items skip n m \<noteq> None \<longleftrightarrow> (\<exists>a x. reach items skip m a \<and> Hit x \<in> set (items a))"
  using walk_Some walk_None by (metis not_None_eq)

end

end
