(* ===== verification/IrWalk.thy ===== *)
theory IrWalk
  imports Ir Search
begin

text \<open>
  The part of \<open>internal/onkir/helpers.go\<close> that walks messages: the correlation field of a
  WebSocket method, raw fields, timeouts, and the size of a request body. The two recursive
  walks are instances of \<open>Search\<close>.
\<close>

text \<open>The message a variant or a field points at, \<open>Kind == KindMessage\<close>.\<close>

definition typeMessage :: "irType option \<Rightarrow> mref option" where
  "typeMessage t = (case t of Some (TMessage r) \<Rightarrow> Some r | _ \<Rightarrow> None)"

definition visitType :: "irType option \<Rightarrow> 'r item list" where
  "visitType t = (case typeMessage t of Some r \<Rightarrow> [Visit r] | None \<Rightarrow> [])"

subsection \<open>@ws_id\<close>

definition wsIDItems :: "schema \<Rightarrow> mref \<Rightarrow> field item list" where
  "wsIDItems S r = concat (map (\<lambda>f. case fOneof f of
       Some o1 \<Rightarrow> concat (map (\<lambda>v. visitType (vType v)) (oVariants o1))
     | None \<Rightarrow> if fieldHasDecorator f ''ws_id'' then [Hit f] else []) (mFields (msgAt S r)))"

definition wsIDField :: "schema \<Rightarrow> mref option \<Rightarrow> field option" where
  "wsIDField S m = (case m of
     None \<Rightarrow> None | Some r \<Rightarrow> walk (wsIDItems S) (\<lambda>_. False) (length (schMessages S)) r)"

definition findWSIDDirect :: "schema \<Rightarrow> mref \<Rightarrow> field option" where
  "findWSIDDirect S r = find (\<lambda>f. fOneof f = None \<and> fieldHasDecorator f ''ws_id'') (mFields (msgAt S r))"

definition methodWSIDField :: "schema \<Rightarrow> rpc \<Rightarrow> field option" where
  "methodWSIDField S m = (case wsIDField S (rRequest m) of
     Some f \<Rightarrow> Some f | None \<Rightarrow> wsIDField S (rResponse m))"

definition fileHasWSCorrelation :: "schema \<Rightarrow> schemaFile \<Rightarrow> bool" where
  "fileHasWSCorrelation S fl =
     list_ex (\<lambda>s. list_ex (\<lambda>m. isWebSocket m \<and> methodWSIDField S m \<noteq> None) (sMethods s)) (flServices fl)"

definition isWSCancel :: "variant \<Rightarrow> bool" where
  "isWSCancel v = (variantDecorator v ''ws_cancel'' \<noteq> None)"

text \<open>The first variant of the loop over fields and variants that returns.\<close>

definition wsCancelOf :: "schema \<Rightarrow> field \<Rightarrow> variant \<Rightarrow> (field \<times> variant \<times> field) option" where
  "wsCancelOf S f v =
     (if \<not> isWSCancel v then None
      else case typeMessage (vType v) of
        None \<Rightarrow> None
      | Some r \<Rightarrow> map_option (\<lambda>vf. (f, v, vf)) (findWSIDDirect S r))"

fun firstSome :: "('a \<Rightarrow> 'b option) \<Rightarrow> 'a list \<Rightarrow> 'b option" where
  "firstSome g [] = None"
| "firstSome g (x # xs) = (case g x of Some y \<Rightarrow> Some y | None \<Rightarrow> firstSome g xs)"

definition wsCancelVariant :: "schema \<Rightarrow> mref option \<Rightarrow> (field \<times> variant \<times> field) option" where
  "wsCancelVariant S m = (case m of
     None \<Rightarrow> None
   | Some r \<Rightarrow> firstSome (\<lambda>f. case fOneof f of
         None \<Rightarrow> None | Some o1 \<Rightarrow> firstSome (wsCancelOf S f) (oVariants o1)) (mFields (msgAt S r)))"

subsection \<open>@raw\<close>

definition isRaw :: "field \<Rightarrow> bool" where "isRaw f = fieldHasDecorator f ''raw''"

definition rawFieldItems :: "field \<Rightarrow> unit item list" where
  "rawFieldItems f = (case fOneof f of
     Some o1 \<Rightarrow> concat (map (\<lambda>v. visitType (vType v)) (oVariants o1))
   | None \<Rightarrow> if isRaw f then [Hit ()] else visitType (fType f))"

definition rawItems :: "schema \<Rightarrow> mref \<Rightarrow> unit item list" where
  "rawItems S r = concat (map rawFieldItems (mFields (msgAt S r)))"

text \<open>\<open>external\<close> is the caller's callback; a nil callback is \<open>\<lambda>_. False\<close>.\<close>

definition messageHasRaw :: "schema \<Rightarrow> (mref \<Rightarrow> bool) \<Rightarrow> mref option \<Rightarrow> bool" where
  "messageHasRaw S external m = (case m of
     None \<Rightarrow> False | Some r \<Rightarrow> walk (rawItems S) external (length (schMessages S)) r \<noteq> None)"

record rawStep =
  rsField :: field
  rsVariant :: "variant option"
  rsChild :: "mref option"

definition rawChild :: "schema \<Rightarrow> (mref \<Rightarrow> bool) \<Rightarrow> irType option \<Rightarrow> mref option" where
  "rawChild S external t = (case typeMessage t of
     Some r \<Rightarrow> if messageHasRaw S external (Some r) then Some r else None | None \<Rightarrow> None)"

definition rawFieldSteps :: "schema \<Rightarrow> (mref \<Rightarrow> bool) \<Rightarrow> field \<Rightarrow> rawStep list" where
  "rawFieldSteps S external f = (case fOneof f of
     Some o1 \<Rightarrow> concat (map (\<lambda>v. case rawChild S external (vType v) of
         Some r \<Rightarrow> [\<lparr>rsField = f, rsVariant = Some v, rsChild = Some r\<rparr>] | None \<Rightarrow> []) (oVariants o1))
   | None \<Rightarrow>
       if isRaw f then [\<lparr>rsField = f, rsVariant = None, rsChild = None\<rparr>]
       else case rawChild S external (fType f) of
         Some r \<Rightarrow> [\<lparr>rsField = f, rsVariant = None, rsChild = Some r\<rparr>] | None \<Rightarrow> [])"

definition rawSteps :: "schema \<Rightarrow> (mref \<Rightarrow> bool) \<Rightarrow> mref \<Rightarrow> rawStep list" where
  "rawSteps S external r = concat (map (rawFieldSteps S external) (mFields (msgAt S r)))"

subsection \<open>@ws_timeout\<close>

definition wsTimeoutField :: "schema \<Rightarrow> mref option \<Rightarrow> field option" where
  "wsTimeoutField S m = (case m of
     None \<Rightarrow> None
   | Some r \<Rightarrow> find (\<lambda>f. fOneof f = None \<and> fieldHasDecorator f ''ws_timeout'') (mFields (msgAt S r)))"

definition variantHasTimeout :: "schema \<Rightarrow> variant \<Rightarrow> bool" where
  "variantHasTimeout S v = (case typeMessage (vType v) of
     Some r \<Rightarrow> wsTimeoutField S (Some r) \<noteq> None | None \<Rightarrow> False)"

definition messageHasWSTimeout :: "schema \<Rightarrow> mref \<Rightarrow> bool" where
  "messageHasWSTimeout S r =
     (wsTimeoutField S (Some r) \<noteq> None \<or>
      list_ex (\<lambda>f. case fOneof f of
        None \<Rightarrow> False | Some o1 \<Rightarrow> list_ex (variantHasTimeout S) (oVariants o1)) (mFields (msgAt S r)))"

subsection \<open>Body sizes\<close>

definition byteUnits :: "(string \<times> int) list" where
  "byteUnits = [(''GiB'', 2 ^ 30), (''MiB'', 2 ^ 20), (''KiB'', 2 ^ 10), (''B'', 1)]"

text \<open>The product is the wrapping product of two \<open>int64\<close>; the guard keeps it from wrapping.\<close>

definition byteUnit :: "string \<Rightarrow> string \<times> int" where
  "byteUnit text1 = (case find (\<lambda>(sfx, _). hasSuffix text1 sfx) byteUnits of
     Some (sfx, factor) \<Rightarrow> (trimSpace (trimSuffix text1 sfx), factor) | None \<Rightarrow> (text1, 1))"

definition parseByteSize :: "string \<Rightarrow> int option" where
  "parseByteSize text0 =
     (case byteUnit (trimSpace text0) of (digits, multiplier) \<Rightarrow>
      (case parseInt digits of
         None \<Rightarrow> None
       | Some n \<Rightarrow> if n \<le> 0 \<or> n > 2 ^ 62 div multiplier then None
                   else Some (sint (i64 n * i64 multiplier))))"

definition maxBodyBytes :: "rpc \<Rightarrow> int option" where
  "maxBodyBytes m =
     (case find (\<lambda>d. decName d = ''max_body'' \<and> length (decArgs d) = 1) (rDecorators m) of
        Some d \<Rightarrow> parseByteSize (argValue (decArgs d ! 0)) | None \<Rightarrow> None)"

subsection \<open>Properties\<close>

lemma nilMessage_fields: "length (schMessages S) \<le> r \<Longrightarrow> mFields (msgAt S r) = []"
  by (simp add: msgAt_def nilMessage_def)

interpretation wsID: finite_search "wsIDItems S" "\<lambda>_. False" "length (schMessages S)" for S
  by unfold_locales (simp add: wsIDItems_def nilMessage_fields)

interpretation raws: finite_search "rawItems S" external "length (schMessages S)" for S external
  by unfold_locales (simp add: rawItems_def nilMessage_fields)

text \<open>The messages reachable through the variants of oneof fields.\<close>

inductive variantReach :: "schema \<Rightarrow> mref \<Rightarrow> mref \<Rightarrow> bool" for S m where
  VR_here: "variantReach S m m"
| VR_variant: "variantReach S m a \<Longrightarrow> f \<in> set (mFields (msgAt S a)) \<Longrightarrow> fOneof f = Some o1 \<Longrightarrow>
    v \<in> set (oVariants o1) \<Longrightarrow> typeMessage (vType v) = Some b \<Longrightarrow> variantReach S m b"

lemma visitType_set [simp]: "i \<in> set (visitType t) \<longleftrightarrow> (\<exists>r. typeMessage t = Some r \<and> i = Visit r)"
  by (auto simp: visitType_def split: option.splits)

lemma wsIDItems_Visit:
  "Visit b \<in> set (wsIDItems S a) \<longleftrightarrow>
   (\<exists>f o1 v. f \<in> set (mFields (msgAt S a)) \<and> fOneof f = Some o1 \<and> v \<in> set (oVariants o1) \<and>
      typeMessage (vType v) = Some b)"
  by (fastforce simp: wsIDItems_def split: option.splits if_splits)

lemma wsIDItems_Hit:
  "Hit f \<in> set (wsIDItems S a) \<longleftrightarrow>
   f \<in> set (mFields (msgAt S a)) \<and> fOneof f = None \<and> fieldHasDecorator f ''ws_id''"
  by (fastforce simp: wsIDItems_def split: option.splits if_splits)

lemma variantReach_reach: "variantReach S m a \<longleftrightarrow> reach (wsIDItems S) (\<lambda>_. False) m a"
proof
  show "variantReach S m a \<Longrightarrow> reach (wsIDItems S) (\<lambda>_. False) m a"
  proof (induction rule: variantReach.induct)
    case (VR_variant a f o1 v b)
    then have "Visit b \<in> set (wsIDItems S a)" unfolding wsIDItems_Visit by blast
    with VR_variant show ?case by (blast intro: R_step)
  qed (simp add: R_here)
  show "reach (wsIDItems S) (\<lambda>_. False) m a \<Longrightarrow> variantReach S m a"
    by (induction rule: reach.induct) (auto simp: wsIDItems_Visit intro: variantReach.intros)
qed

lemma findWSIDDirect_None:
  "findWSIDDirect S a = None \<longleftrightarrow>
   (\<forall>f \<in> set (mFields (msgAt S a)). fOneof f = None \<longrightarrow> \<not> fieldHasDecorator f ''ws_id'')"
  by (auto simp: findWSIDDirect_def find_None_iff)

lemma wsIDField_exact:
  "(wsIDField S (Some m) \<noteq> None \<longleftrightarrow> (\<exists>a. variantReach S m a \<and> findWSIDDirect S a \<noteq> None)) \<and>
   (\<forall>f. wsIDField S (Some m) = Some f \<longrightarrow>
      fOneof f = None \<and> fieldHasDecorator f ''ws_id'' \<and>
      (\<exists>a. variantReach S m a \<and> f \<in> set (mFields (msgAt S a))))"
  using wsID.walk_iff [of S m] wsID.walk_Some [of S m]
  by (auto simp: wsIDField_def variantReach_reach findWSIDDirect_None wsIDItems_Hit)

text \<open>The messages a raw field is looked for in.\<close>

inductive rawReach :: "schema \<Rightarrow> (mref \<Rightarrow> bool) \<Rightarrow> mref \<Rightarrow> mref \<Rightarrow> bool" for S ext m where
  RR_here: "\<not> ext m \<Longrightarrow> rawReach S ext m m"
| RR_variant: "rawReach S ext m a \<Longrightarrow> f \<in> set (mFields (msgAt S a)) \<Longrightarrow> fOneof f = Some o1 \<Longrightarrow>
    v \<in> set (oVariants o1) \<Longrightarrow> typeMessage (vType v) = Some b \<Longrightarrow> \<not> ext b \<Longrightarrow> rawReach S ext m b"
| RR_field: "rawReach S ext m a \<Longrightarrow> f \<in> set (mFields (msgAt S a)) \<Longrightarrow> fOneof f = None \<Longrightarrow> \<not> isRaw f \<Longrightarrow>
    typeMessage (fType f) = Some b \<Longrightarrow> \<not> ext b \<Longrightarrow> rawReach S ext m b"

lemma rawFieldItems_Visit:
  "Visit b \<in> set (rawFieldItems f) \<longleftrightarrow>
   (\<exists>o1 v. fOneof f = Some o1 \<and> v \<in> set (oVariants o1) \<and> typeMessage (vType v) = Some b) \<or>
   fOneof f = None \<and> \<not> isRaw f \<and> typeMessage (fType f) = Some b"
  by (auto simp: rawFieldItems_def split: option.splits)

lemma rawFieldItems_Hit: "Hit () \<in> set (rawFieldItems f) \<longleftrightarrow> fOneof f = None \<and> isRaw f"
  by (auto simp: rawFieldItems_def split: option.splits)

lemma rawItems_Visit:
  "Visit b \<in> set (rawItems S a) \<longleftrightarrow>
   (\<exists>f \<in> set (mFields (msgAt S a)).
      (\<exists>o1 v. fOneof f = Some o1 \<and> v \<in> set (oVariants o1) \<and> typeMessage (vType v) = Some b) \<or>
      fOneof f = None \<and> \<not> isRaw f \<and> typeMessage (fType f) = Some b)"
  by (simp add: rawItems_def rawFieldItems_Visit)

lemma rawItems_Hit:
  "Hit () \<in> set (rawItems S a) \<longleftrightarrow> (\<exists>f \<in> set (mFields (msgAt S a)). fOneof f = None \<and> isRaw f)"
  by (simp add: rawItems_def rawFieldItems_Hit)

lemma rawReach_reach: "rawReach S ext m a \<longleftrightarrow> reach (rawItems S) ext m a"
proof
  show "rawReach S ext m a \<Longrightarrow> reach (rawItems S) ext m a"
  proof (induction rule: rawReach.induct)
    case (RR_variant a f o1 v b)
    then have "Visit b \<in> set (rawItems S a)" unfolding rawItems_Visit by blast
    with RR_variant show ?case by (blast intro: R_step)
  next
    case (RR_field a f b)
    then have "Visit b \<in> set (rawItems S a)" unfolding rawItems_Visit by blast
    with RR_field show ?case by (blast intro: R_step)
  qed (rule R_here)
  show "reach (rawItems S) ext m a \<Longrightarrow> rawReach S ext m a"
  proof (induction rule: reach.induct)
    case (R_step a b)
    from R_step(2) obtain f where f: "f \<in> set (mFields (msgAt S a))" and
      "(\<exists>o1 v. fOneof f = Some o1 \<and> v \<in> set (oVariants o1) \<and> typeMessage (vType v) = Some b) \<or>
       fOneof f = None \<and> \<not> isRaw f \<and> typeMessage (fType f) = Some b"
      unfolding rawItems_Visit by blast
    then show ?case using R_step(3,4) by (blast intro: RR_variant RR_field)
  qed (rule RR_here)
qed

lemma messageHasRaw_iff:
  "messageHasRaw S ext (Some m) \<longleftrightarrow>
   (\<exists>a. rawReach S ext m a \<and> (\<exists>f \<in> set (mFields (msgAt S a)). fOneof f = None \<and> isRaw f))"
  using raws.walk_iff [of S ext m] by (simp add: messageHasRaw_def rawReach_reach flip: rawItems_Hit)

text \<open>A message that is not external has a raw step exactly when it has a raw field somewhere.\<close>

lemma rawChild_Some:
  "rawChild S ext t \<noteq> None \<longleftrightarrow> (\<exists>r. typeMessage t = Some r \<and> messageHasRaw S ext (Some r))"
  by (auto simp: rawChild_def split: option.splits)

lemma rawFieldSteps_Nil:
  "rawFieldSteps S ext f \<noteq> [] \<longleftrightarrow>
   (case fOneof f of
      Some o1 \<Rightarrow> \<exists>v \<in> set (oVariants o1). rawChild S ext (vType v) \<noteq> None
    | None \<Rightarrow> isRaw f \<or> rawChild S ext (fType f) \<noteq> None)"
  by (auto simp: rawFieldSteps_def split: option.splits)

lemma rawFieldSteps_iff:
  "rawFieldSteps S ext f \<noteq> [] \<longleftrightarrow>
   fOneof f = None \<and> isRaw f \<or>
   (\<exists>b. ((\<exists>o1 v. fOneof f = Some o1 \<and> v \<in> set (oVariants o1) \<and> typeMessage (vType v) = Some b) \<or>
      fOneof f = None \<and> \<not> isRaw f \<and> typeMessage (fType f) = Some b) \<and> messageHasRaw S ext (Some b))"
proof (cases "fOneof f")
  case None
  then show ?thesis unfolding rawFieldSteps_Nil by (simp add: rawChild_Some del: not_None_eq) blast
next
  case (Some o1)
  then show ?thesis unfolding rawFieldSteps_Nil by (simp add: rawChild_Some del: not_None_eq) blast
qed

lemma rawReach_front:
  assumes "rawReach S ext b a" "\<not> ext m" "Visit b \<in> set (rawItems S m)"
  shows "rawReach S ext m a"
  using assms by (simp add: rawReach_reach reach_front)

lemma rawReach_cases_front:
  "rawReach S ext m a \<Longrightarrow> a = m \<or> (\<exists>b. Visit b \<in> set (rawItems S m) \<and> rawReach S ext b a)"
proof (induction rule: rawReach.induct)
  case (RR_variant a f o1 v b)
  then have "Visit b \<in> set (rawItems S a)" unfolding rawItems_Visit by blast
  with RR_variant show ?case by (blast intro: rawReach.intros)
next
  case (RR_field a f b)
  then have "Visit b \<in> set (rawItems S a)" unfolding rawItems_Visit by blast
  with RR_field show ?case by (blast intro: rawReach.intros)
qed simp

lemma rawSteps_iff:
  assumes "\<not> ext m"
  shows "rawSteps S ext m \<noteq> [] \<longleftrightarrow> messageHasRaw S ext (Some m)"
proof -
  have "rawSteps S ext m \<noteq> [] \<longleftrightarrow>
      (\<exists>f \<in> set (mFields (msgAt S m)). fOneof f = None \<and> isRaw f) \<or>
      (\<exists>b. Visit b \<in> set (rawItems S m) \<and> messageHasRaw S ext (Some b))"
    using rawFieldSteps_iff [of S ext] by (simp add: rawSteps_def rawItems_Visit) blast
  also have "\<dots> \<longleftrightarrow> messageHasRaw S ext (Some m)"
    unfolding messageHasRaw_iff
    using assms by (blast intro: RR_here rawReach_front dest: rawReach_cases_front)
  finally show ?thesis .
qed

lemma byteProduct:
  assumes "0 < n" "0 < k" "n \<le> 2 ^ 62 div k" "inInt64 n" "k \<le> 2 ^ 30"
  shows "sint (i64 n * i64 k) = n * k \<and> n * k \<le> 2 ^ 62"
proof -
  have "n * k \<le> 2 ^ 62 div k * k" by (rule mult_right_mono) (use assms in auto)
  also have "\<dots> \<le> 2 ^ 62"
    using div_mult_mod_eq [of "2 ^ 62" k] pos_mod_sign [OF assms(2), of "2 ^ 62"] by linarith
  finally have le: "n * k \<le> 2 ^ 62" .
  moreover have "0 < n * k" using assms by simp
  ultimately have "inInt64 (n * k)" by (simp add: inInt64_def)
  with le show ?thesis using sint_i64 [of "n * k"] by simp
qed

text \<open>An accepted size is positive, at most \<open>2 ^ 62\<close>, and the number times its unit.\<close>

lemma byteUnit_factor: "byteUnit s = (b, k) \<Longrightarrow> k \<in> insert 1 (snd ` set byteUnits)"
  by (force simp: byteUnit_def find_Some_iff split: option.splits dest!: nth_mem)

lemma parseByteSize_result:
  assumes "parseByteSize text0 = Some z"
  shows "\<exists>n k. 0 < n \<and> k \<in> insert 1 (snd ` set byteUnits) \<and> z = n * k \<and> z \<le> 2 ^ 62"
proof -
  obtain b k where u: "byteUnit (trimSpace text0) = (b, k)" by fastforce
  then obtain n where nk: "parseInt b = Some n" "0 < n" "n \<le> 2 ^ 62 div k" "z = sint (i64 n * i64 k)"
    using assms by (auto simp: parseByteSize_def split: option.splits if_splits)
  have k: "k \<in> insert 1 (snd ` set byteUnits)" by (rule byteUnit_factor [OF u])
  then have "0 < k" "k \<le> 2 ^ 30" by (auto simp: byteUnits_def)
  from byteProduct [OF nk(2) this(1) nk(3) parseInt_range [OF nk(1)] this(2)]
  have z: "z = n * k" "z \<le> 2 ^ 62" unfolding nk(4) by simp_all
  show ?thesis by (rule exI [of _ n], rule exI [of _ k]) (intro conjI nk(2) k z)
qed

end
