(* ===== verification/DeclChecks.thy ===== *)
theory DeclChecks
  imports Decl GoParse IrWalk
begin

text \<open>
  The checks of declarations before compilation: \<open>internal/onkcompile/validate.go\<close> (messages,
  fields, enums, decorators), \<open>bounds.go\<close> and \<open>validateWSFieldDecorator\<close> of \<open>validate_ws.go\<close>. The
  Go maps from a converted name to the declared one are \<open>string \<rightharpoonup> string\<close>.

  Two tables of the standard library are arguments of the model: which runes outside ASCII
  \<open>unicode.IsUpper\<close> accepts, and what \<open>regexp/syntax.Parse\<close> makes of a \<open>@pattern\<close> (an error text,
  or the tree, of which the source looks at the operators only; \<open>regexp.Compile\<close> parses with the
  same flags and fails exactly when the parser does).
\<close>

datatype reOp = OpStar | OpPlus | OpQuest | OpRepeat | OpOther

datatype reTree = ReTree (reOp: reOp) (reSub: "reTree list")

record goLib =
  libUpper :: "rune \<Rightarrow> bool"
  libPattern :: "string \<Rightarrow> string + reTree"

subsection \<open>Names\<close>

definition asciiAlnum :: "rune \<Rightarrow> bool" where
  "asciiAlnum r \<longleftrightarrow> 97 \<le> r \<and> r \<le> 122 \<or> 65 \<le> r \<and> r \<le> 90 \<or> 48 \<le> r \<and> r \<le> 57"

definition generatedIdentifier :: "string \<Rightarrow> string" where
  "generatedIdentifier name = toLower (map chr (filter asciiAlnum (runes name)))"

definition isGeneratedKey :: "string \<Rightarrow> bool" where
  "isGeneratedKey name \<longleftrightarrow>
     \<not> (name = [] \<or> isDigit (hd name)) \<and> list_all (\<lambda>r. asciiAlnum r \<or> r = 95) (runes name)"

definition reservedDeclarationNames :: "string list" where
  "reservedDeclarationNames =
     [''break'', ''case'', ''chan'', ''class'', ''const'', ''continue'',
      ''default'', ''defer'', ''delete'', ''else'', ''enum'', ''export'',
      ''extends'', ''fallthrough'', ''false'', ''finally'', ''fn'', ''for'',
      ''from'', ''func'', ''go'', ''goto'', ''if'', ''implements'',
      ''import'', ''in'', ''interface'', ''let'', ''map'', ''match'',
      ''new'', ''nil'', ''none'', ''package'', ''pass'', ''range'',
      ''return'', ''select'', ''struct'', ''super'', ''switch'', ''trait'',
      ''true'', ''try'', ''type'', ''var'', ''while'', ''with'', ''yield'']"

definition pythonMemberKeywords :: "string list" where
  "pythonMemberKeywords =
     [''and'', ''as'', ''assert'', ''async'', ''await'', ''break'',
      ''class'', ''continue'', ''def'', ''del'', ''elif'', ''else'',
      ''except'', ''false'', ''finally'', ''for'', ''from'', ''global'',
      ''if'', ''import'', ''in'', ''is'', ''lambda'', ''none'',
      ''nonlocal'', ''not'', ''or'', ''pass'', ''raise'', ''return'',
      ''true'', ''try'', ''while'', ''with'', ''yield'']"

definition reservedDeclarationTargets :: "string list" where
  "reservedDeclarationTargets = [''python-client'', ''rust-client'', ''rust-server'', ''dart-client'', ''swift-client'']"

definition isUpper :: "goLib \<Rightarrow> rune \<Rightarrow> bool" where
  "isUpper lib r = (if r < 128 then 65 \<le> r \<and> r \<le> 90 else libUpper lib r)"

text \<open>\<open>DecodeRuneInString\<close> of the empty string is the error rune, which is not upper case.\<close>

definition firstRune :: "string \<Rightarrow> rune" where
  "firstRune s = (if s = [] then runeError else fst (decodeRune s))"

definition validateDeclarationName :: "goLib \<Rightarrow> string \<Rightarrow> nat \<Rightarrow> string \<Rightarrow> compileOptions \<Rightarrow> checked" where
  "validateDeclarationName lib path line name opts =
     (if generatedIdentifier name = [] then
        errAt path line ''declaration name %q does not produce a valid generated identifier'' [name]
      else if generates opts reservedDeclarationTargets \<and> toLowerKey name \<in> set reservedDeclarationNames then
        errAt path line ''declaration name %q is reserved in a generated target language'' [name]
      else if \<not> isUpper lib (firstRune name) then
        errAt path line ''declaration name %q must start with an uppercase letter so generated Go code exports it'' [name]
      else passed)"

definition validateMemberName :: "string \<Rightarrow> nat \<Rightarrow> string \<Rightarrow> compileOptions \<Rightarrow> checked" where
  "validateMemberName path line name opts =
     (if generatedIdentifier name = [] then
        errAt path line ''member name %q does not produce a valid generated identifier'' [name]
      else if generates opts [''python-client''] \<and> toLowerKey name \<in> set pythonMemberKeywords then
        errAt path line ''member name %q is reserved in Python'' [name]
      else passed)"

subsection \<open>Type references\<close>

definition isScalarNamed :: "typeRef option \<Rightarrow> string \<Rightarrow> bool" where
  "isScalarNamed t name = (case t of None \<Rightarrow> False | Some r \<Rightarrow> \<not> trIsMap r \<and> trName r = name)"

definition namedIn :: "typeRef option \<Rightarrow> string list \<Rightarrow> bool" where
  "namedIn t names = (case t of None \<Rightarrow> False | Some r \<Rightarrow> \<not> trIsMap r \<and> trName r \<in> set names)"

definition scalarTypeRefNames :: "string list" where
  "scalarTypeRefNames = [''string'', ''bool'', ''int32'', ''int64'', ''uint32'', ''uint64'', ''float32'', ''float64'',
     ''bytes'', ''timestamp'', ''json'']"

definition isScalarTypeRef :: "typeRef option \<Rightarrow> bool" where
  "isScalarTypeRef t = namedIn t scalarTypeRefNames"

definition isHTTPParameterTypeRef :: "typeRef option \<Rightarrow> bool" where
  "isHTTPParameterTypeRef t =
     namedIn t [''string'', ''bool'', ''int32'', ''int64'', ''uint32'', ''uint64'', ''float32'', ''float64'']"

fun isHTTPParameterScalar :: "scalarKind \<Rightarrow> bool" where
  "isHTTPParameterScalar k \<longleftrightarrow>
     k \<in> {ScalarString, ScalarBool, ScalarInt32, ScalarInt64, ScalarUint32, ScalarUint64, ScalarFloat32, ScalarFloat64}"

definition isNumericTypeRef :: "typeRef option \<Rightarrow> bool" where
  "isNumericTypeRef t = namedIn t [''int32'', ''int64'', ''uint32'', ''uint64'', ''float32'', ''float64'']"

definition isWSIDTypeRef :: "typeRef option \<Rightarrow> bool" where
  "isWSIDTypeRef t = namedIn t [''string'', ''int32'', ''int64'', ''uint32'', ''uint64'']"

definition isIntegerTypeRef :: "typeRef option \<Rightarrow> bool" where
  "isIntegerTypeRef t = list_ex (isScalarNamed t) [''int32'', ''int64'', ''uint32'', ''uint64'']"

definition is64BitInteger :: "string \<Rightarrow> bool" where
  "is64BitInteger name \<longleftrightarrow> name = ''int64'' \<or> name = ''uint64''"

definition encodedAs :: "fieldDecl \<Rightarrow> string \<Rightarrow> bool" where
  "encodedAs fd val =
     (case findDecoratorDecl (fdDecorators fd) ''encode'' of
        None \<Rightarrow> False | Some d \<Rightarrow> length (ddArgs d) = 1 \<and> argValue (ddArgs d ! 0) = val)"

definition int64EncodedAsString :: "fieldDecl \<Rightarrow> bool" where
  "int64EncodedAsString fd =
     (case fdType fd of
        None \<Rightarrow> False
      | Some t \<Rightarrow> \<not> (trIsMap t \<or> \<not> is64BitInteger (trName t)) \<and> encodedAs fd ''string'')"

definition repeatedInt64Number :: "fieldDecl \<Rightarrow> bool" where
  "repeatedInt64Number fd =
     (fdRepeated fd \<and>
      (case fdType fd of
         None \<Rightarrow> False
       | Some t \<Rightarrow> \<not> (trIsMap t \<or> \<not> is64BitInteger (trName t)) \<and> encodedAs fd ''number''))"

definition datedItems :: "fieldDecl \<Rightarrow> bool" where
  "datedItems fd =
     (case fdType fd of
        None \<Rightarrow> False
      | Some t \<Rightarrow>
          (if trIsMap t then isScalarNamed (trMapVal t) ''timestamp''
           else fdRepeated fd \<and> isScalarNamed (Some t) ''timestamp'') \<and> encodedAs fd ''date'')"

definition integerBounds :: "string \<Rightarrow> (int \<times> int) option" where
  "integerBounds = map_of
     [(''int32'', (- (2 ^ 31), 2 ^ 31 - 1)), (''int64'', (- (2 ^ 63), 2 ^ 63 - 1)),
      (''uint32'', (0, 2 ^ 32 - 1)), (''uint64'', (0, 2 ^ 64 - 1))]"

text \<open>The source dereferences the type; a field without one has been let through before.\<close>

definition acceptsIn :: "fieldDecl \<Rightarrow> typeRef \<Rightarrow> bool" where
  "acceptsIn fd t =
     (if trIsMap t \<or> fdRepeated fd then False
      else integerBounds (trName t) \<noteq> None \<or> isScalarNamed (Some t) ''string'')"

subsection \<open>Decorators\<close>

text \<open>The least and the largest number of arguments, -1 for no limit.\<close>

type_synonym decoratorRules = "(string \<times> nat \<times> int) list"

definition messageDecorators :: decoratorRules where
  "messageDecorators = [(''status'', 1, 1), (''rule'', 2, 2), (''principal'', 0, 0)]"

definition allowedEncodeValues :: "string list" where
  "allowedEncodeValues = [''number'', ''hex'', ''base64'', ''base64_raw'', ''base64url'', ''base64url_raw'',
     ''unix_seconds'', ''unix_millis'', ''date'', ''string'']"

definition fieldDecorators :: decoratorRules where
  "fieldDecorators =
     [(''email'', 0, 0), (''uuid'', 0, 0), (''uri'', 0, 0), (''required'', 0, 0), (''nullable'', 0, 0),
      (''unwrap'', 0, 0), (''object'', 0, 0), (''len'', 2, 2), (''range'', 2, 2), (''in'', 1, -1),
      (''pattern'', 1, 1), (''gt'', 1, 1), (''gte'', 1, 1), (''lt'', 1, 1), (''lte'', 1, 1),
      (''min_items'', 1, 1), (''max_items'', 1, 1), (''flatten'', 0, 1), (''encode'', 1, 1), (''empty'', 1, 1),
      (''query'', 0, 1), (''ws_id'', 0, 0), (''raw'', 0, 0), (''ws_timeout'', 0, 0), (''deprecated'', 0, 1),
      (''rule'', 2, 2)]"

definition headerDecorators :: decoratorRules where
  "headerDecorators = [(''required'', 0, 0), (''format'', 1, 1), (''example'', 1, 1), (''deprecated'', 0, 1),
     (''auth'', 1, 1), (''auth_scheme_name'', 1, 1)]"

definition enumValueDecorators :: decoratorRules where
  "enumValueDecorators = [(''json'', 1, 1)]"

definition variantDecorators :: decoratorRules where
  "variantDecorators = [(''tag'', 1, 1), (''json'', 1, 1), (''ws_cancel'', 0, 0)]"

definition argCount :: "nat \<Rightarrow> int \<Rightarrow> string" where
  "argCount mn mx =
     (if int mn = mx then showNat mn @ '' argument(s)''
      else if mx < 0 then ''at least '' @ showNat mn @ '' argument(s)''
      else showNat mn @ '' to '' @ showInt mx @ '' argument(s)'')"

definition checkArg :: "string \<Rightarrow> nat \<Rightarrow> nat \<Rightarrow> string \<Rightarrow> arg \<Rightarrow> checked" where
  "checkArg path line col name a =
     (if argName a \<noteq> [] \<and> (name \<noteq> ''flatten'' \<or> argName a \<noteq> ''prefix'') then
        errCol path line col ''@%s does not accept named argument %q'' [name, argName a]
      else if argValue a = [] \<and> name \<noteq> ''flatten'' \<and> name \<noteq> ''in'' then
        errCol path line col ''@%s arguments must not be empty'' [name]
      else passed)"

definition checkDecoratorValue :: "string \<Rightarrow> nat \<Rightarrow> nat \<Rightarrow> decoratorDecl \<Rightarrow> checked" where
  "checkDecoratorValue path line col d =
     (if ddName d = ''status'' then
        bindE (argValueAt (ddArgs d) 0) (\<lambda>v.
          case parseInt v of
            None \<Rightarrow> errCol path line col ''@status must be an HTTP error status from 400 to 599'' []
          | Some n \<Rightarrow> if n < 400 \<or> n > 599 then
                errCol path line col ''@status must be an HTTP error status from 400 to 599'' [] else passed)
      else if ddName d = ''auth'' then
        bindE (argValueAt (ddArgs d) 0) (\<lambda>v.
          if v \<noteq> ''api_key'' \<and> v \<noteq> ''bearer'' \<and> v \<noteq> ''basic'' then
            errCol path line col ''@auth must be api_key, bearer, or basic'' [] else passed)
      else if ddName d = ''flatten'' then
        (if length (ddArgs d) = 1 \<and> argName (ddArgs d ! 0) \<noteq> ''prefix'' then
           errCol path line col ''@flatten argument must be named prefix'' []
         else if list_ex (\<lambda>a. argName a = ''prefix'' \<and> \<not> isGeneratedKey (argValue a)) (ddArgs d) then
           errCol path line col ''@flatten prefix must contain only letters, digits, and underscores and must not start with a digit'' []
         else passed)
      else passed)"

definition checkDecorator :: "string \<Rightarrow> nat \<Rightarrow> decoratorRules \<Rightarrow> decoratorDecl \<Rightarrow> string list \<Rightarrow> cfailure + string list" where
  "checkDecorator path line0 rules d seen =
     (let name = ddName d;
          line = (if ddLine d > 0 then ddLine d else line0);
          col = (if ddLine d > 0 then ddCol d else 0);
          n = length (ddArgs d) in
      case map_of rules name of
        None \<Rightarrow> errCol path line col ''unknown decorator @%s'' [name]
      | Some (mn, mx) \<Rightarrow>
          if name \<in> set seen \<and> name \<noteq> ''rule'' then errCol path line col ''duplicate decorator @%s'' [name]
          else if n < mn \<or> 0 \<le> mx \<and> mx < int n then
            errCol path line col ''@%s expects %s'' [name, argCount mn mx]
          else bindE (checkAll (checkArg path line col name) (ddArgs d)) (\<lambda>_.
               bindE (checkDecoratorValue path line col d) (\<lambda>_. Inr (name # seen))))"

definition validateDecorators :: "string \<Rightarrow> nat \<Rightarrow> decoratorDecl list \<Rightarrow> decoratorRules \<Rightarrow> checked" where
  "validateDecorators path line ds rules =
     bindE (foldE (checkDecorator path line rules) ds []) (\<lambda>_. passed)"

subsection \<open>Numeric bounds\<close>

definition fitsInteger :: "string \<Rightarrow> int \<Rightarrow> int \<Rightarrow> bool" where
  "fitsInteger v lo hi = (case parseBigInt v of None \<Rightarrow> False | Some n \<Rightarrow> lo \<le> n \<and> n \<le> hi)"

definition countDecorators :: "string list" where
  "countDecorators = [''len'', ''min_items'', ''max_items'']"

definition comparisonDecorators :: "string list" where
  "comparisonDecorators = [''gt'', ''gte'', ''lt'', ''lte'', ''range'']"

definition validateArgumentKinds :: "string \<Rightarrow> nat \<Rightarrow> decoratorDecl \<Rightarrow> typeRef \<Rightarrow> checked" where
  "validateArgumentKinds path line d t =
     (let name = ddName d;
          counted = (name \<in> set countDecorators \<or> name \<in> set comparisonDecorators);
          wantQuoted = (\<not> counted \<and> name = ''in'' \<and> trName t = ''string'');
          wantNumber = (counted \<or> name = ''in'' \<and> trName t \<noteq> ''string'' \<and> integerBounds (trName t) \<noteq> None) in
      checkAll (\<lambda>a.
        if wantNumber \<and> argQuoted a \<and> decimalLiteral (argValue a) then
          errAt path line ''@%s argument %q must be a number, not a string'' [name, argValue a]
        else if wantQuoted \<and> \<not> argQuoted a then
          errAt path line ''@%s value %s must be a quoted string'' [name, argValue a]
        else passed) (ddArgs d))"

definition validateNumericBounds :: "string \<Rightarrow> nat \<Rightarrow> decoratorDecl \<Rightarrow> typeRef \<Rightarrow> checked" where
  "validateNumericBounds path line d t =
     andThen (validateArgumentKinds path line d t)
       (let name = ddName d in
        if name \<in> set countDecorators then
          checkAll (\<lambda>a. if fitsInteger (argValue a) 0 (2 ^ 31 - 1) then passed
            else errAt path line ''@%s argument %q must be a non-negative integer'' [name, argValue a]) (ddArgs d)
        else if name = ''in'' then
          (case integerBounds (trName t) of
             None \<Rightarrow> passed
           | Some (lo, hi) \<Rightarrow>
               checkAll (\<lambda>a. if fitsInteger (argValue a) lo hi then passed
                 else errAt path line ''@in value %q must be an integer within the range of %s'' [argValue a, trName t])
                 (ddArgs d))
        else if name \<in> set comparisonDecorators then
          checkAll (\<lambda>a.
            if \<not> decimalLiteral (argValue a) then
              errAt path line ''@%s argument %q must be a finite decimal number'' [name, argValue a]
            else case integerBounds (trName t) of
              None \<Rightarrow> passed
            | Some (lo, hi) \<Rightarrow>
                if fitsInteger (argValue a) lo hi then passed
                else errAt path line ''@%s argument %q must be an integer within the range of %s''
                  [name, argValue a, trName t]) (ddArgs d)
        else passed)"

text \<open>Whether a repetition stands under another one.\<close>

fun hasNestedRegexpRepeat :: "reTree \<Rightarrow> bool \<Rightarrow> bool" where
  "hasNestedRegexpRepeat (ReTree op subs) insideRepeat =
     (if op \<noteq> OpOther \<and> insideRepeat then True
      else list_ex (\<lambda>t. hasNestedRegexpRepeat t (insideRepeat \<or> op \<noteq> OpOther)) subs)"

definition numericArg :: "string \<Rightarrow> nat \<Rightarrow> decoratorDecl \<Rightarrow> nat \<Rightarrow> cfailure + f64" where
  "numericArg path line d i =
     bindE (argValueAt (ddArgs d) i) (\<lambda>v.
       case parseFloat v of
         None \<Rightarrow> errAt path line ''@%s argument %q must be numeric'' [ddName d, v]
       | Some x \<Rightarrow> Inr x)"

definition validatePattern :: "goLib \<Rightarrow> string \<Rightarrow> nat \<Rightarrow> decoratorDecl \<Rightarrow> checked" where
  "validatePattern lib path line d =
     (if ddArgs d \<noteq> [] \<and> \<not> argQuoted (ddArgs d ! 0) then
        errAt path line ''@pattern argument %s must be a quoted string'' [argValue (ddArgs d ! 0)]
      else bindE (argValueAt (ddArgs d) 0) (\<lambda>pattern.
        if length pattern > 4096 then errAt path line ''@pattern must not exceed %d bytes'' [showNat 4096]
        else case libPattern lib pattern of
          Inl err \<Rightarrow> errAt path line ''invalid @pattern regular expression: %v'' [err]
        | Inr tree \<Rightarrow>
            if hasNestedRegexpRepeat tree False then
              errAt path line ''@pattern contains nested repetition that is unsafe in backtracking runtimes'' []
            else passed))"

definition validateDecoratorValue :: "goLib \<Rightarrow> string \<Rightarrow> nat \<Rightarrow> decoratorDecl \<Rightarrow> checked" where
  "validateDecoratorValue lib path line d =
     (let name = ddName d in
      if name \<in> {''len'', ''range''} then
        bindE (numericArg path line d 0) (\<lambda>minimum.
        bindE (numericArg path line d 1) (\<lambda>maximum.
          if fless maximum minimum then errAt path line ''@%s minimum must not exceed maximum'' [name]
          else passed))
      else if name \<in> {''gt'', ''gte'', ''lt'', ''lte'', ''min_items'', ''max_items''} then
        bindE (numericArg path line d 0) (\<lambda>_. passed)
      else if name = ''pattern'' then validatePattern lib path line d
      else if name = ''empty'' then
        bindE (argValueAt (ddArgs d) 0) (\<lambda>v.
          if v \<noteq> ''null'' \<and> v \<noteq> ''omit'' \<and> v \<noteq> ''preserve'' then
            errAt path line ''@empty must be null, omit, or preserve'' [] else passed)
      else if name = ''encode'' then
        bindE (argValueAt (ddArgs d) 0) (\<lambda>v.
          if v \<in> set allowedEncodeValues then passed
          else errAt path line ''unsupported @encode value %q'' [v])
      else passed)"

subsection \<open>Fields\<close>

definition validateWSFieldDecorator :: "string \<Rightarrow> fieldDecl \<Rightarrow> string \<Rightarrow> checked" where
  "validateWSFieldDecorator path fd name =
     (if name = ''ws_timeout'' \<and> (fdRepeated fd \<or> fdOptional fd \<or> \<not> isIntegerTypeRef (fdType fd)) then
        errAt path (fdLine fd) ''@ws_timeout requires a non-repeated, non-optional integer field'' []
      else if name = ''raw'' \<and> (fdRepeated fd \<or> fdOptional fd \<or>
          \<not> (isScalarNamed (fdType fd) ''string'' \<or> isScalarNamed (fdType fd) ''bytes'')) then
        errAt path (fdLine fd) ''@raw requires a non-repeated, non-optional string or bytes field'' []
      else passed)"

definition validateFieldDecoratorType :: "string \<Rightarrow> fieldDecl \<Rightarrow> typeRef \<Rightarrow> string \<Rightarrow> checked" where
  "validateFieldDecoratorType path fd t name =
     (let fail = (\<lambda>cond fmt args. if cond then errAt path (fdLine fd) fmt args else passed) in
      if name = ''in'' then fail (\<not> acceptsIn fd t) ''@in requires a non-repeated string or integer field'' []
      else if name \<in> {''email'', ''uuid'', ''uri'', ''pattern'', ''len''} then
        fail (\<not> isScalarNamed (Some t) ''string'' \<or> fdRepeated fd) ''@%s requires a non-repeated string field'' [name]
      else if name \<in> {''gt'', ''gte'', ''lt'', ''lte'', ''range''} then
        fail (\<not> isNumericTypeRef (Some t) \<or> fdRepeated fd) ''@%s requires a non-repeated numeric field'' [name]
      else if name = ''object'' then
        fail (\<not> isScalarNamed (Some t) ''json'' \<or> fdRepeated fd) ''@object requires a non-repeated json field'' []
      else if name \<in> {''min_items'', ''max_items''} then
        fail (\<not> fdRepeated fd) ''@%s requires a repeated field'' [name]
      else if name \<in> {''ws_timeout'', ''raw''} then validateWSFieldDecorator path fd name
      else if name = ''ws_id'' then
        fail (\<not> isWSIDTypeRef (Some t) \<or> fdRepeated fd) ''@ws_id requires a non-repeated string or integer field'' []
      else if name \<in> {''flatten'', ''empty''} then
        andThen (fail (fdRepeated fd \<or> trIsMap t \<or> isScalarTypeRef (Some t)) ''@%s requires a non-repeated message field'' [name])
          (fail (hasDecoratorDecl (fdDecorators fd) ''flatten'' \<and> hasDecoratorDecl (fdDecorators fd) ''empty'')
             ''@flatten cannot be combined with @empty; choose one JSON mapping for the field'' [])
      else if name = ''unwrap'' then fail (fdOptional fd) ''@unwrap cannot be optional'' []
      else if name = ''encode'' then
        (if repeatedInt64Number fd \<or> int64EncodedAsString fd \<or> datedItems fd then passed
         else fail (fdRepeated fd \<or> trIsMap t) ''@encode does not support repeated or map fields'' [])
      else passed)"

definition validateFieldDecoratorSemantics :: "goLib \<Rightarrow> string \<Rightarrow> fieldDecl \<Rightarrow> compileOptions \<Rightarrow> checked" where
  "validateFieldDecoratorSemantics lib path fd opts =
     (case fdType fd of
        None \<Rightarrow> passed
      | Some t \<Rightarrow>
          if fdOptional fd \<and> trIsMap t then
            errAt path (fdLine fd) ''map field %q cannot be optional; an empty map already means no entries'' [fdName fd]
          else if hasDecoratorDecl (fdDecorators fd) ''query'' \<and> \<not> isHTTPParameterTypeRef (Some t) then
            errAt path (fdLine fd) ''@query supports string, bool, integer, and float scalar fields'' []
          else
            andThen (checkAll (\<lambda>d.
                andThen (validateFieldDecoratorType path fd t (ddName d))
                  (andThen (validateDecoratorValue lib path (fdLine fd) d)
                    (validateNumericBounds path (fdLine fd) d t))) (fdDecorators fd))
              (if \<not> allowLegacy opts \<and> hasDecoratorDecl (fdDecorators fd) ''required'' \<and> \<not> fdOptional fd \<and>
                  isScalarTypeRef (Some t) \<and> \<not> isScalarNamed (Some t) ''string'' then
                 errAt path (fdLine fd) ''@required on non-string scalars needs the ? marker so generators can track presence'' []
               else passed))"

definition checkOneofArg :: "string \<Rightarrow> nat \<Rightarrow> arg \<Rightarrow> string list \<Rightarrow> cfailure + string list" where
  "checkOneofArg path line a seen =
     (let name = argName a; v = argValue a in
      if name \<noteq> ''discriminator'' \<and> name \<noteq> ''flatten'' then errAt path line ''unknown oneof argument %q'' [name]
      else if name \<in> set seen then errAt path line ''duplicate oneof argument %q'' [name]
      else if name = ''discriminator'' \<and> v = [] then errAt path line ''oneof discriminator must not be empty'' []
      else if name = ''discriminator'' \<and> \<not> isGeneratedKey v then
        errAt path line ''oneof discriminator must contain only letters, digits, and underscores and must not start with a digit'' []
      else if name = ''flatten'' \<and> v \<noteq> ''true'' \<and> v \<noteq> ''false'' then
        errAt path line ''oneof flatten must be true or false'' []
      else Inr (name # seen))"

definition validateOneofArgs :: "string \<Rightarrow> nat \<Rightarrow> arg list \<Rightarrow> checked" where
  "validateOneofArgs path line args = bindE (foldE (checkOneofArg path line) args []) (\<lambda>_. passed)"

definition oneofDiscriminator :: "arg list \<Rightarrow> string" where
  "oneofDiscriminator args =
     (case find (\<lambda>a. argName a = ''discriminator'') args of None \<Rightarrow> ''type'' | Some a \<Rightarrow> argValue a)"

definition validateNamedMember :: "string \<Rightarrow> nat \<Rightarrow> string \<Rightarrow> decoratorDecl list \<Rightarrow> decoratorRules \<Rightarrow> string \<Rightarrow>
    compileOptions \<Rightarrow> (string \<rightharpoonup> string) \<Rightarrow> cfailure + (string \<rightharpoonup> string)" where
  "validateNamedMember path line name ds rules kind opts seen =
     bindE (validateMemberName path line name opts) (\<lambda>_.
     bindE (validateDecorators path line ds rules) (\<lambda>_.
       case seen (generatedIdentifier name) of
         Some previous \<Rightarrow> errAt path line ''%s %q collides with %q after target-language name conversion'' [kind, name, previous]
       | None \<Rightarrow> Inr (seen(generatedIdentifier name \<mapsto> name))))"

text \<open>The value of a decorator with one argument that has been checked before, or a name.\<close>

definition valueOr :: "decoratorDecl list \<Rightarrow> string \<Rightarrow> string \<Rightarrow> cfailure + string" where
  "valueOr ds name dflt =
     (case findDecoratorDecl ds name of None \<Rightarrow> Inr dflt | Some d \<Rightarrow> argValueAt (ddArgs d) 0)"

type_synonym variantSeen = "(string \<rightharpoonup> string) \<times> (string \<rightharpoonup> string)"

definition checkVariant :: "string \<Rightarrow> string \<Rightarrow> compileOptions \<Rightarrow> variantDecl \<Rightarrow> variantSeen \<Rightarrow> cfailure + variantSeen" where
  "checkVariant path discr opts v seen =
     bindE (validateNamedMember path (vdLine v) (vdName v) (vdDecorators v) variantDecorators ''oneof variant'' opts (fst seen))
       (\<lambda>names. bindE (valueOr (vdDecorators v) ''tag'' (vdName v)) (\<lambda>tag.
          case snd seen tag of
            Some previous \<Rightarrow> errAt path (vdLine v) ''duplicate oneof tag %q on %q and %q'' [tag, previous, vdName v]
          | None \<Rightarrow>
              if vdName v = discr then
                errAt path (vdLine v) ''oneof variant %q has the same JSON key as the discriminator; rename the variant or set oneof(discriminator: ...)'' [vdName v]
              else Inr (names, (snd seen)(tag \<mapsto> vdName v))))"

definition validateFieldDecl :: "goLib \<Rightarrow> string \<Rightarrow> fieldDecl \<Rightarrow> compileOptions \<Rightarrow> checked" where
  "validateFieldDecl lib path fd opts =
     andThen (validateDecorators path (fdLine fd) (fdDecorators fd) fieldDecorators)
       (case fdOneof fd of
          None \<Rightarrow> validateFieldDecoratorSemantics lib path fd opts
        | Some od \<Rightarrow>
            andThen (validateOneofArgs path (fdLine fd) (odArgs od))
              (case find (\<lambda>d. ddName d \<noteq> ''required'') (fdDecorators fd) of
                 Some d \<Rightarrow> errAt path (fdLine fd) ''@%s is not supported on oneof field %q; only @required is'' [ddName d, fdName fd]
               | None \<Rightarrow>
                   if odVariants od = [] then
                     errAt path (fdLine fd) ''oneof %q must declare at least one variant'' [fdName fd]
                   else bindE (foldE (checkVariant path (oneofDiscriminator (odArgs od)) opts) (odVariants od)
                          (\<lambda>_. None, \<lambda>_. None)) (\<lambda>_. passed)))"

subsection \<open>Enums and messages\<close>

definition checkEnumValue :: "string \<Rightarrow> compileOptions \<Rightarrow> enumValueDecl \<Rightarrow> variantSeen \<Rightarrow> cfailure + variantSeen" where
  "checkEnumValue path opts v seen =
     bindE (if allowLegacy opts then passed else validateMemberName path (evdLine v) (evdName v) opts) (\<lambda>_.
     bindE (validateDecorators path (evdLine v) (evdDecorators v) enumValueDecorators) (\<lambda>_.
       case fst seen (generatedIdentifier (evdName v)) of
         Some previous \<Rightarrow>
           errAt path (evdLine v) ''enum value %q collides with %q after target-language name conversion'' [evdName v, previous]
       | None \<Rightarrow>
           bindE (valueOr (evdDecorators v) ''json'' (evdName v)) (\<lambda>json.
             case snd seen json of
               Some previous \<Rightarrow> errAt path (evdLine v) ''duplicate enum JSON value %q on %q and %q'' [json, previous, evdName v]
             | None \<Rightarrow> Inr ((fst seen)(generatedIdentifier (evdName v) \<mapsto> evdName v), (snd seen)(json \<mapsto> evdName v)))))"

definition validateEnumDecl :: "goLib \<Rightarrow> string \<Rightarrow> compileOptions \<Rightarrow> enumDecl \<Rightarrow> checked" where
  "validateEnumDecl lib path opts ed =
     andThen (validateDeclarationName lib path (edLine ed) (edName ed) opts)
       (if edValues ed = [] then errAt path (edLine ed) ''enum %q must declare at least one value'' [edName ed]
        else bindE (foldE (checkEnumValue path opts) (edValues ed) (\<lambda>_. None, \<lambda>_. None)) (\<lambda>_. passed))"

definition checkFieldVariant :: "string \<Rightarrow> variantDecl \<Rightarrow> (string \<rightharpoonup> string) \<Rightarrow> cfailure + (string \<rightharpoonup> string)" where
  "checkFieldVariant path v seen =
     (case seen (generatedIdentifier (vdName v)) of
        Some previous \<Rightarrow>
          errAt path (vdLine v) ''oneof variant %q collides with %q after target-language name conversion'' [vdName v, previous]
      | None \<Rightarrow> Inr (seen(generatedIdentifier (vdName v) \<mapsto> vdName v)))"

definition checkField :: "goLib \<Rightarrow> string \<Rightarrow> compileOptions \<Rightarrow> fieldDecl \<Rightarrow> (string \<rightharpoonup> string) \<Rightarrow> cfailure + (string \<rightharpoonup> string)" where
  "checkField lib path opts fd seen =
     bindE (if allowLegacy opts then passed else validateMemberName path (fdLine fd) (fdName fd) opts) (\<lambda>_.
       case seen (generatedIdentifier (fdName fd)) of
         Some previous \<Rightarrow>
           errAt path (fdLine fd) ''field name %q collides with %q after target-language name conversion'' [fdName fd, previous]
       | None \<Rightarrow>
           bindE (validateFieldDecl lib path fd opts) (\<lambda>_.
             let seen' = seen(generatedIdentifier (fdName fd) \<mapsto> fdName fd) in
             case fdOneof fd of
               Some od \<Rightarrow> if generates opts [''go-server'', ''go-client''] then foldE (checkFieldVariant path) (odVariants od) seen'
                          else Inr seen'
             | None \<Rightarrow> Inr seen'))"

fun validateMessageDecl :: "goLib \<Rightarrow> string \<Rightarrow> compileOptions \<Rightarrow> messageDecl \<Rightarrow> checked" where
  "validateMessageDecl lib path opts (MessageDecl name doc decs fds nested nestedEn line col) =
     andThen (validateDeclarationName lib path line name opts)
    (andThen (validateDecorators path line decs messageDecorators)
    (andThen (bindE (foldE (checkField lib path opts) fds (\<lambda>_. None)) (\<lambda>_. passed))
    (let unwrapCount = length (filter (\<lambda>fd. hasDecoratorDecl (fdDecorators fd) ''unwrap'') fds) in
     andThen (if unwrapCount > 0 \<and> (unwrapCount \<noteq> 1 \<or> length fds \<noteq> 1) then
                errAt path line ''@unwrap requires a message with exactly one field'' []
              else passed)
    (andThen (checkAll (validateMessageDecl lib path opts) nested)
       (checkAll (validateEnumDecl lib path opts) nestedEn)))))"

end
