(* ===== verification/DeclProps.thy ===== *)
theory DeclProps
  imports DeclChecks
begin

text \<open>
  What the checks of declarations guarantee: they never panic, and an accepted message or enum
  satisfies \<open>messageOk\<close> or \<open>enumOk\<close>, the rules of the language written out without the order in
  which the checks are made.
\<close>

subsection \<open>Decorators\<close>

definition decsOk :: "decoratorRules \<Rightarrow> decoratorDecl list \<Rightarrow> bool" where
  "decsOk rules ds \<longleftrightarrow>
     (\<forall>d \<in> set ds. \<exists>mn mx. map_of rules (ddName d) = Some (mn, mx) \<and> mn \<le> length (ddArgs d) \<and>
        (0 \<le> mx \<longrightarrow> int (length (ddArgs d)) \<le> mx)) \<and>
     distinct (filter (\<lambda>n. n \<noteq> ''rule'') (map ddName ds))"

text \<open>The names whose argument the check of a decorator reads.\<close>

definition readsArg :: "decoratorRules \<Rightarrow> bool" where
  "readsArg rules \<longleftrightarrow> (\<forall>n \<in> {''status'', ''auth''}. \<forall>mn mx. map_of rules n = Some (mn, mx) \<longrightarrow> 1 \<le> mn)"

lemma readsArg_rules [simp]: "readsArg messageDecorators" "readsArg fieldDecorators" "readsArg headerDecorators"
    "readsArg enumValueDecorators" "readsArg variantDecorators"
  by (simp_all add: readsArg_def messageDecorators_def fieldDecorators_def headerDecorators_def
      enumValueDecorators_def variantDecorators_def)

lemma safe_checkDecoratorValue:
  "(ddName d = ''status'' \<or> ddName d = ''auth'' \<Longrightarrow> ddArgs d \<noteq> []) \<Longrightarrow> safeRun (checkDecoratorValue path line col d)"
  unfolding checkDecoratorValue_def by (auto intro!: safe_intros split: option.split)

lemma safe_checkDecorator:
  "readsArg rules \<Longrightarrow> safeRun (checkDecorator path line rules d seen)"
  unfolding checkDecorator_def Let_def
  by (auto intro!: safe_intros safe_checkDecoratorValue split: option.split simp: checkArg_def readsArg_def)

lemma safe_validateDecorators: "readsArg rules \<Longrightarrow> safeRun (validateDecorators path line ds rules)"
  unfolding validateDecorators_def by (intro safe_intros safe_checkDecorator) auto

lemma checkDecorator_ok:
  "checkDecorator path line rules d seen = Inr s \<Longrightarrow>
     s = ddName d # seen \<and> (ddName d = ''rule'' \<or> ddName d \<notin> set seen) \<and>
     (\<exists>mn mx. map_of rules (ddName d) = Some (mn, mx) \<and> mn \<le> length (ddArgs d) \<and> (0 \<le> mx \<longrightarrow> int (length (ddArgs d)) \<le> mx))"
  by (auto simp: checkDecorator_def Let_def bindE_eq_Inr split: option.splits if_splits)

lemma checkDecorators_ok:
  "foldE (checkDecorator path line rules) ds seen = Inr s \<Longrightarrow>
     decsOk rules ds \<and> (\<forall>d \<in> set ds. ddName d = ''rule'' \<or> ddName d \<notin> set seen)"
proof (induction ds arbitrary: seen)
  case (Cons d ds)
  then obtain s1 where 1: "checkDecorator path line rules d seen = Inr s1" "foldE (checkDecorator path line rules) ds s1 = Inr s"
    by (auto simp: bindE_eq_Inr)
  from checkDecorator_ok [OF 1(1)] Cons.IH [OF 1(2)] show ?case by (auto simp: decsOk_def)
qed (simp add: decsOk_def)

lemma validateDecorators_ok: "validateDecorators path line ds rules = passed \<Longrightarrow> decsOk rules ds"
  using checkDecorators_ok by (auto simp: validateDecorators_def bindE_eq_Inr)

lemma decsOk_find:
  "decsOk rules ds \<Longrightarrow> findDecoratorDecl ds name = Some d \<Longrightarrow>
   \<exists>mn mx. map_of rules name = Some (mn, mx) \<and> mn \<le> length (ddArgs d)"
  unfolding decsOk_def findDecoratorDecl_def by (force simp: find_Some_iff)

lemma decsOk_args:
  "decsOk rules ds \<Longrightarrow> d \<in> set ds \<Longrightarrow> map_of rules (ddName d) = Some (mn, mx) \<Longrightarrow> mn \<le> length (ddArgs d)"
  unfolding decsOk_def by force

lemma safe_valueOr:
  "decsOk rules ds \<Longrightarrow> map_of rules name = Some (1, mx) \<Longrightarrow> safeRun (valueOr ds name dflt)"
proof -
  assume "decsOk rules ds" "map_of rules name = Some (1, mx)"
  then have "0 < length (ddArgs d)" if "findDecoratorDecl ds name = Some d" for d
    using decsOk_find [OF _ that] by fastforce
  then show ?thesis by (auto simp: valueOr_def intro!: safe_argValueAt split: option.split)
qed

subsection \<open>Fields\<close>

lemma safe_validateDeclarationName [safe_intros]: "safeRun (validateDeclarationName lib path line name opts)"
  by (simp add: validateDeclarationName_def)

lemma safe_validateMemberName [safe_intros]: "safeRun (validateMemberName path line name opts)"
  by (simp add: validateMemberName_def)

lemma safe_validateNumericBounds: "safeRun (validateNumericBounds path line d t)"
  unfolding validateNumericBounds_def validateArgumentKinds_def Let_def
  by (auto intro!: safe_intros split: option.split)

lemma safe_numericArg: "i < length (ddArgs d) \<Longrightarrow> safeRun (numericArg path line d i)"
  by (simp add: numericArg_def split: option.split)

lemma safe_validatePattern: "ddArgs d \<noteq> [] \<Longrightarrow> safeRun (validatePattern lib path line d)"
  by (auto simp: validatePattern_def split: sum.split)

lemma safe_validateDecoratorValue:
  assumes "decsOk fieldDecorators ds" "d \<in> set ds"
  shows "safeRun (validateDecoratorValue lib path line d)"
  using decsOk_args [OF assms]
  unfolding validateDecoratorValue_def Let_def
  by (auto intro!: safe_intros safe_numericArg safe_validatePattern simp: fieldDecorators_def)

lemma safe_validateFieldDecoratorType: "safeRun (validateFieldDecoratorType path fd t name)"
  unfolding validateFieldDecoratorType_def Let_def validateWSFieldDecorator_def
  by (intro safe_intros)

lemma safe_semantics:
  "decsOk fieldDecorators (fdDecorators fd) \<Longrightarrow> safeRun (validateFieldDecoratorSemantics lib path fd opts)"
  unfolding validateFieldDecoratorSemantics_def
  by (auto intro!: safe_intros safe_validateDecoratorValue safe_validateNumericBounds
      safe_validateFieldDecoratorType split: option.split)

lemma safe_validateOneofArgs: "safeRun (validateOneofArgs path line args)"
  unfolding validateOneofArgs_def checkOneofArg_def Let_def by (intro safe_intros)

lemma validateNamedMember_ok:
  "validateNamedMember path line name ds rules kind opts seen = Inr t \<Longrightarrow>
     decsOk rules ds \<and> seen (generatedIdentifier name) = None \<and> t = seen(generatedIdentifier name \<mapsto> name)"
  by (auto simp: validateNamedMember_def bindE_eq_Inr dest: validateDecorators_ok split: option.splits)

lemma safe_validateNamedMember:
  "readsArg rules \<Longrightarrow> safeRun (validateNamedMember path line name ds rules kind opts seen)"
  unfolding validateNamedMember_def
  by (auto intro!: safe_intros safe_validateDecorators split: option.split)

lemma safe_checkVariant: "safeRun (checkVariant path discr opts v seen)"
  unfolding checkVariant_def
proof (intro safe_intros safe_validateNamedMember)
  fix names
  assume "validateNamedMember path (vdLine v) (vdName v) (vdDecorators v) variantDecorators ''oneof variant'' opts (fst seen) = Inr names"
  from validateNamedMember_ok [OF this] show "safeRun (valueOr (vdDecorators v) ''tag'' (vdName v))"
    by (intro safe_valueOr [of variantDecorators _ _ 1]) (auto simp: variantDecorators_def)
qed (auto split: option.split)

lemma safe_validateFieldDecl: "safeRun (validateFieldDecl lib path fd opts)"
  unfolding validateFieldDecl_def
  by (auto intro!: safe_intros safe_validateDecorators safe_semantics safe_validateOneofArgs safe_checkVariant
      dest: validateDecorators_ok split: option.split)

lemma safe_checkField: "safeRun (checkField lib path opts fd seen)"
  unfolding checkField_def Let_def checkFieldVariant_def
  by (auto intro!: safe_intros safe_validateFieldDecl split: option.split)

lemma safe_json:
  "validateDecorators path line ds enumValueDecorators = passed \<Longrightarrow> safeRun (valueOr ds ''json'' dflt)"
  by (intro safe_valueOr [of enumValueDecorators _ _ 1]) (auto simp: enumValueDecorators_def dest: validateDecorators_ok)

lemma safe_checkEnumValue: "safeRun (checkEnumValue path opts v seen)"
  unfolding checkEnumValue_def
  by (auto intro!: safe_intros safe_validateDecorators intro: safe_json split: option.split)

lemma safe_validateEnumDecl: "safeRun (validateEnumDecl lib path opts ed)"
  unfolding validateEnumDecl_def by (intro safe_intros safe_checkEnumValue)

lemma safe_validateMessageDecl: "safeRun (validateMessageDecl lib path opts md)"
proof (induction md)
  case (MessageDecl name doc decs fds nested en line col)
  then show ?case
    by (auto simp: Let_def intro!: safe_intros safe_validateDecorators safe_checkField safe_validateEnumDecl)
qed

subsection \<open>What acceptance means\<close>

text \<open>The tag of a variant and the JSON name of an enum value.\<close>

definition nameOr :: "decoratorDecl list \<Rightarrow> string \<Rightarrow> string \<Rightarrow> string" where
  "nameOr ds dec dflt = (case findDecoratorDecl ds dec of None \<Rightarrow> dflt | Some d \<Rightarrow> argValue (ddArgs d ! 0))"

lemma valueOr_ok: "valueOr ds dec dflt = Inr v \<Longrightarrow> v = nameOr ds dec dflt"
  by (auto simp: valueOr_def nameOr_def argValueAt_def split: option.splits if_splits)

definition oneofOk :: "oneofDecl \<Rightarrow> bool" where
  "oneofOk od \<longleftrightarrow> odVariants od \<noteq> [] \<and>
     distinct (map (\<lambda>v. generatedIdentifier (vdName v)) (odVariants od)) \<and>
     distinct (map (\<lambda>v. nameOr (vdDecorators v) ''tag'' (vdName v)) (odVariants od)) \<and>
     (\<forall>v \<in> set (odVariants od). decsOk variantDecorators (vdDecorators v) \<and> vdName v \<noteq> oneofDiscriminator (odArgs od))"

definition fieldOk :: "fieldDecl \<Rightarrow> bool" where
  "fieldOk fd \<longleftrightarrow> decsOk fieldDecorators (fdDecorators fd) \<and>
     (case fdOneof fd of
        None \<Rightarrow> True
      | Some od \<Rightarrow> oneofOk od \<and> (\<forall>d \<in> set (fdDecorators fd). ddName d = ''required''))"

definition enumOk :: "enumDecl \<Rightarrow> bool" where
  "enumOk ed \<longleftrightarrow> edValues ed \<noteq> [] \<and>
     distinct (map (\<lambda>v. generatedIdentifier (evdName v)) (edValues ed)) \<and>
     distinct (map (\<lambda>v. nameOr (evdDecorators v) ''json'' (evdName v)) (edValues ed))"

text \<open>The names a field gives its struct: its own, and those of its variants for the Go targets.\<close>

definition memberIds :: "compileOptions \<Rightarrow> fieldDecl \<Rightarrow> string list" where
  "memberIds opts fd = generatedIdentifier (fdName fd) #
     (case fdOneof fd of
        None \<Rightarrow> []
      | Some od \<Rightarrow> if generates opts [''go-server'', ''go-client'']
          then map (\<lambda>v. generatedIdentifier (vdName v)) (odVariants od) else [])"

fun messageOk :: "compileOptions \<Rightarrow> messageDecl \<Rightarrow> bool" where
  "messageOk opts (MessageDecl name doc decs fds nested en line col) \<longleftrightarrow>
     generatedIdentifier name \<noteq> [] \<and> decsOk messageDecorators decs \<and>
     distinct (concat (map (memberIds opts) fds)) \<and> (\<forall>fd \<in> set fds. fieldOk fd \<and> (allowLegacy opts \<or> fdName fd \<noteq> [])) \<and>
     (\<forall>m \<in> set nested. messageOk opts m) \<and> (\<forall>e \<in> set en. enumOk e)"

lemma checkVariant_ok:
  assumes "checkVariant path discr opts v s = Inr t"
  shows "decsOk variantDecorators (vdDecorators v) \<and> vdName v \<noteq> discr \<and>
    fst s (generatedIdentifier (vdName v)) = None \<and> fst t = (fst s)(generatedIdentifier (vdName v) \<mapsto> vdName v) \<and>
    snd s (nameOr (vdDecorators v) ''tag'' (vdName v)) = None \<and>
    snd t = (snd s)(nameOr (vdDecorators v) ''tag'' (vdName v) \<mapsto> vdName v)"
proof -
  from assms obtain names tag where
    n: "validateNamedMember path (vdLine v) (vdName v) (vdDecorators v) variantDecorators ''oneof variant'' opts (fst s) = Inr names"
    and t: "valueOr (vdDecorators v) ''tag'' (vdName v) = Inr tag"
    and r: "snd s tag = None" "vdName v \<noteq> discr" "t = (names, (snd s)(tag \<mapsto> vdName v))"
    by (auto simp: checkVariant_def bindE_eq_Inr split: option.splits if_splits)
  from validateNamedMember_ok [OF n] valueOr_ok [OF t] r show ?thesis by auto
qed

lemma variants_ok:
  assumes "foldE (checkVariant path discr opts) vs (\<lambda>_. None, \<lambda>_. None) = Inr t"
  shows "distinct (map (\<lambda>v. generatedIdentifier (vdName v)) vs) \<and>
    distinct (map (\<lambda>v. nameOr (vdDecorators v) ''tag'' (vdName v)) vs) \<and>
    (\<forall>v \<in> set vs. decsOk variantDecorators (vdDecorators v) \<and> vdName v \<noteq> discr)"
proof (intro conjI)
  show "distinct (map (\<lambda>v. generatedIdentifier (vdName v)) vs)"
    by (rule foldE_keys [where m = fst and val = vdName, THEN conjunct1, OF _ assms])
      (use checkVariant_ok in blast)
  show "distinct (map (\<lambda>v. nameOr (vdDecorators v) ''tag'' (vdName v)) vs)"
    by (rule foldE_keys [where m = snd and val = vdName, THEN conjunct1, OF _ assms])
      (use checkVariant_ok in blast)
  show "\<forall>v \<in> set vs. decsOk variantDecorators (vdDecorators v) \<and> vdName v \<noteq> discr"
    using foldE_each [OF assms] checkVariant_ok by blast
qed

lemma validateFieldDecl_ok: "validateFieldDecl lib path fd opts = passed \<Longrightarrow> fieldOk fd"
  by (auto simp: validateFieldDecl_def fieldOk_def oneofOk_def bindE_eq_Inr find_None_iff
      dest: validateDecorators_ok variants_ok split: option.splits if_splits)

lemma checkFieldVariants_ok:
  "foldE (checkFieldVariant path) vs s = Inr t \<Longrightarrow>
   distinct (map (\<lambda>v. generatedIdentifier (vdName v)) vs) \<and> (\<forall>v \<in> set vs. s (generatedIdentifier (vdName v)) = None) \<and>
   dom t = dom s \<union> (\<lambda>v. generatedIdentifier (vdName v)) ` set vs"
  by (rule foldE_keys [where m = id and val = vdName, unfolded id_apply])
    (auto simp: checkFieldVariant_def split: option.splits)

lemma checkField_ok:
  assumes "checkField lib path opts fd s = Inr t"
  shows "fieldOk fd \<and> distinct (memberIds opts fd) \<and> set (memberIds opts fd) \<inter> dom s = {} \<and>
    dom t = dom s \<union> set (memberIds opts fd)"
proof -
  from assms have f: "validateFieldDecl lib path fd opts = passed" "s (generatedIdentifier (fdName fd)) = None"
    by (auto simp: checkField_def bindE_eq_Inr Let_def split: option.splits if_splits)
  show ?thesis
  proof (cases "fdOneof fd")
    case None
    with assms f validateFieldDecl_ok [OF f(1)] show ?thesis by (auto simp: checkField_def bindE_eq_Inr memberIds_def)
  next
    case (Some od)
    show ?thesis
    proof (cases "generates opts [''go-server'', ''go-client'']")
      case True
      with assms f Some have "foldE (checkFieldVariant path) (odVariants od) (s(generatedIdentifier (fdName fd) \<mapsto> fdName fd)) = Inr t"
        by (auto simp: checkField_def bindE_eq_Inr)
      from checkFieldVariants_ok [OF this] have
        v: "distinct (map (\<lambda>v. generatedIdentifier (vdName v)) (odVariants od))"
          "dom t = insert (generatedIdentifier (fdName fd)) (dom s) \<union> (\<lambda>v. generatedIdentifier (vdName v)) ` set (odVariants od)"
        and "\<forall>v \<in> set (odVariants od). generatedIdentifier (vdName v) \<noteq> generatedIdentifier (fdName fd) \<and> s (generatedIdentifier (vdName v)) = None"
        by (auto split: if_splits)
      with Some True f(2) validateFieldDecl_ok [OF f(1)] show ?thesis by (auto simp: memberIds_def)
    next
      case False
      with assms f Some validateFieldDecl_ok [OF f(1)] show ?thesis by (auto simp: checkField_def bindE_eq_Inr memberIds_def)
    qed
  qed
qed

lemma generatedIdentifier_Nil: "generatedIdentifier [] = []"
  by code_simp

lemma checkField_named: "checkField lib path opts fd s = Inr t \<Longrightarrow> allowLegacy opts \<or> fdName fd \<noteq> []"
  by (auto simp: checkField_def bindE_eq_Inr validateMemberName_def generatedIdentifier_Nil)

lemma checkFields_ok:
  assumes "foldE (checkField lib path opts) fds s = Inr t"
  shows "(\<forall>fd \<in> set fds. fieldOk fd \<and> (allowLegacy opts \<or> fdName fd \<noteq> [])) \<and> distinct (concat (map (memberIds opts) fds))"
proof
  show "\<forall>fd \<in> set fds. fieldOk fd \<and> (allowLegacy opts \<or> fdName fd \<noteq> [])"
  proof
    fix fd assume "fd \<in> set fds"
    then obtain a b where 1: "checkField lib path opts fd a = Inr b" using foldE_each [OF assms] by blast
    show "fieldOk fd \<and> (allowLegacy opts \<or> fdName fd \<noteq> [])"
      using checkField_ok [OF 1, THEN conjunct1] checkField_named [OF 1] by (rule conjI)
  qed
  show "distinct (concat (map (memberIds opts) fds))"
    by (rule foldE_disjoint [where m = id, unfolded id_apply, THEN conjunct1, OF _ assms]) (use checkField_ok in blast)
qed

lemma checkEnumValue_ok:
  assumes "checkEnumValue path opts v s = Inr t"
  shows "fst s (generatedIdentifier (evdName v)) = None \<and> fst t = (fst s)(generatedIdentifier (evdName v) \<mapsto> evdName v) \<and>
    snd s (nameOr (evdDecorators v) ''json'' (evdName v)) = None \<and>
    snd t = (snd s)(nameOr (evdDecorators v) ''json'' (evdName v) \<mapsto> evdName v)"
proof -
  from assms obtain json where v: "valueOr (evdDecorators v) ''json'' (evdName v) = Inr json"
    and r: "fst s (generatedIdentifier (evdName v)) = None" "snd s json = None"
      "t = ((fst s)(generatedIdentifier (evdName v) \<mapsto> evdName v), (snd s)(json \<mapsto> evdName v))"
    by (auto simp: checkEnumValue_def bindE_eq_Inr split: option.splits if_splits)
  from valueOr_ok [OF v] r show ?thesis by simp
qed

lemma validateEnumDecl_ok:
  assumes "validateEnumDecl lib path opts ed = passed"
  shows "enumOk ed"
proof -
  from assms obtain t where ne: "edValues ed \<noteq> []"
    and f: "foldE (checkEnumValue path opts) (edValues ed) (\<lambda>_. None, \<lambda>_. None) = Inr t"
    by (auto simp: validateEnumDecl_def bindE_eq_Inr split: if_splits)
  have "distinct (map (\<lambda>v. generatedIdentifier (evdName v)) (edValues ed))"
    by (rule foldE_keys [where m = fst and val = evdName, THEN conjunct1, OF _ f]) (use checkEnumValue_ok in blast)
  moreover have "distinct (map (\<lambda>v. nameOr (evdDecorators v) ''json'' (evdName v)) (edValues ed))"
    by (rule foldE_keys [where m = snd and val = evdName, THEN conjunct1, OF _ f]) (use checkEnumValue_ok in blast)
  ultimately show ?thesis using ne by (simp add: enumOk_def)
qed

lemma validateMessageDecl_ok: "validateMessageDecl lib path opts md = passed \<Longrightarrow> messageOk opts md"
proof (induction md)
  case (MessageDecl name doc decs fds nested en line col)
  then obtain s where 1: "validateDeclarationName lib path line name opts = passed"
      "validateDecorators path line decs messageDecorators = passed"
      "foldE (checkField lib path opts) fds (\<lambda>_. None) = Inr s"
      "checkAll (validateMessageDecl lib path opts) nested = passed"
      "checkAll (validateEnumDecl lib path opts) en = passed"
    by (auto simp: Let_def bindE_eq_Inr split: if_splits)
  from 1(1) have "generatedIdentifier name \<noteq> []" by (auto simp: validateDeclarationName_def)
  with 1 checkFields_ok [OF 1(3)] validateDecorators_ok [OF 1(2)] MessageDecl.IH(1) validateEnumDecl_ok show ?case
    by (auto simp: checkAll_passed)
qed

end
