(* ===== verification/ServiceChecks.thy ===== *)
theory ServiceChecks
  imports DeclProps GoPath
begin

text \<open>
  The checks of services before compilation: \<open>internal/onkcompile/validate_service.go\<close>,
  \<open>validate_authz.go\<close>, the declaration part of \<open>rawhttp.go\<close>, \<open>generatednames.go\<close>, and
  \<open>validateSyntax\<close> of \<open>validate.go\<close>, which runs all checks of declarations.
\<close>

subsection \<open>Routes\<close>

definition containsAny :: "string \<Rightarrow> string \<Rightarrow> bool" where
  "containsAny s cs = list_ex (\<lambda>c. c \<in> set cs) s"

definition countChar :: "char \<Rightarrow> string \<Rightarrow> nat" where
  "countChar c s = length (filter (\<lambda>d. d = c) s)"

definition notBrace :: "char \<Rightarrow> bool" where "notBrace c \<longleftrightarrow> c \<noteq> CHR ''{'' \<and> c \<noteq> CHR ''}''"

text \<open>\<open>pathParameterPattern.ReplaceAllString\<close>: the pattern is a brace, one or more other characters, a brace.\<close>

function replaceParams :: "string \<Rightarrow> string \<Rightarrow> string" where
  "replaceParams rep s =
     (case s of
        [] \<Rightarrow> []
      | c # r \<Rightarrow>
          let body = takeWhile notBrace r; after = dropWhile notBrace r in
          if c = CHR ''{'' \<and> body \<noteq> [] \<and> after \<noteq> [] \<and> hd after = CHR ''}'' then rep @ replaceParams rep (tl after)
          else c # replaceParams rep r)"
  by pat_completeness auto
termination
  by (relation "measure (\<lambda>(_, s). length s)")
    (auto simp: length_dropWhile_le le_imp_less_Suc order_le_less_trans [OF diff_le_self])

declare replaceParams.simps [simp del]

function pathParameterNames :: "string \<Rightarrow> string list" where
  "pathParameterNames route =
     (let start = dropWhile (\<lambda>c. c \<noteq> CHR ''{'') route in
      if start = [] then []
      else
        let stop = dropWhile (\<lambda>c. c \<noteq> CHR ''}'') (tl start) in
        if stop = [] then []
        else trimSuffix (takeWhile (\<lambda>c. c \<noteq> CHR ''}'') (tl start)) ''...'' # pathParameterNames (tl stop))"
  by pat_completeness auto
termination
proof (relation "measure length", goal_cases)
  case (2 route start stop)
  have "length stop \<le> length (tl start)" unfolding 2(3) by (rule length_dropWhile_le)
  moreover have "length start \<le> length route" unfolding 2(1) by (rule length_dropWhile_le)
  moreover have "0 < length start" "0 < length stop" using 2 by auto
  ultimately show ?case by (auto simp: less_eq_Suc_le)
qed simp

declare pathParameterNames.simps [simp del]

definition wholeSegment :: "string \<Rightarrow> bool" where
  "wholeSegment seg \<longleftrightarrow> hasPrefix seg ''{'' \<and> hasSuffix seg ''}'' \<and> countChar (CHR ''{'') seg = 1"

definition plainRune :: "rune \<Rightarrow> bool" where
  "plainRune r \<longleftrightarrow> \<not> (r < 0x20 \<or> r = 0x7F \<or> r = 34 \<or> r = 92)"

definition validParam :: "string \<Rightarrow> message_text option" where
  "validParam name =
     (if containsAny name ''{}'' then Some (''path parameter %q must not contain nested braces'', [name])
      else if name = [] \<or> generatedIdentifier name \<noteq> toLowerKey (filter (\<lambda>c. c \<noteq> CHR ''_'') name) then
        Some (''contains invalid path parameter %q'', [name])
      else None)"

fun firstError :: "('a \<Rightarrow> 'e option) \<Rightarrow> 'a list \<Rightarrow> 'e option" where
  "firstError f [] = None"
| "firstError f (x # xs) = (case f x of Some e \<Rightarrow> Some e | None \<Rightarrow> firstError f xs)"

definition validateHTTPPath :: "string \<Rightarrow> bool \<Rightarrow> message_text option" where
  "validateHTTPPath v allowEmpty =
     (let withoutParams = replaceParams ''x'' v; segments = splitOn (CHR ''/'') v in
      if v = [] \<and> allowEmpty then None
      else if \<not> hasPrefix v ''/'' then Some (''must start with /'', [])
      else if containsAny v ''?#%'' \<or> containsStr v ''//'' then
        Some (''must not contain query strings, fragments, percent escapes, or empty segments'', [])
      else if \<not> list_all plainRune (runes v) then
        Some (''must not contain control, quote, or backslash characters'', [])
      else if countChar (CHR ''{'') v \<noteq> countChar (CHR ''}'') v then
        Some (''contains unbalanced path parameter braces'', [])
      else if pathClean withoutParams \<noteq> withoutParams then
        Some (''must be a canonical literal URL path (got %s after substituting path parameters)'', [withoutParams])
      else case find (\<lambda>seg. containsAny seg ''{}'' \<and> \<not> wholeSegment seg) segments of
        Some seg \<Rightarrow> Some (''path parameter must fill a whole segment (got %q)'', [seg])
      | None \<Rightarrow>
          (case find (\<lambda>seg. hasSuffix seg ''...}'') (butlast segments) of
             Some seg \<Rightarrow> Some (''wildcard path parameter %q must be the last segment'', [seg])
           | None \<Rightarrow> firstError validParam (pathParameterNames v)))"

definition isHTTPVerb :: "string \<Rightarrow> bool" where
  "isHTTPVerb name \<longleftrightarrow>
     name \<in> {''get'', ''post'', ''put'', ''delete'', ''patch'', ''query'', ''any''}"

definition upperChar :: "char \<Rightarrow> char" where
  "upperChar c = (if 97 \<le> byte c \<and> byte c \<le> 122 then chr (byte c - 32) else c)"

definition toUpper :: "string \<Rightarrow> string" where "toUpper s = map upperChar s"

definition declRouteKey :: "string \<Rightarrow> string \<Rightarrow> string" where
  "declRouteKey verb route =
     toUpper (if verb = ''ws'' then ''GET'' else verb) @ '' '' @ replaceParams ''{}'' route"

subsection \<open>Headers\<close>

definition headerTokenRune :: "rune \<Rightarrow> bool" where
  "headerTokenRune r \<longleftrightarrow> asciiAlnum r \<or>
     r \<in> {33, 35, 36, 37, 38, 39, 42, 43, 45, 46, 94, 95, 96, 124, 126}"

definition validHTTPHeaderName :: "string \<Rightarrow> bool" where
  "validHTTPHeaderName v \<longleftrightarrow> list_all headerTokenRune (runes v) \<and> v \<noteq> []"

definition checkHeaderAuth :: "string \<Rightarrow> headerDecl \<Rightarrow> checked" where
  "checkHeaderAuth path h =
     (let name = hdName h; line = hdLine h; ds = hdDecorators h in
      case findDecoratorDecl ds ''auth'' of
        None \<Rightarrow>
          if hasDecoratorDecl ds ''auth_scheme_name'' then errAt path line ''@auth_scheme_name requires @auth'' []
          else passed
      | Some auth \<Rightarrow>
          bindE (argValueAt (ddArgs auth) 0) (\<lambda>kind.
            if \<not> hasDecoratorDecl ds ''required'' then
              errAt path line ''@auth(%s) header must also be @required'' [kind]
            else if (kind = ''bearer'' \<or> kind = ''basic'') \<and> toLower name \<noteq> ''authorization'' then
              errAt path line ''@auth(%s) must be declared on the Authorization header; use @auth(api_key) for %q'' [kind, name]
            else passed))"

definition checkHeaderFormat :: "string \<Rightarrow> headerDecl \<Rightarrow> checked" where
  "checkHeaderFormat path h =
     (case findDecoratorDecl (hdDecorators h) ''format'' of
        None \<Rightarrow> passed
      | Some d \<Rightarrow>
          bindE (argValueAt (ddArgs d) 0) (\<lambda>v.
            if v \<noteq> ''uuid'' \<and> v \<noteq> ''email'' \<and> v \<noteq> ''uri'' then
              errAt path (hdLine h) ''header @format must be uuid, email, or uri'' []
            else passed))"

definition checkHeader :: "string \<Rightarrow> headerDecl \<Rightarrow> string list \<Rightarrow> cfailure + string list" where
  "checkHeader path h seen =
     (let name = hdName h; key = toLower name; line = hdLine h in
      if key = [] then errAt path line ''header name must not be empty'' []
      else if \<not> validHTTPHeaderName name then
        errAt path line ''header name %q contains invalid HTTP token characters'' [name]
      else if key \<in> set seen then errAt path line ''duplicate header %q'' [name]
      else bindE (validateDecorators path line (hdDecorators h) headerDecorators) (\<lambda>_.
        if (case parseScalarKind (hdType h) of Some k \<Rightarrow> k \<noteq> ScalarString | None \<Rightarrow> False) then
          errAt path line ''header %q must use string type'' [name]
        else bindE (checkHeaderAuth path h) (\<lambda>_. bindE (checkHeaderFormat path h) (\<lambda>_. Inr (key # seen)))))"

definition validateHeaders :: "string \<Rightarrow> headerDecl list \<Rightarrow> checked" where
  "validateHeaders path hs = bindE (foldE (checkHeader path) hs []) (\<lambda>_. passed)"

subsection \<open>Authorization decorators\<close>

definition scopeRune :: "rune \<Rightarrow> bool" where
  "scopeRune r \<longleftrightarrow> asciiAlnum r \<or> r \<in> {58, 95, 46, 45, 47}"

definition validScopeName :: "string \<Rightarrow> bool" where
  "validScopeName v \<longleftrightarrow> v \<noteq> [] \<and> list_all scopeRune (runes v)"

definition checkScope :: "string \<Rightarrow> nat \<Rightarrow> arg \<Rightarrow> string list \<Rightarrow> cfailure + string list" where
  "checkScope path line a seen =
     (if \<not> validScopeName (argValue a) then
        errAt path line ''invalid @requires scope %q: use letters, digits, and : _ . - /'' [argValue a]
      else if argValue a \<in> set seen then errAt path line ''duplicate @requires scope %q'' [argValue a]
      else Inr (argValue a # seen))"

definition validateRequires :: "string \<Rightarrow> rpcDecl \<Rightarrow> decoratorDecl \<Rightarrow> checked" where
  "validateRequires path rd d =
     (if ddArgs d = [] then errAt path (rdLine rd) ''@requires needs at least one scope'' []
      else if length (filter (\<lambda>o1. ddName o1 = ''requires'') (rdDecorators rd)) > 1 then
        errAt path (rdLine rd) ''declare every scope in a single @requires(...)'' []
      else bindE (foldE (checkScope path (rdLine rd)) (ddArgs d) []) (\<lambda>_. passed))"

definition metaRune :: "rune \<Rightarrow> bool" where
  "metaRune r \<longleftrightarrow> 97 \<le> r \<and> r \<le> 122 \<or> 48 \<le> r \<and> r \<le> 57 \<or> r = 46 \<or> r = 95 \<or> r = 45"

definition validMetaKey :: "string \<Rightarrow> bool" where
  "validMetaKey key \<longleftrightarrow>
     \<not> (key = [] \<or> length key > 64 \<or> byte (hd key) < 97 \<or> byte (hd key) > 122) \<and> list_all metaRune (runes key)"

definition decoratorPos :: "rpcDecl \<Rightarrow> decoratorDecl \<Rightarrow> nat \<times> nat" where
  "decoratorPos rd d = (if ddLine d = 0 then (rdLine rd, rdCol rd) else (ddLine d, ddCol d))"

definition failMeta :: "string \<Rightarrow> nat \<times> nat \<Rightarrow> string \<Rightarrow> string \<Rightarrow> string list \<Rightarrow> cfailure + 'a" where
  "failMeta path pos code fmt args = Inl (CompileError path (fst pos) (snd pos) code (fmt, args))"

definition validateMeta :: "string \<Rightarrow> rpcDecl \<Rightarrow> decoratorDecl \<Rightarrow> checked" where
  "validateMeta path rd d =
     (let fail = failMeta path (decoratorPos rd d) ''invalid_meta'' in
      if length (ddArgs d) \<noteq> 2 then
        fail (''@meta expects a key and a value, as in @meta('' @ [CHR 0x22] @ ''audit'' @ [CHR 0x22] @ '', '' @ [CHR 0x22] @ ''app.update'' @ [CHR 0x22] @ '')'') []
      else
        let key = argValue (ddArgs d ! 0); v = argValue (ddArgs d ! 1) in
        if \<not> validMetaKey key then
          fail ''invalid @meta key %q: start with a lower-case letter and use lower-case letters, digits and . _ -'' [key]
        else if v = [] \<or> length v > 200 then
          fail ''@meta value for %q must be 1 to %d bytes'' [key, showNat 200]
        else if list_ex (\<lambda>o1. ddName o1 = ''meta'' \<and> length (ddArgs o1) = 2 \<and> argValue (ddArgs o1 ! 0) = key \<and>
            (ddLine o1 \<noteq> ddLine d \<or> ddCol o1 \<noteq> ddCol d)) (rdDecorators rd) then
          fail ''duplicate @meta key %q'' [key]
        else passed)"

definition rpcRoute :: "rpcDecl \<Rightarrow> string" where
  "rpcRoute rd =
     (case find (\<lambda>d. isHTTPVerb (ddName d) \<and> length (ddArgs d) = 1) (rdDecorators rd) of
        Some d \<Rightarrow> argValue (ddArgs d ! 0) | None \<Rightarrow> [])"

definition checkGuard :: "string \<Rightarrow> rpcDecl \<Rightarrow> decoratorDecl \<Rightarrow> string list \<Rightarrow> arg \<Rightarrow> checked" where
  "checkGuard path rd d params a =
     (let fail = failMeta path (decoratorPos rd d) ''invalid_guard''; pattern = argValue a in
      if pattern = [] \<or> length pattern > 200 then fail ''@guard patterns must be 1 to %d bytes'' [showNat 200]
      else checkAll (\<lambda>seg.
        case cutPrefix seg '':'' of
          None \<Rightarrow> passed
        | Some name \<Rightarrow>
            if name \<in> set params then passed
            else fail ''@guard placeholder :%s in %q is not a path parameter of the route'' [name, pattern])
        (splitOn (CHR ''/'') pattern))"

definition validateGuard :: "string \<Rightarrow> rpcDecl \<Rightarrow> decoratorDecl \<Rightarrow> checked" where
  "validateGuard path rd d =
     (if ddArgs d = [] then
        failMeta path (decoratorPos rd d) ''invalid_guard''
          (''@guard needs at least one pattern, as in @guard('' @ [CHR 0x22] @ ''object/level/:id'' @ [CHR 0x22] @ '')'') []
      else checkAll (checkGuard path rd d (pathParameterNames (rpcRoute rd))) (ddArgs d))"

definition validateAuthorization :: "string \<Rightarrow> rpcDecl \<Rightarrow> decoratorDecl \<Rightarrow> checked" where
  "validateAuthorization path rd d =
     (if ddName d = ''requires'' then validateRequires path rd d
      else if ddName d = ''meta'' then validateMeta path rd d
      else if ddName d = ''guard'' then validateGuard path rd d
      else if length (ddArgs d) \<noteq> 2 then
        errCol path (rdLine rd) (ddCol d) ''@authorize expects an expression and a message'' []
      else passed)"

definition rejectAuthorizationOnWS :: "string \<Rightarrow> rpcDecl \<Rightarrow> checked" where
  "rejectAuthorizationOnWS path rd =
     checkAll (\<lambda>name.
       if hasDecoratorDecl (rdDecorators rd) name then
         errAt path (rdLine rd) ''@%s is not supported on @ws methods yet; authorize the upgrade request in middleware'' [name]
       else passed) [''requires'', ''authorize'', ''meta'', ''guard'']"

definition validateSuccess :: "string \<Rightarrow> rpcDecl \<Rightarrow> decoratorDecl \<Rightarrow> checked" where
  "validateSuccess path rd d =
     (if length (ddArgs d) \<noteq> 1 then errAt path (rdLine rd) ''@success takes one status, as in @success(204)'' []
      else
        let v = argValue (ddArgs d ! 0) in
        if (case parseInt v of None \<Rightarrow> True | Some n \<Rightarrow> n < 200 \<or> n > 299) then
          errAt path (rdLine rd) ''@success status %q must be a 2xx code'' [v]
        else if hasDecoratorDecl (rdDecorators rd) ''stream'' \<or> hasDecoratorDecl (rdDecorators rd) ''ws'' then
          errAt path (rdLine rd) ''@success is not supported on @stream and @ws methods'' []
        else passed)"

subsection \<open>RPCs\<close>

definition rawRequestKinds :: "string list" where
  "rawRequestKinds = [''none'', ''json'', ''multipart'', ''stream'']"

definition rawResponseKinds :: "string list" where
  "rawResponseKinds = [''stream'', ''json'', ''redirect'', ''websocket'']"

text \<open>How \<open>%v\<close> prints a list of strings.\<close>

definition showList :: "string list \<Rightarrow> string" where
  "showList xs = ''['' @ joinWith '' '' xs @ '']''"

definition checkHttpArg :: "string \<Rightarrow> nat \<Rightarrow> arg \<Rightarrow> string \<Rightarrow> cfailure + string" where
  "checkHttpArg path line a request =
     (if argName a = [] then Inr request
      else if argName a = ''request'' then
        (if argValue a \<in> set rawRequestKinds then Inr (argValue a)
         else errAt path line ''@http request must be one of %v, got %q'' [showList rawRequestKinds, argValue a])
      else if argName a = ''response'' then
        (if argValue a \<in> set rawResponseKinds then Inr request
         else errAt path line ''@http response must be one of %v, got %q'' [showList rawResponseKinds, argValue a])
      else errAt path line ''@http has no argument %q; use a content type, request: or response:'' [argName a])"

definition validateRawHTTPRPC :: "string \<Rightarrow> rpcDecl \<Rightarrow> string \<Rightarrow> checked" where
  "validateRawHTTPRPC path rd verb =
     (let ds = rdDecorators rd; line = rdLine rd; q = [CHR 0x22] in
      case findDecoratorDecl ds ''http'' of
        None \<Rightarrow>
          if verb = ''any'' then
            errAt path line ''@any needs @http: only a hand-written handler can serve every method'' []
          else passed
      | Some d \<Rightarrow>
          andThen (checkAll (\<lambda>name. if hasDecoratorDecl ds name then
                errAt path line ''@http cannot be combined with @%s: the handler owns the whole request and response'' [name]
              else passed) [''stream'', ''ws'', ''success''])
          (let hasBody = hasDecoratorDecl ds ''body'' in
           bindE (foldE (checkHttpArg path line) (ddArgs d) (if isBodyBearingVerb verb then ''stream'' else ''none''))
             (\<lambda>request.
                if request \<noteq> ''none'' \<and> \<not> isBodyBearingVerb verb then
                  errAt path line ''@http(request: %q) needs a verb with a body (@post, @put, @patch, @query or @any)'' [request]
                else if request = ''json'' \<and> \<not> hasBody then
                  errAt path line (''@http(request: '' @ q @ ''json'' @ q @ '') needs @body('' @ q @ ''field'' @ q @
                    '') naming the request field that holds the JSON body'') []
                else if request \<noteq> ''json'' \<and> hasBody then
                  errAt path line (''@body on an @http route needs @http(request: '' @ q @ ''json'' @ q @
                    ''); otherwise the handler reads the body itself'') []
                else passed)))"

definition validateResponseDecorator :: "string \<Rightarrow> rpcDecl \<Rightarrow> decoratorDecl \<Rightarrow> checked" where
  "validateResponseDecorator path rd d =
     (if ddName d = ''success'' then validateSuccess path rd d
      else if length (filter (\<lambda>a. argName a = []) (ddArgs d)) > 1 then
        errAt path (rdLine rd) (''@http takes at most one content type, as in @http('' @ [CHR 0x22] @
          ''application/javascript'' @ [CHR 0x22] @ '')'') []
      else passed)"

definition singleUseRPCDecorators :: "string list" where
  "singleUseRPCDecorators = [''stream'', ''ws'', ''body'', ''http'', ''success'', ''max_body'', ''deprecated'']"

definition checkSingleUse :: "string \<Rightarrow> rpcDecl \<Rightarrow> decoratorDecl \<Rightarrow> string list \<Rightarrow> cfailure + string list" where
  "checkSingleUse path rd d seen =
     (if ddName d \<notin> set singleUseRPCDecorators then Inr seen
      else if ddName d \<in> set seen then
        errAt path (rdLine rd) ''@%s is declared more than once on RPC %s'' [ddName d, rdName rd]
      else Inr (ddName d # seen))"

definition rejectRepeatedDecorators :: "string \<Rightarrow> rpcDecl \<Rightarrow> checked" where
  "rejectRepeatedDecorators path rd =
     bindE (foldE (checkSingleUse path rd) (rdDecorators rd) []) (\<lambda>_. passed)"

text \<open>One round of the loop of \<open>validateRPC\<close>; the state is the verb and the route found so far.\<close>

definition checkRpcDecorator :: "string \<Rightarrow> rpcDecl \<Rightarrow> bool \<Rightarrow> decoratorDecl \<Rightarrow> string \<times> string \<Rightarrow>
    cfailure + string \<times> string" where
  "checkRpcDecorator path rd allowEmpty d vr =
     (let name = ddName d; n = length (ddArgs d); line = rdLine rd; ok = (\<lambda>c. bindE c (\<lambda>_. Inr vr)) in
      if isHTTPVerb name then
        (if fst vr \<noteq> [] then errAt path line ''RPC must declare exactly one HTTP verb'' []
         else if n \<noteq> 1 \<or> argValue (ddArgs d ! 0) = [] \<and> \<not> allowEmpty then
           errAt path line ''@%s requires one non-empty route (an empty route is allowed only when the service sets base_path)'' [name]
         else Inr (name, argValue (ddArgs d ! 0)))
      else if name = ''ws'' then
        (if n \<noteq> 1 \<or> argValue (ddArgs d ! 0) = [] then errAt path line ''@ws requires one non-empty route'' []
         else Inr (fst vr, argValue (ddArgs d ! 0)))
      else if name = ''stream'' then
        (if n \<noteq> 0 then errAt path line ''@stream does not take arguments'' [] else Inr vr)
      else if name = ''body'' then
        (if n > 1 then errAt path line ''@body accepts at most one argument'' [] else Inr vr)
      else if name = ''deprecated'' then
        (if n > 1 then errAt path line ''@deprecated accepts at most one reason'' [] else Inr vr)
      else if name \<in> {''http'', ''success''} then ok (validateResponseDecorator path rd d)
      else if name \<in> {''requires'', ''authorize'', ''meta'', ''guard''} then ok (validateAuthorization path rd d)
      else if name = ''max_body'' then
        (if n \<noteq> 1 then errAt path line ''@max_body takes one size such as 64MiB or a byte count'' []
         else if parseByteSize (argValue (ddArgs d ! 0)) = None then
           errAt path line ''@max_body size %q must be a positive byte count with an optional B, KiB, MiB or GiB suffix''
             [argValue (ddArgs d ! 0)]
         else Inr vr)
      else errAt path line ''unknown RPC decorator @%s'' [name])"

definition validateWSRPC :: "string \<Rightarrow> rpcDecl \<Rightarrow> string \<Rightarrow> string \<Rightarrow> cfailure + string \<times> string" where
  "validateWSRPC path rd verb route =
     (let ds = rdDecorators rd; line = rdLine rd in
      if verb \<noteq> [] then errAt path line ''@ws cannot be combined with an HTTP verb; it replaces the transport binding'' []
      else if hasDecoratorDecl ds ''stream'' then
        errAt path line ''@ws is already bidirectional and cannot be combined with @stream'' []
      else bindE (rejectAuthorizationOnWS path rd) (\<lambda>_.
        if hasDecoratorDecl ds ''max_body'' then errAt path line ''@ws does not support @max_body'' []
        else if hasDecoratorDecl ds ''body'' then
          errAt path line ''@ws does not support @body binding; every non-path/non-query request field crosses as a message frame'' []
        else if containsStr route ''...}'' then
          errAt path line ''@ws routes cannot use wildcard path parameters'' []
        else case validateHTTPPath route False of
          Some (fmt, args) \<Rightarrow> errAt path line (''invalid @ws route: '' @ fmt) args
        | None \<Rightarrow> Inr (''ws'', route)))"

definition validateRPC :: "string \<Rightarrow> rpcDecl \<Rightarrow> bool \<Rightarrow> cfailure + string \<times> string" where
  "validateRPC path rd allowEmpty =
     bindE (foldE (checkRpcDecorator path rd allowEmpty) (rdDecorators rd) ([], [])) (\<lambda>(verb, route).
       let ds = rdDecorators rd; line = rdLine rd in
       if hasDecoratorDecl ds ''ws'' then validateWSRPC path rd verb route
       else if verb = [] then errAt path line ''RPC must declare exactly one HTTP verb'' []
       else case validateHTTPPath route allowEmpty of
         Some (fmt, args) \<Rightarrow> errAt path line (''invalid RPC route: '' @ fmt) args
       | None \<Rightarrow>
           bindE (validateRawHTTPRPC path rd verb) (\<lambda>_.
             if hasDecoratorDecl ds ''max_body'' \<and> \<not> isBodyBearingVerb verb then
               errAt path line ''@max_body requires a body-bearing HTTP verb'' []
             else case findDecoratorDecl ds ''body'' of
               None \<Rightarrow> Inr (verb, route)
             | Some body \<Rightarrow>
                 if \<not> isBodyBearingVerb verb then
                   errAt path line ''@body requires a body-bearing HTTP verb'' []
                 else if length (ddArgs body) \<noteq> 1 \<or> argValue (ddArgs body ! 0) = [] then
                   errAt path line ''@body requires one non-empty request field name'' []
                 else Inr (verb, route)))"

type_synonym routeSeen = "string \<rightharpoonup> string"

text \<open>The state is the methods seen in this service and the routes seen anywhere.\<close>

definition validateServiceRPC :: "string \<Rightarrow> serviceDecl \<Rightarrow> string \<Rightarrow> string list \<Rightarrow> compileOptions \<Rightarrow> rpcDecl \<Rightarrow>
    (string \<rightharpoonup> string) \<times> routeSeen \<Rightarrow> cfailure + (string \<rightharpoonup> string) \<times> routeSeen" where
  "validateServiceRPC path sd routeScope serviceHeaders opts rd st =
     bindE (if allowLegacy opts then passed else validateMemberName path (rdLine rd) (rdName rd) opts) (\<lambda>_.
       let generated = generatedIdentifier (rdName rd); line = rdLine rd in
       case fst st generated of
         Some previous \<Rightarrow> errAt path line ''RPC name %q collides with %q after target-language name conversion'' [rdName rd, previous]
       | None \<Rightarrow>
           bindE (rejectRepeatedDecorators path rd) (\<lambda>_.
           bindE (validateRPC path rd (sdBasePath sd \<noteq> [])) (\<lambda>(verb, route).
             let key = declRouteKey verb (routeScope @ route) in
             case snd st key of
               Some previous \<Rightarrow> errAt path line ''duplicate HTTP route %s (already declared by %s)'' [key, previous]
             | None \<Rightarrow>
                 bindE (validateHeaders path (rdHeaders rd)) (\<lambda>_.
                   case find (\<lambda>h. toLower (hdName h) \<in> set serviceHeaders) (rdHeaders rd) of
                     Some h \<Rightarrow> errAt path (hdLine h) ''RPC header %q conflicts with a service header'' [hdName h]
                   | None \<Rightarrow> Inr ((fst st)(generated \<mapsto> rdName rd), (snd st)(key \<mapsto> sdName sd @ ''.'' @ rdName rd))))))"

definition validateServiceDecl :: "goLib \<Rightarrow> string \<Rightarrow> serviceDecl \<Rightarrow> string \<Rightarrow> compileOptions \<Rightarrow> routeSeen \<Rightarrow>
    cfailure + routeSeen" where
  "validateServiceDecl lib path sd routeScope opts seenRoutes =
     bindE (validateDeclarationName lib path (sdLine sd) (sdName sd) opts) (\<lambda>_.
       case validateHTTPPath (sdBasePath sd) True of
         Some (fmt, args) \<Rightarrow> errAt path (sdLine sd) (''invalid service base_path: '' @ fmt) args
       | None \<Rightarrow>
           if containsAny (sdBasePath sd) ''{}'' then
             errAt path (sdLine sd) ''service base_path must not contain path parameters; declare them on each RPC route'' []
           else
             bindE (validateHeaders path (sdHeaders sd)) (\<lambda>_.
             bindE (foldE (validateServiceRPC path sd routeScope (map (\<lambda>h. toLower (hdName h)) (sdHeaders sd)) opts)
                 (sdRPCs sd) (\<lambda>_. None, seenRoutes)) (\<lambda>st. Inr (snd st))))"

subsection \<open>Names the Go generators emit\<close>

definition goGeneratedTypeNames :: "string list" where
  "goGeneratedTypeNames =
     [''RequestMetadata'', ''ScopeError'', ''Middleware'', ''RequestIDGenerator'',
      ''Authorizer'', ''RequestResult'', ''RequestObserver'', ''ServerOption'',
      ''ServerOptions'', ''ServerError'', ''ErrorWriter'', ''ResponseControl'',
      ''SSESender'', ''ValidationErrors'', ''UnexpectedStatusError'', ''CallOption'',
      ''EventStream'']"

text \<open>The type names of the services of a directory; a later service replaces an earlier one.\<close>

definition serviceTypes :: "source list \<Rightarrow> string \<Rightarrow> string \<rightharpoonup> string" where
  "serviceTypes sources dir =
     foldl (\<lambda>m s. if pathDir (srcPath s) \<noteq> dir then m
       else foldl (\<lambda>m sd. m(sdName sd @ ''Server'' \<mapsto> sdName sd, sdName sd @ ''Client'' \<mapsto> sdName sd)) m
         (fldServices (srcAST s))) (\<lambda>_. None) sources"

definition checkGeneratedName :: "source list \<Rightarrow> source \<Rightarrow> string \<times> nat \<times> string \<Rightarrow> checked" where
  "checkGeneratedName sources s decl =
     (case decl of (name, line, kind) \<Rightarrow>
        if name \<in> set goGeneratedTypeNames then
          errAt (srcPath s) line ''%s name %q collides with a type the Go generators emit; rename it'' [kind, name]
        else case serviceTypes sources (pathDir (srcPath s)) name of
          Some service \<Rightarrow> errAt (srcPath s) line ''%s name %q collides with the type generated for service %s; rename it'' [kind, name, service]
        | None \<Rightarrow> passed)"

definition validateGeneratedNames :: "source list \<Rightarrow> compileOptions \<Rightarrow> checked" where
  "validateGeneratedNames sources opts =
     (if \<not> generates opts [''go-server'', ''go-client''] then passed
      else checkAll (\<lambda>s.
        andThen (checkAll (checkGeneratedName sources s)
            (map (\<lambda>m. (mdName m, mdLine m, ''message'')) (fldMessages (srcAST s))))
          (checkAll (checkGeneratedName sources s)
            (map (\<lambda>e. (edName e, edLine e, ''enum'')) (fldEnums (srcAST s))))) sources)"

subsection \<open>All checks of declarations\<close>

type_synonym syntaxState = "(string \<rightharpoonup> string) \<times> routeSeen"

definition checkService :: "goLib \<Rightarrow> source \<Rightarrow> compileOptions \<Rightarrow> serviceDecl \<Rightarrow> syntaxState \<Rightarrow> cfailure + syntaxState" where
  "checkService lib s opts sd st =
     (let key = fldPackage (srcAST s) @ ''.'' @ sdName sd in
      case fst st key of
        Some previous \<Rightarrow> errAt (srcPath s) (sdLine sd) ''duplicate service name %q (already declared in %s)'' [sdName sd, previous]
      | None \<Rightarrow>
          let routeScope = (if sdBasePath sd = [] then fldPackage (srcAST s) else sdBasePath sd) in
          bindE (validateServiceDecl lib (srcPath s) sd routeScope opts (snd st)) (\<lambda>routes.
            Inr ((fst st)(key \<mapsto> srcPath s), routes)))"

definition checkSource :: "goLib \<Rightarrow> compileOptions \<Rightarrow> source \<Rightarrow> syntaxState \<Rightarrow> cfailure + syntaxState" where
  "checkSource lib opts s st =
     bindE (checkAll (validateMessageDecl lib (srcPath s) opts) (fldMessages (srcAST s))) (\<lambda>_.
     bindE (checkAll (validateEnumDecl lib (srcPath s) opts) (fldEnums (srcAST s))) (\<lambda>_.
       foldE (checkService lib s opts) (fldServices (srcAST s)) st))"

definition validateSyntax :: "goLib \<Rightarrow> source list \<Rightarrow> compileOptions \<Rightarrow> checked" where
  "validateSyntax lib sources opts =
     bindE (foldE (checkSource lib opts) sources (\<lambda>_. None, \<lambda>_. None)) (\<lambda>_. validateGeneratedNames sources opts)"

end
