(* ===== verification/ServiceProps.thy ===== *)
theory ServiceProps
  imports ServiceChecks
begin

text \<open>
  What the checks of services guarantee: no panic, the shape of accepted routes (with the compiler
  and the schema reading the same parameters off them), and one owner for each route, RPC name and
  service name.
\<close>

subsection \<open>No panic\<close>

lemma safe_failMeta [simp]: "safeRun (failMeta path pos code fmt args)"
  by (simp add: failMeta_def)

lemma headerArg:
  assumes "decsOk headerDecorators ds" "findDecoratorDecl ds name = Some d" "name \<in> {''auth'', ''format''}"
  shows "0 < length (ddArgs d)"
  using decsOk_find [OF assms(1,2)] assms(3) by (auto simp: headerDecorators_def)

lemma safe_checkHeader: "safeRun (checkHeader path h seen)"
  unfolding checkHeader_def Let_def
proof (intro safe_intros safe_validateDecorators)
  fix u assume "validateDecorators path (hdLine h) (hdDecorators h) headerDecorators = Inr u"
  then have "validateDecorators path (hdLine h) (hdDecorators h) headerDecorators = passed" by simp
  then have ok: "decsOk headerDecorators (hdDecorators h)" by (rule validateDecorators_ok)
  show "safeRun (checkHeaderAuth path h)"
    unfolding checkHeaderAuth_def Let_def by (intro safe_intros; erule headerArg [OF ok]; simp)
  show "safeRun (checkHeaderFormat path h)"
    unfolding checkHeaderFormat_def by (intro safe_intros; erule headerArg [OF ok]; simp)
qed simp

lemma safe_validateHeaders: "safeRun (validateHeaders path hs)"
  unfolding validateHeaders_def by (intro safe_intros safe_checkHeader)

lemma safe_validateAuthorization: "safeRun (validateAuthorization path rd d)"
  unfolding validateAuthorization_def validateRequires_def checkScope_def validateMeta_def validateGuard_def
    checkGuard_def failMeta_def Let_def
  by (intro safe_intros)

lemma safe_validateResponseDecorator: "safeRun (validateResponseDecorator path rd d)"
  unfolding validateResponseDecorator_def validateSuccess_def Let_def by (intro safe_intros)

lemma safe_validateRawHTTPRPC: "safeRun (validateRawHTTPRPC path rd verb)"
  unfolding validateRawHTTPRPC_def checkHttpArg_def Let_def by (intro safe_intros)

lemma safe_checkRpcDecorator: "safeRun (checkRpcDecorator path rd allowEmpty d vr)"
  unfolding checkRpcDecorator_def Let_def
  by (intro safe_intros safe_validateResponseDecorator safe_validateAuthorization)

lemma safe_validateWSRPC: "safeRun (validateWSRPC path rd verb route)"
  unfolding validateWSRPC_def rejectAuthorizationOnWS_def Let_def by (intro safe_intros)

lemma safe_validateRPC: "safeRun (validateRPC path rd allowEmpty)"
  unfolding validateRPC_def Let_def
  by (intro safe_intros safe_checkRpcDecorator safe_validateWSRPC safe_validateRawHTTPRPC)

lemma safe_validateServiceRPC: "safeRun (validateServiceRPC path sd routeScope hs opts rd st)"
  unfolding validateServiceRPC_def rejectRepeatedDecorators_def checkSingleUse_def Let_def
  by (intro safe_intros safe_validateRPC safe_validateHeaders)

lemma safe_validateServiceDecl: "safeRun (validateServiceDecl lib path sd routeScope opts seen)"
  unfolding validateServiceDecl_def
  by (intro safe_intros safe_validateHeaders safe_validateServiceRPC)

lemma safe_validateSyntax: "safeRun (validateSyntax lib sources opts)"
  unfolding validateSyntax_def checkSource_def checkService_def validateGeneratedNames_def checkGeneratedName_def Let_def
  by (intro safe_intros safe_validateMessageDecl safe_validateEnumDecl safe_validateServiceDecl)

subsection \<open>Routes\<close>

text \<open>
  Two readers of path parameters: both skip text without an opening brace and read a brace-free
  name between braces. On a route whose segments are such texts they give the same names.
\<close>

locale param_reader =
  fixes names :: "string \<Rightarrow> string list"
  assumes skips: "CHR ''{'' \<notin> set s \<Longrightarrow> names (s @ path) = names path"
    and step: "noBraces n \<Longrightarrow> names (CHR ''{'' # n @ CHR ''}'' # path) = trimSuffix n ''...'' # names path"
    and empty: "names [] = []"
begin

lemma names_segment:
  "noBraces seg \<Longrightarrow> names (seg @ path) = names path"
  by (rule skips) (simp add: noBraces_def)

lemma names_join:
  "\<forall>seg \<in> set segs. noBraces seg \<or> (\<exists>n. noBraces n \<and> seg = CHR ''{'' # n @ ''}'') \<Longrightarrow>
   names (joinWith ''/'' segs) =
     concat (map (\<lambda>seg. if noBraces seg then [] else [trimSuffix (butlast (tl seg)) ''...'']) segs)"
proof (induction segs rule: induct_list012)
  case (2 seg)
  then show ?case using names_segment [of seg "[]"] step [of _ "[]"] by (auto simp: empty)
next
  case (3 seg s2 segs)
  have *: "names (''/'' @ joinWith ''/'' (s2 # segs)) = names (joinWith ''/'' (s2 # segs))"
    by (rule skips) simp
  from 3 show ?case using names_segment [of seg "''/'' @ joinWith ''/'' (s2 # segs)"] step * by auto
qed (simp add: empty)

end

lemma pathParameterNames_reader: "param_reader pathParameterNames"
proof
  show "pathParameterNames (s @ path) = pathParameterNames path" if "CHR ''{'' \<notin> set s" for s path
  proof -
    have "dropWhile (\<lambda>c. c \<noteq> CHR ''{'') (s @ path) = dropWhile (\<lambda>c. c \<noteq> CHR ''{'') path"
      using that by (subst dropWhile_append2) auto
    then show ?thesis by (simp add: pathParameterNames.simps [of "s @ path"] pathParameterNames.simps [of path])
  qed
  show "pathParameterNames (CHR ''{'' # n @ CHR ''}'' # path) = trimSuffix n ''...'' # pathParameterNames path"
    if "noBraces n" for n path
  proof -
    have "dropWhile (\<lambda>c. c \<noteq> CHR ''}'') (n @ CHR ''}'' # path) = CHR ''}'' # path"
      "takeWhile (\<lambda>c. c \<noteq> CHR ''}'') (n @ CHR ''}'' # path) = n"
      using that by (auto simp: noBraces_def dropWhile_append3 takeWhile_tail dropWhile_append2)
    then show ?thesis by (simp add: pathParameterNames.simps [of "CHR ''{'' # n @ CHR ''}'' # path"])
  qed
qed (simp add: pathParameterNames.simps)

lemma pathParamNames_reader: "param_reader pathParamNames"
  by unfold_locales (simp_all add: pathParamNames_def pathParams_text pathParams_name)

interpretation compiler_params: param_reader pathParameterNames by (rule pathParameterNames_reader)
interpretation schema_params: param_reader pathParamNames by (rule pathParamNames_reader)

lemma countChar_simps [simp]:
  "countChar c [] = 0" "countChar c (d # s) = (if d = c then Suc (countChar c s) else countChar c s)"
  "countChar c (s @ t) = countChar c s + countChar c t"
  by (simp_all add: countChar_def)

lemma countChar_0: "countChar c s = 0 \<longleftrightarrow> c \<notin> set s"
  by (induction s) auto

lemma countChar_join: "c \<notin> set sep \<Longrightarrow> countChar c (joinWith sep segs) = sum_list (map (countChar c) segs)"
  by (induction segs rule: induct_list012) (auto simp: countChar_0)

lemma containsAny_braces: "containsAny s ''{}'' \<longleftrightarrow> \<not> noBraces s"
  by (induction s) (auto simp: containsAny_def)

lemma wholeSegment_inner:
  assumes "wholeSegment seg"
  shows "\<exists>n. seg = CHR ''{'' # n @ ''}'' \<and> CHR ''{'' \<notin> set n"
proof -
  from assms obtain r where r: "seg = CHR ''{'' # r" by (auto simp: wholeSegment_def hasPrefix_iff prefix_def)
  from assms obtain q where "seg = q @ ''}''" by (auto simp: wholeSegment_def hasSuffix_iff suffix_def)
  with r obtain n where "seg = CHR ''{'' # n @ ''}''" by (cases q) auto
  with assms show ?thesis by (auto simp: wholeSegment_def countChar_0)
qed

text \<open>Balanced braces over the whole path leave no closing brace inside a parameter.\<close>

lemma balanced_segments:
  assumes "\<forall>seg \<in> set segs. noBraces seg \<or> wholeSegment seg"
    and "sum_list (map (countChar (CHR ''{'')) segs) = sum_list (map (countChar (CHR ''}'')) segs)"
    and "seg \<in> set segs" "\<not> noBraces seg"
  shows "\<exists>n. noBraces n \<and> seg = CHR ''{'' # n @ ''}''"
proof -
  have le: "countChar (CHR ''{'') s \<le> countChar (CHR ''}'') s" if "s \<in> set segs" for s
  proof (cases "noBraces s")
    case True
    then show ?thesis using countChar_0 [of "CHR ''{''" s] by (simp add: noBraces_def)
  next
    case False
    with assms(1) that have "wholeSegment s" by blast
    with wholeSegment_inner [OF this] show ?thesis by (auto simp: wholeSegment_def)
  qed
  have eq: "\<forall>s \<in> set segs. countChar (CHR ''{'') s = countChar (CHR ''}'') s"
    using assms(2) le
  proof (induction segs)
    case (Cons a segs)
    have "sum_list (map (countChar (CHR ''{'')) segs) \<le> sum_list (map (countChar (CHR ''}'')) segs)"
      using Cons.prems(2) by (intro sum_list_mono) simp
    with Cons show ?case by fastforce
  qed simp
  from assms have w: "wholeSegment seg" by blast
  then obtain n where n: "seg = CHR ''{'' # n @ ''}''" "CHR ''{'' \<notin> set n" using wholeSegment_inner by blast
  from eq assms(3) w n have "countChar (CHR ''}'') n = 0" by (auto simp: wholeSegment_def)
  with n show ?thesis by (auto simp: noBraces_def countChar_0)
qed

lemma firstError_None: "firstError f xs = None \<longleftrightarrow> (\<forall>x \<in> set xs. f x = None)"
  by (induction xs) (auto split: option.split)

lemma accepted_path:
  assumes "validateHTTPPath v allowEmpty = None" "v \<noteq> []"
  shows "hasPrefix v ''/''"
    and "\<forall>seg \<in> set (splitOn (CHR ''/'') v). noBraces seg \<or> (\<exists>n. noBraces n \<and> seg = CHR ''{'' # n @ ''}'')"
    and "pathParameterNames v = pathParamNames v"
    and "\<forall>seg \<in> set (butlast (splitOn (CHR ''/'') v)). \<not> hasSuffix seg ''...}''"
    and "\<forall>n \<in> set (pathParamNames v). validParam n = None"
proof -
  from assms have a: "hasPrefix v ''/''" "countChar (CHR ''{'') v = countChar (CHR ''}'') v"
      "\<forall>seg \<in> set (splitOn (CHR ''/'') v). noBraces seg \<or> wholeSegment seg"
      "\<forall>seg \<in> set (butlast (splitOn (CHR ''/'') v)). \<not> hasSuffix seg ''...}''"
      "\<forall>n \<in> set (pathParameterNames v). validParam n = None"
    unfolding validateHTTPPath_def Let_def
    by (auto simp: find_None_iff containsAny_braces firstError_None split: if_splits option.splits)
  show "hasPrefix v ''/''" "\<forall>seg \<in> set (butlast (splitOn (CHR ''/'') v)). \<not> hasSuffix seg ''...}''"
    by (fact a)+
  have j: "v = joinWith ''/'' (splitOn (CHR ''/'') v)" by (simp add: join_split)
  have "sum_list (map (countChar (CHR ''{'')) (splitOn (CHR ''/'') v)) = sum_list (map (countChar (CHR ''}'')) (splitOn (CHR ''/'') v))"
    using a(2) by (subst (asm) (1 2) j) (simp add: countChar_join)
  from balanced_segments [OF a(3) this]
  show s: "\<forall>seg \<in> set (splitOn (CHR ''/'') v). noBraces seg \<or> (\<exists>n. noBraces n \<and> seg = CHR ''{'' # n @ ''}'')" by blast
  show e: "pathParameterNames v = pathParamNames v"
    using compiler_params.names_join [OF s] schema_params.names_join [OF s] j by metis
  show "\<forall>n \<in> set (pathParamNames v). validParam n = None" using a(5) e by simp
qed

subsection \<open>One owner for each name and route\<close>

text \<open>The key a checked RPC takes in the table of routes.\<close>

definition scopeOfService :: "fileDecl \<Rightarrow> serviceDecl \<Rightarrow> string" where
  "scopeOfService f sd = (if sdBasePath sd = [] then fldPackage f else sdBasePath sd)"

definition rpcKey :: "string \<Rightarrow> string \<Rightarrow> serviceDecl \<Rightarrow> rpcDecl \<Rightarrow> string" where
  "rpcKey path routeScope sd rd =
     (case validateRPC path rd (sdBasePath sd \<noteq> []) of
        Inr (verb, route) \<Rightarrow> declRouteKey verb (routeScope @ route) | Inl _ \<Rightarrow> [])"

definition serviceKeys :: "string \<Rightarrow> fileDecl \<Rightarrow> serviceDecl \<Rightarrow> string list" where
  "serviceKeys path f sd = map (rpcKey path (scopeOfService f sd) sd) (sdRPCs sd)"

definition sourceKeys :: "source \<Rightarrow> string list" where
  "sourceKeys s = concat (map (serviceKeys (srcPath s) (srcAST s)) (fldServices (srcAST s)))"

definition serviceNames :: "source \<Rightarrow> string list" where
  "serviceNames s = map (\<lambda>sd. fldPackage (srcAST s) @ ''.'' @ sdName sd) (fldServices (srcAST s))"

lemma validateServiceRPC_ok:
  assumes "validateServiceRPC path sd routeScope hs opts rd st = Inr t"
  shows "fst st (generatedIdentifier (rdName rd)) = None \<and> fst t = (fst st)(generatedIdentifier (rdName rd) \<mapsto> rdName rd) \<and>
    snd st (rpcKey path routeScope sd rd) = None \<and>
    snd t = (snd st)(rpcKey path routeScope sd rd \<mapsto> sdName sd @ ''.'' @ rdName rd) \<and>
    isOk (validateRPC path rd (sdBasePath sd \<noteq> []))"
proof -
  from assms obtain verb route where
    r: "validateRPC path rd (sdBasePath sd \<noteq> []) = Inr (verb, route)"
    and "fst st (generatedIdentifier (rdName rd)) = None" "snd st (declRouteKey verb (routeScope @ route)) = None"
      "t = ((fst st)(generatedIdentifier (rdName rd) \<mapsto> rdName rd),
        (snd st)(declRouteKey verb (routeScope @ route) \<mapsto> sdName sd @ ''.'' @ rdName rd))"
    by (auto simp: validateServiceRPC_def bindE_eq_Inr Let_def split: option.splits prod.splits)
  then show ?thesis by (simp add: rpcKey_def)
qed

definition serviceOk :: "string \<Rightarrow> serviceDecl \<Rightarrow> bool" where
  "serviceOk path sd \<longleftrightarrow> distinct (map (\<lambda>rd. generatedIdentifier (rdName rd)) (sdRPCs sd)) \<and>
     noBraces (sdBasePath sd) \<and> (\<forall>rd \<in> set (sdRPCs sd). isOk (validateRPC path rd (sdBasePath sd \<noteq> [])))"

lemma validateServiceDecl_ok:
  assumes "validateServiceDecl lib path sd routeScope opts seen = Inr routes"
  shows "serviceOk path sd \<and> distinct (map (rpcKey path routeScope sd) (sdRPCs sd)) \<and>
    set (map (rpcKey path routeScope sd) (sdRPCs sd)) \<inter> dom seen = {} \<and>
    dom routes = dom seen \<union> set (map (rpcKey path routeScope sd) (sdRPCs sd))"
proof -
  from assms obtain st where b: "noBraces (sdBasePath sd)" and
    f: "foldE (validateServiceRPC path sd routeScope (map (\<lambda>h. toLower (hdName h)) (sdHeaders sd)) opts) (sdRPCs sd)
      (\<lambda>_. None, seen) = Inr st" and r: "routes = snd st"
    by (auto simp: validateServiceDecl_def bindE_eq_Inr containsAny_braces split: option.splits if_splits)
  have "distinct (map (\<lambda>rd. generatedIdentifier (rdName rd)) (sdRPCs sd))"
    by (rule foldE_keys [where m = fst and val = rdName, THEN conjunct1, OF _ f]) (use validateServiceRPC_ok in blast)
  moreover have "isOk (validateRPC path rd (sdBasePath sd \<noteq> []))" if "rd \<in> set (sdRPCs sd)" for rd
    using foldE_each [OF f that] validateServiceRPC_ok by blast
  moreover have "distinct (map (rpcKey path routeScope sd) (sdRPCs sd)) \<and>
      (\<forall>rd \<in> set (sdRPCs sd). seen (rpcKey path routeScope sd rd) = None) \<and>
      dom (snd st) = dom seen \<union> rpcKey path routeScope sd ` set (sdRPCs sd)"
    by (rule foldE_keys [where m = snd and val = "\<lambda>rd. sdName sd @ ''.'' @ rdName rd", OF _ f, unfolded snd_conv])
      (use validateServiceRPC_ok in blast)
  ultimately show ?thesis using b r by (auto simp: serviceOk_def)
qed

lemma checkService_ok:
  assumes "checkService lib s opts sd st = Inr t"
  shows "serviceOk (srcPath s) sd \<and>
    distinct (serviceKeys (srcPath s) (srcAST s) sd) \<and> set (serviceKeys (srcPath s) (srcAST s) sd) \<inter> dom (snd st) = {} \<and>
    dom (snd t) = dom (snd st) \<union> set (serviceKeys (srcPath s) (srcAST s) sd)"
    and "fst st (fldPackage (srcAST s) @ ''.'' @ sdName sd) = None \<and>
      fst t = (fst st)(fldPackage (srcAST s) @ ''.'' @ sdName sd \<mapsto> srcPath s)"
proof -
  from assms obtain routes where
    v: "validateServiceDecl lib (srcPath s) sd (scopeOfService (srcAST s) sd) opts (snd st) = Inr routes" and
    n: "fst st (fldPackage (srcAST s) @ ''.'' @ sdName sd) = None" and
    t: "t = ((fst st)(fldPackage (srcAST s) @ ''.'' @ sdName sd \<mapsto> srcPath s), routes)"
    by (auto simp: checkService_def bindE_eq_Inr Let_def scopeOfService_def split: option.splits)
  from validateServiceDecl_ok [OF v] t show "serviceOk (srcPath s) sd \<and>
    distinct (serviceKeys (srcPath s) (srcAST s) sd) \<and> set (serviceKeys (srcPath s) (srcAST s) sd) \<inter> dom (snd st) = {} \<and>
    dom (snd t) = dom (snd st) \<union> set (serviceKeys (srcPath s) (srcAST s) sd)"
    unfolding serviceKeys_def by auto
  show "fst st (fldPackage (srcAST s) @ ''.'' @ sdName sd) = None \<and>
      fst t = (fst st)(fldPackage (srcAST s) @ ''.'' @ sdName sd \<mapsto> srcPath s)"
    using n t by simp
qed

definition sourceOk :: "compileOptions \<Rightarrow> source \<Rightarrow> bool" where
  "sourceOk opts s \<longleftrightarrow>
     (\<forall>m \<in> set (fldMessages (srcAST s)). messageOk opts m) \<and> (\<forall>e \<in> set (fldEnums (srcAST s)). enumOk e) \<and>
     (\<forall>sd \<in> set (fldServices (srcAST s)). serviceOk (srcPath s) sd)"

lemma checkSource_ok:
  assumes "checkSource lib opts s st = Inr t"
  shows "sourceOk opts s"
    and "distinct (sourceKeys s) \<and> set (sourceKeys s) \<inter> dom (snd st) = {} \<and> dom (snd t) = dom (snd st) \<union> set (sourceKeys s)"
    and "distinct (serviceNames s) \<and> set (serviceNames s) \<inter> dom (fst st) = {} \<and> dom (fst t) = dom (fst st) \<union> set (serviceNames s)"
proof -
  from assms have m: "checkAll (validateMessageDecl lib (srcPath s) opts) (fldMessages (srcAST s)) = passed"
      "checkAll (validateEnumDecl lib (srcPath s) opts) (fldEnums (srcAST s)) = passed"
    and f: "foldE (checkService lib s opts) (fldServices (srcAST s)) st = Inr t"
    by (auto simp: checkSource_def bindE_eq_Inr)
  show "sourceOk opts s"
    unfolding sourceOk_def
  proof (intro conjI ballI)
    show "serviceOk (srcPath s) sd" if "sd \<in> set (fldServices (srcAST s))" for sd
      using foldE_each [OF f that] checkService_ok(1) by blast
  qed (use m validateMessageDecl_ok validateEnumDecl_ok in \<open>auto simp: checkAll_passed\<close>)
  show "distinct (sourceKeys s) \<and> set (sourceKeys s) \<inter> dom (snd st) = {} \<and> dom (snd t) = dom (snd st) \<union> set (sourceKeys s)"
    unfolding sourceKeys_def
    by (rule foldE_disjoint [where m = snd, OF _ f]) (use checkService_ok(1) in blast)
  have "distinct (serviceNames s) \<and> (\<forall>sd \<in> set (fldServices (srcAST s)). fst st (fldPackage (srcAST s) @ ''.'' @ sdName sd) = None) \<and>
      dom (fst t) = dom (fst st) \<union> (\<lambda>sd. fldPackage (srcAST s) @ ''.'' @ sdName sd) ` set (fldServices (srcAST s))"
    unfolding serviceNames_def
    by (rule foldE_keys [where m = fst and val = "\<lambda>_. srcPath s", OF _ f]) (rule checkService_ok(2))
  then show "distinct (serviceNames s) \<and> set (serviceNames s) \<inter> dom (fst st) = {} \<and>
      dom (fst t) = dom (fst st) \<union> set (serviceNames s)"
    by (auto simp: serviceNames_def)
qed

lemma validateSyntax_ok:
  assumes "validateSyntax lib sources opts = passed"
  shows "\<forall>s \<in> set sources. sourceOk opts s" "distinct (concat (map sourceKeys sources))"
    "distinct (concat (map serviceNames sources))"
proof -
  from assms obtain t where f: "foldE (checkSource lib opts) sources (\<lambda>_. None, \<lambda>_. None) = Inr t"
    by (auto simp: validateSyntax_def bindE_eq_Inr)
  show "\<forall>s \<in> set sources. sourceOk opts s" using foldE_each [OF f] checkSource_ok(1) by blast
  show "distinct (concat (map sourceKeys sources))"
    by (rule foldE_disjoint [where m = snd, THEN conjunct1, OF _ f]) (rule checkSource_ok(2))
  show "distinct (concat (map serviceNames sources))"
    by (rule foldE_disjoint [where m = fst, THEN conjunct1, OF _ f]) (rule checkSource_ok(3))
qed

end
