(* ===== verification/Typing.thy ===== *)
theory Typing
  imports Checker
begin

text \<open>
  What the checker promises: it changes nothing of a tree but its annotations, its bound on the
  depth suffices, and the annotated tree of a successful check is derivable in the type system
  \<open>typed\<close>, the specification of the rule language.
\<close>

subsection \<open>Annotations\<close>

text \<open>A tree without its annotations.\<close>

fun strip :: "node \<Rightarrow> node" where
  "strip (IntLit p _ v) = IntLit p None v"
| "strip (DoubleLit p _ v) = DoubleLit p None v"
| "strip (StringLit p _ v) = StringLit p None v"
| "strip (BoolLit p _ v) = BoolLit p None v"
| "strip (ListLit p _ es) = ListLit p None (map strip es)"
| "strip (Ident p _ x) = Ident p None x"
| "strip (Select p _ x n _) = Select p None (strip x) n None"
| "strip (Index p _ x i) = Index p None (strip x) (strip i)"
| "strip (Call p _ fn args _) = Call p None fn (map strip args) []"
| "strip (Macro p _ k r v b) = Macro p None k (strip r) v (strip b)"
| "strip (Unary p _ op1 x) = Unary p None op1 (strip x)"
| "strip (Binary p _ op1 l r) = Binary p None op1 (strip l) (strip r)"
| "strip (Ternary p _ c a b) = Ternary p None (strip c) (strip a) (strip b)"

lemma strip_setType [simp]: "strip (setType t n) = strip n"
  by (cases n) auto

lemma position_strip [simp]: "position (strip n) = position n"
  by (cases n) auto

lemma height_strip [simp]: "height (strip n) = height n"
proof (induction n rule: height.induct)
  case (5 p t es)
  then have "map (height \<circ> strip) es = map height es" by simp
  then show ?case unfolding strip.simps height.simps map_map by (rule arg_cong)
next
  case (9 p t fn args re)
  then have "map (height \<circ> strip) args = map height args" by simp
  then show ?case unfolding strip.simps height.simps map_map by (rule arg_cong)
qed auto

text \<open>Only names of its values are annotated with an enum.\<close>

fun litsOk :: "schema \<Rightarrow> node \<Rightarrow> bool" where
  "litsOk S (StringLit p ot v) =
     (case ot of Some (TyEnum e) \<Rightarrow> list_ex (\<lambda>w. evName w = v) (enValues (enumAt S e)) | _ \<Rightarrow> True)"
| "litsOk S (ListLit p ot es) = list_all (litsOk S) es"
| "litsOk S (Select p ot x n f) = litsOk S x"
| "litsOk S (Index p ot x i) = (litsOk S x \<and> litsOk S i)"
| "litsOk S (Call p ot fn args re) = list_all (litsOk S) args"
| "litsOk S (Macro p ot k r v b) = (litsOk S r \<and> litsOk S b)"
| "litsOk S (Unary p ot op1 x) = litsOk S x"
| "litsOk S (Binary p ot op1 l r) = (litsOk S l \<and> litsOk S r)"
| "litsOk S (Ternary p ot c a b) = (litsOk S c \<and> litsOk S a \<and> litsOk S b)"
| "litsOk S _ = True"

lemma fresh_litsOk: "fresh P n \<Longrightarrow> litsOk S n"
  by (induction P n rule: fresh.induct) (auto simp: list_all_iff)

text \<open>\<open>n'\<close> is \<open>n\<close> with other annotations.\<close>

definition annotates :: "schema \<Rightarrow> node \<Rightarrow> node \<Rightarrow> bool" where
  "annotates S n n' \<longleftrightarrow> strip n' = strip n \<and> (litsOk S n \<longrightarrow> litsOk S n')"

definition annotatesAll :: "schema \<Rightarrow> node list \<Rightarrow> node list \<Rightarrow> bool" where
  "annotatesAll S ns ns' \<longleftrightarrow> map strip ns' = map strip ns \<and>
     (list_all (litsOk S) ns \<longrightarrow> list_all (litsOk S) ns')"

lemma annotates_refl [simp]: "annotates S n n" "annotatesAll S ns ns"
  by (simp_all add: annotates_def annotatesAll_def)

lemma annotates_trans: "annotates S a b \<Longrightarrow> annotates S b c \<Longrightarrow> annotates S a c"
  by (simp add: annotates_def)

lemma annotatesAll_ConsI: "annotates S n n' \<Longrightarrow> annotatesAll S ns ns' \<Longrightarrow> annotatesAll S (n # ns) (n' # ns')"
  by (auto simp: annotates_def annotatesAll_def)

lemma annotates_height: "annotates S n n' \<Longrightarrow> height n' = height n"
  by (metis annotates_def height_strip)

lemma annotates_position: "annotates S n n' \<Longrightarrow> position n' = position n"
  by (metis annotates_def position_strip)

text \<open>Each form of node is annotated when its parts are.\<close>

named_theorems annots

lemma annotates_forms [annots]:
  "annotatesAll S es es' \<Longrightarrow> annotates S (ListLit p ot es) (ListLit p ot' es')"
  "annotates S x x' \<Longrightarrow> annotates S (Select p ot x n f) (Select p ot' x' n f')"
  "annotates S x x' \<Longrightarrow> annotates S i i' \<Longrightarrow> annotates S (Index p ot x i) (Index p ot' x' i')"
  "annotatesAll S es es' \<Longrightarrow> annotates S (Call p ot fn es re) (Call p ot' fn es' re')"
  "annotates S x x' \<Longrightarrow> annotates S i i' \<Longrightarrow> annotates S (Macro p ot k x v i) (Macro p ot' k x' v i')"
  "annotates S x x' \<Longrightarrow> annotates S (Unary p ot op1 x) (Unary p ot' op1 x')"
  "annotates S x x' \<Longrightarrow> annotates S i i' \<Longrightarrow> annotates S (Binary p ot op1 x i) (Binary p ot' op1 x' i')"
  "annotates S c c' \<Longrightarrow> annotates S x x' \<Longrightarrow> annotates S i i' \<Longrightarrow>
     annotates S (Ternary p ot c x i) (Ternary p ot' c' x' i')"
  by (auto simp: annotates_def annotatesAll_def)

lemma annotates_setType:
  assumes "annotates S n n'" "\<And>p ot v. n' = StringLit p ot v \<Longrightarrow>
    (case t of TyEnum e \<Rightarrow> ot = Some t | _ \<Rightarrow> True)"
  shows "annotates S n (setType t n')"
  using assms by (cases n') (auto simp: annotates_def split: ty.splits)

lemma stepC_cases:
  assumes "stepC m f g = (n, r)"
  obtains x e where "m = (x, Inl e)" "n = f x" "r = Inl e"
    | x a where "m = (x, Inr a)" "g x a = (n, r)"
  using assms by (cases m; cases "snd m") (auto simp: stepC_def)

text \<open>The contract of the recursive calls: a check only annotates.\<close>

locale annotator =
  fixes S :: schema and chk :: checkFn
  assumes ann: "chk scope n = (n', r) \<Longrightarrow> annotates S n n'"
begin

lemma checkElems_ann: "checkElems (chk scope) first es = (es', r) \<Longrightarrow> annotatesAll S es es'"
proof (induction es arbitrary: es' r)
  case (Cons e es)
  from Cons.prems show ?case
    by (auto elim!: stepC_cases split: if_splits dest!: ann Cons.IH intro!: annotatesAll_ConsI)
qed simp

lemma checkArgs_ann: "checkArgs (chk scope) es = (es', r) \<Longrightarrow> annotatesAll S es es'"
proof (induction es arbitrary: es' r)
  case (Cons e es)
  from Cons.prems show ?case
    by (auto elim!: stepC_cases split: if_splits dest!: ann Cons.IH intro!: annotatesAll_ConsI)
qed simp

lemma inferList_ann: "inferList (chk scope) p ot es = (n, r) \<Longrightarrow> annotates S (ListLit p ot es) n"
  by (cases es) (auto simp: inferList_def elim!: stepC_cases dest!: ann checkElems_ann intro!: annots annotatesAll_ConsI)

lemma inferSelect_ann:
  "inferSelect S (chk scope) p ot x name fld = (n, r) \<Longrightarrow> annotates S (Select p ot x name fld) n"
  by (auto simp: inferSelect_def elim!: stepC_cases dest!: ann intro!: annots
    split: ty.splits option.splits sum.splits)

lemma inferIndex_ann: "inferIndex (chk scope) p ot x i = (n, r) \<Longrightarrow> annotates S (Index p ot x i) n"
  by (auto simp: inferIndex_def elim!: stepC_cases dest!: ann intro!: annots)

lemma inferCall_ann: "inferCall (chk scope) p ot fn args re = (n, r) \<Longrightarrow> annotates S (Call p ot fn args re) n"
  by (auto simp: inferCall_def elim!: stepC_cases dest!: checkArgs_ann intro!: annots split: sum.splits)

lemma inferMacro_ann: "inferMacro chk scope p ot k x v b = (n, r) \<Longrightarrow> annotates S (Macro p ot k x v b) n"
  by (auto simp: inferMacro_def elim!: stepC_cases dest!: ann intro!: annots split: ty.splits)

lemma inferUnary_ann: "inferUnary (chk scope) p ot op1 x = (n, r) \<Longrightarrow> annotates S (Unary p ot op1 x) n"
  by (auto simp: inferUnary_def elim!: stepC_cases dest!: ann intro!: annots)

lemma inferTernary_ann: "inferTernary (chk scope) p ot c a b = (n, r) \<Longrightarrow> annotates S (Ternary p ot c a b) n"
  by (auto simp: inferTernary_def elim!: stepC_cases dest!: ann intro!: annots split: if_splits)

lemma enumLiteral_ann: "enumLiteral S p ot v e = (n, r) \<Longrightarrow> annotates S (StringLit p ot v) n"
  by (auto simp: enumLiteral_def annotates_def split: if_splits)

lemma enumMembers_ann: "enumMembers S e es = (es', r) \<Longrightarrow> annotatesAll S es es'"
proof (induction es arbitrary: es' r)
  case (Cons n es)
  from Cons.prems show ?case
    by (cases n) (auto elim!: stepC_cases dest!: enumLiteral_ann Cons.IH intro!: annotatesAll_ConsI)
qed simp

lemma inferIn_ann:
  assumes "inferIn S (chk scope) p t n = (n', r)"
  shows "annotates S n n'"
proof (cases "\<exists>lp lt es e. n = ListLit lp lt es \<and> t = TyEnum e")
  case True
  then show ?thesis using assms
    by (auto simp: inferIn_def Let_def elim!: stepC_cases dest!: enumMembers_ann intro!: annots)
next
  case False
  then have "stepC (chk scope n) (\<lambda>r'. r') (\<lambda>r' tr. (r', inferContainer p t tr)) = (n', r)"
    using assms by (auto simp: inferIn_def Let_def split: node.splits ty.splits)
  then show ?thesis by (auto elim!: stepC_cases dest: ann)
qed

lemma enumRight_ann: "enumRight S t n = (n', r) \<Longrightarrow> annotates S n n'"
  by (cases n) (auto simp: enumRight_def split: ty.splits dest: enumLiteral_ann)

lemma enumLeft_ann: "enumLeft S (chk scope) l r = ((l', r'), res) \<Longrightarrow> annotates S l l' \<and> annotates S r r'"
  by (cases l) (auto simp: enumLeft_def elim!: stepC_cases split: prod.splits sum.splits ty.splits
    dest!: enumLiteral_ann dest: ann)

lemma inferBinary_ann:
  assumes "inferBinary S (chk scope) p ot op1 l r = (n, res)"
  shows "annotates S (Binary p ot op1 l r) n"
proof -
  note right = enumRight_ann and left = enumLeft_ann
  have last: "annotates S (Binary p ot op1 l r) n"
    if "annotates S l l2" "annotates S r r2"
      "stepC (chk scope r2) (\<lambda>r'. Binary p ot op1 l2 r') (\<lambda>r3 tr.
         (Binary p ot op1 l2 r3, inferOperator p op1 (typeOf l2) tr)) = (n, res)" for l2 r2
    using that(3) by (elim stepC_cases)
      (use that(1,2) in \<open>auto dest!: ann intro!: annots intro: annotates_trans\<close>)
  have mid: "annotates S (Binary p ot op1 l r) n"
    if l1: "annotates S l l1" and r1: "annotates S r r1"
      and st: "stepC (if isEqualityOp op1 then enumLeft S (chk scope) l1 r1 else ((l1, r1), Inr ()))
           (\<lambda>(l', r'). Binary p ot op1 l' r') (\<lambda>(l2, r2) _.
         stepC (chk scope r2) (\<lambda>r'. Binary p ot op1 l2 r') (\<lambda>r3 tr.
           (Binary p ot op1 l2 r3, inferOperator p op1 (typeOf l2) tr))) = (n, res)" for l1 r1
  proof -
    have lr: "annotates S l l2 \<and> annotates S r r2"
      if "(if isEqualityOp op1 then enumLeft S (chk scope) l1 r1 else ((l1, r1), Inr ())) = ((l2, r2), u)"
      for l2 r2 and u :: "xerror + unit"
      using that left [of scope l1 r1 l2 r2 u] l1 r1 by (auto split: if_splits intro: annotates_trans)
    from st show ?thesis
    proof (cases rule: stepC_cases)
      case (1 q e)
      then show ?thesis using lr [of "fst q" "snd q" "Inl e"] by (auto intro!: annots split: prod.splits)
    next
      case (2 q u)
      then show ?thesis using lr [of "fst q" "snd q" "Inr u"] last [of "fst q" "snd q"]
        by (auto split: prod.splits)
    qed
  qed
  from assms show ?thesis unfolding inferBinary_def
  proof (cases rule: stepC_cases)
    case (1 l1 e)
    then show ?thesis using ann by (auto intro!: annots)
  next
    case (2 l1 t)
    have l1: "annotates S l l1" using ann 2(1) by blast
    show ?thesis
    proof (cases "op1 = ''in''")
      case True
      then show ?thesis using 2(2) l1 by (auto intro!: annots dest!: inferIn_ann split: prod.splits)
    next
      case False
      then have "stepC (if isEqualityOp op1 then enumRight S t r else (r, Inr ()))
           (\<lambda>r'. Binary p ot op1 l1 r') (\<lambda>r1 _.
         stepC (if isEqualityOp op1 then enumLeft S (chk scope) l1 r1 else ((l1, r1), Inr ()))
           (\<lambda>(l', r'). Binary p ot op1 l' r') (\<lambda>(l2, r2) _.
         stepC (chk scope r2) (\<lambda>r'. Binary p ot op1 l2 r') (\<lambda>r3 tr.
           (Binary p ot op1 l2 r3, inferOperator p op1 (typeOf l2) tr)))) = (n, res)"
        using 2(2) by simp
      then show ?thesis
      proof (cases rule: stepC_cases)
        case (1 r1 e)
        then show ?thesis using l1 by (auto intro!: annots dest!: right split: if_splits)
      next
        case (2 r1 u)
        then have "annotates S r r1" by (auto dest!: right split: if_splits)
        from mid [OF l1 this 2(2)] show ?thesis .
      qed
    qed
  qed
qed

lemma infer_ann: "infer S env chk scope n = (n', r) \<Longrightarrow> annotates S n n'"
  by (cases n) (auto simp: infer_def inferList_ann inferSelect_ann inferIndex_ann inferCall_ann
    inferMacro_ann inferUnary_ann inferBinary_ann inferTernary_ann)

end

lemma checkD_ann: "checkD S env k scope n = (n', r) \<Longrightarrow> annotates S n n'"
proof (induction k arbitrary: scope n n' r)
  case (Suc k)
  have rec: "annotator S (checkD S env k)" by unfold_locales (rule Suc.IH)
  obtain m res where m: "infer S env (checkD S env k) scope n = (m, res)" by fastforce
  have nm: "annotates S n m" by (rule annotator.infer_ann [OF rec m])
  show ?case
  proof (cases res)
    case (Inr t)
    have "case t of TyEnum e \<Rightarrow> ot = Some t | _ \<Rightarrow> True" if sl: "m = StringLit p ot v" for p ot v
    proof -
      have "\<exists>q. n = StringLit p q v"
        using nm sl unfolding annotates_def by (cases n) auto
      then show ?thesis using m Inr sl by (auto simp: infer_def split: option.splits ty.splits)
    qed
    from annotates_setType [OF nm this] Suc.prems m Inr show ?thesis by simp
  qed (use Suc.prems m nm in simp)
qed simp

interpretation checked: annotator S "checkD S env k" for S env k
  by unfold_locales (rule checkD_ann)

subsection \<open>The bound on the depth\<close>

fun noBound :: "xerror + 'a \<Rightarrow> bool" where
  "noBound (Inl e) = (eMsg e \<noteq> CheckMsg CheckBound)"
| "noBound (Inr x) = True"

lemma noBound_bind: "noBound m \<Longrightarrow> (\<And>x. noBound (f x)) \<Longrightarrow> noBound (bindE m f)"
  by (cases m) auto

lemma noBound_if [simp]: "noBound (if c then a else b) = (if c then noBound a else noBound b)"
  by simp

locale bounded_checker = annotator +
  fixes h :: nat
  assumes bounded: "height n \<le> h \<Longrightarrow> noBound (snd (chk scope n))"
begin

lemma bounded_eq: "chk scope n = (n', r) \<Longrightarrow> height n \<le> h \<Longrightarrow> noBound r"
  using bounded [of n scope] by simp

lemma noBound_sum: "noBound (Inl e) \<longleftrightarrow> eMsg e \<noteq> CheckMsg CheckBound" by simp

lemma checkElems_bounded:
  "checkElems (chk scope) first es = (es', r) \<Longrightarrow> \<forall>e \<in> set es. height e \<le> h \<Longrightarrow> noBound r"
proof (induction es arbitrary: es' r)
  case (Cons e es)
  from Cons.prems show ?case
    by (auto elim!: stepC_cases split: if_splits dest: bounded_eq Cons.IH)
qed simp

lemma checkArgs_bounded:
  "checkArgs (chk scope) es = (es', r) \<Longrightarrow> \<forall>e \<in> set es. height e \<le> h \<Longrightarrow> noBound r"
proof (induction es arbitrary: es' r)
  case (Cons e es)
  from Cons.prems show ?case by (auto elim!: stepC_cases dest: bounded_eq Cons.IH)
qed simp

lemma allStrings_bounded: "noBound (allStrings fn xs)"
  by (induction fn xs rule: allStrings.induct) auto

lemma arity_bounded: "noBound (arity p fn n k)"
  by (simp add: arity_def)

lemma inferMatches_bounded: "noBound (inferMatches p args ts)"
  unfolding inferMatches_def
  by (rule noBound_bind [OF arity_bounded]) (simp split: node.split sum.split)

lemma inferFn_bounded: "noBound (inferFn p fn args ts re)"
  by (simp add: inferFn_def noBound_bind arity_bounded inferMatches_bounded allStrings_bounded
    split: ty.split)

lemma inferFn_Inl: "inferFn p fn args ts re = Inl e \<Longrightarrow> eMsg e \<noteq> CheckMsg CheckBound"
  using inferFn_bounded [of p fn args ts re] by simp

lemma enumMembers_bounded: "enumMembers S e es = (es', r) \<Longrightarrow> noBound r"
proof (induction es arbitrary: es' r)
  case (Cons n es)
  from Cons.prems show ?case
    by (cases n) (auto elim!: stepC_cases simp: enumLiteral_def dest: Cons.IH split: if_splits)
qed simp

lemma inferOperator_bounded: "noBound (inferOperator p op1 l r)"
  by (simp add: inferOperator_def inferEquality_def)

lemma inferContainer_bounded: "noBound (inferContainer p l r)"
  by (auto simp: inferContainer_def split: ty.split)

lemma inferIn_bounded: "inferIn S (chk scope) p t n = (n', r) \<Longrightarrow> height n \<le> h \<Longrightarrow> noBound r"
proof (cases "\<exists>lp lt es e. n = ListLit lp lt es \<and> t = TyEnum e")
  case True
  moreover assume "inferIn S (chk scope) p t n = (n', r)"
  ultimately show ?thesis
    by (auto simp: inferIn_def Let_def elim!: stepC_cases dest!: enumMembers_bounded)
next
  case False
  moreover assume "inferIn S (chk scope) p t n = (n', r)" "height n \<le> h"
  ultimately have "stepC (chk scope n) (\<lambda>r'. r') (\<lambda>r' tr. (r', inferContainer p t tr)) = (n', r)"
    by (auto simp: inferIn_def Let_def split: node.splits ty.splits)
  then show ?thesis using \<open>height n \<le> h\<close>
    by (auto elim!: stepC_cases dest: bounded_eq intro: inferContainer_bounded)
qed

lemma inferBinary_bounded:
  assumes "inferBinary S (chk scope) p ot op1 l r = (n', res)" "height l \<le> h" "height r \<le> h"
  shows "noBound res"
proof -
  have right: "noBound q" if "enumRight S t r = (r', q)" for t r' q
    using that by (auto simp: enumRight_def enumLiteral_def split: node.splits ty.splits if_splits)
  have left: "noBound q" if "enumLeft S (chk scope) l1 r1 = (lr, q)" for l1 r1 lr q
    using that by (auto simp: enumLeft_def enumLiteral_def elim!: stepC_cases
      split: node.splits ty.splits if_splits prod.splits sum.splits)
  have hr: "height r2 \<le> h" if "(if isEqualityOp op1 then enumRight S t r else (r, Inr ())) = (r1, q)"
    "(if isEqualityOp op1 then enumLeft S (chk scope) l1 r1 else ((l1, r1), Inr ())) = ((l2, r2), u)"
    for l1 l2 r1 r2 t q u
    using that assms(3) enumRight_ann [of t r r1 q] enumLeft_ann [of scope l1 r1 l2 r2 u]
    by (auto dest!: annotates_height split: if_splits)
  from assms(1) show ?thesis unfolding inferBinary_def
  proof (cases rule: stepC_cases)
    case (2 l1 t)
    then show ?thesis
      using assms(3) inferOperator_bounded
      by (auto elim!: stepC_cases split: if_splits prod.splits
        dest: bounded_eq [OF _ hr] inferIn_bounded right left)
  qed (use assms(2) in \<open>auto dest: bounded_eq\<close>)
qed

lemma infer_bounded:
  assumes "height n \<le> Suc h"
  shows "noBound (snd (infer S env chk scope n))"
proof -
  obtain n' r where r: "infer S env chk scope n = (n', r)" by fastforce
  have el: "\<forall>e \<in> set es. height e \<le> h" if "fold max (map height es) 0 \<le> h" for es
    using height_elem [of _ es] that order_trans by blast
  have "noBound r"
  proof (cases n)
    case (ListLit p ot es)
    then show ?thesis using r assms el [of es]
      by (cases es) (auto simp: infer_def inferList_def elim!: stepC_cases
        dest: bounded_eq checkElems_bounded split: ty.splits)
  next
    case (Call p ot fn args re)
    then show ?thesis using r assms el [of args]
      by (auto simp: infer_def inferCall_def elim!: stepC_cases
        dest: checkArgs_bounded dest!: inferFn_Inl split: sum.splits)
  next
    case (Binary p ot op1 a b)
    then show ?thesis using r assms by (auto simp: infer_def dest: inferBinary_bounded)
  next
    case (Select p ot x name fld)
    then show ?thesis using r assms
      by (auto simp: infer_def inferSelect_def elim!: stepC_cases dest: bounded_eq
        split: ty.splits option.splits sum.splits)
  next
    case (Macro p ot k x v b)
    then show ?thesis using r assms
      by (auto simp: infer_def inferMacro_def elim!: stepC_cases dest: bounded_eq split: ty.splits)
  qed (use r assms in \<open>auto simp: infer_def inferIndex_def inferUnary_def inferTernary_def
      elim!: stepC_cases dest: bounded_eq split: ty.splits option.splits if_splits\<close>)
  with r show ?thesis by simp
qed

end

lemma checkD_bounded: "height n < k \<Longrightarrow> noBound (snd (checkD S env k scope n))"
proof (induction k arbitrary: scope n)
  case (Suc k)
  show ?case
  proof (cases k)
    case 0
    then have "height n = 0" using Suc.prems by simp
    then have "noBound (snd (infer S env (checkD S env 0) scope n))"
      by (cases n) (auto simp: infer_def split: option.splits)
    then show ?thesis using 0 by (cases "infer S env (checkD S env 0) scope n"; cases "snd (infer S env (checkD S env 0) scope n)") auto
  next
    case (Suc h)
    have rec: "bounded_checker S (checkD S env k) h"
      by unfold_locales (use checkD_ann Suc.IH Suc in auto)
    have "noBound (snd (infer S env (checkD S env k) scope n))"
      by (rule bounded_checker.infer_bounded [OF rec]) (use Suc.prems Suc in simp)
    then show ?thesis
      by (cases "infer S env (checkD S env k) scope n"; cases "snd (infer S env (checkD S env k) scope n)") auto
  qed
qed simp

interpretation checked: bounded_checker S "checkD S env (Suc h)" h for S env h
  by unfold_locales (rule checkD_bounded, simp)

subsection \<open>The type system\<close>

definition isElemTy :: "ty \<Rightarrow> bool" where
  "isElemTy t \<longleftrightarrow> isBasicTy t \<or> t = TyBytes"

definition isSizedTy :: "ty \<Rightarrow> bool" where
  "isSizedTy t \<longleftrightarrow> t = TyString \<or> t = TyBytes \<or> (\<exists>u. t = TyList u \<or> t = TyMap u)"

definition enumMember :: "schema \<Rightarrow> eref \<Rightarrow> string \<Rightarrow> bool" where
  "enumMember S e v \<longleftrightarrow> list_ex (\<lambda>w. evName w = v) (enValues (enumAt S e))"

type_synonym tyContext = "string \<Rightarrow> ty option"

inductive typed :: "schema \<Rightarrow> tyContext \<Rightarrow> node \<Rightarrow> ty \<Rightarrow> bool" for S where
  T_Int: "typed S G (IntLit p (Some TyInt) v) TyInt"
| T_Double: "typed S G (DoubleLit p (Some TyDouble) w) TyDouble"
| T_String: "typed S G (StringLit p (Some TyString) s) TyString"
| T_Enum: "enumMember S e s \<Longrightarrow> typed S G (StringLit p (Some (TyEnum e)) s) (TyEnum e)"
| T_Bool: "typed S G (BoolLit p (Some TyBool) b) TyBool"
| T_List: "\<forall>x \<in> set es. typed S G x t \<Longrightarrow> isElemTy t \<Longrightarrow>
    typed S G (ListLit p (Some (TyList t)) es) (TyList t)"
| T_Ident: "G x = Some t \<Longrightarrow> typed S G (Ident p (Some t) x) t"
| T_Select: "typed S G x (TyMessage m) \<Longrightarrow> find (\<lambda>f. fName f = name) (mFields (msgAt S m)) = Some f \<Longrightarrow>
    fieldType f = Inr t \<Longrightarrow> typed S G (Select p (Some t) x name (Some f)) t"
| T_IndexList: "typed S G x (TyList t) \<Longrightarrow> typed S G i TyInt \<Longrightarrow> typed S G (Index p (Some t) x i) t"
| T_IndexMap: "typed S G x (TyMap t) \<Longrightarrow> typed S G i TyString \<Longrightarrow> typed S G (Index p (Some t) x i) t"
| T_Size: "typed S G x t \<Longrightarrow> isSizedTy t \<Longrightarrow> typed S G (Call p (Some TyInt) ''size'' [x] re) TyInt"
| T_Has: "typed S G x (TyMessage m) \<Longrightarrow> find (\<lambda>f. fName f = name) (mFields (msgAt S m)) = Some f \<Longrightarrow>
    fieldType f = Inr t \<Longrightarrow>
    typed S G (Call p (Some TyBool) ''has'' [Select q (Some t) x name (Some f)] re) TyBool"
| T_ToInt: "typed S G x t \<Longrightarrow> isNumTy t \<Longrightarrow> typed S G (Call p (Some TyInt) ''int'' [x] re) TyInt"
| T_ToDouble: "typed S G x t \<Longrightarrow> isNumTy t \<Longrightarrow> typed S G (Call p (Some TyDouble) ''double'' [x] re) TyDouble"
| T_StringFn: "fn = ''startsWith'' \<or> fn = ''endsWith'' \<or> fn = ''contains'' \<Longrightarrow> typed S G x TyString \<Longrightarrow>
    typed S G y TyString \<Longrightarrow> typed S G (Call p (Some TyBool) fn [x, y] re) TyBool"
| T_Matches: "typed S G x TyString \<Longrightarrow> validateRegex re = Inr () \<Longrightarrow>
    typed S G (Call p (Some TyBool) ''matches'' [x, StringLit q ot re] re) TyBool"
| T_Macro: "typed S G x (TyList t) \<Longrightarrow> typed S (G(v \<mapsto> t)) b TyBool \<Longrightarrow>
    typed S G (Macro p (Some TyBool) k x v b) TyBool"
| T_Not: "typed S G x TyBool \<Longrightarrow> typed S G (Unary p (Some TyBool) ''!'' x) TyBool"
| T_Neg: "typed S G x t \<Longrightarrow> isNumTy t \<Longrightarrow> op1 \<noteq> ''!'' \<Longrightarrow> typed S G (Unary p (Some t) op1 x) t"
| T_Logic: "op1 = ''&&'' \<or> op1 = ''||'' \<Longrightarrow> typed S G l TyBool \<Longrightarrow> typed S G r TyBool \<Longrightarrow>
    typed S G (Binary p (Some TyBool) op1 l r) TyBool"
| T_Equal: "op1 = ''=='' \<or> op1 = ''!='' \<Longrightarrow> typed S G l t \<Longrightarrow> typed S G r t \<Longrightarrow> isBasicTy t \<Longrightarrow>
    typed S G (Binary p (Some TyBool) op1 l r) TyBool"
| T_Order: "op1 = ''<'' \<or> op1 = ''<='' \<or> op1 = ''>'' \<or> op1 = ''>='' \<Longrightarrow> typed S G l t \<Longrightarrow>
    typed S G r t \<Longrightarrow> isNumTy t \<Longrightarrow> typed S G (Binary p (Some TyBool) op1 l r) TyBool"
| T_Arith: "op1 = ''+'' \<or> op1 = ''-'' \<or> op1 = ''*'' \<or> op1 = ''/'' \<Longrightarrow> typed S G l t \<Longrightarrow>
    typed S G r t \<Longrightarrow> isNumTy t \<Longrightarrow> typed S G (Binary p (Some t) op1 l r) t"
| T_Mod: "typed S G l TyInt \<Longrightarrow> typed S G r TyInt \<Longrightarrow> typed S G (Binary p (Some TyInt) ''%'' l r) TyInt"
| T_InList: "typed S G l t \<Longrightarrow> typed S G r (TyList t) \<Longrightarrow> isBasicTy t \<Longrightarrow>
    typed S G (Binary p (Some TyBool) ''in'' l r) TyBool"
| T_InMap: "typed S G l TyString \<Longrightarrow> typed S G r (TyMap t) \<Longrightarrow>
    typed S G (Binary p (Some TyBool) ''in'' l r) TyBool"
| T_Cond: "typed S G c TyBool \<Longrightarrow> typed S G a t \<Longrightarrow> typed S G b t \<Longrightarrow> isBasicTy t \<Longrightarrow>
    typed S G (Ternary p (Some t) c a b) t"

lemmas T_Enum_ex = T_Enum [unfolded enumMember_def]

inductive_cases typed_SelectE: "typed S G (Select p ot x name fld) t"

lemma typed_nodeType: "typed S G n t \<Longrightarrow> nodeType n = Some t"
  by (induction rule: typed.cases) auto

lemma typed_unique: "typed S G n t \<Longrightarrow> typed S G' n u \<Longrightarrow> t = u"
  by (metis typed_nodeType option.inject)

lemma typeOf_typed: "typed S G n t \<Longrightarrow> typeOf n = t"
  by (simp add: typeOf_def typed_nodeType)

lemma lookupName_Nil: "lookupName env [] = map_of env"
  by (auto simp: lookupName_def)

lemma lookupName_bind: "lookupName env ((v, t) # scope) = (lookupName env scope)(v \<mapsto> t)"
  by (auto simp: lookupName_def)

text \<open>The contract of the recursive calls: a successful check ends in a well-typed tree.\<close>

locale typing_checker = annotator +
  fixes env :: tenv
  assumes typing: "chk scope n = (n', Inr t) \<Longrightarrow> litsOk S n \<Longrightarrow> typed S (lookupName env scope) n' t"
begin

lemma checkElems_typed:
  "checkElems (chk scope) first es = (es', Inr u) \<Longrightarrow> list_all (litsOk S) es \<Longrightarrow>
    \<forall>x \<in> set es'. typed S (lookupName env scope) x first"
proof (induction es arbitrary: es' u)
  case (Cons e es)
  then show ?case
    by (auto elim!: stepC_cases split: if_splits dest!: typing Cons.IH)
qed simp

lemma inferList_typed:
  assumes "inferList (chk scope) p ot es = (n, Inr t)" "list_all (litsOk S) es"
  shows "typed S (lookupName env scope) (setType t n) t"
proof -
  obtain e rest e' rest' u first where e: "es = e # rest" "chk scope e = (e', Inr first)"
    "checkElems (chk scope) first rest = (rest', Inr u)" "n = ListLit p ot (e' # rest')"
    "t = TyList first" "isElemTy first"
    using assms(1) by (cases es) (auto simp: inferList_def isElemTy_def isBasicTy_def isEnumTy_def
      elim!: stepC_cases split: ty.splits)
  then show ?thesis using assms(2) typing [OF e(2)] checkElems_typed [OF e(3)]
    by (auto intro!: T_List)
qed

lemma inferSelect_typed:
  assumes "inferSelect S (chk scope) p ot x name fld = (n, Inr t)" "litsOk S x"
  shows "typed S (lookupName env scope) (setType t n) t"
  using assms by (auto simp: inferSelect_def elim!: stepC_cases dest!: typing intro!: T_Select
    split: ty.splits option.splits sum.splits)

lemma inferIndex_typed:
  assumes "inferIndex (chk scope) p ot x i = (n, Inr t)" "litsOk S x" "litsOk S i"
  shows "typed S (lookupName env scope) (setType t n) t"
  using assms by (auto simp: inferIndex_def elim!: stepC_cases dest!: typing
    intro: T_IndexList T_IndexMap split: ty.splits if_splits)

lemma checkArgs_typed:
  "checkArgs (chk scope) es = (es', Inr ts) \<Longrightarrow> list_all (litsOk S) es \<Longrightarrow>
    list_all2 (typed S (lookupName env scope)) es' ts"
proof (induction es arbitrary: es' ts)
  case (Cons e es)
  then show ?case by (auto elim!: stepC_cases dest!: typing Cons.IH)
qed simp

lemma arity_Inr: "arity p fn n k = Inr u \<longleftrightarrow> n = k"
  by (simp add: arity_def)

lemma allStrings_Inr: "allStrings fn xs = Inr u \<longleftrightarrow> (\<forall>(a, t) \<in> set xs. t = TyString)"
  by (induction fn xs rule: allStrings.induct) auto

lemma one_arg:
  assumes "list_all2 P args ts" "length args = 1"
  obtains x t where "args = [x]" "ts = [t]" "P x t"
  using assms by (cases args; cases ts) auto

lemma two_args:
  assumes "list_all2 P args ts" "length args = 2"
  obtains x t y u where "args = [x, y]" "ts = [t, u]" "P x t" "P y u"
proof -
  obtain x y where a: "args = [x, y]" using assms(2) by (auto simp: length_Suc_conv numeral_2_eq_2)
  with assms(1) show thesis by (auto simp: list_all2_Cons1 intro: that)
qed

lemma inferFn_typed:
  assumes args: "list_all2 (typed S G) args ts" and f: "inferFn p fn args ts re = Inr (re', t)"
  shows "typed S G (Call p (Some t) fn args re') t"
proof -
  consider (one) "length args = 1" "fn = ''size'' \<or> fn = ''has'' \<or> fn = ''int'' \<or> fn = ''double''"
    | (two) "length args = 2" "fn = ''startsWith'' \<or> fn = ''endsWith'' \<or> fn = ''contains''"
    | (matches) "length args = 2" "fn = ''matches''"
    using f by (auto simp: inferFn_def inferMatches_def bindE_eq_Inr arity_Inr split: if_splits)
  then show ?thesis
  proof cases
    case one
    with args obtain x u where x: "args = [x]" "ts = [u]" "typed S G x u" by (auto elim: one_arg)
    from one(2) f x show ?thesis
      by (elim disjE) (auto simp: inferFn_def bindE_eq_Inr isResolvedSelect_def isSizedTy_def
        intro: T_Size T_Has T_ToInt T_ToDouble elim!: typed_SelectE split: ty.splits if_splits node.splits option.splits)
  next
    case two
    with args obtain x u y w where x: "args = [x, y]" "ts = [u, w]" "typed S G x u" "typed S G y w"
      by (auto elim: two_args)
    have "t = TyBool \<and> u = TyString \<and> w = TyString"
      using two(2) f x by (elim disjE) (auto simp: inferFn_def bindE_eq_Inr split: if_splits)
    then show ?thesis using x two(2) by (auto intro: T_StringFn)
  next
    case matches
    with args obtain x u y w where x: "args = [x, y]" "ts = [u, w]" "typed S G x u" "typed S G y w"
      by (auto elim: two_args)
    have "t = TyBool \<and> u = TyString \<and> validateRegex re' = Inr () \<and> (\<exists>q ot. y = StringLit q ot re')"
      using matches(2) f x by (auto simp: inferFn_def inferMatches_def bindE_eq_Inr
        split: node.splits sum.splits if_splits)
    then show ?thesis using x matches(2) by (auto intro: T_Matches)
  qed
qed

lemma inferCall_typed:
  assumes "inferCall (chk scope) p ot fn args re = (n, Inr t)" "list_all (litsOk S) args"
  shows "typed S (lookupName env scope) (setType t n) t"
  using assms by (auto simp: inferCall_def elim!: stepC_cases dest!: checkArgs_typed intro!: inferFn_typed
    split: sum.splits)

lemma inferMacro_typed:
  assumes "inferMacro chk scope p ot k x v b = (n, Inr t)" "litsOk S x" "litsOk S b"
  shows "typed S (lookupName env scope) (setType t n) t"
  using assms by (auto simp: inferMacro_def lookupName_bind elim!: stepC_cases dest!: typing
    intro!: T_Macro split: ty.splits if_splits)

lemma inferUnary_typed:
  assumes "inferUnary (chk scope) p ot op1 x = (n, Inr t)" "litsOk S x"
  shows "typed S (lookupName env scope) (setType t n) t"
  using assms by (auto simp: inferUnary_def elim!: stepC_cases dest!: typing
    intro: T_Not T_Neg split: if_splits)

lemma inferTernary_typed:
  assumes "inferTernary (chk scope) p ot c a b = (n, Inr t)" "litsOk S c" "litsOk S a" "litsOk S b"
  shows "typed S (lookupName env scope) (setType t n) t"
  using assms by (auto simp: inferTernary_def elim!: stepC_cases dest!: typing
    intro!: T_Cond split: if_splits)

lemma enumMembers_typed:
  "enumMembers S e es = (es', Inr u) \<Longrightarrow> \<forall>x \<in> set es'. typed S G x (TyEnum e)"
proof (induction es arbitrary: es' u)
  case (Cons n es)
  from Cons.prems obtain p ot v where n: "n = StringLit p ot v" by (cases n) auto
  from Cons.prems Cons.IH show ?case unfolding n
    by (auto elim!: stepC_cases simp: enumLiteral_def intro: T_Enum_ex split: if_splits)
qed simp

lemma inferIn_typed:
  assumes r: "inferIn S (chk scope) p tl1 r = (r', Inr t)" "litsOk S r"
    and l: "typed S (lookupName env scope) l tl1"
  shows "typed S (lookupName env scope) (Binary p (Some t) ''in'' l r') t"
proof (cases "\<exists>lp lt es e. r = ListLit lp lt es \<and> tl1 = TyEnum e")
  case True
  then obtain lp es' e u es where "tl1 = TyEnum e" "enumMembers S e es = (es', Inr u)"
    "r' = ListLit lp (Some (TyList (TyEnum e))) es'" "t = TyBool"
    using r(1) by (auto simp: inferIn_def Let_def elim!: stepC_cases)
  with l enumMembers_typed show ?thesis
    by (auto intro!: T_InList [of S _ _ "TyEnum e"] T_List simp: isBasicTy_def isElemTy_def isEnumTy_def)
next
  case False
  then have "stepC (chk scope r) (\<lambda>r'. r') (\<lambda>r' tr. (r', inferContainer p tl1 tr)) = (r', Inr t)"
    using r(1) by (auto simp: inferIn_def Let_def split: node.splits ty.splits)
  then show ?thesis using l r(2)
    by (auto simp: inferContainer_def elim!: stepC_cases dest!: typing intro: T_InList T_InMap
      split: ty.splits if_splits)
qed

lemma inferOperator_typed:
  assumes "inferOperator p op1 tl1 tr = Inr t" "typed S G l tl1" "typed S G r tr"
  shows "typed S G (Binary p (Some t) op1 l r) t"
proof -
  consider "isEqualityOp op1" | "op1 = ''&&'' \<or> op1 = ''||''"
    | "op1 = ''<'' \<or> op1 = ''<='' \<or> op1 = ''>'' \<or> op1 = ''>=''"
    | "op1 = ''+'' \<or> op1 = ''-'' \<or> op1 = ''*'' \<or> op1 = ''/''" | "op1 = ''%''"
    using assms(1) by (auto simp: inferOperator_def split: if_splits)
  then show ?thesis
  proof cases
    case 1
    then have "t = TyBool \<and> tl1 = tr \<and> isBasicTy tr"
      using assms(1) by (auto simp: inferOperator_def inferEquality_def split: if_splits)
    then show ?thesis using 1 assms(2,3) by (auto simp: isEqualityOp_def intro: T_Equal)
  next
    case 2
    then have "t = TyBool \<and> tl1 = TyBool \<and> tr = TyBool"
      using assms(1) by (auto simp: inferOperator_def isEqualityOp_def split: if_splits)
    then show ?thesis using 2 assms(2,3) by (auto intro: T_Logic)
  next
    case 3
    then have "t = TyBool \<and> tl1 = tr \<and> isNumTy tr"
      using assms(1) by (auto simp: inferOperator_def isEqualityOp_def split: if_splits)
    then show ?thesis using 3 assms(2,3) by (auto intro: T_Order)
  next
    case 4
    then have "t = tr \<and> tl1 = tr \<and> isNumTy tr"
      using assms(1) by (auto simp: inferOperator_def isEqualityOp_def split: if_splits)
    then show ?thesis using 4 assms(2,3) by (auto intro: T_Arith)
  next
    case 5
    then have "t = TyInt \<and> tl1 = TyInt \<and> tr = TyInt"
      using assms(1) by (auto simp: inferOperator_def isEqualityOp_def split: if_splits)
    then show ?thesis using 5 assms(2,3) by (auto intro: T_Mod)
  qed
qed

lemma enumLeft_typed:
  assumes "enumLeft S (chk scope) l r = ((l', r'), Inr u)" "typed S G l tl1"
  shows "\<exists>t. typed S G l' t"
  using assms by (auto simp: enumLeft_def enumLiteral_def elim!: stepC_cases
    split: node.splits prod.splits sum.splits ty.splits if_splits intro: T_Enum_ex)

lemma inferBinary_typed:
  assumes b: "inferBinary S (chk scope) p ot op1 l r = (n, Inr t)" and l: "litsOk S l" and r: "litsOk S r"
  shows "typed S (lookupName env scope) (setType t n) t"
proof -
  let ?G = "lookupName env scope"
  obtain l1 tl1 where l1: "chk scope l = (l1, Inr tl1)"
    using b unfolding inferBinary_def by (auto elim!: stepC_cases)
  have tl1: "typed S ?G l1 tl1" by (rule typing [OF l1 l])
  show ?thesis
  proof (cases "op1 = ''in''")
    case True
    then obtain r' where "inferIn S (chk scope) p tl1 r = (r', Inr t)" "n = Binary p ot op1 l1 r'"
      using b l1 unfolding inferBinary_def by (auto split: prod.splits)
    with inferIn_typed [OF this(1) r tl1] True show ?thesis by simp
  next
    case False
    then obtain r1 u l2 r2 w r3 tr where st:
      "(if isEqualityOp op1 then enumRight S tl1 r else (r, Inr ())) = (r1, Inr u)"
      "(if isEqualityOp op1 then enumLeft S (chk scope) l1 r1 else ((l1, r1), Inr ())) = ((l2, r2), Inr w)"
      "chk scope r2 = (r3, Inr tr)" "n = Binary p ot op1 l2 r3" "inferOperator p op1 (typeOf l2) tr = Inr t"
      using b l1 unfolding inferBinary_def by (auto elim!: stepC_cases split: prod.splits)
    have "litsOk S r1" using st(1) r enumRight_ann [of tl1 r r1 "Inr u"]
      by (auto simp: annotates_def split: if_splits)
    then have "litsOk S r2" using st(2) enumLeft_ann [of scope l1 r1 l2 r2 "Inr w"]
      by (auto simp: annotates_def split: if_splits)
    then have r3: "typed S ?G r3 tr" by (rule typing [OF st(3)])
    have "\<exists>t. typed S ?G l2 t" using st(2) tl1 enumLeft_typed [of scope l1 r1 l2 r2 w]
      by (auto split: if_splits)
    then have "typed S ?G l2 (typeOf l2)" using typeOf_typed by metis
    from inferOperator_typed [OF st(5) this r3] st(4) show ?thesis by simp
  qed
qed

lemma infer_typed:
  assumes "infer S env chk scope n = (n', Inr t)" "litsOk S n"
  shows "typed S (lookupName env scope) (setType t n') t"
  using assms inferList_typed inferSelect_typed inferIndex_typed inferCall_typed inferMacro_typed
    inferUnary_typed inferBinary_typed inferTernary_typed
  by (cases n) (auto simp: infer_def intro: T_Int T_Double T_String T_Enum_ex T_Bool T_Ident
    split: option.splits ty.splits)

end

lemma checkD_typed:
  "checkD S env k scope n = (n', Inr t) \<Longrightarrow> litsOk S n \<Longrightarrow> typed S (lookupName env scope) n' t"
proof (induction k arbitrary: scope n n' t)
  case (Suc k)
  have rec: "typing_checker S (checkD S env k) env"
    by unfold_locales (use checkD_ann Suc.IH in auto)
  from Suc.prems typing_checker.infer_typed [OF rec] show ?case by (auto elim!: stepC_cases)
qed simp

interpretation checked: typing_checker S "checkD S env k" env for S env k
  by unfold_locales (rule checkD_typed)

text \<open>The checker against its specification.\<close>

lemma check_typed:
  "check S env n = (n', Inr t) \<Longrightarrow> litsOk S n \<Longrightarrow> typed S (map_of env) n' t \<and> strip n' = strip n"
  using checked.typing [of S env _ "[]" n n' t] checkD_ann [of S env _ "[]" n n']
  by (auto simp: check_def annotates_def lookupName_Nil simp del: checkD.simps)

lemma check_bounded: "check S env n = (n', Inl e) \<Longrightarrow> eMsg e \<noteq> CheckMsg CheckBound"
  using checkD_bounded [of n "Suc (height n)" S env "[]"]
  by (auto simp: check_def simp del: checkD.simps)

text \<open>What an accepted rule is: a parsed tree whose literals are plain, checked at type bool.\<close>

lemma checkRule_check:
  assumes "checkRule S env src = Inr n"
  shows "\<exists>m. parseExpr src = Inr m \<and> litsOk S m \<and> check S env m = (n, Inr TyBool)"
proof -
  obtain m where m: "parseExpr src = Inr m" "(case check S env m of (_, Inl e) \<Rightarrow> Inl e
      | (n', Inr t) \<Rightarrow> if t \<noteq> TyBool then Inl (checkErr (position n') (RuleNotBool t)) else Inr n') = Inr n"
    using assms by (auto simp: checkRule_def bindE_eq_Inr)
  then have "check S env m = (n, Inr TyBool)"
    by (auto split: prod.splits sum.splits if_splits)
  moreover have "litsOk S m" using parseExpr_result [of src] m(1) by (auto intro: fresh_litsOk)
  ultimately show ?thesis using m(1) by blast
qed

lemma checkRule_typed: "checkRule S env src = Inr n \<Longrightarrow> typed S (map_of env) n TyBool"
  using checkRule_check check_typed by blast

end
