(* ===== verification/GoRegexp.thy ===== *)
theory GoRegexp
  imports Regex
begin

text \<open>
  Go's \<open>regexp\<close> package on the patterns \<open>fullMatch\<close> gives it: the syntax \<open>regexp/syntax\<close> reads
  (with the Perl flags of \<open>regexp.MustCompile\<close>), restricted to what can occur in a pattern that
  \<open>ValidateRegex\<close> lets through, and the language a match decides. \<open>None\<close> stands for a compile
  error, on which \<open>MustCompile\<close> panics, and for syntax outside that fragment (lazy quantifiers,
  shorthand classes, anchors, flags). A range \<open>{n,m}\<close> that does not parse is literal text, as
  in Go, where a number with a leading zero does not parse.
\<close>

datatype re = REps | RLit rune | RClass bool "(rune \<times> rune) list" | RCat re re | RAlt re re
  | RStar re | RRep nat nat re

subsection \<open>Syntax\<close>

definition isAlnumRune :: "rune \<Rightarrow> bool" where
  "isAlnumRune c \<longleftrightarrow> isDigitRune c \<or> 65 \<le> c \<and> c \<le> 90 \<or> 97 \<le> c \<and> c \<le> 122"

text \<open>An escape, after its backslash.\<close>

definition goEscape :: "rune list \<Rightarrow> (rune \<times> rune list) option" where
  "goEscape s = (case s of
     [] \<Rightarrow> None
   | c # r \<Rightarrow>
       if c = byte CHR ''n'' then Some (10, r)
       else if c = byte CHR ''t'' then Some (9, r)
       else if c = byte CHR ''r'' then Some (13, r)
       else if c < 0x80 \<and> \<not> isAlnumRune c then Some (c, r)
       else None)"

definition goClassChar :: "rune list \<Rightarrow> (rune \<times> rune list) option" where
  "goClassChar s = (case s of [] \<Rightarrow> None | c # r \<Rightarrow> if c = 0x5C then goEscape r else Some (c, r))"

definition goClassItem :: "rune list \<Rightarrow> ((rune \<times> rune) \<times> rune list) option" where
  "goClassItem s = Option.bind (goClassChar s) (\<lambda>(lo, t).
     case t of
       d # e # _ \<Rightarrow>
         if d = byte CHR ''-'' \<and> e \<noteq> byte CHR '']'' then
           Option.bind (goClassChar (tl t)) (\<lambda>(hi, t'). if hi < lo then None else Some ((lo, hi), t'))
         else Some ((lo, lo), t)
     | _ \<Rightarrow> Some ((lo, lo), t))"

fun goClassLoop :: "nat \<Rightarrow> bool \<Rightarrow> (rune \<times> rune) list \<Rightarrow> rune list \<Rightarrow> ((rune \<times> rune) list \<times> rune list) option" where
  "goClassLoop 0 first acc t = None"
| "goClassLoop (Suc n) first acc t =
     (case t of
        c # r \<Rightarrow>
          if c = byte CHR '']'' \<and> \<not> first then Some (acc, r)
          else if c = byte CHR ''['' then None
          else Option.bind (goClassItem t) (\<lambda>(rng, t'). goClassLoop n False (acc @ [rng]) t')
      | [] \<Rightarrow> None)"

definition goClass :: "rune list \<Rightarrow> (re \<times> rune list) option" where
  "goClass s =
     (let neg = (case s of c # _ \<Rightarrow> c = byte CHR ''^'' | [] \<Rightarrow> False);
          t = (if neg then tl s else s) in
      map_option (\<lambda>(rs, t'). (RClass neg rs, t')) (goClassLoop (Suc (length t)) True [] t))"

text \<open>\<open>parseInt\<close> and \<open>parseRepeat\<close>; a value is exact here, and only compared with 1000.\<close>

definition goInt :: "rune list \<Rightarrow> (nat \<times> rune list) option" where
  "goInt s =
     (let ds = takeWhile isDigitRune s in
      if ds = [] \<or> (1 < length ds \<and> hd ds = byte CHR ''0'') then None
      else Some (foldl (\<lambda>v d. v * 10 + (d - byte CHR ''0'')) 0 ds, dropWhile isDigitRune s))"

definition goRepeat :: "rune list \<Rightarrow> (nat \<times> nat option \<times> rune list) option" where
  "goRepeat s = Option.bind (goInt s) (\<lambda>(mn, t).
     case t of
       [] \<Rightarrow> None
     | c # r \<Rightarrow>
         if c = byte CHR ''}'' then Some (mn, Some mn, r)
         else if c \<noteq> byte CHR '','' then None
         else case r of
           [] \<Rightarrow> None
         | d # r' \<Rightarrow>
             if d = byte CHR ''}'' then Some (mn, None, r')
             else Option.bind (goInt r) (\<lambda>(mx, t').
               case t' of
                 e # r'' \<Rightarrow> if e = byte CHR ''}'' then Some (mn, Some mx, r'') else None
               | [] \<Rightarrow> None))"

text \<open>\<open>repeatIsValid\<close>: the product of nested repetition counts stays within \<open>n\<close>.\<close>

fun repeatIsValid :: "nat \<Rightarrow> re \<Rightarrow> bool" where
  "repeatIsValid n (RRep lo hi r) =
     (if hi = 0 then True else if n < hi then False else repeatIsValid (n div hi) r)"
| "repeatIsValid n (RCat a b) = (repeatIsValid n a \<and> repeatIsValid n b)"
| "repeatIsValid n (RAlt a b) = (repeatIsValid n a \<and> repeatIsValid n b)"
| "repeatIsValid n (RStar r) = repeatIsValid n r"
| "repeatIsValid n _ = True"

definition startsRepeat :: "rune list \<Rightarrow> bool" where
  "startsRepeat s = (case s of
     [] \<Rightarrow> False
   | c # r \<Rightarrow> isOneOf c ''*+?'' \<or> c = byte CHR ''{'' \<and> goRepeat r \<noteq> None)"

text \<open>The repetition operator after an atom; a second one, or a lazy mark, is refused.\<close>

definition goQuantify :: "re \<Rightarrow> rune list \<Rightarrow> (re \<times> rune list) option" where
  "goQuantify r s = (case s of
     [] \<Rightarrow> Some (r, [])
   | c # t \<Rightarrow>
       if isOneOf c ''*+?'' then
         (if startsRepeat t then None
          else Some (if c = byte CHR ''*'' then RStar r
            else if c = byte CHR ''+'' then RCat r (RStar r) else RAlt r REps, t))
       else if c = byte CHR ''{'' then
         (case goRepeat t of
            None \<Rightarrow> Some (r, s)
          | Some (mn, None, t') \<Rightarrow> None
          | Some (mn, Some mx, t') \<Rightarrow>
              if startsRepeat t' \<or> maxRepeat < mn \<or> maxRepeat < mx \<or> mx < mn
                 \<or> \<not> repeatIsValid 1000 (RRep mn mx r) then None
              else Some (RRep mn mx r, t'))
       else Some (r, s))"

type_synonym goParser = "rune list \<Rightarrow> (re \<times> rune list) option"

definition goAtom :: "goParser \<Rightarrow> goParser" where
  "goAtom g s = (case s of
     [] \<Rightarrow> None
   | c # r \<Rightarrow>
       if c = byte CHR ''('' then
         Option.bind
           (case r of
              q # r' \<Rightarrow>
                if q \<noteq> byte CHR ''?'' then Some r
                else (case r' of x # r'' \<Rightarrow> if x = byte CHR '':'' then Some r'' else None
                      | [] \<Rightarrow> None)
            | [] \<Rightarrow> Some r) (\<lambda>body.
         Option.bind (g body) (\<lambda>(inner, t).
           case t of x # t' \<Rightarrow> if x = byte CHR '')'' then Some (inner, t') else None | [] \<Rightarrow> None))
       else if c = byte CHR ''['' then goClass r
       else if c = 0x5C then map_option (\<lambda>(x, t). (RLit x, t)) (goEscape r)
       else if isOneOf c ''.^$'' \<or> startsRepeat s then None
       else Some (RLit c, r))"

fun goConcat :: "nat \<Rightarrow> goParser \<Rightarrow> re \<Rightarrow> goParser" where
  "goConcat 0 g acc s = None"
| "goConcat (Suc n) g acc s =
     (case s of
        [] \<Rightarrow> Some (acc, s)
      | c # _ \<Rightarrow>
          if c = byte CHR ''|'' \<or> c = byte CHR '')'' then Some (acc, s)
          else Option.bind (goAtom g s) (\<lambda>(a, t).
            Option.bind (goQuantify a t) (\<lambda>(a', t'). goConcat n g (RCat acc a') t')))"

fun goAlts :: "nat \<Rightarrow> goParser \<Rightarrow> goParser" where
  "goAlts 0 g s = None"
| "goAlts (Suc n) g s =
     Option.bind (goConcat (Suc (length s)) g REps s) (\<lambda>(a, t).
       case t of
         c # t' \<Rightarrow>
           if c = byte CHR ''|'' then map_option (\<lambda>(b, t''). (RAlt a b, t'')) (goAlts n g t')
           else Some (a, t)
       | [] \<Rightarrow> Some (a, t))"

text \<open>\<open>maxHeight\<close> bounds the nesting.\<close>

fun goAlt :: "nat \<Rightarrow> goParser" where
  "goAlt 0 s = None"
| "goAlt (Suc k) s = goAlts (Suc (length s)) (goAlt k) s"

text \<open>
  \<open>regexp.MustCompile\<close> on the pattern between \<open>\A(?:\<close> and \<open>)\z\<close>. A pattern that is a whole
  alternation by itself is one inside the group; one that is not (its parentheses do not
  balance) is outside the fragment. The anchors are the condition that the match is the whole
  text, below.
\<close>

definition goCompile :: "string \<Rightarrow> re option" where
  "goCompile pattern =
     (if \<not> validString pattern then None
      else (case goAlt 999 (runes pattern) of Some (r, []) \<Rightarrow> Some r | _ \<Rightarrow> None))"

subsection \<open>Matching\<close>

definition inClass :: "bool \<Rightarrow> (rune \<times> rune) list \<Rightarrow> rune \<Rightarrow> bool" where
  "inClass neg rs c \<longleftrightarrow> list_ex (\<lambda>(lo, hi). lo \<le> c \<and> c \<le> hi) rs \<noteq> neg"

fun nullable :: "re \<Rightarrow> bool" where
  "nullable REps = True"
| "nullable (RLit c) = False"
| "nullable (RClass neg rs) = False"
| "nullable (RCat a b) = (nullable a \<and> nullable b)"
| "nullable (RAlt a b) = (nullable a \<or> nullable b)"
| "nullable (RStar r) = True"
| "nullable (RRep lo hi r) = (lo \<le> hi \<and> (lo = 0 \<or> nullable r))"

text \<open>Brzozowski derivatives; \<open>RClass False []\<close> matches nothing.\<close>

fun deriv :: "rune \<Rightarrow> re \<Rightarrow> re" where
  "deriv c REps = RClass False []"
| "deriv c (RLit d) = (if c = d then REps else RClass False [])"
| "deriv c (RClass neg rs) = (if inClass neg rs c then REps else RClass False [])"
| "deriv c (RCat a b) =
     (if nullable a then RAlt (RCat (deriv c a) b) (deriv c b) else RCat (deriv c a) b)"
| "deriv c (RAlt a b) = RAlt (deriv c a) (deriv c b)"
| "deriv c (RStar r) = RCat (deriv c r) (RStar r)"
| "deriv c (RRep lo hi r) =
     (if hi = 0 \<or> hi < lo then RClass False [] else RCat (deriv c r) (RRep (lo - 1) (hi - 1) r))"

definition matchRe :: "re \<Rightarrow> rune list \<Rightarrow> bool" where
  "matchRe r s = nullable (foldl (\<lambda>q c. deriv c q) r s)"

text \<open>\<open>fullMatch\<close> of \<open>eval.go\<close>; the cache does not change its result. \<open>None\<close> is the panic.\<close>

definition fullMatch :: "string \<Rightarrow> string \<Rightarrow> bool option" where
  "fullMatch pattern s = map_option (\<lambda>r. matchRe r (runes s)) (goCompile pattern)"

subsection \<open>The language of a pattern\<close>

definition conc :: "rune list set \<Rightarrow> rune list set \<Rightarrow> rune list set" where
  "conc A B = {x @ y | x y. x \<in> A \<and> y \<in> B}"

fun langPow :: "nat \<Rightarrow> rune list set \<Rightarrow> rune list set" where
  "langPow 0 A = {[]}"
| "langPow (Suc n) A = conc A (langPow n A)"

fun lang :: "re \<Rightarrow> rune list set" where
  "lang REps = {[]}"
| "lang (RLit c) = {[c]}"
| "lang (RClass neg rs) = {[c] | c. inClass neg rs c}"
| "lang (RCat a b) = conc (lang a) (lang b)"
| "lang (RAlt a b) = lang a \<union> lang b"
| "lang (RStar r) = (\<Union>n. langPow n (lang r))"
| "lang (RRep lo hi r) = (\<Union>n \<in> {lo..hi}. langPow n (lang r))"

lemma concI: "x \<in> A \<Longrightarrow> y \<in> B \<Longrightarrow> x @ y \<in> conc A B"
  by (auto simp: conc_def)

lemma conc_mono: "A \<subseteq> A' \<Longrightarrow> B \<subseteq> B' \<Longrightarrow> conc A B \<subseteq> conc A' B'"
  by (auto simp: conc_def)

lemma subset_conc: "[] \<in> A \<Longrightarrow> B \<subseteq> conc A B"
  using concI [of "[]" A] by auto

lemma langPow_nil: "[] \<in> langPow n A \<longleftrightarrow> n = 0 \<or> [] \<in> A"
  by (induction n) (auto simp: conc_def)

lemma nullable_lang: "nullable r \<longleftrightarrow> [] \<in> lang r"
  by (induction r) (auto simp: conc_def langPow_nil)

definition left_quot :: "rune \<Rightarrow> rune list set \<Rightarrow> rune list set" where
  "left_quot c A = {s. c # s \<in> A}"

lemma left_quot_conc_subset:
  "left_quot c (conc A B) \<subseteq> conc (left_quot c A) B \<union> (if [] \<in> A then left_quot c B else {})"
proof
  fix s assume "s \<in> left_quot c (conc A B)"
  then obtain x y where xy: "c # s = x @ y" "x \<in> A" "y \<in> B" by (auto simp: left_quot_def conc_def)
  then show "s \<in> conc (left_quot c A) B \<union> (if [] \<in> A then left_quot c B else {})"
    by (cases x) (auto simp: left_quot_def conc_def)
qed

lemma conc_left_quot: "conc (left_quot c A) B \<subseteq> left_quot c (conc A B)"
  using concI [of "c # x" A for x] by (fastforce simp: left_quot_def conc_def [of "{s. c # s \<in> A}"])

lemma left_quot_conc:
  "left_quot c (conc A B) = conc (left_quot c A) B \<union> (if [] \<in> A then left_quot c B else {})"
proof
  have "left_quot c B \<subseteq> left_quot c (conc A B)" if "[] \<in> A"
    using subset_conc [OF that, of B] by (auto simp: left_quot_def)
  with conc_left_quot [of c A B]
  show "conc (left_quot c A) B \<union> (if [] \<in> A then left_quot c B else {}) \<subseteq> left_quot c (conc A B)"
    by auto
qed (rule left_quot_conc_subset)

text \<open>When \<open>A\<close> has the empty text the powers of \<open>A\<close> grow.\<close>

lemma langPow_grow: "[] \<in> A \<Longrightarrow> langPow n A \<subseteq> langPow (Suc n) A"
  by (simp add: subset_conc)

lemma left_quot_langPow:
  "left_quot c (langPow (Suc n) A) \<subseteq> conc (left_quot c A) (langPow n A)"
proof (induction n)
  case 0
  then show ?case using left_quot_conc_subset [of c A "{[]}"] by (auto simp: left_quot_def conc_def)
next
  case (Suc n)
  have "left_quot c (langPow (Suc n) A) \<subseteq> conc (left_quot c A) (langPow (Suc n) A)" if "[] \<in> A"
    using Suc.IH conc_mono [OF order_refl langPow_grow [OF that]] by blast
  then show ?case using left_quot_conc_subset [of c A "langPow (Suc n) A"]
    by (auto split: if_splits)
qed

lemma left_quot_langPows:
  assumes "\<And>n. Suc n \<in> I \<longleftrightarrow> n \<in> J"
  shows "left_quot c (\<Union>n \<in> I. langPow n A) = conc (left_quot c A) (\<Union>n \<in> J. langPow n A)"
proof
  show "left_quot c (\<Union>n \<in> I. langPow n A) \<subseteq> conc (left_quot c A) (\<Union>n \<in> J. langPow n A)"
  proof
    fix s assume "s \<in> left_quot c (\<Union>n \<in> I. langPow n A)"
    then obtain n where n: "n \<in> I" "c # s \<in> langPow n A" by (auto simp: left_quot_def)
    then obtain m where m: "n = Suc m" by (cases n) auto
    have "s \<in> conc (left_quot c A) (langPow m A)"
      using left_quot_langPow [of c m A] n(2) unfolding m by (auto simp: left_quot_def)
    moreover have "langPow m A \<subseteq> (\<Union>n \<in> J. langPow n A)" using n(1) assms m by auto
    ultimately show "s \<in> conc (left_quot c A) (\<Union>n \<in> J. langPow n A)"
      using conc_mono by blast
  qed
next
  show "conc (left_quot c A) (\<Union>n \<in> J. langPow n A) \<subseteq> left_quot c (\<Union>n \<in> I. langPow n A)"
  proof
    fix s assume "s \<in> conc (left_quot c A) (\<Union>n \<in> J. langPow n A)"
    then obtain n where n: "n \<in> J" "s \<in> conc (left_quot c A) (langPow n A)" by (auto simp: conc_def)
    then have "s \<in> left_quot c (langPow (Suc n) A)" using conc_left_quot [of c A "langPow n A"] by auto
    with n(1) assms show "s \<in> left_quot c (\<Union>n \<in> I. langPow n A)"
      unfolding left_quot_def by blast
  qed
qed

lemma lang_deriv: "lang (deriv c r) = left_quot c (lang r)"
proof (induction r)
  case (RStar r)
  then show ?case by (simp add: left_quot_langPows [of UNIV UNIV])
next
  case (RRep lo hi r)
  show ?case
  proof (cases "hi = 0 \<or> hi < lo")
    case True
    then show ?thesis by (auto simp: left_quot_def inClass_def)
  next
    case False
    then have "left_quot c (lang (RRep lo hi r)) =
        conc (left_quot c (lang r)) (\<Union>n \<in> {lo - 1..hi - 1}. langPow n (lang r))"
      unfolding lang.simps by (intro left_quot_langPows) auto
    with False RRep show ?thesis by simp
  qed
qed (auto simp: left_quot_conc nullable_lang inClass_def, auto simp: left_quot_def)

lemma matchRe_lang: "matchRe r s \<longleftrightarrow> s \<in> lang r"
proof -
  have "lang (foldl (\<lambda>q c. deriv c q) r s) = {t. s @ t \<in> lang r}"
    by (induction s arbitrary: r) (auto simp: lang_deriv left_quot_def)
  then show ?thesis by (simp add: matchRe_def nullable_lang)
qed

end
