(* ===== verification/RegexCompiles.thy ===== *)
theory RegexCompiles
  imports GoRegexp Prelude
begin

text \<open>
  A pattern that \<open>ValidateRegex\<close> accepts compiles, so \<open>fullMatch\<close> never panics on it. The two
  parsers run over the same runes: the checker from an index, Go's on the runes from that index
  on. The contract between them, per group, is the locale \<open>group_parsers\<close>.
\<close>

text \<open>No counted repetition occurs in the expression.\<close>

fun noRep :: "re \<Rightarrow> bool" where
  "noRep (RRep lo hi r) = False"
| "noRep (RCat a b) = (noRep a \<and> noRep b)"
| "noRep (RAlt a b) = (noRep a \<and> noRep b)"
| "noRep (RStar r) = noRep r"
| "noRep _ = True"

lemma noRep_valid: "noRep r \<Longrightarrow> repeatIsValid n r"
  by (induction r arbitrary: n) auto

text \<open>The checker went from \<open>pos\<close> to \<open>pos'\<close> inside \<open>src\<close>.\<close>

definition step :: "rune list \<Rightarrow> nat \<Rightarrow> nat \<Rightarrow> bool" where
  "step src pos pos' \<longleftrightarrow> pos < pos' \<and> pos' \<le> length src"

lemma drop_at: "pos < length src \<Longrightarrow> drop pos src = src ! pos # drop (Suc pos) src"
  by (rule Cons_nth_drop_Suc [symmetric])

lemma isOneOf_simps [simp]:
  "\<not> isOneOf r []" "isOneOf r (c # cs) \<longleftrightarrow> r = byte c \<or> isOneOf r cs"
  by (auto simp: isOneOf_def)

lemma runeIs_drop: "runeIs src pos c \<Longrightarrow> pos < length src \<and> drop pos src = byte c # drop (Suc pos) src"
  by (auto simp: runeIs_def drop_at)

lemma alnum_simps:
  "isAlnumRune c \<longleftrightarrow> (48 \<le> c \<and> c \<le> 57) \<or> (65 \<le> c \<and> c \<le> 90) \<or> (97 \<le> c \<and> c \<le> 122)"
  by (simp add: isAlnumRune_def isDigitRune_def)

lemma escapeRune_go:
  "escapeRune b src pos = Inr (c, pos') \<Longrightarrow>
     step src pos pos' \<and> goEscape (drop (Suc pos) src) = Some (c, drop pos' src)"
  by (auto simp: escapeRune_def Let_def step_def goEscape_def drop_at alnum_simps not_le
      split: if_splits)

lemma classChar_go:
  assumes "classChar src pos = Inr (c, pos')" "pos < length src"
  shows "step src pos pos' \<and> goClassChar (drop pos src) = Some (c, drop pos' src) \<and> src ! pos \<noteq> byte CHR ''[''"
  using assms escapeRune_go [of True src pos c pos']
  by (auto simp: classChar_def Let_def goClassChar_def drop_at step_def split: if_splits)

lemma classItem_go:
  assumes "classItem src pos = Inr (u, pos')" "pos < length src"
  shows "step src pos pos' \<and> (\<exists>rng. goClassItem (drop pos src) = Some (rng, drop pos' src))
    \<and> src ! pos \<noteq> byte CHR ''[''"
proof -
  obtain low q where q: "classChar src pos = Inr (low, q)"
    using assms(1) by (auto simp: classItem_def bindE_eq_Inr)
  note lo = classChar_go [OF q assms(2)]
  show ?thesis
  proof (cases "q + 1 < length src \<and> src ! q = byte CHR ''-'' \<and> src ! (q + 1) \<noteq> byte CHR '']''")
    case True
    then obtain high q' where h: "classChar src (q + 1) = Inr (high, q')" "\<not> high < low" "pos' = q'"
      using assms(1) q by (auto simp: classItem_def bindE_eq_Inr split: if_splits)
    note hi = classChar_go [OF h(1)]
    obtain e T where T: "drop (q + 1) src = e # T" "e = src ! (q + 1)"
      using True drop_at [of "q + 1" src] by blast
    moreover have "drop q src = src ! q # e # T" using True T drop_at [of q src] by simp
    ultimately show ?thesis using True lo hi h
      by (auto simp: goClassItem_def step_def)
  next
    case False
    then have p: "pos' = q" using assms(1) q by (auto simp: classItem_def bindE_eq_Inr split: if_splits)
    have "goClassItem (drop pos src) = Some ((low, low), drop q src)"
    proof (cases "q + 1 < length src")
      case True
      then have "drop q src = src ! q # src ! (q + 1) # drop (Suc (q + 1)) src" by (simp add: drop_at)
      then show ?thesis using lo False True by (auto simp: goClassItem_def)
    next
      case F: False
      have "length (drop q src) \<le> 1" using F by simp
      then show ?thesis using lo
        by (cases "drop q src" rule: list.exhaust) (auto simp: goClassItem_def split: list.splits)
    qed
    then show ?thesis using lo p by auto
  qed
qed

lemma classLoop_go:
  "classLoop n items src pos = Inr (u, pos') \<Longrightarrow> length src - pos < m \<Longrightarrow> first = (items = 0) \<Longrightarrow>
    step src pos pos' \<and> (\<exists>rs. goClassLoop m first acc (drop pos src) = Some (rs, drop pos' src))"
proof (induction n arbitrary: items pos m first acc)
  case (Suc n)
  have pos: "pos < length src" using Suc.prems(1) by (auto split: if_splits)
  obtain m' where m: "m = Suc m'" using Suc.prems(2) by (cases m) auto
  show ?case
  proof (cases "src ! pos = byte CHR '']''")
    case True
    then show ?thesis using Suc.prems pos m by (auto simp: step_def drop_at split: if_splits)
  next
    case False
    then obtain v q where q: "classItem src pos = Inr (v, q)" "classLoop n (items + 1) src q = Inr (u, pos')"
      using Suc.prems(1) pos by (auto simp: bindE_eq_Inr)
    note it = classItem_go [OF q(1) pos]
    then obtain rng where rng: "goClassItem (drop pos src) = Some (rng, drop q src)" by auto
    have "length src - q < m'" using it Suc.prems(2) m by (auto simp: step_def)
    from Suc.IH [OF q(2) this, of False "acc @ [rng]"] show ?thesis
      using it rng False m pos by (auto simp: step_def drop_at)
  qed
qed simp

lemma class1_go:
  assumes "class1 src pos = Inr (u, pos')"
  shows "step src pos pos' \<and> (\<exists>neg rs. goClass (drop (Suc pos) src) = Some (RClass neg rs, drop pos' src))"
proof (cases "runeIs src (Suc pos) CHR ''^''")
  case True
  note d = runeIs_drop [OF True]
  have "classLoop (Suc (length src - (pos + 2))) 0 src (pos + 2) = Inr (u, pos')"
    using assms True by (simp add: class1_def)
  from classLoop_go [OF this, of "Suc (length src - (pos + 2))" True "[]"] d show ?thesis
    by (auto simp: goClass_def step_def simp del: goClassLoop.simps)
next
  case False
  then have neg: "\<not> (case drop (Suc pos) src of c # _ \<Rightarrow> c = byte CHR ''^'' | [] \<Rightarrow> False)"
    by (cases "Suc pos < length src") (auto simp: runeIs_def drop_at)
  have "classLoop (Suc (length src - (pos + 1))) 0 src (pos + 1) = Inr (u, pos')"
    using assms False by (simp add: class1_def)
  from classLoop_go [OF this, of "Suc (length src - (pos + 1))" True "[]"] neg show ?thesis
    by (auto simp: goClass_def step_def simp del: goClassLoop.simps)
qed

subsection \<open>Quantifiers\<close>

lemma clamp_value:
  "foldl clampDigit v ds \<le> maxRepeat \<Longrightarrow> foldl (\<lambda>v d. v * 10 + (d - byte CHR ''0'')) v ds = foldl clampDigit v ds"
proof (induction ds arbitrary: v)
  case (Cons d ds)
  have big: "maxRepeat < foldl clampDigit (maxRepeat * 10) ds" for ds
  proof -
    have "maxRepeat * 10 \<le> w \<Longrightarrow> maxRepeat < foldl clampDigit w ds" for w
      by (induction ds arbitrary: w) (auto simp: clampDigit_def Let_def maxRepeat_def)
    then show ?thesis by simp
  qed
  from Cons.prems have "clampDigit v d \<noteq> maxRepeat * 10" using big [of ds] by auto
  then have "clampDigit v d = v * 10 + (d - byte CHR ''0'')"
    by (auto simp: clampDigit_def Let_def split: if_splits)
  with Cons show ?case by simp
qed simp

lemma dropWhile_drop: "dropWhile P xs = drop (length (takeWhile P xs)) xs"
  by (rule dropWhile_eq_drop)

text \<open>A number reads the same on both sides, or has a leading zero.\<close>

lemma number_go:
  assumes "number src pos = (v, True, pos')" "v \<le> maxRepeat"
  shows "(goInt (drop pos src) = Some (v, drop pos' src) \<or> goInt (drop pos src) = None) \<and>
    drop pos src = takeWhile isDigitRune (drop pos src) @ drop pos' src \<and>
    pos < pos' \<and> takeWhile isDigitRune (drop pos src) \<noteq> []"
proof -
  let ?ds = "takeWhile isDigitRune (drop pos src)"
  have p: "?ds \<noteq> []" "pos' = pos + length ?ds" "v = foldl clampDigit 0 ?ds"
    using assms(1) by (auto simp: number_def Let_def)
  have d: "dropWhile isDigitRune (drop pos src) = drop pos' src"
    by (simp add: dropWhile_drop p(2) add.commute)
  have "drop pos src = ?ds @ drop pos' src"
    unfolding d [symmetric] by simp
  moreover have "foldl (\<lambda>v d. v * 10 + (d - byte CHR ''0'')) 0 ?ds = v"
    using clamp_value [of 0 ?ds] assms(2) p(3) by simp
  ultimately show ?thesis using p d by (auto simp: goInt_def Let_def)
qed

text \<open>The runes of a repetition that Go reads as literal text.\<close>

definition litRune :: "rune \<Rightarrow> bool" where
  "litRune c \<longleftrightarrow> isDigitRune c \<or> c = byte CHR '','' \<or> c = byte CHR ''}''"

lemma takeWhile_lit: "\<forall>c \<in> set (takeWhile isDigitRune s). litRune c"
  by (auto simp: litRune_def dest: set_takeWhileD)

lemma bounds_go:
  assumes "bounds src pos = Inr (u, pos')" "pos < length src"
  shows "step src pos pos' \<and>
    ((\<exists>mn mx. goRepeat (drop (Suc pos) src) = Some (mn, Some mx, drop pos' src) \<and> mn \<le> mx \<and> mx \<le> maxRepeat) \<or>
     goRepeat (drop (Suc pos) src) = None \<and>
       (\<exists>ds. drop (Suc pos) src = ds @ drop pos' src \<and> (\<forall>c \<in> set ds. litRune c)))"
proof -
  obtain low q where low: "number src (Suc pos) = (low, True, q)"
    using assms(1) by (auto simp: bounds_def split: prod.splits if_splits)
  consider (one) "runeIs src q CHR ''}''" "\<not> runeIs src q CHR '',''" "low \<le> maxRepeat" "pos' = Suc q"
    | (two) high r where "runeIs src q CHR '',''" "number src (Suc q) = (high, True, r)"
        "runeIs src r CHR ''}''" "low \<le> high" "high \<le> maxRepeat" "pos' = Suc r"
    using assms(1) low by (auto simp: bounds_def bindE_eq_Inr not_le not_less split: prod.splits if_splits)
  then show ?thesis
  proof cases
    case one
    note n = number_go [OF low one(3)]
    have d: "drop q src = byte CHR ''}'' # drop pos' src" using runeIs_drop [OF one(1)] one(4) by simp
    have "goRepeat (drop (Suc pos) src) = Some (low, Some low, drop pos' src) \<or>
        goRepeat (drop (Suc pos) src) = None"
      using n d by (auto simp: goRepeat_def)
    moreover have "drop (Suc pos) src = (takeWhile isDigitRune (drop (Suc pos) src) @ [byte CHR ''}'']) @ drop pos' src"
      using n d by simp
    moreover have "litRune (byte CHR ''}'')" by (simp add: litRune_def)
    moreover have "step src pos pos'" using n runeIs_drop [OF one(1)] one(4) by (simp add: step_def)
    ultimately show ?thesis using takeWhile_lit [of "drop (Suc pos) src"] one(3)
      by (auto intro!: exI [of _ "takeWhile isDigitRune (drop (Suc pos) src) @ [byte CHR ''}'']"])
  next
    case (two high r)
    have lm: "low \<le> maxRepeat" using two by simp
    note n = number_go [OF low lm] and n2 = number_go [OF two(2) two(5)]
    have d: "drop q src = byte CHR '','' # drop (Suc q) src" using runeIs_drop [OF two(1)] by simp
    have d2: "drop r src = byte CHR ''}'' # drop pos' src" using runeIs_drop [OF two(3)] two(6) by simp
    obtain c cs where c: "drop (Suc q) src = c # cs" "isDigitRune c"
      using n2 by (cases "drop (Suc q) src") (auto split: if_splits)
    then have "c \<noteq> byte CHR ''}''" by (auto simp: isDigitRune_def)
    then have "goRepeat (drop (Suc pos) src) = Some (low, Some high, drop pos' src) \<or>
        goRepeat (drop (Suc pos) src) = None"
      using n n2 d d2 c by (auto simp: goRepeat_def)
    moreover have "drop (Suc pos) src = (takeWhile isDigitRune (drop (Suc pos) src) @ byte CHR '','' #
        takeWhile isDigitRune (drop (Suc q) src) @ [byte CHR ''}'']) @ drop pos' src"
      using n n2 d d2 by simp
    moreover have "litRune (byte CHR ''}'')" "litRune (byte CHR '','')" by (simp_all add: litRune_def)
    moreover have "step src pos pos'" using n n2 runeIs_drop [OF two(3)] two(6) by (simp add: step_def)
    ultimately show ?thesis
      using takeWhile_lit [of "drop (Suc pos) src"] takeWhile_lit [of "drop (Suc q) src"] two(4,5)
      by (auto intro!: exI [of _ "takeWhile isDigitRune (drop (Suc pos) src) @ byte CHR '','' #
        takeWhile isDigitRune (drop (Suc q) src) @ [byte CHR ''}'']"])
  qed
qed

text \<open>No repetition operator, nor an opening brace, follows.\<close>

definition quiet :: "rune list \<Rightarrow> bool" where
  "quiet s = (case s of [] \<Rightarrow> True | c # _ \<Rightarrow> \<not> isOneOf c ''*+?{'')"

lemma quiet_startsRepeat: "quiet s \<Longrightarrow> \<not> startsRepeat s"
  by (auto simp: quiet_def startsRepeat_def split: list.splits)

lemma quiet_quantify: "quiet s \<Longrightarrow> goQuantify r s = Some (r, s)"
  by (auto simp: quiet_def goQuantify_def split: list.splits)

lemma noSecond_quiet:
  "noSecondQuantifier q src pos = Inr (q', pos') \<Longrightarrow> q' = q \<and> pos' = pos \<and> quiet (drop pos src)"
  by (cases "pos < length src")
    (auto simp: noSecondQuantifier_def quiet_def runeIs_def drop_at split: if_splits)

text \<open>Literal runes are consumed one by one, and leave no repetition behind.\<close>

definition continues :: "goParser \<Rightarrow> nat \<Rightarrow> re \<Rightarrow> rune list \<Rightarrow> rune list \<Rightarrow> bool \<Rightarrow> bool" where
  "continues g n acc s rest plain \<longleftrightarrow>
     (\<exists>m acc'. length rest < m \<and> goConcat n g acc s = goConcat m g acc' rest \<and>
       (plain \<longrightarrow> noRep acc \<longrightarrow> noRep acc'))"

lemma continues_trans:
  assumes "continues g n acc s mid plain"
    and "\<And>n acc. length mid < n \<Longrightarrow> continues g n acc mid rest plain"
  shows "continues g n acc s rest plain"
proof -
  obtain m acc' where m: "length mid < m" "goConcat n g acc s = goConcat m g acc' mid"
    "plain \<longrightarrow> noRep acc \<longrightarrow> noRep acc'"
    using assms(1) by (auto simp: continues_def)
  from assms(2) [OF m(1), of acc'] m show ?thesis by (auto simp: continues_def)
qed

lemma literal_step:
  assumes c: "litRune c \<or> c = byte CHR ''{'' \<and> goRepeat s = None" and s: "quiet s" "length (c # s) < n"
  shows "continues g n acc (c # s) s plain"
proof -
  obtain n' where n: "n = Suc n'" using s(2) by (cases n) auto
  have "\<not> startsRepeat (c # s)" using c by (auto simp: startsRepeat_def litRune_def isDigitRune_def)
  with c have "goAtom g (c # s) = Some (RLit c, s)"
    by (auto simp: goAtom_def litRune_def isDigitRune_def)
  moreover have "c \<noteq> byte CHR ''|'' \<and> c \<noteq> byte CHR '')''"
    using c by (auto simp: litRune_def isDigitRune_def)
  ultimately have "goConcat n g acc (c # s) = goConcat n' g (RCat acc (RLit c)) s"
    using quiet_quantify [OF s(1)] by (simp add: n)
  then show ?thesis using s(2) n unfolding continues_def
    by (intro exI [of _ n'] exI [of _ "RCat acc (RLit c)"]) simp
qed

lemma quiet_lit: "\<forall>c \<in> set ds. litRune c \<Longrightarrow> quiet rest \<Longrightarrow> quiet (ds @ rest)"
  by (cases ds) (auto simp: quiet_def litRune_def isDigitRune_def)

lemma literal_run:
  "\<forall>c \<in> set ds. litRune c \<Longrightarrow> quiet rest \<Longrightarrow> length (ds @ rest) < n \<Longrightarrow>
    continues g n acc (ds @ rest) rest plain"
proof (induction ds arbitrary: n acc)
  case Nil
  then show ?case by (auto simp: continues_def)
next
  case (Cons c ds)
  have "continues g n acc (c # ds @ rest) (ds @ rest) plain"
    using Cons.prems by (intro literal_step) (auto intro: quiet_lit)
  then have "continues g n acc (c # ds @ rest) rest plain"
    by (rule continues_trans) (rule Cons.IH, use Cons.prems in auto)
  then show ?case by simp
qed

subsection \<open>Groups\<close>

locale group_parsers =
  fixes src :: "rune list" and g :: groupParser and gg :: goParser
  assumes group: "pos \<le> length src \<Longrightarrow> g src pos = Inr (info, pos') \<Longrightarrow>
    pos \<le> pos' \<and> pos' \<le> length src \<and>
    (\<exists>r. gg (drop pos src) = Some (r, drop pos' src) \<and> (\<not> repeats info \<longrightarrow> noRep r))"
    and bounded: "pos \<le> length src \<Longrightarrow> g src pos = Inl e \<Longrightarrow> rxMsg e \<noteq> RxLoopBound"
begin

lemma paren_go:
  assumes "atom g src pos = Inr (info, pos')" "pos < length src" "src ! pos = byte CHR ''(''"
  shows "step src pos pos' \<and> (\<exists>r. goAtom gg (drop pos src) = Some (r, drop pos' src) \<and>
    (\<not> repeats info \<longrightarrow> noRep r))"
proof -
  let ?r = "drop (Suc pos) src"
  have d: "drop pos src = byte CHR ''('' # ?r" using assms(2,3) by (simp add: drop_at)
  obtain b q where b: "(if runeIs src (pos + 1) CHR ''?'' then
      (if runeIs src (pos + 2) CHR '':'' then Inr (pos + 3) else Inl (rxErr (pos + 1) RxGroupOptions))
      else Inr (pos + 1)) = Inr b"
    and q: "g src b = Inr (info, q)" "runeIs src q CHR '')''" "pos' = Suc q"
    using assms(1,3) by (auto simp: atom_def bindE_eq_Inr split: if_splits)
  have body: "(case ?r of
        q # r' \<Rightarrow> if q \<noteq> byte CHR ''?'' then Some ?r
          else (case r' of x # r'' \<Rightarrow> if x = byte CHR '':'' then Some r'' else None | [] \<Rightarrow> None)
      | [] \<Rightarrow> Some ?r) = Some (drop b src) \<and> pos < b \<and> b \<le> length src"
  proof (cases "runeIs src (Suc pos) CHR ''?''")
    case True
    then have c: "runeIs src (Suc (Suc pos)) CHR '':''" "b = pos + 3"
      using b by (auto simp: numeral_eq_Suc split: if_splits)
    then show ?thesis using runeIs_drop [OF True] runeIs_drop [OF c(1)] by (simp add: numeral_eq_Suc)
  next
    case False
    then have "b = Suc pos" using b by simp
    moreover have "?r = [] \<or> (\<exists>x xs. ?r = x # xs \<and> x \<noteq> byte CHR ''?'')"
      using False by (cases "Suc pos < length src") (auto simp: runeIs_def drop_at)
    ultimately show ?thesis using assms(2) by auto
  qed
  from group [OF _ q(1)] body obtain r where r: "gg (drop b src) = Some (r, drop q src)"
    "\<not> repeats info \<longrightarrow> noRep r" "b \<le> q" by auto
  have "drop q src = byte CHR '')'' # drop pos' src" "q < length src"
    using runeIs_drop [OF q(2)] q(3) by auto
  then have "goAtom gg (drop pos src) = Some (r, drop pos' src)"
    using body r(1) unfolding d goAtom_def by simp
  then show ?thesis using r body q(3) \<open>q < length src\<close> by (auto simp: step_def)
qed

lemma atom_go:
  assumes "atom g src pos = Inr (info, pos')" "pos < length src"
  shows "step src pos pos' \<and> (\<exists>r. goAtom gg (drop pos src) = Some (r, drop pos' src) \<and>
    (\<not> repeats info \<longrightarrow> noRep r))"
proof -
  let ?c = "src ! pos"
  have d: "drop pos src = ?c # drop (Suc pos) src" using assms(2) by (rule drop_at)
  consider (paren) "?c = byte CHR ''(''" | (bracket) "?c = byte CHR ''[''" | (esc) "?c = 0x5C"
    | (lit) "?c \<noteq> byte CHR ''(''" "?c \<noteq> byte CHR ''[''" "?c \<noteq> 0x5C" by blast
  then show ?thesis
  proof cases
    case paren
    then show ?thesis using paren_go [OF assms] by simp
  next
    case bracket
    then obtain u where u: "class1 src pos = Inr (u, pos')"
      using assms(1) by (auto simp: atom_def bindE_eq_Inr)
    from class1_go [OF this] bracket show ?thesis unfolding d by (auto simp: goAtom_def)
  next
    case esc
    then obtain x where "escapeRune False src pos = Inr (x, pos')"
      using assms(1) by (auto simp: atom_def bindE_eq_Inr)
    from escapeRune_go [OF this] esc show ?thesis unfolding d by (auto simp: goAtom_def)
  next
    case lit
    then have "\<not> isOneOf ?c ''.^$*+?{'' \<and> pos' = Suc pos"
      using assms(1) by (auto simp: atom_def Let_def split: if_splits)
    with lit assms(2) show ?thesis unfolding d
      by (auto simp: goAtom_def startsRepeat_def step_def)
  qed
qed

lemma concatStep_go:
  assumes "concatStep g src pos = Inr (info, pos')" "pos < length src"
    and "src ! pos \<noteq> byte CHR ''|''" "src ! pos \<noteq> byte CHR '')''"
    and n: "length (drop pos src) < n"
  shows "step src pos pos' \<and> continues gg n acc (drop pos src) (drop pos' src) (\<not> repeats info)"
proof -
  obtain a p q where a: "atom g src pos = Inr (a, p)" and q: "quantifier src p = Inr (q, pos')"
    and r: "q = QuantRepeat \<longrightarrow> \<not> repeats a \<and> info = a\<lparr>repeats := True\<rparr>" "q \<noteq> QuantRepeat \<longrightarrow> info = a"
    using assms(1) by (auto simp: concatStep_def bindE_eq_Inr split: if_splits)
  obtain r where at: "step src pos p" "goAtom gg (drop pos src) = Some (r, drop p src)"
    "\<not> repeats a \<longrightarrow> noRep r" using atom_go [OF a assms(2)] by blast
  obtain n' where n': "n = Suc n'" using n by (cases n) auto
  have start: "goConcat n gg acc (drop pos src) =
      Option.bind (goQuantify r (drop p src)) (\<lambda>(a', t'). goConcat n' gg (RCat acc a') t')"
    using assms(2-4) at(2) by (simp add: n' drop_at)
  have one: "continues gg n acc (drop pos src) (drop q src) plain"
    if "goQuantify r (drop p src) = Some (r', drop q src)" "plain \<longrightarrow> noRep r'" "p \<le> q" for r' q plain
    using that start n n' at(1) unfolding continues_def
    by (intro exI [of _ n'] exI [of _ "RCat acc r'"]) (auto simp: step_def)
  consider (none) "q = QuantNone" "pos' = p" "length src \<le> p \<or> \<not> isOneOf (src ! p) ''*+?{''"
    | (simple) "p < length src" "isOneOf (src ! p) ''*+?''" "pos' = Suc p" "quiet (drop pos' src)"
        "q = QuantOptional \<or> q = QuantRepeat"
    | (brace) u where "p < length src" "src ! p = byte CHR ''{''" "bounds src p = Inr (u, pos')"
        "quiet (drop pos' src)" "q = QuantRepeat"
    using q by (auto simp: quantifier_def bindE_eq_Inr dest!: noSecond_quiet split: if_splits)
  then show ?thesis
  proof cases
    case none
    then have "quiet (drop p src)" by (cases "p < length src") (auto simp: quiet_def drop_at)
    from one [OF quiet_quantify [OF this], of "\<not> repeats info"] at r none show ?thesis
      by (auto simp: step_def)
  next
    case simple
    have "\<exists>r'. goQuantify r (drop p src) = Some (r', drop pos' src) \<and> (noRep r \<longrightarrow> noRep r')"
      using simple quiet_startsRepeat [OF simple(4)] by (auto simp: goQuantify_def drop_at [of p])
    then obtain r' where r': "goQuantify r (drop p src) = Some (r', drop pos' src)" "noRep r \<longrightarrow> noRep r'"
      by blast
    have "\<not> repeats info \<longrightarrow> noRep r'" using r' at(3) r simple(5) by auto
    from one [OF r'(1) this] simple at(1) show ?thesis by (auto simp: step_def)
  next
    case brace
    note b = bounds_go [OF brace(3,1)]
    have info: "repeats info" "noRep r" using brace(5) r at(3) by auto
    have d: "drop p src = byte CHR ''{'' # drop (Suc p) src" using brace by (simp add: drop_at)
    show ?thesis
    proof (cases "goRepeat (drop (Suc p) src) = None")
      case False
      then obtain mn mx where m: "goRepeat (drop (Suc p) src) = Some (mn, Some mx, drop pos' src)"
        "mn \<le> mx" "mx \<le> maxRepeat" using b by auto
      have "repeatIsValid 1000 (RRep mn mx r)"
        using m(3) noRep_valid [OF info(2)] by (simp add: maxRepeat_def)
      then have "goQuantify r (drop p src) = Some (RRep mn mx r, drop pos' src)"
        using m quiet_startsRepeat [OF brace(4)] unfolding d by (simp add: goQuantify_def)
      from one [OF this] info b at(1) show ?thesis by (auto simp: step_def)
    next
      case True
      then obtain ds where ds: "drop (Suc p) src = ds @ drop pos' src" "\<forall>c \<in> set ds. litRune c"
        using b by auto
      have q: "quiet (ds @ drop pos' src)" by (rule quiet_lit [OF ds(2) brace(4)])
      have "goQuantify r (drop p src) = Some (r, drop p src)"
        using True unfolding d by (simp add: goQuantify_def)
      then have "continues gg n acc (drop pos src) (drop p src) False" using one [of r p False] by simp
      then have "continues gg n acc (drop pos src) (drop pos' src) False"
      proof (rule continues_trans)
        fix n acc assume n: "length (drop p src) < n"
        have "continues gg n acc (drop p src) (ds @ drop pos' src) False"
          unfolding d ds(1) using True n by (intro literal_step q) (auto simp: d ds(1))
        then show "continues gg n acc (drop p src) (drop pos' src) False"
          by (rule continues_trans) (rule literal_run [OF ds(2) brace(4)])
      qed
      then show ?thesis using info b at(1) by (auto simp: step_def)
    qed
  qed
qed

lemma concatLoop_go:
  "concatLoop k count info g src pos = Inr (info', pos') \<Longrightarrow> pos \<le> length src \<Longrightarrow>
    length (drop pos src) < n \<Longrightarrow>
    pos \<le> pos' \<and> pos' \<le> length src \<and> (\<not> repeats info' \<longrightarrow> \<not> repeats info) \<and>
    (\<exists>r. goConcat n gg acc (drop pos src) = Some (r, drop pos' src) \<and>
       (\<not> repeats info' \<longrightarrow> noRep acc \<longrightarrow> noRep r))"
proof (induction k arbitrary: count info pos n acc)
  case (Suc k)
  show ?case
  proof (cases "pos < length src \<and> src ! pos \<noteq> byte CHR ''|'' \<and> src ! pos \<noteq> byte CHR '')''")
    case True
    then obtain a q where q: "concatStep g src pos = Inr (a, q)"
      "concatLoop k (count + 1) (orInfo info a) g src q = Inr (info', pos')"
      using Suc.prems(1) by (auto simp: bindE_eq_Inr)
    have st: "step src pos q" and co: "continues gg n acc (drop pos src) (drop q src) (\<not> repeats a)"
      using concatStep_go [OF q(1) _ _ _ Suc.prems(3)] True by blast+
    obtain m acc' where m: "length (drop q src) < m"
      "goConcat n gg acc (drop pos src) = goConcat m gg acc' (drop q src)"
      "\<not> repeats a \<longrightarrow> noRep acc \<longrightarrow> noRep acc'" using co unfolding continues_def by blast
    from Suc.IH [OF q(2) _ m(1), of acc'] st m show ?thesis
      by (auto simp: step_def orInfo_def)
  next
    case False
    then have p: "pos' = pos" "info' = info" using Suc.prems(1) by (auto split: if_splits)
    have "goConcat n gg acc (drop pos src) = Some (acc, drop pos src)"
      using False Suc.prems(3) by (cases n; cases "pos < length src") (auto simp: drop_at)
    with p Suc.prems(2) show ?thesis by simp
  qed
qed simp

lemma altLoop_go:
  "altLoop k info g src pos = Inr (info', pos') \<Longrightarrow> pos \<le> length src \<Longrightarrow> length (drop pos src) < n \<Longrightarrow>
    pos \<le> pos' \<and> pos' \<le> length src \<and> (\<not> repeats info' \<longrightarrow> \<not> repeats info) \<and>
    (\<exists>r. goAlts n gg (drop pos src) = Some (r, drop pos' src) \<and> (\<not> repeats info' \<longrightarrow> noRep r))"
proof (induction k arbitrary: info pos n)
  case (Suc k)
  obtain b q where b: "concat1 g src pos = Inr (b, q)" using Suc.prems(1) by (auto simp: bindE_eq_Inr)
  obtain n' where n: "n = Suc n'" using Suc.prems(3) by (cases n) auto
  from concatLoop_go [OF b [unfolded concat1_def] Suc.prems(2), of "Suc (length (drop pos src))" REps]
  obtain r where r: "goConcat (Suc (length (drop pos src))) gg REps (drop pos src) = Some (r, drop q src)"
    "\<not> repeats b \<longrightarrow> noRep r" "pos \<le> q" "q \<le> length src" by auto
  show ?case
  proof (cases "runeIs src q CHR ''|''")
    case True
    let ?i = "(orInfo info b)\<lparr>alternates := True\<rparr>"
    have l: "altLoop k ?i g src (Suc q) = Inr (info', pos')" using Suc.prems(1) b True by simp
    note d = runeIs_drop [OF True]
    have "length (drop (Suc q) src) < n'" using Suc.prems(3) n r(3) conjunct1 [OF d] by simp
    from Suc.IH [OF l _ this] d r n show ?thesis by (auto simp: orInfo_def simp del: goConcat.simps)
  next
    case False
    have "drop q src = [] \<or> (\<exists>x xs. drop q src = x # xs \<and> x \<noteq> byte CHR ''|'')"
      using False by (cases "q < length src") (auto simp: runeIs_def drop_at)
    then show ?thesis using Suc.prems(1) b False r n by (auto simp: orInfo_def simp del: goConcat.simps)
  qed
qed simp

text \<open>The loop bounds suffice.\<close>

lemma classLoop_bound:
  "classLoop n items src pos = Inl e \<Longrightarrow> length src - pos < n \<Longrightarrow> rxMsg e \<noteq> RxLoopBound"
proof (induction n arbitrary: items pos)
  case (Suc n)
  have e: "escapeRune b src p = Inl e \<Longrightarrow> rxMsg e \<noteq> RxLoopBound" for b p
    by (auto simp: escapeRune_def Let_def split: if_splits)
  have c: "classChar src p = Inl e \<Longrightarrow> rxMsg e \<noteq> RxLoopBound" for p
    using e by (auto simp: classChar_def Let_def split: if_splits)
  have it: "classItem src p = Inl e \<Longrightarrow> rxMsg e \<noteq> RxLoopBound" for p
    using c by (auto simp: classItem_def bindE_eq_Inl split: if_splits)
  show ?case
  proof (cases "pos < length src \<and> (\<exists>u q. classItem src pos = Inr (u, q) \<and>
      classLoop n (items + 1) src q = Inl e)")
    case True
    then obtain u q where q: "classItem src pos = Inr (u, q)" "classLoop n (items + 1) src q = Inl e"
      "pos < length src" by auto
    then have "length src - q < n" using classItem_go [OF q(1,3)] Suc.prems(2) by (auto simp: step_def)
    from Suc.IH [OF q(2) this] show ?thesis .
  next
    case False
    then show ?thesis using Suc.prems(1) it by (auto simp: bindE_eq_Inl not_le split: if_splits)
  qed
qed simp

lemma concatStep_bound:
  assumes "concatStep g src pos = Inl e" "pos < length src"
  shows "rxMsg e \<noteq> RxLoopBound"
proof -
  have c: "class1 src pos = Inl e \<Longrightarrow> rxMsg e \<noteq> RxLoopBound"
    by (auto simp: class1_def Let_def simp del: classLoop.simps dest: classLoop_bound)
  have esc: "escapeRune b src p = Inl e \<Longrightarrow> rxMsg e \<noteq> RxLoopBound" for b p
    by (auto simp: escapeRune_def Let_def split: if_splits)
  have g: "g src p = Inl e \<Longrightarrow> p \<le> length src \<Longrightarrow> rxMsg e \<noteq> RxLoopBound" for p
    by (rule bounded)
  have r: "runeIs src (pos + 2) ch \<Longrightarrow> pos + 3 \<le> length src" for ch by (auto simp: runeIs_def)
  have a: "atom g src pos = Inl e \<Longrightarrow> rxMsg e \<noteq> RxLoopBound"
    using assms(2) g c esc r by (auto simp: atom_def Let_def bindE_eq_Inl split: if_splits)
  have sec: "noSecondQuantifier q src p = Inl e \<Longrightarrow> rxMsg e \<noteq> RxLoopBound" for q p
    by (auto simp: noSecondQuantifier_def split: if_splits)
  have b: "bounds src p = Inl e \<Longrightarrow> rxMsg e \<noteq> RxLoopBound" for p
    by (auto simp: bounds_def bindE_eq_Inl split: if_splits prod.splits)
  have q: "quantifier src p = Inl e \<Longrightarrow> rxMsg e \<noteq> RxLoopBound" for p
    using sec b by (auto simp: quantifier_def bindE_eq_Inl split: if_splits)
  show ?thesis using assms(1) a q by (auto simp: concatStep_def bindE_eq_Inl split: if_splits)
qed

lemma concatLoop_bound:
  "concatLoop n count info g src pos = Inl e \<Longrightarrow> length src - pos < n \<Longrightarrow> rxMsg e \<noteq> RxLoopBound"
proof (induction n arbitrary: count info pos)
  case (Suc n)
  show ?case
  proof (cases "pos < length src \<and> src ! pos \<noteq> byte CHR ''|'' \<and> src ! pos \<noteq> byte CHR '')''")
    case True
    then consider "concatStep g src pos = Inl e"
      | a q where "concatStep g src pos = Inr (a, q)" "concatLoop n (count + 1) (orInfo info a) g src q = Inl e"
      using Suc.prems(1) by (auto simp: bindE_eq_Inl)
    then show ?thesis
    proof cases
      case (2 a q)
      from concatStep_go [OF 2(1), of "Suc (length src)"] True have "step src pos q" by simp
      then have "length src - q < n" using Suc.prems(2) by (auto simp: step_def)
      from Suc.IH [OF 2(2) this] show ?thesis .
    qed (use True concatStep_bound in blast)
  qed (use Suc.prems(1) in \<open>auto split: if_splits\<close>)
qed simp

lemma altLoop_bound:
  "altLoop n info g src pos = Inl e \<Longrightarrow> pos \<le> length src \<Longrightarrow> length src - pos < n \<Longrightarrow>
    rxMsg e \<noteq> RxLoopBound"
proof (induction n arbitrary: info pos)
  case (Suc n)
  consider "concat1 g src pos = Inl e"
    | b q where "concat1 g src pos = Inr (b, q)" "runeIs src q CHR ''|''"
      "altLoop n ((orInfo info b)\<lparr>alternates := True\<rparr>) g src (q + 1) = Inl e"
    using Suc.prems(1) by (auto simp: bindE_eq_Inl Let_def split: if_splits)
  then show ?case
  proof cases
    case 1
    then show ?thesis unfolding concat1_def by (rule concatLoop_bound) simp
  next
    case (2 b q)
    have "pos \<le> q" using concatLoop_go [OF 2(1) [unfolded concat1_def] Suc.prems(2), of "Suc (length src)"]
      by simp
    then show ?thesis using Suc.IH [OF 2(3)] conjunct1 [OF runeIs_drop [OF 2(2)]] Suc.prems(3) by simp
  qed
qed simp

end

lemma alternation_go: "k \<le> kk \<Longrightarrow> group_parsers src (alternation k) (goAlt kk)"
proof (induction k arbitrary: kk)
  case 0
  show ?case by unfold_locales auto
next
  case (Suc k)
  then obtain kk' where kk: "kk = Suc kk'" "k \<le> kk'" by (cases kk) auto
  have "group_parsers src (alternation k) (goAlt kk')" by (rule Suc.IH [OF kk(2)])
  then show ?case
  proof (unfold_locales, goal_cases)
    case (1 pos info pos')
    from group_parsers.altLoop_go [OF 1(1) 1(3) [unfolded alternation.simps] 1(2), of "Suc (length (drop pos src))"]
    show ?case by (simp add: kk(1) del: goAlts.simps)
  next
    case (2 pos e)
    from group_parsers.altLoop_bound [OF 2(1) 2(3) [unfolded alternation.simps] 2(2)] show ?case by simp
  qed
qed

interpretation groups: group_parsers src "alternation (Suc maxRegexDepth)" "goAlt 999" for src
  by (rule alternation_go) (simp add: maxRegexDepth_def)

text \<open>A pattern the checker accepts compiles.\<close>

lemma validateRegex_compiles:
  assumes "validateRegex re = Inr ()"
  shows "\<exists>r. goCompile re = Some r"
proof -
  let ?src = "runes re"
  obtain info pos where v: "validString re" "alternation (Suc maxRegexDepth) ?src 0 = Inr (info, pos)"
    "length ?src \<le> pos"
    using assms by (auto simp: validateRegex_def Let_def bindE_eq_Inr split: if_splits)
  from groups.group [OF _ v(2)] obtain r where r: "goAlt 999 ?src = Some (r, drop pos ?src)"
    by auto
  with v show ?thesis by (simp add: goCompile_def)
qed

lemma validateRegex_fullMatch:
  "validateRegex re = Inr () \<Longrightarrow> \<exists>b. fullMatch re s = Some b"
  using validateRegex_compiles [of re] by (auto simp: fullMatch_def)

text \<open>The checker always decides: no loop bound of the model is overrun.\<close>

lemma validateRegex_bound: "validateRegex re = Inl e \<Longrightarrow> rxMsg e \<noteq> RxLoopBound"
  using groups.bounded [of 0 "runes re" e]
  by (auto simp: validateRegex_def Let_def bindE_eq_Inl split: if_splits)

end
