(* ===== verification/Eval.thy ===== *)
theory Eval
  imports GoRegexp Checker
begin

text \<open>
  \<open>internal/onkexpr/eval.go\<close>. A Go \<open>any\<close> that the evaluator meets is a \<open>val\<close>; a message and a
  map are both \<open>map[string]any\<close>. An evaluation runs on the variables (\<open>e.vars\<close>), which a macro
  changes and restores, and ends in a value, in an \<open>EvalError\<close>, or in a Go panic. The type
  switches and unchecked assertions (\<open>asBool\<close>, \<open>asInt\<close>) keep their zero-value fallbacks.
\<close>

datatype val = VNil | VBool bool | VInt int64 | VDouble f64 | VString string | VBytes string
  | VList "val list" | VMap "(string \<times> val) list"

datatype evalMsg = IndexRange int nat | NoSuchKey string | CannotIndexValue | IntOverflow
  | CannotNegate | DivByZero | NotFinite | BadOperator string | HasNeedsSelect
  | UnknownFn string | DoubleTooBig | CannotConvert

datatype failure = EvalError evalMsg | GoPanic

type_synonym vars = "string \<Rightarrow> val option"
type_synonym 'a evaluation = "vars \<Rightarrow> (failure + 'a) \<times> vars"

definition retV :: "'a \<Rightarrow> 'a evaluation" where "retV x vars = (Inr x, vars)"
definition failV :: "failure \<Rightarrow> 'a evaluation" where "failV f vars = (Inl f, vars)"

definition bindV :: "'a evaluation \<Rightarrow> ('a \<Rightarrow> 'b evaluation) \<Rightarrow> 'b evaluation" where
  "bindV m k vars = (case m vars of (Inl f, vars') \<Rightarrow> (Inl f, vars') | (Inr x, vars') \<Rightarrow> k x vars')"

definition liftV :: "failure + 'a \<Rightarrow> 'a evaluation" where "liftV r vars = (r, vars)"

text \<open>\<open>None\<close> is a panic.\<close>

definition orPanic :: "'a option \<Rightarrow> failure + 'a" where
  "orPanic r = (case r of Some x \<Rightarrow> Inr x | None \<Rightarrow> Inl GoPanic)"

abbreviation evalErr :: "evalMsg \<Rightarrow> failure + 'a" where "evalErr m \<equiv> Inl (EvalError m)"

subsection \<open>Assertions and zero values\<close>

definition asBool :: "val \<Rightarrow> bool" where
  "asBool v = (case v of VBool b \<Rightarrow> b | _ \<Rightarrow> False)"

definition asInt :: "val \<Rightarrow> int64" where
  "asInt v = (case v of VInt i \<Rightarrow> i | _ \<Rightarrow> 0)"

definition asFloat :: "val \<Rightarrow> f64" where
  "asFloat v = (case v of VDouble f \<Rightarrow> f | _ \<Rightarrow> fzero False)"

definition asString :: "val \<Rightarrow> string" where
  "asString v = (case v of VString s \<Rightarrow> s | _ \<Rightarrow> [])"

definition asMap :: "val \<Rightarrow> (string \<times> val) list" where
  "asMap v = (case v of VMap m \<Rightarrow> m | _ \<Rightarrow> [])"

definition asList :: "val \<Rightarrow> val list" where
  "asList v = (case v of VList vs \<Rightarrow> vs | _ \<Rightarrow> [])"

text \<open>The zero value of an enum is its first value; an enum without values makes it panic.\<close>

fun zeroValue :: "schema \<Rightarrow> ty \<Rightarrow> val option" where
  "zeroValue S TyBool = Some (VBool False)"
| "zeroValue S TyInt = Some (VInt 0)"
| "zeroValue S TyDouble = Some (VDouble (fzero False))"
| "zeroValue S TyString = Some (VString [])"
| "zeroValue S TyBytes = Some (VBytes [])"
| "zeroValue S (TyList t) = Some (VList [])"
| "zeroValue S (TyMap t) = Some (VMap [])"
| "zeroValue S (TyMessage m) = Some (VMap [])"
| "zeroValue S (TyEnum e) = (case enValues (enumAt S e) of v # _ \<Rightarrow> Some (VString (evName v)) | [] \<Rightarrow> None)"

text \<open>\<open>ZeroValue(n.Type())\<close>: a node without a type is a nil pointer.\<close>

definition zeroOf :: "schema \<Rightarrow> ty option \<Rightarrow> failure + val" where
  "zeroOf S ot = (case ot of Some t \<Rightarrow> orPanic (zeroValue S t) | None \<Rightarrow> Inl GoPanic)"

subsection \<open>Operations on values\<close>

text \<open>Go's \<open>==\<close> on interfaces panics on two values of one type that cannot be compared.\<close>

definition goEqual :: "val \<Rightarrow> val \<Rightarrow> bool option" where
  "goEqual l r =
     (case (l, r) of
        (VNil, VNil) \<Rightarrow> Some True
      | (VBool a, VBool b) \<Rightarrow> Some (a = b)
      | (VInt a, VInt b) \<Rightarrow> Some (a = b)
      | (VDouble a, VDouble b) \<Rightarrow> Some (feq a b)
      | (VString a, VString b) \<Rightarrow> Some (a = b)
      | (VBytes a, VBytes b) \<Rightarrow> None
      | (VList a, VList b) \<Rightarrow> None
      | (VMap a, VMap b) \<Rightarrow> None
      | _ \<Rightarrow> Some False)"

fun containsItem :: "val list \<Rightarrow> val \<Rightarrow> bool option" where
  "containsItem [] item = Some False"
| "containsItem (v # vs) item =
     (case goEqual v item of None \<Rightarrow> None | Some True \<Rightarrow> Some True | Some False \<Rightarrow> containsItem vs item)"

definition contains :: "val \<Rightarrow> val \<Rightarrow> bool option" where
  "contains container item =
     (case container of
        VList c \<Rightarrow> containsItem c item
      | VMap c \<Rightarrow> Some (map_of c (asString item) \<noteq> None)
      | _ \<Rightarrow> Some False)"

definition cmpValues :: "val \<Rightarrow> val \<Rightarrow> int" where
  "cmpValues l r =
     (case l of
        VInt a \<Rightarrow> (let b = asInt r in if ltI64 a b then -1 else if ltI64 b a then 1 else 0)
      | VDouble a \<Rightarrow> (let b = asFloat r in if fless a b then -1 else if fless b a then 1 else 0)
      | _ \<Rightarrow> 0)"

definition compare1 :: "string \<Rightarrow> val \<Rightarrow> val \<Rightarrow> bool" where
  "compare1 op1 l r =
     (let cmp = cmpValues l r in
      if op1 = ''<'' then cmp < 0
      else if op1 = ''<='' then cmp \<le> 0
      else if op1 = ''>'' then cmp > 0
      else cmp \<ge> 0)"

definition intArithmetic :: "string \<Rightarrow> int64 \<Rightarrow> int64 \<Rightarrow> failure + val" where
  "intArithmetic op1 a b =
     (if op1 = ''+'' then
        (let sum = a + b in
         if ltI64 a sum \<noteq> ltI64 0 b then evalErr IntOverflow else Inr (VInt sum))
      else if op1 = ''-'' then
        (let diff = a - b in
         if ltI64 diff a \<noteq> ltI64 0 b then evalErr IntOverflow else Inr (VInt diff))
      else if op1 = ''*'' then
        (if a = 0 \<or> b = 0 then Inr (VInt 0)
         else
           (let product = a * b in
            if divI64 product b \<noteq> a \<or> a = minInt64 \<and> b = -1 \<or> b = minInt64 \<and> a = -1
            then evalErr IntOverflow else Inr (VInt product)))
      else if op1 = ''/'' \<or> op1 = ''%'' then
        (if b = 0 then evalErr DivByZero
         else if a = minInt64 \<and> b = -1 then evalErr IntOverflow
         else if op1 = ''/'' then Inr (VInt (divI64 a b))
         else Inr (VInt (remI64 a b)))
      else evalErr (BadOperator op1))"

definition floatArithmetic :: "string \<Rightarrow> f64 \<Rightarrow> f64 \<Rightarrow> failure + val" where
  "floatArithmetic op1 a b =
     (if op1 = ''/'' \<and> fisZero b then evalErr DivByZero
      else
        (let out = (if op1 = ''+'' then fadd a b
                    else if op1 = ''-'' then fsub a b
                    else if op1 = ''*'' then fmul a b
                    else if op1 = ''/'' then fdiv a b
                    else fzero False) in
         if \<not> isFinite out then evalErr NotFinite else Inr (VDouble out)))"

definition arithmetic :: "string \<Rightarrow> val \<Rightarrow> val \<Rightarrow> failure + val" where
  "arithmetic op1 l r =
     (case l of
        VInt a \<Rightarrow> intArithmetic op1 a (asInt r)
      | _ \<Rightarrow> floatArithmetic op1 (asFloat l) (asFloat r))"

definition sizeOf :: "val \<Rightarrow> int64" where
  "sizeOf v =
     (case v of
        VString s \<Rightarrow> i64 (int (runeCount s))
      | VBytes b \<Rightarrow> i64 (int (length b))
      | VList vs \<Rightarrow> i64 (int (length vs))
      | VMap m \<Rightarrow> i64 (int (length m))
      | _ \<Rightarrow> 0)"

definition toInt :: "val \<Rightarrow> failure + val" where
  "toInt v =
     (case v of
        VInt i \<Rightarrow> Inr (VInt i)
      | VDouble c \<Rightarrow>
          (case c of
             FNum s m e \<Rightarrow>
               if \<not> fless c f2p63 \<or> fless c (fneg f2p63) then evalErr DoubleTooBig
               else Inr (VInt (i64 (truncInt s m e)))
           | _ \<Rightarrow> evalErr DoubleTooBig)
      | _ \<Rightarrow> evalErr CannotConvert)"

definition negate :: "val \<Rightarrow> failure + val" where
  "negate x =
     (case x of
        VInt v \<Rightarrow> if v = minInt64 then evalErr IntOverflow else Inr (VInt (- v))
      | VDouble v \<Rightarrow> Inr (VDouble (fneg v))
      | _ \<Rightarrow> evalErr CannotNegate)"

definition indexValue :: "val \<Rightarrow> val \<Rightarrow> failure + val" where
  "indexValue x idx =
     (case x of
        VList c \<Rightarrow>
          (let i = sint (asInt idx) in
           if i < 0 \<or> int (length c) \<le> i then evalErr (IndexRange i (length c))
           else Inr (c ! nat i))
      | VMap c \<Rightarrow>
          (case map_of c (asString idx) of
             Some v \<Rightarrow> Inr v
           | None \<Rightarrow> evalErr (NoSuchKey (asString idx)))
      | _ \<Rightarrow> evalErr CannotIndexValue)"

text \<open>The operators that evaluate both sides.\<close>

definition binaryOp :: "string \<Rightarrow> val \<Rightarrow> val \<Rightarrow> failure + val" where
  "binaryOp op1 l r =
     (if op1 = ''=='' then bindE (orPanic (goEqual l r)) (\<lambda>b. Inr (VBool b))
      else if op1 = ''!='' then bindE (orPanic (goEqual l r)) (\<lambda>b. Inr (VBool (\<not> b)))
      else if op1 = ''in'' then bindE (orPanic (contains r l)) (\<lambda>b. Inr (VBool b))
      else if op1 = ''<'' \<or> op1 = ''<='' \<or> op1 = ''>'' \<or> op1 = ''>='' then
        Inr (VBool (compare1 op1 l r))
      else arithmetic op1 l r)"

text \<open>\<open>args[i]\<close>.\<close>

definition argAt :: "val list \<Rightarrow> nat \<Rightarrow> failure + val" where
  "argAt args i = (if i < length args then Inr (args ! i) else Inl GoPanic)"

definition callFn :: "string \<Rightarrow> string \<Rightarrow> val list \<Rightarrow> failure + val" where
  "callFn fn re args =
     (if fn = ''size'' then bindE (argAt args 0) (\<lambda>v. Inr (VInt (sizeOf v)))
      else if fn = ''int'' then bindE (argAt args 0) toInt
      else if fn = ''double'' then
        bindE (argAt args 0) (\<lambda>v. case v of VInt i \<Rightarrow> Inr (VDouble (ofInt (sint i))) | _ \<Rightarrow> Inr v)
      else if fn = ''startsWith'' then
        bindE (argAt args 0) (\<lambda>s. bindE (argAt args 1) (\<lambda>t.
          Inr (VBool (hasPrefix (asString s) (asString t)))))
      else if fn = ''endsWith'' then
        bindE (argAt args 0) (\<lambda>s. bindE (argAt args 1) (\<lambda>t.
          Inr (VBool (hasSuffix (asString s) (asString t)))))
      else if fn = ''contains'' then
        bindE (argAt args 0) (\<lambda>s. bindE (argAt args 1) (\<lambda>t.
          Inr (VBool (containsStr (asString s) (asString t)))))
      else if fn = ''matches'' then
        bindE (argAt args 0) (\<lambda>s.
        bindE (orPanic (fullMatch re (asString s))) (\<lambda>b. Inr (VBool b)))
      else evalErr (UnknownFn fn))"

text \<open>\<open>evalHas\<close> after the evaluation of the selected message.\<close>

definition hasField :: "schema \<Rightarrow> ty option \<Rightarrow> string \<Rightarrow> field option \<Rightarrow> val \<Rightarrow> failure + val" where
  "hasField S ot name fld x =
     (case map_of (asMap x) name of
        None \<Rightarrow> Inr (VBool False)
      | Some v \<Rightarrow>
          (case fld of
             None \<Rightarrow> Inl GoPanic
           | Some f \<Rightarrow>
               if fOptional f \<or> (case fType f of Some (TMessage _) \<Rightarrow> \<not> fRepeated f | _ \<Rightarrow> False)
               then Inr (VBool True)
               else
                 (case v of
                    VList c \<Rightarrow> Inr (VBool (c \<noteq> []))
                  | VMap c \<Rightarrow> Inr (VBool (c \<noteq> []))
                  | VBytes c \<Rightarrow> Inr (VBool (c \<noteq> []))
                  | _ \<Rightarrow>
                      bindE (zeroOf S ot) (\<lambda>z.
                      bindE (orPanic (goEqual v z)) (\<lambda>b. Inr (VBool (\<not> b)))))))"

subsection \<open>Macros\<close>

fun macroLoop :: "string \<Rightarrow> string \<Rightarrow> val evaluation \<Rightarrow> val list \<Rightarrow> val evaluation" where
  "macroLoop kind var body [] vars = (Inr (VBool (kind = ''all'')), vars)"
| "macroLoop kind var body (item # items) vars =
     bindV body (\<lambda>v.
       if kind = ''all'' \<and> \<not> asBool v then retV (VBool False)
       else if kind = ''exists'' \<and> asBool v then retV (VBool True)
       else macroLoop kind var body items) (vars(var \<mapsto> item))"

text \<open>The deferred function restores the variable, on an error and a panic too.\<close>

definition evalMacro :: "string \<Rightarrow> string \<Rightarrow> val evaluation \<Rightarrow> val evaluation \<Rightarrow> val evaluation" where
  "evalMacro kind var range1 body =
     bindV range1 (\<lambda>r vars.
       case macroLoop kind var body (asList r) vars of
         (res, vars') \<Rightarrow> (res, vars'(var := vars var)))"

subsection \<open>The evaluator\<close>

fun evalAll :: "val evaluation list \<Rightarrow> val list evaluation" where
  "evalAll [] = retV []"
| "evalAll (m # ms) = bindV m (\<lambda>v. bindV (evalAll ms) (\<lambda>vs. retV (v # vs)))"

definition evalShort :: "string \<Rightarrow> val evaluation \<Rightarrow> val evaluation \<Rightarrow> val evaluation" where
  "evalShort op1 ml mr =
     bindV ml (\<lambda>l.
       if op1 = ''&&'' \<and> \<not> asBool l then retV (VBool False)
       else if op1 = ''||'' \<and> asBool l then retV (VBool True)
       else mr)"

function (sequential) eval :: "schema \<Rightarrow> node \<Rightarrow> val evaluation" where
  "eval S (IntLit p t v) = retV (VInt v)"
| "eval S (DoubleLit p t v) = retV (VDouble v)"
| "eval S (StringLit p t v) = retV (VString v)"
| "eval S (BoolLit p t v) = retV (VBool v)"
| "eval S (ListLit p t es) = bindV (evalAll (map (eval S) es)) (\<lambda>vs. retV (VList vs))"
| "eval S (Ident p t name) = (\<lambda>vars. (Inr (case vars name of Some v \<Rightarrow> v | None \<Rightarrow> VNil), vars))"
| "eval S (Select p t x name fld) =
     bindV (eval S x) (\<lambda>v.
       case map_of (asMap v) name of Some w \<Rightarrow> retV w | None \<Rightarrow> liftV (zeroOf S t))"
| "eval S (Index p t x idx) =
     bindV (eval S x) (\<lambda>c. bindV (eval S idx) (\<lambda>i. liftV (indexValue c i)))"
| "eval S (Call p t fn args re) =
     (if fn = ''has'' then
        (case args of
           [] \<Rightarrow> failV GoPanic
         | Select q ot x name fld # _ \<Rightarrow> bindV (eval S x) (\<lambda>v. liftV (hasField S ot name fld v))
         | _ \<Rightarrow> failV (EvalError HasNeedsSelect))
      else bindV (evalAll (map (eval S) args)) (\<lambda>vs. liftV (callFn fn re vs)))"
| "eval S (Macro p t kind range1 var body) = evalMacro kind var (eval S range1) (eval S body)"
| "eval S (Unary p t op1 x) =
     bindV (eval S x) (\<lambda>v. if op1 = ''!'' then retV (VBool (\<not> asBool v)) else liftV (negate v))"
| "eval S (Binary p t op1 l r) =
     (if op1 = ''&&'' \<or> op1 = ''||'' then evalShort op1 (eval S l) (eval S r)
      else bindV (eval S l) (\<lambda>a. bindV (eval S r) (\<lambda>b. liftV (binaryOp op1 a b))))"
| "eval S (Ternary p t c a b) =
     bindV (eval S c) (\<lambda>v. if asBool v then eval S a else eval S b)"
  by pat_completeness auto
termination
proof (relation "measure (\<lambda>(S, n). size n)", goal_cases)
  case (5 S p t fn args re)
  then show ?case by (auto simp: less_Suc_eq_le)
qed (auto simp: less_Suc_eq_le size_list_estimation')

text \<open>\<open>Eval\<close> and \<open>EvalBool\<close>: a result that is not a bool counts as false.\<close>

definition evalExpr :: "schema \<Rightarrow> node \<Rightarrow> vars \<Rightarrow> failure + val" where
  "evalExpr S n vars = fst (eval S n vars)"

definition evalBool :: "schema \<Rightarrow> node \<Rightarrow> vars \<Rightarrow> failure + bool" where
  "evalBool S n vars = bindE (evalExpr S n vars) (\<lambda>v. Inr (asBool v))"

end
