(* ===== verification/EvalProps.thy ===== *)
theory EvalProps
  imports Eval
begin

text \<open>
  What the evaluator's operations compute: integer arithmetic against exact arithmetic on
  \<open>int\<close>, the conversions, and the macros. An evaluation leaves the variables as it found them.
\<close>

subsection \<open>The variables\<close>

text \<open>An evaluation that restores the variables, whatever its result.\<close>

definition restores :: "'a evaluation \<Rightarrow> bool" where
  "restores m \<longleftrightarrow> (\<forall>vars. snd (m vars) = vars)"

named_theorems restoring

lemma restores_basic [restoring]: "restores (retV x)" "restores (failV f)" "restores (liftV r)"
  by (simp_all add: restores_def retV_def failV_def liftV_def)

lemma restores_bind [restoring]: "restores m \<Longrightarrow> (\<And>x. restores (k x)) \<Longrightarrow> restores (bindV m k)"
  by (auto simp: restores_def bindV_def split: prod.split sum.split) (metis snd_conv)+

lemma restores_evalAll [restoring]: "(\<And>m. m \<in> set ms \<Longrightarrow> restores m) \<Longrightarrow> restores (evalAll ms)"
  by (induction ms) (auto intro!: restoring)

lemma macroLoop_vars:
  assumes "restores body"
  shows "\<exists>w. snd (macroLoop kind var body items vars) = vars(var := w)"
proof (induction items arbitrary: vars)
  case Nil
  show ?case unfolding macroLoop.simps snd_conv
    by (rule exI [of _ "vars var"]) (rule fun_upd_triv [symmetric])
next
  case (Cons item items)
  obtain r where r: "body (vars(var \<mapsto> item)) = (r, vars(var \<mapsto> item))"
    using assms by (metis restores_def prod.collapse)
  obtain w where w: "snd (macroLoop kind var body items (vars(var \<mapsto> item))) = vars(var := w)"
    using Cons.IH [of "vars(var \<mapsto> item)"] unfolding fun_upd_upd by blast
  show ?case
  proof (cases r)
    case (Inr v)
    then show ?thesis using r w by (auto simp: bindV_def retV_def simp del: fun_upd_apply)
  qed (use r in \<open>auto simp: bindV_def simp del: fun_upd_apply\<close>)
qed

lemma restores_evalMacro [restoring]:
  assumes "restores range1" "restores body"
  shows "restores (evalMacro kind var range1 body)"
  unfolding evalMacro_def
proof (rule restores_bind [OF assms(1)], unfold restores_def, intro allI)
  fix r vars
  obtain w where "snd (macroLoop kind var body (asList r) vars) = vars(var := w)"
    using macroLoop_vars [OF assms(2)] by blast
  then show "snd (case macroLoop kind var body (asList r) vars of (res, vars') \<Rightarrow> (res, vars'(var := vars var))) = vars"
    by (auto split: prod.split)
qed

lemma eval_restores: "restores (eval S n)"
proof (induction S n rule: eval.induct)
  case (9 S p t fn args re)
  show ?case
  proof (cases "fn = ''has''")
    case True
    then show ?thesis using 9
      by (cases args; cases "hd args") (auto intro!: restoring)
  qed (use 9 in \<open>auto intro!: restoring\<close>)
next
  case (12 S p t op1 l r)
  then show ?case by (auto simp: evalShort_def intro!: restoring)
qed (auto intro!: restoring split: option.split simp: restores_def [of "\<lambda>vars. (_ vars, vars)"])

lemma eval_vars: "snd (eval S n vars) = vars"
  using eval_restores by (simp add: restores_def)

subsection \<open>Integer arithmetic\<close>

lemma add_overflow: "ltI64 a (a + b) = ltI64 0 b \<longleftrightarrow> inInt64 (sint a + sint b)"
proof -
  have r: "inInt64 (sint a)" "inInt64 (sint b)" by simp_all
  have "sint (a + b) = (let z = sint a + sint b in
      if z < - (2 ^ 63) then z + 2 ^ 64 else if 2 ^ 63 \<le> z then z - 2 ^ 64 else z)"
    unfolding sint_add Let_def using r by (intro wrap_once) (simp_all add: inInt64_def)
  then show ?thesis using r by (auto simp: ltI64_def inInt64_def Let_def split: if_splits)
qed

lemma diff_overflow: "ltI64 (a - b) a = ltI64 0 b \<longleftrightarrow> inInt64 (sint a - sint b)"
proof -
  have r: "inInt64 (sint a)" "inInt64 (sint b)" by simp_all
  have "sint (a - b) = (let z = sint a - sint b in
      if z < - (2 ^ 63) then z + 2 ^ 64 else if 2 ^ 63 \<le> z then z - 2 ^ 64 else z)"
    unfolding sint_diff Let_def using r by (intro wrap_once) (simp_all add: inInt64_def)
  then show ?thesis using r by (auto simp: ltI64_def inInt64_def Let_def split: if_splits)
qed

lemma sdiv_remainder: "y \<noteq> 0 \<Longrightarrow> \<bar>p - (p sdiv y) * y\<bar> < \<bar>y :: int\<bar>"
  using smod_int_range [where a = p and b = y] by (auto simp: minus_sdiv_mult_eq_smod)

lemma sint_0_iff [simp]: "sint (a :: int64) = 0 \<longleftrightarrow> a = 0"
  using sint_eq_iff [of a 0] by simp

lemma sint_neg1 [simp]: "sint (- 1 :: int64) = - 1"
  by simp

text \<open>The product is exact when dividing it by \<open>b\<close> gives \<open>a\<close> back, two corner cases apart.\<close>

lemma mult_overflow:
  assumes "a \<noteq> 0" "b \<noteq> 0"
  shows "(divI64 (a * b) b \<noteq> a \<or> a = minInt64 \<and> b = -1 \<or> b = minInt64 \<and> a = -1) \<longleftrightarrow>
    \<not> inInt64 (sint a * sint b)"
proof (cases "a = minInt64 \<and> b = -1 \<or> b = minInt64 \<and> a = -1")
  case True
  then show ?thesis by (auto simp: inInt64_def)
next
  case False
  let ?x = "sint a" and ?y = "sint b" and ?p = "sint (a * b)"
  have y: "?y \<noteq> 0" using assms by simp
  show ?thesis
  proof (cases "inInt64 (?x * ?y)")
    case True
    then have "?p = ?x * ?y" by (simp only: sint_mult sint_i64)
    then have "divI64 (a * b) b = a" using y by (simp add: divI64_def sdiv_mult_cancel)
    with True False show ?thesis by simp
  next
    case out: False
    obtain k where k: "?p = ?x * ?y - k * 2 ^ 64" using sint_i64_mod [of "?x * ?y"] by (metis sint_mult)
    have "k \<noteq> 0"
    proof
      assume "k = 0"
      then have "?x * ?y = ?p" using k by simp
      then show False using out inInt64_sint [of "a * b"] by simp
    qed
    then have big: "2 ^ 64 \<le> \<bar>?p - ?x * ?y\<bar>" using k by (simp add: abs_mult)
    have "divI64 (a * b) b \<noteq> a"
    proof
      assume eq: "divI64 (a * b) b = a"
      have "\<not> (a * b = minInt64 \<and> b = i64 (- 1))"
      proof
        assume "a * b = minInt64 \<and> b = i64 (- 1)"
        then have "a = minInt64" "b = - 1" using eq by (auto simp: divI64_def minInt64_def)
        with False show False by simp
      qed
      from sint_divI64 [OF this] eq have "?p sdiv ?y = ?x" by simp
      with sdiv_remainder [OF y, of ?p] have "\<bar>?p - ?x * ?y\<bar> < \<bar>?y\<bar>" by simp
      moreover have "\<bar>?y\<bar> \<le> 2 ^ 63" using inInt64_sint [of b] by (auto simp: inInt64_def)
      ultimately show False using big by simp
    qed
    with out show ?thesis by simp
  qed
qed

text \<open>The exact result over the integers; Go's \<open>/\<close> and \<open>%\<close> truncate towards zero.\<close>

definition exactInt :: "string \<Rightarrow> int \<Rightarrow> int \<Rightarrow> int" where
  "exactInt op1 x y =
     (if op1 = ''+'' then x + y else if op1 = ''-'' then x - y else if op1 = ''*'' then x * y
      else if op1 = ''/'' then x sdiv y else x smod y)"

definition intOps :: "string list" where "intOps = [''+'', ''-'', ''*'', ''/'', ''%'']"

lemma intArithmetic_exact:
  assumes "op1 \<in> set intOps"
  shows "intArithmetic op1 a b =
    (if op1 \<in> {''/'', ''%''} \<and> sint b = 0 then evalErr DivByZero
     else if inInt64 (exactInt op1 (sint a) (sint b)) \<and> \<not> (op1 = ''%'' \<and> a = minInt64 \<and> b = -1)
     then Inr (VInt (i64 (exactInt op1 (sint a) (sint b))))
     else evalErr IntOverflow)"
proof -
  consider "op1 = ''+''" | "op1 = ''-''" | "op1 = ''*''" | "op1 = ''/''" | "op1 = ''%''"
    using assms by (auto simp: intOps_def)
  then show ?thesis
  proof cases
    case 1
    then show ?thesis using add_overflow [of a b]
      by (auto simp: intArithmetic_def exactInt_def Let_def)
  next
    case 2
    then show ?thesis using diff_overflow [of a b]
      by (auto simp: intArithmetic_def exactInt_def Let_def)
  next
    case 3
    show ?thesis
    proof (cases "a = 0 \<or> b = 0")
      case True
      then show ?thesis using 3 by (auto simp: intArithmetic_def exactInt_def inInt64_def)
    next
      case False
      then show ?thesis using 3 mult_overflow [of a b]
        by (simp add: intArithmetic_def exactInt_def Let_def)
    qed
  next
    case 4
    have "inInt64 (sint a sdiv sint b) \<longleftrightarrow> \<not> (a = minInt64 \<and> b = -1)" if "b \<noteq> 0"
    proof (cases "a = minInt64 \<and> b = -1")
      case True
      then show ?thesis by (simp add: inInt64_def)
    next
      case False
      then show ?thesis
        using sdiv_inInt64 [of "sint a" "sint b"] by (auto simp: sint_eq_iff [of a] sint_eq_iff [of b])
    qed
    then show ?thesis using 4 by (auto simp: intArithmetic_def exactInt_def divI64_def)
  next
    case 5
    then show ?thesis using smod_inInt64 [of "sint b" "sint a"]
      by (auto simp: intArithmetic_def exactInt_def remI64_def)
  qed
qed

subsection \<open>Conversions between int and double\<close>

text \<open>A double that \<open>int\<close> accepts is converted exactly, without wrapping.\<close>

lemma truncInt_inInt64:
  assumes "0 \<le> m" "fless (FNum s m e) f2p63" "\<not> fless (FNum s m e) (fneg f2p63)"
  shows "inInt64 (truncInt s m e)"
proof -
  have two: "(2::int) ^ 63 = 2 ^ 52 * 2 ^ 11" by simp
  show ?thesis
  proof (cases "11 \<le> e")
    case True
    then have c: "min e 11 = 11" by simp
    have u: "signedMant s m * 2 ^ nat (e - 11) < 2 ^ 52" "- (2 ^ 52) \<le> signedMant s m * 2 ^ nat (e - 11)"
      using assms(2,3) c by (simp_all add: f2p63_def alignTo_def signedMant_def Let_def)
    have "nat e = nat (e - 11) + 11" using True by simp
    then have "truncInt s m e = signedMant s m * 2 ^ nat (e - 11) * 2 ^ 11"
      using True by (simp add: truncInt_def signedMant_def power_add)
    with u show ?thesis by (simp add: inInt64_def)
  next
    case False
    then have c: "min e 11 = e" by simp
    have u: "signedMant s m < 2 ^ 52 * 2 ^ nat (11 - e)" "- (2 ^ 52 * 2 ^ nat (11 - e)) \<le> signedMant s m"
      using assms(2,3) c by (simp_all add: f2p63_def alignTo_def signedMant_def Let_def)
    show ?thesis
    proof (cases "0 \<le> e")
      case True
      then have "(2::int) ^ 11 = 2 ^ nat (11 - e) * 2 ^ nat e" using False by (simp flip: power_add add: nat_add_distrib [symmetric])
      then have e63: "(2::int) ^ 63 = 2 ^ 52 * 2 ^ nat (11 - e) * 2 ^ nat e" using two by (simp add: mult.commute)
      have "truncInt s m e = signedMant s m * 2 ^ nat e" using True by (simp add: truncInt_def signedMant_def)
      then show ?thesis unfolding inInt64_def e63
        using u by (metis mult_minus_left mult_right_mono mult_strict_right_mono zero_le_numeral zero_le_power zero_less_numeral zero_less_power)
    next
      case neg: False
      let ?k = "2 ^ nat (- e) :: int"
      have "nat (11 - e) = nat (- e) + 11" using neg by simp
      then have e63: "2 ^ 52 * 2 ^ nat (11 - e) = 2 ^ 63 * ?k" by (simp add: power_add)
      have k: "0 < ?k" by simp
      have t: "truncInt s m e = signedMant s (m div ?k)" using neg by (simp add: truncInt_def)
      show ?thesis
      proof (cases s)
        case True
        then have "m \<le> 2 ^ 63 * ?k" using u e63 by (simp add: signedMant_def)
        then have "m div ?k \<le> 2 ^ 63" using zdiv_mono1 [OF _ k, of m "2 ^ 63 * ?k"] by simp
        moreover have "0 \<le> m div ?k" using assms(1) k by (simp add: pos_imp_zdiv_nonneg_iff)
        ultimately show ?thesis using t True by (simp add: inInt64_def signedMant_def)
      next
        case False
        then have "m < 2 ^ 63 * ?k" using u e63 by (simp add: signedMant_def)
        then have "m div ?k < 2 ^ 63" using div_mult_mod_eq [of m ?k] pos_mod_sign [OF k, of m] mult_right_mono [of "2 ^ 63" "m div ?k" ?k] k by linarith
        moreover have "0 \<le> m div ?k" using assms(1) k by (simp add: pos_imp_zdiv_nonneg_iff)
        ultimately show ?thesis using t False by (simp add: inInt64_def signedMant_def)
      qed
    qed
  qed
qed

lemma toInt_exact:
  assumes "0 \<le> m" "toInt (VDouble (FNum s m e)) = Inr (VInt i)"
  shows "sint i = truncInt s m e"
  using assms truncInt_inInt64 [of m s e] by (auto simp: toInt_def split: if_splits)


lemma ofInt_scaled:
  assumes "\<bar>z\<bar> < 2 ^ 53"
  shows "\<exists>e. ofInt z = FNum (z < 0) (\<bar>z\<bar> * 2 ^ nat (- e)) e \<and> e \<le> 0"
proof (cases "z = 0")
  case True
  then show ?thesis by (auto simp: ofInt_def roundF_def fzero_def intro: exI [of _ "- 1074"])
next
  case False
  with assms have n: "0 < \<bar>z\<bar>" "\<bar>z\<bar> < 2 ^ 53" by auto
  have "bitlen \<bar>z\<bar> - 53 \<le> 0" using bitlen_le_53 [OF n] by simp
  then show ?thesis using roundF_int [OF n] by (auto simp: ofInt_def intro: exI [of _ "bitlen \<bar>z\<bar> - 53"])
qed

text \<open>An integer below \<open>2^53\<close> survives \<open>double\<close> and \<open>int\<close>.\<close>

lemma toInt_ofInt:
  assumes "\<bar>z\<bar> < 2 ^ 53"
  shows "toInt (VDouble (ofInt z)) = Inr (VInt (i64 z))"
proof -
  obtain e where e: "ofInt z = FNum (z < 0) (\<bar>z\<bar> * 2 ^ nat (- e)) e" "e \<le> 0"
    using ofInt_scaled [OF assms] by blast
  then obtain k where k: "e = - int k" by (metis nat_0_le neg_0_le_iff_le minus_minus)
  have c: "min e 11 = e" using e(2) by simp
  have sg: "signedMant (z < 0) (\<bar>z\<bar> * 2 ^ k) = z * 2 ^ k" by (simp add: signedMant_def)
  have "(2::int) ^ nat (11 - e) = 2 ^ 11 * 2 ^ k" by (simp add: k nat_add_distrib power_add)
  moreover have "z * 2 ^ k < 2 ^ 63 * 2 ^ k" using assms by simp
  moreover have "- (2 ^ 63) * 2 ^ k \<le> z * 2 ^ k" by (rule mult_right_mono) (use assms in simp_all)
  ultimately have "fless (ofInt z) f2p63" "\<not> fless (ofInt z) (fneg f2p63)"
    using c sg by (simp_all add: e(1) f2p63_def Let_def alignTo_def k signedMant_def)
  moreover have "truncInt (z < 0) (\<bar>z\<bar> * 2 ^ nat (- e)) e = z"
    using ofInt_exact [OF assms] e(1) by auto
  ultimately show ?thesis by (simp add: toInt_def e(1))
qed


end
