(* ===== verification/Soundness.thy ===== *)
theory Soundness
  imports Typing RegexCompiles EvalProps
begin

text \<open>
  Type soundness of the rule language: an expression the checker accepts, on values that conform
  to their types, evaluates to a value of its type or stops with one of the run-time errors
  (a range, overflow or division error). It never panics and never reaches an error that stands
  for a wrong operand.
\<close>

subsection \<open>Well-formed schemas and conforming values\<close>

text \<open>Every enum that a type mentions has a value; the compiler rejects an empty enum.\<close>

fun tyOk :: "schema \<Rightarrow> ty \<Rightarrow> bool" where
  "tyOk S (TyEnum e) = (enValues (enumAt S e) \<noteq> [])"
| "tyOk S (TyList t) = tyOk S t"
| "tyOk S (TyMap t) = tyOk S t"
| "tyOk S _ = True"

fun irTypeOk :: "schema \<Rightarrow> irType \<Rightarrow> bool" where
  "irTypeOk S (TEnum e) = (enValues (enumAt S e) \<noteq> [])"
| "irTypeOk S (TMap k v) = irTypeOk S v"
| "irTypeOk S _ = True"

definition wfSchema :: "schema \<Rightarrow> bool" where
  "wfSchema S \<longleftrightarrow> list_all (\<lambda>m. list_all (\<lambda>f. pred_option (irTypeOk S) (fType f)) (mFields m)) (schMessages S)"

inductive conforms :: "schema \<Rightarrow> val \<Rightarrow> ty \<Rightarrow> bool" for S where
  C_Bool: "conforms S (VBool b) TyBool"
| C_Int: "conforms S (VInt i) TyInt"
| C_Double: "conforms S (VDouble c) TyDouble"
| C_String: "conforms S (VString s) TyString"
| C_Bytes: "conforms S (VBytes s) TyBytes"
| C_Enum: "enumMember S e s \<Longrightarrow> conforms S (VString s) (TyEnum e)"
| C_List: "\<forall>v \<in> set vs. conforms S v t \<Longrightarrow> conforms S (VList vs) (TyList t)"
| C_Map: "distinct (map fst kvs) \<Longrightarrow> \<forall>kv \<in> set kvs. conforms S (snd kv) t \<Longrightarrow>
    conforms S (VMap kvs) (TyMap t)"
| C_Message: "distinct (map fst kvs) \<Longrightarrow>
    \<forall>kv \<in> set kvs. \<forall>f t. find (\<lambda>f. fName f = fst kv) (mFields (msgAt S m)) = Some f \<longrightarrow>
      fieldType f = Inr t \<longrightarrow> conforms S (snd kv) t \<Longrightarrow>
    conforms S (VMap kvs) (TyMessage m)"

inductive_cases conforms_BoolE: "conforms S v TyBool"
inductive_cases conforms_IntE: "conforms S v TyInt"
inductive_cases conforms_DoubleE: "conforms S v TyDouble"
inductive_cases conforms_StringE: "conforms S v TyString"
inductive_cases conforms_BytesE: "conforms S v TyBytes"
inductive_cases conforms_EnumE: "conforms S v (TyEnum e)"
inductive_cases conforms_ListE: "conforms S v (TyList t)"
inductive_cases conforms_MapE: "conforms S v (TyMap t)"
inductive_cases conforms_MessageE: "conforms S v (TyMessage m)"

lemmas conforms_elims = conforms_BoolE conforms_IntE conforms_DoubleE conforms_StringE
  conforms_BytesE conforms_EnumE conforms_ListE conforms_MapE conforms_MessageE

lemma valueType_ok: "valueType ft name = Inr t \<Longrightarrow> irTypeOk S ft \<Longrightarrow> tyOk S t"
  by (induction ft name arbitrary: t rule: valueType.induct)
    (auto simp: bindE_eq_Inr split: scalarKind.splits)

lemma fieldType_ok: "fieldType f = Inr t \<Longrightarrow> pred_option (irTypeOk S) (fType f) \<Longrightarrow> tyOk S t"
  by (auto simp: fieldType_def bindE_eq_Inr dest: valueType_ok split: if_splits option.splits)

lemma msgAt_field_ok:
  assumes "wfSchema S" "find P (mFields (msgAt S m)) = Some f"
  shows "pred_option (irTypeOk S) (fType f)"
proof -
  have "f \<in> set (mFields (msgAt S m))" using assms(2) by (auto simp: find_Some_iff)
  then show ?thesis using assms(1)
    by (auto simp: msgAt_def nilMessage_def wfSchema_def list_all_iff split: if_splits)
qed

lemma selected_ok:
  "wfSchema S \<Longrightarrow> find P (mFields (msgAt S m)) = Some f \<Longrightarrow> fieldType f = Inr t \<Longrightarrow> tyOk S t"
  by (rule fieldType_ok [OF _ msgAt_field_ok])

lemma zeroValue_conforms: "tyOk S t \<Longrightarrow> \<exists>v. zeroValue S t = Some v \<and> conforms S v t"
  by (cases t) (auto intro!: conforms.intros simp: enumMember_def neq_Nil_conv)

lemma zeroOf_conforms: "tyOk S t \<Longrightarrow> \<exists>v. zeroOf S (Some t) = Inr v \<and> conforms S v t"
  using zeroValue_conforms [of S t] by (auto simp: zeroOf_def orPanic_def)

text \<open>The variables hold values of the types the context gives them.\<close>

definition conformVars :: "schema \<Rightarrow> vars \<Rightarrow> tyContext \<Rightarrow> bool" where
  "conformVars S vars G \<longleftrightarrow> (\<forall>x t. G x = Some t \<longrightarrow> (\<exists>v. vars x = Some v \<and> conforms S v t))"

lemma conformVars_upd:
  "conformVars S vars G \<Longrightarrow> conforms S v t \<Longrightarrow> conformVars S (vars(x \<mapsto> v)) (G(x \<mapsto> t))"
  by (auto simp: conformVars_def)

subsection \<open>Safe evaluations\<close>

definition runtimeError :: "failure \<Rightarrow> bool" where
  "runtimeError f =
     (case f of
        EvalError (IndexRange i n) \<Rightarrow> True
      | EvalError (NoSuchKey k) \<Rightarrow> True
      | EvalError IntOverflow \<Rightarrow> True
      | EvalError DivByZero \<Rightarrow> True
      | EvalError NotFinite \<Rightarrow> True
      | EvalError DoubleTooBig \<Rightarrow> True
      | _ \<Rightarrow> False)"

fun okRes :: "('a \<Rightarrow> bool) \<Rightarrow> failure + 'a \<Rightarrow> bool" where
  "okRes Q (Inl f) = runtimeError f"
| "okRes Q (Inr x) = Q x"

text \<open>The evaluation restores the variables and ends in a \<open>Q\<close> or in a run-time error.\<close>

definition safe :: "('a \<Rightarrow> bool) \<Rightarrow> 'a evaluation \<Rightarrow> vars \<Rightarrow> bool" where
  "safe Q m vars \<longleftrightarrow> snd (m vars) = vars \<and> okRes Q (fst (m vars))"

lemma safe_retV: "Q x \<Longrightarrow> safe Q (retV x) vars"
  by (simp add: safe_def retV_def)

lemma safe_liftV: "okRes Q r \<Longrightarrow> safe Q (liftV r) vars"
  by (simp add: safe_def liftV_def)

lemma safe_bindV: "safe P m vars \<Longrightarrow> (\<And>x. P x \<Longrightarrow> safe Q (k x) vars) \<Longrightarrow> safe Q (bindV m k) vars"
  by (cases "m vars"; cases "fst (m vars)") (auto simp: safe_def bindV_def)

lemma safe_evalAll:
  "list_all2 (\<lambda>m Q. safe Q m vars) ms Qs \<Longrightarrow> safe (\<lambda>vs. list_all2 (\<lambda>v Q. Q v) vs Qs) (evalAll ms) vars"
proof (induction ms Qs rule: list_all2_induct)
  case (Cons m ms Q Qs)
  show ?case unfolding evalAll.simps
    by (rule safe_bindV [OF Cons(1)], rule safe_bindV [OF Cons(3)]) (auto intro: safe_retV)
qed (simp add: safe_retV)

subsection \<open>Operations on conforming values\<close>

lemma okRes_bind: "okRes P m \<Longrightarrow> (\<And>x. P x \<Longrightarrow> okRes Q (k x)) \<Longrightarrow> okRes Q (bindE m k)"
  by (cases m) auto

lemma goEqual_ok:
  assumes "conforms S l t" "conforms S r t" "isBasicTy t"
  shows "\<exists>b. goEqual l r = Some b"
  using assms by (auto simp: isBasicTy_def isEnumTy_def goEqual_def elim!: conforms_elims split: ty.splits)

lemma containsItem_ok:
  "\<forall>v \<in> set vs. conforms S v t \<Longrightarrow> conforms S x t \<Longrightarrow> isBasicTy t \<Longrightarrow> containsItem vs x \<noteq> None"
proof (induction vs)
  case (Cons v vs)
  then obtain b where "goEqual v x = Some b" using goEqual_ok by fastforce
  with Cons show ?case by (cases b) auto
qed simp

lemma intArithmetic_ok:
  "op1 \<in> set intOps \<Longrightarrow> okRes (\<lambda>v. conforms S v TyInt) (intArithmetic op1 a b)"
  by (subst intArithmetic_exact) (simp_all add: C_Int runtimeError_def)

lemma floatArithmetic_ok: "okRes (\<lambda>v. conforms S v TyDouble) (floatArithmetic op1 a b)"
  by (simp add: floatArithmetic_def Let_def C_Double runtimeError_def)

lemma arithmetic_ok:
  assumes "conforms S l t" "conforms S r t" "isNumTy t" "op1 \<in> set intOps"
  shows "okRes (\<lambda>v. conforms S v t) (arithmetic op1 l r)"
  using assms intArithmetic_ok floatArithmetic_ok
  by (auto simp: isNumTy_def arithmetic_def elim!: conforms_elims)

lemma indexValue_list_ok:
  assumes "conforms S x (TyList t)"
  shows "okRes (\<lambda>v. conforms S v t) (indexValue x i)"
  using assms by (auto simp: indexValue_def Let_def runtimeError_def elim!: conforms_elims)

lemma indexValue_map_ok:
  assumes "conforms S x (TyMap t)"
  shows "okRes (\<lambda>v. conforms S v t) (indexValue x i)"
  using assms by (fastforce simp: indexValue_def runtimeError_def elim!: conforms_elims
    dest!: map_of_SomeD split: option.split)

lemma toInt_ok: "conforms S x t \<Longrightarrow> isNumTy t \<Longrightarrow> okRes (\<lambda>v. conforms S v TyInt) (toInt x)"
  by (auto simp: isNumTy_def toInt_def runtimeError_def C_Int elim!: conforms_elims split: f64.split)

lemma negate_ok: "conforms S x t \<Longrightarrow> isNumTy t \<Longrightarrow> okRes (\<lambda>v. conforms S v t) (negate x)"
  by (auto simp: isNumTy_def negate_def runtimeError_def C_Int C_Double elim!: conforms_elims)

lemma select_conforms:
  assumes "conforms S x (TyMessage m)" "find (\<lambda>f. fName f = name) (mFields (msgAt S m)) = Some f"
    "fieldType f = Inr t" "map_of (asMap x) name = Some v"
  shows "conforms S v t"
  using assms by (fastforce simp: asMap_def elim!: conforms_elims dest!: map_of_SomeD)

lemma hasField_ok:
  assumes wf: "wfSchema S" and x: "conforms S x (TyMessage m)"
    and f: "find (\<lambda>f. fName f = name) (mFields (msgAt S m)) = Some f" "fieldType f = Inr t"
  shows "okRes (\<lambda>v. conforms S v TyBool) (hasField S (Some t) name (Some f) x)"
proof (cases "map_of (asMap x) name")
  case None
  then show ?thesis by (simp add: hasField_def C_Bool)
next
  case (Some v)
  have v: "conforms S v t" by (rule select_conforms [OF x f Some])
  obtain z where z: "zeroOf S (Some t) = Inr z" "conforms S z t"
    using zeroOf_conforms [OF selected_ok [OF wf f]] by blast
  show ?thesis
  proof (cases "isBasicTy t")
    case True
    then obtain b where "goEqual v z = Some b" using goEqual_ok [OF v z(2)] by blast
    then show ?thesis using Some z by (auto simp: hasField_def C_Bool orPanic_def split: val.split)
  next
    case False
    then show ?thesis using v Some
      by (cases t) (auto simp: hasField_def C_Bool isBasicTy_def isEnumTy_def elim!: conforms_elims)
  qed
qed

lemma macroLoop_safe:
  "\<forall>item \<in> set items. safe (\<lambda>v. conforms S v TyBool) body (vars(var \<mapsto> item)) \<Longrightarrow>
    okRes (\<lambda>v. conforms S v TyBool) (fst (macroLoop kind var body items vars))"
proof (induction items arbitrary: vars)
  case (Cons item items)
  have body: "safe (\<lambda>v. conforms S v TyBool) body (vars(var \<mapsto> item))"
    using Cons.prems by (simp del: fun_upd_apply)
  have "okRes (\<lambda>v. conforms S v TyBool) (fst (macroLoop kind var body items (vars(var \<mapsto> item))))"
    by (rule Cons.IH) (use Cons.prems in \<open>simp del: fun_upd_apply\<close>)
  then show ?case using body
    by (cases "body (vars(var \<mapsto> item))"; cases "fst (body (vars(var \<mapsto> item)))")
      (auto simp: bindV_def retV_def safe_def C_Bool simp del: fun_upd_apply)
qed (simp add: C_Bool)

lemma evalMacro_safe:
  assumes r: "safe (\<lambda>v. conforms S v (TyList t)) range1 vars"
    and b: "\<And>item. conforms S item t \<Longrightarrow> safe (\<lambda>v. conforms S v TyBool) body (vars(var \<mapsto> item))"
    and restore: "restores body"
  shows "safe (\<lambda>v. conforms S v TyBool) (evalMacro kind var range1 body) vars"
  unfolding evalMacro_def
proof (rule safe_bindV [OF r])
  fix v assume "conforms S v (TyList t)"
  then have "\<forall>item \<in> set (asList v). conforms S item t" by (auto simp: asList_def elim!: conforms_elims)
  then have ok: "okRes (\<lambda>v. conforms S v TyBool) (fst (macroLoop kind var body (asList v) vars))"
    using b by (intro macroLoop_safe) blast
  obtain w where w: "snd (macroLoop kind var body (asList v) vars) = vars(var := w)"
    using macroLoop_vars [OF restore] by blast
  have "vars(var := w, var := vars var) = vars" by simp
  with ok w show "safe (\<lambda>v. conforms S v TyBool)
      (\<lambda>vars. case macroLoop kind var body (asList v) vars of (res, vars') \<Rightarrow> (res, vars'(var := vars var))) vars"
    by (cases "macroLoop kind var body (asList v) vars") (simp add: safe_def)
qed

lemma binaryOp_arith: "op1 \<in> set intOps \<Longrightarrow> binaryOp op1 l r = arithmetic op1 l r"
  by (auto simp: intOps_def binaryOp_def)

lemma binaryOp_equal_ok:
  "conforms S l t \<Longrightarrow> conforms S r t \<Longrightarrow> isBasicTy t \<Longrightarrow> op1 = ''=='' \<or> op1 = ''!='' \<Longrightarrow>
    okRes (\<lambda>v. conforms S v TyBool) (binaryOp op1 l r)"
  using goEqual_ok [of S l t r] by (elim disjE) (auto simp: binaryOp_def orPanic_def C_Bool)

lemma binaryOp_inList_ok:
  "conforms S l t \<Longrightarrow> conforms S r (TyList t) \<Longrightarrow> isBasicTy t \<Longrightarrow>
    okRes (\<lambda>v. conforms S v TyBool) (binaryOp ''in'' l r)"
proof (elim conforms_ListE)
  fix vs assume l: "conforms S l t" "isBasicTy t" and r: "r = VList vs" "\<forall>v \<in> set vs. conforms S v t"
  obtain b where "containsItem vs l = Some b" using containsItem_ok [OF r(2) l] by blast
  then show ?thesis by (simp add: binaryOp_def contains_def orPanic_def C_Bool r(1))
qed

lemma binaryOp_inMap_ok:
  "conforms S r (TyMap t) \<Longrightarrow> okRes (\<lambda>v. conforms S v TyBool) (binaryOp ''in'' l r)"
  by (auto simp: binaryOp_def contains_def orPanic_def C_Bool elim!: conforms_elims)

lemma callFn_sized_ok: "isSizedTy t \<Longrightarrow> okRes (\<lambda>v. conforms S v TyInt) (callFn ''size'' re [x])"
  by (simp add: callFn_def argAt_def C_Int)

lemma callFn_int_ok:
  "conforms S x t \<Longrightarrow> isNumTy t \<Longrightarrow> okRes (\<lambda>v. conforms S v TyInt) (callFn ''int'' re [x])"
  using toInt_ok [of S x t] by (simp add: callFn_def argAt_def)

lemma callFn_double_ok:
  "conforms S x t \<Longrightarrow> isNumTy t \<Longrightarrow> okRes (\<lambda>v. conforms S v TyDouble) (callFn ''double'' re [x])"
  by (auto simp: callFn_def argAt_def C_Double isNumTy_def elim!: conforms_elims)

lemma callFn_string_ok:
  "fn = ''startsWith'' \<or> fn = ''endsWith'' \<or> fn = ''contains'' \<Longrightarrow>
    okRes (\<lambda>v. conforms S v TyBool) (callFn fn re [x, y])"
  by (auto simp: callFn_def argAt_def C_Bool)

lemma callFn_matches_ok:
  "validateRegex re = Inr () \<Longrightarrow> okRes (\<lambda>v. conforms S v TyBool) (callFn ''matches'' re [x, y])"
  using validateRegex_fullMatch [of re "asString x"]
  by (auto simp: callFn_def argAt_def C_Bool orPanic_def)

subsection \<open>Type soundness\<close>

text \<open>The calls that evaluate all their arguments.\<close>

lemma call_safe:
  assumes "fn \<noteq> ''has''" "list_all2 (\<lambda>m Q. safe Q m vars) (map (eval S) args) Qs"
    and "\<And>vs. list_all2 (\<lambda>v Q. Q v) vs Qs \<Longrightarrow> okRes P (callFn fn re vs)"
  shows "safe P (eval S (Call p t fn args re)) vars"
  using assms(1) by (simp) (rule safe_bindV [OF safe_evalAll [OF assms(2)]], rule safe_liftV [OF assms(3)])

lemma typed_safe:
  assumes wf: "wfSchema S"
  shows "typed S G n t \<Longrightarrow> conformVars S vars G \<Longrightarrow> safe (\<lambda>v. conforms S v t) (eval S n) vars"
proof (induction arbitrary: vars rule: typed.induct)
  case (T_List es G t p)
  have "list_all2 (\<lambda>m Q. safe Q m vars) (map (eval S) es) (map (\<lambda>_ v. conforms S v t) es)"
    using T_List by (simp add: list_all2_map1 list_all2_map2 list_all2_same)
  from safe_evalAll [OF this] show ?case
    unfolding eval.simps
  proof (rule safe_bindV)
    fix vs assume "list_all2 (\<lambda>v Q. Q v) vs (map (\<lambda>_ v. conforms S v t) es)"
    then have "\<forall>v \<in> set vs. conforms S v t"
      by (induction vs "map (\<lambda>_ v. conforms S v t) es" arbitrary: es rule: list_all2_induct) auto
    then show "safe (\<lambda>v. conforms S v (TyList t)) (retV (VList vs)) vars"
      by (intro safe_retV C_List)
  qed
next
  case (T_Ident G x t p)
  then show ?case by (force simp: conformVars_def safe_def)
next
  case (T_Select G x m name f t p)
  show ?case unfolding eval.simps
  proof (rule safe_bindV [OF T_Select.IH [OF T_Select.prems]])
    fix v assume v: "conforms S v (TyMessage m)"
    obtain z where "zeroOf S (Some t) = Inr z" "conforms S z t"
      using zeroOf_conforms [OF selected_ok [OF wf T_Select.hyps(2,3)]] by blast
    then show "safe (\<lambda>v. conforms S v t)
        (case map_of (asMap v) name of None \<Rightarrow> liftV (zeroOf S (Some t)) | Some w \<Rightarrow> retV w) vars"
      using select_conforms [OF v T_Select.hyps(2,3)]
      by (auto intro!: safe_retV safe_liftV split: option.split)
  qed
next
  case (T_IndexList G x t i p)
  then show ?case by (auto intro!: safe_bindV [OF T_IndexList.IH(1)] safe_bindV [OF T_IndexList.IH(2)]
    safe_liftV indexValue_list_ok)
next
  case (T_IndexMap G x t i p)
  then show ?case by (auto intro!: safe_bindV [OF T_IndexMap.IH(1)] safe_bindV [OF T_IndexMap.IH(2)]
    safe_liftV indexValue_map_ok)
next
  case (T_Size G x t p re)
  show ?case by (rule call_safe [where Qs = "[\<lambda>v. conforms S v t]"])
    (use T_Size callFn_sized_ok in \<open>auto simp: list_all2_Cons2\<close>)
next
  case (T_Has G x m name f t p q re)
  have "safe (\<lambda>v. conforms S v TyBool)
      (bindV (eval S x) (\<lambda>v. liftV (hasField S (Some t) name (Some f) v))) vars"
    by (rule safe_bindV [OF T_Has.IH [OF T_Has.prems]], rule safe_liftV, rule hasField_ok [OF wf _ T_Has.hyps(2,3)])
  then show ?case by simp
next
  case (T_ToInt G x t p re)
  show ?case by (rule call_safe [where Qs = "[\<lambda>v. conforms S v t]"])
    (use T_ToInt callFn_int_ok in \<open>auto simp: list_all2_Cons2\<close>)
next
  case (T_ToDouble G x t p re)
  show ?case by (rule call_safe [where Qs = "[\<lambda>v. conforms S v t]"])
    (use T_ToDouble callFn_double_ok in \<open>auto simp: list_all2_Cons2\<close>)
next
  case (T_StringFn fn G x y p re)
  show ?case by (rule call_safe [where Qs = "[\<lambda>v. conforms S v TyString, \<lambda>v. conforms S v TyString]"])
    (use T_StringFn callFn_string_ok in \<open>auto simp: list_all2_Cons2\<close>)
next
  case (T_Matches G x re p q ot)
  show ?case by (rule call_safe [where Qs = "[\<lambda>v. conforms S v TyString, \<lambda>v. True]"])
    (use T_Matches callFn_matches_ok in \<open>auto simp: list_all2_Cons2 intro: safe_retV\<close>)
next
  case (T_Macro G x t v b p k)
  show ?case unfolding eval.simps
    by (rule evalMacro_safe [OF T_Macro.IH(1) [OF T_Macro.prems] _ eval_restores])
      (rule T_Macro.IH(2) [OF conformVars_upd [OF T_Macro.prems]])
next
  case (T_Not G x p)
  then show ?case by (auto intro!: safe_bindV [OF T_Not.IH] safe_retV C_Bool)
next
  case (T_Neg G x t op1 p)
  then show ?case by (auto intro!: safe_bindV [OF T_Neg.IH] safe_liftV negate_ok)
next
  case (T_Logic op1 G l r p)
  then show ?case by (auto simp: evalShort_def intro!: safe_bindV [OF T_Logic.IH(1)] T_Logic.IH(2) safe_retV C_Bool)
next
  case (T_Equal op1 G l t r p)
  then show ?case by (auto intro!: safe_bindV [OF T_Equal.IH(1)] safe_bindV [OF T_Equal.IH(2)] safe_liftV
    binaryOp_equal_ok)
next
  case (T_Order op1 G l t r p)
  then show ?case by (auto simp: binaryOp_def intro!: safe_bindV [OF T_Order.IH(1)] safe_bindV [OF T_Order.IH(2)] safe_liftV C_Bool)
next
  case (T_Arith op1 G l t r p)
  have "op1 \<in> set intOps" using T_Arith.hyps by (auto simp: intOps_def)
  then have "okRes (\<lambda>v. conforms S v t) (binaryOp op1 a b)" if "conforms S a t" "conforms S b t" for a b
    using arithmetic_ok [OF that] T_Arith.hyps by (simp add: binaryOp_arith)
  with T_Arith show ?case by (auto intro!: safe_bindV [OF T_Arith.IH(1)] safe_bindV [OF T_Arith.IH(2)] safe_liftV)
next
  case (T_Mod G l r p)
  have "okRes (\<lambda>v. conforms S v TyInt) (binaryOp ''%'' a b)" if "conforms S a TyInt" "conforms S b TyInt" for a b
    using arithmetic_ok [OF that] by (simp add: binaryOp_def intOps_def isNumTy_def)
  with T_Mod show ?case by (auto intro!: safe_bindV [OF T_Mod.IH(1)] safe_bindV [OF T_Mod.IH(2)] safe_liftV)
next
  case (T_InList G l t r p)
  then show ?case by (auto intro!: safe_bindV [OF T_InList.IH(1)] safe_bindV [OF T_InList.IH(2)] safe_liftV
    binaryOp_inList_ok)
next
  case (T_InMap G l r t p)
  then show ?case by (auto intro!: safe_bindV [OF T_InMap.IH(1)] safe_bindV [OF T_InMap.IH(2)] safe_liftV
    binaryOp_inMap_ok)
next
  case (T_Cond G c a t b p)
  then show ?case by (auto intro!: safe_bindV [OF T_Cond.IH(1)])
qed (auto intro!: safe_retV conforms.intros)

text \<open>
  \<open>Check\<close> then \<open>Eval\<close>: an accepted expression, on conforming variables, yields a value of its
  type or one of the run-time errors.
\<close>

lemma check_eval_sound:
  assumes "wfSchema S" "litsOk S n" "check S env n = (n', Inr t)" "conformVars S vars (map_of env)"
  shows "okRes (\<lambda>v. conforms S v t) (evalExpr S n' vars)"
  using typed_safe [OF assms(1) _ assms(4)] check_typed [OF assms(3,2)]
  by (auto simp: safe_def evalExpr_def)

text \<open>\<open>CheckRule\<close> then \<open>EvalBool\<close>.\<close>

lemma checkRule_sound:
  assumes "wfSchema S" "checkRule S env src = Inr n" "conformVars S vars (map_of env)"
  shows "(\<exists>b. evalExpr S n vars = Inr (VBool b) \<and> evalBool S n vars = Inr b) \<or>
    (\<exists>f. evalBool S n vars = Inl f \<and> runtimeError f)"
proof -
  obtain m where c: "check S env m = (n, Inr TyBool)" "litsOk S m"
    using checkRule_check [OF assms(2)] by blast
  from check_eval_sound [OF assms(1) c(2,1) assms(3)] show ?thesis
    by (cases "evalExpr S n vars") (auto simp: evalBool_def asBool_def elim!: conforms_BoolE)
qed

end
