(* ===== verification/Lower.thy ===== *)
theory Lower
  imports Typing
begin

text \<open>
  \<open>internal/onkexpr/lower.go\<close>: a checked rule as a tree of \<open>Op\<close>s, the form the code generators
  print. The lowerer's state is the table of regular expressions, which grows, and the stack of
  macro variables, whose positions are the slots. \<open>None\<close> is a nil-pointer panic, which an
  unchecked tree could cause.
\<close>

datatype (plugins del: quickcheck_narrowing quickcheck_random quickcheck_exhaustive
    quickcheck_full_exhaustive quickcheck_bounded_forall) opKind =
    OpInt | OpDouble | OpStr | OpBool | OpList | OpSelf | OpSlot | OpSelect | OpIndexList
  | OpIndexMap | OpSize | OpStartsWith | OpEndsWith | OpContains | OpMatches | OpToInt
  | OpToDouble | OpHas | OpAll | OpExists | OpNot | OpNegInt | OpNegDouble | OpTernary | OpAnd
  | OpOr | OpEq | OpNe | OpLt | OpLe | OpGt | OpGe | OpIn | OpAdd | OpSub | OpMul | OpDiv | OpMod
  | OpFAdd | OpFSub | OpFMul | OpFDiv

datatype zeroKind = ZeroStr | ZeroInt | ZeroDouble | ZeroBool | ZeroBytes | ZeroList | ZeroMap | ZeroMsg

datatype op = Op (opKind: opKind) (opInt: int64) (opDouble: f64) (opStr: string) (opBool: bool)
  (opName: string) (opZero: zeroKind) (opPtr: bool) (opSlot: nat) (opRegex: nat) (opArgs: "op list")

text \<open>A composite literal \<open>&Op{Kind: k, Args: args}\<close>: the other fields are zero.\<close>

definition opNode :: "opKind \<Rightarrow> op list \<Rightarrow> op" where
  "opNode k args = Op k 0 (fzero False) [] False [] ZeroStr False 0 0 args"

definition opSelect :: "string \<Rightarrow> zeroKind \<Rightarrow> op \<Rightarrow> op" where
  "opSelect name z x = Op OpSelect 0 (fzero False) [] False name z False 0 0 [x]"

definition opIntLit :: "int64 \<Rightarrow> op" where
  "opIntLit i = Op OpInt i (fzero False) [] False [] ZeroStr False 0 0 []"

text \<open>\<open>RegexTable.Index\<close>.\<close>

fun findPattern :: "string \<Rightarrow> string list \<Rightarrow> nat option" where
  "findPattern p [] = None"
| "findPattern p (q # qs) = (if q = p then Some 0 else map_option Suc (findPattern p qs))"

definition regexIndex :: "string list \<Rightarrow> string \<Rightarrow> nat \<times> string list" where
  "regexIndex patterns p =
     (case findPattern p patterns of
        Some i \<Rightarrow> (i, patterns)
      | None \<Rightarrow> (length patterns, patterns @ [p]))"

definition zeroFor :: "field \<Rightarrow> zeroKind option" where
  "zeroFor f =
     (if fRepeated f then Some ZeroList
      else case fType f of
        None \<Rightarrow> None
      | Some (TMap k v) \<Rightarrow> Some ZeroMap
      | Some (TMessage m) \<Rightarrow> Some ZeroMsg
      | Some (TEnum e) \<Rightarrow> Some ZeroInt
      | Some (TScalar k) \<Rightarrow> Some
          (case k of
             ScalarString \<Rightarrow> ZeroStr
           | ScalarBool \<Rightarrow> ZeroBool
           | ScalarFloat32 \<Rightarrow> ZeroDouble
           | ScalarFloat64 \<Rightarrow> ZeroDouble
           | ScalarBytes \<Rightarrow> ZeroBytes
           | _ \<Rightarrow> ZeroInt))"

definition pointerBacked :: "field \<Rightarrow> bool option" where
  "pointerBacked f =
     (if fRepeated f then Some False
      else if fOptional f then Some True
      else case fType f of None \<Rightarrow> None | Some (TMessage m) \<Rightarrow> Some True | _ \<Rightarrow> Some False)"

definition binaryKinds :: "(string \<times> opKind) list" where
  "binaryKinds = [(''&&'', OpAnd), (''||'', OpOr), (''=='', OpEq), (''!='', OpNe), (''<'', OpLt),
     (''<='', OpLe), (''>'', OpGt), (''>='', OpGe), (''in'', OpIn)]"

definition intKinds :: "(string \<times> opKind) list" where
  "intKinds = [(''+'', OpAdd), (''-'', OpSub), (''*'', OpMul), (''/'', OpDiv), (''%'', OpMod)]"

definition doubleKinds :: "(string \<times> opKind) list" where
  "doubleKinds = [(''+'', OpFAdd), (''-'', OpFSub), (''*'', OpFMul), (''/'', OpFDiv)]"

text \<open>A Go map read with a missing key gives the zero kind.\<close>

definition kindAt :: "(string \<times> opKind) list \<Rightarrow> string \<Rightarrow> opKind" where
  "kindAt m op1 = (case map_of m op1 of Some k \<Rightarrow> k | None \<Rightarrow> OpInt)"

text \<open>What a lowerer does not change: its field and the bound names.\<close>

record lowerCtx =
  lcField :: "field option"
  lcBound :: "string list"

type_synonym 'a lowering = "string list \<Rightarrow> ('a \<times> string list) option"

definition retL :: "'a \<Rightarrow> 'a lowering" where "retL x t = Some (x, t)"

definition bindL :: "'a lowering \<Rightarrow> ('a \<Rightarrow> 'b lowering) \<Rightarrow> 'b lowering" where
  "bindL m k t = (case m t of None \<Rightarrow> None | Some (x, t') \<Rightarrow> k x t')"

definition liftL :: "'a option \<Rightarrow> 'a lowering" where
  "liftL r t = map_option (\<lambda>x. (x, t)) r"

fun lowerAll :: "op lowering list \<Rightarrow> op list lowering" where
  "lowerAll [] = retL []"
| "lowerAll (m # ms) = bindL m (\<lambda>x. bindL (lowerAll ms) (\<lambda>xs. retL (x # xs)))"

fun valueIndex :: "string \<Rightarrow> enumValue list \<Rightarrow> nat option" where
  "valueIndex s [] = None"
| "valueIndex s (v # vs) = (if evName v = s then Some 0 else map_option Suc (valueIndex s vs))"

definition lowerString :: "schema \<Rightarrow> ty option \<Rightarrow> string \<Rightarrow> op" where
  "lowerString S ot val =
     (let str = Op OpStr 0 (fzero False) val False [] ZeroStr False 0 0 [] in
      case ot of
        Some (TyEnum e) \<Rightarrow>
          (case valueIndex val (enValues (enumAt S e)) of
             Some i \<Rightarrow> opIntLit (i64 (int i))
           | None \<Rightarrow> str)
      | _ \<Rightarrow> str)"

text \<open>The innermost macro variable of that name: the scan of \<open>l.vars\<close> from its end.\<close>

definition slotOf :: "string list \<Rightarrow> string \<Rightarrow> nat option" where
  "slotOf vars name = find (\<lambda>i. vars ! i = name) (rev [0..<length vars])"

definition lowerIdent :: "lowerCtx \<Rightarrow> string list \<Rightarrow> string \<Rightarrow> op option" where
  "lowerIdent c vars name =
     (let self = opNode OpSelf [] in
      case slotOf vars name of
        Some i \<Rightarrow> Some (Op OpSlot 0 (fzero False) [] False [] ZeroStr False i 0 [])
      | None \<Rightarrow>
          if name \<in> set (lcBound c) then Some (opSelect name ZeroMsg self)
          else case lcField c of
            Some f \<Rightarrow> if name = ''value'' then map_option (\<lambda>z. opSelect (fName f) z self) (zeroFor f)
                      else Some self
          | None \<Rightarrow> Some self)"

text \<open>
  \<open>call\<close>, its arguments lowered (\<open>args'\<close>); \<open>selX\<close> lowers the message of the argument of a
  \<open>has\<close>.
\<close>

definition lowerCall :: "string \<Rightarrow> node list \<Rightarrow> string \<Rightarrow> op list \<Rightarrow> (node \<times> field option) option \<Rightarrow>
    op lowering \<Rightarrow> op lowering" where
  "lowerCall fn args re args' sel selX =
     (let argType = liftL (case args of a # _ \<Rightarrow> nodeType a | [] \<Rightarrow> None);
          first = liftL (case args' of a # _ \<Rightarrow> Some a | [] \<Rightarrow> None) in
      if fn = ''size'' then retL (opNode OpSize args')
      else if fn = ''startsWith'' then retL (opNode OpStartsWith args')
      else if fn = ''endsWith'' then retL (opNode OpEndsWith args')
      else if fn = ''contains'' then retL (opNode OpContains args')
      else if fn = ''matches'' then
        (\<lambda>t. case regexIndex t re of (i, t') \<Rightarrow>
          Some (Op OpMatches 0 (fzero False) [] False [] ZeroStr False 0 i args', t'))
      else if fn = ''int'' then
        bindL argType (\<lambda>ta. if ta = TyDouble then retL (opNode OpToInt args') else first)
      else if fn = ''double'' then
        bindL argType (\<lambda>ta. if ta = TyInt then retL (opNode OpToDouble args') else first)
      else if fn = ''has'' then
        (case args of
           [] \<Rightarrow> liftL None
         | _ \<Rightarrow>
           (case sel of
              Some (x, Some f) \<Rightarrow>
                bindL (liftL (pointerBacked f)) (\<lambda>ptr. bindL selX (\<lambda>x'.
                  retL (Op OpHas 0 (fzero False) [] False (fName f) ZeroStr ptr 0 0 [x'])))
            | Some (x, None) \<Rightarrow> liftL None
            | None \<Rightarrow> retL (opNode OpBool [])))
      else retL (opNode OpBool []))"

definition lowerUnary :: "string \<Rightarrow> ty option \<Rightarrow> op \<Rightarrow> op option" where
  "lowerUnary op1 xt x =
     (if op1 = ''!'' then Some (opNode OpNot [x])
      else map_option (\<lambda>t. if t = TyInt then opNode OpNegInt [x] else opNode OpNegDouble [x]) xt)"

definition lowerBinary :: "string \<Rightarrow> ty option \<Rightarrow> op list \<Rightarrow> op option" where
  "lowerBinary op1 lt args =
     (case map_of binaryKinds op1 of
        Some k \<Rightarrow> Some (opNode k args)
      | None \<Rightarrow> map_option (\<lambda>t. opNode (if t = TyInt then kindAt intKinds op1 else kindAt doubleKinds op1) args) lt)"

definition isMapTy :: "ty \<Rightarrow> bool" where
  "isMapTy t = (case t of TyMap _ \<Rightarrow> True | _ \<Rightarrow> False)"

function (sequential) lower :: "schema \<Rightarrow> lowerCtx \<Rightarrow> string list \<Rightarrow> node \<Rightarrow> op lowering" where
  "lower S c vars (IntLit p t v) = retL (opIntLit v)"
| "lower S c vars (DoubleLit p t v) = retL (Op OpDouble 0 v [] False [] ZeroStr False 0 0 [])"
| "lower S c vars (StringLit p t v) = retL (lowerString S t v)"
| "lower S c vars (BoolLit p t v) = retL (Op OpBool 0 (fzero False) [] v [] ZeroStr False 0 0 [])"
| "lower S c vars (ListLit p t es) =
     bindL (lowerAll (map (lower S c vars) es)) (\<lambda>xs. retL (opNode OpList xs))"
| "lower S c vars (Ident p t name) = liftL (lowerIdent c vars name)"
| "lower S c vars (Select p t x name fld) =
     bindL (liftL fld) (\<lambda>f. bindL (liftL (zeroFor f)) (\<lambda>z.
     bindL (lower S c vars x) (\<lambda>x'. retL (opSelect (fName f) z x'))))"
| "lower S c vars (Index p t x idx) =
     bindL (liftL (nodeType x)) (\<lambda>xt.
     bindL (lower S c vars x) (\<lambda>x'. bindL (lower S c vars idx) (\<lambda>i'.
       retL (opNode (if isMapTy xt then OpIndexMap else OpIndexList) [x', i']))))"
| "lower S c vars (Call p t fn args re) =
     bindL (lowerAll (map (lower S c vars) args)) (\<lambda>args'.
       case args of
         Select q ot x name fld # _ \<Rightarrow> lowerCall fn args re args' (Some (x, fld)) (lower S c vars x)
       | _ \<Rightarrow> lowerCall fn args re args' None (liftL None))"
| "lower S c vars (Macro p t kind range1 var body) =
     bindL (lower S c vars range1) (\<lambda>rng.
     bindL (lower S c (vars @ [var]) body) (\<lambda>b.
       retL (Op (if kind = ''all'' then OpAll else OpExists) 0 (fzero False) [] False [] ZeroStr False
         (length vars) 0 [rng, b])))"
| "lower S c vars (Unary p t op1 x) =
     bindL (lower S c vars x) (\<lambda>x'. liftL (lowerUnary op1 (nodeType x) x'))"
| "lower S c vars (Binary p t op1 l r) =
     bindL (lower S c vars l) (\<lambda>l'. bindL (lower S c vars r) (\<lambda>r'.
       liftL (lowerBinary op1 (nodeType l) [l', r'])))"
| "lower S c vars (Ternary p t cnd a b) =
     bindL (lower S c vars cnd) (\<lambda>c'. bindL (lower S c vars a) (\<lambda>a'. bindL (lower S c vars b) (\<lambda>b'.
       retL (opNode OpTernary [c', a', b']))))"
  by pat_completeness auto
termination
proof (relation "measure (\<lambda>(S, c, vars, n). size n)", goal_cases)
  case (8 S c vars p t fn args re)
  then show ?case by (auto simp: less_Suc_eq_le)
qed (auto simp: less_Suc_eq_le size_list_estimation')

text \<open>\<open>Lower\<close> and \<open>LowerBound\<close>.\<close>

definition lowerRule :: "schema \<Rightarrow> node \<Rightarrow> field option \<Rightarrow> op lowering" where
  "lowerRule S n fld = lower S \<lparr>lcField = fld, lcBound = []\<rparr> [] n"

definition lowerBound :: "schema \<Rightarrow> node \<Rightarrow> string list \<Rightarrow> op lowering" where
  "lowerBound S n bound = lower S \<lparr>lcField = None, lcBound = bound\<rparr> [] n"

subsection \<open>The table of patterns\<close>

lemma findPattern_Some: "findPattern p ps = Some i \<Longrightarrow> i < length ps \<and> ps ! i = p"
  by (induction ps arbitrary: i) (auto split: if_splits)

lemma findPattern_None: "findPattern p ps = None \<Longrightarrow> p \<notin> set ps"
  by (induction ps) (auto split: if_splits)

text \<open>The index is in range and points at the pattern; the table only grows, without duplicates.\<close>

lemma regexIndex_result:
  assumes "regexIndex ps p = (i, ps')"
  shows "i < length ps' \<and> ps' ! i = p \<and> prefix ps ps' \<and> set ps' = insert p (set ps) \<and>
    (distinct ps \<longrightarrow> distinct ps')"
  using assms findPattern_Some [of p ps] findPattern_None [of p ps]
  by (auto simp: regexIndex_def split: option.splits)

definition tableOk :: "string list \<Rightarrow> bool" where
  "tableOk ps \<longleftrightarrow> distinct ps \<and> (\<forall>p \<in> set ps. validateRegex p = Inr ())"

subsection \<open>Well-formed programs\<close>

text \<open>The number of operands of each kind; a list has any number.\<close>

definition opArity :: "opKind \<Rightarrow> nat option" where
  "opArity k =
     (if k = OpList then None
      else if k \<in> {OpInt, OpDouble, OpStr, OpBool, OpSelf, OpSlot} then Some 0
      else if k \<in> {OpSelect, OpSize, OpToInt, OpToDouble, OpHas, OpNot, OpNegInt, OpNegDouble} then Some 1
      else if k = OpTernary then Some 3
      else Some 2)"

text \<open>
  Under \<open>d\<close> enclosing macros: every operand count fits, a slot names an enclosing macro, a macro
  has the next slot, a pattern index is in the table.
\<close>

fun wfOp :: "string list \<Rightarrow> nat \<Rightarrow> op \<Rightarrow> bool" where
  "wfOp ps d (Op k i f s b nm z ptr slot rgx args) \<longleftrightarrow>
     pred_option (\<lambda>n. length args = n) (opArity k) \<and>
     (k = OpSlot \<longrightarrow> slot < d) \<and>
     (k = OpMatches \<longrightarrow> rgx < length ps) \<and>
     (if k = OpAll \<or> k = OpExists then
        slot = d \<and> (case args of [r, body] \<Rightarrow> wfOp ps d r \<and> wfOp ps (Suc d) body | _ \<Rightarrow> False)
      else list_all (wfOp ps d) args)"

lemma wfOp_mono: "wfOp ps d x \<Longrightarrow> prefix ps ps' \<Longrightarrow> wfOp ps' d x"
proof (induction ps d x rule: wfOp.induct)
  case (1 ps d k i f s b nm z ptr slot rgx args)
  have "length ps \<le> length ps'" using "1.prems"(2) by (rule prefix_length_le)
  with 1 show ?case
    by (auto simp: list_all_iff split: list.splits if_splits)
qed

text \<open>A step of the lowerer that succeeds on \<open>ps\<close>, extends it, and has a result with \<open>P\<close>.\<close>

definition lowers :: "string list \<Rightarrow> (string list \<Rightarrow> 'a \<Rightarrow> bool) \<Rightarrow> 'a lowering \<Rightarrow> bool" where
  "lowers ps P m \<longleftrightarrow> (\<exists>x ps'. m ps = Some (x, ps') \<and> prefix ps ps' \<and> tableOk ps' \<and> P ps' x)"

lemma lowers_retL: "tableOk ps \<Longrightarrow> P ps x \<Longrightarrow> lowers ps P (retL x)"
  by (simp add: lowers_def retL_def)

lemma lowers_liftL: "tableOk ps \<Longrightarrow> r = Some x \<Longrightarrow> P ps x \<Longrightarrow> lowers ps P (liftL r)"
  by (simp add: lowers_def liftL_def)

lemma lowers_bindL:
  assumes "lowers ps P m"
    and "\<And>x ps'. prefix ps ps' \<Longrightarrow> tableOk ps' \<Longrightarrow> P ps' x \<Longrightarrow> lowers ps' Q (k x)"
  shows "lowers ps Q (bindL m k)"
proof -
  obtain x ps' where m: "m ps = Some (x, ps')" "prefix ps ps'" "tableOk ps'" "P ps' x"
    using assms(1) by (auto simp: lowers_def)
  from assms(2) [OF m(2-4)] m(1,2) show ?thesis
    by (auto simp: lowers_def bindL_def intro: prefix_order.trans)
qed

lemma lowers_all:
  assumes "\<forall>m \<in> set ms. \<forall>ps. tableOk ps \<longrightarrow> lowers ps (\<lambda>ps x. wfOp ps d x) m" "tableOk ps"
  shows "lowers ps (\<lambda>ps xs. list_all (wfOp ps d) xs \<and> length xs = length ms) (lowerAll ms)"
  using assms
proof (induction ms arbitrary: ps)
  case (Cons m ms)
  show ?case unfolding lowerAll.simps
  proof (rule lowers_bindL [where P = "\<lambda>ps x. wfOp ps d x"])
    show "lowers ps (\<lambda>ps x. wfOp ps d x) m" using Cons.prems by simp
    fix x ps1 assume x: "tableOk ps1" "wfOp ps1 d x"
    have "lowers ps1 (\<lambda>ps xs. list_all (wfOp ps d) xs \<and> length xs = length ms) (lowerAll ms)"
      using Cons.IH Cons.prems(1) x(1) by simp
    then show "lowers ps1 (\<lambda>ps xs. list_all (wfOp ps d) xs \<and> length xs = length (m # ms))
        (bindL (lowerAll ms) (\<lambda>xs. retL (x # xs)))"
      by (rule lowers_bindL) (auto intro!: lowers_retL intro: wfOp_mono [OF x(2)])
  qed
qed (simp add: lowers_retL)

lemma slotOf_less: "slotOf vars name = Some i \<Longrightarrow> i < length vars \<and> vars ! i = name"
  by (auto simp: slotOf_def find_Some_iff) (metis add_0 diff_zero length_upt list.size(3) nth_mem rev_nth set_rev set_upt atLeastLessThan_iff length_rev)+

lemma fieldType_zeroFor: "fieldType f = Inr t \<Longrightarrow> \<exists>z. zeroFor f = Some z"
  by (auto simp: fieldType_def zeroFor_def bindE_eq_Inr split: if_splits option.splits irType.splits)

lemma fieldType_pointer: "fieldType f = Inr t \<Longrightarrow> \<exists>b. pointerBacked f = Some b"
  by (auto simp: fieldType_def pointerBacked_def bindE_eq_Inr split: if_splits option.splits irType.splits)

definition okCtx :: "lowerCtx \<Rightarrow> bool" where
  "okCtx c \<longleftrightarrow> (\<forall>f. lcField c = Some f \<longrightarrow> (\<exists>z. zeroFor f = Some z))"

lemma wfOp_leaf [simp]:
  "wfOp ps d (opIntLit i)" "wfOp ps d (Op OpDouble 0 v [] False [] ZeroStr False 0 0 [])"
  "wfOp ps d (Op OpBool 0 w [] b [] ZeroStr False 0 0 [])" "wfOp ps d (opNode OpSelf [])"
  "wfOp ps d (opSelect nm z x) \<longleftrightarrow> wfOp ps d x"
  "wfOp ps d (opNode OpList xs) \<longleftrightarrow> list_all (wfOp ps d) xs"
  by (auto simp: opIntLit_def opNode_def opSelect_def opArity_def)

lemma wfOp_opNode:
  "opArity k = Some (length xs) \<Longrightarrow> k \<noteq> OpSlot \<Longrightarrow> k \<noteq> OpMatches \<Longrightarrow> k \<noteq> OpAll \<Longrightarrow> k \<noteq> OpExists \<Longrightarrow>
    wfOp ps d (opNode k xs) \<longleftrightarrow> list_all (wfOp ps d) xs"
  by (simp add: opNode_def)

lemma lowerString_wf [simp]: "wfOp ps d (lowerString S ot v)"
  by (auto simp: lowerString_def Let_def opArity_def split: option.split ty.split)

lemma lowerIdent_wf:
  assumes "okCtx c"
  shows "\<exists>x. lowerIdent c vars name = Some x \<and> (\<forall>ps. wfOp ps (length vars) x)"
  using assms slotOf_less [of vars name]
  by (auto simp: lowerIdent_def Let_def okCtx_def opArity_def split: option.split)

text \<open>Lowering one, two or three parts and putting an operator on top.\<close>

abbreviation lowersWf :: "string list \<Rightarrow> nat \<Rightarrow> op lowering \<Rightarrow> bool" where
  "lowersWf ps d m \<equiv> lowers ps (\<lambda>ps x. wfOp ps d x) m"

lemma lowers_one:
  assumes "\<And>ps. tableOk ps \<Longrightarrow> lowersWf ps d m" "tableOk ps"
    and "\<And>ps x. tableOk ps \<Longrightarrow> wfOp ps d x \<Longrightarrow> lowersWf ps d (k x)"
  shows "lowersWf ps d (bindL m k)"
  by (rule lowers_bindL [OF assms(1)]) (use assms in auto)

lemma lowers_two:
  assumes "\<And>ps. tableOk ps \<Longrightarrow> lowersWf ps d m1" "\<And>ps. tableOk ps \<Longrightarrow> lowersWf ps d' m2" "tableOk ps"
    and "\<And>ps x y. tableOk ps \<Longrightarrow> wfOp ps d x \<Longrightarrow> wfOp ps d' y \<Longrightarrow> lowersWf ps d (k x y)"
  shows "lowersWf ps d (bindL m1 (\<lambda>x. bindL m2 (k x)))"
proof (rule lowers_bindL [OF assms(1) [OF assms(3)]])
  fix x ps1 assume x: "tableOk ps1" "wfOp ps1 d x"
  show "lowersWf ps1 d (bindL m2 (k x))"
    by (rule lowers_bindL [OF assms(2) [OF x(1)]]) (auto intro: assms(4) wfOp_mono [OF x(2)])
qed

lemma lowers_three:
  assumes "\<And>ps. tableOk ps \<Longrightarrow> lowersWf ps d m1" "\<And>ps. tableOk ps \<Longrightarrow> lowersWf ps d m2"
    "\<And>ps. tableOk ps \<Longrightarrow> lowersWf ps d m3" "tableOk ps"
    and "\<And>ps x y z. tableOk ps \<Longrightarrow> wfOp ps d x \<Longrightarrow> wfOp ps d y \<Longrightarrow> wfOp ps d z \<Longrightarrow> lowersWf ps d (k x y z)"
  shows "lowersWf ps d (bindL m1 (\<lambda>x. bindL m2 (\<lambda>y. bindL m3 (k x y))))"
proof (rule lowers_bindL [OF assms(1) [OF assms(4)]])
  fix x ps1 assume x: "tableOk ps1" "wfOp ps1 d x"
  show "lowersWf ps1 d (bindL m2 (\<lambda>y. bindL m3 (k x y)))"
  proof (rule lowers_bindL [OF assms(2) [OF x(1)]])
    fix y ps2 assume y: "prefix ps1 ps2" "tableOk ps2" "wfOp ps2 d y"
    show "lowersWf ps2 d (bindL m3 (k x y))"
      by (rule lowers_bindL [OF assms(3) [OF y(2)]])
        (auto intro: assms(5) wfOp_mono [OF x(2)] wfOp_mono [OF y(3)] prefix_order.trans [OF y(1)])
  qed
qed

lemma lowers_args:
  assumes "\<And>m ps. m \<in> set ms \<Longrightarrow> tableOk ps \<Longrightarrow> lowersWf ps d m" "tableOk ps"
    and "\<And>ps xs. tableOk ps \<Longrightarrow> list_all (wfOp ps d) xs \<Longrightarrow> length xs = length ms \<Longrightarrow> lowersWf ps d (k xs)"
  shows "lowersWf ps d (bindL (lowerAll ms) k)"
  by (rule lowers_bindL [OF lowers_all]) (use assms in auto)

lemma lowerCall_plain:
  "lower S c vars (Call p t fn args re) =
     bindL (lowerAll (map (lower S c vars) args)) (\<lambda>args'.
       lowerCall fn args re args'
         (case args of Select q ot x name fld # _ \<Rightarrow> Some (x, fld) | _ \<Rightarrow> None)
         (case args of Select q ot x name fld # _ \<Rightarrow> lower S c vars x | _ \<Rightarrow> liftL None))"
  by (simp split: list.split node.split)

lemma binaryKinds_arity: "map_of binaryKinds op1 = Some k \<Longrightarrow> opArity k = Some 2 \<and> k \<noteq> OpMatches \<and> k \<noteq> OpAll \<and> k \<noteq> OpExists \<and> k \<noteq> OpSlot"
  by (auto simp: binaryKinds_def opArity_def split: if_splits)

lemma arithKinds_arity:
  "map_of ks op1 = Some k \<Longrightarrow> ks = intKinds \<or> ks = doubleKinds \<Longrightarrow>
    opArity k = Some 2 \<and> k \<noteq> OpMatches \<and> k \<noteq> OpAll \<and> k \<noteq> OpExists \<and> k \<noteq> OpSlot"
  by (auto simp: intKinds_def doubleKinds_def opArity_def split: if_splits)

lemma lowerBinary_logic:
  assumes "map_of binaryKinds op1 = Some k" "wfOp ps d x" "wfOp ps d y" "tableOk ps"
  shows "lowersWf ps d (liftL (lowerBinary op1 lt [x, y]))"
  using assms binaryKinds_arity [OF assms(1)]
  by (auto intro!: lowers_liftL simp: lowerBinary_def wfOp_opNode)

lemma lowerBinary_arith:
  assumes "op1 \<in> {''+'', ''-'', ''*'', ''/''} \<and> isNumTy t \<or> op1 = ''%'' \<and> t = TyInt"
    "wfOp ps d x" "wfOp ps d y" "tableOk ps"
  shows "lowersWf ps d (liftL (lowerBinary op1 (Some t) [x, y]))"
proof -
  have "map_of binaryKinds op1 = None" using assms(1) by (auto simp: binaryKinds_def)
  moreover have "\<exists>k. kindAt (if t = TyInt then intKinds else doubleKinds) op1 = k \<and>
      map_of (if t = TyInt then intKinds else doubleKinds) op1 = Some k"
    using assms(1) by (auto simp: isNumTy_def kindAt_def intKinds_def doubleKinds_def)
  ultimately show ?thesis using assms arithKinds_arity
    by (auto intro!: lowers_liftL simp: lowerBinary_def wfOp_opNode split: if_splits)
qed

lemma lowers_call:
  assumes args: "\<And>a ps. a \<in> set args \<Longrightarrow> tableOk ps \<Longrightarrow> lowersWf ps d (lower S c vars a)" and t: "tableOk ps"
    and k: "\<And>ps xs. tableOk ps \<Longrightarrow> list_all (wfOp ps d) xs \<Longrightarrow> length xs = length args \<Longrightarrow>
      lowersWf ps d (lowerCall fn args re xs
         (case args of Select q ot x name fld # _ \<Rightarrow> Some (x, fld) | _ \<Rightarrow> None)
         (case args of Select q ot x name fld # _ \<Rightarrow> lower S c vars x | _ \<Rightarrow> liftL None))"
  shows "lowersWf ps d (lower S c vars (Call p ot fn args re))"
  unfolding lowerCall_plain by (rule lowers_args) (use args t k in auto)

lemma list_one: "length xs = Suc 0 \<Longrightarrow> \<exists>x. xs = [x]" and list_two: "length xs = Suc (Suc 0) \<Longrightarrow> \<exists>x y. xs = [x, y]"
  by (auto simp: length_Suc_conv)

lemma lowerCall_size:
  "tableOk ps \<Longrightarrow> list_all (wfOp ps d) xs \<Longrightarrow> length xs = Suc 0 \<Longrightarrow>
    lowersWf ps d (lowerCall ''size'' args re xs sel selX)"
  by (simp add: lowerCall_def lowers_retL wfOp_opNode opArity_def)

lemma lowerCall_string:
  assumes "tableOk ps" "list_all (wfOp ps d) xs" "length xs = Suc (Suc 0)"
    "fn = ''startsWith'' \<or> fn = ''endsWith'' \<or> fn = ''contains''"
  shows "lowersWf ps d (lowerCall fn args re xs sel selX)"
proof -
  have "wfOp ps d (opNode k xs)" if "k \<in> {OpStartsWith, OpEndsWith, OpContains}" for k
    using that assms(2,3) by (auto simp: wfOp_opNode opArity_def)
  moreover have "lowerCall fn args re xs sel selX \<in>
      {retL (opNode OpStartsWith xs), retL (opNode OpEndsWith xs), retL (opNode OpContains xs)}"
    using assms(4) by (elim disjE) (simp_all add: lowerCall_def)
  ultimately show ?thesis by (elim insertE emptyE) (simp_all add: lowers_retL [OF assms(1)])
qed

lemma lowerCall_convert:
  assumes "nodeType x = Some t" "fn = ''int'' \<or> fn = ''double''" "tableOk ps" "list_all (wfOp ps d) xs"
    "length xs = 1"
  shows "lowersWf ps d (lowerCall fn [x] re xs sel selX)"
proof -
  obtain y where y: "xs = [y]" using assms(5) list_one by fastforce
  have "\<exists>z. lowerCall fn [x] re xs sel selX ps = Some (z, ps) \<and> (z = y \<or> z = opNode OpToInt [y] \<or> z = opNode OpToDouble [y])"
    using assms(1,2) y by (elim disjE) (auto simp: lowerCall_def bindL_def liftL_def retL_def)
  moreover have "wfOp ps d y" using assms(4) y by simp
  ultimately show ?thesis using assms(3) by (auto simp: lowers_def wfOp_opNode opArity_def)
qed

text \<open>A well-typed expression lowers, to a well-formed program.\<close>

lemma typed_lowers:
  "typed S G n t \<Longrightarrow> okCtx c \<Longrightarrow> tableOk ps \<Longrightarrow> lowersWf ps (length vars) (lower S c vars n)"
proof (induction arbitrary: vars ps rule: typed.induct)
  case (T_List es G t p)
  show ?case unfolding lower.simps
    by (rule lowers_args) (use T_List in \<open>auto intro!: lowers_retL\<close>)
next
  case (T_Ident G x t p)
  obtain y where "lowerIdent c vars x = Some y" "\<forall>ps. wfOp ps (length vars) y"
    using lowerIdent_wf [OF T_Ident(2)] by blast
  with T_Ident(3) show ?case by (simp add: lowers_def liftL_def)
next
  case (T_Select G x m name f t p)
  obtain z where z: "zeroFor f = Some z" using fieldType_zeroFor [OF T_Select.hyps(3)] by blast
  have "lowersWf ps (length vars) (bindL (lower S c vars x) (\<lambda>x'. retL (opSelect (fName f) z x')))"
    by (rule lowers_one) (use T_Select in \<open>auto intro!: lowers_retL\<close>)
  then show ?case using z by (simp add: liftL_def bindL_def lowers_def)
next
  case (T_IndexList G x t i p)
  have "lowersWf ps (length vars) (bindL (lower S c vars x) (\<lambda>x'. bindL (lower S c vars i) (\<lambda>i'.
      retL (opNode OpIndexList [x', i']))))"
    by (rule lowers_two) (use T_IndexList in \<open>auto intro!: lowers_retL simp: wfOp_opNode opArity_def\<close>)
  then show ?case using typed_nodeType [OF T_IndexList.hyps(1)] by (simp add: liftL_def bindL_def lowers_def isMapTy_def)
next
  case (T_IndexMap G x t i p)
  have "lowersWf ps (length vars) (bindL (lower S c vars x) (\<lambda>x'. bindL (lower S c vars i) (\<lambda>i'.
      retL (opNode OpIndexMap [x', i']))))"
    by (rule lowers_two) (use T_IndexMap in \<open>auto intro!: lowers_retL simp: wfOp_opNode opArity_def\<close>)
  then show ?case using typed_nodeType [OF T_IndexMap.hyps(1)] by (simp add: liftL_def bindL_def lowers_def isMapTy_def)
next
  case (T_Size G x t p re)
  show ?case by (rule lowers_call) (use T_Size lowerCall_size in auto)
next
  case (T_Has G x m name f t p q re)
  obtain b z where b: "pointerBacked f = Some b" "zeroFor f = Some z"
    using fieldType_pointer [OF T_Has.hyps(3)] fieldType_zeroFor [OF T_Has.hyps(3)] by blast
  have x: "lowersWf ps (length vars) (lower S c vars x)" if "tableOk ps" for ps
    using T_Has.IH [OF T_Has.prems(1) that] .
  have sel: "lowersWf ps (length vars) (lower S c vars (Select q (Some t) x name (Some f)))" if "tableOk ps" for ps
  proof -
    have "lowersWf ps (length vars) (bindL (lower S c vars x) (\<lambda>x'. retL (opSelect (fName f) z x')))"
      by (rule lowers_one) (use x that in \<open>auto intro!: lowers_retL\<close>)
    then show ?thesis using b(2) by (simp add: liftL_def bindL_def lowers_def)
  qed
  have has: "lowersWf ps (length vars) (bindL (lower S c vars x) (\<lambda>x'.
      retL (Op OpHas 0 (fzero False) [] False (fName f) ZeroStr b 0 0 [x'])))" if "tableOk ps" for ps
    by (rule lowers_one) (use x that in \<open>auto intro!: lowers_retL simp: opArity_def\<close>)
  show ?case
  proof (rule lowers_call [OF _ T_Has.prems(2)])
    fix ps xs assume "tableOk ps"
    from has [OF this] b(1) show "lowersWf ps (length vars)
        (lowerCall ''has'' [Select q (Some t) x name (Some f)] re xs
         (case [Select q (Some t) x name (Some f)] of Select q ot x name fld # _ \<Rightarrow> Some (x, fld) | _ \<Rightarrow> None)
         (case [Select q (Some t) x name (Some f)] of Select q ot x name fld # _ \<Rightarrow> lower S c vars x | _ \<Rightarrow> liftL None))"
      by (simp add: lowerCall_def Let_def liftL_def bindL_def lowers_def)
  qed (use sel in auto)
next
  case (T_ToInt G x t p re)
  show ?case by (rule lowers_call)
    (use T_ToInt lowerCall_convert [OF typed_nodeType [OF T_ToInt.hyps(1)]] in auto)
next
  case (T_ToDouble G x t p re)
  show ?case by (rule lowers_call)
    (use T_ToDouble lowerCall_convert [OF typed_nodeType [OF T_ToDouble.hyps(1)]] in auto)
next
  case (T_StringFn fn G x y p re)
  show ?case by (rule lowers_call)
    (use T_StringFn lowerCall_string in auto)
next
  case (T_Matches G x re p q ot)
  have str: "lowersWf ps (length vars) (lower S c vars (StringLit q ot re))" if "tableOk ps" for ps
    using that by (simp add: lowers_retL)
  show ?case
  proof (rule lowers_call [OF _ T_Matches.prems(2)])
    fix ps xs assume xs: "tableOk ps" "list_all (wfOp ps (length vars)) xs" "length xs = length [x, StringLit q ot re]"
    obtain i ps' where i: "regexIndex ps re = (i, ps')" by fastforce
    note r = regexIndex_result [OF i]
    then have "tableOk ps'" using xs(1) T_Matches.hyps(2) by (auto simp: tableOk_def)
    then show "lowersWf ps (length vars) (lowerCall ''matches'' [x, StringLit q ot re] re xs
         (case [x, StringLit q ot re] of Select q ot x name fld # _ \<Rightarrow> Some (x, fld) | _ \<Rightarrow> None)
         (case [x, StringLit q ot re] of Select q ot x name fld # _ \<Rightarrow> lower S c vars x | _ \<Rightarrow> liftL None))"
      using r i xs(2,3) by (auto simp: lowerCall_def lowers_def opArity_def list_all_iff intro: wfOp_mono)
  qed (use T_Matches str in auto)
next
  case (T_Macro G x t v b p k)
  have x: "lowersWf ps (length vars) (lower S c vars x)" if "tableOk ps" for ps
    using T_Macro.IH(1) [OF T_Macro.prems(1) that] .
  have b: "lowersWf ps (Suc (length vars)) (lower S c (vars @ [v]) b)" if "tableOk ps" for ps
    using T_Macro.IH(2) [OF T_Macro.prems(1) that, of "vars @ [v]"] by simp
  show ?case unfolding lower.simps
    by (rule lowers_two [OF x b T_Macro.prems(2)]) (auto intro!: lowers_retL simp: opArity_def)
next
  case (T_Not G x p)
  show ?case unfolding lower.simps
    by (rule lowers_one) (use T_Not in \<open>auto intro!: lowers_liftL simp: lowerUnary_def wfOp_opNode opArity_def\<close>)
next
  case (T_Neg G x t op1 p)
  show ?case unfolding lower.simps
    by (rule lowers_one) (use T_Neg typed_nodeType [OF T_Neg.hyps(1)] in
      \<open>auto intro!: lowers_liftL simp: lowerUnary_def wfOp_opNode opArity_def\<close>)
next
  case (T_Logic op1 G l r p)
  then have "\<exists>k. map_of binaryKinds op1 = Some k" by (auto simp: binaryKinds_def)
  then show ?case unfolding lower.simps
    by (intro lowers_two) (use T_Logic lowerBinary_logic in auto)
next
  case (T_Equal op1 G l t r p)
  then have "\<exists>k. map_of binaryKinds op1 = Some k" by (auto simp: binaryKinds_def)
  then show ?case unfolding lower.simps
    by (intro lowers_two) (use T_Equal lowerBinary_logic in auto)
next
  case (T_Order op1 G l t r p)
  then have "\<exists>k. map_of binaryKinds op1 = Some k" by (auto simp: binaryKinds_def)
  then show ?case unfolding lower.simps
    by (intro lowers_two) (use T_Order lowerBinary_logic in auto)
next
  case (T_Arith op1 G l t r p)
  then show ?case unfolding lower.simps typed_nodeType [OF T_Arith.hyps(2)]
    by (intro lowers_two lowerBinary_arith) auto
next
  case (T_Mod G l r p)
  then show ?case unfolding lower.simps typed_nodeType [OF T_Mod.hyps(1)]
    by (intro lowers_two lowerBinary_arith) auto
next
  case (T_InList G l t r p)
  have "\<exists>k. map_of binaryKinds ''in'' = Some k" by (simp add: binaryKinds_def)
  with T_InList show ?case unfolding lower.simps
    by (intro lowers_two) (use lowerBinary_logic in auto)
next
  case (T_InMap G l r t p)
  have "\<exists>k. map_of binaryKinds ''in'' = Some k" by (simp add: binaryKinds_def)
  with T_InMap show ?case unfolding lower.simps
    by (intro lowers_two) (use lowerBinary_logic in auto)
next
  case (T_Cond G cnd a t b p)
  show ?case unfolding lower.simps
    by (rule lowers_three) (use T_Cond in \<open>auto intro!: lowers_retL simp: wfOp_opNode opArity_def\<close>)
qed (auto intro!: lowers_retL simp: opArity_def)

end
