(* ===== verification/Rules.thy ===== *)
theory Rules
  imports Soundness Lower
begin

text \<open>
  \<open>internal/onkexpr/rules.go\<close> and \<open>authorize.go\<close>: the rules declared by decorators, compiled in
  the environment of their message or method, and the evaluation of a message's rules on a value.
\<close>

definition ruleDecorator :: string where "ruleDecorator = ''rule''"
definition authBinding :: string where "authBinding = ''auth''"
definition requestBinding :: string where "requestBinding = ''req''"

record compiledRule =
  ruSource :: string
  ruMessage :: string
  ruExpr :: node
  ruField :: "field option"

text \<open>\<open>@rule on \<open>name\<close> expects an expression and a message\<close>, or the error of its expression.\<close>

datatype ruleErr = RuleArgs string | RuleInvalid string xerror | NoPrincipal string

definition ruleEnv :: "mref \<Rightarrow> field option \<Rightarrow> fieldMsg + tenv" where
  "ruleEnv m fld =
     (case fld of
        None \<Rightarrow> Inr [(''self'', TyMessage m)]
      | Some f \<Rightarrow> bindE (fieldType f) (\<lambda>t. Inr [(''value'', t), (''self'', TyMessage m)]))"

definition compileRule :: "schema \<Rightarrow> string \<Rightarrow> mref \<Rightarrow> field option \<Rightarrow> xerror + node" where
  "compileRule S src m fld =
     (case ruleEnv m fld of
        Inl e \<Rightarrow> Inl \<lparr>eOffset = 0, eMsg = EnvMsg e\<rparr>
      | Inr env \<Rightarrow> checkRule S env src)"

text \<open>The closure \<open>add\<close> of \<open>RulesFor\<close> for one decorator; other decorators are skipped.\<close>

definition ruleOf :: "schema \<Rightarrow> mref \<Rightarrow> field option \<Rightarrow> decorator \<Rightarrow> ruleErr + compiledRule" where
  "ruleOf S m fld d =
     (if length (decArgs d) \<noteq> 2 then Inl (RuleArgs (mName (msgAt S m)))
      else case compileRule S (argValue (decArgs d ! 0)) m fld of
        Inl e \<Rightarrow> Inl (RuleInvalid (mName (msgAt S m)) e)
      | Inr nd \<Rightarrow> Inr \<lparr>ruSource = argValue (decArgs d ! 0), ruMessage = argValue (decArgs d ! 1),
          ruExpr = nd, ruField = fld\<rparr>)"

definition rulesAdd :: "schema \<Rightarrow> mref \<Rightarrow> decorator list \<Rightarrow> field option \<Rightarrow> ruleErr + compiledRule list" where
  "rulesAdd S m ds fld = mapE (ruleOf S m fld) (filter (\<lambda>d. decName d = ruleDecorator) ds)"

definition rulesFor :: "schema \<Rightarrow> mref \<Rightarrow> ruleErr + compiledRule list" where
  "rulesFor S m =
     bindE (rulesAdd S m (mDecorators (msgAt S m)) None) (\<lambda>own.
     bindE (mapE (\<lambda>f. rulesAdd S m (fDecorators f) (Some f)) (mFields (msgAt S m))) (\<lambda>perField.
       Inr (own @ concat perField)))"

datatype violationErr = VRules ruleErr | VField fieldMsg | VPanic

text \<open>The scope of one rule: \<open>self\<close>, and \<open>value\<close> for a rule on a field.\<close>

definition ruleScope :: "schema \<Rightarrow> (string \<times> val) list \<Rightarrow> compiledRule \<Rightarrow> violationErr + vars" where
  "ruleScope S value1 r =
     (let self = [''self'' \<mapsto> VMap value1] in
      case ruField r of
        None \<Rightarrow> Inr self
      | Some f \<Rightarrow>
          (case map_of value1 (fName f) of
             Some v \<Rightarrow> Inr (self(''value'' \<mapsto> v))
           | None \<Rightarrow>
               (case fieldType f of
                  Inl e \<Rightarrow> Inl (VField e)
                | Inr t \<Rightarrow>
                    (case zeroValue S t of
                       Some z \<Rightarrow> Inr (self(''value'' \<mapsto> z))
                     | None \<Rightarrow> Inl VPanic))))"

text \<open>A rule that is false or fails is a violation; a panic is not recovered.\<close>

definition ruleViolated :: "schema \<Rightarrow> (string \<times> val) list \<Rightarrow> compiledRule \<Rightarrow> violationErr + string list" where
  "ruleViolated S value1 r =
     bindE (ruleScope S value1 r) (\<lambda>scope.
       case evalBool S (ruExpr r) scope of
         Inr True \<Rightarrow> Inr []
       | Inr False \<Rightarrow> Inr [ruMessage r]
       | Inl (EvalError e) \<Rightarrow> Inr [ruMessage r]
       | Inl GoPanic \<Rightarrow> Inl VPanic)"

definition violations :: "schema \<Rightarrow> mref \<Rightarrow> (string \<times> val) list \<Rightarrow> violationErr + string list" where
  "violations S m value1 =
     (case rulesFor S m of
        Inl e \<Rightarrow> Inl (VRules e)
      | Inr rules \<Rightarrow> bindE (mapE (ruleViolated S value1) rules) (\<lambda>out. Inr (concat out)))"

subsection \<open>Authorization\<close>

definition authEnv :: "mref \<Rightarrow> mref \<Rightarrow> tenv" where
  "authEnv pmsg request =
     [(authBinding, TyMessage pmsg), (requestBinding, TyMessage request)]"

definition compileAuthorize :: "schema \<Rightarrow> string \<Rightarrow> mref \<Rightarrow> mref \<Rightarrow> xerror + node" where
  "compileAuthorize S src pmsg request = checkRule S (authEnv pmsg request) src"

text \<open>A method without a request message is not compiled; its rules would see a nil message.\<close>

definition authRuleOf :: "schema \<Rightarrow> rpc \<Rightarrow> mref \<Rightarrow> decorator \<Rightarrow> ruleErr + compiledRule" where
  "authRuleOf S m pmsg d =
     (if length (decArgs d) \<noteq> 2 then Inl (RuleArgs (rName m))
      else case compileAuthorize S (argValue (decArgs d ! 0)) pmsg
             (case rRequest m of Some r \<Rightarrow> r | None \<Rightarrow> length (schMessages S)) of
        Inl e \<Rightarrow> Inl (RuleInvalid (rName m) e)
      | Inr nd \<Rightarrow> Inr \<lparr>ruSource = argValue (decArgs d ! 0), ruMessage = argValue (decArgs d ! 1),
          ruExpr = nd, ruField = None\<rparr>)"

definition authRulesFor :: "schema \<Rightarrow> rpc \<Rightarrow> ruleErr + compiledRule list" where
  "authRulesFor S m =
     (let ds = authorizeRules m in
      if ds = [] then Inr []
      else case rPrincipal m of
        None \<Rightarrow> Inl (NoPrincipal (rName m))
      | Some p \<Rightarrow> mapE (authRuleOf S m p) ds)"

subsection \<open>Properties\<close>

lemma rulesAdd_rule:
  assumes "rulesAdd S m ds fld = Inr rs" "r \<in> set rs"
  shows "ruField r = fld \<and> compileRule S (ruSource r) m fld = Inr (ruExpr r)"
proof -
  obtain d where "ruleOf S m fld d = Inr r"
    using assms by (auto simp: rulesAdd_def mapE_Inr list_all2_conv_all_nth in_set_conv_nth)
  then show ?thesis by (auto simp: ruleOf_def split: if_splits sum.splits)
qed

lemma rulesFor_rule:
  assumes "rulesFor S m = Inr rs" "r \<in> set rs"
  shows "compileRule S (ruSource r) m (ruField r) = Inr (ruExpr r) \<and>
    (\<forall>f. ruField r = Some f \<longrightarrow> f \<in> set (mFields (msgAt S m)))"
proof -
  obtain own per where o: "rulesAdd S m (mDecorators (msgAt S m)) None = Inr own"
    "mapE (\<lambda>f. rulesAdd S m (fDecorators f) (Some f)) (mFields (msgAt S m)) = Inr per"
    "rs = own @ concat per" using assms(1) by (auto simp: rulesFor_def bindE_eq_Inr)
  show ?thesis
  proof (cases "r \<in> set own")
    case True
    then show ?thesis using rulesAdd_rule [OF o(1)] by auto
  next
    case False
    then obtain ys where "ys \<in> set per" "r \<in> set ys" using assms(2) o(3) by auto
    then obtain i where i: "i < length per" "r \<in> set (per ! i)" by (auto simp: in_set_conv_nth)
    then have "rulesAdd S m (fDecorators (mFields (msgAt S m) ! i)) (Some (mFields (msgAt S m) ! i)) = Inr (per ! i)"
      and "i < length (mFields (msgAt S m))"
      using o(2) by (auto simp: mapE_Inr list_all2_conv_all_nth)
    then show ?thesis using rulesAdd_rule i(2) nth_mem by fastforce
  qed
qed

text \<open>The scope of a rule conforms to the environment it was compiled in.\<close>

lemma ruleScope_conforms:
  assumes wf: "wfSchema S" and v: "conforms S (VMap value1) (TyMessage m)"
    and env: "ruleEnv m (ruField r) = Inr env"
    and f: "\<forall>f. ruField r = Some f \<longrightarrow> f \<in> set (mFields (msgAt S m))"
    and d: "distinct (map fName (mFields (msgAt S m)))"
  shows "\<exists>scope. ruleScope S value1 r = Inr scope \<and> conformVars S scope (map_of env)"
proof (cases "ruField r")
  case None
  then show ?thesis using env v by (auto simp: ruleScope_def Let_def ruleEnv_def conformVars_def split: if_splits)
next
  case (Some g)
  then obtain t where t: "fieldType g = Inr t" "env = [(''value'', t), (''self'', TyMessage m)]"
    using env by (auto simp: ruleEnv_def bindE_eq_Inr)
  have g: "g \<in> set (mFields (msgAt S m))" using f Some by simp
  have find: "find (\<lambda>h. fName h = fName g) (mFields (msgAt S m)) = Some g"
    by (rule find_distinct [OF g d])
  have ok: "tyOk S t" by (rule selected_ok [OF wf find t(1)])
  obtain z where z: "zeroValue S t = Some z" "conforms S z t" using zeroValue_conforms [OF ok] by blast
  show ?thesis
  proof (cases "map_of value1 (fName g)")
    case None
    then show ?thesis using Some t z v by (auto simp: ruleScope_def Let_def conformVars_def split: if_splits)
  next
    case (Some w)
    have "conforms S w t" using select_conforms [OF v find t(1)] Some by (simp add: asMap_def)
    with \<open>ruField r = Some g\<close> Some t v show ?thesis
      by (auto simp: ruleScope_def Let_def conformVars_def split: if_splits)
  qed
qed

lemma runtimeError_EvalError: "runtimeError f \<Longrightarrow> \<exists>e. f = EvalError e"
  by (cases f) (auto simp: runtimeError_def)

lemma ruleViolated_result:
  assumes wf: "wfSchema S" and v: "conforms S (VMap value1) (TyMessage m)"
    and r: "compileRule S (ruSource r) m (ruField r) = Inr (ruExpr r)"
    and f: "\<forall>f. ruField r = Some f \<longrightarrow> f \<in> set (mFields (msgAt S m))"
    and d: "distinct (map fName (mFields (msgAt S m)))"
  shows "ruleViolated S value1 r = Inr [] \<or> ruleViolated S value1 r = Inr [ruMessage r]"
proof -
  obtain env where env: "ruleEnv m (ruField r) = Inr env" "checkRule S env (ruSource r) = Inr (ruExpr r)"
    using r by (auto simp: compileRule_def split: sum.splits)
  obtain scope where sc: "ruleScope S value1 r = Inr scope" "conformVars S scope (map_of env)"
    using ruleScope_conforms [OF wf v env(1) f d] by blast
  from checkRule_sound [OF wf env(2) sc(2)] sc(1) show ?thesis
    by (auto simp: ruleViolated_def dest!: runtimeError_EvalError split: bool.splits)
qed

text \<open>
  On a message that conforms to its schema, compiled rules are always decided: the result is a
  list of messages of the rules, in their order, and nothing panics.
\<close>

lemma violations_decided:
  assumes wf: "wfSchema S" and v: "conforms S (VMap value1) (TyMessage m)"
    and rs: "rulesFor S m = Inr rs" and d: "distinct (map fName (mFields (msgAt S m)))"
  shows "\<exists>out. violations S m value1 = Inr out \<and> subseq out (map ruMessage rs)"
proof -
  have each: "\<forall>r \<in> set rs. \<exists>o1. ruleViolated S value1 r = Inr o1 \<and> (o1 = [] \<or> o1 = [ruMessage r])"
    using ruleViolated_result [OF wf v _ _ d] rulesFor_rule [OF rs] by metis
  have "\<exists>outs. mapE (ruleViolated S value1) rs = Inr outs \<and> subseq (concat outs) (map ruMessage rs)"
    using each
  proof (induction rs)
    case (Cons r rs)
    then obtain outs where outs: "mapE (ruleViolated S value1) rs = Inr outs"
      "subseq (concat outs) (map ruMessage rs)" by auto
    obtain o1 where "ruleViolated S value1 r = Inr o1" "o1 = [] \<or> o1 = [ruMessage r]"
      using Cons.prems by auto
    with outs show ?case by auto
  qed simp
  with rs show ?thesis by (auto simp: violations_def)
qed

end
