(* ===== verification/Compile.thy ===== *)
theory Compile
  imports Imports ServiceProps Rules
begin

text \<open>
  Name resolution and the construction of the schema: \<open>internal/onkcompile/compile.go\<close>, with
  \<open>rules.go\<close> and \<open>authorize.go\<close> of the same package. The schema grows by appending to its tables;
  a message is allocated when it is declared and filled in later, as in the source. The Go map
  \<open>msgNode\<close> from declarations to messages is the tree of references that declaring returns, in the
  order of the declarations; \<open>rpcNode\<close> is the order of the methods of a service.
\<close>

subsection \<open>Declaring\<close>

datatype msgNode = MsgNode (nodeRef: mref) (nodeNested: "msgNode list")

text \<open>The maps of the Go struct; a missing entry of \<open>cDeclByDir\<close> reads as the empty string.\<close>

record compiler =
  cSchema :: schema
  cMsgByDir :: "string \<Rightarrow> string \<rightharpoonup> mref"
  cEnumByDir :: "string \<Rightarrow> string \<rightharpoonup> eref"
  cMsgAll :: "string \<Rightarrow> (string \<times> mref) list"
  cEnumAll :: "string \<Rightarrow> (string \<times> eref) list"
  cDeclByDir :: "string \<Rightarrow> string \<Rightarrow> string"

definition emptyCompiler :: compiler where
  "emptyCompiler = \<lparr>cSchema = \<lparr>schMessages = [], schEnums = [], schFiles = []\<rparr>,
     cMsgByDir = \<lambda>d n. None, cEnumByDir = \<lambda>d n. None, cMsgAll = \<lambda>n. [], cEnumAll = \<lambda>n. [],
     cDeclByDir = \<lambda>d n. []\<rparr>"

text \<open>A loop that collects results and threads a state.\<close>

fun eachS :: "('a \<Rightarrow> 's \<Rightarrow> 'e + 'r \<times> 's) \<Rightarrow> 'a list \<Rightarrow> 's \<Rightarrow> 'e + 'r list \<times> 's" where
  "eachS f [] s = Inr ([], s)"
| "eachS f (x # xs) s = bindE (f x s) (\<lambda>(r, s1). bindE (eachS f xs s1) (\<lambda>(rs, s2). Inr (r # rs, s2)))"

lemma eachS_cong [fundef_cong]:
  "xs = ys \<Longrightarrow> s = t \<Longrightarrow> (\<And>x s. x \<in> set ys \<Longrightarrow> f x s = g x s) \<Longrightarrow> eachS f xs s = eachS g ys t"
proof (induction ys arbitrary: xs s t)
  case (Cons y ys)
  then show ?case by (cases "g y t") auto
qed simp

definition convertArgs :: "arg list \<Rightarrow> arg list" where
  "convertArgs as = map (\<lambda>a. \<lparr>argName = argName a, argValue = argValue a, argQuoted = argQuoted a\<rparr>) as"

definition numericDecorators :: "string list" where
  "numericDecorators = [''len'', ''min_items'', ''max_items'', ''gt'', ''gte'', ''lt'', ''lte'', ''range'', ''in'']"

definition convertDecorator :: "decoratorDecl \<Rightarrow> decorator" where
  "convertDecorator d = \<lparr>decName = ddName d, decArgs =
     (if ddName d \<in> set numericDecorators then
        map (\<lambda>a. if argQuoted a then a else a\<lparr>argValue := trimPrefix (argValue a) ''+''\<rparr>) (convertArgs (ddArgs d))
      else convertArgs (ddArgs d))\<rparr>"

definition convertDecorators :: "decoratorDecl list \<Rightarrow> decorator list" where
  "convertDecorators ds = map convertDecorator ds"

definition declarationFullName :: "schema \<Rightarrow> fileref \<Rightarrow> mref option \<Rightarrow> string \<Rightarrow> string" where
  "declarationFullName S file parent name =
     (case parent of
        Some p \<Rightarrow> messageFullName S p @ ''.'' @ name
      | None \<Rightarrow> let pkg = filePackage S (Some file) in if pkg \<noteq> [] then pkg @ ''.'' @ name else name)"

definition enumValuesOf :: "enumDecl \<Rightarrow> enumValue list" where
  "enumValuesOf ed = map (\<lambda>(i, vd). \<lparr>evName = evdName vd, evDoc = evdDoc vd,
     evDecorators = convertDecorators (evdDecorators vd), evIndex = i\<rparr>) (enumerate 0 (edValues ed))"

definition declareEnum :: "string \<Rightarrow> fileref \<Rightarrow> mref option \<Rightarrow> enumDecl \<Rightarrow> compiler \<Rightarrow> cfailure + eref \<times> compiler" where
  "declareEnum path file parent ed c =
     (let dir = pathDir path; name = edName ed; generated = generatedIdentifier name;
          previous = cDeclByDir c dir generated; S = cSchema c; e = length (schEnums S) in
      if cEnumByDir c dir name \<noteq> None then errCol path (edLine ed) (edCol ed) ''duplicate enum name %q'' [name]
      else if cMsgByDir c dir name \<noteq> None then
        errCol path (edLine ed) (edCol ed) ''name %q already used by a message'' [name]
      else if previous \<noteq> [] then
        errCol path (edLine ed) (edCol ed) ''enum name %q collides with %q after target-language name conversion'' [name, previous]
      else Inr (e, c\<lparr>
        cSchema := S\<lparr>schEnums := schEnums S @ [\<lparr>enName = name, enSchemaName = declarationFullName S file parent name,
          enDoc = edDoc ed, enValues = enumValuesOf ed, enFile = Some file, enParent = parent\<rparr>]\<rparr>,
        cEnumByDir := (cEnumByDir c)(dir := (cEnumByDir c dir)(name \<mapsto> e)),
        cDeclByDir := (cDeclByDir c)(dir := (cDeclByDir c dir)(generated := name)),
        cEnumAll := (cEnumAll c)(name := cEnumAll c name @ [(dir, e)])\<rparr>))"

definition setMessage :: "mref \<Rightarrow> (message \<Rightarrow> message) \<Rightarrow> schema \<Rightarrow> schema" where
  "setMessage r f S = S\<lparr>schMessages := (schMessages S)[r := f (msgAt S r)]\<rparr>"

text \<open>The part of \<open>declareMessage\<close> up to its loops over nested declarations.\<close>

definition declareHead :: "string \<Rightarrow> fileref \<Rightarrow> mref option \<Rightarrow> messageDecl \<Rightarrow> compiler \<Rightarrow> cfailure + mref \<times> compiler" where
  "declareHead path file parent md c =
     (let dir = pathDir path; name = mdName md; generated = generatedIdentifier name;
          previous = cDeclByDir c dir generated; S = cSchema c; r = length (schMessages S) in
      if cMsgByDir c dir name \<noteq> None then errCol path (mdLine md) (mdCol md) ''duplicate message name %q'' [name]
      else if cEnumByDir c dir name \<noteq> None then
        errCol path (mdLine md) (mdCol md) ''name %q already used by an enum'' [name]
      else if previous \<noteq> [] then
        errCol path (mdLine md) (mdCol md) ''message name %q collides with %q after target-language name conversion'' [name, previous]
      else Inr (r, c\<lparr>
        cSchema := S\<lparr>schMessages := schMessages S @ [\<lparr>mName = name, mSchemaName = declarationFullName S file parent name,
          mDoc = mdDoc md, mErrorType = False, mFields = [], mNested = [], mNestedEnums = [],
          mDecorators = convertDecorators (mdDecorators md), mFile = Some file, mParent = parent,
          mResponseOnly = False\<rparr>]\<rparr>,
        cMsgByDir := (cMsgByDir c)(dir := (cMsgByDir c dir)(name \<mapsto> r)),
        cDeclByDir := (cDeclByDir c)(dir := (cDeclByDir c dir)(generated := name)),
        cMsgAll := (cMsgAll c)(name := cMsgAll c name @ [(dir, r)])\<rparr>))"

fun declareMessage :: "string \<Rightarrow> fileref \<Rightarrow> mref option \<Rightarrow> messageDecl \<Rightarrow> compiler \<Rightarrow> cfailure + msgNode \<times> compiler" where
  "declareMessage path file parent (MessageDecl name doc decs fds nested nestedEn line col) c =
     bindE (declareHead path file parent (MessageDecl name doc decs fds nested nestedEn line col) c) (\<lambda>(r, c1).
     bindE (eachS (declareMessage path file (Some r)) nested c1) (\<lambda>(nodes, c2).
     bindE (eachS (declareEnum path file (Some r)) nestedEn c2) (\<lambda>(es, c3).
       Inr (MsgNode r nodes, c3\<lparr>cSchema := setMessage r
         (\<lambda>m. m\<lparr>mNested := map nodeRef nodes, mNestedEnums := es\<rparr>) (cSchema c3)\<rparr>))))"

definition setFile :: "fileref \<Rightarrow> (schemaFile \<Rightarrow> schemaFile) \<Rightarrow> schema \<Rightarrow> schema" where
  "setFile i f S = S\<lparr>schFiles := (schFiles S)[i := f (schFiles S ! i)]\<rparr>"

definition declareSource :: "source \<Rightarrow> compiler \<Rightarrow> cfailure + msgNode list \<times> compiler" where
  "declareSource s c =
     (let S = cSchema c; i = length (schFiles S); ast = srcAST s;
          c0 = c\<lparr>cSchema := S\<lparr>schFiles := schFiles S @ [\<lparr>flPath = srcPath s, flPackage = fldPackage ast,
            flImports = fldImports ast, flMessages = [], flEnums = [], flServices = []\<rparr>]\<rparr>\<rparr> in
      bindE (eachS (declareMessage (srcPath s) i None) (fldMessages ast) c0) (\<lambda>(nodes, c1).
      bindE (eachS (declareEnum (srcPath s) i None) (fldEnums ast) c1) (\<lambda>(es, c2).
        Inr (nodes, c2\<lparr>cSchema := setFile i (\<lambda>f. f\<lparr>flMessages := map nodeRef nodes, flEnums := es\<rparr>) (cSchema c2)\<rparr>))))"

subsection \<open>Looking names up\<close>

text \<open>An ambiguity is an error text; a name that is not found is \<open>None\<close>.\<close>

type_synonym 'r lookup = "message_text + 'r option"

definition pickOne :: "string \<Rightarrow> string \<Rightarrow> (string \<times> 'r) list \<Rightarrow> 'r lookup" where
  "pickOne fmt name ms =
     (case ms of
        [] \<Rightarrow> Inr None
      | [m] \<Rightarrow> Inr (Some (snd m))
      | _ \<Rightarrow> Inl (fmt, [name, joinWith '', '' (map fst ms)]))"

definition lookupMessage :: "compiler \<Rightarrow> string \<Rightarrow> string \<Rightarrow> mref lookup" where
  "lookupMessage c dir name =
     (case cMsgByDir c dir name of
        Some r \<Rightarrow> Inr (Some r)
      | None \<Rightarrow> pickOne ''ambiguous type %q found in multiple directories: %s'' name (cMsgAll c name))"

definition lookupEnum :: "compiler \<Rightarrow> string \<Rightarrow> string \<Rightarrow> eref lookup" where
  "lookupEnum c dir name =
     (case cEnumByDir c dir name of
        Some e \<Rightarrow> Inr (Some e)
      | None \<Rightarrow> pickOne ''ambiguous type %q found in multiple directories: %s'' name (cEnumAll c name))"

definition lookupMessageForSource :: "scopes \<Rightarrow> compiler \<Rightarrow> string \<Rightarrow> string \<Rightarrow> mref lookup" where
  "lookupMessageForSource sc c path name =
     (case sc (pathClean path) of
        Some scope \<Rightarrow> pickOne ''ambiguous imported type %q found in multiple directories: %s'' name
            (filter (\<lambda>m. fst m \<in> scope) (cMsgAll c name))
      | None \<Rightarrow> lookupMessage c (pathDir path) name)"

definition lookupEnumForSource :: "scopes \<Rightarrow> compiler \<Rightarrow> string \<Rightarrow> string \<Rightarrow> eref lookup" where
  "lookupEnumForSource sc c path name =
     (case sc (pathClean path) of
        Some scope \<Rightarrow> pickOne ''ambiguous imported type %q found in multiple directories: %s'' name
            (filter (\<lambda>m. fst m \<in> scope) (cEnumAll c name))
      | None \<Rightarrow> lookupEnum c (pathDir path) name)"

text \<open>The text before and after the last dot.\<close>

definition lastDot :: "string \<Rightarrow> (string \<times> string) option" where
  "lastDot name =
     (let after = takeWhile (\<lambda>ch. ch \<noteq> CHR ''.'') (rev name); front = dropWhile (\<lambda>ch. ch \<noteq> CHR ''.'') (rev name) in
      if front = [] then None else Some (rev (tl front), rev after))"

definition filePath :: "schema \<Rightarrow> fileref \<Rightarrow> string" where
  "filePath S i = (if i < length (schFiles S) then flPath (schFiles S ! i) else [])"

definition inPackage :: "schema \<Rightarrow> string \<Rightarrow> fileref option \<Rightarrow> bool" where
  "inPackage S pkg file \<longleftrightarrow> file \<noteq> None \<and> filePackage S file = pkg"

definition lookupQualifiedMessage :: "compiler \<Rightarrow> string \<Rightarrow> mref option" where
  "lookupQualifiedMessage c name =
     (case lastDot name of
        None \<Rightarrow> None
      | Some (pkg, simple) \<Rightarrow>
          map_option snd (find (\<lambda>m. inPackage (cSchema c) pkg (mFile (msgAt (cSchema c) (snd m)))) (cMsgAll c simple)))"

definition lookupQualifiedEnum :: "compiler \<Rightarrow> string \<Rightarrow> eref option" where
  "lookupQualifiedEnum c name =
     (case lastDot name of
        None \<Rightarrow> None
      | Some (pkg, simple) \<Rightarrow>
          map_option snd (find (\<lambda>m. inPackage (cSchema c) pkg (enFile (enumAt (cSchema c) (snd m)))) (cEnumAll c simple)))"

text \<open>A restricted file only sees declarations of the directories in its scope.\<close>

definition visibleFrom :: "scopes \<Rightarrow> schema \<Rightarrow> string \<Rightarrow> fileref option \<Rightarrow> bool" where
  "visibleFrom sc S path file =
     (case sc (pathClean path) of
        None \<Rightarrow> True
      | Some scope \<Rightarrow> (case file of None \<Rightarrow> False | Some i \<Rightarrow> pathDir (filePath S i) \<in> scope))"

definition lookupQualifiedMessageForSource :: "scopes \<Rightarrow> compiler \<Rightarrow> string \<Rightarrow> string \<Rightarrow> mref option" where
  "lookupQualifiedMessageForSource sc c path name =
     (case lookupQualifiedMessage c name of
        None \<Rightarrow> None
      | Some r \<Rightarrow> if visibleFrom sc (cSchema c) path (mFile (msgAt (cSchema c) r)) then Some r else None)"

definition lookupQualifiedEnumForSource :: "scopes \<Rightarrow> compiler \<Rightarrow> string \<Rightarrow> string \<Rightarrow> eref option" where
  "lookupQualifiedEnumForSource sc c path name =
     (case lookupQualifiedEnum c name of
        None \<Rightarrow> None
      | Some e \<Rightarrow> if visibleFrom sc (cSchema c) path (enFile (enumAt (cSchema c) e)) then Some e else None)"

subsection \<open>Types and fields\<close>

definition validMapKey :: "scalarKind \<Rightarrow> bool" where
  "validMapKey k \<longleftrightarrow> k \<in> {ScalarString, ScalarInt32, ScalarInt64, ScalarUint32, ScalarUint64}"

definition spanPosition :: "span \<Rightarrow> nat \<Rightarrow> nat \<Rightarrow> nat \<times> nat" where
  "spanPosition sp line col = (if spLine sp > 0 then (spLine sp, spCol sp) else (line, col))"

definition resolveName :: "scopes \<Rightarrow> compiler \<Rightarrow> string \<Rightarrow> nat \<Rightarrow> nat \<Rightarrow> string \<Rightarrow> cfailure + irType" where
  "resolveName sc c path line col name =
     (case parseScalarKind name of
        Some k \<Rightarrow> Inr (TScalar k)
      | None \<Rightarrow>
          if CHR ''.'' \<in> set name then
            (case lookupQualifiedMessageForSource sc c path name of
               Some r \<Rightarrow> Inr (TMessage r)
             | None \<Rightarrow>
                 (case lookupQualifiedEnumForSource sc c path name of
                    Some e \<Rightarrow> Inr (TEnum e)
                  | None \<Rightarrow> errCol path line col ''unresolved qualified type %q'' [name]))
          else
            (case lookupMessageForSource sc c path name of
               Inl (fmt, args) \<Rightarrow> errCol path line col fmt args
             | Inr (Some r) \<Rightarrow> Inr (TMessage r)
             | Inr None \<Rightarrow>
                 (case lookupEnumForSource sc c path name of
                    Inl (fmt, args) \<Rightarrow> errCol path line col fmt args
                  | Inr (Some e) \<Rightarrow> Inr (TEnum e)
                  | Inr None \<Rightarrow> errCol path line col ''unresolved type %q'' [name])))"

text \<open>A missing type reference is a nil pointer.\<close>

fun resolveType :: "scopes \<Rightarrow> compiler \<Rightarrow> string \<Rightarrow> nat \<times> nat \<Rightarrow> typeRef option \<Rightarrow> cfailure + irType" where
  "resolveType sc c path pos None = Inl Panic"
| "resolveType sc c path pos (Some (TypeRef sp name isMap mapKey mapVal)) =
     (let pos' = spanPosition sp (fst pos) (snd pos) in
      if isMap then
        (case parseScalarKind mapKey of
           None \<Rightarrow> errCol path (fst pos') (snd pos') ''invalid map key type %q'' [mapKey]
         | Some k \<Rightarrow>
             if \<not> validMapKey k then
               errCol path (fst pos') (snd pos') ''map keys must be string, int32, int64, uint32 or uint64'' []
             else bindE (resolveType sc c path pos' mapVal) (\<lambda>v. Inr (TMap k v)))
      else resolveName sc c path (fst pos') (snd pos') name)"

definition buildVariant :: "scopes \<Rightarrow> compiler \<Rightarrow> string \<Rightarrow> arg list \<Rightarrow> variantDecl \<Rightarrow> cfailure + variant" where
  "buildVariant sc c path args vd =
     bindE (resolveType sc c path (vdLine vd, vdCol vd) (vdType vd)) (\<lambda>t.
       if oneofFlatten \<lparr>oArgs = args, oVariants = []\<rparr> \<and> (case t of TMessage _ \<Rightarrow> False | _ \<Rightarrow> True) then
         errCol path (vdLine vd) (vdCol vd)
           ''oneof variant %q must be a message to use flatten: true; its fields are merged next to the discriminator'' [vdName vd]
       else Inr \<lparr>vName = vdName vd, vType = Some t, vDecorators = convertDecorators (vdDecorators vd)\<rparr>)"

definition buildOneof :: "scopes \<Rightarrow> compiler \<Rightarrow> string \<Rightarrow> oneofDecl \<Rightarrow> cfailure + oneof" where
  "buildOneof sc c path od =
     (let args = convertArgs (odArgs od) in
      bindE (mapE (buildVariant sc c path args) (odVariants od)) (\<lambda>vs. Inr \<lparr>oArgs = args, oVariants = vs\<rparr>))"

definition isInt64Kind :: "scalarKind \<Rightarrow> bool" where
  "isInt64Kind k \<longleftrightarrow> k = ScalarInt64 \<or> k = ScalarUint64"

definition emitsZero :: "field \<Rightarrow> bool" where
  "emitsZero f =
     (if fOptional f \<or> fOneof f \<noteq> None then False
      else case fType f of
        None \<Rightarrow> False
      | Some (TMessage _) \<Rightarrow> fRepeated f
      | Some (TScalar k) \<Rightarrow> k \<noteq> ScalarTimestamp \<and> k \<noteq> ScalarJSON
      | Some _ \<Rightarrow> True)"

definition fieldEncodesAsNumber :: "field \<Rightarrow> bool" where
  "fieldEncodesAsNumber f =
     (case fieldDecorator f ''encode'' of
        None \<Rightarrow> False | Some d \<Rightarrow> decoratorValue d = Some ''number'')"

definition withoutDecorator :: "decorator list \<Rightarrow> string \<Rightarrow> decorator list" where
  "withoutDecorator ds name = filter (\<lambda>d. decName d \<noteq> name) ds"

text \<open>The empty text when the field may be nullable.\<close>

definition nullableIneligibleReason :: "field \<Rightarrow> string" where
  "nullableIneligibleReason f =
     (let has = fieldHasDecorator f; q = [CHR 0x22];
          scalar = (case fType f of Some (TScalar k) \<Rightarrow> Some k | _ \<Rightarrow> None);
          isMap = (case fType f of Some (TMap _ _) \<Rightarrow> True | _ \<Rightarrow> False) in
      if \<not> fOptional f then ''requires the ? marker; absent and null are only distinct on optional fields''
      else if fRepeated f \<or> isMap then ''is not supported on repeated or map fields''
      else if scalar = Some ScalarBytes then ''is not supported on bytes fields''
      else if has ''required'' then ''cannot be combined with @required''
      else if has ''query'' then ''cannot be combined with @query''
      else if has ''flatten'' \<or> has ''unwrap'' \<or> has ''empty'' then ''cannot be combined with @flatten, @unwrap or @empty''
      else if scalar \<in> {Some ScalarInt64, Some ScalarUint64} \<and> \<not> fInt64Number f \<and> \<not> fieldEncodesAsNumber f then
        ''needs a numeric 64-bit encoding: set int64_encoding = '' @ q @ ''number'' @ q @ '' or add @encode('' @ q @ ''number'' @ q @ '')''
      else if scalar = None \<and> has ''encode'' then ''cannot be combined with @encode''
      else if scalar = Some ScalarTimestamp \<and> has ''encode'' then ''cannot be combined with a custom timestamp @encode''
      else [])"

definition newField :: "fieldDecl \<Rightarrow> mref \<Rightarrow> field" where
  "newField fd owner =
     \<lparr>fName = fdName fd, fLine = fdLine fd, fDoc = fdDoc fd, fType = None, fRepeated = fdRepeated fd,
      fOptional = fdOptional fd, fDecorators = convertDecorators (fdDecorators fd), fOneof = None,
      fMessage = owner, fInt64Number = False, fEmitZero = False, fAlwaysSent = False, fValueItems = False,
      fNullable = False\<rparr>"

text \<open>The 64-bit encoding of a field: the explicit string form, or the number form.\<close>

definition applyInt64 :: "compileOptions \<Rightarrow> string \<Rightarrow> fieldDecl \<Rightarrow> irType \<Rightarrow> field \<Rightarrow> cfailure + field" where
  "applyInt64 opts path fd t f =
     bindE
       (if int64EncodedAsString fd then
          (if int64Encoding opts = ''number'' then
             Inl (CompileError path (fdLine fd) (fdCol fd) ''int64_encoding_conflict''
               (''field %q is @encode(string), but int64_encoding = '' @ [CHR 0x22] @ ''number'' @ [CHR 0x22] @
                '' sends every 64-bit integer as a JSON number; remove the @encode(string) (the wire stays a number) or remove int64_encoding from the project config'', [fdName fd]))
           else Inr (f\<lparr>fDecorators := withoutDecorator (fDecorators f) ''encode''\<rparr>))
        else if int64Encoding opts = ''number'' \<and> t \<in> {TScalar ScalarInt64, TScalar ScalarUint64} then
          Inr (f\<lparr>fInt64Number := True\<rparr>)
        else Inr f)
       (\<lambda>f1. if repeatedInt64Number fd then
                Inr (f1\<lparr>fInt64Number := True, fDecorators := withoutDecorator (fDecorators f1) ''encode''\<rparr>)
              else Inr f1)"

definition applyNullable :: "compileOptions \<Rightarrow> string \<Rightarrow> fieldDecl \<Rightarrow> field \<Rightarrow> cfailure + field" where
  "applyNullable opts path fd f =
     (if hasDecoratorDecl (fdDecorators fd) ''nullable'' then
        (let reason = nullableIneligibleReason f in
         if reason = [] then Inr (f\<lparr>fNullable := True\<rparr>)
         else if \<not> allowLegacy opts then errAt path (fdLine fd) ''@nullable on %q %s'' [fdName fd, reason]
         else Inr f)
      else Inr f)"

definition buildField :: "compileOptions \<Rightarrow> scopes \<Rightarrow> compiler \<Rightarrow> string \<Rightarrow> mref \<Rightarrow> fieldDecl \<Rightarrow> cfailure + field" where
  "buildField opts sc c path owner fd =
     (let f = newField fd owner in
      case fdOneof fd of
        Some od \<Rightarrow> bindE (buildOneof sc c path od) (\<lambda>o1. Inr (f\<lparr>fOneof := Some o1\<rparr>))
      | None \<Rightarrow>
          bindE (resolveType sc c path (fdLine fd, fdCol fd) (fdType fd)) (\<lambda>t.
            let f1 = f\<lparr>fType := Some t\<rparr>;
                f2 = f1\<lparr>fEmitZero := emitZeroValues opts \<and> emitsZero f1\<rparr> in
            bindE (applyInt64 opts path fd t f2) (applyNullable opts path fd)))"

text \<open>
  Resolving names does not read the fields of messages, so the names are looked up in the state
  after declaring, \<open>c\<close>, while the schema \<open>S\<close> is filled in.
\<close>

function fillMessage :: "compileOptions \<Rightarrow> scopes \<Rightarrow> compiler \<Rightarrow> string \<Rightarrow> messageDecl \<Rightarrow> msgNode \<Rightarrow> schema \<Rightarrow> cfailure + schema" where
  "fillMessage opts sc c path (MessageDecl name doc decs fds nested nestedEn line col) nd S =
     bindE (mapE (buildField opts sc c path (nodeRef nd)) fds) (\<lambda>fs.
       foldE (\<lambda>(m, n). fillMessage opts sc c path m n) (zip nested (nodeNested nd))
         (setMessage (nodeRef nd) (\<lambda>m. m\<lparr>mFields := fs\<rparr>) S))"
  by pat_completeness auto
termination
  by (relation "measure (\<lambda>(_, _, _, _, md, _, _). size md)")
    (auto dest!: set_zip_leftD simp: less_Suc_eq_le intro!: size_list_estimation' trans_le_add2)

subsection \<open>Services\<close>

definition resolveMessageReference :: "scopes \<Rightarrow> compiler \<Rightarrow> string \<Rightarrow> string \<Rightarrow> mref lookup" where
  "resolveMessageReference sc c path name =
     (if CHR ''.'' \<in> set name then Inr (lookupQualifiedMessageForSource sc c path name)
      else lookupMessageForSource sc c path name)"

definition buildHeader :: "string \<Rightarrow> headerDecl \<Rightarrow> cfailure + header" where
  "buildHeader path h =
     (case parseScalarKind (hdType h) of
        None \<Rightarrow> errCol path (hdLine h) (hdCol h) ''invalid header type %q for %q'' [hdType h, hdName h]
      | Some k \<Rightarrow> Inr \<lparr>hName = hdName h, hType = k, hDecorators = convertDecorators (hdDecorators h)\<rparr>)"

definition buildHeaders :: "string \<Rightarrow> headerDecl list \<Rightarrow> cfailure + header list" where
  "buildHeaders path hs = mapE (buildHeader path) hs"

text \<open>A reference that must resolve; \<open>what\<close> is the format of the error otherwise.\<close>

definition needMessage :: "scopes \<Rightarrow> compiler \<Rightarrow> string \<Rightarrow> nat \<times> nat \<Rightarrow> nat \<times> nat \<Rightarrow> string \<Rightarrow> string \<Rightarrow> cfailure + mref" where
  "needMessage sc c path pos unresolvedPos what name =
     (case resolveMessageReference sc c path name of
        Inl (fmt, args) \<Rightarrow> errCol path (fst pos) (snd pos) fmt args
      | Inr None \<Rightarrow> errCol path (fst unresolvedPos) (snd unresolvedPos) what [name]
      | Inr (Some r) \<Rightarrow> Inr r)"

text \<open>
  One round of the loop over error types. The state is the schema, whose message becomes an error
  type, the statuses seen and the error messages so far.
\<close>

definition addErrorType :: "scopes \<Rightarrow> compiler \<Rightarrow> string \<Rightarrow> rpcDecl \<Rightarrow> nat \<times> string \<Rightarrow>
    schema \<times> (int \<rightharpoonup> string) \<times> mref list \<Rightarrow> cfailure + schema \<times> (int \<rightharpoonup> string) \<times> mref list" where
  "addErrorType sc c path rd err st =
     (case st of (S, statuses, errs) \<Rightarrow>
        let pos = (rdLine rd, rdCol rd);
            upos = (if fst err < length (rdErrorSpans rd) then spanPosition (rdErrorSpans rd ! fst err) (fst pos) (snd pos) else pos) in
        bindE (needMessage sc c path pos upos ''unresolved error type %q'' (snd err)) (\<lambda>r.
          let S1 = setMessage r (\<lambda>m. m\<lparr>mErrorType := True\<rparr>) S;
              status = (case statusCode (msgAt S1 r) of Some code \<Rightarrow> code | None \<Rightarrow> 500) in
          case statuses status of
            Some previous \<Rightarrow> errCol path (rdLine rd) (rdCol rd) ''error types %q and %q use the same HTTP status %d''
              [previous, snd err, showInt status]
          | None \<Rightarrow> Inr (S1, statuses(status \<mapsto> snd err), errs @ [r])))"

definition buildMethod :: "scopes \<Rightarrow> compiler \<Rightarrow> string \<Rightarrow> rpcDecl \<Rightarrow> schema \<Rightarrow> cfailure + rpc \<times> schema" where
  "buildMethod sc c path rd S =
     (let pos = (rdLine rd, rdCol rd) in
      bindE (needMessage sc c path pos (spanPosition (rdRequestSpan rd) (rdLine rd) (rdCol rd))
        ''unresolved request type %q'' (rdRequestType rd)) (\<lambda>req.
      bindE (needMessage sc c path pos (spanPosition (rdResponseSpan rd) (rdLine rd) (rdCol rd))
        ''unresolved response type %q'' (rdResponseType rd)) (\<lambda>resp.
      bindE (buildHeaders path (rdHeaders rd)) (\<lambda>hs.
      bindE (foldE (addErrorType sc c path rd) (enumerate 0 (rdErrorTypes rd)) (S, \<lambda>_. None, [])) (\<lambda>(S1, _, errs).
        Inr (\<lparr>rName = rdName rd, rLine = rdLine rd, rDoc = rdDoc rd, rRequest = Some req, rResponse = Some resp,
              rErrorTypes = errs, rDecorators = convertDecorators (rdDecorators rd), rHeaders = hs,
              rPrincipal = None\<rparr>, S1))))))"

definition buildService :: "scopes \<Rightarrow> compiler \<Rightarrow> string \<Rightarrow> serviceDecl \<Rightarrow> schema \<Rightarrow> cfailure + service \<times> schema" where
  "buildService sc c path sd S =
     bindE (buildHeaders path (sdHeaders sd)) (\<lambda>hs.
     bindE (eachS (buildMethod sc c path) (sdRPCs sd) S) (\<lambda>(methods, S1).
       Inr (\<lparr>sName = sdName sd, sDoc = sdDoc sd, sBasePath = sdBasePath sd, sHeaders = hs, sMethods = methods\<rparr>, S1)))"

definition fillSource :: "compileOptions \<Rightarrow> scopes \<Rightarrow> compiler \<Rightarrow> fileref \<times> source \<times> msgNode list \<Rightarrow> schema \<Rightarrow> cfailure + schema" where
  "fillSource opts sc c src S =
     (case src of (i, s, nodes) \<Rightarrow>
        bindE (foldE (\<lambda>(m, n). fillMessage opts sc c (srcPath s) m n) (zip (fldMessages (srcAST s)) nodes) S) (\<lambda>S1.
        bindE (eachS (buildService sc c (srcPath s)) (fldServices (srcAST s)) S1) (\<lambda>(services, S2).
          Inr (setFile i (\<lambda>f. f\<lparr>flServices := services\<rparr>) S2))))"

text \<open>Both loops of \<open>CompileWithOptions\<close> over the sources; the forest is the declared messages.\<close>

definition buildSchema :: "compileOptions \<Rightarrow> scopes \<Rightarrow> source list \<Rightarrow> cfailure + msgNode list list \<times> schema" where
  "buildSchema opts sc sources =
     bindE (eachS declareSource sources emptyCompiler) (\<lambda>(forest, c).
     bindE (foldE (fillSource opts sc c) (zip [0..<length sources] (zip sources forest)) (cSchema c)) (\<lambda>S.
       Inr (forest, S)))"

subsection \<open>Rules and authorization\<close>

text \<open>
  The errors of a compilation: those of the checks, and an invalid \<open>@rule\<close> or \<open>@authorize\<close>, whose
  text quotes the expression and the error of the expression with its column. \<open>NoReturn\<close> is no
  error of the program: a recursion of the model has used up its fuel.
\<close>

datatype compileError =
    Failed cfailure
  | InvalidExpr (iePath: string) (ieLine: nat) (ieCol: nat) (ieCode: string) (ieSource: string) (ieError: xerror)
  | NoReturn

definition liftE :: "cfailure + 'a \<Rightarrow> compileError + 'a" where
  "liftE m = (case m of Inl e \<Rightarrow> Inl (Failed e) | Inr x \<Rightarrow> Inr x)"

definition exprError :: "string \<Rightarrow> nat \<times> nat \<Rightarrow> string \<Rightarrow> string \<Rightarrow> compileError + 'a" where
  "exprError path pos code fmt = Inl (Failed (CompileError path (fst pos) (snd pos) code (fmt, [])))"

definition checkRuleDecorator :: "schema \<Rightarrow> string \<Rightarrow> mref \<Rightarrow> field option \<Rightarrow> decoratorDecl \<Rightarrow> compileError + unit" where
  "checkRuleDecorator S path m fld d =
     bindE (liftE (argValueAt (ddArgs d) 0)) (\<lambda>src.
     bindE (liftE (argValueAt (ddArgs d) 1)) (\<lambda>message.
       case compileRule S src m fld of
         Inl xe \<Rightarrow> Inl (InvalidExpr path (ddLine d) (ddCol d) ''invalid_rule'' src xe)
       | Inr _ \<Rightarrow> if length message > 200 then
             exprError path (ddLine d, ddCol d) ''invalid_rule'' ''the @rule message is longer than 200 characters''
           else Inr ()))"

definition rulesOf :: "decoratorDecl list \<Rightarrow> decoratorDecl list" where
  "rulesOf ds = filter (\<lambda>d. ddName d = ''rule'') ds"

text \<open>\<open>m.Fields[i]\<close> is the field built from the \<open>i\<close>-th declared field.\<close>

function validateMessageRules :: "schema \<Rightarrow> string \<Rightarrow> messageDecl \<Rightarrow> msgNode \<Rightarrow> compileError + unit" where
  "validateMessageRules S path (MessageDecl name doc decs fds nested nestedEn line col) nd =
     (let m = nodeRef nd in
      bindE (eachE (checkRuleDecorator S path m None) (rulesOf decs)) (\<lambda>_.
      bindE (eachE (\<lambda>(fd, f). eachE (checkRuleDecorator S path m (Some f)) (rulesOf (fdDecorators fd)))
        (zip fds (mFields (msgAt S m)))) (\<lambda>_.
        eachE (\<lambda>(md, n). validateMessageRules S path md n) (zip nested (nodeNested nd)))))"
  by pat_completeness auto
termination
  by (relation "measure (\<lambda>(_, _, md, _). size md)")
    (auto dest!: set_zip_leftD simp: less_Suc_eq_le intro!: size_list_estimation' trans_le_add2)

definition validateRules :: "schema \<Rightarrow> source list \<Rightarrow> msgNode list list \<Rightarrow> compileError + unit" where
  "validateRules S sources forest =
     eachE (\<lambda>(s, nodes). eachE (\<lambda>(md, n). validateMessageRules S (srcPath s) md n) (zip (fldMessages (srcAST s)) nodes))
       (zip sources forest)"

text \<open>The message marked \<open>@principal\<close>, if any, as the loop has found it so far.\<close>

definition markPrincipal :: "schema \<Rightarrow> string \<Rightarrow> mref \<Rightarrow> decoratorDecl \<Rightarrow> mref option \<Rightarrow> compileError + mref option" where
  "markPrincipal S path m d found =
     (if messageIsError (msgAt S m) then
        Inl (Failed (CompileError path (ddLine d) (ddCol d) ''invalid_principal''
          (''@principal cannot mark the error message %s'', [mName (msgAt S m)])))
      else case found of
        Some p \<Rightarrow> Inl (Failed (CompileError path (ddLine d) (ddCol d) ''invalid_principal''
          (''only one message may be marked @principal, and %s already is'', [mName (msgAt S p)])))
      | None \<Rightarrow> Inr (Some m))"

function findPrincipalIn :: "schema \<Rightarrow> string \<Rightarrow> messageDecl \<Rightarrow> msgNode \<Rightarrow> mref option \<Rightarrow> compileError + mref option" where
  "findPrincipalIn S path (MessageDecl name doc decs fds nested nestedEn line col) nd found =
     bindE (foldE (markPrincipal S path (nodeRef nd)) (filter (\<lambda>d. ddName d = ''principal'') decs) found)
       (foldE (\<lambda>(md, n). findPrincipalIn S path md n) (zip nested (nodeNested nd)))"
  by pat_completeness auto
termination
  by (relation "measure (\<lambda>(_, _, md, _, _). size md)")
    (auto dest!: set_zip_leftD simp: less_Suc_eq_le intro!: size_list_estimation' trans_le_add2)

definition findPrincipal :: "schema \<Rightarrow> source list \<Rightarrow> msgNode list list \<Rightarrow> compileError + mref option" where
  "findPrincipal S sources forest =
     foldE (\<lambda>(s, nodes). foldE (\<lambda>(md, n). findPrincipalIn S (srcPath s) md n) (zip (fldMessages (srcAST s)) nodes))
       (zip sources forest) None"

definition checkAuthorize :: "schema \<Rightarrow> string \<Rightarrow> rpcDecl \<Rightarrow> mref option \<Rightarrow> decoratorDecl \<Rightarrow> rpc \<Rightarrow> compileError + rpc" where
  "checkAuthorize S path rd pmsg d m =
     (let pos = decoratorPos rd d in
      case pmsg of
        None \<Rightarrow> exprError path pos ''invalid_authorize''
          ''@authorize needs a message marked @principal to describe the authenticated caller''
      | Some p \<Rightarrow>
          bindE (liftE (argValueAt (ddArgs d) 0)) (\<lambda>src.
          bindE (liftE (argValueAt (ddArgs d) 1)) (\<lambda>message.
            case rRequest m of
              None \<Rightarrow> Inl (Failed Panic)
            | Some req \<Rightarrow>
                (case compileAuthorize S src p req of
                   Inl xe \<Rightarrow> Inl (InvalidExpr path (fst pos) (snd pos) ''invalid_authorize'' src xe)
                 | Inr _ \<Rightarrow> if length message > 200 then
                       exprError path pos ''invalid_authorize'' ''the @authorize message is longer than 200 characters''
                     else Inr (m\<lparr>rPrincipal := Some p\<rparr>)))))"

definition validateRPCAuthorize :: "schema \<Rightarrow> string \<Rightarrow> mref option \<Rightarrow> rpcDecl \<times> rpc \<Rightarrow> compileError + rpc" where
  "validateRPCAuthorize S path pmsg x =
     (case x of (rd, m) \<Rightarrow>
        foldE (checkAuthorize S path rd pmsg) (filter (\<lambda>d. ddName d = ''authorize'') (rdDecorators rd)) m)"

definition authorizeService :: "schema \<Rightarrow> string \<Rightarrow> mref option \<Rightarrow> serviceDecl \<times> service \<Rightarrow> compileError + service" where
  "authorizeService S path pmsg x =
     (case x of (sd, sv) \<Rightarrow>
        bindE (mapE (validateRPCAuthorize S path pmsg) (zip (sdRPCs sd) (sMethods sv))) (\<lambda>ms.
          Inr (sv\<lparr>sMethods := ms\<rparr>)))"

definition authorizeFile :: "schema \<Rightarrow> mref option \<Rightarrow> source \<times> schemaFile \<Rightarrow> compileError + schemaFile" where
  "authorizeFile S pmsg x =
     (case x of (s, f) \<Rightarrow>
        bindE (mapE (authorizeService S (srcPath s) pmsg) (zip (fldServices (srcAST s)) (flServices f))) (\<lambda>svs.
          Inr (f\<lparr>flServices := svs\<rparr>)))"

text \<open>Only the principals of methods change, which no check reads.\<close>

definition validateAuthorize :: "schema \<Rightarrow> source list \<Rightarrow> msgNode list list \<Rightarrow> compileError + schema" where
  "validateAuthorize S sources forest =
     bindE (findPrincipal S sources forest) (\<lambda>pmsg.
     bindE (mapE (authorizeFile S pmsg) (zip sources (schFiles S))) (\<lambda>fls.
       Inr (S\<lparr>schFiles := fls\<rparr>)))"

end
