(* ===== verification/Compat.thy ===== *)
theory Compat
  imports IrWalk GoFmt "HOL-Library.List_Lexorder" "HOL-Library.Char_ord" "HOL-Library.Product_Lexorder"
begin

text \<open>
  \<open>internal/onkcompat/compat.go\<close>: the comparison of two compiled packages for breaking changes.
  Both packages are schemas with their own tables. A \<open>None\<close> result of the model is a Go run
  that does not return: the nesting of messages has a cycle, or a method has no request or
  response message (a nil dereference). Go ranges over its maps in an unspecified order and
  sorts the findings by path and message at the end; the model ranges in insertion order.
\<close>

record finding =
  fdPath :: string
  fdMessage :: string
  fdBefore :: string
  fdAfter :: string

definition finding1 :: "string \<Rightarrow> string \<Rightarrow> finding" where
  "finding1 path msg = \<lparr>fdPath = path, fdMessage = msg, fdBefore = [], fdAfter = []\<rparr>"

subsection \<open>Usage of messages and enums\<close>

text \<open>\<open>direction\<close> is a set of two bits: used in a request, used in a response.\<close>

type_synonym direction = "bool \<times> bool"

definition usedInRequest :: direction where "usedInRequest = (True, False)"
definition usedInResponse :: direction where "usedInResponse = (False, True)"

definition dirOr :: "direction \<Rightarrow> direction \<Rightarrow> direction" where
  "dirOr a b = (fst a \<or> fst b, snd a \<or> snd b)"

text \<open>\<open>d & use == use\<close>.\<close>

definition dirHas :: "direction \<Rightarrow> direction \<Rightarrow> bool" where
  "dirHas d use \<longleftrightarrow> (fst use \<longrightarrow> fst d) \<and> (snd use \<longrightarrow> snd d)"

text \<open>A map from full names; a missing name reads as no bits.\<close>

type_synonym usage = "string \<Rightarrow> direction"

definition addUse :: "string \<Rightarrow> direction \<Rightarrow> usage \<Rightarrow> usage" where
  "addUse name use out = out(name := dirOr (out name) use)"

definition enumUsageKey :: "string \<Rightarrow> string" where "enumUsageKey name = ''enum:'' @ name"

datatype typeUse = UseMessage mref | UseEnum eref

fun typeUses :: "irType \<Rightarrow> typeUse list" where
  "typeUses (TScalar k) = []"
| "typeUses (TMessage r) = [UseMessage r]"
| "typeUses (TEnum e) = [UseEnum e]"
| "typeUses (TMap k t) = typeUses t"

definition optUses :: "irType option \<Rightarrow> typeUse list" where
  "optUses t = (case t of None \<Rightarrow> [] | Some u \<Rightarrow> typeUses u)"

text \<open>What \<open>mark\<close> passes to \<open>markType\<close>, in order: each field's type, then its variants' types.\<close>

definition messageUses :: "schema \<Rightarrow> mref \<Rightarrow> typeUse list" where
  "messageUses S r = concat (map (\<lambda>f. optUses (fType f) @
       (case fOneof f of None \<Rightarrow> [] | Some o1 \<Rightarrow> concat (map (\<lambda>v. optUses (vType v)) (oVariants o1))))
     (mFields (msgAt S r)))"

fun markUses :: "schema \<Rightarrow> direction \<Rightarrow> (mref \<Rightarrow> usage \<Rightarrow> usage option) \<Rightarrow> typeUse list \<Rightarrow> usage \<Rightarrow> usage option" where
  "markUses S use mk [] out = Some out"
| "markUses S use mk (UseEnum e # us) out =
     markUses S use mk us (addUse (enumUsageKey (enumFullName S e)) use out)"
| "markUses S use mk (UseMessage r # us) out = Option.bind (mk r out) (markUses S use mk us)"

text \<open>\<open>k\<close> bounds the depth; one more than the number of messages is enough (\<open>markMessage_enough\<close>).\<close>

fun markMessage :: "nat \<Rightarrow> schema \<Rightarrow> direction \<Rightarrow> mref \<Rightarrow> usage \<Rightarrow> usage option" where
  "markMessage 0 S use r out = None"
| "markMessage (Suc k) S use r out =
     (let name = messageFullName S r in
      if dirHas (out name) use then Some out
      else markUses S use (markMessage k S use) (messageUses S r) (addUse name use out))"

definition markOpt :: "schema \<Rightarrow> direction \<Rightarrow> mref option \<Rightarrow> usage \<Rightarrow> usage option" where
  "markOpt S use m out = (case m of
     None \<Rightarrow> Some out | Some r \<Rightarrow> markMessage (Suc (length (schMessages S))) S use r out)"

text \<open>The loop over files, services and methods calls \<open>mark\<close> on these messages, in this order.\<close>

definition methodRoots :: "rpc \<Rightarrow> (mref option \<times> direction) list" where
  "methodRoots m = [(rRequest m, usedInRequest), (rResponse m, usedInResponse)] @
     map (\<lambda>e. (Some e, usedInResponse)) (rErrorTypes m)"

definition allMethods :: "schema \<Rightarrow> (schemaFile \<times> service \<times> rpc) list" where
  "allMethods S = concat (map (\<lambda>fl. concat (map (\<lambda>sv. map (\<lambda>m. (fl, sv, m)) (sMethods sv)) (flServices fl)))
     (schFiles S))"

definition usageRoots :: "schema \<Rightarrow> (mref option \<times> direction) list" where
  "usageRoots S = concat (map (\<lambda>(fl, sv, m). methodRoots m) (allMethods S))"

fun markRoots :: "schema \<Rightarrow> (mref option \<times> direction) list \<Rightarrow> usage \<Rightarrow> usage option" where
  "markRoots S [] out = Some out"
| "markRoots S ((m, use) # rs) out = Option.bind (markOpt S use m out) (markRoots S rs)"

definition noUse :: usage where "noUse = (\<lambda>_. (False, False))"

definition messageUsage :: "schema option \<Rightarrow> usage option" where
  "messageUsage pkg = (case pkg of None \<Rightarrow> Some noUse | Some S \<Rightarrow> markRoots S (usageRoots S) noUse)"

subsection \<open>Messages and enums by full name\<close>

text \<open>The messages in the order \<open>add\<close> visits them: each before its nested ones.\<close>

fun nestedDeep :: "nat \<Rightarrow> schema \<Rightarrow> mref list \<Rightarrow> mref list option" where
  "nestedDeep 0 S ms = (if ms = [] then Some [] else None)"
| "nestedDeep (Suc k) S ms = (case ms of
       [] \<Rightarrow> Some []
     | m # ms' \<Rightarrow>
         Option.bind (nestedDeep k S (mNested (msgAt S m))) (\<lambda>inner.
         Option.bind (nestedDeep (Suc k) S ms') (\<lambda>rest. Some (m # inner @ rest))))"

definition messagesDeep :: "schema \<Rightarrow> mref list \<Rightarrow> mref list option" where
  "messagesDeep S ms = nestedDeep (Suc (length (schMessages S))) S ms"

definition packageMessages :: "schema option \<Rightarrow> (string \<times> mref) list option" where
  "packageMessages pkg = (case pkg of
     None \<Rightarrow> Some []
   | Some S \<Rightarrow> map_option (\<lambda>ms. goMap (map (\<lambda>r. (messageFullName S r, r)) ms))
       (messagesDeep S (concat (map flMessages (schFiles S)))))"

text \<open>File by file: its enums, then the enums of each of its messages.\<close>

definition fileEnums :: "schema \<Rightarrow> schemaFile \<Rightarrow> eref list option" where
  "fileEnums S fl = map_option (\<lambda>ms. flEnums fl @ concat (map (\<lambda>r. mNestedEnums (msgAt S r)) ms))
     (messagesDeep S (flMessages fl))"

fun allSome :: "('a \<Rightarrow> 'b option) \<Rightarrow> 'a list \<Rightarrow> 'b list option" where
  "allSome g [] = Some []"
| "allSome g (x # xs) = Option.bind (g x) (\<lambda>y. Option.bind (allSome g xs) (\<lambda>ys. Some (y # ys)))"

definition packageEnums :: "schema option \<Rightarrow> (string \<times> eref) list option" where
  "packageEnums pkg = (case pkg of
     None \<Rightarrow> Some []
   | Some S \<Rightarrow> map_option (\<lambda>es. goMap (map (\<lambda>e. (enumFullName S e, e)) (concat es)))
       (allSome (fileEnums S) (schFiles S)))"

subsection \<open>Signatures\<close>

definition decoratorSignature :: "decorator \<Rightarrow> string" where
  "decoratorSignature d = joinWith '':'' (decName d # map (\<lambda>a. argName a @ ''='' @ argValue a) (decArgs d))"

fun typeName :: "schema \<Rightarrow> irType option \<Rightarrow> string" where
  "typeName S None = []"
| "typeName S (Some (TScalar k)) = scalarKindName k"
| "typeName S (Some (TMessage r)) = ''message:'' @ messageFullName S r"
| "typeName S (Some (TEnum e)) = ''enum:'' @ enumFullName S e"
| "typeName S (Some (TMap k t)) = ''map:'' @ scalarKindName k @ '':'' @ typeName S (Some t)"

definition variantSignature :: "schema \<Rightarrow> variant \<Rightarrow> string" where
  "variantSignature S v = vName v @ '':'' @ typeName S (vType v) @ '':'' @ variantTag v @ '':'' @
     joinWith '','' (sort (map decoratorSignature (vDecorators v)))"

definition oneofDiscriminatorKey :: "oneof \<Rightarrow> string" where
  "oneofDiscriminatorKey o1 = (case discriminator o1 of
     Some d \<Rightarrow> if d = [] then ''type'' else d | None \<Rightarrow> ''type'')"

definition fieldTypeSignature :: "schema \<Rightarrow> field \<Rightarrow> string" where
  "fieldTypeSignature S f = joinWith ''|''
     ([typeName S (fType f), ''repeated='' @ showBool (fRepeated f)] @
      (case fOneof f of
         None \<Rightarrow> []
       | Some o1 \<Rightarrow> [''oneof'',
           ''variants='' @ joinWith ''|'' (sort (map (variantSignature S) (oVariants o1))),
           ''discriminator='' @ oneofDiscriminatorKey o1,
           ''flatten='' @ showBool (oneofFlatten o1)]))"

definition encodesNumber :: "decorator \<Rightarrow> bool" where
  "encodesNumber d \<longleftrightarrow> decName d = ''encode'' \<and> length (decArgs d) = 1 \<and> argValue (decArgs d ! 0) = ''number''"

definition int64AsNumber :: "field \<Rightarrow> bool" where
  "int64AsNumber f =
     (if fInt64Number f then True
      else case fType f of
        Some (TScalar k) \<Rightarrow> if k = ScalarInt64 \<or> k = ScalarUint64 then list_ex encodesNumber (fDecorators f) else False
      | _ \<Rightarrow> False)"

definition fieldContractSignature :: "field \<Rightarrow> string" where
  "fieldContractSignature f =
     (let numeric = int64AsNumber f;
          kept = filter (\<lambda>d. \<not> (decName d = ''query'' \<or> decName d = ''required'') \<and>
                   \<not> (numeric \<and> decName d = ''encode'')) (fDecorators f) in
      joinWith ''|'' (sort (map decoratorSignature kept @
        (if numeric then [''encode:number''] else []) @ (if fEmitZero f then [''emit:zero''] else []) @
        (if fNullable f then [''nullable''] else []))))"

definition messageRulesSignature :: "message \<Rightarrow> string" where
  "messageRulesSignature m = joinWith ''|''
     (sort (map decoratorSignature (filter (\<lambda>d. decName d = ''rule'') (mDecorators m))))"

definition isRequired :: "field \<Rightarrow> bool" where
  "isRequired f \<longleftrightarrow> \<not> fOptional f \<or> fieldHasDecorator f ''required''"

subsection \<open>Messages\<close>

definition messageFields :: "message \<Rightarrow> (string \<times> field) list" where
  "messageFields m = goMap (map (\<lambda>f. (fName f, f)) (mFields m))"

definition compareField ::
  "schema \<Rightarrow> schema \<Rightarrow> string \<Rightarrow> (string \<times> field) list \<Rightarrow> direction \<Rightarrow> string \<Rightarrow> field \<Rightarrow> finding list" where
  "compareField S S' name newFields use fieldName oldField =
     (let path = name @ ''.'' @ fieldName in
      case map_of newFields fieldName of
        None \<Rightarrow> [finding1 path ''field was removed'']
      | Some newField \<Rightarrow>
          (if fieldTypeSignature S oldField \<noteq> fieldTypeSignature S' newField
           then [finding1 path ''field type, cardinality, or oneof contract changed''] else []) @
          (if fieldContractSignature oldField \<noteq> fieldContractSignature newField
           then [finding1 path ''field validation or JSON mapping changed''] else []) @
          (if fst use \<and> \<not> isRequired oldField \<and> isRequired newField
           then [finding1 path ''field became required''] else []) @
          (if snd use \<and> isRequired oldField \<and> \<not> isRequired newField
           then [finding1 path ''field became optional in a response''] else []))"

definition compareMessage ::
  "schema \<Rightarrow> schema \<Rightarrow> string \<Rightarrow> mref \<Rightarrow> mref \<Rightarrow> direction \<Rightarrow> finding list" where
  "compareMessage S S' name old new use =
     (let oldFields = messageFields (msgAt S old); newFields = messageFields (msgAt S' new) in
      (if messageRulesSignature (msgAt S old) \<noteq> messageRulesSignature (msgAt S' new)
       then [finding1 name ''message rules changed''] else []) @
      concat (map (\<lambda>(fieldName, oldField). compareField S S' name newFields use fieldName oldField) oldFields) @
      concat (map (\<lambda>(fieldName, newField).
        if map_of oldFields fieldName = None \<and> fst use \<and> isRequired newField
        then [finding1 (name @ ''.'' @ fieldName) ''required field was added''] else []) newFields))"

subsection \<open>Enums\<close>

definition compareEnum :: "string \<Rightarrow> enum \<Rightarrow> enum \<Rightarrow> finding list" where
  "compareEnum name old new =
     (let newValues = goMap (map (\<lambda>v. (evName v, enumJSONName v)) (enValues new)) in
      concat (map (\<lambda>v. case map_of newValues (evName v) of
          None \<Rightarrow> [finding1 (name @ ''.'' @ evName v) ''enum value was removed'']
        | Some jsonName \<Rightarrow>
            if jsonName \<noteq> enumJSONName v
            then [finding1 (name @ ''.'' @ evName v) ''enum JSON value changed''] else []) (enValues old)))"

definition addedEnumValues :: "string \<Rightarrow> enum \<Rightarrow> enum \<Rightarrow> finding list" where
  "addedEnumValues name old new =
     concat (map (\<lambda>v. if evName v \<in> set (map evName (enValues old)) then []
        else [finding1 (name @ ''.'' @ evName v)
          ''enum value was added to a response enum; older clients reject unknown values'']) (enValues new))"

text \<open>The full names of the enums that a field of one of the messages encodes as numbers.\<close>

definition numberEncodedEnum :: "schema \<Rightarrow> field \<Rightarrow> string list" where
  "numberEncodedEnum S f = (case fType f of
     Some (TEnum e) \<Rightarrow>
       (case Option.bind (fieldDecorator f ''encode'') decoratorValue of
          Some v \<Rightarrow> if v = ''number'' then [enumFullName S e] else []
        | None \<Rightarrow> [])
   | _ \<Rightarrow> [])"

definition numberEncodedEnums :: "schema \<Rightarrow> (string \<times> mref) list \<Rightarrow> string list" where
  "numberEncodedEnums S ms =
     concat (map (\<lambda>(_, r). concat (map (numberEncodedEnum S) (mFields (msgAt S r)))) ms)"

definition positionMessage :: "nat \<Rightarrow> nat \<Rightarrow> string" where
  "positionMessage i j = ''enum value moved from '' @ showNat i @ '' to '' @ showNat j @
     '', changing its @encode(number) wire value''"

definition compareEnumPositions :: "string \<Rightarrow> enum \<Rightarrow> enum \<Rightarrow> finding list" where
  "compareEnumPositions name old new =
     (let positions = goMap (map (\<lambda>(i, v). (evName v, i)) (enumerate 0 (enValues new))) in
      concat (map (\<lambda>(i, v). case map_of positions (evName v) of
          Some j \<Rightarrow> if j \<noteq> i then [finding1 (name @ ''.'' @ evName v) (positionMessage i j)] else []
        | None \<Rightarrow> []) (enumerate 0 (enValues old))))"

subsection \<open>Routes\<close>

definition headerSignature :: "header \<Rightarrow> string" where
  "headerSignature h = joinWith '':''
     (sort ([toLower (hName h), scalarKindName (hType h), ''required='' @ showBool (headerRequired h)] @
        map decoratorSignature
          (filter (\<lambda>d. decName d \<notin> {''example'', ''deprecated'', ''auth_scheme_name''}) (hDecorators h))))"

definition queryPart :: "field \<Rightarrow> string list" where
  "queryPart f = (case fieldDecorator f ''query'' of
     None \<Rightarrow> []
   | Some d \<Rightarrow>
       (let nm = (case decoratorValue d of Some v \<Rightarrow> v | None \<Rightarrow> []) in
        [''query='' @ fName f @ '':'' @ (if nm = [] then fName f else nm)]))"

definition headerPart :: "header \<Rightarrow> string list" where
  "headerPart h =
     (if \<not> headerRequired h \<and> headerFormat h = None \<and> headerAuthType h = None then []
      else [''header='' @ headerSignature h])"

definition errorPart :: "schema \<Rightarrow> mref \<Rightarrow> string" where
  "errorPart S r = ''error='' @ messageFullName S r @ '':'' @
     showInt (case statusCode (msgAt S r) of Some c \<Rightarrow> c | None \<Rightarrow> 500)"

definition methodParts :: "schema \<Rightarrow> service \<Rightarrow> rpc \<Rightarrow> mref \<Rightarrow> mref \<Rightarrow> string list" where
  "methodParts S sv m req resp =
     [''service='' @ sName sv, ''method='' @ rName m, ''request='' @ messageFullName S req,
      ''response='' @ messageFullName S resp, ''stream='' @ showBool (isStream m)] @
     (case bodyField m of Some b \<Rightarrow> [''body='' @ b] | None \<Rightarrow> []) @
     concat (map queryPart (mFields (msgAt S req))) @
     concat (map headerPart (sHeaders sv @ rHeaders m)) @
     map (\<lambda>x. ''requires='' @ x) (requiredScopes m) @
     map (\<lambda>d. ''authorize='' @ decoratorSignature d) (authorizeRules m) @
     (if isRawHTTP m then [''http='' @ rawContentType m, ''http-request='' @ rawRequestKind m,
        ''http-response='' @ rawResponseKind m] else []) @
     (if successStatus m \<noteq> 200 then [''success='' @ showInt (successStatus m)] else []) @
     map (\<lambda>(k, v). ''meta='' @ k @ ''='' @ v) (methodMeta m) @
     map (\<lambda>g. ''guard='' @ g) (methodGuards m) @
     map (errorPart S) (rErrorTypes m)"

definition methodSignature :: "schema \<Rightarrow> service \<Rightarrow> rpc \<Rightarrow> string list option" where
  "methodSignature S sv m = (case (rRequest m, rResponse m) of
     (Some req, Some resp) \<Rightarrow> Some (sort (methodParts S sv m req resp)) | _ \<Rightarrow> None)"

definition routeKey :: "string \<Rightarrow> string \<Rightarrow> string \<Rightarrow> string \<Rightarrow> string" where
  "routeKey pkg sv verb fullPath =
     (if pkg = [] then sv @ '' '' @ verb @ '' '' @ fullPath
      else pkg @ ''.'' @ sv @ '' '' @ verb @ '' '' @ fullPath)"

definition methodRouteKey :: "schemaFile \<Rightarrow> service \<Rightarrow> rpc \<Rightarrow> string option" where
  "methodRouteKey fl sv m = (case webSocketPath m of
     Some p \<Rightarrow> Some (routeKey (flPackage fl) (sName sv) ''ws'' (sBasePath sv @ p))
   | None \<Rightarrow> (case (methodVerb m, methodPath m) of
       (Some v, Some p) \<Rightarrow> Some (routeKey (flPackage fl) (sName sv) v (sBasePath sv @ p)) | _ \<Rightarrow> None))"

definition routeEntry :: "schema \<Rightarrow> schemaFile \<times> service \<times> rpc \<Rightarrow> (string \<times> string list) list option" where
  "routeEntry S x = (case x of (fl, sv, m) \<Rightarrow>
     (case methodRouteKey fl sv m of
        None \<Rightarrow> Some [] | Some key \<Rightarrow> map_option (\<lambda>sig. [(key, sig)]) (methodSignature S sv m)))"

definition packageRoutes :: "schema option \<Rightarrow> (string \<times> string list) list option" where
  "packageRoutes pkg = (case pkg of
     None \<Rightarrow> Some []
   | Some S \<Rightarrow> map_option (\<lambda>es. goMap (concat es)) (allSome (routeEntry S) (allMethods S)))"

definition routePartLabels :: "(string \<times> string) list" where
  "routePartLabels =
     [(''service'', ''service name''), (''method'', ''method name''), (''request'', ''request message''),
      (''response'', ''response message''), (''stream'', ''streaming mode''), (''body'', ''body field''),
      (''query'', ''query parameters''), (''header'', ''headers''), (''error'', ''error responses''),
      (''requires'', ''required scopes''), (''authorize'', ''authorization rules''),
      (''meta'', ''route metadata''), (''guard'', ''route guards''), (''success'', ''success status''),
      (''http'', ''raw HTTP handler''), (''http-request'', ''raw HTTP request kind''),
      (''http-response'', ''raw HTTP response kind'')]"

text \<open>The values of the parts of one kind, in order.\<close>

definition partValues :: "string list \<Rightarrow> string \<Rightarrow> string list" where
  "partValues parts kind = map snd (filter (\<lambda>kv. fst kv = kind) (map (cutOn (CHR ''='')) parts))"

definition partKinds :: "string list \<Rightarrow> string list \<Rightarrow> string list" where
  "partKinds old new = remdups (map (\<lambda>p. fst (cutOn (CHR ''='') p)) (old @ new))"

definition compareRoute :: "string \<Rightarrow> string list \<Rightarrow> string list \<Rightarrow> finding list" where
  "compareRoute key old new =
     concat (map (\<lambda>kind.
       (let oldText = joinWith '', '' (partValues old kind); newText = joinWith '', '' (partValues new kind) in
        if oldText = newText then []
        else [\<lparr>fdPath = key, fdMessage = (case map_of routePartLabels kind of Some l \<Rightarrow> l | None \<Rightarrow> kind) @ '' changed'',
               fdBefore = oldText, fdAfter = newText\<rparr>])) (partKinds old new))"

subsection \<open>Compare\<close>

text \<open>A nil package has no messages, so its fallback schema is never looked into.\<close>

definition emptySchema :: schema where
  "emptySchema = \<lparr>schMessages = [], schEnums = [], schFiles = []\<rparr>"

definition pkgSchema :: "schema option \<Rightarrow> schema" where
  "pkgSchema pkg = (case pkg of Some S \<Rightarrow> S | None \<Rightarrow> emptySchema)"

definition effectiveUse :: "direction \<Rightarrow> direction" where
  "effectiveUse d = (if d = (False, False) then dirOr usedInRequest usedInResponse else d)"

definition messageFindings ::
  "schema \<Rightarrow> schema \<Rightarrow> usage \<Rightarrow> (string \<times> mref) list \<Rightarrow> string \<times> mref \<Rightarrow> finding list" where
  "messageFindings S S' use newMessages x = (case x of (name, old) \<Rightarrow>
     (case map_of newMessages name of
        None \<Rightarrow> [finding1 name ''message was removed'']
      | Some new \<Rightarrow> compareMessage S S' name old new (effectiveUse (use name))))"

definition enumFindings ::
  "schema \<Rightarrow> schema \<Rightarrow> usage \<Rightarrow> string list \<Rightarrow> (string \<times> eref) list \<Rightarrow> string \<times> eref \<Rightarrow> finding list" where
  "enumFindings S S' use numbered newEnums x = (case x of (name, old) \<Rightarrow>
     (case map_of newEnums name of
        None \<Rightarrow> [finding1 name ''enum was removed'']
      | Some new \<Rightarrow>
          compareEnum name (enumAt S old) (enumAt S' new) @
          (if snd (use (enumUsageKey name)) then addedEnumValues name (enumAt S old) (enumAt S' new) else []) @
          (if name \<in> set numbered then compareEnumPositions name (enumAt S old) (enumAt S' new) else [])))"

definition routeFindings :: "(string \<times> string list) list \<Rightarrow> string \<times> string list \<Rightarrow> finding list" where
  "routeFindings newRoutes x = (case x of (key, old) \<Rightarrow>
     (case map_of newRoutes key of
        None \<Rightarrow> [finding1 key ''HTTP route was removed or changed'']
      | Some new \<Rightarrow> compareRoute key old new))"

definition joinUse :: "usage \<Rightarrow> usage \<Rightarrow> usage" where
  "joinUse a b = (\<lambda>name. dirOr (a name) (b name))"

definition comparePackages :: "schema option \<Rightarrow> schema option \<Rightarrow> finding list option" where
  "comparePackages previous current =
     (let S = pkgSchema previous; S' = pkgSchema current in
      Option.bind (packageMessages previous) (\<lambda>oldMessages.
      Option.bind (packageMessages current) (\<lambda>newMessages.
      Option.bind (messageUsage previous) (\<lambda>oldUse.
      Option.bind (messageUsage current) (\<lambda>newUse.
      Option.bind (packageEnums previous) (\<lambda>oldEnums.
      Option.bind (packageEnums current) (\<lambda>newEnums.
      Option.bind (packageRoutes previous) (\<lambda>oldRoutes.
      Option.bind (packageRoutes current) (\<lambda>newRoutes.
        Some (sort_key (\<lambda>f. (fdPath f, fdMessage f))
          (concat (map (messageFindings S S' (joinUse oldUse newUse) newMessages) oldMessages) @
           concat (map (enumFindings S S' (joinUse oldUse newUse) (numberEncodedEnums S oldMessages) newEnums) oldEnums) @
           concat (map (routeFindings newRoutes) oldRoutes))))))))))))"

end
