(* ===== verification/CompatProps.thy ===== *)
theory CompatProps
  imports Compat
begin

text \<open>
  What the compatibility check guarantees: it returns on every compiled package, it reports
  nothing for an unchanged package, and no finding means the two packages are compatible in the
  sense of \<open>compatible\<close>, the contract written out over the maps of names. The usage of messages
  is reachability from the methods.
\<close>

subsection \<open>The walk over nested messages returns\<close>

text \<open>Compiled messages are allocated before the messages nested in them.\<close>

definition nestingOk :: "schema \<Rightarrow> bool" where
  "nestingOk S \<longleftrightarrow> (\<forall>r < length (schMessages S). \<forall>r' \<in> set (mNested (msgAt S r)). r < r' \<and> r' < length (schMessages S))"

lemma nestingOkD:
  "nestingOk S \<Longrightarrow> r < length (schMessages S) \<Longrightarrow> r' \<in> set (mNested (msgAt S r)) \<Longrightarrow> r < r' \<and> r' < length (schMessages S)"
  unfolding nestingOk_def by blast

lemma nestedDeep_Nil [simp]: "nestedDeep k S [] = Some []"
  by (cases k) auto

lemma msgAt_outside: "length (schMessages S) \<le> r \<Longrightarrow> msgAt S r = nilMessage"
  by (simp add: msgAt_def)

lemma nestedDeep_enough:
  assumes S: "nestingOk S"
  shows "\<forall>r \<in> set ms. length (schMessages S) < r + k \<Longrightarrow> (ms \<noteq> [] \<Longrightarrow> 0 < k) \<Longrightarrow> nestedDeep k S ms \<noteq> None"
proof (induction k arbitrary: ms)
  case (Suc k)
  note outer = Suc.IH
  show ?case using Suc.prems(1)
  proof (induction ms)
    case (Cons m ms)
    have "\<forall>r \<in> set (mNested (msgAt S m)). length (schMessages S) < r + k \<and> 0 < k"
    proof (cases "m < length (schMessages S)")
      case True
      show ?thesis
      proof
        fix r assume "r \<in> set (mNested (msgAt S m))"
        with nestingOkD [OF S True] have "m < r" "r < length (schMessages S)" by blast+
        moreover have "length (schMessages S) < m + Suc k" using Cons.prems by simp
        ultimately show "length (schMessages S) < r + k \<and> 0 < k" by simp
      qed
    qed (simp add: msgAt_outside nilMessage_def)
    moreover have "mNested (msgAt S m) \<noteq> [] \<Longrightarrow> 0 < k" using calculation by (cases "mNested (msgAt S m)") auto
    ultimately have "nestedDeep k S (mNested (msgAt S m)) \<noteq> None"
      by (intro outer) blast+
    then obtain inner where i: "nestedDeep k S (mNested (msgAt S m)) = Some inner" by blast
    have "nestedDeep (Suc k) S ms \<noteq> None"
      by (rule Cons.IH) (use Cons.prems in simp)
    then obtain rest where "nestedDeep (Suc k) S ms = Some rest" by blast
    with i show ?case by simp
  qed simp
qed auto

lemma messagesDeep_enough: "nestingOk S \<Longrightarrow> messagesDeep S ms \<noteq> None"
  unfolding messagesDeep_def by (rule nestedDeep_enough) auto

subsection \<open>Marking\<close>

definition single :: "direction \<Rightarrow> bool" where
  "single d \<longleftrightarrow> d = usedInRequest \<or> d = usedInResponse"

lemma single_simps [simp]: "single usedInRequest" "single usedInResponse"
  by (simp_all add: single_def)

text \<open>\<open>name\<close> carries the bit \<open>d\<close>.\<close>

definition marks :: "usage \<Rightarrow> direction \<Rightarrow> string \<Rightarrow> bool" where
  "marks out d name \<longleftrightarrow> dirHas (out name) d"

lemma marks_addUse:
  "single d \<Longrightarrow> single use \<Longrightarrow> marks (addUse nm use out) d x \<longleftrightarrow> marks out d x \<or> x = nm \<and> d = use"
  by (auto simp: marks_def addUse_def dirHas_def dirOr_def single_def usedInRequest_def usedInResponse_def)

lemma marks_noUse [simp]: "single d \<Longrightarrow> \<not> marks noUse d x"
  by (auto simp: marks_def noUse_def dirHas_def single_def usedInRequest_def usedInResponse_def)

text \<open>A relation between the maps before and after that both ways of marking keep.\<close>

lemma markUses_keeps:
  assumes refl: "\<And>o1. Q o1 o1" and trans: "\<And>o1 o2 o3. Q o1 o2 \<Longrightarrow> Q o2 o3 \<Longrightarrow> Q o1 o3"
    and enum: "\<And>e o1. Q o1 (addUse (enumUsageKey (enumFullName S e)) use o1)"
  shows "(\<And>b o1 o2. UseMessage b \<in> set us \<Longrightarrow> mk b o1 = Some o2 \<Longrightarrow> Q o1 o2) \<Longrightarrow>
    markUses S use mk us out = Some out' \<Longrightarrow> Q out out'"
proof (induction us arbitrary: out)
  case Nil
  then show ?case using refl by simp
next
  case (Cons u us)
  have IH: "Q o1 out'" if "markUses S use mk us o1 = Some out'" for o1
    by (rule Cons.IH [OF _ that]) (rule Cons.prems(1), simp_all)
  show ?case
  proof (cases u)
    case (UseMessage r)
    then obtain o1 where "mk r out = Some o1" "markUses S use mk us o1 = Some out'"
      using Cons.prems(2) by (cases "mk r out") auto
    then show ?thesis using IH trans Cons.prems(1) UseMessage by (metis list.set_intros(1))
  next
    case (UseEnum e)
    then show ?thesis using Cons.prems(2) IH trans enum by fastforce
  qed
qed

definition grows :: "usage \<Rightarrow> usage \<Rightarrow> bool" where
  "grows o1 o2 \<longleftrightarrow> (\<forall>d x. single d \<longrightarrow> marks o1 d x \<longrightarrow> marks o2 d x)"

lemma growsD: "grows o1 o2 \<Longrightarrow> single d \<Longrightarrow> marks o1 d x \<Longrightarrow> marks o2 d x"
  unfolding grows_def by blast

lemma grows_refl: "grows o1 o1"
  unfolding grows_def by blast

lemma grows_trans: "grows o1 o2 \<Longrightarrow> grows o2 o3 \<Longrightarrow> grows o1 o3"
  unfolding grows_def by blast

lemma grows_addUse: "single use \<Longrightarrow> grows out (addUse nm use out)"
  by (simp add: grows_def marks_addUse)

lemma markMessage_grows: "single use \<Longrightarrow> markMessage k S use r out = Some out' \<Longrightarrow> grows out out'"
proof (induction k arbitrary: r out out')
  case (Suc k)
  show ?case
  proof (cases "dirHas (out (messageFullName S r)) use")
    case True
    with Suc.prems show ?thesis by (simp add: grows_def)
  next
    case False
    with Suc.prems have "markUses S use (markMessage k S use) (messageUses S r) (addUse (messageFullName S r) use out) = Some out'"
      by (simp add: Let_def)
    then have "grows (addUse (messageFullName S r) use out) out'"
      by (rule markUses_keeps [where Q = grows, rotated -1])
        (use Suc.IH Suc.prems(1) in \<open>auto simp: grows_def marks_addUse\<close>)
    with grows_addUse [OF Suc.prems(1), of out "messageFullName S r"] show ?thesis by (auto simp: grows_def)
  qed
qed simp

text \<open>Marking one direction leaves the other alone.\<close>

definition sameOther :: "direction \<Rightarrow> usage \<Rightarrow> usage \<Rightarrow> bool" where
  "sameOther use o1 o2 \<longleftrightarrow> (\<forall>d x. single d \<longrightarrow> d \<noteq> use \<longrightarrow> marks o2 d x = marks o1 d x)"

lemma markMessage_other: "single use \<Longrightarrow> markMessage k S use r out = Some out' \<Longrightarrow> sameOther use out out'"
proof (induction k arbitrary: r out out')
  case (Suc k)
  show ?case
  proof (cases "dirHas (out (messageFullName S r)) use")
    case True
    with Suc.prems show ?thesis by (simp add: sameOther_def)
  next
    case False
    with Suc.prems have "markUses S use (markMessage k S use) (messageUses S r) (addUse (messageFullName S r) use out) = Some out'"
      by (simp add: Let_def)
    then have "sameOther use (addUse (messageFullName S r) use out) out'"
      by (rule markUses_keeps [where Q = "sameOther use", rotated -1])
        (use Suc.IH Suc.prems(1) in \<open>auto simp: sameOther_def marks_addUse\<close>)
    then show ?thesis using Suc.prems(1) by (auto simp: sameOther_def marks_addUse)
  qed
qed simp

subsection \<open>Enough levels\<close>

definition unmarked :: "schema \<Rightarrow> direction \<Rightarrow> usage \<Rightarrow> nat" where
  "unmarked S use out = card {a. a < length (schMessages S) \<and> \<not> marks out use (messageFullName S a)}"

lemma unmarked_mono: "grows o1 o2 \<Longrightarrow> single use \<Longrightarrow> unmarked S use o2 \<le> unmarked S use o1"
  unfolding unmarked_def by (rule card_mono) (auto dest: growsD)

lemma unmarked_mark:
  assumes "r < length (schMessages S)" "\<not> marks out use (messageFullName S r)" "single use"
  shows "unmarked S use (addUse (messageFullName S r) use out) < unmarked S use out"
  unfolding unmarked_def by (rule psubset_card_mono) (use assms in \<open>auto simp: marks_addUse\<close>)

lemma markUses_enough:
  assumes mk: "\<And>b o1. unmarked S use o1 < k \<Longrightarrow> mk b o1 \<noteq> None"
    and grow: "\<And>b o1 o2. mk b o1 = Some o2 \<Longrightarrow> grows o1 o2" and use: "single use"
  shows "unmarked S use out < k \<Longrightarrow> markUses S use mk us out \<noteq> None"
proof (induction us arbitrary: out)
  case (Cons u us)
  show ?case
  proof (cases u)
    case (UseMessage b)
    obtain o1 where o1: "mk b out = Some o1" using mk [OF Cons.prems] by blast
    have "unmarked S use o1 < k"
      by (rule le_less_trans [OF unmarked_mono [OF grow [OF o1] use] Cons.prems])
    from Cons.IH [OF this] show ?thesis by (simp add: UseMessage o1)
  next
    case (UseEnum e)
    have "unmarked S use (addUse (enumUsageKey (enumFullName S e)) use out) < k"
      by (rule le_less_trans [OF unmarked_mono [OF grows_addUse [OF use] use] Cons.prems])
    from Cons.IH [OF this] show ?thesis by (simp add: UseEnum)
  qed
qed simp

lemma messageUses_outside: "length (schMessages S) \<le> r \<Longrightarrow> messageUses S r = []"
  by (simp add: messageUses_def msgAt_outside nilMessage_def)

lemma markMessage_enough:
  assumes use: "single use"
  shows "unmarked S use out < k \<Longrightarrow> markMessage k S use r out \<noteq> None"
proof (induction k arbitrary: r out)
  case (Suc k)
  show ?case
  proof (cases "marks out use (messageFullName S r) \<or> length (schMessages S) \<le> r")
    case True
    then show ?thesis by (auto simp: marks_def Let_def messageUses_outside)
  next
    case False
    then have "unmarked S use (addUse (messageFullName S r) use out) < k"
      using unmarked_mark [of r S out use] use Suc.prems by simp
    from markUses_enough [OF Suc.IH markMessage_grows [OF use] use this]
    show ?thesis using False by (simp add: marks_def Let_def)
  qed
qed simp

lemma markOpt_enough: "single use \<Longrightarrow> markOpt S use m out \<noteq> None"
proof (cases m)
  case (Some r)
  assume use: "single use"
  have "unmarked S use out \<le> card {..<length (schMessages S)}"
    unfolding unmarked_def by (rule card_mono) auto
  then have "unmarked S use out < Suc (length (schMessages S))" by simp
  from markMessage_enough [OF use this] show ?thesis by (simp add: markOpt_def Some del: markMessage.simps)
qed (simp add: markOpt_def)

lemma usageRoots_single: "(m, use) \<in> set (usageRoots S) \<Longrightarrow> single use"
  by (auto simp: usageRoots_def methodRoots_def)

lemma markRoots_enough: "\<forall>(m, use) \<in> set rs. single use \<Longrightarrow> markRoots S rs out \<noteq> None"
proof (induction rs arbitrary: out)
  case (Cons x rs)
  obtain m use where x: "x = (m, use)" by (cases x)
  with Cons.prems have "single use" by simp
  then obtain o1 where "markOpt S use m out = Some o1" using markOpt_enough by blast
  with Cons x show ?case by simp
qed simp

lemma messageUsage_enough: "messageUsage pkg \<noteq> None"
  using markRoots_enough [of "usageRoots S" S noUse for S] usageRoots_single
  by (fastforce simp: messageUsage_def split: option.split)

subsection \<open>Usage is reachability\<close>

inductive usesReach :: "schema \<Rightarrow> mref \<Rightarrow> mref \<Rightarrow> bool" for S r where
  UR_here: "usesReach S r r"
| UR_step: "usesReach S r a \<Longrightarrow> UseMessage b \<in> set (messageUses S a) \<Longrightarrow> usesReach S r b"

lemma usesReach_front: "usesReach S b a \<Longrightarrow> UseMessage b \<in> set (messageUses S r) \<Longrightarrow> usesReach S r a"
  by (induction rule: usesReach.induct) (blast intro: usesReach.intros)+

text \<open>
  Names identify the messages of the table, none of them looks like the key of an enum, and
  every message a type points at is in the table.
\<close>

definition namesOk :: "schema \<Rightarrow> bool" where
  "namesOk S \<longleftrightarrow> inj_on (messageFullName S) {..<length (schMessages S)} \<and>
     (\<forall>a < length (schMessages S). \<forall>e. messageFullName S a \<noteq> enumUsageKey e) \<and>
     (\<forall>a b. UseMessage b \<in> set (messageUses S a) \<longrightarrow> b < length (schMessages S))"

lemma namesOk_inj:
  "namesOk S \<Longrightarrow> a < length (schMessages S) \<Longrightarrow> b < length (schMessages S) \<Longrightarrow>
   messageFullName S a = messageFullName S b \<Longrightarrow> a = b"
  unfolding namesOk_def inj_on_def by blast

lemma namesOk_enum: "namesOk S \<Longrightarrow> a < length (schMessages S) \<Longrightarrow> messageFullName S a \<noteq> enumUsageKey e"
  unfolding namesOk_def by blast

lemma namesOk_range: "namesOk S \<Longrightarrow> UseMessage b \<in> set (messageUses S a) \<Longrightarrow> b < length (schMessages S)"
  unfolding namesOk_def by blast

text \<open>Only nodes in \<open>R\<close> are newly marked.\<close>

definition marksIn :: "schema \<Rightarrow> direction \<Rightarrow> mref set \<Rightarrow> usage \<Rightarrow> usage \<Rightarrow> bool" where
  "marksIn S use R o1 o2 \<longleftrightarrow> (\<forall>a < length (schMessages S).
     marks o2 use (messageFullName S a) \<longrightarrow> marks o1 use (messageFullName S a) \<or> a \<in> R)"

lemma marksIn_refl: "marksIn S use R o1 o1"
  by (simp add: marksIn_def)

lemma marksIn_trans: "marksIn S use R o1 o2 \<Longrightarrow> marksIn S use R o2 o3 \<Longrightarrow> marksIn S use R o1 o3"
  unfolding marksIn_def by blast

lemma marksIn_enum: "namesOk S \<Longrightarrow> single use \<Longrightarrow> marksIn S use R o1 (addUse (enumUsageKey e) use o1)"
  by (auto simp: marksIn_def marks_addUse dest: namesOk_enum)

lemma marksIn_mono: "marksIn S use R o1 o2 \<Longrightarrow> R \<subseteq> R' \<Longrightarrow> marksIn S use R' o1 o2"
  unfolding marksIn_def by blast

lemma markMessage_sound:
  assumes S: "namesOk S" and use: "single use"
  shows "r < length (schMessages S) \<Longrightarrow> markMessage k S use r out = Some out' \<Longrightarrow>
    marksIn S use {a. usesReach S r a} out out'"
proof (induction k arbitrary: r out out')
  case (Suc k)
  show ?case
  proof (cases "dirHas (out (messageFullName S r)) use")
    case True
    with Suc.prems show ?thesis by (simp add: marksIn_refl)
  next
    case False
    with Suc.prems have run: "markUses S use (markMessage k S use) (messageUses S r) (addUse (messageFullName S r) use out) = Some out'"
      by (simp add: Let_def)
    have sub: "marksIn S use {a. usesReach S r a} o1 o2"
      if "UseMessage b \<in> set (messageUses S r)" "markMessage k S use b o1 = Some o2" for b o1 o2
      by (rule marksIn_mono [OF Suc.IH [OF namesOk_range [OF S that(1)] that(2)]])
        (use usesReach_front [OF _ that(1)] in blast)
    have rest: "marksIn S use {a. usesReach S r a} (addUse (messageFullName S r) use out) out'"
      by (rule markUses_keeps [where Q = "marksIn S use {a. usesReach S r a}",
            OF marksIn_refl marksIn_trans marksIn_enum [OF S use] sub run])
    have "marksIn S use {a. usesReach S r a} out (addUse (messageFullName S r) use out)"
      using use Suc.prems(1) by (auto simp: marksIn_def marks_addUse UR_here dest: namesOk_inj [OF S])
    from marksIn_trans [OF this rest] show ?thesis .
  qed
qed simp

text \<open>Every newly marked message has all it uses marked.\<close>

definition usesMarked :: "schema \<Rightarrow> direction \<Rightarrow> usage \<Rightarrow> typeUse list \<Rightarrow> bool" where
  "usesMarked S use out us \<longleftrightarrow>
     (\<forall>b. UseMessage b \<in> set us \<longrightarrow> marks out use (messageFullName S b)) \<and>
     (\<forall>e. UseEnum e \<in> set us \<longrightarrow> marks out use (enumUsageKey (enumFullName S e)))"

lemma usesMarked_grows: "usesMarked S use o1 us \<Longrightarrow> grows o1 o2 \<Longrightarrow> single use \<Longrightarrow> usesMarked S use o2 us"
  unfolding usesMarked_def using growsD by blast

definition explores :: "schema \<Rightarrow> direction \<Rightarrow> usage \<Rightarrow> usage \<Rightarrow> bool" where
  "explores S use o1 o2 \<longleftrightarrow> grows o1 o2 \<and> (\<forall>a < length (schMessages S).
     marks o2 use (messageFullName S a) \<longrightarrow> marks o1 use (messageFullName S a) \<or>
     usesMarked S use o2 (messageUses S a))"

lemma explores_refl: "explores S use o1 o1"
  by (auto simp: explores_def grows_def)

lemma explores_trans:
  "single use \<Longrightarrow> explores S use o1 o2 \<Longrightarrow> explores S use o2 o3 \<Longrightarrow> explores S use o1 o3"
  unfolding explores_def by (blast intro: grows_trans usesMarked_grows)

lemma explores_enum: "namesOk S \<Longrightarrow> single use \<Longrightarrow> explores S use o1 (addUse (enumUsageKey e) use o1)"
  by (auto simp: explores_def marks_addUse grows_addUse dest: namesOk_enum)

lemma markUses_marks:
  assumes use: "single use"
    and mk: "\<And>b o1 o2. UseMessage b \<in> set us \<Longrightarrow> mk b o1 = Some o2 \<Longrightarrow> grows o1 o2 \<and> marks o2 use (messageFullName S b)"
  shows "markUses S use mk us out = Some out' \<Longrightarrow> usesMarked S use out' us"
  using mk
proof (induction us arbitrary: out)
  case (Cons u us)
  have keeps: "grows o1 out'" if "markUses S use mk us o1 = Some out'" for o1
    by (rule markUses_keeps [where Q = grows, OF grows_refl grows_trans grows_addUse [OF use] _ that])
      (auto dest: Cons.prems(2) [rotated])
  show ?case
  proof (cases u)
    case (UseMessage b)
    then obtain o1 where o1: "mk b out = Some o1" "markUses S use mk us o1 = Some out'"
      using Cons.prems(1) by (cases "mk b out") auto
    have "usesMarked S use out' us" by (rule Cons.IH [OF o1(2)]) (rule Cons.prems(2), auto)
    moreover have "marks out' use (messageFullName S b)"
      using Cons.prems(2) [of b out o1] o1(1) UseMessage growsD [OF keeps [OF o1(2)] use] by simp
    ultimately show ?thesis by (auto simp: usesMarked_def UseMessage)
  next
    case (UseEnum e)
    then have run: "markUses S use mk us (addUse (enumUsageKey (enumFullName S e)) use out) = Some out'"
      using Cons.prems(1) by simp
    have "usesMarked S use out' us" by (rule Cons.IH [OF run]) (rule Cons.prems(2), auto)
    moreover have "marks out' use (enumUsageKey (enumFullName S e))"
      by (rule growsD [OF keeps [OF run] use]) (simp add: marks_addUse use)
    ultimately show ?thesis by (auto simp: usesMarked_def UseEnum)
  qed
qed (simp add: usesMarked_def)

lemma markMessage_explores:
  assumes S: "namesOk S" and use: "single use"
  shows "r < length (schMessages S) \<Longrightarrow> markMessage k S use r out = Some out' \<Longrightarrow>
    explores S use out out' \<and> marks out' use (messageFullName S r)"
proof (induction k arbitrary: r out out')
  case (Suc k)
  show ?case
  proof (cases "dirHas (out (messageFullName S r)) use")
    case True
    with Suc.prems show ?thesis by (simp add: explores_refl marks_def)
  next
    case False
    let ?o = "addUse (messageFullName S r) use out"
    from False Suc.prems have run: "markUses S use (markMessage k S use) (messageUses S r) ?o = Some out'"
      by (simp add: Let_def)
    have sub: "explores S use o1 o2 \<and> marks o2 use (messageFullName S b)"
      if "UseMessage b \<in> set (messageUses S r)" "markMessage k S use b o1 = Some o2" for b o1 o2
      by (rule Suc.IH [OF namesOk_range [OF S that(1)] that(2)])
    have rest: "explores S use ?o out'"
      by (rule markUses_keeps [where Q = "explores S use",
            OF explores_refl explores_trans [OF use] explores_enum [OF S use] sub [THEN conjunct1] run])
    have "usesMarked S use out' (messageUses S r)"
      by (rule markUses_marks [OF use _ run]) (use sub in \<open>simp add: explores_def\<close>)
    moreover have "marks ?o use (messageFullName S r)" by (simp add: marks_addUse use)
    moreover have "a = r" if "a < length (schMessages S)" "messageFullName S a = messageFullName S r" for a
      by (rule namesOk_inj [OF S that(1) Suc.prems(1) that(2)])
    ultimately show ?thesis using rest use grows_addUse [OF use, of out "messageFullName S r"]
      unfolding explores_def by (auto simp: marks_addUse intro: grows_trans dest: growsD)
  qed
qed simp

text \<open>A map in which the marked messages have all they use marked.\<close>

definition markClosed :: "schema \<Rightarrow> usage \<Rightarrow> bool" where
  "markClosed S out \<longleftrightarrow> (\<forall>d a. single d \<longrightarrow> a < length (schMessages S) \<longrightarrow>
     marks out d (messageFullName S a) \<longrightarrow> usesMarked S d out (messageUses S a))"

lemma markClosedD:
  "markClosed S out \<Longrightarrow> single d \<Longrightarrow> a < length (schMessages S) \<Longrightarrow> marks out d (messageFullName S a) \<Longrightarrow>
   usesMarked S d out (messageUses S a)"
  unfolding markClosed_def by blast

lemma markClosed_step:
  assumes use: "single use" and c: "markClosed S o1" and e: "explores S use o1 o2" and o: "sameOther use o1 o2"
  shows "markClosed S o2"
  unfolding markClosed_def
proof (intro allI impI)
  fix d a assume d: "single d" and a: "a < length (schMessages S)" and m: "marks o2 d (messageFullName S a)"
  have g: "grows o1 o2" using e by (simp add: explores_def)
  show "usesMarked S d o2 (messageUses S a)"
  proof (cases "d = use")
    case True
    with e a m have "marks o1 d (messageFullName S a) \<or> usesMarked S d o2 (messageUses S a)"
      unfolding explores_def by blast
    then show ?thesis using markClosedD [OF c d a] usesMarked_grows [OF _ g d] by blast
  next
    case False
    then have "marks o1 d (messageFullName S a)" using o d m unfolding sameOther_def by blast
    then show ?thesis using markClosedD [OF c d a] usesMarked_grows [OF _ g d] by blast
  qed
qed

text \<open>Every marked message is reachable from one of the roots.\<close>

definition markSound :: "schema \<Rightarrow> (mref option \<times> direction) set \<Rightarrow> usage \<Rightarrow> bool" where
  "markSound S rs out \<longleftrightarrow> (\<forall>d a. single d \<longrightarrow> a < length (schMessages S) \<longrightarrow>
     marks out d (messageFullName S a) \<longrightarrow> (\<exists>r. (Some r, d) \<in> rs \<and> usesReach S r a))"

lemma markSound_mono: "markSound S rs out \<Longrightarrow> rs \<subseteq> rs' \<Longrightarrow> markSound S rs' out"
  unfolding markSound_def by blast

lemma markSound_step:
  assumes "single use" "markSound S rs o1" "marksIn S use {a. usesReach S r a} o1 o2" "sameOther use o1 o2"
    "(Some r, use) \<in> rs"
  shows "markSound S rs o2"
  unfolding markSound_def
proof (intro allI impI)
  fix d a assume d: "single d" and a: "a < length (schMessages S)" and m: "marks o2 d (messageFullName S a)"
  have "marks o1 d (messageFullName S a) \<or> (d = use \<and> usesReach S r a)"
    using assms(3,4) d a m unfolding marksIn_def sameOther_def by blast
  then show "\<exists>r. (Some r, d) \<in> rs \<and> usesReach S r a"
    using assms(2,5) d a unfolding markSound_def by blast
qed

definition rootsMarked :: "schema \<Rightarrow> (mref option \<times> direction) set \<Rightarrow> usage \<Rightarrow> bool" where
  "rootsMarked S rs out \<longleftrightarrow> (\<forall>r d. (Some r, d) \<in> rs \<longrightarrow> marks out d (messageFullName S r))"

definition rootsIn :: "schema \<Rightarrow> (mref option \<times> direction) set \<Rightarrow> bool" where
  "rootsIn S rs \<longleftrightarrow> (\<forall>r d. (Some r, d) \<in> rs \<longrightarrow> r < length (schMessages S)) \<and> (\<forall>m d. (m, d) \<in> rs \<longrightarrow> single d)"

lemma rootsIn_range: "rootsIn S rs \<Longrightarrow> (Some r, d) \<in> rs \<Longrightarrow> r < length (schMessages S)"
  unfolding rootsIn_def by blast

lemma rootsIn_single: "rootsIn S rs \<Longrightarrow> (m, d) \<in> rs \<Longrightarrow> single d"
  unfolding rootsIn_def by blast

lemma rootsMarkedD: "rootsMarked S rs out \<Longrightarrow> (Some r, d) \<in> rs \<Longrightarrow> marks out d (messageFullName S r)"
  unfolding rootsMarked_def by blast

lemma markRoots_exact:
  assumes S: "namesOk S"
  shows "markRoots S rs out = Some out' \<Longrightarrow> rootsIn S (done \<union> set rs) \<Longrightarrow>
    markClosed S out \<Longrightarrow> markSound S done out \<Longrightarrow> rootsMarked S done out \<Longrightarrow>
    markClosed S out' \<and> markSound S (done \<union> set rs) out' \<and> rootsMarked S (done \<union> set rs) out'"
proof (induction rs arbitrary: out "done")
  case (Cons x rs)
  obtain m use where x: "x = (m, use)" by (cases x)
  from Cons.prems(1) x obtain o1 where o1: "markOpt S use m out = Some o1" "markRoots S rs o1 = Some out'"
    by (cases "markOpt S use m out") auto
  have use: "single use" by (rule rootsIn_single [OF Cons.prems(2), of m]) (simp add: x)
  have "markClosed S o1 \<and> markSound S (insert x done) o1 \<and> rootsMarked S (insert x done) o1"
  proof (cases m)
    case None
    with o1(1) Cons.prems(3-5) x show ?thesis
      by (auto simp: markOpt_def rootsMarked_def intro: markSound_mono)
  next
    case (Some r)
    have r: "r < length (schMessages S)" by (rule rootsIn_range [OF Cons.prems(2), of _ use]) (simp add: x Some)
    have run: "markMessage (Suc (length (schMessages S))) S use r out = Some o1"
      using o1(1) by (simp add: markOpt_def Some del: markMessage.simps)
    note e = markMessage_explores [OF S use r run]
    note o = markMessage_other [OF use run]
    have g: "grows out o1" using e by (simp add: explores_def)
    have "markClosed S o1" using markClosed_step [OF use Cons.prems(3) _ o] e by blast
    moreover have "markSound S (insert x done) o1"
      by (rule markSound_step [OF use markSound_mono [OF Cons.prems(4)] markMessage_sound [OF S use r run] o])
        (auto simp: x Some)
    moreover have "rootsMarked S (insert x done) o1"
      unfolding rootsMarked_def
    proof (intro allI impI)
      fix r' d assume r': "(Some r', d) \<in> insert x done"
      then have d: "single d" by (intro rootsIn_single [OF Cons.prems(2), of "Some r'"]) auto
      from r' consider "r' = r" "d = use" | "(Some r', d) \<in> done" by (auto simp: x Some)
      then show "marks o1 d (messageFullName S r')"
        using e growsD [OF g d rootsMarkedD [OF Cons.prems(5)]] by cases auto
    qed
    ultimately show ?thesis by blast
  qed
  then show ?case using Cons.IH [OF o1(2), of "insert x done"] Cons.prems(2) by simp
qed simp

lemma marks_reach:
  assumes "namesOk S" "markClosed S out" "single d"
  shows "usesReach S r a \<Longrightarrow> r < length (schMessages S) \<Longrightarrow> marks out d (messageFullName S r) \<Longrightarrow>
    a < length (schMessages S) \<and> marks out d (messageFullName S a)"
proof (induction rule: usesReach.induct)
  case UR_here
  then show ?case by blast
next
  case (UR_step a b)
  then have a: "a < length (schMessages S)" "marks out d (messageFullName S a)" by auto
  from markClosedD [OF assms(2,3) a] UR_step(2) show ?case
    using namesOk_range [OF assms(1) UR_step(2)] unfolding usesMarked_def by blast
qed

lemma messageUsage_exact:
  assumes S: "namesOk S" and roots: "rootsIn S (set (usageRoots S))"
    and u: "messageUsage (Some S) = Some u" and d: "single d" and a: "a < length (schMessages S)"
  shows "marks u d (messageFullName S a) \<longleftrightarrow> (\<exists>r. (Some r, d) \<in> set (usageRoots S) \<and> usesReach S r a)"
proof -
  have run: "markRoots S (usageRoots S) noUse = Some u" using u by (simp add: messageUsage_def)
  have "markClosed S u \<and> markSound S ({} \<union> set (usageRoots S)) u \<and> rootsMarked S ({} \<union> set (usageRoots S)) u"
    by (rule markRoots_exact [OF S run])
      (use roots in \<open>auto simp: markClosed_def markSound_def rootsMarked_def\<close>)
  then have c: "markClosed S u" and snd: "markSound S (set (usageRoots S)) u"
    and m: "rootsMarked S (set (usageRoots S)) u" by auto
  show ?thesis
  proof
    show "marks u d (messageFullName S a) \<Longrightarrow> \<exists>r. (Some r, d) \<in> set (usageRoots S) \<and> usesReach S r a"
      using snd d a unfolding markSound_def by blast
  next
    assume "\<exists>r. (Some r, d) \<in> set (usageRoots S) \<and> usesReach S r a"
    then obtain r where r: "(Some r, d) \<in> set (usageRoots S)" "usesReach S r a" by blast
    then show "marks u d (messageFullName S a)"
      using marks_reach [OF S c d r(2)] roots m unfolding rootsIn_def rootsMarked_def by blast
  qed
qed

subsection \<open>The comparison returns\<close>

lemma allSome_iff: "allSome g xs \<noteq> None \<longleftrightarrow> (\<forall>x \<in> set xs. g x \<noteq> None)"
  by (induction xs) (auto split: bind_splits)

text \<open>The compiler gives every method a request and a response message.\<close>

definition methodsOk :: "schema \<Rightarrow> bool" where
  "methodsOk S \<longleftrightarrow> (\<forall>(fl, sv, m) \<in> set (allMethods S). rRequest m \<noteq> None \<and> rResponse m \<noteq> None)"

lemma packageMessages_enough: "nestingOk S \<Longrightarrow> packageMessages (Some S) \<noteq> None"
  using messagesDeep_enough by (auto simp: packageMessages_def)

lemma packageEnums_enough: "nestingOk S \<Longrightarrow> packageEnums (Some S) \<noteq> None"
  using messagesDeep_enough allSome_iff [of "fileEnums S" "schFiles S"]
  by (auto simp: packageEnums_def fileEnums_def)

lemma packageRoutes_enough: "methodsOk S \<Longrightarrow> packageRoutes (Some S) \<noteq> None"
  using allSome_iff [of "routeEntry S" "allMethods S"]
  by (fastforce simp: packageRoutes_def methodsOk_def routeEntry_def methodSignature_def split: option.splits)

lemma comparePackages_returns:
  assumes "nestingOk S" "methodsOk S" "nestingOk S'" "methodsOk S'"
  shows "comparePackages (Some S) (Some S') \<noteq> None"
  using packageMessages_enough [OF assms(1)] packageMessages_enough [OF assms(3)]
    packageEnums_enough [OF assms(1)] packageEnums_enough [OF assms(3)]
    packageRoutes_enough [OF assms(2)] packageRoutes_enough [OF assms(4)]
    messageUsage_enough [of "Some S"] messageUsage_enough [of "Some S'"]
  by (auto simp: comparePackages_def Let_def)

subsection \<open>No finding means compatible\<close>

definition fieldKept :: "schema \<Rightarrow> schema \<Rightarrow> direction \<Rightarrow> field \<Rightarrow> field \<Rightarrow> bool" where
  "fieldKept S S' use f f' \<longleftrightarrow>
     fieldTypeSignature S f = fieldTypeSignature S' f' \<and> fieldContractSignature f = fieldContractSignature f' \<and>
     (fst use \<longrightarrow> isRequired f' \<longrightarrow> isRequired f) \<and> (snd use \<longrightarrow> isRequired f \<longrightarrow> isRequired f')"

definition messageKept :: "schema \<Rightarrow> schema \<Rightarrow> direction \<Rightarrow> message \<Rightarrow> message \<Rightarrow> bool" where
  "messageKept S S' use old new \<longleftrightarrow>
     messageRulesSignature old = messageRulesSignature new \<and>
     (\<forall>n f. map_of (messageFields old) n = Some f \<longrightarrow>
        (\<exists>f'. map_of (messageFields new) n = Some f' \<and> fieldKept S S' use f f')) \<and>
     (fst use \<longrightarrow> (\<forall>n f'. map_of (messageFields new) n = Some f' \<longrightarrow> isRequired f' \<longrightarrow>
        map_of (messageFields old) n \<noteq> None))"

lemma ball_messageFields:
  "(\<forall>x \<in> set (messageFields m). P (fst x) (snd x)) \<longleftrightarrow> (\<forall>n f. map_of (messageFields m) n = Some f \<longrightarrow> P n f)"
proof -
  have "(\<forall>x \<in> set (messageFields m). P (fst x) (snd x)) \<longleftrightarrow> (\<forall>n f. (n, f) \<in> set (messageFields m) \<longrightarrow> P n f)"
    by auto
  then show ?thesis by (simp only: messageFields_def goMap_mem)
qed

lemma compareField_Nil:
  "compareField S S' name newFields use n f = [] \<longleftrightarrow>
   (\<exists>f'. map_of newFields n = Some f' \<and> fieldKept S S' use f f')"
  by (auto simp: compareField_def fieldKept_def Let_def split: option.splits)

lemma if_Nil: "(if b then [x] else []) = [] \<longleftrightarrow> \<not> b"
  by simp

lemma compareMessage_Nil:
  "compareMessage S S' name old new use = [] \<longleftrightarrow> messageKept S S' use (msgAt S old) (msgAt S' new)"
proof -
  let ?o = "messageFields (msgAt S old)" and ?n = "messageFields (msgAt S' new)"
  have "compareMessage S S' name old new use = [] \<longleftrightarrow>
      messageRulesSignature (msgAt S old) = messageRulesSignature (msgAt S' new) \<and>
      (\<forall>x \<in> set ?o. \<exists>f'. map_of ?n (fst x) = Some f' \<and> fieldKept S S' use (snd x) f') \<and>
      (\<forall>x \<in> set ?n. \<not> (map_of ?o (fst x) = None \<and> fst use \<and> isRequired (snd x)))"
    by (simp only: compareMessage_def Let_def append_is_Nil_conv concat_eq_Nil_conv set_map ball_simps
        split_beta compareField_Nil if_Nil not_not)
  also have "\<dots> \<longleftrightarrow> messageKept S S' use (msgAt S old) (msgAt S' new)"
    unfolding messageKept_def
      ball_messageFields [of "msgAt S old" "\<lambda>n f. \<exists>f'. map_of ?n n = Some f' \<and> fieldKept S S' use f f'"]
      ball_messageFields [of "msgAt S' new" "\<lambda>n f. \<not> (map_of ?o n = None \<and> fst use \<and> isRequired f)"]
    by auto
  finally show ?thesis .
qed

text \<open>A value's position in the new enum, as the comparison looks it up.\<close>

definition newPosition :: "enum \<Rightarrow> string \<Rightarrow> nat option" where
  "newPosition new n = map_of (goMap (map (\<lambda>(i, v). (evName v, i)) (enumerate 0 (enValues new)))) n"

definition newJSONName :: "enum \<Rightarrow> string \<Rightarrow> string option" where
  "newJSONName new n = map_of (goMap (map (\<lambda>v. (evName v, enumJSONName v)) (enValues new))) n"

definition enumKept :: "bool \<Rightarrow> bool \<Rightarrow> enum \<Rightarrow> enum \<Rightarrow> bool" where
  "enumKept inResponse numbered old new \<longleftrightarrow>
     (\<forall>v \<in> set (enValues old). newJSONName new (evName v) = Some (enumJSONName v)) \<and>
     (inResponse \<longrightarrow> set (map evName (enValues new)) \<subseteq> set (map evName (enValues old))) \<and>
     (numbered \<longrightarrow> (\<forall>i < length (enValues old). \<forall>j. newPosition new (evName (enValues old ! i)) = Some j \<longrightarrow> j = i))"

lemma opt_Nil:
  "(case x of None \<Rightarrow> [a] | Some j \<Rightarrow> if j \<noteq> w then [b] else []) = [] \<longleftrightarrow> x = Some w"
  "(case x of None \<Rightarrow> [] | Some j \<Rightarrow> if j \<noteq> w then [g j] else []) = [] \<longleftrightarrow> (\<forall>j. x = Some j \<longrightarrow> j = w)"
  by (auto split: option.splits)

lemma compareEnum_Nil:
  "compareEnum name old new = [] \<longleftrightarrow>
   (\<forall>v \<in> set (enValues old). newJSONName new (evName v) = Some (enumJSONName v))"
  by (simp only: compareEnum_def Let_def concat_eq_Nil_conv set_map ball_simps opt_Nil newJSONName_def)

lemma addedEnumValues_Nil:
  "addedEnumValues name old new = [] \<longleftrightarrow> set (map evName (enValues new)) \<subseteq> set (map evName (enValues old))"
  by (auto simp: addedEnumValues_def)

lemma compareEnumPositions_Nil:
  "compareEnumPositions name old new = [] \<longleftrightarrow>
   (\<forall>i < length (enValues old). \<forall>j. newPosition new (evName (enValues old ! i)) = Some j \<longrightarrow> j = i)"
proof -
  have "compareEnumPositions name old new = [] \<longleftrightarrow>
      (\<forall>x \<in> set (enumerate 0 (enValues old)). \<forall>j. newPosition new (evName (snd x)) = Some j \<longrightarrow> j = fst x)"
    by (simp only: compareEnumPositions_def Let_def concat_eq_Nil_conv set_map ball_simps opt_Nil
        newPosition_def split_beta)
  also have "\<dots> \<longleftrightarrow> (\<forall>i < length (enValues old). \<forall>j. newPosition new (evName (enValues old ! i)) = Some j \<longrightarrow> j = i)"
    by (simp add: Ball_def in_set_enumerate_eq split_paired_all)
  finally show ?thesis .
qed

definition routeKept :: "string list \<Rightarrow> string list \<Rightarrow> bool" where
  "routeKept old new \<longleftrightarrow> (\<forall>kind. joinWith '', '' (partValues old kind) = joinWith '', '' (partValues new kind))"

lemma partValues_absent:
  assumes "kind \<notin> set (partKinds old new)"
  shows "partValues old kind = []" "partValues new kind = []"
  using assms by (auto simp: partKinds_def partValues_def filter_empty_conv)

lemma compareRoute_Nil: "compareRoute key old new = [] \<longleftrightarrow> routeKept old new"
proof -
  have "compareRoute key old new = [] \<longleftrightarrow>
      (\<forall>kind \<in> set (partKinds old new). joinWith '', '' (partValues old kind) = joinWith '', '' (partValues new kind))"
    by (auto simp: compareRoute_def Let_def split: if_splits)
  also have "\<dots> \<longleftrightarrow> routeKept old new"
    unfolding routeKept_def using partValues_absent [of _ old new] by metis
  finally show ?thesis .
qed

text \<open>The contract that an empty list of findings stands for.\<close>

definition compatible :: "schema \<Rightarrow> schema \<Rightarrow> bool" where
  "compatible S S' \<longleftrightarrow>
     (\<forall>ms ms' es es' rs rs' u u'.
       packageMessages (Some S) = Some ms \<longrightarrow> packageMessages (Some S') = Some ms' \<longrightarrow>
       packageEnums (Some S) = Some es \<longrightarrow> packageEnums (Some S') = Some es' \<longrightarrow>
       packageRoutes (Some S) = Some rs \<longrightarrow> packageRoutes (Some S') = Some rs' \<longrightarrow>
       messageUsage (Some S) = Some u \<longrightarrow> messageUsage (Some S') = Some u' \<longrightarrow>
       (\<forall>(name, r) \<in> set ms. \<exists>r'. map_of ms' name = Some r' \<and>
          messageKept S S' (effectiveUse (joinUse u u' name)) (msgAt S r) (msgAt S' r')) \<and>
       (\<forall>(name, e) \<in> set es. \<exists>e'. map_of es' name = Some e' \<and>
          enumKept (snd (joinUse u u' (enumUsageKey name))) (name \<in> set (numberEncodedEnums S ms)) (enumAt S e) (enumAt S' e')) \<and>
       (\<forall>(key, sig) \<in> set rs. \<exists>sig'. map_of rs' key = Some sig' \<and> routeKept sig sig'))"

lemma messageFindings_Nil:
  "messageFindings S S' u ms' (name, r) = [] \<longleftrightarrow>
   (\<exists>r'. map_of ms' name = Some r' \<and> messageKept S S' (effectiveUse (u name)) (msgAt S r) (msgAt S' r'))"
  by (auto simp: messageFindings_def compareMessage_Nil split: option.split)

lemma enumFindings_Nil:
  "enumFindings S S' u nums es' (name, e) = [] \<longleftrightarrow>
   (\<exists>e'. map_of es' name = Some e' \<and> enumKept (snd (u (enumUsageKey name))) (name \<in> set nums) (enumAt S e) (enumAt S' e'))"
  by (simp add: enumFindings_def enumKept_def compareEnum_Nil addedEnumValues_Nil compareEnumPositions_Nil
      split: option.split)

lemma routeFindings_Nil:
  "routeFindings rs' (key, sig) = [] \<longleftrightarrow> (\<exists>sig'. map_of rs' key = Some sig' \<and> routeKept sig sig')"
  by (auto simp: routeFindings_def compareRoute_Nil split: option.split)

lemma concat_pairs_Nil: "concat (map f xs) = [] \<longleftrightarrow> (\<forall>(a, b) \<in> set xs. f (a, b) = [])"
  by auto

lemma sort_key_Nil: "sort_key k xs = [] \<longleftrightarrow> xs = []"
  by (metis length_0_conv length_sort)

lemma comparePackages_compatible:
  assumes "comparePackages (Some S) (Some S') = Some fs"
  shows "fs = [] \<longleftrightarrow> compatible S S'"
proof -
  obtain ms ms' es es' rs rs' u u' where p:
    "packageMessages (Some S) = Some ms" "packageMessages (Some S') = Some ms'"
    "packageEnums (Some S) = Some es" "packageEnums (Some S') = Some es'"
    "packageRoutes (Some S) = Some rs" "packageRoutes (Some S') = Some rs'"
    "messageUsage (Some S) = Some u" "messageUsage (Some S') = Some u'"
    using assms unfolding comparePackages_def Let_def by (auto simp del: not_None_eq split: bind_splits)
  have fs: "fs = sort_key (\<lambda>f. (fdPath f, fdMessage f))
      (concat (map (messageFindings S S' (joinUse u u') ms') ms) @
       concat (map (enumFindings S S' (joinUse u u') (numberEncodedEnums S ms) es') es) @
       concat (map (routeFindings rs') rs))"
    using assms by (simp add: comparePackages_def Let_def pkgSchema_def p)
  have "fs = [] \<longleftrightarrow>
      concat (map (messageFindings S S' (joinUse u u') ms') ms) = [] \<and>
      concat (map (enumFindings S S' (joinUse u u') (numberEncodedEnums S ms) es') es) = [] \<and>
      concat (map (routeFindings rs') rs) = []"
    unfolding fs sort_key_Nil append_is_Nil_conv ..
  also have "\<dots> \<longleftrightarrow> compatible S S'"
    unfolding concat_pairs_Nil messageFindings_Nil enumFindings_Nil routeFindings_Nil
    by (simp add: compatible_def p)
  finally show ?thesis .
qed

text \<open>An unchanged package is compatible with itself, when the values of each enum have distinct names.\<close>

lemma enumKept_same:
  assumes "distinct (map evName (enValues e))"
  shows "enumKept inResponse numbered e e"
proof -
  have n: "newJSONName e (evName v) = Some (enumJSONName v)" if "v \<in> set (enValues e)" for v
  proof -
    have d: "distinct (map fst (map (\<lambda>v. (evName v, enumJSONName v)) (enValues e)))"
      using assms by (simp add: comp_def)
    have "(evName v, enumJSONName v) \<in> set (map (\<lambda>v. (evName v, enumJSONName v)) (enValues e))"
      using that by auto
    with d show ?thesis unfolding newJSONName_def goMap_distinct [OF d] by (rule map_of_is_SomeI)
  qed
  have p: "newPosition e (evName (enValues e ! i)) = Some i" if "i < length (enValues e)" for i
  proof -
    let ?kv = "map (\<lambda>(i, v). (evName v, i)) (enumerate 0 (enValues e))"
    have "map fst ?kv = map evName (enValues e)"
      by (rule nth_equalityI) (simp_all add: nth_enumerate_eq)
    with assms have d: "distinct (map fst ?kv)" by simp
    have "?kv ! i \<in> set ?kv" by (rule nth_mem) (simp add: that)
    moreover have "?kv ! i = (evName (enValues e ! i), i)" using that by (simp add: nth_enumerate_eq)
    ultimately show ?thesis unfolding newPosition_def goMap_distinct [OF d]
      by (metis d map_of_is_SomeI)
  qed
  show ?thesis using n p by (auto simp: enumKept_def)
qed

lemma compatible_same:
  assumes "\<And>e. distinct (map evName (enValues (enumAt S e)))"
  shows "compatible S S"
proof -
  have d: "distinct (map fst ms)" if "packageMessages (Some S) = Some ms" for ms
    using that by (auto simp: packageMessages_def distinct_goMap)
  have e: "distinct (map fst es)" if "packageEnums (Some S) = Some es" for es
    using that by (auto simp: packageEnums_def distinct_goMap)
  have r: "distinct (map fst rs)" if "packageRoutes (Some S) = Some rs" for rs
    using that by (auto simp: packageRoutes_def distinct_goMap)
  show ?thesis unfolding compatible_def
    using d e r enumKept_same [OF assms]
    by (fastforce simp: messageKept_def fieldKept_def routeKept_def)
qed

end
