(* ===== verification/Passes.thy ===== *)
theory Passes
  imports Compile CompatProps
begin

text \<open>
  The passes over the built schema: \<open>responseonly.go\<close>, \<open>valueitems.go\<close> and \<open>bodyless.go\<close> of
  \<open>internal/onkcompile\<close>. The walks over messages are the depth-first search of \<open>Search\<close>; the
  recursion over nested messages is \<open>messagesDeep\<close>, whose fuel is enough on a built schema. The
  passes read the shape of the messages (types, oneofs, decorators, nesting) and write flags, so
  they read it off the schema they start from, except that \<open>bindBodylessQueryFields\<close> adds
  decorators to one message after another.
\<close>

fun typeMessages :: "irType \<Rightarrow> mref list" where
  "typeMessages (TMessage r) = [r]"
| "typeMessages (TMap k v) = typeMessages v"
| "typeMessages t = []"

definition optMessages :: "irType option \<Rightarrow> mref list" where
  "optMessages t = (case t of None \<Rightarrow> [] | Some u \<Rightarrow> typeMessages u)"

text \<open>The messages a message's fields and variants mention, in order.\<close>

definition mentions :: "schema \<Rightarrow> mref \<Rightarrow> mref list" where
  "mentions S r = concat (map (\<lambda>f. optMessages (fType f) @
     (case fOneof f of None \<Rightarrow> [] | Some o1 \<Rightarrow> concat (map (\<lambda>v. optMessages (vType v)) (oVariants o1))))
     (mFields (msgAt S r)))"

definition reachItems :: "schema \<Rightarrow> mref \<Rightarrow> unit item list" where
  "reachItems S r = map Visit (mentions S r)"

definition reachMessages :: "schema \<Rightarrow> mref option \<Rightarrow> mref list \<Rightarrow> mref list" where
  "reachMessages S m seen =
     (case m of
        None \<Rightarrow> seen
      | Some r \<Rightarrow>
          (case search (reachItems S) (\<lambda>_. False) (Suc (length (schMessages S))) r seen of
             Some (_, s) \<Rightarrow> s | None \<Rightarrow> seen))"

text \<open>Reaching \<open>target\<close> ends the walk.\<close>

definition targetItems :: "schema \<Rightarrow> mref \<Rightarrow> mref \<Rightarrow> unit item list" where
  "targetItems S target r = map (\<lambda>b. if b = target then Hit () else Visit b) (mentions S r)"

definition reachesMessage :: "schema \<Rightarrow> mref \<Rightarrow> mref \<Rightarrow> bool" where
  "reachesMessage S from target =
     (case searchItems (search (targetItems S target) (\<lambda>_. False) (Suc (length (schMessages S))))
         (targetItems S target from) [] of
        Some (Some _, _) \<Rightarrow> True | _ \<Rightarrow> False)"

definition alwaysSentField :: "schema \<Rightarrow> mref \<Rightarrow> field \<Rightarrow> bool" where
  "alwaysSentField S owner f =
     (if fOptional f \<or> fRepeated f \<or> fOneof f \<noteq> None \<or> fNullable f \<or> fType f = None then False
      else if \<not> list_all (\<lambda>d. decName d = ''required'') (fDecorators f) then False
      else case fType f of
        Some (TScalar k) \<Rightarrow> k = ScalarTimestamp
      | Some (TMessage target) \<Rightarrow>
          (let fs = mFields (msgAt S target) in
           if length fs = 1 \<and> fieldHasDecorator (hd fs) ''unwrap'' then False
           else \<not> reachesMessage S target owner \<and> \<not> reachesMessage S target target)
      | _ \<Rightarrow> False)"

text \<open>Every message, through the files and the nesting.\<close>

definition schemaMessages :: "schema \<Rightarrow> mref list option" where
  "schemaMessages S = messagesDeep S (concat (map flMessages (schFiles S)))"

definition methodsOf :: "schema \<Rightarrow> rpc list" where
  "methodsOf S = map (\<lambda>(fl, sv, m). m) (allMethods S)"

definition requestMessages :: "schema \<Rightarrow> mref list" where
  "requestMessages S = foldl (\<lambda>seen m. reachMessages S (rRequest m) seen) [] (methodsOf S)"

definition responseMessages :: "schema \<Rightarrow> mref list" where
  "responseMessages S = foldl (\<lambda>seen m.
     foldl (\<lambda>s e. reachMessages S (Some e) s) (reachMessages S (rResponse m) seen) (rErrorTypes m)) [] (methodsOf S)"

definition markFields :: "schema \<Rightarrow> bool \<Rightarrow> mref \<Rightarrow> field list \<Rightarrow> field list" where
  "markFields S emitZero r fs = map (\<lambda>f.
     if fNullable f then f\<lparr>fAlwaysSent := True\<rparr>
     else if emitZero then f\<lparr>fAlwaysSent := alwaysSentField S r f\<rparr> else f) fs"

definition markResponseOnly :: "schema \<Rightarrow> bool \<Rightarrow> schema \<Rightarrow> mref \<Rightarrow> schema" where
  "markResponseOnly S emitZero S' r =
     (let only = (r \<in> set (responseMessages S) \<and> r \<notin> set (requestMessages S)) in
      setMessage r (\<lambda>m. m\<lparr>mResponseOnly := only,
        mFields := (if only then markFields S emitZero r (mFields m) else mFields m)\<rparr>) S')"

definition markResponseOnlyMessages :: "schema \<Rightarrow> bool \<Rightarrow> schema option" where
  "markResponseOnlyMessages S emitZero = map_option (foldl (markResponseOnly S emitZero) S) (schemaMessages S)"

definition wsMessages :: "schema \<Rightarrow> mref list" where
  "wsMessages S = foldl (\<lambda>seen m.
     if isWebSocket m then reachMessages S (rResponse m) (reachMessages S (rRequest m) seen) else seen) [] (methodsOf S)"

definition markValueItem :: "field \<Rightarrow> field" where
  "markValueItem f =
     (if fRepeated f \<and> fOneof f = None \<and> (case fType f of Some (TMessage _) \<Rightarrow> True | _ \<Rightarrow> False)
      then f\<lparr>fValueItems := True\<rparr> else f)"

definition markValueItems :: "schema \<Rightarrow> schema option" where
  "markValueItems S =
     map_option (foldl (\<lambda>S' r. if r \<in> set (wsMessages S) then S'
         else setMessage r (\<lambda>m. m\<lparr>mFields := map markValueItem (mFields m)\<rparr>) S') S) (schemaMessages S)"

subsection \<open>Query fields of requests without a body\<close>

definition verbOf :: "rpc \<Rightarrow> string" where
  "verbOf m = (case methodVerb m of Some v \<Rightarrow> v | None \<Rightarrow> [])"

definition pathOf :: "rpc \<Rightarrow> string" where
  "pathOf m = (case methodPath m of Some p \<Rightarrow> p | None \<Rightarrow> [])"

definition bodyless :: "rpc \<Rightarrow> bool" where
  "bodyless m \<longleftrightarrow> \<not> (isWebSocket m \<or> isBodyBearingVerb (verbOf m))"

text \<open>The requests in the order of their first method; a built method has one.\<close>

definition requestOrder :: "schema \<Rightarrow> mref list" where
  "requestOrder S = foldl (\<lambda>order m. case rRequest m of
       None \<Rightarrow> order | Some r \<Rightarrow> if r \<in> set order then order else order @ [r]) [] (methodsOf S)"

definition usersOf :: "schema \<Rightarrow> mref \<Rightarrow> rpc list" where
  "usersOf S r = filter (\<lambda>m. rRequest m = Some r) (methodsOf S)"

definition queryable :: "string list \<Rightarrow> field \<Rightarrow> bool" where
  "queryable inPath f \<longleftrightarrow> \<not> (fName f \<in> set inPath \<or> fieldHasDecorator f ''query'') \<and>
     \<not> (fOneof f \<noteq> None \<or> fRepeated f) \<and>
     (case fType f of Some (TScalar k) \<Rightarrow> isHTTPParameterScalar k | _ \<Rightarrow> False)"

definition bindQueryFields :: "mref \<Rightarrow> rpc list \<Rightarrow> schema \<Rightarrow> schema" where
  "bindQueryFields r methods S =
     (let inPath = concat (map (\<lambda>m. pathParameterNames (pathOf m)) methods) in
      setMessage r (\<lambda>m. m\<lparr>mFields := map (\<lambda>f.
        if queryable inPath f then f\<lparr>fDecorators := fDecorators f @ [\<lparr>decName = ''query'', decArgs = []\<rparr>]\<rparr> else f)
        (mFields m)\<rparr>) S)"

definition bindBodylessQueryFields :: "schema \<Rightarrow> schema" where
  "bindBodylessQueryFields S =
     foldl (\<lambda>S' r. if list_all bodyless (usersOf S r) then bindQueryFields r (usersOf S r) S' else S') S (requestOrder S)"

definition bodyRequestMessages :: "schema \<Rightarrow> mref list" where
  "bodyRequestMessages S = concat (map (\<lambda>m. if bodyless m then [] else
     case rRequest m of Some r \<Rightarrow> [r] | None \<Rightarrow> []) (methodsOf S))"

definition requestPathNames :: "schema \<Rightarrow> mref \<Rightarrow> string list" where
  "requestPathNames S r = concat (map (\<lambda>m. pathParameterNames (pathOf m)) (usersOf S r))"

end
