(* ===== verification/Contract.thy ===== *)
theory Contract
  imports Passes
begin

text \<open>
  The checks of the compiled schema: \<open>internal/onkcompile/validate_contract.go\<close>,
  \<open>validate_ws.go\<close> and \<open>validateRawHTTPContract\<close> of \<open>rawhttp.go\<close>, and \<open>CompileWithOptions\<close>. The
  recursions over flattened and nested messages get \<open>k\<close> levels and give \<open>NoReturn\<close> beyond them.
\<close>

definition contractError :: "string \<Rightarrow> nat \<Rightarrow> string \<Rightarrow> string list \<Rightarrow> compileError + 'a" where
  "contractError path line fmt args = Inl (Failed (CompileError path line 0 [] (fmt, args)))"

subsection \<open>Security schemes\<close>

definition checkScheme :: "string \<Rightarrow> header \<Rightarrow> (string \<rightharpoonup> string) \<Rightarrow> compileError + (string \<rightharpoonup> string)" where
  "checkScheme path h seen =
     (case headerAuthType h of
        None \<Rightarrow> Inr seen
      | Some authType \<Rightarrow>
          let signature = (if authType = ''api_key'' then authType @ '':'' @ toLower (hName h) else authType);
              name = securitySchemeName h;
              clash = (case seen name of Some previous \<Rightarrow> previous \<noteq> signature | None \<Rightarrow> False) in
          if clash then
            contractError path 0 ''auth scheme %q is declared as both %s and %s; give one header a different @auth_scheme_name''
              [name, (case seen name of Some p \<Rightarrow> p | None \<Rightarrow> []), signature]
          else Inr (seen(name \<mapsto> signature)))"

definition fileHeaders :: "schemaFile \<Rightarrow> header list" where
  "fileHeaders fl = concat (map (\<lambda>sv. sHeaders sv @ concat (map rHeaders (sMethods sv))) (flServices fl))"

definition validateSecuritySchemes :: "schemaFile \<Rightarrow> compileError + unit" where
  "validateSecuritySchemes fl = bindE (foldE (checkScheme (flPath fl)) (fileHeaders fl) (\<lambda>_. None)) (\<lambda>_. Inr ())"

subsection \<open>Flattened messages\<close>

definition flattenTarget :: "field \<Rightarrow> mref option" where
  "flattenTarget f =
     (if fieldHasDecorator f ''flatten'' then (case fType f of Some (TMessage r) \<Rightarrow> Some r | _ \<Rightarrow> None) else None)"

text \<open>
  The keys so far (a Go map, shared by the calls) and the pair of strings the function returns: a
  key that is produced twice, with its owners, or the empty key.
\<close>

type_synonym keyResult = "(string \<rightharpoonup> string) \<times> string \<times> string"

definition flattenPrefix :: "field \<Rightarrow> string" where
  "flattenPrefix f =
     (case Option.bind (fieldDecorator f ''flatten'') (\<lambda>d. decoratorNamedArg d ''prefix'') of
        Some p \<Rightarrow> p | None \<Rightarrow> [])"

fun keyLoop :: "(mref \<Rightarrow> string \<Rightarrow> (string \<rightharpoonup> string) \<Rightarrow> string \<Rightarrow> compileError + keyResult) \<Rightarrow> string \<Rightarrow> string \<Rightarrow>
    field list \<Rightarrow> (string \<rightharpoonup> string) \<Rightarrow> compileError + keyResult" where
  "keyLoop inner pre owner [] keys = Inr (keys, [], [])"
| "keyLoop inner pre owner (f # fs) keys =
     (case flattenTarget f of
        Some r \<Rightarrow>
          bindE (inner r (pre @ flattenPrefix f) keys (owner @ ''.'' @ fName f)) (\<lambda>(keys', key, previous).
            if key \<noteq> [] then Inr (keys', key, previous) else keyLoop inner pre owner fs keys')
      | None \<Rightarrow>
          let key = pre @ fName f in
          case keys key of
            Some previous \<Rightarrow> Inr (keys, key, previous @ '' and '' @ owner @ ''.'' @ fName f)
          | None \<Rightarrow> keyLoop inner pre owner fs (keys(key \<mapsto> owner @ ''.'' @ fName f)))"

fun flattenedJSONKeys :: "nat \<Rightarrow> schema \<Rightarrow> mref \<Rightarrow> string \<Rightarrow> (string \<rightharpoonup> string) \<Rightarrow> string \<Rightarrow> compileError + keyResult" where
  "flattenedJSONKeys 0 S r pre keys owner = Inl NoReturn"
| "flattenedJSONKeys (Suc k) S r pre keys owner =
     keyLoop (flattenedJSONKeys k S) pre owner (mFields (msgAt S r)) keys"

definition checkFlattenKeys :: "nat \<Rightarrow> schema \<Rightarrow> string \<Rightarrow> mref \<Rightarrow> compileError + unit" where
  "checkFlattenKeys k S path r =
     bindE (flattenedJSONKeys k S r [] (\<lambda>_. None) (mName (msgAt S r))) (\<lambda>(_, key, owners).
       if key \<noteq> [] then
         contractError path 0 ''JSON key %q is produced by both %s after @flatten; give the flattened field a distinct prefix'' [key, owners]
       else Inr ())"

text \<open>The recursion over nested messages visits \<open>messagesDeep\<close>, a message before those nested in it.\<close>

definition validateFlattenKeys :: "nat \<Rightarrow> schema \<Rightarrow> string \<Rightarrow> mref \<Rightarrow> compileError + unit" where
  "validateFlattenKeys k S path r =
     (case messagesDeep S [r] of
        None \<Rightarrow> Inl NoReturn
      | Some rs \<Rightarrow> eachE (checkFlattenKeys k S path) rs)"

text \<open>\<open>path\<close> is the branch of flattened messages down to this one.\<close>

fun validateFlattenCycle :: "nat \<Rightarrow> schema \<Rightarrow> string \<Rightarrow> mref \<Rightarrow> mref list \<Rightarrow> compileError + unit" where
  "validateFlattenCycle 0 S file r path = Inl NoReturn"
| "validateFlattenCycle (Suc k) S file r path =
     (if r \<in> set path then
        contractError file 0 (''@flatten cycle: '' @ joinWith '' -> '' (map (\<lambda>m. mName (msgAt S m)) (path @ [r]))) []
      else eachE (\<lambda>f. case flattenTarget f of
             None \<Rightarrow> Inr () | Some t \<Rightarrow> validateFlattenCycle k S file t (path @ [r])) (mFields (msgAt S r)))"

subsection \<open>Messages\<close>

definition isRootUnwrappedMessage :: "schema \<Rightarrow> mref \<Rightarrow> bool" where
  "isRootUnwrappedMessage S r =
     (let fs = mFields (msgAt S r) in length fs = 1 \<and> fieldHasDecorator (hd fs) ''unwrap'')"

definition validEncode :: "irType option \<Rightarrow> string \<Rightarrow> bool" where
  "validEncode t v =
     (case t of
        Some (TEnum _) \<Rightarrow> v = ''number''
      | Some (TMap _ u) \<Rightarrow> v = ''date'' \<and> u = TScalar ScalarTimestamp
      | Some (TScalar k) \<Rightarrow>
          (if isInt64Kind k then v = ''number''
           else if k = ScalarBytes then v \<in> {''hex'', ''base64'', ''base64_raw'', ''base64url'', ''base64url_raw''}
           else if k = ScalarTimestamp then v \<in> {''unix_seconds'', ''unix_millis'', ''date''}
           else False)
      | _ \<Rightarrow> False)"

definition validateCompiledField :: "schema \<Rightarrow> compileOptions \<Rightarrow> string \<Rightarrow> field \<Rightarrow> compileError + unit" where
  "validateCompiledField S opts path f =
     (if \<not> allowLegacy opts \<and> fieldHasDecorator f ''required'' \<and> \<not> fOptional f \<and> \<not> fRepeated f \<and>
         (case fType f of Some (TEnum _) \<Rightarrow> True | _ \<Rightarrow> False) then
        contractError path (fLine f)
          ''@required on enum field %s.%s needs the ? marker; a non-optional enum always holds its first value''
          [messageFullName S (fMessage f), fName f]
      else case (case fType f of Some (TMap _ (TMessage r)) \<Rightarrow> if isRootUnwrappedMessage S r then Some r else None | _ \<Rightarrow> None) of
        Some r \<Rightarrow> contractError path (fLine f)
          ''@unwrap is not supported on map value message %s; use @unwrap only on a top-level request/response message''
          [messageFullName S r]
      | None \<Rightarrow>
          (case fieldDecorator f ''encode'' of
             None \<Rightarrow> Inr ()
           | Some d \<Rightarrow>
               let v = (case decoratorValue d of Some v \<Rightarrow> v | None \<Rightarrow> []) in
               if validEncode (fType f) v then Inr ()
               else contractError path (fLine f) ''@encode(%s) is not supported on field %s.%s''
                 [v, messageFullName S (fMessage f), fName f]))"

type_synonym fullNames = "string \<rightharpoonup> string"

definition claimName :: "string \<Rightarrow> string \<Rightarrow> bool \<Rightarrow> fullNames \<Rightarrow> compileError + fullNames" where
  "claimName path name packaged names =
     (if \<not> packaged then Inr names
      else case names name of
        Some previous \<Rightarrow> contractError path 0 ''qualified declaration %q conflicts with %s'' [name, previous]
      | None \<Rightarrow> Inr (names(name \<mapsto> path)))"

definition packagedMessage :: "schema \<Rightarrow> mref \<Rightarrow> bool" where
  "packagedMessage S r \<longleftrightarrow> filePackage S (mFile (msgAt S r)) \<noteq> []"

definition packagedEnum :: "schema \<Rightarrow> eref \<Rightarrow> bool" where
  "packagedEnum S e \<longleftrightarrow> filePackage S (enFile (enumAt S e)) \<noteq> []"

fun validateCompiledMessage :: "nat \<Rightarrow> schema \<Rightarrow> compileOptions \<Rightarrow> string \<Rightarrow> mref \<Rightarrow> fullNames \<Rightarrow> compileError + fullNames" where
  "validateCompiledMessage 0 S opts path r names = Inl NoReturn"
| "validateCompiledMessage (Suc k) S opts path r names =
     bindE (claimName path (messageFullName S r) (packagedMessage S r) names) (\<lambda>n1.
     bindE (eachE (validateCompiledField S opts path) (mFields (msgAt S r))) (\<lambda>_.
     bindE (foldE (validateCompiledMessage k S opts path) (mNested (msgAt S r)) n1)
       (foldE (\<lambda>e. claimName path (enumFullName S e) (packagedEnum S e)) (mNestedEnums (msgAt S r)))))"

subsection \<open>Bindings of methods\<close>

definition checkPathParam :: "string \<Rightarrow> schema \<Rightarrow> rpc \<Rightarrow> mref \<Rightarrow> string \<Rightarrow> string \<Rightarrow> string list \<Rightarrow> compileError + string list" where
  "checkPathParam path S m req route name seen =
     (if name \<in> set seen then
        contractError path (rLine m) ''duplicate path parameter %q on RPC %s'' [name, rName m]
      else
        case (case findField S (Some req) name of
                Some f \<Rightarrow> (case fType f of Some (TScalar k) \<Rightarrow> if fRepeated f then None else Some (f, k) | _ \<Rightarrow> None)
              | None \<Rightarrow> None) of
          None \<Rightarrow> contractError path (rLine m)
            ''path parameter %q on RPC %s requires one non-repeated scalar request field'' [name, rName m]
        | Some (f, k) \<Rightarrow>
            if fOptional f then
              contractError path (rLine m) ''path parameter %q on RPC %s cannot be optional'' [name, rName m]
            else if isWildcardParam route name \<and> k \<noteq> ScalarString then
              contractError path (rLine m) ''wildcard path parameter %q on RPC %s requires a string request field'' [name, rName m]
            else if \<not> isHTTPParameterScalar k then
              contractError path (rLine m)
                ''path parameter %q on RPC %s supports string, bool, integer, and float scalar fields'' [name, rName m]
            else Inr (name # seen))"

definition queryOnBodyUnsupportedTargets :: "string list" where
  "queryOnBodyUnsupportedTargets = [''python-client'', ''dart-client'', ''swift-client'', ''rust-client'', ''rust-server'']"

definition checkQueryField :: "string \<Rightarrow> compileOptions \<Rightarrow> rpc \<Rightarrow> string list \<Rightarrow> field \<Rightarrow> (string \<rightharpoonup> string) \<Rightarrow>
    compileError + (string \<rightharpoonup> string)" where
  "checkQueryField path opts m inPath f seen =
     (case fieldDecorator f ''query'' of
        None \<Rightarrow> Inr seen
      | Some d \<Rightarrow>
          let declared = (case decoratorValue d of Some v \<Rightarrow> v | None \<Rightarrow> []);
              name = (if declared = [] then fName f else declared) in
          if isBodyBearingVerb (verbOf m) \<and> generates opts queryOnBodyUnsupportedTargets then
            contractError path (rLine m) ''@query field %q on body-bearing RPC %s is supported by the go, ts and openapi targets only; remove the python, dart, swift and rust targets or move the field into the body'' [fName f, rName m]
          else if fName f \<in> set inPath then
            contractError path (rLine m) ''request field %q cannot be both a path and query binding'' [fName f]
          else case seen name of
            Some previous \<Rightarrow> contractError path (rLine m) ''query parameter %q is bound by both %s and %s'' [name, previous, fName f]
          | None \<Rightarrow> Inr (seen(name \<mapsto> fName f)))"

definition checkBodyField :: "string \<Rightarrow> schema \<Rightarrow> rpc \<Rightarrow> mref \<Rightarrow> string list \<Rightarrow> compileError + unit" where
  "checkBodyField path S m req inPath =
     (case bodyField m of
        None \<Rightarrow> Inr ()
      | Some name \<Rightarrow>
          (case findField S (Some req) name of
             None \<Rightarrow> contractError path (rLine m) ''@body references unknown request field %q on RPC %s'' [name, rName m]
           | Some f \<Rightarrow>
               if fName f \<in> set inPath then
                 contractError path (rLine m) ''request field %q cannot be both a path and body binding'' [fName f]
               else if fieldHasDecorator f ''query'' then
                 contractError path (rLine m) ''request field %q cannot be both a query and body binding'' [fName f]
               else Inr ()))"

definition unboundField :: "schema \<Rightarrow> compileOptions \<Rightarrow> rpc \<Rightarrow> mref \<Rightarrow> string list \<Rightarrow> bool \<Rightarrow> field \<Rightarrow> bool" where
  "unboundField S opts m req inPath allFields f \<longleftrightarrow>
     \<not> (fName f \<in> set inPath \<or> fieldHasDecorator f ''query'' \<or> bodyField m = Some (fName f)) \<and>
     \<not> (\<not> fieldHasDecorator f ''required'' \<and>
        (allowLegacy opts \<or> \<not> allFields \<or> fName f \<in> set (requestPathNames S req)))"

definition validateUnboundFields :: "string \<Rightarrow> schema \<Rightarrow> compileOptions \<Rightarrow> rpc \<Rightarrow> mref \<Rightarrow> string list \<Rightarrow> compileError + unit" where
  "validateUnboundFields path S opts m req inPath =
     (let verb = verbOf m; allFields = (\<not> isBodyBearingVerb verb \<and> req \<notin> set (bodyRequestMessages S)) in
      if isWebSocket m then Inr ()
      else if isBodyBearingVerb verb \<and> bodyField m = None then Inr ()
      else case find (unboundField S opts m req inPath allFields) (mFields (msgAt S req)) of
        None \<Rightarrow> Inr ()
      | Some f \<Rightarrow> contractError path (rLine m)
          ''%s %q on RPC %s is never sent: %s requests carry only path, @query and @body fields; add @query (a scalar field), put it in the route as {%s}, or use a verb with a body''
          [if fieldHasDecorator f ''required'' then ''@required field'' else ''field'', fName f, rName m, toUpper verb, fName f])"

subsection \<open>WebSocket methods\<close>

definition wsIDFieldInScope :: "string \<Rightarrow> string \<Rightarrow> string \<Rightarrow> field list \<Rightarrow> compileError + field option" where
  "wsIDFieldInScope path method scope fs =
     (case filter (\<lambda>f. fieldHasDecorator f ''ws_id'') fs of
        [] \<Rightarrow> Inr None
      | [f] \<Rightarrow> Inr (Some f)
      | _ \<Rightarrow> contractError path 0 ''%s on RPC %s has more than one @ws_id field'' [scope, method])"

definition variantMessage :: "variant \<Rightarrow> mref option" where
  "variantMessage v = (case vType v of Some (TMessage r) \<Rightarrow> Some r | _ \<Rightarrow> None)"

definition messageVariants :: "schema \<Rightarrow> mref \<Rightarrow> variant list" where
  "messageVariants S r = concat (map (\<lambda>f. case fOneof f of None \<Rightarrow> [] | Some o1 \<Rightarrow> oVariants o1) (mFields (msgAt S r)))"

definition collectWSIDFields :: "string \<Rightarrow> string \<Rightarrow> string \<Rightarrow> schema \<Rightarrow> mref \<Rightarrow> compileError + field list" where
  "collectWSIDFields path method direction S r =
     bindE (wsIDFieldInScope path method (direction @ '' message'') (mFields (msgAt S r))) (\<lambda>own.
     bindE (mapE (\<lambda>v. case variantMessage v of
         None \<Rightarrow> Inr None
       | Some t \<Rightarrow> wsIDFieldInScope path method (direction @ '' oneof variant '' @ vName v) (mFields (msgAt S t)))
       (messageVariants S r)) (\<lambda>inner.
       Inr (concat (map (\<lambda>f. case f of None \<Rightarrow> [] | Some x \<Rightarrow> [x]) (own # inner)))))"

definition checkWSCancel :: "string \<Rightarrow> string \<Rightarrow> string \<Rightarrow> schema \<Rightarrow> variant \<Rightarrow> variant option \<Rightarrow> compileError + variant option" where
  "checkWSCancel path method direction S v found =
     (case found of
        Some first \<Rightarrow> contractError path 0 ''%s message on RPC %s has more than one @ws_cancel variant (%s and %s)''
          [direction, method, vName first, vName v]
      | None \<Rightarrow>
          if (case variantMessage v of None \<Rightarrow> True | Some r \<Rightarrow> findWSIDDirect S r = None) then
            contractError path 0 ''@ws_cancel variant %s on RPC %s must be a message with a @ws_id field'' [vName v, method]
          else Inr (Some v))"

definition validateWSCancelVariants :: "string \<Rightarrow> string \<Rightarrow> string \<Rightarrow> schema \<Rightarrow> mref \<Rightarrow> compileError + unit" where
  "validateWSCancelVariants path method direction S r =
     bindE (foldE (checkWSCancel path method direction S) (filter isWSCancel (messageVariants S r)) None) (\<lambda>_. Inr ())"

definition checkWSTimeout :: "string \<Rightarrow> string \<Rightarrow> string \<Rightarrow> schema \<Rightarrow> mref \<Rightarrow> compileError + unit" where
  "checkWSTimeout path method scope S r =
     (case filter (\<lambda>f. fieldHasDecorator f ''ws_timeout'') (mFields (msgAt S r)) of
        [] \<Rightarrow> Inr ()
      | f # rest \<Rightarrow>
          if findWSIDDirect S r = None then
            contractError path 0 ''@ws_timeout field %s on RPC %s must sit next to a @ws_id field'' [fName f, method]
          else if rest \<noteq> [] then
            contractError path 0 ''%s on RPC %s has more than one @ws_timeout field'' [scope, method]
          else Inr ())"

definition validateWSTimeoutFields :: "string \<Rightarrow> string \<Rightarrow> schema \<Rightarrow> mref \<Rightarrow> compileError + unit" where
  "validateWSTimeoutFields path method S r =
     bindE (checkWSTimeout path method (''message '' @ mName (msgAt S r)) S r) (\<lambda>_.
       eachE (\<lambda>v. case variantMessage v of
           None \<Rightarrow> Inr () | Some t \<Rightarrow> checkWSTimeout path method (''oneof variant '' @ vName v) S t) (messageVariants S r))"

text \<open>The scalar of a type, which is the first one for a type of another kind; a nil type panics.\<close>

definition scalarOf :: "field \<Rightarrow> compileError + scalarKind" where
  "scalarOf f =
     (case fType f of
        None \<Rightarrow> Inl (Failed Panic) | Some (TScalar k) \<Rightarrow> Inr k | Some _ \<Rightarrow> Inr ScalarString)"

definition sameScalar :: "string \<Rightarrow> string \<Rightarrow> scalarKind \<Rightarrow> field \<Rightarrow> compileError + unit" where
  "sameScalar path method kind f =
     (if fType f = Some (TScalar kind) then Inr ()
      else bindE (scalarOf f) (\<lambda>k.
        contractError path 0 ''@ws_id fields on RPC %s must share one scalar type; found both %s and %s''
          [method, scalarKindName kind, scalarKindName k]))"

definition validateWSCorrelation :: "string \<Rightarrow> schema \<Rightarrow> rpc \<Rightarrow> mref \<Rightarrow> mref \<Rightarrow> compileError + unit" where
  "validateWSCorrelation path S m req resp =
     bindE (collectWSIDFields path (rName m) ''request'' S req) (\<lambda>requestFields.
     bindE (collectWSIDFields path (rName m) ''response'' S resp) (\<lambda>responseFields.
     bindE (validateWSCancelVariants path (rName m) ''request'' S req) (\<lambda>_.
     bindE (validateWSCancelVariants path (rName m) ''response'' S resp) (\<lambda>_.
     bindE (validateWSTimeoutFields path (rName m) S req) (\<lambda>_.
     bindE (validateWSTimeoutFields path (rName m) S resp) (\<lambda>_.
       case requestFields @ responseFields of
         [] \<Rightarrow> Inr ()
       | f # rest \<Rightarrow> bindE (scalarOf f) (\<lambda>kind. eachE (sameScalar path (rName m) kind) rest)))))))"

definition validateMethodBindings :: "string \<Rightarrow> schema \<Rightarrow> compileOptions \<Rightarrow> rpc \<Rightarrow> mref \<Rightarrow> mref \<Rightarrow> compileError + unit" where
  "validateMethodBindings path S opts m req resp =
     (let route = (case webSocketPath m of Some p \<Rightarrow> p | None \<Rightarrow> pathOf m) in
      bindE (foldE (checkPathParam path S m req route) (pathParameterNames route) []) (\<lambda>inPath.
      bindE (foldE (checkQueryField path opts m inPath) (mFields (msgAt S req)) (\<lambda>_. None)) (\<lambda>_.
      bindE (checkBodyField path S m req inPath) (\<lambda>_.
      bindE (validateUnboundFields path S opts m req inPath) (\<lambda>_.
        if isWebSocket m then validateWSCorrelation path S m req resp else Inr ())))))"

definition validateRawHTTPContract :: "string \<Rightarrow> schema \<Rightarrow> rpc \<Rightarrow> mref \<Rightarrow> mref \<Rightarrow> compileError + unit" where
  "validateRawHTTPContract path S m req resp =
     (if \<not> isRawHTTP m then Inr ()
      else
        let inPath = pathParameterNames (pathOf m); bodyName = (case bodyField m of Some n \<Rightarrow> n | None \<Rightarrow> []) in
        case find (\<lambda>f. \<not> (fName f \<in> set inPath \<or> fieldHasDecorator f ''query'' \<or> fName f = bodyName)) (mFields (msgAt S req)) of
          Some f \<Rightarrow> contractError path 0
            ''field %q of @http RPC %s is not sent: an @http route takes its request from the path, @query fields and a declared JSON @body, and the handler reads any other body itself''
            [fName f, rName m]
        | None \<Rightarrow>
            if rawResponseKind m \<noteq> ''json'' \<and> mFields (msgAt S resp) \<noteq> [] then
              contractError path 0 (''response %s of @http RPC %s declares fields, but the handler writes the response itself; use an empty message, or @http(response: '' @
                [CHR 0x22] @ ''json'' @ [CHR 0x22] @ '') for a typed JSON response'') [mName (msgAt S resp), rName m]
            else Inr ())"

text \<open>A method without a request or a response would be a nil pointer.\<close>

definition validateMethod :: "string \<Rightarrow> schema \<Rightarrow> compileOptions \<Rightarrow> rpc \<Rightarrow> compileError + unit" where
  "validateMethod path S opts m =
     (case (rRequest m, rResponse m) of
        (Some req, Some resp) \<Rightarrow>
          bindE (validateMethodBindings path S opts m req resp) (\<lambda>_. validateRawHTTPContract path S m req resp)
      | _ \<Rightarrow> Inl (Failed Panic))"

subsection \<open>The contract and the whole compilation\<close>

definition validateTopMessage :: "nat \<Rightarrow> schema \<Rightarrow> compileOptions \<Rightarrow> string \<Rightarrow> mref \<Rightarrow> fullNames \<Rightarrow> compileError + fullNames" where
  "validateTopMessage k S opts path r names =
     bindE (validateFlattenCycle k S path r []) (\<lambda>_.
     bindE (validateFlattenKeys k S path r) (\<lambda>_.
       validateCompiledMessage k S opts path r names))"

definition validateFileContract :: "nat \<Rightarrow> schema \<Rightarrow> compileOptions \<Rightarrow> schemaFile \<Rightarrow> fullNames \<Rightarrow> compileError + fullNames" where
  "validateFileContract k S opts fl names =
     bindE (foldE (validateTopMessage k S opts (flPath fl)) (flMessages fl) names) (\<lambda>n1.
     bindE (foldE (\<lambda>e. claimName (flPath fl) (enumFullName S e) (flPackage fl \<noteq> [])) (flEnums fl) n1) (\<lambda>n2.
     bindE (eachE (validateMethod (flPath fl) S opts) (concat (map sMethods (flServices fl)))) (\<lambda>_.
     bindE (validateSecuritySchemes fl) (\<lambda>_. Inr n2))))"

definition contractFuel :: "schema \<Rightarrow> nat" where
  "contractFuel S = Suc (Suc (length (schMessages S)))"

definition validateContract :: "schema \<Rightarrow> compileOptions \<Rightarrow> compileError + unit" where
  "validateContract S opts =
     bindE (foldE (validateFileContract (contractFuel S) S opts) (schFiles S) (\<lambda>_. None)) (\<lambda>_. Inr ())"

definition orNoReturn :: "'a option \<Rightarrow> compileError + 'a" where
  "orNoReturn r = (case r of None \<Rightarrow> Inl NoReturn | Some x \<Rightarrow> Inr x)"

definition compileWithOptions :: "goLib \<Rightarrow> source list \<Rightarrow> compileOptions \<Rightarrow> compileError + schema" where
  "compileWithOptions lib sources opts =
     bindE (liftE (validateSyntax lib sources opts)) (\<lambda>_.
     bindE (orNoReturn (validateAndBuildImportScopes sources)) (\<lambda>r.
     bindE (liftE r) (\<lambda>sc.
     bindE (liftE (buildSchema opts sc sources)) (\<lambda>(forest, S).
     bindE (validateRules S sources forest) (\<lambda>_.
     bindE (validateAuthorize S sources forest) (\<lambda>S1.
     bindE (orNoReturn (markResponseOnlyMessages S1 (emitZeroValues opts))) (\<lambda>S2.
     bindE (if repeatedValues opts then orNoReturn (markValueItems S2) else Inr S2) (\<lambda>S3.
       let S4 = bindBodylessQueryFields S3 in
       bindE (validateContract S4 opts) (\<lambda>_. Inr S4)))))))))"

end
