(* ===== verification/Document.thy ===== *)
theory Document
  imports Decl GoFmt
begin

text \<open>
  The document of a front end, \<open>internal/onkschema/document.go\<close>: what \<open>Decode\<close> checks after the
  JSON decoder has built the declarations. A source file is a \<open>source\<close> of the compiler. The nil
  pointers that the Go checks refuse next to an empty name have no counterpart here, a missing
  type apart.
\<close>

record document =
  docVersion :: int
  docFiles :: "source list"

definition documentVersion :: int where "documentVersion = 1"

text \<open>An error is its text: a format with its arguments, the outermost first.\<close>

type_synonym docError = "message_text list"

abbreviation docErr :: "string \<Rightarrow> string list \<Rightarrow> docError + 'a" where
  "docErr fmt args \<equiv> Inl [(fmt, args)]"

definition wrapError :: "string \<Rightarrow> string list \<Rightarrow> docError + unit \<Rightarrow> docError + unit" where
  "wrapError fmt args r = (case r of Inl e \<Rightarrow> Inl ((fmt, args) # e) | Inr u \<Rightarrow> Inr u)"

lemma wrapError_Inr [simp]: "wrapError fmt args r = Inr u \<longleftrightarrow> r = Inr ()"
  by (simp add: wrapError_def split: sum.split)

fun validateTypeRef :: "typeRef option \<Rightarrow> docError + unit" where
  "validateTypeRef None = docErr ''missing type'' []"
| "validateTypeRef (Some (TypeRef sp name isMap mapKey mapVal)) =
     (if isMap then
        if mapKey = [] then docErr ''map type without a key type'' [] else validateTypeRef mapVal
      else if name = [] then docErr ''type without a name'' [] else Inr ())"

definition validateDocField :: "string \<Rightarrow> fieldDecl \<Rightarrow> docError + unit" where
  "validateDocField msg fd =
     (if fdName fd = [] then docErr ''message %s has a field without a name'' [msg]
      else case fdOneof fd of
        Some od \<Rightarrow>
          if fdType fd \<noteq> None then docErr ''field %s.%s has both a type and a oneof'' [msg, fdName fd]
          else eachE (\<lambda>vd. wrapError ''oneof %s.%s variant %s: %w'' [msg, fdName fd, vdName vd] (validateTypeRef (vdType vd)))
                 (odVariants od)
      | None \<Rightarrow> wrapError ''field %s.%s: %w'' [msg, fdName fd] (validateTypeRef (fdType fd)))"

fun validateDocMessage :: "messageDecl \<Rightarrow> docError + unit" where
  "validateDocMessage (MessageDecl name doc decs fds nested nestedEn line col) =
     (if name = [] then docErr ''message without a name'' []
      else bindE (eachE (validateDocField name) fds) (\<lambda>_.
        bindE (eachE validateDocMessage nested) (\<lambda>_.
          eachE (\<lambda>e. if edName e = [] then docErr ''message %s has an enum without a name'' [name] else Inr ()) nestedEn)))"

definition validateDocService :: "serviceDecl \<Rightarrow> docError + unit" where
  "validateDocService sd =
     (if sdName sd = [] then docErr ''service without a name'' []
      else eachE (\<lambda>rd. if rdName rd = [] then docErr ''service %s has an rpc without a name'' [sdName sd] else Inr ())
        (sdRPCs sd))"

definition validateDocFile :: "source \<Rightarrow> docError + unit" where
  "validateDocFile s =
     bindE (eachE validateDocMessage (fldMessages (srcAST s))) (\<lambda>_.
     bindE (eachE (\<lambda>e. if edName e = [] then docErr ''enum without a name'' [] else Inr ()) (fldEnums (srcAST s))) (\<lambda>_.
       eachE validateDocService (fldServices (srcAST s))))"

text \<open>The paths seen so far are threaded through the files, with the index of the file.\<close>

definition checkDocFile :: "nat \<times> source \<Rightarrow> string list \<Rightarrow> docError + string list" where
  "checkDocFile x seen =
     (case x of (i, s) \<Rightarrow>
        if srcPath s = [] then docErr ''schema document file %d has no path'' [showNat i]
        else if srcPath s \<in> set seen then docErr ''schema document lists %s more than once'' [srcPath s]
        else bindE (wrapError ''%s: %w'' [srcPath s] (validateDocFile s)) (\<lambda>_. Inr (srcPath s # seen)))"

definition validateDocument :: "document \<Rightarrow> docError + unit" where
  "validateDocument d = bindE (foldE checkDocFile (enumerate 0 (docFiles d)) []) (\<lambda>_. Inr ())"

text \<open>\<open>Decode\<close> from the decoded JSON value on.\<close>

definition decodeDocument :: "document \<Rightarrow> docError + document" where
  "decodeDocument d =
     (if docVersion d \<noteq> documentVersion then
        docErr ''schema document version %d is not supported (this onkt reads version %d)''
          [showInt (docVersion d), showInt documentVersion]
      else bindE (validateDocument d) (\<lambda>_. Inr d))"

subsection \<open>What an accepted document looks like\<close>

fun typeShaped :: "typeRef option \<Rightarrow> bool" where
  "typeShaped None \<longleftrightarrow> False"
| "typeShaped (Some (TypeRef sp name isMap mapKey mapVal)) \<longleftrightarrow>
     (if isMap then mapKey \<noteq> [] \<and> typeShaped mapVal else name \<noteq> [])"

definition fieldShaped :: "fieldDecl \<Rightarrow> bool" where
  "fieldShaped fd \<longleftrightarrow> fdName fd \<noteq> [] \<and>
     (case fdOneof fd of
        Some od \<Rightarrow> fdType fd = None \<and> (\<forall>vd \<in> set (odVariants od). typeShaped (vdType vd))
      | None \<Rightarrow> typeShaped (fdType fd))"

fun messageShaped :: "messageDecl \<Rightarrow> bool" where
  "messageShaped (MessageDecl name doc decs fds nested nestedEn line col) \<longleftrightarrow>
     name \<noteq> [] \<and> (\<forall>fd \<in> set fds. fieldShaped fd) \<and> (\<forall>md \<in> set nested. messageShaped md) \<and>
     (\<forall>e \<in> set nestedEn. edName e \<noteq> [])"

definition sourceShaped :: "source \<Rightarrow> bool" where
  "sourceShaped s \<longleftrightarrow> srcPath s \<noteq> [] \<and> (\<forall>md \<in> set (fldMessages (srcAST s)). messageShaped md) \<and>
     (\<forall>e \<in> set (fldEnums (srcAST s)). edName e \<noteq> []) \<and>
     (\<forall>sd \<in> set (fldServices (srcAST s)). sdName sd \<noteq> [] \<and> (\<forall>rd \<in> set (sdRPCs sd). rdName rd \<noteq> []))"

lemma validateTypeRef_iff: "validateTypeRef t = Inr u \<longleftrightarrow> typeShaped t"
  by (induction t rule: validateTypeRef.induct) auto

lemma validateDocField_iff: "validateDocField m fd = Inr u \<longleftrightarrow> fieldShaped fd"
  by (auto simp: validateDocField_def fieldShaped_def eachE_Inr validateTypeRef_iff split: option.split)

lemma validateDocMessage_iff: "validateDocMessage md = Inr u \<longleftrightarrow> messageShaped md"
  by (induction md rule: validateDocMessage.induct)
    (auto simp: bindE_eq_Inr eachE_Inr validateDocField_iff split: if_splits)

lemma validateDocFile_iff: "srcPath s \<noteq> [] \<Longrightarrow> validateDocFile s = Inr u \<longleftrightarrow> sourceShaped s"
  by (auto simp: validateDocFile_def sourceShaped_def validateDocService_def bindE_eq_Inr eachE_Inr validateDocMessage_iff
      split: if_splits)

lemma checkDocFile_Inr:
  "checkDocFile (i, s) seen = Inr seen' \<longleftrightarrow> sourceShaped s \<and> srcPath s \<notin> set seen \<and> seen' = srcPath s # seen"
  using validateDocFile_iff [of s]
  by (auto simp: checkDocFile_def bindE_eq_Inr sourceShaped_def)

lemma checkDocFiles_iff:
  "(\<exists>t. foldE checkDocFile (enumerate n ss) seen = Inr t) \<longleftrightarrow>
     (\<forall>s \<in> set ss. sourceShaped s) \<and> distinct (map srcPath ss) \<and> set (map srcPath ss) \<inter> set seen = {}"
proof (induction ss arbitrary: n seen)
  case (Cons s ss)
  have "(\<exists>t. foldE checkDocFile (enumerate n (s # ss)) seen = Inr t) \<longleftrightarrow>
      sourceShaped s \<and> srcPath s \<notin> set seen \<and>
      (\<exists>t. foldE checkDocFile (enumerate (Suc n) ss) (srcPath s # seen) = Inr t)"
    by (auto simp: bindE_eq_Inr checkDocFile_Inr)
  then show ?case unfolding Cons.IH by auto
qed simp

lemma decodeDocument_iff:
  "decodeDocument d = Inr d' \<longleftrightarrow> d' = d \<and> docVersion d = documentVersion \<and>
     (\<forall>s \<in> set (docFiles d). sourceShaped s) \<and> distinct (map srcPath (docFiles d))"
  using checkDocFiles_iff [of 0 "docFiles d" "[]"]
  by (auto simp: decodeDocument_def validateDocument_def bindE_eq_Inr)

end
