(* ===== verification/CompileProps.thy ===== *)
theory CompileProps
  imports Contract Document
begin

text \<open>
  What the compiler builds. Declaring keeps its name tables and the schema in step (\<open>declOk\<close>):
  every reference in a table is an allocated message or enum of that name and directory, and a
  message is nested in an older one. Filling and the passes only write what resolving and nesting
  do not read (\<open>sameShape\<close>), so the compiled schema has no dangling reference and every walk over
  nested messages ends.
\<close>

subsection \<open>Shapes\<close>

definition messageShape :: "message \<Rightarrow> message" where
  "messageShape m = m\<lparr>mErrorType := False, mFields := [], mResponseOnly := False\<rparr>"

definition fileShape :: "schemaFile \<Rightarrow> schemaFile" where
  "fileShape f = f\<lparr>flServices := []\<rparr>"

definition sameShape :: "schema \<Rightarrow> schema \<Rightarrow> bool" where
  "sameShape S S' \<longleftrightarrow> map messageShape (schMessages S) = map messageShape (schMessages S') \<and>
     schEnums S = schEnums S' \<and> map fileShape (schFiles S) = map fileShape (schFiles S')"

lemma sameShape_refl [simp]: "sameShape S S"
  by (simp add: sameShape_def)

lemma sameShape_trans [trans]: "sameShape S S' \<Longrightarrow> sameShape S' S'' \<Longrightarrow> sameShape S S''"
  by (simp add: sameShape_def)

lemma sameShape_sym: "sameShape S S' \<Longrightarrow> sameShape S' S"
  by (simp add: sameShape_def)

lemma map_list_update_same: "f x = f (xs ! i) \<Longrightarrow> map f (xs[i := x]) = map f xs"
  by (cases "i < length xs") (auto simp: map_update list_update_beyond intro: list_update_same_conv [THEN iffD2])

lemma setMessage_shape: "(\<And>m. messageShape (f m) = messageShape m) \<Longrightarrow> sameShape S (setMessage r f S)"
  by (cases "r < length (schMessages S)")
    (simp_all add: sameShape_def setMessage_def msgAt_def map_list_update_same list_update_beyond)

lemma setFile_shape: "(\<And>m. fileShape (f m) = fileShape m) \<Longrightarrow> sameShape S (setFile i f S)"
  by (simp add: sameShape_def setFile_def map_list_update_same)

lemma sameShape_length: "sameShape S S' \<Longrightarrow> length (schMessages S') = length (schMessages S)"
  unfolding sameShape_def by (metis length_map)

lemma sameShape_msgAt: "sameShape S S' \<Longrightarrow> messageShape (msgAt S' r) = messageShape (msgAt S r)"
  using sameShape_length [of S S'] by (auto simp: sameShape_def msgAt_def) (metis length_map nth_map)

lemma messageShape_eq:
  assumes "messageShape m = messageShape m'"
  shows "mName m = mName m'" "mSchemaName m = mSchemaName m'" "mNested m = mNested m'" "mNestedEnums m = mNestedEnums m'"
    "mDecorators m = mDecorators m'" "mFile m = mFile m'" "mParent m = mParent m'" "mDoc m = mDoc m'"
  using assms by (cases m; cases m'; simp add: messageShape_def)+

lemmas sameShape_fields = messageShape_eq [OF sameShape_msgAt]

lemma sameShape_files:
  assumes "sameShape S S'"
  shows "map flPath (schFiles S') = map flPath (schFiles S)" "map flMessages (schFiles S') = map flMessages (schFiles S)"
    "map flEnums (schFiles S') = map flEnums (schFiles S)" "map flPackage (schFiles S') = map flPackage (schFiles S)"
proof -
  have *: "map h (schFiles S') = map h (schFiles S)" if "\<And>f. h (fileShape f) = h f" for h :: "schemaFile \<Rightarrow> 'x"
  proof -
    have t: "map h (schFiles T) = map h (map fileShape (schFiles T))" for T by (simp add: that)
    show ?thesis using assms by (simp only: t sameShape_def)
  qed
  show "map flPath (schFiles S') = map flPath (schFiles S)" "map flMessages (schFiles S') = map flMessages (schFiles S)"
    "map flEnums (schFiles S') = map flEnums (schFiles S)" "map flPackage (schFiles S') = map flPackage (schFiles S)"
    by (rule *, simp add: fileShape_def)+
qed

lemma sameShape_nesting: "sameShape S S' \<Longrightarrow> nestingOk S \<Longrightarrow> nestingOk S'"
  unfolding nestingOk_def by (metis sameShape_fields(3) sameShape_length)

lemma foldE_sameShape:
  assumes "foldE f xs S = Inr S'" "\<And>x S S'. x \<in> set xs \<Longrightarrow> f x S = Inr S' \<Longrightarrow> sameShape S S'"
  shows "sameShape S S'"
  by (rule foldE_invariant [OF assms(1), of "sameShape S"]) (blast intro: assms(2) sameShape_trans sameShape_refl)+

lemma eachS_sameShape:
  assumes "eachS f xs S = Inr (rs, S')" "\<And>x S r S'. x \<in> set xs \<Longrightarrow> f x S = Inr (r, S') \<Longrightarrow> sameShape S S'"
  shows "sameShape S S'"
  using assms by (induction xs arbitrary: S rs) (fastforce simp: bindE_eq_Inr intro: sameShape_trans)+

subsection \<open>The schema while it is filled\<close>

lemma fillMessage_shape: "fillMessage opts sc c path md nd S = Inr S' \<Longrightarrow> sameShape S S'"
proof (induction md arbitrary: nd S S')
  case (MessageDecl name doc decs fds nested nestedEn line col)
  then obtain fs where f: "foldE (\<lambda>(m, n). fillMessage opts sc c path m n) (zip nested (nodeNested nd))
      (setMessage (nodeRef nd) (\<lambda>m. m\<lparr>mFields := fs\<rparr>) S) = Inr S'"
    by (auto simp: bindE_eq_Inr)
  have 1: "sameShape S (setMessage (nodeRef nd) (\<lambda>m. m\<lparr>mFields := fs\<rparr>) S)"
    by (rule setMessage_shape) (simp add: messageShape_def)
  show ?case
    by (rule sameShape_trans [OF 1], rule foldE_sameShape [OF f])
      (use MessageDecl.IH in \<open>auto dest: set_zip_leftD\<close>)
qed

lemma addErrorType_shape: "addErrorType sc c path rd e (S, a, b) = Inr (S', a', b') \<Longrightarrow> sameShape S S'"
  by (auto simp: addErrorType_def Let_def bindE_eq_Inr messageShape_def intro!: setMessage_shape split: option.splits)

lemma buildMethod_shape: "buildMethod sc c path rd S = Inr (m, S') \<Longrightarrow> sameShape S S'"
proof -
  assume "buildMethod sc c path rd S = Inr (m, S')"
  then obtain es st errs where
    "foldE (addErrorType sc c path rd) es (S, \<lambda>_. None, []) = Inr (S', st, errs)"
    by (auto simp: buildMethod_def Let_def bindE_eq_Inr split: prod.splits)
  from foldE_invariant [OF this, of "\<lambda>t. sameShape S (fst t)"] show ?thesis
    by (fastforce dest: addErrorType_shape intro: sameShape_trans)
qed

lemma buildService_shape: "buildService sc c path sd S = Inr (s, S') \<Longrightarrow> sameShape S S'"
  by (auto simp: buildService_def bindE_eq_Inr split: prod.splits intro: eachS_sameShape buildMethod_shape)

lemma fillSource_shape:
  assumes "fillSource opts sc c src S = Inr S'"
  shows "sameShape S S'"
proof -
  obtain i s nodes where src: "src = (i, s, nodes)" by (cases src)
  from assms obtain S1 svs S2 where
    1: "foldE (\<lambda>(m, n). fillMessage opts sc c (srcPath s) m n) (zip (fldMessages (srcAST s)) nodes) S = Inr S1"
    and 2: "eachS (buildService sc c (srcPath s)) (fldServices (srcAST s)) S1 = Inr (svs, S2)"
    and 3: "S' = setFile i (\<lambda>f. f\<lparr>flServices := svs\<rparr>) S2"
    by (auto simp: src fillSource_def bindE_eq_Inr split: prod.splits)
  have "sameShape S S1" by (rule foldE_sameShape [OF 1]) (auto intro: fillMessage_shape)
  also have "sameShape S1 S2" by (rule eachS_sameShape [OF 2]) (rule buildService_shape)
  also have "sameShape S2 S'" unfolding 3 by (rule setFile_shape) (simp add: fileShape_def)
  finally show ?thesis .
qed

subsection \<open>Declaring\<close>

text \<open>Message \<open>r\<close> is declared under the name \<open>n\<close> by a file of directory \<open>d\<close>.\<close>

definition inDir :: "schema \<Rightarrow> fileref option \<Rightarrow> string \<Rightarrow> bool" where
  "inDir S f d \<longleftrightarrow> (\<exists>i < length (schFiles S). f = Some i \<and> pathDir (flPath (schFiles S ! i)) = d)"

definition declaredMsg :: "schema \<Rightarrow> string \<Rightarrow> string \<Rightarrow> mref \<Rightarrow> bool" where
  "declaredMsg S d n r \<longleftrightarrow> r < length (schMessages S) \<and> mName (msgAt S r) = n \<and> inDir S (mFile (msgAt S r)) d"

definition declaredEnum :: "schema \<Rightarrow> string \<Rightarrow> string \<Rightarrow> eref \<Rightarrow> bool" where
  "declaredEnum S d n e \<longleftrightarrow> e < length (schEnums S) \<and> enName (enumAt S e) = n \<and> inDir S (enFile (enumAt S e)) d"

text \<open>The tables hold exactly the declarations, one for a directory and a name.\<close>

definition declTableOk :: "(string \<Rightarrow> string \<Rightarrow> nat option) \<Rightarrow> (string \<Rightarrow> (string \<times> nat) list) \<Rightarrow>
    (string \<Rightarrow> string \<Rightarrow> nat \<Rightarrow> bool) \<Rightarrow> bool" where
  "declTableOk byDir allBy decl \<longleftrightarrow>
     (\<forall>d n r. byDir d n = Some r \<longleftrightarrow> decl d n r) \<and> (\<forall>d n r. (d, r) \<in> set (allBy n) \<longleftrightarrow> decl d n r) \<and>
     (\<forall>n. distinct (map fst (allBy n)))"

lemma declTableOk_insert:
  assumes "declTableOk byDir allBy decl" "byDir d0 n0 = None"
    "\<And>d n x. decl' d n x \<longleftrightarrow> decl d n x \<or> x = r0 \<and> n = n0 \<and> d = d0"
  shows "declTableOk (byDir(d0 := (byDir d0)(n0 \<mapsto> r0))) (allBy(n0 := allBy n0 @ [(d0, r0)])) decl'"
proof -
  have free: "\<not> decl d0 n0 x" for x using assms(1,2) unfolding declTableOk_def by (metis option.discI)
  show ?thesis
    unfolding declTableOk_def assms(3)
    using assms(1) free by (auto simp: declTableOk_def image_iff)
qed

definition tablesOk :: "compiler \<Rightarrow> bool" where
  "tablesOk c \<longleftrightarrow> declTableOk (cMsgByDir c) (cMsgAll c) (declaredMsg (cSchema c)) \<and>
     declTableOk (cEnumByDir c) (cEnumAll c) (declaredEnum (cSchema c))"

definition refsIn :: "schema \<Rightarrow> bool" where
  "refsIn S \<longleftrightarrow>
     (\<forall>r < length (schMessages S). set (mNestedEnums (msgAt S r)) \<subseteq> {..<length (schEnums S)} \<and>
        (\<exists>i < length (schFiles S). mFile (msgAt S r) = Some i)) \<and>
     (\<forall>e < length (schEnums S). \<exists>i < length (schFiles S). enFile (enumAt S e) = Some i) \<and>
     (\<forall>fl \<in> set (schFiles S). set (flMessages fl) \<subseteq> {..<length (schMessages S)} \<and> set (flEnums fl) \<subseteq> {..<length (schEnums S)})"

lemma refsInD:
  assumes "refsIn S"
  shows "r < length (schMessages S) \<Longrightarrow> set (mNestedEnums (msgAt S r)) \<subseteq> {..<length (schEnums S)}"
    and "r < length (schMessages S) \<Longrightarrow> \<exists>i < length (schFiles S). mFile (msgAt S r) = Some i"
    and "e < length (schEnums S) \<Longrightarrow> \<exists>i < length (schFiles S). enFile (enumAt S e) = Some i"
    and "fl \<in> set (schFiles S) \<Longrightarrow> set (flMessages fl) \<subseteq> {..<length (schMessages S)} \<and> set (flEnums fl) \<subseteq> {..<length (schEnums S)}"
  using assms unfolding refsIn_def by blast+

lemma refsInI:
  assumes "\<And>r. r < length (schMessages S) \<Longrightarrow> set (mNestedEnums (msgAt S r)) \<subseteq> {..<length (schEnums S)}"
    and "\<And>r. r < length (schMessages S) \<Longrightarrow> \<exists>i < length (schFiles S). mFile (msgAt S r) = Some i"
    and "\<And>e. e < length (schEnums S) \<Longrightarrow> \<exists>i < length (schFiles S). enFile (enumAt S e) = Some i"
    and "\<And>fl. fl \<in> set (schFiles S) \<Longrightarrow> set (flMessages fl) \<subseteq> {..<length (schMessages S)} \<and> set (flEnums fl) \<subseteq> {..<length (schEnums S)}"
  shows "refsIn S"
  using assms unfolding refsIn_def by blast

definition declOk :: "compiler \<Rightarrow> bool" where
  "declOk c \<longleftrightarrow> nestingOk (cSchema c) \<and> refsIn (cSchema c) \<and> tablesOk c"

definition extends :: "schema \<Rightarrow> schema \<Rightarrow> bool" where
  "extends S S' \<longleftrightarrow> prefix (schMessages S) (schMessages S') \<and> prefix (schEnums S) (schEnums S') \<and> schFiles S' = schFiles S"

lemma extends_refl [simp]: "extends S S"
  by (simp add: extends_def)

lemma extends_trans [trans]: "extends S S' \<Longrightarrow> extends S' S'' \<Longrightarrow> extends S S''"
  by (auto simp: extends_def)

lemma extends_msgAt: "extends S S' \<Longrightarrow> r < length (schMessages S) \<Longrightarrow> msgAt S' r = msgAt S r"
  by (auto simp: extends_def msgAt_def prefix_def nth_append)

lemma extends_enumAt: "extends S S' \<Longrightarrow> e < length (schEnums S) \<Longrightarrow> enumAt S' e = enumAt S e"
  by (auto simp: extends_def enumAt_def prefix_def nth_append)

lemma extends_length:
  "extends S S' \<Longrightarrow> length (schMessages S) \<le> length (schMessages S') \<and> length (schEnums S) \<le> length (schEnums S')"
  by (auto simp: extends_def prefix_length_le)

text \<open>Collecting loops: an invariant, a relation between states, and a fact about each result.\<close>

lemma eachS_ok:
  assumes "eachS f xs s = Inr (rs, t)" "P s"
    and step: "\<And>x s r t. x \<in> set xs \<Longrightarrow> f x s = Inr (r, t) \<Longrightarrow> P s \<Longrightarrow> P t \<and> R s t \<and> Q t x r"
    and refl: "\<And>s. R s s" and trans: "\<And>s t u. R s t \<Longrightarrow> R t u \<Longrightarrow> R s u"
    and stable: "\<And>t u x r. R t u \<Longrightarrow> Q t x r \<Longrightarrow> Q u x r"
  shows "P t \<and> R s t \<and> list_all2 (Q t) xs rs"
  using assms(1,2) step
proof (induction xs arbitrary: s rs)
  case (Cons x xs)
  from Cons.prems(1) obtain r s1 rs' where
    1: "f x s = Inr (r, s1)" "eachS f xs s1 = Inr (rs', t)" "rs = r # rs'" by (auto simp: bindE_eq_Inr)
  from Cons.prems(3) [OF _ 1(1) Cons.prems(2)] have 2: "P s1" "R s s1" "Q s1 x r" by auto
  have "P t \<and> R s1 t \<and> list_all2 (Q t) xs rs'" by (rule Cons.IH [OF 1(2) 2(1)]) (use Cons.prems(3) in auto)
  with 1(3) 2 trans stable show ?case by blast
qed (simp add: refl)

lemma eachS_ranges:
  assumes "eachS f xs s = Inr (rs, t)" "P s"
    and step: "\<And>x s r t. x \<in> set xs \<Longrightarrow> f x s = Inr (r, t) \<Longrightarrow> P s \<Longrightarrow> P t \<and> refs r = [N s..<N t] \<and> N s \<le> (N t :: nat)"
  shows "concat (map refs rs) = [N s..<N t] \<and> N s \<le> N t"
  using assms
proof (induction xs arbitrary: s rs)
  case (Cons x xs)
  from Cons.prems(1) obtain r s1 rs' where
    1: "f x s = Inr (r, s1)" "eachS f xs s1 = Inr (rs', t)" "rs = r # rs'" by (auto simp: bindE_eq_Inr)
  from Cons.prems(3) [OF _ 1(1) Cons.prems(2)] have 2: "P s1" "refs r = [N s..<N s1]" "N s \<le> N s1" by auto
  have "concat (map refs rs') = [N s1..<N t] \<and> N s1 \<le> N t" by (rule Cons.IH [OF 1(2) 2(1)]) (use Cons.prems(3) in auto)
  moreover have "[N s..<N s1] @ [N s1..<N t] = [N s..<N t]" if "N s1 \<le> N t"
    using 2(3) that by (metis le_add_diff_inverse upt_add_eq_append)
  ultimately show ?case using 1(3) 2 by auto
qed simp

fun nodeRefs :: "msgNode \<Rightarrow> mref list" where
  "nodeRefs (MsgNode r ns) = r # concat (map nodeRefs ns)"

text \<open>The node of a declaration refers to a message made from it, and so do the nodes nested in it.\<close>

inductive nodeMatches :: "schema \<Rightarrow> messageDecl \<Rightarrow> msgNode \<Rightarrow> bool" for S where
  "mName (msgAt S r) = name \<Longrightarrow> mDecorators (msgAt S r) = convertDecorators decs \<Longrightarrow>
   mNested (msgAt S r) = map nodeRef ns \<Longrightarrow> list_all2 (nodeMatches S) nested ns \<Longrightarrow>
   nodeMatches S (MessageDecl name doc decs fds nested nestedEn line col) (MsgNode r ns)"
monos list_all2_mono

inductive_simps nodeMatches_iff: "nodeMatches S (MessageDecl name doc decs fds nested nestedEn line col) nd"

lemma nodeMatches_cong:
  "nodeMatches S md nd \<Longrightarrow> \<forall>r \<in> set (nodeRefs nd). messageShape (msgAt S' r) = messageShape (msgAt S r) \<Longrightarrow> nodeMatches S' md nd"
proof (induction md nd rule: nodeMatches.induct)
  case (1 r name decs ns nested doc fds nestedEn line col)
  have e: "messageShape (msgAt S' r) = messageShape (msgAt S r)" using 1(5) by simp
  have "list_all2 (nodeMatches S') nested ns"
    using 1(4) by (rule list.rel_mono_strong) (use 1(5) in auto)
  then show ?case
    by (intro nodeMatches.intros) (simp_all add: messageShape_eq [OF e] 1)
qed

definition isSourceFile :: "compiler \<Rightarrow> fileref \<Rightarrow> string \<Rightarrow> bool" where
  "isSourceFile c i path \<longleftrightarrow> i < length (schFiles (cSchema c)) \<and> flPath (schFiles (cSchema c) ! i) = path"

lemma msgAt_append: "msgAt (S\<lparr>schMessages := schMessages S @ [m]\<rparr>) r = (if r = length (schMessages S) then m else msgAt S r)"
  by (auto simp: msgAt_def nth_append)

lemma enumAt_append: "enumAt (S\<lparr>schEnums := schEnums S @ [e]\<rparr>) r = (if r = length (schEnums S) then e else enumAt S r)"
  by (auto simp: enumAt_def nth_append)

lemma isSourceFile_inDir: "isSourceFile c i path \<Longrightarrow> inDir (cSchema c) (Some i) d \<longleftrightarrow> d = pathDir path"
  by (auto simp: isSourceFile_def inDir_def)

lemma declareHead_ok:
  assumes "declareHead path file parent md c = Inr (r, c')" "declOk c" "isSourceFile c file path"
  shows "declOk c'" "extends (cSchema c) (cSchema c')" "r = length (schMessages (cSchema c))"
    "length (schMessages (cSchema c')) = Suc r" "mName (msgAt (cSchema c') r) = mdName md"
    "mDecorators (msgAt (cSchema c') r) = convertDecorators (mdDecorators md)"
    "mNestedEnums (msgAt (cSchema c') r) = []" "mFields (msgAt (cSchema c') r) = []"
proof -
  let ?S = "cSchema c" and ?d = "pathDir path" and ?n = "mdName md"
  define m where "m = \<lparr>mName = mdName md, mSchemaName = declarationFullName ?S file parent (mdName md),
          mDoc = mdDoc md, mErrorType = False, mFields = [], mNested = [], mNestedEnums = [],
          mDecorators = convertDecorators (mdDecorators md), mFile = Some file, mParent = parent,
          mResponseOnly = False\<rparr>"
  then have m: "mName m = ?n" "mFile m = Some file" "mNested m = []" "mNestedEnums m = []" "mFields m = []"
      "mDecorators m = convertDecorators (mdDecorators md)" by simp_all
  from assms(1) have none: "cMsgByDir c ?d ?n = None"
    and r: "r = length (schMessages ?S)"
    and c': "cSchema c' = ?S\<lparr>schMessages := schMessages ?S @ [m]\<rparr>"
      "cMsgByDir c' = (cMsgByDir c)(?d := (cMsgByDir c ?d)(?n \<mapsto> r))"
      "cMsgAll c' = (cMsgAll c)(?n := cMsgAll c ?n @ [(?d, r)])"
      "cEnumByDir c' = cEnumByDir c" "cEnumAll c' = cEnumAll c"
    by (auto simp: declareHead_def Let_def m_def split: if_splits)
  have at: "msgAt (cSchema c') x = (if x = r then m else msgAt ?S x)" for x by (simp add: c' msgAt_append r)
  have dm: "declaredMsg (cSchema c') d n x \<longleftrightarrow> declaredMsg ?S d n x \<or> x = r \<and> n = ?n \<and> d = ?d" for d n x
  proof -
    have i: "inDir (cSchema c') f d = inDir ?S f d" for f by (simp add: inDir_def c')
    have l: "length (schMessages (cSchema c')) = Suc r" "length (schMessages ?S) = r" by (simp_all add: c' r)
    show ?thesis
    proof (cases "x = r")
      case True
      then show ?thesis using isSourceFile_inDir [OF assms(3), of d] by (simp add: declaredMsg_def at m i l) blast
    next
      case False
      then show ?thesis by (simp add: declaredMsg_def at i l less_Suc_eq)
    qed
  qed
  have de: "declaredEnum (cSchema c') d n x \<longleftrightarrow> declaredEnum ?S d n x" for d n x
    by (simp add: declaredEnum_def c' enumAt_def inDir_def)
  from assms(2) have t: "tablesOk c" by (simp add: declOk_def)
  have "tablesOk c'"
    unfolding tablesOk_def
  proof
    show "declTableOk (cMsgByDir c') (cMsgAll c') (declaredMsg (cSchema c'))"
      unfolding c'(2,3) by (rule declTableOk_insert [where decl = "declaredMsg ?S"]) (use t none dm in \<open>simp_all add: tablesOk_def\<close>)
    have "declaredEnum (cSchema c') = declaredEnum ?S" by (intro ext) (rule de)
    then show "declTableOk (cEnumByDir c') (cEnumAll c') (declaredEnum (cSchema c'))"
      using t by (simp add: c'(4,5) tablesOk_def)
  qed
  moreover have len: "length (schMessages (cSchema c')) = Suc r" "length (schMessages ?S) = r"
      "schEnums (cSchema c') = schEnums ?S" "schFiles (cSchema c') = schFiles ?S" by (simp_all add: c' r)
  moreover have "nestingOk (cSchema c')"
  proof -
    from assms(2) have "nestingOk ?S" by (simp add: declOk_def)
    then have "q < q' \<and> q' < Suc r" if "q < Suc r" "q' \<in> set (mNested (msgAt (cSchema c') q))" for q q'
      using nestingOkD [of ?S q q'] that by (cases "q = r") (simp_all add: at m len)
    then show ?thesis unfolding nestingOk_def len by blast
  qed
  moreover have "refsIn (cSchema c')"
  proof -
    from assms(2,3) have "refsIn ?S" "file < length (schFiles ?S)" by (simp_all add: declOk_def isSourceFile_def)
    note S = refsInD [OF this(1)] and fl = this(2)
    show ?thesis
    proof (rule refsInI)
      fix q assume q: "q < length (schMessages (cSchema c'))"
      show "set (mNestedEnums (msgAt (cSchema c') q)) \<subseteq> {..<length (schEnums (cSchema c'))}"
        using q S(1) [of q] by (cases "q = r") (simp_all add: at m len)
      show "\<exists>i < length (schFiles (cSchema c')). mFile (msgAt (cSchema c') q) = Some i"
        using q S(2) [of q] fl by (cases "q = r") (simp_all add: at m len)
    next
      fix e assume "e < length (schEnums (cSchema c'))"
      then show "\<exists>i < length (schFiles (cSchema c')). enFile (enumAt (cSchema c') e) = Some i"
        using S(3) [of e] by (simp add: c' enumAt_def)
    next
      fix fl assume "fl \<in> set (schFiles (cSchema c'))"
      then show "set (flMessages fl) \<subseteq> {..<length (schMessages (cSchema c'))} \<and> set (flEnums fl) \<subseteq> {..<length (schEnums (cSchema c'))}"
        using S(4) [of fl] unfolding len by auto
    qed
  qed
  ultimately show "declOk c'" by (simp add: declOk_def)
  show "extends ?S (cSchema c')" by (simp add: extends_def c')
  show "r = length (schMessages ?S)" "length (schMessages (cSchema c')) = Suc r" by (simp_all add: r c')
  show "mName (msgAt (cSchema c') r) = ?n" "mDecorators (msgAt (cSchema c') r) = convertDecorators (mdDecorators md)"
    "mNestedEnums (msgAt (cSchema c') r) = []" "mFields (msgAt (cSchema c') r) = []"
    by (simp_all add: at m)
qed

lemma declareEnum_ok:
  assumes "declareEnum path file parent ed c = Inr (e, c')" "declOk c" "isSourceFile c file path"
  shows "declOk c'" "extends (cSchema c) (cSchema c')" "e = length (schEnums (cSchema c))"
    "e < length (schEnums (cSchema c'))" "schMessages (cSchema c') = schMessages (cSchema c)"
    "enumAt (cSchema c') e = \<lparr>enName = edName ed, enSchemaName = declarationFullName (cSchema c) file parent (edName ed),
          enDoc = edDoc ed, enValues = enumValuesOf ed, enFile = Some file, enParent = parent\<rparr>"
proof -
  let ?S = "cSchema c" and ?d = "pathDir path" and ?n = "edName ed"
  let ?m = "\<lparr>enName = edName ed, enSchemaName = declarationFullName ?S file parent (edName ed),
          enDoc = edDoc ed, enValues = enumValuesOf ed, enFile = Some file, enParent = parent\<rparr>"
  from assms(1) have none: "cEnumByDir c ?d ?n = None" and e: "e = length (schEnums ?S)"
    and c': "cSchema c' = ?S\<lparr>schEnums := schEnums ?S @ [?m]\<rparr>"
      "cEnumByDir c' = (cEnumByDir c)(?d := (cEnumByDir c ?d)(?n \<mapsto> e))"
      "cEnumAll c' = (cEnumAll c)(?n := cEnumAll c ?n @ [(?d, e)])"
      "cMsgByDir c' = cMsgByDir c" "cMsgAll c' = cMsgAll c"
    by (auto simp: declareEnum_def Let_def split: if_splits)
  have at: "enumAt (cSchema c') x = (if x = e then ?m else enumAt ?S x)" for x by (simp add: c' enumAt_append e)
  have ms: "msgAt (cSchema c') x = msgAt ?S x" for x by (simp add: c' msgAt_def)
  have de: "declaredEnum (cSchema c') d n x \<longleftrightarrow> declaredEnum ?S d n x \<or> x = e \<and> n = ?n \<and> d = ?d" for d n x
  proof -
    have i: "inDir (cSchema c') f d = inDir ?S f d" for f by (simp add: inDir_def c')
    have l: "length (schEnums (cSchema c')) = Suc e" "length (schEnums ?S) = e" by (simp_all add: c' e)
    show ?thesis
    proof (cases "x = e")
      case True
      then show ?thesis using isSourceFile_inDir [OF assms(3), of d] by (simp add: declaredEnum_def at i l) blast
    next
      case False
      then show ?thesis by (simp add: declaredEnum_def at i l less_Suc_eq)
    qed
  qed
  have dm: "declaredMsg (cSchema c') d n x \<longleftrightarrow> declaredMsg ?S d n x" for d n x
    by (simp add: declaredMsg_def c' msgAt_def inDir_def)
  from assms(2) have t: "tablesOk c" by (simp add: declOk_def)
  have "tablesOk c'"
    unfolding tablesOk_def
  proof
    show "declTableOk (cEnumByDir c') (cEnumAll c') (declaredEnum (cSchema c'))"
      unfolding c'(2,3) by (rule declTableOk_insert [where decl = "declaredEnum ?S"]) (use t none de in \<open>simp_all add: tablesOk_def\<close>)
    have "declaredMsg (cSchema c') = declaredMsg ?S" by (intro ext) (rule dm)
    then show "declTableOk (cMsgByDir c') (cMsgAll c') (declaredMsg (cSchema c'))"
      using t by (simp add: c'(4,5) tablesOk_def)
  qed
  moreover have len: "length (schEnums (cSchema c')) = Suc e" "length (schEnums ?S) = e"
      "schMessages (cSchema c') = schMessages ?S" "schFiles (cSchema c') = schFiles ?S" by (simp_all add: c' e)
  moreover have "nestingOk (cSchema c')"
  proof -
    from assms(2) have "nestingOk ?S" by (simp add: declOk_def)
    then show ?thesis unfolding nestingOk_def len ms .
  qed
  moreover have "refsIn (cSchema c')"
  proof -
    from assms(2,3) have "refsIn ?S" "file < length (schFiles ?S)" by (simp_all add: declOk_def isSourceFile_def)
    note S = refsInD [OF this(1)] and fl = this(2)
    show ?thesis
    proof (rule refsInI)
      fix q assume "q < length (schMessages (cSchema c'))"
      then show "set (mNestedEnums (msgAt (cSchema c') q)) \<subseteq> {..<length (schEnums (cSchema c'))}"
        "\<exists>i < length (schFiles (cSchema c')). mFile (msgAt (cSchema c') q) = Some i"
        using S(1,2) [of q] unfolding len ms by auto
    next
      fix x assume "x < length (schEnums (cSchema c'))"
      then show "\<exists>i < length (schFiles (cSchema c')). enFile (enumAt (cSchema c') x) = Some i"
        using S(3) [of x] fl by (cases "x = e") (simp_all add: at len)
    next
      fix fl assume "fl \<in> set (schFiles (cSchema c'))"
      then show "set (flMessages fl) \<subseteq> {..<length (schMessages (cSchema c'))} \<and> set (flEnums fl) \<subseteq> {..<length (schEnums (cSchema c'))}"
        using S(4) [of fl] unfolding len by auto
    qed
  qed
  ultimately show "declOk c'" by (simp add: declOk_def)
  show "extends ?S (cSchema c')" "e = length (schEnums ?S)" "e < length (schEnums (cSchema c'))"
      "schMessages (cSchema c') = schMessages ?S"
    by (simp_all add: extends_def c' e)
  show "enumAt (cSchema c') e = ?m" by (simp add: at)
qed


text \<open>One invariant of the whole recursion: the schema grows, and a node's references are the new messages in order.\<close>

lemma isSourceFile_extends: "extends (cSchema c) (cSchema c') \<Longrightarrow> isSourceFile c i path \<Longrightarrow> isSourceFile c' i path"
  by (simp add: extends_def isSourceFile_def)

lemma declareEnums_ok:
  assumes "eachS (declareEnum path file parent) eds c = Inr (es, c')" "declOk c" "isSourceFile c file path"
  shows "declOk c'" "extends (cSchema c) (cSchema c')" "schMessages (cSchema c') = schMessages (cSchema c)"
    "set es \<subseteq> {..<length (schEnums (cSchema c'))}" "list_all2 (\<lambda>ed e. enValues (enumAt (cSchema c') e) = enumValuesOf ed) eds es"
proof -
  let ?R = "\<lambda>c c'. extends (cSchema c) (cSchema c') \<and> schMessages (cSchema c') = schMessages (cSchema c)"
  let ?Q = "\<lambda>t ed e. e < length (schEnums (cSchema t)) \<and> enValues (enumAt (cSchema t) e) = enumValuesOf ed"
  have "(declOk c' \<and> isSourceFile c' file path) \<and> ?R c c' \<and> list_all2 (?Q c') eds es"
  proof (rule eachS_ok [OF assms(1), of "\<lambda>c. declOk c \<and> isSourceFile c file path"])
    fix x s r t
    assume "declareEnum path file parent x s = Inr (r, t)" and s: "declOk s \<and> isSourceFile s file path"
    note d = declareEnum_ok [OF this(1) s [THEN conjunct1] s [THEN conjunct2]]
    show "(declOk t \<and> isSourceFile t file path) \<and> ?R s t \<and> ?Q t x r"
      using d isSourceFile_extends [OF d(2)] s by simp
  next
    fix t u x r assume "?R t u" "?Q t x r"
    then show "?Q u x r" using extends_length [of "cSchema t" "cSchema u"] by (auto simp: extends_enumAt)
  qed (use assms(2,3) in \<open>auto intro: extends_trans\<close>)
  then show "declOk c'" "extends (cSchema c) (cSchema c')" "schMessages (cSchema c') = schMessages (cSchema c)"
    "set es \<subseteq> {..<length (schEnums (cSchema c'))}" "list_all2 (\<lambda>ed e. enValues (enumAt (cSchema c') e) = enumValuesOf ed) eds es"
    by (auto simp: list_all2_conv_all_nth in_set_conv_nth)
qed


text \<open>The enums of a message, in the order they are declared.\<close>

fun enumDeclsIn :: "messageDecl \<Rightarrow> enumDecl list" where
  "enumDeclsIn (MessageDecl name doc decs fds nested nestedEn line col) = concat (map enumDeclsIn nested) @ nestedEn"

definition allValues :: "schema \<Rightarrow> enumValue list list" where
  "allValues S = map enValues (schEnums S)"

lemma declareEnums_values:
  "eachS (declareEnum path file parent) eds c = Inr (es, c') \<Longrightarrow>
     allValues (cSchema c') = allValues (cSchema c) @ map enumValuesOf eds"
proof (induction eds arbitrary: c es)
  case (Cons ed eds)
  then obtain e c1 es' where "declareEnum path file parent ed c = Inr (e, c1)"
      "eachS (declareEnum path file parent) eds c1 = Inr (es', c')"
    by (auto simp: bindE_eq_Inr)
  with Cons.IH [OF this(2)] show ?case by (auto simp: declareEnum_def Let_def allValues_def split: if_splits)
qed simp

lemma length_setMessage [simp]: "length (schMessages (setMessage r f S)) = length (schMessages S)"
  by (simp add: setMessage_def)

lemma setMessage_simps [simp]: "schEnums (setMessage r f S) = schEnums S" "schFiles (setMessage r f S) = schFiles S"
  "enumAt (setMessage r f S) = enumAt S"
  by (simp_all add: setMessage_def enumAt_def fun_eq_iff)

lemma msgAt_setMessage: "r < length (schMessages S) \<Longrightarrow> msgAt (setMessage r f S) x = (if x = r then f (msgAt S r) else msgAt S x)"
  by (auto simp: setMessage_def msgAt_def)

lemma setNested_ok:
  assumes "declOk c" and r: "r < length (schMessages (cSchema c))"
    and ns: "\<forall>x \<in> set ns. r < x \<and> x < length (schMessages (cSchema c))" and es: "set es \<subseteq> {..<length (schEnums (cSchema c))}"
  shows "declOk (c\<lparr>cSchema := setMessage r (\<lambda>m. m\<lparr>mNested := ns, mNestedEnums := es\<rparr>) (cSchema c)\<rparr>)"
proof -
  let ?S = "cSchema c" and ?S' = "setMessage r (\<lambda>m. m\<lparr>mNested := ns, mNestedEnums := es\<rparr>) (cSchema c)"
  note at = msgAt_setMessage [OF r]
  have "declaredMsg ?S' = declaredMsg ?S"
    by (intro ext) (auto simp: declaredMsg_def at inDir_def)
  moreover have "declaredEnum ?S' = declaredEnum ?S"
    by (intro ext) (simp add: declaredEnum_def inDir_def)
  moreover have "nestingOk ?S'"
  proof -
    have "nestingOk ?S" using assms(1) by (simp add: declOk_def)
    have "q < q' \<and> q' < length (schMessages ?S)"
      if "q < length (schMessages ?S)" "q' \<in> set (mNested (msgAt ?S' q))" for q q'
    proof (cases "q = r")
      case True
      then have "q' \<in> set ns" using that(2) by (simp add: at)
      with True ns show ?thesis by blast
    next
      case False
      then have "q' \<in> set (mNested (msgAt ?S q))" using that(2) by (simp add: at)
      with \<open>nestingOk ?S\<close> that(1) show ?thesis using nestingOkD by blast
    qed
    then show ?thesis unfolding nestingOk_def length_setMessage by blast
  qed
  moreover have "refsIn ?S'"
  proof -
    have "refsIn ?S" using assms(1) by (simp add: declOk_def)
    then show ?thesis using es r unfolding refsIn_def at length_setMessage setMessage_simps by simp
  qed
  ultimately show ?thesis using assms(1) by (simp add: declOk_def tablesOk_def)
qed

lemma nodeRef_in: "nodeRef nd \<in> set (nodeRefs nd)"
  by (cases nd) simp

definition messageCount :: "compiler \<Rightarrow> nat" where
  "messageCount c = length (schMessages (cSchema c))"

text \<open>What declaring a message, or the messages of a list, achieves.\<close>

definition declared :: "compiler \<Rightarrow> compiler \<Rightarrow> messageDecl \<Rightarrow> msgNode \<Rightarrow> bool" where
  "declared c c' md nd \<longleftrightarrow> declOk c' \<and> extends (cSchema c) (cSchema c') \<and> nodeMatches (cSchema c') md nd \<and>
     nodeRefs nd = [messageCount c..<messageCount c'] \<and>
     allValues (cSchema c') = allValues (cSchema c) @ map enumValuesOf (enumDeclsIn md)"

lemma extends_count: "extends (cSchema c) (cSchema c') \<Longrightarrow> messageCount c \<le> messageCount c'"
  using extends_length by (simp add: messageCount_def)

lemma declareMessages_ok:
  assumes run: "eachS (declareMessage path file parent) mds c = Inr (nds, c')" and "declOk c" "isSourceFile c file path"
    and each: "\<And>md c nd c'. md \<in> set mds \<Longrightarrow> declareMessage path file parent md c = Inr (nd, c') \<Longrightarrow> declOk c \<Longrightarrow>
      isSourceFile c file path \<Longrightarrow> declared c c' md nd"
  shows "declOk c'" "extends (cSchema c) (cSchema c')" "list_all2 (nodeMatches (cSchema c')) mds nds"
    "concat (map nodeRefs nds) = [messageCount c..<messageCount c']"
    "allValues (cSchema c') = allValues (cSchema c) @ map enumValuesOf (concat (map enumDeclsIn mds))"
proof -
  let ?P = "\<lambda>c. declOk c \<and> isSourceFile c file path"
  let ?Q = "\<lambda>t md nd. nodeMatches (cSchema t) md nd \<and> set (nodeRefs nd) \<subseteq> {..<messageCount t}"
  have step: "?P t \<and> extends (cSchema s) (cSchema t) \<and> ?Q t md nd \<and> nodeRefs nd = [messageCount s..<messageCount t] \<and>
      messageCount s \<le> messageCount t"
    if "md \<in> set mds" "declareMessage path file parent md s = Inr (nd, t)" "?P s" for md s nd t
    using each [OF that(1,2)] that(3) isSourceFile_extends [of s t] extends_count [of s t] by (auto simp: declared_def)
  have "?P c' \<and> extends (cSchema c) (cSchema c') \<and> list_all2 (?Q c') mds nds"
  proof (rule eachS_ok [OF run, of ?P])
    fix t u :: compiler and md nd assume e: "extends (cSchema t) (cSchema u)" and q: "?Q t md nd"
    from q have "msgAt (cSchema u) r = msgAt (cSchema t) r" if "r \<in> set (nodeRefs nd)" for r
      using extends_msgAt [OF e] that by (auto simp: messageCount_def)
    with q have "nodeMatches (cSchema u) md nd" by (auto intro: nodeMatches_cong)
    with q extends_count [OF e] show "?Q u md nd" by auto
  qed (use assms(2,3) step in \<open>auto intro: extends_trans\<close>)
  then show "declOk c'" "extends (cSchema c) (cSchema c')" "list_all2 (nodeMatches (cSchema c')) mds nds"
    by (auto elim: list.rel_mono_strong)
  show "concat (map nodeRefs nds) = [messageCount c..<messageCount c']"
    by (rule eachS_ranges [OF run, of ?P, THEN conjunct1]) (use assms(2,3) step in blast)+
  show "allValues (cSchema c') = allValues (cSchema c) @ map enumValuesOf (concat (map enumDeclsIn mds))"
    using run assms(2,3) each
  proof (induction mds arbitrary: c nds)
    case (Cons md mds)
    from Cons.prems(1) obtain nd c1 nds' where 1: "declareMessage path file parent md c = Inr (nd, c1)"
        "eachS (declareMessage path file parent) mds c1 = Inr (nds', c')"
      by (auto simp: bindE_eq_Inr)
    have d: "declared c c1 md nd" using Cons.prems(4) [OF _ 1(1)] Cons.prems(2,3) by simp
    have "allValues (cSchema c') = allValues (cSchema c1) @ map enumValuesOf (concat (map enumDeclsIn mds))"
    proof (rule Cons.IH [OF 1(2)])
      show "declOk c1" "isSourceFile c1 file path"
        using d isSourceFile_extends [of c c1] Cons.prems(3) by (auto simp: declared_def)
    qed (rule Cons.prems(4), simp_all)
    with d show ?case by (simp add: declared_def)
  qed simp
qed


lemma declareMessage_ok:
  "declareMessage path file parent md c = Inr (nd, c') \<Longrightarrow> declOk c \<Longrightarrow> isSourceFile c file path \<Longrightarrow> declared c c' md nd"
proof (induction md arbitrary: parent c nd c')
  case (MessageDecl name doc decs fds nested nestedEn line col)
  let ?md = "MessageDecl name doc decs fds nested nestedEn line col"
  from MessageDecl.prems(1) obtain r c1 nodes c2 es c3 where
    1: "declareHead path file parent ?md c = Inr (r, c1)"
    and 2: "eachS (declareMessage path file (Some r)) nested c1 = Inr (nodes, c2)"
    and 3: "eachS (declareEnum path file (Some r)) nestedEn c2 = Inr (es, c3)"
    and 4: "nd = MsgNode r nodes" "c' = c3\<lparr>cSchema := setMessage r (\<lambda>m. m\<lparr>mNested := map nodeRef nodes, mNestedEnums := es\<rparr>) (cSchema c3)\<rparr>"
    by (auto simp: bindE_eq_Inr)
  note h = declareHead_ok [OF 1 MessageDecl.prems(2,3)]
  note f1 = isSourceFile_extends [OF h(2) MessageDecl.prems(3)]
  note ms = declareMessages_ok [OF 2 h(1) f1 MessageDecl.IH]
  note f2 = isSourceFile_extends [OF ms(2) f1]
  note en = declareEnums_ok [OF 3 ms(1) f2]
  have all: "extends (cSchema c1) (cSchema c3)" using ms(2) en(2) by (rule extends_trans)
  have cnt: "messageCount c = r" "messageCount c1 = Suc r" "messageCount c3 = messageCount c2" "messageCount c' = messageCount c3"
    using h(3,4) en(3) by (simp_all add: messageCount_def 4)
  have le: "Suc r \<le> messageCount c3" using extends_count [OF all] cnt by simp
  then have r: "r < length (schMessages (cSchema c3))" by (simp add: messageCount_def)
  note at = msgAt_setMessage [OF r]
  have r3: "msgAt (cSchema c3) r = msgAt (cSchema c1) r" using extends_msgAt [OF all] h(4) by simp
  have refs: "concat (map nodeRefs nodes) = [Suc r..<messageCount c3]" using ms(4) cnt by simp
  have ns: "\<forall>x \<in> set (map nodeRef nodes). r < x \<and> x < length (schMessages (cSchema c3))"
  proof
    fix x assume "x \<in> set (map nodeRef nodes)"
    then have "x \<in> set (concat (map nodeRefs nodes))" using nodeRef_in by auto
    then show "r < x \<and> x < length (schMessages (cSchema c3))" unfolding refs by (simp add: messageCount_def)
  qed
  have "declOk c'" unfolding 4 by (rule setNested_ok [OF en(1) r ns en(4)])
  moreover have "extends (cSchema c) (cSchema c')"
  proof -
    have "extends (cSchema c) (cSchema c3)" using h(2) all by (rule extends_trans)
    moreover have "prefix (schMessages (cSchema c)) ((schMessages (cSchema c3))[r := m])" for m
      using calculation h(3) by (auto simp: extends_def prefix_def list_update_append)
    ultimately show ?thesis by (simp add: extends_def 4 setMessage_def)
  qed
  moreover have "nodeMatches (cSchema c') ?md nd"
    unfolding 4
  proof (rule nodeMatches.intros)
    let ?S = "cSchema (c3\<lparr>cSchema := setMessage r (\<lambda>m. m\<lparr>mNested := map nodeRef nodes, mNestedEnums := es\<rparr>) (cSchema c3)\<rparr>)"
    show "list_all2 (nodeMatches ?S) nested nodes" using ms(3)
    proof (rule list.rel_mono_strong)
      fix x y assume xy: "y \<in> set nodes" "nodeMatches (cSchema c2) x y"
      have "msgAt ?S q = msgAt (cSchema c2) q" if "q \<in> set (nodeRefs y)" for q
      proof -
        from that xy(1) have "q \<in> set (concat (map nodeRefs nodes))" by auto
        then have "q \<noteq> r" unfolding refs by auto
        then show ?thesis by (simp add: at) (simp add: msgAt_def en(3))
      qed
      then show "nodeMatches ?S x y" by (intro nodeMatches_cong [OF xy(2)]) simp
    qed
  qed (use h(5,6) in \<open>simp_all add: at r3\<close>)
  moreover have "nodeRefs nd = [messageCount c..<messageCount c']"
    using refs cnt le by (simp add: 4 upt_rec [of r])
  moreover have "allValues (cSchema c') = allValues (cSchema c) @ map enumValuesOf (enumDeclsIn ?md)"
    using ms(5) declareEnums_values [OF 3] 1 by (auto simp: 4 allValues_def declareHead_def Let_def split: if_splits)
  ultimately show ?case by (simp add: declared_def)
qed


lemma declareMessages_all:
  assumes "eachS (declareMessage path file parent) mds c = Inr (nds, c')" "declOk c" "isSourceFile c file path"
  shows "declOk c'" "extends (cSchema c) (cSchema c')" "list_all2 (nodeMatches (cSchema c')) mds nds"
    "concat (map nodeRefs nds) = [messageCount c..<messageCount c']"
    "allValues (cSchema c') = allValues (cSchema c) @ map enumValuesOf (concat (map enumDeclsIn mds))"
  by (rule declareMessages_ok [OF assms], rule declareMessage_ok, assumption+)+

subsection \<open>Declaring the sources\<close>

definition schemaGrows :: "schema \<Rightarrow> schema \<Rightarrow> bool" where
  "schemaGrows S S' \<longleftrightarrow> prefix (schMessages S) (schMessages S') \<and> prefix (schEnums S) (schEnums S') \<and> prefix (schFiles S) (schFiles S')"

lemma grows_msgAt: "schemaGrows S S' \<Longrightarrow> r < length (schMessages S) \<Longrightarrow> msgAt S' r = msgAt S r"
  by (auto simp: schemaGrows_def msgAt_def prefix_def nth_append)

lemma addFile_ok:
  assumes "declOk c" "flMessages f = []" "flEnums f = []"
  shows "declOk (c\<lparr>cSchema := (cSchema c)\<lparr>schFiles := schFiles (cSchema c) @ [f]\<rparr>\<rparr>)"
proof -
  let ?S = "cSchema c" and ?S' = "(cSchema c)\<lparr>schFiles := schFiles (cSchema c) @ [f]\<rparr>"
  have m: "msgAt ?S' = msgAt ?S" and e: "enumAt ?S' = enumAt ?S" by (simp_all add: msgAt_def enumAt_def fun_eq_iff)
  have S: "refsIn ?S" "tablesOk c" "nestingOk ?S" using assms(1) by (simp_all add: declOk_def)
  have d: "inDir ?S' (Some i) d = inDir ?S (Some i) d" if "i < length (schFiles ?S)" for i d
    using that by (auto simp: inDir_def nth_append)
  have "declaredMsg ?S' x n r \<longleftrightarrow> declaredMsg ?S x n r" for x n r
    using refsInD(2) [OF S(1), of r] d by (auto simp: declaredMsg_def m)
  then have "declaredMsg ?S' = declaredMsg ?S" by (intro ext)
  moreover have "declaredEnum ?S' x n r \<longleftrightarrow> declaredEnum ?S x n r" for x n r
    using refsInD(3) [OF S(1), of r] d by (auto simp: declaredEnum_def e)
  then have "declaredEnum ?S' = declaredEnum ?S" by (intro ext)
  moreover have "refsIn ?S'"
  proof (rule refsInI)
    fix r assume "r < length (schMessages ?S')"
    then show "set (mNestedEnums (msgAt ?S' r)) \<subseteq> {..<length (schEnums ?S')}"
      "\<exists>i < length (schFiles ?S'). mFile (msgAt ?S' r) = Some i"
      using refsInD(1,2) [OF S(1), of r] by (auto simp: m intro: less_SucI)
  next
    fix x assume "x < length (schEnums ?S')"
    then show "\<exists>i < length (schFiles ?S'). enFile (enumAt ?S' x) = Some i"
      using refsInD(3) [OF S(1), of x] by (auto simp: e intro: less_SucI)
  next
    fix fl assume "fl \<in> set (schFiles ?S')"
    then have "fl = f \<or> fl \<in> set (schFiles ?S)" by simp
    then show "set (flMessages fl) \<subseteq> {..<length (schMessages ?S')} \<and> set (flEnums fl) \<subseteq> {..<length (schEnums ?S')}"
      using refsInD(4) [OF S(1), of fl] assms(2,3) by (elim disjE) simp_all
  qed
  moreover have l: "schMessages ?S' = schMessages ?S" by simp
  have "nestingOk ?S'" using S(3) unfolding nestingOk_def m l .
  ultimately show ?thesis using S(2) by (simp add: declOk_def tablesOk_def)
qed

lemma setFile_ok:
  assumes "declOk c" "set ms \<subseteq> {..<length (schMessages (cSchema c))}" "set es \<subseteq> {..<length (schEnums (cSchema c))}"
  shows "declOk (c\<lparr>cSchema := setFile i (\<lambda>f. f\<lparr>flMessages := ms, flEnums := es\<rparr>) (cSchema c)\<rparr>)"
proof -
  let ?S = "cSchema c" and ?S' = "setFile i (\<lambda>f. f\<lparr>flMessages := ms, flEnums := es\<rparr>) (cSchema c)"
  have m: "msgAt ?S' = msgAt ?S" and e: "enumAt ?S' = enumAt ?S" by (simp_all add: setFile_def msgAt_def enumAt_def fun_eq_iff)
  have S: "refsIn ?S" "tablesOk c" "nestingOk ?S" using assms(1) by (simp_all add: declOk_def)
  have l: "schMessages ?S' = schMessages ?S" "schEnums ?S' = schEnums ?S" "length (schFiles ?S') = length (schFiles ?S)"
    by (simp_all add: setFile_def)
  have "flPath (schFiles ?S' ! j) = flPath (schFiles ?S ! j)" if "j < length (schFiles ?S)" for j
    using that by (cases "j = i") (auto simp: setFile_def)
  then have d: "inDir ?S' f d = inDir ?S f d" for f d unfolding inDir_def l by metis
  have "declaredMsg ?S' = declaredMsg ?S" by (intro ext) (simp add: declaredMsg_def m l d)
  moreover have "declaredEnum ?S' = declaredEnum ?S" by (intro ext) (simp add: declaredEnum_def e l d)
  moreover have "refsIn ?S'"
  proof (rule refsInI)
    fix fl assume "fl \<in> set (schFiles ?S')"
    then have "fl \<in> insert ((schFiles ?S ! i)\<lparr>flMessages := ms, flEnums := es\<rparr>) (set (schFiles ?S))"
      unfolding setFile_def by simp (rule subsetD [OF set_update_subset_insert, simplified])
    then have "fl \<in> set (schFiles ?S) \<or> flMessages fl = ms \<and> flEnums fl = es" by auto
    then show "set (flMessages fl) \<subseteq> {..<length (schMessages ?S')} \<and> set (flEnums fl) \<subseteq> {..<length (schEnums ?S')}"
      using refsInD(4) [OF S(1), of fl] assms(2,3) unfolding l by blast
  next
    fix r assume "r < length (schMessages ?S')"
    then show "set (mNestedEnums (msgAt ?S' r)) \<subseteq> {..<length (schEnums ?S')}"
      "\<exists>i < length (schFiles ?S'). mFile (msgAt ?S' r) = Some i"
      unfolding l m by (rule refsInD(1) [OF S(1)], rule refsInD(2) [OF S(1)])
  next
    fix x assume "x < length (schEnums ?S')"
    then show "\<exists>i < length (schFiles ?S'). enFile (enumAt ?S' x) = Some i"
      unfolding l e by (rule refsInD(3) [OF S(1)])
  qed
  moreover have "nestingOk ?S'" using S(3) unfolding nestingOk_def m l .
  ultimately show ?thesis using S(2) by (simp add: declOk_def tablesOk_def)
qed

definition declaredSource :: "compiler \<Rightarrow> compiler \<Rightarrow> source \<Rightarrow> msgNode list \<Rightarrow> bool" where
  "declaredSource c c' s nds \<longleftrightarrow> declOk c' \<and> schemaGrows (cSchema c) (cSchema c') \<and>
     list_all2 (nodeMatches (cSchema c')) (fldMessages (srcAST s)) nds \<and>
     concat (map nodeRefs nds) = [messageCount c..<messageCount c'] \<and>
     allValues (cSchema c') = allValues (cSchema c) @ map enumValuesOf (concat (map enumDeclsIn (fldMessages (srcAST s))) @ fldEnums (srcAST s)) \<and>
     (\<exists>es. schFiles (cSchema c') = schFiles (cSchema c) @ [\<lparr>flPath = srcPath s, flPackage = fldPackage (srcAST s),
            flImports = fldImports (srcAST s), flMessages = map nodeRef nds, flEnums = es, flServices = []\<rparr>])"

lemma declareSource_ok:
  assumes "declareSource s c = Inr (nds, c')" "declOk c"
  shows "declaredSource c c' s nds"
proof -
  let ?i = "length (schFiles (cSchema c))" and ?ast = "srcAST s"
  let ?f = "\<lparr>flPath = srcPath s, flPackage = fldPackage ?ast, flImports = fldImports ?ast, flMessages = [], flEnums = [], flServices = []\<rparr>"
  define c0 where "c0 = c\<lparr>cSchema := (cSchema c)\<lparr>schFiles := schFiles (cSchema c) @ [?f]\<rparr>\<rparr>"
  from assms(1) obtain c1 es c2 where
    1: "eachS (declareMessage (srcPath s) ?i None) (fldMessages ?ast) c0 = Inr (nds, c1)"
    and 2: "eachS (declareEnum (srcPath s) ?i None) (fldEnums ?ast) c1 = Inr (es, c2)"
    and 3: "c' = c2\<lparr>cSchema := setFile ?i (\<lambda>f. f\<lparr>flMessages := map nodeRef nds, flEnums := es\<rparr>) (cSchema c2)\<rparr>"
    by (auto simp: declareSource_def Let_def c0_def bindE_eq_Inr)
  have d0: "declOk c0" unfolding c0_def by (rule addFile_ok [OF assms(2)]) simp_all
  have f0: "isSourceFile c0 ?i (srcPath s)" by (simp add: isSourceFile_def c0_def)
  note ms = declareMessages_all [OF 1 d0 f0]
  note en = declareEnums_ok [OF 2 ms(1) isSourceFile_extends [OF ms(2) f0]]
  have e: "extends (cSchema c0) (cSchema c2)" using ms(2) en(2) by (rule extends_trans)
  have cnt: "messageCount c0 = messageCount c" "messageCount c' = messageCount c2" "messageCount c2 = messageCount c1"
    using en(3) by (simp_all add: messageCount_def c0_def 3 setFile_def)
  have "set (map nodeRef nds) \<subseteq> {..<length (schMessages (cSchema c2))}"
  proof
    fix x assume "x \<in> set (map nodeRef nds)"
    then have "x \<in> set (concat (map nodeRefs nds))" using nodeRef_in by auto
    then have "x \<in> set [messageCount c0..<messageCount c1]" unfolding ms(4) .
    then have "x < messageCount c2" using cnt by simp
    then show "x \<in> {..<length (schMessages (cSchema c2))}" by (simp add: messageCount_def)
  qed
  then have "declOk c'" unfolding 3 by (rule setFile_ok [OF en(1) _ en(4)])
  moreover have "schemaGrows (cSchema c) (cSchema c')"
    using e by (auto simp: schemaGrows_def extends_def c0_def 3 setFile_def list_update_append)
  moreover have "list_all2 (nodeMatches (cSchema c')) (fldMessages ?ast) nds"
  proof -
    have "msgAt (cSchema c') r = msgAt (cSchema c1) r" for r by (simp add: 3 setFile_def msgAt_def en(3))
    then have "nodeMatches (cSchema c') x y" if "nodeMatches (cSchema c1) x y" for x y
      using that by (auto intro: nodeMatches_cong)
    then show ?thesis using ms(3) by (auto elim: list.rel_mono_strong)
  qed
  moreover have "allValues (cSchema c') = allValues (cSchema c) @ map enumValuesOf (concat (map enumDeclsIn (fldMessages ?ast)) @ fldEnums ?ast)"
    using ms(5) declareEnums_values [OF 2] by (simp add: 3 setFile_def allValues_def c0_def)
  moreover have "schFiles (cSchema c') = schFiles (cSchema c) @ [\<lparr>flPath = srcPath s, flPackage = fldPackage ?ast,
      flImports = fldImports ?ast, flMessages = map nodeRef nds, flEnums = es, flServices = []\<rparr>]"
    using e by (simp add: extends_def c0_def 3 setFile_def list_update_append nth_append)
  ultimately show ?thesis using ms(4) cnt unfolding declaredSource_def by auto
qed


lemma schemaGrows_refl [simp]: "schemaGrows S S"
  by (simp add: schemaGrows_def)

lemma schemaGrows_trans [trans]: "schemaGrows S S' \<Longrightarrow> schemaGrows S' S'' \<Longrightarrow> schemaGrows S S''"
  by (auto simp: schemaGrows_def)

lemma grows_count: "schemaGrows (cSchema c) (cSchema c') \<Longrightarrow> messageCount c \<le> messageCount c'"
  by (auto simp: schemaGrows_def messageCount_def prefix_length_le)

lemma emptyCompiler_ok: "declOk emptyCompiler"
  by (simp add: declOk_def emptyCompiler_def nestingOk_def refsIn_def tablesOk_def declTableOk_def declaredMsg_def declaredEnum_def)

text \<open>Every message node of the forest is the message of its declaration, and every message has one.\<close>

definition forestMatches :: "schema \<Rightarrow> source list \<Rightarrow> msgNode list list \<Rightarrow> bool" where
  "forestMatches S sources forest \<longleftrightarrow>
     list_all2 (\<lambda>s nds. list_all2 (nodeMatches S) (fldMessages (srcAST s)) nds) sources forest \<and>
     concat (map nodeRefs (concat forest)) = [0..<length (schMessages S)]"

definition enumDeclsOf :: "source list \<Rightarrow> enumDecl list" where
  "enumDeclsOf sources = concat (map (\<lambda>s. concat (map enumDeclsIn (fldMessages (srcAST s))) @ fldEnums (srcAST s)) sources)"

definition fileOf :: "schemaFile \<Rightarrow> source \<Rightarrow> msgNode list \<Rightarrow> bool" where
  "fileOf f s nds \<longleftrightarrow> flPath f = srcPath s \<and> flPackage f = fldPackage (srcAST s) \<and> flImports f = fldImports (srcAST s) \<and>
     flMessages f = map nodeRef nds \<and> flServices f = []"

lemma nodeRefs_concat: "concat (map nodeRefs (concat ndss)) = concat (map (\<lambda>nds. concat (map nodeRefs nds)) ndss)"
  by (induction ndss) simp_all

lemma declareSources_step:
  assumes "eachS declareSource sources c = Inr (forest, c')" "declOk c"
  shows "declOk c'" "schemaGrows (cSchema c) (cSchema c')"
    "list_all2 (\<lambda>s nds. list_all2 (nodeMatches (cSchema c')) (fldMessages (srcAST s)) nds) sources forest"
    "concat (map nodeRefs (concat forest)) = [messageCount c..<messageCount c']"
    "allValues (cSchema c') = allValues (cSchema c) @ map enumValuesOf (enumDeclsOf sources)"
    "\<exists>fs. schFiles (cSchema c') = schFiles (cSchema c) @ fs \<and> list_all2 (\<lambda>(s, nds) f. fileOf f s nds) (zip sources forest) fs"
proof -
  let ?Q = "\<lambda>t s nds. list_all2 (nodeMatches (cSchema t)) (fldMessages (srcAST s)) nds \<and> set (concat (map nodeRefs nds)) \<subseteq> {..<messageCount t}"
  have step: "declOk t \<and> schemaGrows (cSchema s) (cSchema t) \<and> ?Q t x nds \<and> concat (map nodeRefs nds) = [messageCount s..<messageCount t] \<and>
      messageCount s \<le> messageCount t"
    if "declareSource x s = Inr (nds, t)" "declOk s" for x s nds t
  proof -
    have "declaredSource s t x nds" by (rule declareSource_ok [OF that])
    then have 1: "declOk t" "schemaGrows (cSchema s) (cSchema t)" "list_all2 (nodeMatches (cSchema t)) (fldMessages (srcAST x)) nds"
      "concat (map nodeRefs nds) = [messageCount s..<messageCount t]" by (simp_all add: declaredSource_def)
    from 1(4) have "set (concat (map nodeRefs nds)) \<subseteq> {..<messageCount t}" by auto
    with 1 grows_count [OF 1(2)] show ?thesis by blast
  qed
  have "declOk c' \<and> schemaGrows (cSchema c) (cSchema c') \<and> list_all2 (?Q c') sources forest"
  proof (rule eachS_ok [OF assms(1), of declOk])
    fix t u :: compiler and s nds assume g: "schemaGrows (cSchema t) (cSchema u)" and q: "?Q t s nds"
    have "msgAt (cSchema u) r = msgAt (cSchema t) r" if "x \<in> set nds" "r \<in> set (nodeRefs x)" for x r
      using q that by (intro grows_msgAt [OF g]) (auto simp: messageCount_def)
    then have "nodeMatches (cSchema u) md x" if "x \<in> set nds" "nodeMatches (cSchema t) md x" for md x
      using that by (intro nodeMatches_cong [OF that(2)]) auto
    then have "list_all2 (nodeMatches (cSchema u)) (fldMessages (srcAST s)) nds"
      using q by (auto elim: list.rel_mono_strong)
    with q grows_count [OF g] show "?Q u s nds" by auto
  qed (use assms(2) step in \<open>auto intro: schemaGrows_trans\<close>)
  then show "declOk c'" "schemaGrows (cSchema c) (cSchema c')"
    "list_all2 (\<lambda>s nds. list_all2 (nodeMatches (cSchema c')) (fldMessages (srcAST s)) nds) sources forest"
    by (auto elim: list.rel_mono_strong)
  have "concat (map (\<lambda>nds. concat (map nodeRefs nds)) forest) = [messageCount c..<messageCount c']"
    by (rule eachS_ranges [OF assms(1), of declOk, THEN conjunct1]) (use assms(2) step in blast)+
  then show "concat (map nodeRefs (concat forest)) = [messageCount c..<messageCount c']"
    by (simp add: nodeRefs_concat)
  show "allValues (cSchema c') = allValues (cSchema c) @ map enumValuesOf (enumDeclsOf sources)"
    "\<exists>fs. schFiles (cSchema c') = schFiles (cSchema c) @ fs \<and> list_all2 (\<lambda>(s, nds) f. fileOf f s nds) (zip sources forest) fs"
    using assms
  proof (induction sources arbitrary: c forest)
    case Nil
    { case 1 then show ?case by (simp add: enumDeclsOf_def) }
    { case 2 then show ?case by simp }
  next
    case (Cons s sources)
    have *: "\<exists>nds c1 forest'. declareSource s c = Inr (nds, c1) \<and> eachS declareSource sources c1 = Inr (forest', c') \<and>
        forest = nds # forest' \<and> declaredSource c c1 s nds"
      if "eachS declareSource (s # sources) c = Inr (forest, c')" "declOk c" for c forest
      using that by (auto simp: bindE_eq_Inr intro: declareSource_ok)
    { case 1
      from * [OF this] obtain nds c1 forest' where
        1: "eachS declareSource sources c1 = Inr (forest', c')" "declaredSource c c1 s nds" by blast
      from Cons.IH(1) [OF 1(1)] 1(2) show ?case by (simp add: declaredSource_def enumDeclsOf_def) }
    { case 2
      from * [OF this] obtain nds c1 forest' where
        1: "eachS declareSource sources c1 = Inr (forest', c')" "declaredSource c c1 s nds" "forest = nds # forest'" by blast
      from Cons.IH(2) [OF 1(1)] 1(2) obtain fs where
        "schFiles (cSchema c') = schFiles (cSchema c1) @ fs" "list_all2 (\<lambda>(s, nds) f. fileOf f s nds) (zip sources forest') fs"
        by (auto simp: declaredSource_def)
      with 1(2,3) show ?case by (auto simp: declaredSource_def fileOf_def) }
  qed
qed

lemma declareSources_ok:
  assumes "eachS declareSource sources emptyCompiler = Inr (forest, c)"
  shows "declOk c" "forestMatches (cSchema c) sources forest" "allValues (cSchema c) = map enumValuesOf (enumDeclsOf sources)"
    "list_all2 (\<lambda>(s, nds) f. fileOf f s nds) (zip sources forest) (schFiles (cSchema c))"
  using declareSources_step [OF assms emptyCompiler_ok]
  by (auto simp: forestMatches_def messageCount_def emptyCompiler_def allValues_def)

end
