(* ===== verification/Resolve.thy ===== *)
theory Resolve
  imports CompileProps
begin

text \<open>
  What a name resolves to. In a file with imports, the one declaration of that name in the
  directories it imports; in a file without, the one of its own directory or else the only one
  anywhere. A qualified name is the first declaration of that package. The lookups of messages and
  of enums are the same function of a table, so the lemmas are about \<open>declTableOk\<close>.
\<close>

definition onlyOne :: "(string \<Rightarrow> string \<Rightarrow> nat \<Rightarrow> bool) \<Rightarrow> string set \<Rightarrow> string \<Rightarrow> nat \<Rightarrow> bool" where
  "onlyOne decl dirs n r \<longleftrightarrow> (\<exists>d \<in> dirs. decl d n r \<and> (\<forall>d' \<in> dirs. \<forall>r'. decl d' n r' \<longrightarrow> d' = d))"

definition noneIn :: "(string \<Rightarrow> string \<Rightarrow> nat \<Rightarrow> bool) \<Rightarrow> string set \<Rightarrow> string \<Rightarrow> bool" where
  "noneIn decl dirs n \<longleftrightarrow> (\<forall>d \<in> dirs. \<forall>r. \<not> decl d n r)"

lemma declTableOk_unique: "declTableOk byDir allBy decl \<Longrightarrow> decl d n r \<Longrightarrow> decl d n r' \<Longrightarrow> r' = r"
  unfolding declTableOk_def by (metis option.inject)

text \<open>The matches in a set of directories, of which \<open>pickOne\<close> takes the only one.\<close>

definition matchesIn :: "(string \<Rightarrow> (string \<times> nat) list) \<Rightarrow> string set \<Rightarrow> string \<Rightarrow> (string \<times> nat) list" where
  "matchesIn allBy dirs n = filter (\<lambda>m. fst m \<in> dirs) (allBy n)"

lemma matchesIn_UNIV [simp]: "matchesIn allBy UNIV n = allBy n"
  by (simp add: matchesIn_def)

lemma matchesIn_set: "declTableOk byDir allBy decl \<Longrightarrow> (d, r) \<in> set (matchesIn allBy dirs n) \<longleftrightarrow> d \<in> dirs \<and> decl d n r"
  by (auto simp: declTableOk_def matchesIn_def)

lemma matchesIn_distinct: "declTableOk byDir allBy decl \<Longrightarrow> distinct (map fst (matchesIn allBy dirs n))"
  by (simp add: declTableOk_def matchesIn_def distinct_map_filter)

lemma distinct_singleton: "distinct xs \<Longrightarrow> set xs = {x} \<Longrightarrow> xs = [x]"
proof (cases xs)
  case (Cons y ys)
  moreover assume "distinct xs" "set xs = {x}"
  ultimately have "y = x" "set ys \<subseteq> {x}" "x \<notin> set ys" by auto
  then have "set ys = {}" by (cases ys) auto
  with Cons \<open>y = x\<close> show ?thesis by simp
qed simp

lemma matchesIn_single:
  assumes t: "declTableOk byDir allBy decl"
  shows "(\<exists>d. matchesIn allBy dirs n = [(d, r)]) \<longleftrightarrow> onlyOne decl dirs n r"
proof
  assume "\<exists>d. matchesIn allBy dirs n = [(d, r)]"
  then obtain d where m: "matchesIn allBy dirs n = [(d, r)]" ..
  have "(d, r) \<in> set (matchesIn allBy dirs n)" by (simp add: m)
  then have "d \<in> dirs \<and> decl d n r" unfolding matchesIn_set [OF t] .
  moreover have "d' = d" if "d' \<in> dirs" "decl d' n r'" for d' r'
  proof -
    from that have "(d', r') \<in> set (matchesIn allBy dirs n)" unfolding matchesIn_set [OF t] by blast
    then show ?thesis by (simp add: m)
  qed
  ultimately show "onlyOne decl dirs n r" by (auto simp: onlyOne_def)
next
  assume "onlyOne decl dirs n r"
  then obtain d where d: "d \<in> dirs" "decl d n r" "\<And>d' r'. d' \<in> dirs \<Longrightarrow> decl d' n r' \<Longrightarrow> d' = d"
    by (auto simp: onlyOne_def)
  then have m: "(d, r) \<in> set (matchesIn allBy dirs n)" unfolding matchesIn_set [OF t] by blast
  have "x = (d, r)" if x: "x \<in> set (matchesIn allBy dirs n)" for x
  proof -
    obtain d' r' where x': "x = (d', r')" by (cases x)
    with x have "(d', r') \<in> set (matchesIn allBy dirs n)" by simp
    then have "d' \<in> dirs" "decl d' n r'" unfolding matchesIn_set [OF t] by blast+
    with d x' declTableOk_unique [OF t] show ?thesis by blast
  qed
  then have "set (matchesIn allBy dirs n) = {(d, r)}" using m by blast
  moreover have "distinct (matchesIn allBy dirs n)"
    using matchesIn_distinct [OF t, of dirs n] by (simp add: distinct_map)
  ultimately have "matchesIn allBy dirs n = [(d, r)]" by (intro distinct_singleton)
  then show "\<exists>d. matchesIn allBy dirs n = [(d, r)]" by blast
qed


lemma pickOne_Some: "pickOne fmt n ms = Inr (Some r) \<longleftrightarrow> (\<exists>d. ms = [(d, r)])"
  by (auto simp: pickOne_def split: list.split)

lemma pickOne_None: "pickOne fmt n ms = Inr None \<longleftrightarrow> ms = []"
  by (auto simp: pickOne_def split: list.split)

lemma matchesIn_empty:
  assumes t: "declTableOk byDir allBy decl"
  shows "matchesIn allBy dirs n = [] \<longleftrightarrow> noneIn decl dirs n"
proof -
  have "matchesIn allBy dirs n = [] \<longleftrightarrow> (\<forall>d r. (d, r) \<notin> set (matchesIn allBy dirs n))"
    by (cases "matchesIn allBy dirs n") auto
  then show ?thesis unfolding matchesIn_set [OF t] noneIn_def by blast
qed

text \<open>The unqualified lookup over one table, which both lookups of the compiler are.\<close>

definition lookupTable :: "scopes \<Rightarrow> (string \<Rightarrow> string \<Rightarrow> nat option) \<Rightarrow> (string \<Rightarrow> (string \<times> nat) list) \<Rightarrow> string \<Rightarrow> string \<Rightarrow> nat lookup" where
  "lookupTable sc byDir allBy path n =
     (case sc (pathClean path) of
        Some scope \<Rightarrow> pickOne ''ambiguous imported type %q found in multiple directories: %s'' n (matchesIn allBy scope n)
      | None \<Rightarrow> (case byDir (pathDir path) n of
          Some r \<Rightarrow> Inr (Some r)
        | None \<Rightarrow> pickOne ''ambiguous type %q found in multiple directories: %s'' n (allBy n)))"

lemma lookup_tables:
  "lookupMessageForSource sc c path n = lookupTable sc (cMsgByDir c) (cMsgAll c) path n"
  "lookupEnumForSource sc c path n = lookupTable sc (cEnumByDir c) (cEnumAll c) path n"
  by (simp_all add: lookupMessageForSource_def lookupEnumForSource_def lookupMessage_def lookupEnum_def lookupTable_def matchesIn_def
      split: option.split)

text \<open>What the lookup promises: a declaration that is visible, and the only one.\<close>

definition visibleOne :: "scopes \<Rightarrow> (string \<Rightarrow> string \<Rightarrow> nat \<Rightarrow> bool) \<Rightarrow> string \<Rightarrow> string \<Rightarrow> nat \<Rightarrow> bool" where
  "visibleOne sc decl path n r \<longleftrightarrow>
     (case sc (pathClean path) of
        Some scope \<Rightarrow> onlyOne decl scope n r
      | None \<Rightarrow> decl (pathDir path) n r \<or> noneIn decl {pathDir path} n \<and> onlyOne decl UNIV n r)"

definition visibleNone :: "scopes \<Rightarrow> (string \<Rightarrow> string \<Rightarrow> nat \<Rightarrow> bool) \<Rightarrow> string \<Rightarrow> string \<Rightarrow> bool" where
  "visibleNone sc decl path n \<longleftrightarrow>
     (case sc (pathClean path) of Some scope \<Rightarrow> noneIn decl scope n | None \<Rightarrow> noneIn decl UNIV n)"

lemma byDir_None: "declTableOk byDir allBy decl \<Longrightarrow> byDir d n = None \<longleftrightarrow> noneIn decl {d} n"
  unfolding declTableOk_def noneIn_def by (metis not_None_eq singletonD singletonI)

lemma lookupTable_Some:
  assumes t: "declTableOk byDir allBy decl"
  shows "lookupTable sc byDir allBy path n = Inr (Some r) \<longleftrightarrow> visibleOne sc decl path n r"
proof (cases "sc (pathClean path)")
  case None
  show ?thesis
  proof (cases "byDir (pathDir path) n")
    case N: None
    then have "noneIn decl {pathDir path} n" using byDir_None [OF t] by simp
    moreover have "\<not> decl (pathDir path) n r" using calculation by (simp add: noneIn_def)
    moreover have "pickOne fmt n (allBy n) = Inr (Some r) \<longleftrightarrow> onlyOne decl UNIV n r" for fmt
      using matchesIn_single [OF t, of UNIV n r] by (simp add: pickOne_Some)
    ultimately show ?thesis using None N by (simp add: lookupTable_def visibleOne_def)
  next
    case S: (Some q)
    then have "decl (pathDir path) n q" using t by (simp add: declTableOk_def)
    then show ?thesis using None S declTableOk_unique [OF t] by (auto simp: lookupTable_def visibleOne_def noneIn_def)
  qed
next
  case (Some scope)
  then show ?thesis using matchesIn_single [OF t] by (simp add: lookupTable_def visibleOne_def pickOne_Some)
qed

lemma lookupTable_None:
  assumes t: "declTableOk byDir allBy decl"
  shows "lookupTable sc byDir allBy path n = Inr None \<longleftrightarrow> visibleNone sc decl path n"
proof (cases "sc (pathClean path)")
  case None
  have "matchesIn allBy UNIV n = [] \<longleftrightarrow> noneIn decl UNIV n" by (rule matchesIn_empty [OF t])
  moreover have "byDir (pathDir path) n = None" if "noneIn decl UNIV n"
    using that by (simp add: byDir_None [OF t] noneIn_def)
  ultimately show ?thesis
    using None by (auto simp: lookupTable_def visibleNone_def pickOne_None split: option.split)
next
  case (Some scope)
  then show ?thesis using matchesIn_empty [OF t] by (simp add: lookupTable_def visibleNone_def pickOne_None)
qed

lemma visibleOne_declared: "visibleOne sc decl path n r \<Longrightarrow> \<exists>d. decl d n r"
  by (auto simp: visibleOne_def onlyOne_def split: option.splits)

subsection \<open>Qualified names\<close>

lemma find_mem: "find P xs = Some x \<Longrightarrow> x \<in> set xs \<and> P x"
  by (auto simp: find_Some_iff)

lemma qualified_message:
  assumes "tablesOk c" "lookupQualifiedMessageForSource sc c path name = Some r"
  shows "\<exists>pkg n d. lastDot name = Some (pkg, n) \<and> declaredMsg (cSchema c) d n r \<and>
    filePackage (cSchema c) (mFile (msgAt (cSchema c) r)) = pkg"
proof -
  from assms(2) obtain pkg n d where l: "lastDot name = Some (pkg, n)"
      "find (\<lambda>m. inPackage (cSchema c) pkg (mFile (msgAt (cSchema c) (snd m)))) (cMsgAll c n) = Some (d, r)"
    by (auto simp: lookupQualifiedMessageForSource_def lookupQualifiedMessage_def split: option.splits if_splits)
  from find_mem [OF this(2)] show ?thesis using assms(1) l(1)
    by (auto simp: tablesOk_def declTableOk_def inPackage_def)
qed

lemma qualified_enum:
  assumes "tablesOk c" "lookupQualifiedEnumForSource sc c path name = Some r"
  shows "\<exists>pkg n d. lastDot name = Some (pkg, n) \<and> declaredEnum (cSchema c) d n r \<and>
    filePackage (cSchema c) (enFile (enumAt (cSchema c) r)) = pkg"
proof -
  from assms(2) obtain pkg n d where l: "lastDot name = Some (pkg, n)"
      "find (\<lambda>m. inPackage (cSchema c) pkg (enFile (enumAt (cSchema c) (snd m)))) (cEnumAll c n) = Some (d, r)"
    by (auto simp: lookupQualifiedEnumForSource_def lookupQualifiedEnum_def split: option.splits if_splits)
  from find_mem [OF this(2)] show ?thesis using assms(1) l(1)
    by (auto simp: tablesOk_def declTableOk_def inPackage_def)
qed

subsection \<open>Resolved types\<close>

fun typeIn :: "schema \<Rightarrow> irType \<Rightarrow> bool" where
  "typeIn S (TMessage r) \<longleftrightarrow> r < length (schMessages S)"
| "typeIn S (TEnum e) \<longleftrightarrow> e < length (schEnums S)"
| "typeIn S (TMap k v) \<longleftrightarrow> validMapKey k \<and> typeIn S v"
| "typeIn S (TScalar k) \<longleftrightarrow> True"

lemma resolveName_in:
  assumes "tablesOk c" "resolveName sc c path line col name = Inr t"
  shows "typeIn (cSchema c) t"
proof -
  have m: "declTableOk (cMsgByDir c) (cMsgAll c) (declaredMsg (cSchema c))"
    and e: "declTableOk (cEnumByDir c) (cEnumAll c) (declaredEnum (cSchema c))"
    using assms(1) by (simp_all add: tablesOk_def)
  have 1: "r < length (schMessages (cSchema c))" if "lookupMessageForSource sc c path name = Inr (Some r)" for r
    using that visibleOne_declared unfolding lookup_tables lookupTable_Some [OF m] by (fastforce simp: declaredMsg_def)
  have 2: "r < length (schEnums (cSchema c))" if "lookupEnumForSource sc c path name = Inr (Some r)" for r
    using that visibleOne_declared unfolding lookup_tables lookupTable_Some [OF e] by (fastforce simp: declaredEnum_def)
  have 3: "r < length (schMessages (cSchema c))" if "lookupQualifiedMessageForSource sc c path name = Some r" for r
    using qualified_message [OF assms(1) that] by (auto simp: declaredMsg_def)
  have 4: "r < length (schEnums (cSchema c))" if "lookupQualifiedEnumForSource sc c path name = Some r" for r
    using qualified_enum [OF assms(1) that] by (auto simp: declaredEnum_def)
  show ?thesis using assms(2) 1 2 3 4
    by (auto simp: resolveName_def split: option.splits if_splits sum.splits)
qed

lemma resolveType_in: "tablesOk c \<Longrightarrow> resolveType sc c path pos t = Inr u \<Longrightarrow> typeIn (cSchema c) u"
proof (induction sc c path pos t arbitrary: u rule: resolveType.induct)
  case (2 sc c path pos sp name isMap mapKey mapVal)
  show ?case
  proof (cases isMap)
    case True
    with 2(3) obtain k v where "parseScalarKind mapKey = Some k" "validMapKey k" "u = TMap k v"
        "resolveType sc c path (spanPosition sp (fst pos) (snd pos)) mapVal = Inr v"
      by (auto simp: Let_def bindE_eq_Inr split: if_splits option.splits)
    with 2(1) [OF refl True] 2(2) show ?thesis by simp
  next
    case False
    with 2(3) resolveName_in [OF 2(2)] show ?thesis by (simp add: Let_def)
  qed
qed simp

lemma reference_in:
  assumes "tablesOk c" "resolveMessageReference sc c path name = Inr (Some r)"
  shows "r < length (schMessages (cSchema c))"
proof -
  have m: "declTableOk (cMsgByDir c) (cMsgAll c) (declaredMsg (cSchema c))" using assms(1) by (simp add: tablesOk_def)
  have 1: "r < length (schMessages (cSchema c))" if "lookupMessageForSource sc c path name = Inr (Some r)" for r
    using that visibleOne_declared unfolding lookup_tables lookupTable_Some [OF m] by (fastforce simp: declaredMsg_def)
  have 3: "r < length (schMessages (cSchema c))" if "lookupQualifiedMessageForSource sc c path name = Some r" for r
    using qualified_message [OF assms(1) that] by (auto simp: declaredMsg_def)
  show ?thesis using assms(2) 1 3 by (auto simp: resolveMessageReference_def split: if_splits)
qed

end
