(* ===== verification/BuildProps.thy ===== *)
theory BuildProps
  imports Resolve
begin

text \<open>
  The built schema. Every declared message is filled with the fields of its own declaration, in
  their order, and nothing overwrites them later; every type, request, response and error of the
  schema refers to an allocated message or enum.
\<close>

subsection \<open>Messages are filled once\<close>

definition fieldsAt :: "schema \<Rightarrow> mref \<Rightarrow> field list" where
  "fieldsAt S r = mFields (msgAt S r)"

definition onlyFills :: "mref set \<Rightarrow> schema \<Rightarrow> schema \<Rightarrow> bool" where
  "onlyFills R S S' \<longleftrightarrow> length (schMessages S') = length (schMessages S) \<and> schFiles S' = schFiles S \<and>
     (\<forall>r. r \<notin> R \<longrightarrow> fieldsAt S' r = fieldsAt S r)"

lemma onlyFills_refl [simp]: "onlyFills R S S"
  by (simp add: onlyFills_def)

lemma onlyFills_trans: "onlyFills A S S' \<Longrightarrow> onlyFills B S' S'' \<Longrightarrow> onlyFills (A \<union> B) S S''"
  by (simp add: onlyFills_def)

text \<open>\<open>build\<close> stands for \<open>buildField\<close> with all its arguments but the message and the field.\<close>

inductive filled :: "(mref \<Rightarrow> fieldDecl \<Rightarrow> cfailure + field) \<Rightarrow> schema \<Rightarrow> messageDecl \<Rightarrow> msgNode \<Rightarrow> bool" for build S where
  "mapE (build r) fds = Inr (fieldsAt S r) \<Longrightarrow> list_all2 (filled build S) nested ns \<Longrightarrow>
   filled build S (MessageDecl name doc decs fds nested nestedEn line col) (MsgNode r ns)"
monos list_all2_mono

inductive_cases filledE: "filled build S (MessageDecl name doc decs fds nested nestedEn line col) nd"

lemma filled_cong:
  "filled build S md nd \<Longrightarrow> \<forall>r \<in> set (nodeRefs nd). fieldsAt S' r = fieldsAt S r \<Longrightarrow> filled build S' md nd"
proof (induction md nd rule: filled.induct)
  case (1 r fds nested ns name doc decs nestedEn line col)
  have "list_all2 (filled build S') nested ns" using 1(2) by (rule list.rel_mono_strong) (use 1(3) in auto)
  then show ?case using 1 by (auto intro: filled.intros)
qed

lemma filled_outside: "filled build S md nd \<Longrightarrow> onlyFills R S S' \<Longrightarrow> set (nodeRefs nd) \<inter> R = {} \<Longrightarrow> filled build S' md nd"
  by (rule filled_cong) (auto simp: onlyFills_def)

lemma fieldsAt_setMessage:
  "r < length (schMessages S) \<Longrightarrow> fieldsAt (setMessage r (\<lambda>m. m\<lparr>mFields := fs\<rparr>) S) x = (if x = r then fs else fieldsAt S x)"
  by (simp add: fieldsAt_def msgAt_setMessage)

lemma fillLoop:
  assumes run: "foldE (\<lambda>(m, n). fill m n) (zip mds nds) S = Inr S'"
    and "list_all2 (nodeMatches S0) mds nds" "distinct (concat (map nodeRefs nds))"
      "set (concat (map nodeRefs nds)) \<subseteq> {..<length (schMessages S)}"
    and each: "\<And>md nd S S'. md \<in> set mds \<Longrightarrow> fill md nd S = Inr S' \<Longrightarrow> nodeMatches S0 md nd \<Longrightarrow> distinct (nodeRefs nd) \<Longrightarrow>
      set (nodeRefs nd) \<subseteq> {..<length (schMessages S)} \<Longrightarrow> filled build S' md nd \<and> onlyFills (set (nodeRefs nd)) S S'"
  shows "list_all2 (filled build S') mds nds \<and> onlyFills (set (concat (map nodeRefs nds))) S S'"
  using assms
proof (induction mds arbitrary: nds S)
  case Nil
  then show ?case by simp
next
  case (Cons md mds)
  from Cons.prems(2) obtain nd nds' where nds: "nds = nd # nds'" and m: "nodeMatches S0 md nd" "list_all2 (nodeMatches S0) mds nds'"
    by (auto simp: list_all2_Cons1)
  from Cons.prems(1) obtain S1 where 1: "fill md nd S = Inr S1" "foldE (\<lambda>(m, n). fill m n) (zip mds nds') S1 = Inr S'"
    by (auto simp: nds bindE_eq_Inr)
  have f: "filled build S1 md nd" "onlyFills (set (nodeRefs nd)) S S1"
    using Cons.prems(5) [OF _ 1(1) m(1)] Cons.prems(3,4) by (auto simp: nds)
  then have len: "length (schMessages S1) = length (schMessages S)" by (simp add: onlyFills_def)
  have r: "list_all2 (filled build S') mds nds' \<and> onlyFills (set (concat (map nodeRefs nds'))) S1 S'"
  proof (rule Cons.IH [OF 1(2) m(2)])
    show "distinct (concat (map nodeRefs nds'))" "set (concat (map nodeRefs nds')) \<subseteq> {..<length (schMessages S1)}"
      using Cons.prems(3,4) by (simp_all add: nds len)
  qed (rule Cons.prems(5), simp_all)
  have "filled build S' md nd"
    by (rule filled_outside [OF f(1) r [THEN conjunct2]]) (use Cons.prems(3) in \<open>auto simp: nds\<close>)
  with r onlyFills_trans [OF f(2) r [THEN conjunct2]] show ?case by (simp add: nds)
qed

lemma nodeMatches_MsgNode:
  "nodeMatches S0 (MessageDecl name doc decs fds nested nestedEn line col) nd \<Longrightarrow>
    \<exists>r ns. nd = MsgNode r ns \<and> list_all2 (nodeMatches S0) nested ns"
  by (auto simp: nodeMatches_iff)

lemma fillMessage_filled:
  "fillMessage opts sc c path md nd S = Inr S' \<Longrightarrow> nodeMatches S0 md nd \<Longrightarrow> distinct (nodeRefs nd) \<Longrightarrow>
    set (nodeRefs nd) \<subseteq> {..<length (schMessages S)} \<Longrightarrow>
    filled (buildField opts sc c path) S' md nd \<and> onlyFills (set (nodeRefs nd)) S S'"
proof (induction md arbitrary: nd S S')
  case (MessageDecl name doc decs fds nested nestedEn line col)
  obtain r ns where nd: "nd = MsgNode r ns" and m: "list_all2 (nodeMatches S0) nested ns"
    using nodeMatches_MsgNode [OF MessageDecl.prems(2)] by blast
  from MessageDecl.prems(1) obtain fs where 1: "mapE (buildField opts sc c path r) fds = Inr fs"
    and 2: "foldE (\<lambda>(m, n). fillMessage opts sc c path m n) (zip nested ns) (setMessage r (\<lambda>m. m\<lparr>mFields := fs\<rparr>) S) = Inr S'"
    by (auto simp: nd bindE_eq_Inr)
  let ?S1 = "setMessage r (\<lambda>m. m\<lparr>mFields := fs\<rparr>) S"
  have r: "r < length (schMessages S)" using MessageDecl.prems(4) by (simp add: nd)
  have in1: "set (concat (map nodeRefs ns)) \<subseteq> {..<length (schMessages ?S1)}" using MessageDecl.prems(4) by (simp add: nd)
  have d: "distinct (concat (map nodeRefs ns))" "r \<notin> set (concat (map nodeRefs ns))" using MessageDecl.prems(3) by (simp_all add: nd)
  have l: "list_all2 (filled (buildField opts sc c path) S') nested ns \<and> onlyFills (set (concat (map nodeRefs ns))) ?S1 S'"
    by (rule fillLoop [OF 2 m d(1) in1]) (rule MessageDecl.IH)
  have f: "onlyFills {r} S ?S1" "fieldsAt ?S1 r = fs"
    using fieldsAt_setMessage [OF r] by (simp_all add: onlyFills_def)
  have "fieldsAt S' r = fs" using l f(2) d(2) by (simp add: onlyFills_def)
  with 1 l have "filled (buildField opts sc c path) S' (MessageDecl name doc decs fds nested nestedEn line col) nd"
    unfolding nd by (intro filled.intros) simp_all
  with onlyFills_trans [OF f(1) l [THEN conjunct2]] show ?case by (simp add: nd)
qed


subsection \<open>Services leave the fields\<close>

text \<open>A built method has the messages its declaration names, which are allocated.\<close>

definition methodIn :: "schema \<Rightarrow> rpc \<Rightarrow> bool" where
  "methodIn S m \<longleftrightarrow> (\<exists>req resp. rRequest m = Some req \<and> rResponse m = Some resp \<and>
     set (req # resp # rErrorTypes m) \<subseteq> {..<length (schMessages S)})"

definition methodOf :: "rpcDecl \<Rightarrow> rpc \<Rightarrow> bool" where
  "methodOf rd m \<longleftrightarrow> rName m = rdName rd \<and> rLine m = rdLine rd \<and> rDecorators m = convertDecorators (rdDecorators rd) \<and>
     rPrincipal m = None \<and> length (rErrorTypes m) = length (rdErrorTypes rd)"

definition serviceOf :: "serviceDecl \<Rightarrow> service \<Rightarrow> bool" where
  "serviceOf sd sv \<longleftrightarrow> sName sv = sdName sd \<and> sBasePath sv = sdBasePath sd \<and> list_all2 methodOf (sdRPCs sd) (sMethods sv)"

lemma onlyFills_empty_trans: "onlyFills {} S S' \<Longrightarrow> onlyFills {} S' S'' \<Longrightarrow> onlyFills {} S S''"
  using onlyFills_trans [of "{}" S S' "{}" S''] by simp

lemma setErrorType_fills: "onlyFills {} S (setMessage r (\<lambda>m. m\<lparr>mErrorType := True\<rparr>) S)"
  by (cases "r < length (schMessages S)")
    (simp_all add: onlyFills_def fieldsAt_def msgAt_setMessage, simp add: setMessage_def msgAt_def list_update_beyond)

lemma needMessage_in:
  "tablesOk c \<Longrightarrow> needMessage sc c path p q what name = Inr r \<Longrightarrow> r < length (schMessages (cSchema c))"
  by (auto simp: needMessage_def dest: reference_in split: sum.splits option.splits)

lemma addErrorType_fills:
  assumes "addErrorType sc c path rd e (S, st, errs) = Inr (S', st', errs')" "tablesOk c"
  shows "onlyFills {} S S'" "\<exists>r < length (schMessages (cSchema c)). errs' = errs @ [r]"
proof -
  let ?q = "if fst e < length (rdErrorSpans rd) then spanPosition (rdErrorSpans rd ! fst e) (fst (rdLine rd, rdCol rd)) (snd (rdLine rd, rdCol rd)) else (rdLine rd, rdCol rd)"
  from assms(1) obtain r where r: "needMessage sc c path (rdLine rd, rdCol rd) ?q ''unresolved error type %q'' (snd e) = Inr r"
      "S' = setMessage r (\<lambda>m. m\<lparr>mErrorType := True\<rparr>) S" "errs' = errs @ [r]"
    by (auto simp: addErrorType_def Let_def bindE_eq_Inr split: option.splits)
  show "onlyFills {} S S'" unfolding r(2) by (rule setErrorType_fills)
  show "\<exists>r < length (schMessages (cSchema c)). errs' = errs @ [r]"
    using needMessage_in [OF assms(2) r(1)] r(3) by blast
qed

lemma addErrorTypes_fills:
  assumes "foldE (addErrorType sc c path rd) es (S, st, errs) = Inr (S', st', errs')" "tablesOk c"
  shows "onlyFills {} S S' \<and> length errs' = length errs + length es \<and>
    (set errs \<subseteq> {..<length (schMessages (cSchema c))} \<longrightarrow> set errs' \<subseteq> {..<length (schMessages (cSchema c))})"
  using assms(1)
proof (induction es arbitrary: S st errs)
  case (Cons e es)
  from Cons.prems obtain S1 st1 errs1 where 1: "addErrorType sc c path rd e (S, st, errs) = Inr (S1, st1, errs1)"
      "foldE (addErrorType sc c path rd) es (S1, st1, errs1) = Inr (S', st', errs')"
    by (auto simp: bindE_eq_Inr)
  note a = addErrorType_fills [OF 1(1) assms(2)]
  from a(2) Cons.IH [OF 1(2)] onlyFills_empty_trans [OF a(1)] show ?case by auto
qed simp

lemma buildMethod_in:
  assumes "buildMethod sc c path rd S = Inr (m, S')" "tablesOk c" "length (schMessages (cSchema c)) = length (schMessages S)"
  shows "onlyFills {} S S' \<and> methodIn S m \<and> methodOf rd m"
proof -
  from assms(1) obtain req resp hs S1 st errs where
    1: "needMessage sc c path (rdLine rd, rdCol rd) (spanPosition (rdRequestSpan rd) (rdLine rd) (rdCol rd)) ''unresolved request type %q'' (rdRequestType rd) = Inr req"
    "needMessage sc c path (rdLine rd, rdCol rd) (spanPosition (rdResponseSpan rd) (rdLine rd) (rdCol rd)) ''unresolved response type %q'' (rdResponseType rd) = Inr resp"
    "foldE (addErrorType sc c path rd) (enumerate 0 (rdErrorTypes rd)) (S, \<lambda>_. None, []) = Inr (S', st, errs)"
    "m = \<lparr>rName = rdName rd, rLine = rdLine rd, rDoc = rdDoc rd, rRequest = Some req, rResponse = Some resp,
              rErrorTypes = errs, rDecorators = convertDecorators (rdDecorators rd), rHeaders = hs, rPrincipal = None\<rparr>"
    by (auto simp: buildMethod_def Let_def bindE_eq_Inr split: prod.splits)
  note e = addErrorTypes_fills [OF 1(3) assms(2)]
  show ?thesis
    using e needMessage_in [OF assms(2) 1(1)] needMessage_in [OF assms(2) 1(2)] assms(3)
    by (simp add: methodIn_def methodOf_def 1(4))
qed

lemma methodIn_length: "length (schMessages S') = length (schMessages S) \<Longrightarrow> methodIn S' m = methodIn S m"
  by (simp add: methodIn_def)

lemma buildService_in:
  assumes "buildService sc c path sd S = Inr (sv, S')" "tablesOk c" "length (schMessages (cSchema c)) = length (schMessages S)"
  shows "onlyFills {} S S' \<and> (\<forall>m \<in> set (sMethods sv). methodIn S m) \<and> serviceOf sd sv"
proof -
  from assms(1) obtain hs ms where 1: "eachS (buildMethod sc c path) (sdRPCs sd) S = Inr (ms, S')"
      "sv = \<lparr>sName = sdName sd, sDoc = sdDoc sd, sBasePath = sdBasePath sd, sHeaders = hs, sMethods = ms\<rparr>"
    by (auto simp: buildService_def bindE_eq_Inr split: prod.splits)
  let ?N = "length (schMessages (cSchema c))"
  let ?Q = "\<lambda>t rd m. methodIn t m \<and> methodOf rd m"
  have "length (schMessages S') = ?N \<and> onlyFills {} S S' \<and> list_all2 (?Q S') (sdRPCs sd) ms"
  proof (rule eachS_ok [OF 1(1), of "\<lambda>t. length (schMessages t) = ?N" "onlyFills {}" ?Q])
    fix x s r t assume a: "buildMethod sc c path x s = Inr (r, t)" "length (schMessages s) = ?N"
    have "onlyFills {} s t \<and> methodIn s r \<and> methodOf x r" by (rule buildMethod_in [OF a(1) assms(2) a(2) [symmetric]])
    with a(2) show "length (schMessages t) = ?N \<and> onlyFills {} s t \<and> ?Q t x r"
      using methodIn_length [of t s] by (simp add: onlyFills_def)
  next
    fix t u x r assume "onlyFills {} t u" "?Q t x r"
    then show "?Q u x r" using methodIn_length [of u t] by (simp add: onlyFills_def)
  qed (use assms(3) onlyFills_empty_trans in auto)
  then have a: "onlyFills {} S S'" "list_all2 (?Q S) (sdRPCs sd) ms"
    using methodIn_length [of S' S] by (auto simp: onlyFills_def elim: list.rel_mono_strong)
  then show ?thesis by (auto simp: 1(2) serviceOf_def list_all2_conv_all_nth in_set_conv_nth)
qed


subsection \<open>The sources are filled\<close>

definition sourceFilled :: "compileOptions \<Rightarrow> scopes \<Rightarrow> compiler \<Rightarrow> schema \<Rightarrow> source \<Rightarrow> msgNode list \<Rightarrow> bool" where
  "sourceFilled opts sc c S s nds \<longleftrightarrow>
     list_all2 (filled (buildField opts sc c (srcPath s)) S) (fldMessages (srcAST s)) nds"

lemma setFile_fields: "fieldsAt (setFile i f S) r = fieldsAt S r" "length (schMessages (setFile i f S)) = length (schMessages S)"
  by (simp_all add: setFile_def fieldsAt_def msgAt_def)

lemma fillSource_filled:
  assumes "fillSource opts sc c (i, s, nds) S = Inr S'" "tablesOk c" "length (schMessages (cSchema c)) = length (schMessages S)"
    and m: "list_all2 (nodeMatches S0) (fldMessages (srcAST s)) nds"
    and d: "distinct (concat (map nodeRefs nds))" "set (concat (map nodeRefs nds)) \<subseteq> {..<length (schMessages S)}"
  shows "sourceFilled opts sc c S' s nds"
    "length (schMessages S') = length (schMessages S)"
    "\<forall>r. r \<notin> set (concat (map nodeRefs nds)) \<longrightarrow> fieldsAt S' r = fieldsAt S r"
    "\<exists>svs. schFiles S' = (schFiles S)[i := (schFiles S ! i)\<lparr>flServices := svs\<rparr>] \<and>
       (\<forall>sv \<in> set svs. \<forall>x \<in> set (sMethods sv). methodIn S x) \<and> list_all2 serviceOf (fldServices (srcAST s)) svs"
proof -
  from assms(1) obtain S1 svs S2 where
    1: "foldE (\<lambda>(m, n). fillMessage opts sc c (srcPath s) m n) (zip (fldMessages (srcAST s)) nds) S = Inr S1"
    and 2: "eachS (buildService sc c (srcPath s)) (fldServices (srcAST s)) S1 = Inr (svs, S2)"
    and 3: "S' = setFile i (\<lambda>f. f\<lparr>flServices := svs\<rparr>) S2"
    by (auto simp: fillSource_def bindE_eq_Inr split: prod.splits)
  have f: "list_all2 (filled (buildField opts sc c (srcPath s)) S1) (fldMessages (srcAST s)) nds \<and>
      onlyFills (set (concat (map nodeRefs nds))) S S1"
    by (rule fillLoop [OF 1 m d]) (rule fillMessage_filled)
  then have len: "length (schMessages S1) = length (schMessages S)" by (simp add: onlyFills_def)
  let ?N = "length (schMessages (cSchema c))"
  let ?Q = "\<lambda>t sd sv. (\<forall>x \<in> set (sMethods sv). methodIn t x) \<and> serviceOf sd sv"
  have sv: "length (schMessages S2) = ?N \<and> onlyFills {} S1 S2 \<and> list_all2 (?Q S2) (fldServices (srcAST s)) svs"
  proof (rule eachS_ok [OF 2, of "\<lambda>t. length (schMessages t) = ?N" "onlyFills {}" ?Q])
    fix x t r u assume a: "buildService sc c (srcPath s) x t = Inr (r, u)" "length (schMessages t) = ?N"
    have b: "onlyFills {} t u \<and> (\<forall>m \<in> set (sMethods r). methodIn t m) \<and> serviceOf x r"
      by (rule buildService_in [OF a(1) assms(2) a(2) [symmetric]])
    with a(2) show "length (schMessages u) = ?N \<and> onlyFills {} t u \<and> ?Q u x r"
      using methodIn_length [of u t] by (simp add: onlyFills_def)
  next
    fix t u x r assume "onlyFills {} t u" "?Q t x r"
    then show "?Q u x r" using methodIn_length [of u t] by (simp add: onlyFills_def)
  qed (use assms(3) len onlyFills_empty_trans in auto)
  have u: "onlyFills (set (concat (map nodeRefs nds))) S S2"
    using onlyFills_trans [OF f [THEN conjunct2], of "{}" S2] sv by simp
  then show "length (schMessages S') = length (schMessages S)"
    "\<forall>r. r \<notin> set (concat (map nodeRefs nds)) \<longrightarrow> fieldsAt S' r = fieldsAt S r"
    by (simp_all add: 3 setFile_fields onlyFills_def)
  have "filled (buildField opts sc c (srcPath s)) S' md nd"
    if "filled (buildField opts sc c (srcPath s)) S1 md nd" for md nd
    using that by (rule filled_cong) (use sv in \<open>simp add: 3 setFile_fields onlyFills_def\<close>)
  then show "sourceFilled opts sc c S' s nds" using f by (auto simp: sourceFilled_def elim: list.rel_mono_strong)
  have fl: "schFiles S2 = schFiles S" using u by (simp add: onlyFills_def)
  have "methodIn S x" if "sv \<in> set svs" "x \<in> set (sMethods sv)" for sv x
    using sv that methodIn_length [of S2 S] assms(3) by (fastforce simp: list_all2_conv_all_nth in_set_conv_nth)
  moreover have "list_all2 serviceOf (fldServices (srcAST s)) svs"
    using sv by (auto elim: list.rel_mono_strong)
  ultimately show "\<exists>svs. schFiles S' = (schFiles S)[i := (schFiles S ! i)\<lparr>flServices := svs\<rparr>] \<and>
       (\<forall>sv \<in> set svs. \<forall>x \<in> set (sMethods sv). methodIn S x) \<and> list_all2 serviceOf (fldServices (srcAST s)) svs"
    using fl by (intro exI [of _ svs]) (auto simp: 3 setFile_def)
qed


definition servicesBuilt :: "schema \<Rightarrow> source \<Rightarrow> service list \<Rightarrow> bool" where
  "servicesBuilt S s svs \<longleftrightarrow> (\<forall>sv \<in> set svs. \<forall>x \<in> set (sMethods sv). methodIn S x) \<and> list_all2 serviceOf (fldServices (srcAST s)) svs"

definition fieldsKept :: "mref set \<Rightarrow> schema \<Rightarrow> schema \<Rightarrow> bool" where
  "fieldsKept R S S' \<longleftrightarrow> length (schMessages S') = length (schMessages S) \<and> length (schFiles S') = length (schFiles S) \<and>
     (\<forall>r. r \<notin> R \<longrightarrow> fieldsAt S' r = fieldsAt S r)"

lemma fillSources_step:
  assumes "foldE (fillSource opts sc c) (zip [k..<k + length ss] (zip ss forest)) S = Inr S'"
    and c: "tablesOk c" "length (schMessages (cSchema c)) = length (schMessages S)"
    and "list_all2 (\<lambda>s nds. list_all2 (nodeMatches S0) (fldMessages (srcAST s)) nds) ss forest"
      "distinct (concat (map nodeRefs (concat forest)))" "set (concat (map nodeRefs (concat forest))) \<subseteq> {..<length (schMessages S)}"
      "k + length ss \<le> length (schFiles S)"
  shows "list_all2 (sourceFilled opts sc c S') ss forest \<and> fieldsKept (set (concat (map nodeRefs (concat forest)))) S S' \<and>
    (\<forall>j. j < k \<longrightarrow> schFiles S' ! j = schFiles S ! j) \<and>
    (\<forall>j < length ss. \<exists>svs. schFiles S' ! (k + j) = (schFiles S ! (k + j))\<lparr>flServices := svs\<rparr> \<and> servicesBuilt S (ss ! j) svs)"
  using assms
proof (induction ss arbitrary: k forest S)
  case Nil
  then show ?case by (simp add: fieldsKept_def)
next
  case (Cons s ss)
  from Cons.prems(4) obtain nds forest' where fo: "forest = nds # forest'"
    and m: "list_all2 (nodeMatches S0) (fldMessages (srcAST s)) nds"
      "list_all2 (\<lambda>s nds. list_all2 (nodeMatches S0) (fldMessages (srcAST s)) nds) ss forest'"
    by (auto simp: list_all2_Cons1)
  have k: "[k..<k + length (s # ss)] = k # [Suc k..<Suc k + length ss]"
    using upt_conv_Cons [of k "k + length (s # ss)"] by (simp del: upt_Suc)
  from Cons.prems(1) obtain S1 where 1: "fillSource opts sc c (k, s, nds) S = Inr S1"
      "foldE (fillSource opts sc c) (zip [Suc k..<Suc k + length ss] (zip ss forest')) S1 = Inr S'"
    unfolding fo k by (auto simp: bindE_eq_Inr)
  have dn: "distinct (concat (map nodeRefs nds))" "set (concat (map nodeRefs nds)) \<subseteq> {..<length (schMessages S)}"
    and df: "distinct (concat (map nodeRefs (concat forest')))" "set (concat (map nodeRefs (concat forest'))) \<subseteq> {..<length (schMessages S)}"
    and dd: "set (concat (map nodeRefs nds)) \<inter> set (concat (map nodeRefs (concat forest'))) = {}"
    using Cons.prems(5,6) by (simp_all add: fo)
  note f = fillSource_filled [OF 1(1) Cons.prems(2,3) m(1) dn]
  from f(4) obtain svs where svs: "schFiles S1 = (schFiles S)[k := (schFiles S ! k)\<lparr>flServices := svs\<rparr>]" "servicesBuilt S s svs"
    by (auto simp: servicesBuilt_def)
  have fl: "length (schFiles S1) = length (schFiles S)" by (simp add: svs(1))
  have r: "list_all2 (sourceFilled opts sc c S') ss forest' \<and> fieldsKept (set (concat (map nodeRefs (concat forest')))) S1 S' \<and>
    (\<forall>j. j < Suc k \<longrightarrow> schFiles S' ! j = schFiles S1 ! j) \<and>
    (\<forall>j < length ss. \<exists>svs. schFiles S' ! (Suc k + j) = (schFiles S1 ! (Suc k + j))\<lparr>flServices := svs\<rparr> \<and> servicesBuilt S1 (ss ! j) svs)"
    by (rule Cons.IH [OF 1(2) Cons.prems(2) _ m(2) df(1)]) (use Cons.prems(3,7) df(2) fl f(2) in simp_all)
  have "filled (buildField opts sc c (srcPath s)) S' md nd" if "nd \<in> set nds" "filled (buildField opts sc c (srcPath s)) S1 md nd" for md nd
    using that(2)
  proof (rule filled_cong, intro ballI)
    fix q assume "q \<in> set (nodeRefs nd)"
    then have "q \<in> set (concat (map nodeRefs nds))" using that(1) by auto
    then have "q \<notin> set (concat (map nodeRefs (concat forest')))" using dd by blast
    then show "fieldsAt S' q = fieldsAt S1 q" using r unfolding fieldsKept_def by blast
  qed
  then have a: "sourceFilled opts sc c S' s nds"
    using f(1) unfolding sourceFilled_def by (auto elim: list.rel_mono_strong)
  have b: "fieldsKept (set (concat (map nodeRefs (concat forest)))) S S'"
    using f(2,3) r fl by (simp add: fieldsKept_def fo)
  have old: "schFiles S1 ! j = schFiles S ! j" if "j \<noteq> k" for j using that by (simp add: svs(1))
  have new: "schFiles S1 ! k = (schFiles S ! k)\<lparr>flServices := svs\<rparr>" using Cons.prems(7) by (simp add: svs(1))
  have built: "servicesBuilt S1 s' svs' = servicesBuilt S s' svs'" for s' svs'
    using methodIn_length [OF f(2)] by (simp add: servicesBuilt_def)
  have "\<exists>svs. schFiles S' ! (k + j) = (schFiles S ! (k + j))\<lparr>flServices := svs\<rparr> \<and> servicesBuilt S ((s # ss) ! j) svs"
    if "j < length (s # ss)" for j
  proof (cases j)
    case 0
    then show ?thesis using r new svs(2) by auto
  next
    case (Suc i)
    then have "i < length ss" using that by simp
    with r obtain q where "schFiles S' ! (Suc k + i) = (schFiles S1 ! (Suc k + i))\<lparr>flServices := q\<rparr>" "servicesBuilt S1 (ss ! i) q"
      by blast
    then show ?thesis using old [of "Suc k + i"] built Suc by (intro exI [of _ q]) simp
  qed
  then show ?case using a b r old by (auto simp: fo)
qed

text \<open>All that \<open>buildSchema\<close> achieves, for the compiler \<open>c\<close> that declaring has built.\<close>

definition built :: "compileOptions \<Rightarrow> scopes \<Rightarrow> source list \<Rightarrow> msgNode list list \<Rightarrow> compiler \<Rightarrow> schema \<Rightarrow> bool" where
  "built opts sc sources forest c S \<longleftrightarrow> declOk c \<and> sameShape (cSchema c) S \<and> forestMatches S sources forest \<and>
     list_all2 (sourceFilled opts sc c S) sources forest \<and> allValues S = map enumValuesOf (enumDeclsOf sources) \<and>
     length (schFiles S) = length sources \<and>
     (\<forall>j < length sources. \<exists>f svs. fileOf f (sources ! j) (forest ! j) \<and> schFiles S ! j = f\<lparr>flServices := svs\<rparr> \<and> servicesBuilt S (sources ! j) svs)"

lemma forestMatches_shape:
  assumes "forestMatches S sources forest" "sameShape S S'"
  shows "forestMatches S' sources forest"
proof -
  have "nodeMatches S' md nd" if "nodeMatches S md nd" for md nd
    using that by (rule nodeMatches_cong) (use sameShape_msgAt [OF assms(2)] in blast)
  then have "list_all2 (nodeMatches S') mds nds" if "list_all2 (nodeMatches S) mds nds" for mds nds
    using that by (auto elim: list.rel_mono_strong)
  then show ?thesis using assms sameShape_length [OF assms(2)]
    unfolding forestMatches_def by (auto elim: list.rel_mono_strong)
qed

lemma buildSchema_built:
  assumes "buildSchema opts sc sources = Inr (forest, S)"
  shows "\<exists>c. eachS declareSource sources emptyCompiler = Inr (forest, c) \<and> built opts sc sources forest c S"
proof -
  from assms obtain c where 1: "eachS declareSource sources emptyCompiler = Inr (forest, c)"
    and 2: "foldE (fillSource opts sc c) (zip [0..<length sources] (zip sources forest)) (cSchema c) = Inr S"
    by (auto simp: buildSchema_def bindE_eq_Inr)
  note d = declareSources_ok [OF 1]
  have sh: "sameShape (cSchema c) S" by (rule foldE_sameShape [OF 2]) (rule fillSource_shape)
  have t: "tablesOk c" using d(1) by (simp add: declOk_def)
  have fm: "list_all2 (\<lambda>s nds. list_all2 (nodeMatches (cSchema c)) (fldMessages (srcAST s)) nds) sources forest"
      "concat (map nodeRefs (concat forest)) = [0..<length (schMessages (cSchema c))]"
    using d(2) by (simp_all add: forestMatches_def)
  have len: "length forest = length sources" "length (schFiles (cSchema c)) = length sources"
    using list_all2_lengthD [OF fm(1)] list_all2_lengthD [OF d(4)] by simp_all
  have 3: "list_all2 (sourceFilled opts sc c S) sources forest \<and> fieldsKept (set (concat (map nodeRefs (concat forest)))) (cSchema c) S \<and>
    (\<forall>j. j < 0 \<longrightarrow> schFiles S ! j = schFiles (cSchema c) ! j) \<and>
    (\<forall>j < length sources. \<exists>svs. schFiles S ! (0 + j) = (schFiles (cSchema c) ! (0 + j))\<lparr>flServices := svs\<rparr> \<and> servicesBuilt (cSchema c) (sources ! j) svs)"
    by (rule fillSources_step [OF _ t refl fm(1)]) (use 2 fm(2) len in \<open>simp_all add: lessThan_atLeast0\<close>)
  have "\<exists>f svs. fileOf f (sources ! j) (forest ! j) \<and> schFiles S ! j = f\<lparr>flServices := svs\<rparr> \<and> servicesBuilt S (sources ! j) svs"
    if j: "j < length sources" for j
  proof -
    have "fileOf (schFiles (cSchema c) ! j) (sources ! j) (forest ! j)"
      using list_all2_nthD [OF d(4), of j] j len by simp
    moreover have "servicesBuilt S s svs = servicesBuilt (cSchema c) s svs" for s svs
      using methodIn_length [OF sameShape_length [OF sh]] by (simp add: servicesBuilt_def)
    ultimately show ?thesis using 3 j by auto
  qed
  moreover have "allValues S = map enumValuesOf (enumDeclsOf sources)"
    using d(3) sh by (simp add: allValues_def sameShape_def)
  moreover have "length (schFiles S) = length sources" using 3 len by (simp add: fieldsKept_def)
  ultimately show ?thesis
    using 1 3 d(1) sh forestMatches_shape [OF d(2) sh] by (auto simp: built_def)
qed

end
