(* ===== verification/Compiled.thy ===== *)
theory Compiled
  imports BuildProps
begin

text \<open>
  Every compiled package is well formed: references are in range, each field has a type or a oneof
  of typed variants and knows its message, methods have a request and a response, and nesting is
  well founded. The messages are those declared, in order. The passes after building keep all this:
  they write flags, decorators and principals (\<open>keepsCore\<close>).
\<close>

subsection \<open>Messages and declarations\<close>

fun declsIn :: "messageDecl \<Rightarrow> messageDecl list" where
  "declsIn (MessageDecl name doc decs fds nested nestedEn line col) =
     MessageDecl name doc decs fds nested nestedEn line col # concat (map declsIn nested)"

text \<open>The declarations of all sources with the paths of their files, an outer one before those nested in it.\<close>

definition allDecls :: "source list \<Rightarrow> (string \<times> messageDecl) list" where
  "allDecls sources = concat (map (\<lambda>s. map (Pair (srcPath s)) (concat (map declsIn (fldMessages (srcAST s))))) sources)"

definition represents :: "(mref \<Rightarrow> fieldDecl \<Rightarrow> cfailure + field) \<Rightarrow> schema \<Rightarrow> messageDecl \<Rightarrow> mref \<Rightarrow> bool" where
  "represents build S md r \<longleftrightarrow> mName (msgAt S r) = mdName md \<and> mDecorators (msgAt S r) = convertDecorators (mdDecorators md) \<and>
     mapE (build r) (mdFields md) = Inr (fieldsAt S r)"

lemma list_all2_concat: "list_all2 (\<lambda>x y. list_all2 P (f x) (g y)) xs ys \<Longrightarrow> list_all2 P (concat (map f xs)) (concat (map g ys))"
  by (induction xs arbitrary: ys) (auto simp: list_all2_Cons1 list_all2_appendI)

lemma list_all2_both: "list_all2 P xs ys \<Longrightarrow> list_all2 Q xs ys \<Longrightarrow> (\<And>x y. P x y \<Longrightarrow> Q x y \<Longrightarrow> R x y) \<Longrightarrow> list_all2 R xs ys"
  by (simp add: list_all2_conv_all_nth)

lemma filled_represents:
  "nodeMatches S md nd \<Longrightarrow> filled build S md nd \<Longrightarrow> list_all2 (represents build S) (declsIn md) (nodeRefs nd)"
proof (induction md nd rule: nodeMatches.induct)
  case (1 r name decs ns nested doc fds nestedEn line col)
  from 1(5) have f: "mapE (build r) fds = Inr (fieldsAt S r)" "list_all2 (filled build S) nested ns"
    by (auto elim: filledE)
  have "list_all2 (\<lambda>md nd. list_all2 (represents build S) (declsIn md) (nodeRefs nd)) nested ns"
    using 1(4) f(2) by (rule list_all2_both) blast
  moreover have "represents build S (MessageDecl name doc decs fds nested nestedEn line col) r"
    using 1(1,2) f(1) by (simp add: represents_def)
  ultimately show ?case by (simp add: list_all2_concat)
qed

text \<open>What relates the declarations and nodes of each source relates all declarations and all references.\<close>

lemma decls_all2:
  assumes "list_all2 (\<lambda>s nds. list_all2 (\<lambda>md nd. list_all2 (P (srcPath s)) (declsIn md) (nodeRefs nd)) (fldMessages (srcAST s)) nds) sources forest"
  shows "list_all2 (\<lambda>d r. P (fst d) (snd d) r) (allDecls sources) (concat (map nodeRefs (concat forest)))"
proof -
  have "list_all2 (\<lambda>d r. P (fst d) (snd d) r) (map (Pair p) (concat (map declsIn mds))) (concat (map nodeRefs nds))"
    if "list_all2 (\<lambda>md nd. list_all2 (P p) (declsIn md) (nodeRefs nd)) mds nds" for p mds nds
    using list_all2_concat [OF that] by (simp add: list_all2_map1)
  with assms have "list_all2 (\<lambda>s nds. list_all2 (\<lambda>d r. P (fst d) (snd d) r) (map (Pair (srcPath s)) (concat (map declsIn (fldMessages (srcAST s)))))
      (concat (map nodeRefs nds))) sources forest"
    by (auto elim: list.rel_mono_strong)
  from list_all2_concat [OF this] show ?thesis by (simp add: allDecls_def nodeRefs_concat)
qed

definition representsDecl :: "compileOptions \<Rightarrow> scopes \<Rightarrow> compiler \<Rightarrow> schema \<Rightarrow> string \<times> messageDecl \<Rightarrow> mref \<Rightarrow> bool" where
  "representsDecl opts sc c S d r \<longleftrightarrow> represents (buildField opts sc c (fst d)) S (snd d) r"

lemma built_represents:
  assumes "built opts sc sources forest c S"
  shows "list_all2 (representsDecl opts sc c S) (allDecls sources) [0..<length (schMessages S)]"
proof -
  from assms have m: "list_all2 (\<lambda>s nds. list_all2 (nodeMatches S) (fldMessages (srcAST s)) nds) sources forest"
    and f: "list_all2 (sourceFilled opts sc c S) sources forest"
    and r: "concat (map nodeRefs (concat forest)) = [0..<length (schMessages S)]"
    by (simp_all add: built_def forestMatches_def)
  from m f have "list_all2 (\<lambda>s nds. list_all2 (\<lambda>md nd. list_all2 (represents (buildField opts sc c (srcPath s)) S) (declsIn md) (nodeRefs nd))
      (fldMessages (srcAST s)) nds) sources forest"
    by (rule list_all2_both) (unfold sourceFilled_def, erule (1) list_all2_both, rule filled_represents)
  from decls_all2 [where P = "\<lambda>p. represents (buildField opts sc c p) S", OF this] show ?thesis
    by (simp add: r representsDecl_def [abs_def])
qed

subsection \<open>Well-formed packages\<close>

definition fieldIn :: "schema \<Rightarrow> mref \<Rightarrow> field \<Rightarrow> bool" where
  "fieldIn S r f \<longleftrightarrow> fMessage f = r \<and> (fOneof f = None \<longleftrightarrow> fType f \<noteq> None) \<and> pred_option (typeIn S) (fType f) \<and>
     (\<forall>o1. fOneof f = Some o1 \<longrightarrow> (\<forall>v \<in> set (oVariants o1). \<exists>t. vType v = Some t \<and> typeIn S t))"

definition wellFormed :: "schema \<Rightarrow> bool" where
  "wellFormed S \<longleftrightarrow> nestingOk S \<and> refsIn S \<and> (\<forall>r < length (schMessages S). \<forall>f \<in> set (fieldsAt S r). fieldIn S r f) \<and>
     (\<forall>m \<in> set (methodsOf S). methodIn S m)"

lemma typeIn_cong: "length (schMessages S') = length (schMessages S) \<Longrightarrow> length (schEnums S') = length (schEnums S) \<Longrightarrow>
    typeIn S' t = typeIn S t"
  by (induction t) auto

lemma buildVariant_in:
  "buildVariant sc c path args vd = Inr v \<Longrightarrow> tablesOk c \<Longrightarrow> \<exists>t. vType v = Some t \<and> typeIn (cSchema c) t"
  by (auto simp: buildVariant_def bindE_eq_Inr dest: resolveType_in split: if_splits)

lemma buildOneof_in:
  assumes "buildOneof sc c path od = Inr o1" "tablesOk c" "v \<in> set (oVariants o1)"
  shows "\<exists>t. vType v = Some t \<and> typeIn (cSchema c) t"
  using assms buildVariant_in [OF _ assms(2)]
  by (fastforce simp: buildOneof_def Let_def bindE_eq_Inr mapE_Inr list_all2_conv_all_nth in_set_conv_nth)

lemma applyInt64_keeps:
  "applyInt64 opts path fd t f = Inr f' \<Longrightarrow>
     fType f' = fType f \<and> fOneof f' = fOneof f \<and> fMessage f' = fMessage f \<and> fName f' = fName f \<and>
     fRepeated f' = fRepeated f \<and> fOptional f' = fOptional f"
  by (auto simp: applyInt64_def bindE_eq_Inr split: if_splits)

lemma applyNullable_keeps:
  "applyNullable opts path fd f = Inr f' \<Longrightarrow>
     fType f' = fType f \<and> fOneof f' = fOneof f \<and> fMessage f' = fMessage f \<and> fName f' = fName f \<and>
     fRepeated f' = fRepeated f \<and> fOptional f' = fOptional f"
  by (auto simp: applyNullable_def Let_def split: if_splits)

lemma buildField_in:
  assumes "buildField opts sc c path owner fd = Inr f" "tablesOk c"
  shows "fieldIn (cSchema c) owner f \<and> fName f = fdName fd \<and> fRepeated f = fdRepeated fd \<and> fOptional f = fdOptional fd"
proof (cases "fdOneof fd")
  case (Some od)
  with assms(1) obtain o1 where "buildOneof sc c path od = Inr o1" "f = (newField fd owner)\<lparr>fOneof := Some o1\<rparr>"
    by (auto simp: buildField_def Let_def bindE_eq_Inr)
  then show ?thesis using buildOneof_in [OF _ assms(2)] by (simp add: fieldIn_def newField_def)
next
  case None
  with assms(1) obtain t f1 f2 where "resolveType sc c path (fdLine fd, fdCol fd) (fdType fd) = Inr t"
      "fType f1 = Some t" "fOneof f1 = None" "fMessage f1 = owner" "fName f1 = fdName fd" "fRepeated f1 = fdRepeated fd" "fOptional f1 = fdOptional fd"
      "applyInt64 opts path fd t f1 = Inr f2" "applyNullable opts path fd f2 = Inr f"
    by (force simp: buildField_def Let_def bindE_eq_Inr newField_def)
  then show ?thesis using applyInt64_keeps applyNullable_keeps resolveType_in [OF assms(2)]
    by (metis fieldIn_def option.discI option.pred_inject(2))
qed

lemma methodsOf_built:
  assumes "built opts sc sources forest c S" "m \<in> set (methodsOf S)"
  shows "methodIn S m"
proof -
  from assms(2) obtain fl sv where fl: "fl \<in> set (schFiles S)" "sv \<in> set (flServices fl)" "m \<in> set (sMethods sv)"
    by (auto simp: methodsOf_def allMethods_def)
  then obtain j where "j < length sources" "fl = schFiles S ! j"
    using assms(1) by (auto simp: built_def in_set_conv_nth)
  then obtain svs where "flServices fl = svs" "servicesBuilt S (sources ! j) svs"
    using assms(1) unfolding built_def by fastforce
  then show ?thesis using fl by (auto simp: servicesBuilt_def)
qed

lemma refsIn_shape: "sameShape S S' \<Longrightarrow> refsIn S \<Longrightarrow> refsIn S'"
proof -
  assume sh: "sameShape S S'" and S: "refsIn S"
  have l: "length (schMessages S') = length (schMessages S)" "schEnums S' = schEnums S" "length (schFiles S') = length (schFiles S)"
    using sh unfolding sameShape_def by (metis length_map)+
  have e: "enumAt S' e = enumAt S e" for e by (simp add: enumAt_def l)
  show ?thesis
  proof (rule refsInI)
    fix r assume "r < length (schMessages S')"
    then show "set (mNestedEnums (msgAt S' r)) \<subseteq> {..<length (schEnums S')}" "\<exists>i < length (schFiles S'). mFile (msgAt S' r) = Some i"
      using refsInD(1,2) [OF S, of r] unfolding l sameShape_fields(4,6) [OF sh] by blast+
  next
    fix x assume "x < length (schEnums S')"
    then show "\<exists>i < length (schFiles S'). enFile (enumAt S' x) = Some i"
      using refsInD(3) [OF S, of x] unfolding l e by blast
  next
    fix fl assume "fl \<in> set (schFiles S')"
    then obtain j where j: "j < length (schFiles S)" "fl = schFiles S' ! j" by (auto simp: in_set_conv_nth l)
    have "flMessages fl = flMessages (schFiles S ! j)" "flEnums fl = flEnums (schFiles S ! j)"
      using sameShape_files(2,3) [OF sh] j l by (metis nth_map)+
    then show "set (flMessages fl) \<subseteq> {..<length (schMessages S')} \<and> set (flEnums fl) \<subseteq> {..<length (schEnums S')}"
      using refsInD(4) [OF S, of "schFiles S ! j"] j unfolding l by simp
  qed
qed

lemma built_wellFormed:
  assumes "built opts sc sources forest c S"
  shows "wellFormed S"
proof -
  from assms have c: "declOk c" "tablesOk c" and sh: "sameShape (cSchema c) S" by (simp_all add: built_def declOk_def)
  have l: "length (schMessages S) = length (schMessages (cSchema c))" "length (schEnums S) = length (schEnums (cSchema c))"
    using sh unfolding sameShape_def by (metis length_map)+
  have "fieldIn S r f" if r: "r < length (schMessages S)" and f: "f \<in> set (fieldsAt S r)" for r f
  proof -
    from list_all2_nthD2 [OF built_represents [OF assms], of r] r obtain d where "representsDecl opts sc c S d r" by auto
    then have "mapE (buildField opts sc c (fst d) r) (mdFields (snd d)) = Inr (fieldsAt S r)"
      by (simp add: representsDecl_def represents_def)
    with f obtain fd where "buildField opts sc c (fst d) r fd = Inr f"
      by (auto simp: mapE_Inr list_all2_conv_all_nth in_set_conv_nth)
    from buildField_in [OF this c(2)] show ?thesis
      using typeIn_cong [OF l] by (simp add: fieldIn_def pred_option_def)
  qed
  then show ?thesis
    using c sameShape_nesting [OF sh] refsIn_shape [OF sh] methodsOf_built [OF assms]
    by (simp add: wellFormed_def declOk_def)
qed


subsection \<open>What the passes write\<close>

text \<open>The part of a field that no pass changes: all but \<open>@query\<close> decorators and two flags.\<close>

definition fieldCore :: "field \<Rightarrow> field" where
  "fieldCore f = f\<lparr>fDecorators := filter (\<lambda>d. decName d \<noteq> ''query'') (fDecorators f), fAlwaysSent := False, fValueItems := False\<rparr>"

definition methodCore :: "rpc \<Rightarrow> rpc" where
  "methodCore m = m\<lparr>rPrincipal := None\<rparr>"

definition keepsCore :: "schema \<Rightarrow> schema \<Rightarrow> bool" where
  "keepsCore S S' \<longleftrightarrow> sameShape S S' \<and> (\<forall>r. map fieldCore (fieldsAt S' r) = map fieldCore (fieldsAt S r)) \<and>
     map methodCore (methodsOf S') = map methodCore (methodsOf S)"

lemma keepsCore_refl [simp]: "keepsCore S S"
  by (simp add: keepsCore_def)

lemma keepsCore_trans [trans]: "keepsCore S S' \<Longrightarrow> keepsCore S' S'' \<Longrightarrow> keepsCore S S''"
  by (auto simp: keepsCore_def intro: sameShape_trans)

lemma keepsCore_length: "keepsCore S S' \<Longrightarrow> length (schMessages S') = length (schMessages S)"
  by (auto simp: keepsCore_def dest: sameShape_length)

text \<open>A pass over the messages is a fold of changes that keep the core of each field.\<close>

lemma setMessage_core:
  assumes "\<And>m. messageShape (g m) = messageShape m" "\<And>m. map fieldCore (mFields (g m)) = map fieldCore (mFields m)"
  shows "keepsCore S (setMessage r g S)"
proof (cases "r < length (schMessages S)")
  case True
  then show ?thesis
    using assms by (simp add: keepsCore_def setMessage_shape fieldsAt_def msgAt_setMessage methodsOf_def allMethods_def)
next
  case False
  then have "setMessage r g S = S" by (simp add: setMessage_def list_update_beyond)
  then show ?thesis by simp
qed

lemma foldl_core: "(\<And>x S. x \<in> set xs \<Longrightarrow> keepsCore S (h S x)) \<Longrightarrow> keepsCore S (foldl h S xs)"
proof (induction xs arbitrary: S)
  case (Cons x xs)
  have "keepsCore S (h S x)" by (rule Cons.prems) simp
  also have "keepsCore (h S x) (foldl h (h S x) xs)" by (rule Cons.IH) (rule Cons.prems, simp)
  finally show ?case by simp
qed simp

lemma markResponseOnly_core: "keepsCore S' (markResponseOnly S z S' r)"
  unfolding markResponseOnly_def Let_def
  by (rule setMessage_core) (simp_all add: messageShape_def markFields_def fieldCore_def)

lemma markResponseOnlyMessages_core: "markResponseOnlyMessages S z = Some S' \<Longrightarrow> keepsCore S S'"
  by (auto simp: markResponseOnlyMessages_def intro: foldl_core markResponseOnly_core)

lemma markValueItems_core: "markValueItems S = Some S' \<Longrightarrow> keepsCore S S'"
  by (auto simp: markValueItems_def messageShape_def fieldCore_def markValueItem_def intro!: foldl_core setMessage_core)

lemma bindBodylessQueryFields_core: "keepsCore S (bindBodylessQueryFields S)"
  by (auto simp: bindBodylessQueryFields_def bindQueryFields_def Let_def messageShape_def fieldCore_def
      intro!: foldl_core setMessage_core)

lemma checkAuthorize_Inr:
  assumes "checkAuthorize S path rd p d m = Inr m'"
  shows "\<exists>pr src req n. p = Some pr \<and> m' = m\<lparr>rPrincipal := Some pr\<rparr> \<and> argValueAt (ddArgs d) 0 = Inr src \<and> rRequest m = Some req \<and>
    compileAuthorize S src pr req = Inr n"
proof -
  from assms obtain pr where p: "p = Some pr" by (cases p) (auto simp: checkAuthorize_def exprError_def Let_def)
  with assms obtain src where src: "argValueAt (ddArgs d) 0 = Inr src"
    by (cases "argValueAt (ddArgs d) 0") (auto simp: checkAuthorize_def Let_def liftE_def)
  with p assms obtain msg where msg: "argValueAt (ddArgs d) 1 = Inr msg"
    by (cases "argValueAt (ddArgs d) 1") (auto simp: checkAuthorize_def Let_def liftE_def)
  with p src assms obtain req where req: "rRequest m = Some req"
    by (cases "rRequest m") (auto simp: checkAuthorize_def Let_def liftE_def)
  with p src msg assms obtain n where n: "compileAuthorize S src pr req = Inr n"
    by (cases "compileAuthorize S src pr req") (auto simp: checkAuthorize_def Let_def liftE_def)
  with p src msg req assms have "m' = m\<lparr>rPrincipal := Some pr\<rparr>"
    by (auto simp: checkAuthorize_def Let_def liftE_def exprError_def split: if_splits)
  with p src req n show ?thesis by blast
qed

lemma checkAuthorize_core: "checkAuthorize S path rd p d m = Inr m' \<Longrightarrow> methodCore m' = methodCore m"
  using checkAuthorize_Inr by (fastforce simp: methodCore_def)

lemma validateRPCAuthorize_core: "validateRPCAuthorize S path p (rd, m) = Inr m' \<Longrightarrow> methodCore m' = methodCore m"
  unfolding validateRPCAuthorize_def prod.case
  by (rule foldE_invariant [where P = "\<lambda>x. methodCore x = methodCore m"]) (auto dest: checkAuthorize_core)

text \<open>The declarations and the built lists pair up, so no method is lost.\<close>

lemma mapE_zip_core:
  assumes "mapE f (zip xs ys) = Inr zs" "length xs = length ys" "\<And>x y z. (x, y) \<in> set (zip xs ys) \<Longrightarrow> f (x, y) = Inr z \<Longrightarrow> h z = h y"
  shows "map h zs = map h ys"
proof -
  have l: "list_all2 (\<lambda>p z. f p = Inr z) (zip xs ys) zs" using assms(1) by (simp add: mapE_Inr)
  then have len: "length zs = length ys" using assms(2) by (auto dest: list_all2_lengthD)
  show ?thesis
  proof (rule nth_equalityI)
    fix i assume "i < length (map h zs)"
    then have i: "i < length zs" "i < length ys" using len by simp_all
    then have "(xs ! i, ys ! i) \<in> set (zip xs ys)" using assms(2) by (auto simp: set_zip)
    moreover have "f (xs ! i, ys ! i) = Inr (zs ! i)" using list_all2_nthD [OF l, of i] i assms(2) by simp
    ultimately show "map h zs ! i = map h ys ! i" using assms(3) i by simp
  qed (simp add: len)
qed

definition serviceCore :: "service \<Rightarrow> service" where
  "serviceCore sv = sv\<lparr>sMethods := map methodCore (sMethods sv)\<rparr>"

definition fileCore :: "schemaFile \<Rightarrow> schemaFile" where
  "fileCore f = f\<lparr>flServices := map serviceCore (flServices f)\<rparr>"

lemma authorizeService_core:
  assumes "authorizeService S path p (sd, sv) = Inr sv'" "serviceOf sd sv"
  shows "serviceCore sv' = serviceCore sv"
proof -
  from assms(1) obtain ms where ms: "mapE (validateRPCAuthorize S path p) (zip (sdRPCs sd) (sMethods sv)) = Inr ms" "sv' = sv\<lparr>sMethods := ms\<rparr>"
    by (auto simp: authorizeService_def bindE_eq_Inr)
  have "map methodCore ms = map methodCore (sMethods sv)"
    by (rule mapE_zip_core [OF ms(1)])
      (use assms(2) in \<open>auto simp: serviceOf_def dest: list_all2_lengthD validateRPCAuthorize_core\<close>)
  then show ?thesis by (simp add: ms(2) serviceCore_def)
qed

lemma authorizeFile_core:
  assumes "authorizeFile S p (s, f) = Inr f'" "list_all2 serviceOf (fldServices (srcAST s)) (flServices f)"
  shows "fileCore f' = fileCore f"
proof -
  from assms(1) obtain svs where svs: "mapE (authorizeService S (srcPath s) p) (zip (fldServices (srcAST s)) (flServices f)) = Inr svs"
      "f' = f\<lparr>flServices := svs\<rparr>"
    by (auto simp: authorizeFile_def bindE_eq_Inr)
  have "map serviceCore svs = map serviceCore (flServices f)"
  proof (rule mapE_zip_core [OF svs(1)])
    show "length (fldServices (srcAST s)) = length (flServices f)" using assms(2) by (rule list_all2_lengthD)
    fix sd sv sv' assume "(sd, sv) \<in> set (zip (fldServices (srcAST s)) (flServices f))" "authorizeService S (srcPath s) p (sd, sv) = Inr sv'"
    moreover from this(1) have "serviceOf sd sv" using assms(2) by (auto simp: list_all2_iff)
    ultimately show "serviceCore sv' = serviceCore sv" by (intro authorizeService_core)
  qed
  then show ?thesis by (simp add: svs(2) fileCore_def)
qed

lemma methodsOf_core: "map methodCore (methodsOf S) = concat (map (\<lambda>f. concat (map sMethods (flServices (fileCore f)))) (schFiles S))"
  by (simp add: methodsOf_def allMethods_def map_concat o_def fileCore_def serviceCore_def)

lemma validateAuthorize_core:
  assumes "validateAuthorize S sources forest = Inr S'" "length (schFiles S) = length sources"
    "\<forall>j < length sources. list_all2 serviceOf (fldServices (srcAST (sources ! j))) (flServices (schFiles S ! j))"
  shows "keepsCore S S'"
proof -
  from assms(1) obtain p fls where f: "mapE (authorizeFile S p) (zip sources (schFiles S)) = Inr fls" "S' = S\<lparr>schFiles := fls\<rparr>"
    by (auto simp: validateAuthorize_def bindE_eq_Inr)
  have c: "map fileCore fls = map fileCore (schFiles S)"
  proof (rule mapE_zip_core [OF f(1)])
    fix s x y assume x: "(s, x) \<in> set (zip sources (schFiles S))" "authorizeFile S p (s, x) = Inr y"
    from x(1) have "list_all2 serviceOf (fldServices (srcAST s)) (flServices x)" using assms(2,3) by (auto simp: set_zip)
    with x(2) show "fileCore y = fileCore x" by (rule authorizeFile_core)
  qed (simp add: assms(2))
  have "map methodCore (methodsOf S') = map methodCore (methodsOf S)"
    unfolding methodsOf_core f(2)
    using arg_cong [OF c, of "map (\<lambda>f. concat (map sMethods (flServices f)))"] by (simp add: o_def)
  moreover have "map fileShape fls = map fileShape (schFiles S)"
  proof -
    have "fileShape x = fileShape (fileCore x)" for x by (simp add: fileShape_def fileCore_def)
    then have "map fileShape xs = map fileShape (map fileCore xs)" for xs by simp
    with c show ?thesis by metis
  qed
  ultimately show ?thesis by (simp add: keepsCore_def sameShape_def f(2) fieldsAt_def msgAt_def)
qed

lemma methodIn_core:
  assumes "keepsCore S S'" "\<forall>m \<in> set (methodsOf S). methodIn S m" "x \<in> set (methodsOf S')"
  shows "methodIn S' x"
proof -
  have "methodCore x \<in> set (map methodCore (methodsOf S))" using assms(1,3) by (metis image_eqI keepsCore_def list.set_map)
  then obtain y where y: "y \<in> set (methodsOf S)" "methodCore x = methodCore y" by auto
  have "rRequest x = rRequest y" "rResponse x = rResponse y" "rErrorTypes x = rErrorTypes y"
    using y(2) by (cases x; cases y; simp add: methodCore_def)+
  moreover have "methodIn S y" using assms(2) y(1) by blast
  ultimately show ?thesis using keepsCore_length [OF assms(1)] by (simp add: methodIn_def)
qed

lemma wellFormed_core:
  assumes "keepsCore S S'" "wellFormed S"
  shows "wellFormed S'"
proof -
  from assms(1) have sh: "sameShape S S'" and f: "\<And>r. map fieldCore (fieldsAt S' r) = map fieldCore (fieldsAt S r)"
    by (simp_all add: keepsCore_def)
  have l: "length (schMessages S') = length (schMessages S)" "length (schEnums S') = length (schEnums S)"
    using sh unfolding sameShape_def by (metis length_map)+
  have "fieldIn S' r g" if "r < length (schMessages S')" "g \<in> set (fieldsAt S' r)" for r g
  proof -
    have "fieldCore g \<in> set (map fieldCore (fieldsAt S r))" using that(2) f [of r] by (metis image_eqI list.set_map)
    then obtain h where h: "h \<in> set (fieldsAt S r)" "fieldCore g = fieldCore h" by auto
    have "fMessage g = fMessage h" "fType g = fType h" "fOneof g = fOneof h"
      using h(2) by (cases g; cases h; simp add: fieldCore_def)+
    moreover have "fieldIn S r h" using assms(2) h(1) that(1) l by (simp add: wellFormed_def)
    ultimately show ?thesis using typeIn_cong [OF l] by (simp add: fieldIn_def pred_option_def)
  qed
  moreover have "methodIn S' x" if "x \<in> set (methodsOf S')" for x
    using methodIn_core [OF assms(1) _ that] assms(2) by (simp add: wellFormed_def)
  ultimately show ?thesis
    using assms(2) sameShape_nesting [OF sh] refsIn_shape [OF sh] by (simp add: wellFormed_def)
qed

end
