(* ===== verification/Pipeline.thy ===== *)
theory Pipeline
  imports Compiled
begin

text \<open>
  \<open>CompileWithOptions\<close> as a whole: its stages, what a compiled package inherits from each, and the
  runs that end in a panic (none, for documents the front ends' check accepts).
\<close>

subsection \<open>Stages\<close>

definition stages :: "goLib \<Rightarrow> source list \<Rightarrow> compileOptions \<Rightarrow> scopes \<Rightarrow> msgNode list list \<Rightarrow> compiler \<Rightarrow> schema \<Rightarrow> schema \<Rightarrow> schema \<Rightarrow> bool" where
  "stages lib sources opts sc forest c S0 S1 S \<longleftrightarrow>
     validateSyntax lib sources opts = passed \<and> validateAndBuildImportScopes sources = Some (Inr sc) \<and>
     buildSchema opts sc sources = Inr (forest, S0) \<and> built opts sc sources forest c S0 \<and>
     validateRules S0 sources forest = Inr () \<and> validateAuthorize S0 sources forest = Inr S1 \<and>
     keepsCore S0 S1 \<and> keepsCore S1 S \<and> validateContract S opts = Inr ()"

lemma liftE_Inr [simp]: "liftE m = Inr x \<longleftrightarrow> m = Inr x"
  by (simp add: liftE_def split: sum.split)

lemma orNoReturn_Inr [simp]: "orNoReturn m = Inr x \<longleftrightarrow> m = Some x"
  by (simp add: orNoReturn_def split: option.split)

lemma built_services:
  assumes "built opts sc sources forest c S" "j < length sources"
  shows "list_all2 serviceOf (fldServices (srcAST (sources ! j))) (flServices (schFiles S ! j))"
proof -
  obtain f svs where "schFiles S ! j = f\<lparr>flServices := svs\<rparr>" "servicesBuilt S (sources ! j) svs"
    using assms unfolding built_def by blast
  then show ?thesis by (simp add: servicesBuilt_def)
qed

lemma built_authorize: "built opts sc sources forest c S \<Longrightarrow> validateAuthorize S sources forest = Inr S' \<Longrightarrow> keepsCore S S'"
  by (rule validateAuthorize_core) (auto simp: built_services, simp add: built_def)

lemma compile_stages:
  assumes "compileWithOptions lib sources opts = Inr S"
  shows "\<exists>sc forest c S0 S1. stages lib sources opts sc forest c S0 S1 S"
proof -
  from assms obtain sc forest S0 S1 S2 S3 where
    1: "validateSyntax lib sources opts = passed" "validateAndBuildImportScopes sources = Some (Inr sc)"
    and 2: "buildSchema opts sc sources = Inr (forest, S0)"
    and 3: "validateRules S0 sources forest = Inr ()" "validateAuthorize S0 sources forest = Inr S1"
    and 4: "markResponseOnlyMessages S1 (emitZeroValues opts) = Some S2"
    and 5: "(if repeatedValues opts then orNoReturn (markValueItems S2) else Inr S2) = Inr S3"
    and 6: "S = bindBodylessQueryFields S3" "validateContract S opts = Inr ()"
    by (auto simp: compileWithOptions_def bindE_eq_Inr Let_def split: prod.splits)
  obtain c where c: "built opts sc sources forest c S0" using buildSchema_built [OF 2] by blast
  have "keepsCore S1 S2" by (rule markResponseOnlyMessages_core [OF 4])
  also have "keepsCore S2 S3" using 5 markValueItems_core by (auto split: if_splits)
  also have "keepsCore S3 S" unfolding 6 by (rule bindBodylessQueryFields_core)
  finally have "keepsCore S1 S" .
  with 1 2 3 6 c built_authorize [OF c 3(2)] show ?thesis unfolding stages_def by blast
qed

subsection \<open>Compiled packages\<close>

lemma stages_core: "stages lib sources opts sc forest c S0 S1 S \<Longrightarrow> keepsCore S0 S"
  unfolding stages_def using keepsCore_trans by blast

lemma compiled_wellFormed: "compileWithOptions lib sources opts = Inr S \<Longrightarrow> wellFormed S"
  using compile_stages stages_core built_wellFormed wellFormed_core unfolding stages_def by metis

lemma wellFormed_compat:
  assumes "wellFormed S"
  shows "nestingOk S" "methodsOk S" "rootsIn S (set (usageRoots S))"
proof -
  have m: "methodIn S m" if "(fl, sv, m) \<in> set (allMethods S)" for fl sv m
    using assms that unfolding wellFormed_def methodsOf_def by force
  show "nestingOk S" using assms by (simp add: wellFormed_def)
  show "methodsOk S" using m unfolding methodsOk_def methodIn_def by fastforce
  show "rootsIn S (set (usageRoots S))"
    unfolding rootsIn_def usageRoots_def using m by (fastforce simp: methodRoots_def methodIn_def)
qed

lemma messageOk_enums: "messageOk opts md \<Longrightarrow> e \<in> set (enumDeclsIn md) \<Longrightarrow> enumOk e"
  by (induction md) auto

lemma messageOk_decls: "messageOk opts md \<Longrightarrow> d \<in> set (declsIn md) \<Longrightarrow> messageOk opts d"
  by (induction md) auto

lemma compiled_enums:
  assumes "compileWithOptions lib sources opts = Inr S" "e < length (schEnums S)"
  shows "\<exists>ed. enumOk ed \<and> enValues (enumAt S e) = enumValuesOf ed"
proof -
  obtain sc forest c S0 S1 where st: "stages lib sources opts sc forest c S0 S1 S" using compile_stages [OF assms(1)] by blast
  then have "allValues S0 = map enumValuesOf (enumDeclsOf sources)" by (simp add: stages_def built_def)
  moreover have "allValues S = allValues S0" using stages_core [OF st] by (simp add: keepsCore_def sameShape_def allValues_def)
  moreover have "enValues (enumAt S e) \<in> set (allValues S)" using assms(2) by (auto simp: allValues_def enumAt_def)
  ultimately obtain ed where ed: "ed \<in> set (enumDeclsOf sources)" "enValues (enumAt S e) = enumValuesOf ed" by auto
  have "validateSyntax lib sources opts = passed" using st by (simp add: stages_def)
  then have "\<forall>s \<in> set sources. sourceOk opts s" by (rule validateSyntax_ok(1))
  then have "enumOk ed" using ed(1) messageOk_enums by (fastforce simp: enumDeclsOf_def sourceOk_def)
  with ed(2) show ?thesis by blast
qed

lemma compiled_wfSchema:
  assumes "compileWithOptions lib sources opts = Inr S"
  shows "wfSchema S"
proof -
  have "irTypeOk S t" if "typeIn S t" for t
    using that
  proof (induction t)
    case (TEnum e)
    then obtain ed where "enumOk ed" "enValues (enumAt S e) = enumValuesOf ed" using compiled_enums [OF assms] by auto
    then show ?case by (cases "edValues ed") (simp_all add: enumOk_def enumValuesOf_def)
  qed simp_all
  then have "pred_option (irTypeOk S) (fType f)" if "r < length (schMessages S)" "f \<in> set (fieldsAt S r)" for r f
    using compiled_wellFormed [OF assms] that by (auto simp: wellFormed_def fieldIn_def pred_option_def)
  then have "pred_option (irTypeOk S) (fType f)" if "m \<in> set (schMessages S)" "f \<in> set (mFields m)" for m f
    using that by (metis fieldsAt_def in_set_conv_nth msgAt_def)
  then show ?thesis by (simp add: wfSchema_def list_all_iff)
qed


subsection \<open>No panics\<close>

text \<open>
  \<open>safeRun\<close> for the errors of a whole compilation. With \<open>b\<close>, the run also returns.
\<close>

definition calm :: "bool \<Rightarrow> compileError + 'a \<Rightarrow> bool" where
  "calm b m \<longleftrightarrow> m \<noteq> Inl (Failed Panic) \<and> (b \<longrightarrow> m \<noteq> Inl NoReturn)"

named_theorems calm_intros "why a stage of the compiler does not panic"

lemma calm_Inr [calm_intros, simp]: "calm b (Inr x)"
  by (simp add: calm_def)

lemma calm_bindE [calm_intros]: "calm b m \<Longrightarrow> (\<And>x. m = Inr x \<Longrightarrow> calm b (f x)) \<Longrightarrow> calm b (bindE m f)"
  by (cases m) (auto simp: calm_def)

lemma calm_liftE [calm_intros]: "safeRun m \<Longrightarrow> calm b (liftE m)"
  by (cases m) (auto simp: liftE_def calm_def safeRun_def)

lemma calm_foldE [calm_intros]: "(\<And>x s. x \<in> set xs \<Longrightarrow> calm b (f x s)) \<Longrightarrow> calm b (foldE f xs s)"
  by (induction xs arbitrary: s) (auto intro!: calm_bindE)

lemma calm_eachE [calm_intros]: "(\<And>x. x \<in> set xs \<Longrightarrow> calm b (f x)) \<Longrightarrow> calm b (eachE f xs)"
  by (induction xs) (auto intro!: calm_bindE)

lemma calm_mapE [calm_intros]: "(\<And>x. x \<in> set xs \<Longrightarrow> calm b (f x)) \<Longrightarrow> calm b (mapE f xs)"
  by (induction xs) (auto intro!: calm_bindE)

lemma calm_orNoReturn [calm_intros]: "(b \<Longrightarrow> m \<noteq> None) \<Longrightarrow> calm b (orNoReturn m)"
  by (auto simp: orNoReturn_def calm_def split: option.split)

lemma calm_contractError [calm_intros]: "calm b (contractError path line fmt args)"
  by (simp add: contractError_def calm_def)

lemma calm_exprError [calm_intros]: "calm b (exprError path pos code fmt)"
  by (simp add: exprError_def calm_def)

lemma calm_if [calm_intros]: "(c \<Longrightarrow> calm b x) \<Longrightarrow> (\<not> c \<Longrightarrow> calm b y) \<Longrightarrow> calm b (if c then x else y)"
  by simp

lemma calm_option [calm_intros]:
  "(x = None \<Longrightarrow> calm b a) \<Longrightarrow> (\<And>y. x = Some y \<Longrightarrow> calm b (f y)) \<Longrightarrow> calm b (case x of None \<Rightarrow> a | Some y \<Rightarrow> f y)"
  by (cases x) auto

lemma calm_prod [calm_intros]: "(\<And>y z. x = (y, z) \<Longrightarrow> calm b (f y z)) \<Longrightarrow> calm b (case x of (y, z) \<Rightarrow> f y z)"
  by (cases x) auto

lemma calm_list [calm_intros]:
  "(xs = [] \<Longrightarrow> calm b a) \<Longrightarrow> (\<And>y ys. xs = y # ys \<Longrightarrow> calm b (f y ys)) \<Longrightarrow> calm b (case xs of [] \<Rightarrow> a | y # ys \<Rightarrow> f y ys)"
  by (cases xs) auto

lemma calm_sum [calm_intros]:
  "(\<And>e. x = Inl e \<Longrightarrow> calm b (g e)) \<Longrightarrow> (\<And>y. x = Inr y \<Longrightarrow> calm b (f y)) \<Longrightarrow> calm b (case x of Inl e \<Rightarrow> g e | Inr y \<Rightarrow> f y)"
  by (cases x) auto

lemma calm_other [calm_intros]: "calm False (Inl NoReturn)" "calm b (Inl (InvalidExpr p l c d s e))" "calm b (Inl (Failed (CompileError p l c d m)))"
  by (simp_all add: calm_def)

text \<open>Building: the only panics are missing types.\<close>

lemma safe_eachS [safe_intros]: "(\<And>x s. x \<in> set xs \<Longrightarrow> safeRun (f x s)) \<Longrightarrow> safeRun (eachS f xs s)"
  by (induction xs arbitrary: s) (auto intro!: safeRun_bindE split: prod.split)

lemma safe_mapE [safe_intros]: "(\<And>x. x \<in> set xs \<Longrightarrow> safeRun (f x)) \<Longrightarrow> safeRun (mapE f xs)"
  by (induction xs) (auto intro!: safeRun_bindE)

lemma safe_declareEnum [safe_intros]: "safeRun (declareEnum path file parent ed c)"
  unfolding declareEnum_def Let_def by (intro safe_intros)

lemma safe_declareHead [safe_intros]: "safeRun (declareHead path file parent md c)"
  unfolding declareHead_def Let_def by (intro safe_intros)

lemma safe_declareMessage: "safeRun (declareMessage path file parent md c)"
proof (induction md arbitrary: parent c)
  case (MessageDecl name doc decs fds nested nestedEn line col)
  show ?case unfolding declareMessage.simps by (intro safe_intros MessageDecl.IH)
qed

lemma safe_declareSource: "safeRun (declareSource s c)"
  unfolding declareSource_def Let_def by (intro safe_intros safe_declareMessage)

lemma safe_sum [safe_intros]:
  "(\<And>e. x = Inl e \<Longrightarrow> safeRun (g e)) \<Longrightarrow> (\<And>y. x = Inr y \<Longrightarrow> safeRun (f y)) \<Longrightarrow> safeRun (case x of Inl e \<Rightarrow> g e | Inr y \<Rightarrow> f y)"
  by (cases x) auto

lemma safe_resolveName: "safeRun (resolveName sc c path line col name)"
  unfolding resolveName_def by (intro safe_intros)

lemma safe_resolveType: "typeShaped t \<Longrightarrow> safeRun (resolveType sc c path pos t)"
proof (induction sc c path pos t rule: resolveType.induct)
  case (2 sc c path pos sp name isMap mapKey mapVal)
  show ?case
  proof (cases isMap)
    case True
    then show ?thesis unfolding resolveType.simps Let_def
      by (intro safe_intros 2(1) [OF refl]) (use 2(2) in simp_all)
  next
    case False
    then show ?thesis by (simp add: Let_def safe_resolveName)
  qed
qed simp

lemma safe_buildVariant: "typeShaped (vdType vd) \<Longrightarrow> safeRun (buildVariant sc c path args vd)"
  unfolding buildVariant_def by (intro safe_intros safe_resolveType)

lemma safe_buildField: "fieldShaped fd \<Longrightarrow> safeRun (buildField opts sc c path owner fd)"
  unfolding buildField_def buildOneof_def applyInt64_def applyNullable_def Let_def
  by (intro safe_intros safe_resolveType safe_buildVariant) (auto simp: fieldShaped_def)

lemma safe_fillMessage: "messageShaped md \<Longrightarrow> safeRun (fillMessage opts sc c path md nd S)"
proof (induction md arbitrary: nd S)
  case (MessageDecl name doc decs fds nested nestedEn line col)
  show ?case unfolding fillMessage.simps
    by (intro safe_intros safe_buildField) (use MessageDecl in \<open>auto dest: set_zip_leftD\<close>)
qed

lemma safe_needMessage [safe_intros]: "safeRun (needMessage sc c path p q what name)"
  unfolding needMessage_def by (simp split: sum.split option.split)

lemma safe_buildHeaders [safe_intros]: "safeRun (buildHeaders path hs)"
  unfolding buildHeaders_def buildHeader_def by (intro safe_intros)

lemma safe_buildService: "safeRun (buildService sc c path sd S)"
  unfolding buildService_def buildMethod_def addErrorType_def Let_def by (intro safe_intros)

lemma safe_fillSource:
  assumes "sourceShaped s"
  shows "safeRun (fillSource opts sc c (i, s, nds) S)"
  unfolding fillSource_def prod.case
  by (intro safe_intros safe_buildService) (use assms in \<open>auto simp: sourceShaped_def dest: set_zip_leftD intro: safe_fillMessage\<close>)

lemma safe_buildSchema:
  assumes "\<forall>s \<in> set sources. sourceShaped s"
  shows "safeRun (buildSchema opts sc sources)"
  unfolding buildSchema_def
proof (intro safe_intros safe_declareSource)
  fix forest :: "msgNode list list" and c x S assume "x \<in> set (zip [0..<length sources] (zip sources forest))"
  moreover obtain i s nds where x: "x = (i, s, nds)" by (cases x)
  ultimately have "(s, nds) \<in> set (zip sources forest)" using set_zip_rightD by fast
  then have "s \<in> set sources" by (rule set_zip_leftD)
  with x show "safeRun (fillSource opts sc c x S)" using assms by (simp add: safe_fillSource)
qed

text \<open>Rules and authorization: the arguments they read are there, by the check of the declarations.\<close>

definition ruleArgsOk :: "decoratorDecl list \<Rightarrow> bool" where
  "ruleArgsOk ds \<longleftrightarrow> (\<forall>d \<in> set ds. ddName d \<in> {''rule'', ''authorize''} \<longrightarrow> length (ddArgs d) = 2)"

fun rulesReadable :: "messageDecl \<Rightarrow> bool" where
  "rulesReadable (MessageDecl name doc decs fds nested nestedEn line col) \<longleftrightarrow>
     ruleArgsOk decs \<and> (\<forall>fd \<in> set fds. ruleArgsOk (fdDecorators fd)) \<and> (\<forall>md \<in> set nested. rulesReadable md)"

lemma safe_checkRuleDecorator: "length (ddArgs d) = 2 \<Longrightarrow> calm b (checkRuleDecorator S path m f d)"
  unfolding checkRuleDecorator_def by (intro calm_intros safe_argValueAt) simp_all

lemma rulesOf_args: "ruleArgsOk ds \<Longrightarrow> d \<in> set (rulesOf ds) \<Longrightarrow> length (ddArgs d) = 2"
  by (auto simp: ruleArgsOk_def rulesOf_def)

lemma safe_validateMessageRules: "rulesReadable md \<Longrightarrow> calm b (validateMessageRules S path md nd)"
proof (induction md arbitrary: nd)
  case (MessageDecl name doc decs fds nested nestedEn line col)
  show ?case unfolding validateMessageRules.simps Let_def
    by (intro calm_intros safe_checkRuleDecorator MessageDecl.IH)
      (use MessageDecl.prems in \<open>auto dest: set_zip_leftD intro: rulesOf_args\<close>)
qed

lemma safe_findPrincipalIn: "calm b (findPrincipalIn S path md nd found)"
proof (induction md arbitrary: nd found)
  case (MessageDecl name doc decs fds nested nestedEn line col)
  show ?case unfolding findPrincipalIn.simps markPrincipal_def
    by (intro calm_intros) (auto dest: set_zip_leftD intro: MessageDecl.IH)
qed

lemma safe_findPrincipal: "calm b (findPrincipal S sources forest)"
  unfolding findPrincipal_def by (intro calm_intros) (auto intro!: calm_foldE safe_findPrincipalIn)

lemma safe_checkAuthorize:
  assumes "length (ddArgs d) = 2" "rRequest m \<noteq> None"
  shows "calm b (checkAuthorize S path rd p d m)"
  unfolding checkAuthorize_def Let_def
  by (intro calm_intros safe_argValueAt) (use assms in auto)

lemma safe_validateRPCAuthorize:
  assumes "ruleArgsOk (rdDecorators rd)" "rRequest m \<noteq> None"
  shows "calm b (validateRPCAuthorize S path p (rd, m))"
proof -
  have "calm b (foldE (checkAuthorize S path rd p) ds m)" if "\<forall>d \<in> set ds. length (ddArgs d) = 2" for ds
    using that assms(2)
  proof (induction ds arbitrary: m)
    case (Cons d ds)
    show ?case unfolding foldE.simps
    proof (rule calm_bindE)
      show "calm b (checkAuthorize S path rd p d m)" using Cons.prems by (simp add: safe_checkAuthorize)
      fix m' assume "checkAuthorize S path rd p d m = Inr m'"
      then have "rRequest m' \<noteq> None" using checkAuthorize_Inr Cons.prems(2) by fastforce
      then show "calm b (foldE (checkAuthorize S path rd p) ds m')" using Cons by simp
    qed
  qed simp
  then show ?thesis using assms(1) by (simp add: validateRPCAuthorize_def ruleArgsOk_def)
qed


lemma decsOk_ruleArgs:
  assumes "decsOk rules ds" "rules = messageDecorators \<or> rules = fieldDecorators"
  shows "ruleArgsOk ds"
  unfolding ruleArgsOk_def
proof (intro ballI impI)
  fix d assume d: "d \<in> set ds" "ddName d \<in> {''rule'', ''authorize''}"
  from assms(1) d(1) obtain mn mx where m: "map_of rules (ddName d) = Some (mn, mx)" "mn \<le> length (ddArgs d)"
      "0 \<le> mx \<longrightarrow> int (length (ddArgs d)) \<le> mx" by (fastforce simp: decsOk_def)
  from assms(2) d(2) m(1) have "mn = 2 \<and> mx = 2"
    by (auto simp: messageDecorators_def fieldDecorators_def)
  with m show "length (ddArgs d) = 2" by simp
qed

lemma messageOk_readable: "messageOk opts md \<Longrightarrow> rulesReadable md"
  by (induction md) (auto simp: fieldOk_def intro: decsOk_ruleArgs)

lemma checkRpcDecorator_args:
  assumes "checkRpcDecorator path rd allowEmpty d vr = Inr vr'" "ddName d \<in> {''rule'', ''authorize''}"
  shows "length (ddArgs d) = 2"
proof -
  from assms(2) consider "ddName d = ''rule''" | "ddName d = ''authorize''" by auto
  then show ?thesis
  proof cases
    case 1
    with assms(1) show ?thesis by (simp add: checkRpcDecorator_def Let_def isHTTPVerb_def)
  next
    case 2
    with assms(1) show ?thesis
      by (simp add: checkRpcDecorator_def Let_def isHTTPVerb_def validateAuthorization_def bindE_eq_Inr split: if_splits)
  qed
qed

lemma validateRPC_args:
  assumes "isOk (validateRPC path rd allowEmpty)"
  shows "ruleArgsOk (rdDecorators rd)"
proof -
  from assms obtain vr where f: "foldE (checkRpcDecorator path rd allowEmpty) (rdDecorators rd) ([], []) = Inr vr"
    by (cases "foldE (checkRpcDecorator path rd allowEmpty) (rdDecorators rd) ([], [])") (auto simp: validateRPC_def)
  show ?thesis
    unfolding ruleArgsOk_def using foldE_each [OF f] checkRpcDecorator_args by blast
qed


lemma safe_validateRules:
  assumes "\<forall>s \<in> set sources. sourceOk opts s"
  shows "calm b (validateRules S sources forest)"
  unfolding validateRules_def
proof (rule calm_eachE)
  fix x assume x: "x \<in> set (zip sources forest)"
  obtain s nds where s: "x = (s, nds)" by (cases x)
  with x assms have "sourceOk opts s" by (auto dest: set_zip_leftD)
  then have "calm b (eachE (\<lambda>(md, n). validateMessageRules S (srcPath s) md n) (zip (fldMessages (srcAST s)) nds))"
    by (intro calm_eachE) (auto simp: sourceOk_def dest: set_zip_leftD intro!: safe_validateMessageRules messageOk_readable)
  with s show "calm b (case x of (s, nodes) \<Rightarrow> eachE (\<lambda>(md, n). validateMessageRules S (srcPath s) md n) (zip (fldMessages (srcAST s)) nodes))"
    by simp
qed

lemma safe_validateAuthorize:
  assumes "\<forall>s \<in> set sources. sourceOk opts s" "\<forall>m \<in> set (methodsOf S). rRequest m \<noteq> None"
  shows "calm b (validateAuthorize S sources forest)"
proof -
  have m: "rRequest m \<noteq> None" if "f \<in> set (schFiles S)" "sv \<in> set (flServices f)" "m \<in> set (sMethods sv)" for f sv m
    using assms(2) that by (force simp: methodsOf_def allMethods_def)
  have "calm b (authorizeService S (srcPath s) p (sd, sv))"
    if s: "s \<in> set sources" "sd \<in> set (fldServices (srcAST s))" and f: "f \<in> set (schFiles S)" "sv \<in> set (flServices f)" for s sd f sv p
  proof -
    have "serviceOk (srcPath s) sd" using assms(1) s by (auto simp: sourceOk_def)
    then have "ruleArgsOk (rdDecorators rd)" if "rd \<in> set (sdRPCs sd)" for rd
      using that validateRPC_args by (auto simp: serviceOk_def)
    then have "calm b (validateRPCAuthorize S (srcPath s) p (rd, x))" if "(rd, x) \<in> set (zip (sdRPCs sd) (sMethods sv))" for rd x
      using that m [OF f] by (intro safe_validateRPCAuthorize) (auto dest: set_zip_leftD set_zip_rightD)
    then show ?thesis unfolding authorizeService_def prod.case by (intro calm_intros) auto
  qed
  note sv = this
  have fl: "calm b (authorizeFile S p (s, f))" if "(s, f) \<in> set (zip sources (schFiles S))" for s f p
    unfolding authorizeFile_def prod.case
  proof (intro calm_intros)
    fix x assume x: "x \<in> set (zip (fldServices (srcAST s)) (flServices f))"
    moreover obtain sd sv where "x = (sd, sv)" by (cases x)
    ultimately show "calm b (authorizeService S (srcPath s) p x)"
      using sv [OF set_zip_leftD [OF that] _ set_zip_rightD [OF that]] set_zip_leftD set_zip_rightD by fast
  qed
  show ?thesis
    unfolding validateAuthorize_def
  proof (intro calm_intros safe_findPrincipal)
    fix p x assume "x \<in> set (zip sources (schFiles S))"
    moreover obtain s f where "x = (s, f)" by (cases x)
    ultimately show "calm b (authorizeFile S p x)" using fl by simp
  qed
qed

text \<open>The contract: the only panic left is a \<open>@ws_id\<close> on a field without a type.\<close>

definition idsTyped :: "schema \<Rightarrow> bool" where
  "idsTyped S \<longleftrightarrow> (\<forall>r. \<forall>f \<in> set (fieldsAt S r). fieldHasDecorator f ''ws_id'' \<longrightarrow> fType f \<noteq> None)"

lemma safe_keyLoop:
  "(\<And>r pre keys owner. calm b (inner r pre keys owner)) \<Longrightarrow> calm b (keyLoop inner pre owner fs keys)"
proof (induction fs arbitrary: keys)
  case (Cons f fs)
  show ?case unfolding keyLoop.simps Let_def by (intro calm_intros Cons)
qed simp

lemma safe_flattenedJSONKeys: "calm False (flattenedJSONKeys k S r pre keys owner)"
  by (induction k arbitrary: r pre keys owner) (auto intro!: safe_keyLoop calm_other)

lemma safe_validateFlattenKeys: "calm False (validateFlattenKeys k S path r)"
  unfolding validateFlattenKeys_def checkFlattenKeys_def by (intro calm_intros safe_flattenedJSONKeys)

lemma safe_validateFlattenCycle: "calm False (validateFlattenCycle k S path r branch)"
proof (induction k arbitrary: r branch)
  case (Suc k)
  show ?case unfolding validateFlattenCycle.simps by (intro calm_intros Suc)
qed (simp add: calm_def)

lemma safe_claimName [calm_intros]: "calm b (claimName path name p names)"
  unfolding claimName_def by (intro calm_intros)

lemma safe_validateCompiledField: "calm b (validateCompiledField S opts path f)"
  unfolding validateCompiledField_def Let_def by (intro calm_intros)

lemma safe_validateCompiledMessage: "calm False (validateCompiledMessage k S opts path r names)"
proof (induction k arbitrary: r names)
  case (Suc k)
  show ?case unfolding validateCompiledMessage.simps by (intro calm_intros Suc safe_validateCompiledField)
qed (simp add: calm_def)

lemma safe_checkPathParam: "calm b (checkPathParam path S m req route name seen)"
  unfolding checkPathParam_def by (intro calm_intros)

lemma safe_checkQueryField: "calm b (checkQueryField path opts m inPath f seen)"
  unfolding checkQueryField_def Let_def by (intro calm_intros)

lemma safe_checkBodyField: "calm b (checkBodyField path S m req inPath)"
  unfolding checkBodyField_def by (intro calm_intros)

lemma safe_validateUnboundFields: "calm b (validateUnboundFields path S opts m req inPath)"
  unfolding validateUnboundFields_def Let_def by (intro calm_intros)

lemma safe_wsIDFieldInScope: "calm b (wsIDFieldInScope path method scope fds)"
  unfolding wsIDFieldInScope_def by (intro calm_intros)

lemma wsIDFieldInScope_in: "wsIDFieldInScope path method scope fds = Inr (Some f) \<Longrightarrow> f \<in> set fds \<and> fieldHasDecorator f ''ws_id''"
proof -
  assume a: "wsIDFieldInScope path method scope fds = Inr (Some f)"
  have "filter (\<lambda>f. fieldHasDecorator f ''ws_id'') fds = [f]"
    using a by (auto simp: wsIDFieldInScope_def contractError_def split: list.splits)
  then have "f \<in> set (filter (\<lambda>f. fieldHasDecorator f ''ws_id'') fds)" by simp
  then show ?thesis by simp
qed

lemma safe_collect: "calm b (collectWSIDFields path method direction S r)"
  unfolding collectWSIDFields_def by (intro calm_intros safe_wsIDFieldInScope)

lemma collect_typed:
  assumes "collectWSIDFields path method direction S r = Inr fs" "idsTyped S" "f \<in> set fs"
  shows "fType f \<noteq> None"
proof -
  have ids: "fType f \<noteq> None" if "wsIDFieldInScope path method scope (mFields (msgAt S q)) = Inr (Some f)" for scope q f
    using wsIDFieldInScope_in [OF that] assms(2) by (auto simp: idsTyped_def fieldsAt_def)
  from assms(1) obtain own inner where
    1: "wsIDFieldInScope path method (direction @ '' message'') (mFields (msgAt S r)) = Inr own"
    and 2: "mapE (\<lambda>v. case variantMessage v of None \<Rightarrow> Inr None
       | Some t \<Rightarrow> wsIDFieldInScope path method (direction @ '' oneof variant '' @ vName v) (mFields (msgAt S t))) (messageVariants S r) = Inr inner"
    and 3: "fs = concat (map (\<lambda>f. case f of None \<Rightarrow> [] | Some x \<Rightarrow> [x]) (own # inner))"
    by (auto simp: collectWSIDFields_def bindE_eq_Inr)
  from assms(3) have "Some f \<in> set (own # inner)" by (auto simp: 3 split: option.splits)
  then show ?thesis
  proof (cases "own = Some f")
    case False
    with \<open>Some f \<in> set (own # inner)\<close> have "Some f \<in> set inner" by auto
    then obtain v where "(case variantMessage v of None \<Rightarrow> Inr None
       | Some t \<Rightarrow> wsIDFieldInScope path method (direction @ '' oneof variant '' @ vName v) (mFields (msgAt S t))) = Inr (Some f)"
      using 2 by (auto simp: mapE_Inr list_all2_conv_all_nth in_set_conv_nth)
    then show ?thesis using ids by (auto split: option.splits)
  qed (use ids 1 in blast)
qed

lemma safe_wsCancel: "calm b (validateWSCancelVariants path method direction S r)"
  unfolding validateWSCancelVariants_def checkWSCancel_def by (intro calm_intros)

lemma safe_wsTimeout: "calm b (validateWSTimeoutFields path method S r)"
  unfolding validateWSTimeoutFields_def checkWSTimeout_def by (intro calm_intros)

lemma safe_scalarOf: "fType f \<noteq> None \<Longrightarrow> calm b (scalarOf f)"
  unfolding scalarOf_def by (auto split: option.split irType.split simp: calm_def)

lemma safe_validateWSCorrelation:
  assumes "idsTyped S"
  shows "calm b (validateWSCorrelation path S m req resp)"
proof -
  have "fType g \<noteq> None"
    if "collectWSIDFields p m d S r = Inr xs" "collectWSIDFields p m e S q = Inr ys" "xs @ ys = f # rest" "g \<in> set (f # rest)"
    for p m d r xs e q ys f rest g
  proof -
    from that(3,4) have "g \<in> set xs \<or> g \<in> set ys" by (metis Un_iff set_append)
    then show ?thesis using collect_typed [OF that(1) assms] collect_typed [OF that(2) assms] by blast
  qed
  note typed = this
  show ?thesis
    unfolding validateWSCorrelation_def sameScalar_def
    by (intro calm_intros safe_collect safe_wsCancel safe_wsTimeout safe_scalarOf)
      (erule (2) typed, simp)+
qed

lemma safe_validateMethodBindings: "idsTyped S \<Longrightarrow> calm b (validateMethodBindings path S opts m req resp)"
  unfolding validateMethodBindings_def Let_def
  by (intro calm_intros safe_checkPathParam safe_checkQueryField safe_checkBodyField safe_validateUnboundFields safe_validateWSCorrelation)

lemma safe_validateRawHTTPContract: "calm b (validateRawHTTPContract path S m req resp)"
  unfolding validateRawHTTPContract_def Let_def by (intro calm_intros)

lemma safe_validateMethod: "idsTyped S \<Longrightarrow> methodIn S m \<Longrightarrow> calm b (validateMethod path S opts m)"
  by (auto simp: validateMethod_def methodIn_def intro!: calm_bindE safe_validateMethodBindings safe_validateRawHTTPContract)

lemma safe_validateTopMessage: "calm False (validateTopMessage k S opts path r names)"
  unfolding validateTopMessage_def
  by (intro calm_intros safe_validateFlattenCycle safe_validateFlattenKeys safe_validateCompiledMessage)

lemma safe_validateSecuritySchemes: "calm b (validateSecuritySchemes fl)"
  unfolding validateSecuritySchemes_def checkScheme_def Let_def by (intro calm_intros)

lemma calm_and_returns: "calm False m \<Longrightarrow> (b \<Longrightarrow> m \<noteq> Inl NoReturn) \<Longrightarrow> calm b m"
  by (simp add: calm_def)

lemma safe_validateContract:
  assumes "idsTyped S" "\<forall>m \<in> set (methodsOf S). methodIn S m"
    and returns: "\<And>fl r names. b \<Longrightarrow> fl \<in> set (schFiles S) \<Longrightarrow> r \<in> set (flMessages fl) \<Longrightarrow>
      validateTopMessage (contractFuel S) S opts (flPath fl) r names \<noteq> Inl NoReturn"
  shows "calm b (validateContract S opts)"
proof -
  have "calm b (validateMethod (flPath fl) S opts m)"
    if "fl \<in> set (schFiles S)" "m \<in> set (concat (map sMethods (flServices fl)))" for fl m
    using that assms(1,2) by (intro safe_validateMethod) (auto simp: methodsOf_def allMethods_def)
  then show ?thesis
    unfolding validateContract_def validateFileContract_def
    by (intro calm_intros safe_validateSecuritySchemes calm_and_returns [OF safe_validateTopMessage] returns)
qed

lemma fieldHasDecorator_iff: "fieldHasDecorator f n \<longleftrightarrow> (\<exists>d \<in> set (fDecorators f). decName d = n)"
  by (auto simp: fieldHasDecorator_def hasDecorator_def findDecorator_def find_None_iff)

lemma hasDecorator_convert: "hasDecorator (convertDecorators ds) n \<longleftrightarrow> (\<exists>d \<in> set ds. ddName d = n)"
  by (auto simp: hasDecorator_def convertDecorators_def convertDecorator_def findDecorator_def find_None_iff)

lemma buildField_oneof_decorators:
  "buildField opts sc c path owner fd = Inr f \<Longrightarrow> fType f = None \<Longrightarrow>
     fdOneof fd \<noteq> None \<and> fDecorators f = convertDecorators (fdDecorators fd)"
  by (auto simp: buildField_def Let_def bindE_eq_Inr newField_def dest!: applyNullable_keeps applyInt64_keeps split: option.splits)

lemma allDecls_ok:
  assumes "\<forall>s \<in> set sources. sourceOk opts s" "d \<in> set (allDecls sources)"
  shows "messageOk opts (snd d)"
  using assms messageOk_decls by (fastforce simp: allDecls_def sourceOk_def)

lemma messageOk_fields: "messageOk opts md \<Longrightarrow> fd \<in> set (mdFields md) \<Longrightarrow> fieldOk fd"
  by (cases md) simp

lemma built_field:
  assumes "built opts sc sources forest c S" "f \<in> set (fieldsAt S r)"
  shows "\<exists>d \<in> set (allDecls sources). \<exists>fd \<in> set (mdFields (snd d)). buildField opts sc c (fst d) r fd = Inr f"
proof -
  have r: "r < length (schMessages S)" using assms(2) by (auto simp: fieldsAt_def msgAt_def nilMessage_def split: if_splits)
  from list_all2_nthD2 [OF built_represents [OF assms(1)], of r] r
  have "representsDecl opts sc c S (allDecls sources ! r) r" by simp
  moreover have "allDecls sources ! r \<in> set (allDecls sources)"
    using r list_all2_lengthD [OF built_represents [OF assms(1)]] by simp
  ultimately show ?thesis
    using assms(2) by (fastforce simp: representsDecl_def represents_def mapE_Inr list_all2_conv_all_nth in_set_conv_nth [of f] in_set_conv_nth [of _ "mdFields _"])
qed

lemma built_idsTyped:
  assumes b: "built opts sc sources forest c S" and ok: "\<forall>s \<in> set sources. sourceOk opts s"
  shows "idsTyped S"
  unfolding idsTyped_def
proof (intro allI ballI impI)
  fix r f assume f: "f \<in> set (fieldsAt S r)" "fieldHasDecorator f ''ws_id''"
  from built_field [OF b f(1)] obtain d fd where d: "d \<in> set (allDecls sources)" "fd \<in> set (mdFields (snd d))"
      and fd: "buildField opts sc c (fst d) r fd = Inr f" by blast
  have fok: "fieldOk fd" using allDecls_ok [OF ok d(1)] d(2) by (rule messageOk_fields)
  show "fType f \<noteq> None"
  proof
    assume "fType f = None"
    from buildField_oneof_decorators [OF fd this] fok f(2) show False
      by (auto simp: fieldOk_def fieldHasDecorator_def hasDecorator_convert)
  qed
qed

lemma fieldCore_type: "fieldCore f = fieldCore g \<Longrightarrow> fType f = fType g \<and> fName f = fName g \<and> fOneof f = fOneof g"
  by (cases f; cases g) (simp add: fieldCore_def)

lemma fieldCore_decorator:
  assumes "fieldCore f = fieldCore g" "n \<noteq> ''query''"
  shows "fieldHasDecorator f n = fieldHasDecorator g n"
proof -
  have "fieldHasDecorator h n \<longleftrightarrow> (\<exists>d \<in> set (fDecorators (fieldCore h)). decName d = n)" for h
    using assms(2) by (auto simp: fieldHasDecorator_iff fieldCore_def)
  with assms(1) show ?thesis by simp
qed

lemma keepsCore_field:
  assumes "keepsCore S S'" "f \<in> set (fieldsAt S' r)"
  shows "\<exists>g \<in> set (fieldsAt S r). fieldCore f = fieldCore g"
proof -
  have "fieldCore f \<in> set (map fieldCore (fieldsAt S r))" using assms by (metis image_eqI keepsCore_def list.set_map)
  then show ?thesis by auto
qed

lemma keepsCore_sym: "keepsCore S S' \<Longrightarrow> keepsCore S' S"
  by (simp add: keepsCore_def sameShape_def)

lemma idsTyped_core:
  assumes "keepsCore S S'" "idsTyped S"
  shows "idsTyped S'"
  unfolding idsTyped_def
proof (intro allI ballI impI)
  fix r f assume f: "f \<in> set (fieldsAt S' r)" "fieldHasDecorator f ''ws_id''"
  from keepsCore_field [OF assms(1) f(1)] obtain g where g: "g \<in> set (fieldsAt S r)" "fieldCore f = fieldCore g" by blast
  from fieldCore_decorator [OF g(2), of "''ws_id''"] f(2) have "fieldHasDecorator g ''ws_id''" by simp
  with assms(2) g(1) have "fType g \<noteq> None" by (simp add: idsTyped_def)
  with fieldCore_type [OF g(2)] show "fType f \<noteq> None" by simp
qed

lemma safe_indexSources: "safeRun (indexSources byPath ss)"
  by (induction ss arbitrary: byPath) (auto simp: Let_def intro!: safe_intros)

lemma safe_importTargets: "safeRun (importTargets byPath src seen imps)"
  by (induction imps arbitrary: seen) (auto simp: Let_def intro!: safe_intros)

lemma safe_buildImportGraph: "safeRun (buildImportGraph byPath ss g)"
  by (induction ss arbitrary: g) (auto simp: Let_def intro!: safe_intros safe_importTargets)

lemma safe_importScopes:
  assumes "validateAndBuildImportScopes sources = Some r"
  shows "safeRun r"
proof (cases r)
  case (Inl e)
  from importScopes_result [of sources] assms Inl
  consider byPath where "indexSourcesByPath sources = Inl e"
    | byPath where "buildImportGraph byPath sources (\<lambda>p. []) = Inl e" | "cyclicError (importsFrom sources) e" by auto
  then have "e \<noteq> Panic"
    using safe_indexSources safe_buildImportGraph by cases (metis indexSourcesByPath_def safeRun_def, metis safeRun_def, auto simp: cyclicError_def)
  with Inl show ?thesis by (simp add: safeRun_def)
qed simp

lemma importScopes_returns: "validateAndBuildImportScopes sources \<noteq> None"
  using importScopes_result [of sources] by auto

lemma schemaMessages_enough: "nestingOk S \<Longrightarrow> schemaMessages S \<noteq> None"
  by (simp add: schemaMessages_def messagesDeep_enough)

lemma passes_return:
  assumes "nestingOk S"
  shows "markResponseOnlyMessages S z \<noteq> None" "markValueItems S \<noteq> None"
  using schemaMessages_enough [OF assms] by (simp_all add: markResponseOnlyMessages_def markValueItems_def)

lemma keepsCore_nesting: "keepsCore S S' \<Longrightarrow> nestingOk S \<Longrightarrow> nestingOk S'"
  using sameShape_nesting by (auto simp: keepsCore_def)

text \<open>Whatever the passes after \<open>validateAuthorize\<close> do, they keep the core, which is all the contract needs.\<close>

lemma compile_calm:
  assumes shaped: "\<forall>s \<in> set sources. sourceShaped s"
    and returns: "\<And>sc forest c S0 S. b \<Longrightarrow> built opts sc sources forest c S0 \<Longrightarrow> keepsCore S0 S \<Longrightarrow> \<forall>s \<in> set sources. sourceOk opts s \<Longrightarrow>
      validateAndBuildImportScopes sources = Some (Inr sc) \<Longrightarrow> buildSchema opts sc sources = Inr (forest, S0) \<Longrightarrow>
      calm b (validateContract S opts)"
  shows "calm b (compileWithOptions lib sources opts)"
proof -
  have auth: "calm b (validateAuthorize S sources forest)" "calm b (validateRules S sources forest)"
    and core: "validateAuthorize S sources forest = Inr S1 \<Longrightarrow> keepsCore S S1 \<and> nestingOk S1"
    and contract: "keepsCore S S4 \<Longrightarrow> idsTyped S4 \<and> (\<forall>m \<in> set (methodsOf S4). methodIn S4 m)"
       "keepsCore S S4 \<Longrightarrow> b \<Longrightarrow> calm b (validateContract S4 opts)"
    if v: "validateSyntax lib sources opts = Inr u" and i: "validateAndBuildImportScopes sources = Some (Inr sc)" and b: "buildSchema opts sc sources = Inr (forest, S)" for u :: unit and sc forest S S1 S4
  proof -
    from v have ok: "\<forall>s \<in> set sources. sourceOk opts s" using validateSyntax_ok(1) by simp
    from b obtain c where c: "built opts sc sources forest c S" using buildSchema_built by blast
    then have m: "\<forall>m \<in> set (methodsOf S). methodIn S m" using methodsOf_built by blast
    then show "calm b (validateAuthorize S sources forest)"
      using ok by (intro safe_validateAuthorize) (auto simp: methodIn_def)
    show "calm b (validateRules S sources forest)" using ok by (rule safe_validateRules)
    show "keepsCore S S1 \<and> nestingOk S1" if "validateAuthorize S sources forest = Inr S1"
      using keepsCore_nesting built_wellFormed [OF c] built_authorize [OF c that] unfolding wellFormed_def by blast
    show "idsTyped S4 \<and> (\<forall>m \<in> set (methodsOf S4). methodIn S4 m)" if "keepsCore S S4"
      using idsTyped_core [OF that built_idsTyped [OF c ok]] methodIn_core [OF that m] by blast
    show "calm b (validateContract S4 opts)" if "keepsCore S S4" b using returns [OF that(2) c that(1) ok i b] .
  qed
  have S4: "calm b (validateContract (bindBodylessQueryFields S3) opts)"
    if a: "validateSyntax lib sources opts = Inr ()" "validateAndBuildImportScopes sources = Some (Inr sc)" "buildSchema opts sc sources = Inr (forest, S)" "validateAuthorize S sources forest = Inr S1"
      and m: "markResponseOnlyMessages S1 z = Some S2" "(if w then orNoReturn (markValueItems S2) else Inr S2) = Inr S3" for sc forest S S1 S2 S3 z w
  proof -
    have "keepsCore S S1" using core [OF a] by simp
    also have "keepsCore S1 S2" using m(1) by (rule markResponseOnlyMessages_core)
    also have "keepsCore S2 S3" using m(2) markValueItems_core by (auto split: if_splits)
    also have "keepsCore S3 (bindBodylessQueryFields S3)" by (rule bindBodylessQueryFields_core)
    finally have k: "keepsCore S (bindBodylessQueryFields S3)" .
    show ?thesis
    proof (cases b)
      case True
      then show ?thesis by (rule contract(2) [OF a(1-3) k])
    next
      case False
      then show ?thesis using safe_validateContract contract(1) [OF a(1-3) k] by blast
    qed
  qed
  have S2: "nestingOk S2"
    if a: "validateSyntax lib sources opts = Inr ()" "validateAndBuildImportScopes sources = Some (Inr sc)" "buildSchema opts sc sources = Inr (forest, S)" "validateAuthorize S sources forest = Inr S1"
      and m: "markResponseOnlyMessages S1 z = Some S2" for sc forest S S1 S2 z
    using core [OF a] keepsCore_nesting markResponseOnlyMessages_core [OF m] by blast
  show ?thesis
    unfolding compileWithOptions_def Let_def
    by (intro calm_intros safe_validateSyntax safe_buildSchema [OF shaped])
      (auto intro: safe_importScopes auth S4 simp: importScopes_returns passes_return core S2)
qed

lemma compile_safe: "\<forall>s \<in> set sources. sourceShaped s \<Longrightarrow> calm False (compileWithOptions lib sources opts)"
  by (rule compile_calm) simp_all

end
