(* ===== verification/ContractProps.thy ===== *)
theory ContractProps
  imports Pipeline "HOL-Library.Multiset"
begin

text \<open>
  What the checks of the compiled schema establish: flattening ends and its JSON keys are distinct,
  full names are unique, every part of a request has one place, correlation ids have one type.
\<close>

subsection \<open>Flattening\<close>

definition flattens :: "schema \<Rightarrow> (mref \<times> mref) set" where
  "flattens S = {(r, t). \<exists>f \<in> set (fieldsAt S r). flattenTarget f = Some t}"

lemma flattens_iff: "(r, t) \<in> flattens S \<longleftrightarrow> (\<exists>f \<in> set (fieldsAt S r). flattenTarget f = Some t)"
  by (simp add: flattens_def)

lemma flattenTarget_iff: "flattenTarget f = Some t \<longleftrightarrow> fieldHasDecorator f ''flatten'' \<and> fType f = Some (TMessage t)"
  by (auto simp: flattenTarget_def split: option.split irType.split)

definition flattenEnds :: "schema \<Rightarrow> mref \<Rightarrow> bool" where
  "flattenEnds S r \<longleftrightarrow> (\<nexists>c. (r, c) \<in> (flattens S)\<^sup>* \<and> (c, c) \<in> (flattens S)\<^sup>+)"

definition flattensIn :: "schema \<Rightarrow> bool" where
  "flattensIn S \<longleftrightarrow> flattens S \<subseteq> {..<length (schMessages S)} \<times> {..<length (schMessages S)}"

lemma flattensInD: "flattensIn S \<Longrightarrow> (r, t) \<in> flattens S \<Longrightarrow> t < length (schMessages S)"
  by (auto simp: flattensIn_def)

lemma flattenEnds_step: "flattenEnds S r \<longleftrightarrow> (r, r) \<notin> (flattens S)\<^sup>+ \<and> (\<forall>t. (r, t) \<in> flattens S \<longrightarrow> flattenEnds S t)"
proof (intro iffI conjI allI impI)
  assume r: "flattenEnds S r"
  then show "(r, r) \<notin> (flattens S)\<^sup>+" by (auto simp: flattenEnds_def)
  fix t assume "(r, t) \<in> flattens S"
  with r show "flattenEnds S t" unfolding flattenEnds_def by (meson converse_rtrancl_into_rtrancl)
next
  assume a: "(r, r) \<notin> (flattens S)\<^sup>+ \<and> (\<forall>t. (r, t) \<in> flattens S \<longrightarrow> flattenEnds S t)"
  then show "flattenEnds S r" unfolding flattenEnds_def by (metis converse_rtranclE)
qed

text \<open>A branch: distinct messages, each of which flattens, through others, into \<open>r\<close>.\<close>

definition branchOk :: "schema \<Rightarrow> mref list \<Rightarrow> mref \<Rightarrow> bool" where
  "branchOk S path r \<longleftrightarrow> distinct path \<and> set path \<subseteq> {..<length (schMessages S)} \<and> r < length (schMessages S) \<and>
     (\<forall>p \<in> set path. (p, r) \<in> (flattens S)\<^sup>+)"

lemma branchOk_start: "r < length (schMessages S) \<Longrightarrow> branchOk S [] r"
  by (simp add: branchOk_def)

lemma branchOk_step:
  assumes "branchOk S path r" "r \<notin> set path" "(r, t) \<in> flattens S" "flattensIn S"
  shows "branchOk S (path @ [r]) t"
  using assms flattensInD [OF assms(4,3)] by (auto simp: branchOk_def intro: trancl_into_trancl)

lemma branchOk_length: "branchOk S path r \<Longrightarrow> length path \<le> length (schMessages S)"
  unfolding branchOk_def by (metis card_lessThan card_mono distinct_card finite_lessThan)

lemma branchOk_cycle: "branchOk S path r \<Longrightarrow> r \<in> set path \<Longrightarrow> \<not> flattenEnds S r"
  by (auto simp: branchOk_def flattenEnds_def)

lemma validateFlattenCycle_decides:
  assumes S: "flattensIn S"
  shows "branchOk S path r \<Longrightarrow> length (schMessages S) < k + length path \<Longrightarrow>
    validateFlattenCycle k S file r path \<noteq> Inl NoReturn \<and>
    (validateFlattenCycle k S file r path = Inr () \<longleftrightarrow> flattenEnds S r)"
proof (induction k arbitrary: path r)
  case 0
  then show ?case using branchOk_length [of S path r] by simp
next
  case (Suc k)
  show ?case
  proof (cases "r \<in> set path")
    case True
    then show ?thesis using branchOk_cycle [OF Suc.prems(1)] by (simp add: contractError_def)
  next
    case False
    let ?g = "\<lambda>f. case flattenTarget f of None \<Rightarrow> Inr () | Some t \<Rightarrow> validateFlattenCycle k S file t (path @ [r])"
    have t: "validateFlattenCycle k S file t (path @ [r]) \<noteq> Inl NoReturn"
        "validateFlattenCycle k S file t (path @ [r]) = Inr () \<longleftrightarrow> flattenEnds S t"
      if "f \<in> set (fieldsAt S r)" "flattenTarget f = Some t" for f t
    proof -
      have "(r, t) \<in> flattens S" using that by (auto simp: flattens_iff)
      from Suc.IH [OF branchOk_step [OF Suc.prems(1) False this S]] Suc.prems(2)
      show "validateFlattenCycle k S file t (path @ [r]) \<noteq> Inl NoReturn"
        "validateFlattenCycle k S file t (path @ [r]) = Inr () \<longleftrightarrow> flattenEnds S t" by simp_all
    qed
    have run: "validateFlattenCycle (Suc k) S file r path = eachE ?g (fieldsAt S r)"
      using False by (simp add: fieldsAt_def)
    have "eachE ?g fs \<noteq> Inl NoReturn" if "set fs \<subseteq> set (fieldsAt S r)" for fs
      using that
    proof (induction fs)
      case (Cons f fs)
      then show ?case using t(1) [of f] by (auto simp: bindE_eq_Inl split: option.splits)
    qed simp
    moreover have "eachE ?g (fieldsAt S r) = Inr () \<longleftrightarrow> (\<forall>t. (r, t) \<in> flattens S \<longrightarrow> flattenEnds S t)"
      using t(2) by (auto simp: eachE_Inr flattens_iff split: option.splits)
    moreover have "(r, r) \<notin> (flattens S)\<^sup>+" if ends: "\<forall>t. (r, t) \<in> flattens S \<longrightarrow> flattenEnds S t"
    proof
      assume "(r, r) \<in> (flattens S)\<^sup>+"
      then obtain t where "(r, t) \<in> flattens S" "(t, r) \<in> (flattens S)\<^sup>*" by (auto dest: tranclD)
      then have "(t, t) \<in> (flattens S)\<^sup>+" by (rule rtrancl_into_trancl1 [rotated])
      with ends \<open>(r, t) \<in> flattens S\<close> show False by (auto simp: flattenEnds_def)
    qed
    ultimately show ?thesis unfolding run flattenEnds_step [of S r] by blast
  qed
qed

text \<open>
  The reference for \<open>flattenedJSONKeys\<close>: all JSON keys a message produces, in order. Nothing is
  returned when \<open>k\<close> levels of flattening are not enough.
\<close>

fun flatKeys :: "nat \<Rightarrow> schema \<Rightarrow> mref \<Rightarrow> string \<Rightarrow> string list option" where
  "flatKeys 0 S r pre = None"
| "flatKeys (Suc k) S r pre = map_option concat (those (map (\<lambda>f.
     case flattenTarget f of None \<Rightarrow> Some [pre @ fName f] | Some t \<Rightarrow> flatKeys k S t (pre @ flattenPrefix f)) (fieldsAt S r)))"

definition keysIn :: "(mref \<Rightarrow> string \<Rightarrow> string list option) \<Rightarrow> string \<Rightarrow> field list \<Rightarrow> string list option" where
  "keysIn g pre fs = map_option concat (those (map (\<lambda>f.
     case flattenTarget f of None \<Rightarrow> Some [pre @ fName f] | Some t \<Rightarrow> g t (pre @ flattenPrefix f)) fs))"

lemma keysIn_Cons:
  "keysIn g pre (f # fs) =
     (case (case flattenTarget f of None \<Rightarrow> Some [pre @ fName f] | Some t \<Rightarrow> g t (pre @ flattenPrefix f)) of
        None \<Rightarrow> None
      | Some ks \<Rightarrow> map_option (\<lambda>rest. ks @ rest) (keysIn g pre fs))"
  by (auto simp: keysIn_def option.map_comp o_def split: option.split)

lemma keysIn_Nil: "keysIn g pre [] = Some []"
  by (simp add: keysIn_def)

lemma flatKeys_Suc: "flatKeys (Suc k) S r pre = keysIn (flatKeys k S) pre (fieldsAt S r)"
  by (simp add: keysIn_def)

lemma flatKeys_ends:
  assumes S: "flattensIn S"
  shows "branchOk S path r \<Longrightarrow> flattenEnds S r \<Longrightarrow> length (schMessages S) < k + length path \<Longrightarrow> flatKeys k S r pre \<noteq> None"
proof (induction k arbitrary: path r pre)
  case 0
  then show ?case using branchOk_length [of S path r] by simp
next
  case (Suc k)
  have r: "r \<notin> set path" using branchOk_cycle [OF Suc.prems(1)] Suc.prems(2) by blast
  have "flatKeys k S t q \<noteq> None" if "f \<in> set (fieldsAt S r)" "flattenTarget f = Some t" for f t q
  proof (rule Suc.IH)
    have t: "(r, t) \<in> flattens S" using that by (auto simp: flattens_iff)
    show "branchOk S (path @ [r]) t" by (rule branchOk_step [OF Suc.prems(1) r t S])
    show "flattenEnds S t" using t Suc.prems(2) flattenEnds_step by blast
  qed (use Suc.prems(3) in simp)
  then have "keysIn (flatKeys k S) pre fs \<noteq> None" if "set fs \<subseteq> set (fieldsAt S r)" for fs
    using that by (induction fs) (auto simp: keysIn_Cons keysIn_Nil split: option.splits)
  from this [of "fieldsAt S r"] show ?case by (simp add: flatKeys_Suc del: flatKeys.simps)
qed

text \<open>A run on the keys \<open>ks\<close>: the empty key when they are new and distinct, a clash otherwise.\<close>

definition keyRun :: "string list \<Rightarrow> (string \<rightharpoonup> string) \<Rightarrow> compileError + keyResult \<Rightarrow> bool" where
  "keyRun ks keys res \<longleftrightarrow> (\<exists>keys' key owners. res = Inr (keys', key, owners) \<and>
     (if distinct ks \<and> set ks \<inter> dom keys = {} then key = [] \<and> dom keys' = dom keys \<union> set ks else key \<noteq> []))"

lemma keyRun_Nil: "keyRun [] keys (Inr (keys, [], []))"
  by (simp add: keyRun_def)

lemma keyRun_clash: "key \<noteq> [] \<Longrightarrow> \<not> (distinct ks \<and> set ks \<inter> dom keys = {}) \<Longrightarrow> keyRun ks keys (Inr (keys', key, owners))"
  by (auto simp: keyRun_def)

lemma keyRun_more:
  assumes "keyRun ls keys' res" "dom keys' = dom keys \<union> set ks" "distinct ks" "set ks \<inter> dom keys = {}"
  shows "keyRun (ks @ ls) keys res"
proof -
  have "distinct (ks @ ls) \<and> set (ks @ ls) \<inter> dom keys = {} \<longleftrightarrow> distinct ls \<and> set ls \<inter> dom keys' = {}"
    using assms(2-4) by auto
  moreover have "dom keys \<union> set (ks @ ls) = dom keys' \<union> set ls" using assms(2) by auto
  ultimately show ?thesis using assms(1) unfolding keyRun_def by presburger
qed

lemma keyRun_append:
  assumes "keyRun ks keys m" "\<And>keys'. dom keys' = dom keys \<union> set ks \<Longrightarrow> keyRun ls keys' (rest keys')"
  shows "keyRun (ks @ ls) keys (bindE m (\<lambda>(keys', key, owners). if key \<noteq> [] then Inr (keys', key, owners) else rest keys'))"
proof -
  from assms(1) obtain keys' key owners where m: "m = Inr (keys', key, owners)"
    and k: "if distinct ks \<and> set ks \<inter> dom keys = {} then key = [] \<and> dom keys' = dom keys \<union> set ks else key \<noteq> []"
    unfolding keyRun_def by blast
  show ?thesis
  proof (cases "distinct ks \<and> set ks \<inter> dom keys = {}")
    case True
    with k have "key = []" "dom keys' = dom keys \<union> set ks" by simp_all
    with keyRun_more [OF assms(2) [OF this(2)] this(2)] True show ?thesis by (simp add: m)
  next
    case False
    with k have "key \<noteq> []" by auto
    from False have "\<not> (distinct (ks @ ls) \<and> set (ks @ ls) \<inter> dom keys = {})" by auto
    with keyRun_clash [OF \<open>key \<noteq> []\<close> this] \<open>key \<noteq> []\<close> show ?thesis by (simp add: m)
  qed
qed

lemma keyLoop_keys:
  assumes "\<And>t pre keys owner ks. g t pre = Some ks \<Longrightarrow> keyRun ks keys (inner t pre keys owner)"
  shows "keysIn g pre fs = Some ks \<Longrightarrow> \<forall>f \<in> set fs. fName f \<noteq> [] \<Longrightarrow> keyRun ks keys (keyLoop inner pre owner fs keys)"
proof (induction fs arbitrary: ks keys)
  case Nil
  then show ?case by (simp add: keysIn_Nil keyRun_Nil)
next
  case (Cons f fs)
  show ?case
  proof (cases "flattenTarget f")
    case None
    with Cons.prems(1) obtain ls where ls: "keysIn g pre fs = Some ls" "ks = (pre @ fName f) # ls"
      by (auto simp: keysIn_Cons)
    show ?thesis
    proof (cases "keys (pre @ fName f)")
      case new: None
      have "keyRun ls (keys(pre @ fName f \<mapsto> owner @ ''.'' @ fName f)) (keyLoop inner pre owner fs (keys(pre @ fName f \<mapsto> owner @ ''.'' @ fName f)))"
        using Cons.IH [OF ls(1)] Cons.prems(2) by simp
      from keyRun_more [OF this, of keys "[pre @ fName f]"] new None ls(2) show ?thesis by (auto simp: Let_def)
    next
      case (Some p)
      with None ls(2) Cons.prems(2) show ?thesis by (auto simp: Let_def intro!: keyRun_clash)
    qed
  next
    case (Some t)
    with Cons.prems(1) obtain js ls where ls: "g t (pre @ flattenPrefix f) = Some js" "keysIn g pre fs = Some ls" "ks = js @ ls"
      by (auto simp: keysIn_Cons split: option.splits)
    show ?thesis
      unfolding keyLoop.simps Some option.case ls(3)
      by (rule keyRun_append [OF assms [OF ls(1)]]) (use Cons.IH [OF ls(2)] Cons.prems(2) in simp)
  qed
qed

definition fieldsNamed :: "schema \<Rightarrow> bool" where
  "fieldsNamed S \<longleftrightarrow> (\<forall>r. \<forall>f \<in> set (fieldsAt S r). fName f \<noteq> [])"

lemma flattenedJSONKeys_run:
  assumes "fieldsNamed S"
  shows "flatKeys k S r pre = Some ks \<Longrightarrow> keyRun ks keys (flattenedJSONKeys k S r pre keys owner)"
proof (induction k arbitrary: r pre ks keys owner)
  case (Suc k)
  have "keyRun ks keys (keyLoop (flattenedJSONKeys k S) pre owner (fieldsAt S r) keys)"
    by (rule keyLoop_keys [of "flatKeys k S"]) (use Suc assms in \<open>auto simp: fieldsNamed_def flatKeys_Suc simp del: flatKeys.simps\<close>)
  then show ?case by (simp add: fieldsAt_def)
qed simp

lemma checkFlattenKeys_distinct:
  assumes "flattensIn S" "fieldsNamed S" "flattenEnds S r" "r < length (schMessages S)"
  shows "\<exists>ks. flatKeys (contractFuel S) S r [] = Some ks \<and> (checkFlattenKeys (contractFuel S) S path r = Inr () \<longleftrightarrow> distinct ks) \<and>
    checkFlattenKeys (contractFuel S) S path r \<noteq> Inl NoReturn"
proof -
  have "flatKeys (contractFuel S) S r [] \<noteq> None"
    by (rule flatKeys_ends [OF assms(1) branchOk_start [OF assms(4)] assms(3)]) (simp add: contractFuel_def)
  then obtain ks where ks: "flatKeys (contractFuel S) S r [] = Some ks" by blast
  from flattenedJSONKeys_run [OF assms(2) ks, of "\<lambda>_. None" "mName (msgAt S r)"]
  have "(checkFlattenKeys (contractFuel S) S path r = Inr () \<longleftrightarrow> distinct ks) \<and> checkFlattenKeys (contractFuel S) S path r \<noteq> Inl NoReturn"
    by (auto simp: keyRun_def checkFlattenKeys_def contractError_def split: if_splits)
  with ks show ?thesis by blast
qed

subsection \<open>Every message, once\<close>

definition nodeOk :: "schema \<Rightarrow> msgNode \<Rightarrow> bool" where
  "nodeOk S nd \<longleftrightarrow> (\<exists>md. nodeMatches S md nd)"

lemma nodeOk_MsgNode:
  assumes "nodeOk S (MsgNode r ns)"
  shows "mNested (msgAt S r) = map nodeRef ns \<and> (\<forall>n \<in> set ns. nodeOk S n)"
proof -
  from assms obtain md where "nodeMatches S md (MsgNode r ns)" unfolding nodeOk_def by blast
  then show ?thesis
    by cases (fastforce simp: nodeOk_def list_all2_conv_all_nth in_set_conv_nth)
qed

lemma nestedDeep_nodes:
  "\<forall>nd \<in> set nds. nodeOk S nd \<Longrightarrow> nestedDeep k S (map nodeRef nds) = Some rs \<Longrightarrow> rs = concat (map nodeRefs nds)"
proof (induction k arbitrary: nds rs)
  case 0
  then show ?case by (simp split: if_splits)
next
  case (Suc k)
  note deep = Suc.IH
  show ?case using Suc.prems
  proof (induction nds arbitrary: rs)
    case (Cons nd nds)
    obtain r ns where nd: "nd = MsgNode r ns" by (cases nd)
    with Cons.prems(1) nodeOk_MsgNode [of S r ns] have ns: "mNested (msgAt S r) = map nodeRef ns" "\<forall>n \<in> set ns. nodeOk S n" by auto
    from Cons.prems(2) nd ns(1) obtain inner rest where
      "nestedDeep k S (map nodeRef ns) = Some inner" "nestedDeep (Suc k) S (map nodeRef nds) = Some rest" "rs = r # inner @ rest"
      by (auto simp: bind_eq_Some_conv)
    with deep [OF ns(2)] Cons.IH Cons.prems(1) nd show ?case by auto
  qed simp
qed

text \<open>The nodes of a compiled package.\<close>

definition nodesOf :: "schema \<Rightarrow> msgNode list list \<Rightarrow> bool" where
  "nodesOf S forest \<longleftrightarrow> (\<forall>nd \<in> set (concat forest). nodeOk S nd) \<and>
     concat (map nodeRefs (concat forest)) = [0..<length (schMessages S)] \<and>
     map flMessages (schFiles S) = map (map nodeRef) forest"

lemma built_nodes:
  assumes b: "built opts sc sources forest c S0" and k: "keepsCore S0 S"
  shows "nodesOf S forest"
proof -
  have sh: "sameShape S0 S" using k by (simp add: keepsCore_def)
  have "forestMatches S0 sources forest" using b by (simp add: built_def)
  then have f: "forestMatches S sources forest" using sh by (rule forestMatches_shape)
  then have l: "length forest = length sources" unfolding forestMatches_def by (auto dest: list_all2_lengthD)
  have "nodeOk S nd" if "nd \<in> set (concat forest)" for nd
  proof -
    from that obtain nds where "nds \<in> set forest" "nd \<in> set nds" by auto
    with f show ?thesis
      unfolding forestMatches_def nodeOk_def by (fastforce simp: list_all2_conv_all_nth in_set_conv_nth)
  qed
  moreover have "map flMessages (schFiles S) = map (map nodeRef) forest"
  proof -
    have "map flMessages (schFiles S0) = map (map nodeRef) forest"
    proof (rule nth_equalityI)
      fix j assume "j < length (map flMessages (schFiles S0))"
      with b have j: "j < length sources" by (simp add: built_def)
      with b obtain f svs where "fileOf f (sources ! j) (forest ! j)" "schFiles S0 ! j = f\<lparr>flServices := svs\<rparr>" unfolding built_def by blast
      with j b l show "map flMessages (schFiles S0) ! j = map (map nodeRef) forest ! j" by (simp add: fileOf_def built_def)
    qed (use b l in \<open>simp add: built_def\<close>)
    with sameShape_files(2) [OF sh] show ?thesis by simp
  qed
  ultimately show ?thesis using f by (simp add: nodesOf_def forestMatches_def)
qed

lemma stages_nodes: "stages lib sources opts sc forest c S0 S1 S \<Longrightarrow> nodesOf S forest"
  by (rule built_nodes [of opts sc sources forest c S0, OF _ stages_core]) (simp_all add: stages_def)

lemma nodesOf_roots: "nodesOf S forest \<Longrightarrow> concat (map flMessages (schFiles S)) = map nodeRef (concat forest)"
  by (simp add: nodesOf_def map_concat)

lemma schemaMessages_all:
  assumes "nodesOf S forest" "nestingOk S"
  shows "schemaMessages S = Some [0..<length (schMessages S)]"
proof -
  obtain rs where rs: "messagesDeep S (map nodeRef (concat forest)) = Some rs"
    using messagesDeep_enough [OF assms(2)] by blast
  have "rs = concat (map nodeRefs (concat forest))"
    by (rule nestedDeep_nodes [of _ S "Suc (length (schMessages S))"]) (use assms(1) in \<open>simp add: nodesOf_def\<close>, use rs in \<open>simp only: messagesDeep_def\<close>)
  then have "rs = [0..<length (schMessages S)]" using assms(1) by (simp only: nodesOf_def)
  with rs show ?thesis by (simp only: schemaMessages_def nodesOf_roots [OF assms(1)])
qed

lemma deep_root:
  assumes "nodesOf S forest" "nestingOk S" "nd \<in> set (concat forest)"
  shows "messagesDeep S [nodeRef nd] = Some (nodeRefs nd)"
proof -
  obtain rs where rs: "messagesDeep S [nodeRef nd] = Some rs" using messagesDeep_enough [OF assms(2)] by blast
  have ok: "\<forall>x \<in> set [nd]. nodeOk S x" using assms(1,3) unfolding nodesOf_def by simp blast
  have "nestedDeep (Suc (length (schMessages S))) S (map nodeRef [nd]) = Some rs"
    using rs by (simp add: messagesDeep_def del: nestedDeep.simps)
  then have "rs = concat (map nodeRefs [nd])" by (rule nestedDeep_nodes [OF ok])
  with rs show ?thesis by simp
qed

lemma root_of:
  assumes "nodesOf S forest" "r < length (schMessages S)"
  shows "\<exists>nd fl. nd \<in> set (concat forest) \<and> r \<in> set (nodeRefs nd) \<and> fl \<in> set (schFiles S) \<and> nodeRef nd \<in> set (flMessages fl)"
proof -
  have "r \<in> set (concat (map nodeRefs (concat forest)))" using assms by (simp only: nodesOf_def set_upt) simp
  then obtain nd where nd: "nd \<in> set (concat forest)" "r \<in> set (nodeRefs nd)" by auto
  have "nodeRef nd \<in> set (concat (map flMessages (schFiles S)))"
    unfolding nodesOf_roots [OF assms(1)] using nd(1) by simp
  with nd show ?thesis by auto
qed

subsection \<open>Names\<close>

lemma foldE_map: "foldE f (map g xs) s = foldE (\<lambda>x. f (g x)) xs s"
proof (induction xs arbitrary: s)
  case (Cons x xs)
  have "foldE f (map g xs) = foldE (\<lambda>x. f (g x)) xs" by (rule ext) (rule Cons.IH)
  then show ?case by simp
qed simp

lemma claimName_ok:
  "claimName path name p s = Inr t \<Longrightarrow> distinct (if p then [name] else []) \<and> set (if p then [name] else []) \<inter> dom s = {} \<and>
     dom t = dom s \<union> set (if p then [name] else [])"
  by (auto simp: claimName_def contractError_def split: if_splits option.splits)

definition messageClaim :: "schema \<Rightarrow> mref \<Rightarrow> string list" where
  "messageClaim S r = (if packagedMessage S r then [messageFullName S r] else [])"

definition enumClaim :: "schema \<Rightarrow> eref \<Rightarrow> string list" where
  "enumClaim S e = (if packagedEnum S e then [enumFullName S e] else [])"

lemma enumClaim_ok:
  "claimName path (enumFullName S e) (packagedEnum S e) s = Inr t \<Longrightarrow>
     distinct (enumClaim S e) \<and> set (enumClaim S e) \<inter> dom s = {} \<and> dom t = dom s \<union> set (enumClaim S e)"
  using claimName_ok by (simp add: enumClaim_def)

lemma claims_append:
  "distinct xs \<and> set xs \<inter> A = {} \<and> B = A \<union> set xs \<Longrightarrow> distinct ys \<and> set ys \<inter> B = {} \<and> C = B \<union> set ys \<Longrightarrow>
     distinct (xs @ ys) \<and> set (xs @ ys) \<inter> A = {} \<and> C = A \<union> set (xs @ ys)"
  by auto

text \<open>The full names below a message, in the order in which the check claims them.\<close>

fun claims :: "schema \<Rightarrow> msgNode \<Rightarrow> string list" where
  "claims S (MsgNode r ns) = messageClaim S r @ concat (map (claims S) ns) @ concat (map (enumClaim S) (mNestedEnums (msgAt S r)))"

lemma validateCompiledMessage_ok:
  "nodeOk S nd \<Longrightarrow> validateCompiledMessage k S opts path (nodeRef nd) s = Inr t \<Longrightarrow>
     distinct (claims S nd) \<and> set (claims S nd) \<inter> dom s = {} \<and> dom t = dom s \<union> set (claims S nd)"
proof (induction nd arbitrary: k s t)
  case (MsgNode r ns)
  note ns = nodeOk_MsgNode [OF MsgNode.prems(1)]
  from MsgNode.prems(2) obtain j where k: "k = Suc j" by (cases k) auto
  from MsgNode.prems(2) k ns obtain s1 s2 where
    1: "claimName path (messageFullName S r) (packagedMessage S r) s = Inr s1"
    and 2: "foldE (validateCompiledMessage j S opts path) (map nodeRef ns) s1 = Inr s2"
    and 3: "foldE (\<lambda>e. claimName path (enumFullName S e) (packagedEnum S e)) (mNestedEnums (msgAt S r)) s2 = Inr t"
    by (auto simp: bindE_eq_Inr)
  have 1: "distinct (messageClaim S r) \<and> set (messageClaim S r) \<inter> dom s = {} \<and> dom s1 = dom s \<union> set (messageClaim S r)"
    using claimName_ok [OF 1] by (simp add: messageClaim_def)
  have "foldE (\<lambda>nd. validateCompiledMessage j S opts path (nodeRef nd)) ns s1 = Inr s2"
    using 2 by (simp add: foldE_map)
  then have 2: "distinct (concat (map (claims S) ns)) \<and> set (concat (map (claims S) ns)) \<inter> dom s1 = {} \<and>
      dom s2 = dom s1 \<union> set (concat (map (claims S) ns))"
    by (rule foldE_disjoint [where m = id, unfolded id_apply, rotated]) (use MsgNode.IH ns in blast)
  have 3: "distinct (concat (map (enumClaim S) (mNestedEnums (msgAt S r)))) \<and>
      set (concat (map (enumClaim S) (mNestedEnums (msgAt S r)))) \<inter> dom s2 = {} \<and>
      dom t = dom s2 \<union> set (concat (map (enumClaim S) (mNestedEnums (msgAt S r))))"
    by (rule foldE_disjoint [where m = id, unfolded id_apply, OF _ 3]) (rule enumClaim_ok)
  from claims_append [OF 1 claims_append [OF 2 3]] show ?case by (simp only: claims.simps)
qed

lemma claims_messages: "mset (concat (map (messageClaim S) (nodeRefs nd))) \<subseteq># mset (claims S nd)"
proof (induction nd)
  case (MsgNode r ns)
  have "mset (concat (map (messageClaim S) (concat (map nodeRefs ns)))) \<subseteq># mset (concat (map (claims S) ns))"
    using MsgNode.IH by (induction ns) (auto intro: subset_mset.add_mono)
  then show ?case by (simp add: subset_mset.add_increasing2 flip: add.assoc)
qed

lemma distinct_submset: "mset xs \<subseteq># mset ys \<Longrightarrow> distinct ys \<Longrightarrow> distinct xs"
proof -
  assume a: "mset xs \<subseteq># mset ys" "distinct ys"
  then obtain C where "mset ys = mset xs + C" by (auto simp: mset_subset_eq_exists_conv)
  moreover obtain zs where "mset zs = C" using ex_mset by blast
  ultimately have "mset ys = mset (xs @ zs)" by simp
  with a(2) have "distinct (xs @ zs)" using mset_eq_imp_distinct_iff by blast
  then show ?thesis by simp
qed

definition fileClaims :: "schema \<Rightarrow> schemaFile \<times> msgNode list \<Rightarrow> string list" where
  "fileClaims S x = concat (map (claims S) (snd x)) @
     concat (map (\<lambda>e. if flPackage (fst x) \<noteq> [] then [enumFullName S e] else []) (flEnums (fst x)))"

lemma validateTopMessage_claims:
  "nodeOk S nd \<Longrightarrow> validateTopMessage k S opts path (nodeRef nd) s = Inr t \<Longrightarrow>
     distinct (claims S nd) \<and> set (claims S nd) \<inter> dom s = {} \<and> dom t = dom s \<union> set (claims S nd)"
  by (rule validateCompiledMessage_ok [of _ _ k _ path]) (auto simp: validateTopMessage_def bindE_eq_Inr)

lemma validateFileContract_claims:
  assumes "validateFileContract k S opts fl s = Inr t" "flMessages fl = map nodeRef nds" "\<forall>nd \<in> set nds. nodeOk S nd"
  shows "distinct (fileClaims S (fl, nds)) \<and> set (fileClaims S (fl, nds)) \<inter> dom s = {} \<and>
    dom t = dom s \<union> set (fileClaims S (fl, nds))"
proof -
  from assms(1,2) obtain s1 where
    1: "foldE (\<lambda>nd. validateTopMessage k S opts (flPath fl) (nodeRef nd)) nds s = Inr s1"
    and 2: "foldE (\<lambda>e. claimName (flPath fl) (enumFullName S e) (flPackage fl \<noteq> [])) (flEnums fl) s1 = Inr t"
    by (auto simp: validateFileContract_def bindE_eq_Inr foldE_map)
  have 1: "distinct (concat (map (claims S) nds)) \<and> set (concat (map (claims S) nds)) \<inter> dom s = {} \<and>
      dom s1 = dom s \<union> set (concat (map (claims S) nds))"
    by (rule foldE_disjoint [where m = id, unfolded id_apply, OF _ 1]) (use validateTopMessage_claims assms(3) in blast)
  let ?es = "concat (map (\<lambda>e. if flPackage fl \<noteq> [] then [enumFullName S e] else []) (flEnums fl))"
  have 2: "distinct ?es \<and> set ?es \<inter> dom s1 = {} \<and> dom t = dom s1 \<union> set ?es"
    by (rule foldE_disjoint [where m = id, unfolded id_apply, OF _ 2]) (rule claimName_ok)
  from claims_append [OF 1 2] show ?thesis by (simp only: fileClaims_def fst_conv snd_conv)
qed

lemma contract_claims:
  assumes "validateContract S opts = Inr ()" "nodesOf S forest"
  shows "distinct (concat (map (fileClaims S) (zip (schFiles S) forest)))"
proof -
  have l: "length (schFiles S) = length forest" using assms(2) unfolding nodesOf_def by (metis length_map)
  let ?f = "validateFileContract (contractFuel S) S opts"
  from assms(1) obtain t where "foldE ?f (schFiles S) (\<lambda>_. None) = Inr t" by (auto simp: validateContract_def bindE_eq_Inr)
  then have "foldE ?f (map fst (zip (schFiles S) forest)) (\<lambda>_. None) = Inr t" using l by simp
  then have run: "foldE (\<lambda>x. ?f (fst x)) (zip (schFiles S) forest) (\<lambda>_. None) = Inr t" by (simp only: foldE_map)
  have "distinct (fileClaims S x) \<and> set (fileClaims S x) \<inter> dom s = {} \<and> dom u = dom s \<union> set (fileClaims S x)"
    if x: "x \<in> set (zip (schFiles S) forest)" and run: "?f (fst x) s = Inr u" for x s u
  proof -
    obtain fl nds where [simp]: "x = (fl, nds)" by (cases x)
    from x obtain j where j: "j < length forest" "fl = schFiles S ! j" "nds = forest ! j" by (auto simp: set_zip)
    have "map flMessages (schFiles S) ! j = map (map nodeRef) forest ! j" using assms(2) by (simp add: nodesOf_def)
    then have "flMessages fl = map nodeRef nds" using j l by simp
    moreover have "\<forall>nd \<in> set nds. nodeOk S nd" using assms(2) j by (auto simp: nodesOf_def)
    ultimately show ?thesis using validateFileContract_claims run by simp
  qed
  then show ?thesis by (rule foldE_disjoint [where m = id, unfolded id_apply, THEN conjunct1, OF _ run])
qed

lemma contract_names:
  assumes "validateContract S opts = Inr ()" "nodesOf S forest"
  shows "inj_on (messageFullName S) {r. r < length (schMessages S) \<and> packagedMessage S r}"
proof -
  have l: "length (schFiles S) = length forest" using assms(2) unfolding nodesOf_def by (metis length_map)
  have node: "mset (concat (map (messageClaim S) (concat (map nodeRefs nds)))) \<subseteq># mset (fileClaims S (fl, nds))" for fl nds
  proof -
    have "mset (concat (map (messageClaim S) (concat (map nodeRefs nds)))) \<subseteq># mset (concat (map (claims S) nds))"
      using claims_messages [of S] by (induction nds) (auto intro: subset_mset.add_mono)
    then show ?thesis by (simp add: fileClaims_def subset_mset.add_increasing2)
  qed
  have "mset (concat (map (messageClaim S) (concat (map nodeRefs (concat ndss))))) \<subseteq># mset (concat (map (fileClaims S) (zip fls ndss)))"
    if "length fls = length ndss" for fls ndss
    using that
  proof (induction fls ndss rule: list_induct2)
    case (Cons fl fls nds ndss)
    from subset_mset.add_mono [OF node [of nds fl] Cons.IH] show ?case by simp
  qed simp
  from this [OF l] assms(2) have
    "mset (concat (map (messageClaim S) [0..<length (schMessages S)])) \<subseteq># mset (concat (map (fileClaims S) (zip (schFiles S) forest)))"
    by (simp add: nodesOf_def)
  with contract_claims [OF assms] have "distinct (concat (map (messageClaim S) [0..<length (schMessages S)]))"
    using distinct_submset by blast
  moreover have "concat (map (messageClaim S) rs) = map (messageFullName S) (filter (packagedMessage S) rs)" for rs
    by (induction rs) (simp_all add: messageClaim_def)
  ultimately show ?thesis by (auto simp: distinct_map inj_on_def)
qed

subsection \<open>The contract returns\<close>

lemma keyLoop_returns:
  "(\<And>f t pre keys owner. f \<in> set fs \<Longrightarrow> flattenTarget f = Some t \<Longrightarrow> inner t pre keys owner \<noteq> Inl NoReturn) \<Longrightarrow>
     keyLoop inner pre owner fs keys \<noteq> Inl NoReturn"
proof (induction fs arbitrary: keys)
  case (Cons f fs)
  have "keyLoop inner pre owner fs k \<noteq> Inl NoReturn" for k
    by (rule Cons.IH) (use Cons.prems [OF list.set_intros(2)] in blast)
  with Cons.prems [of f] show ?case by (auto simp: Let_def bindE_eq_Inl split: option.splits)
qed simp

lemma flattenedJSONKeys_returns:
  assumes S: "flattensIn S"
  shows "branchOk S path r \<Longrightarrow> flattenEnds S r \<Longrightarrow> length (schMessages S) < k + length path \<Longrightarrow>
    flattenedJSONKeys k S r pre keys owner \<noteq> Inl NoReturn"
proof (induction k arbitrary: path r pre keys owner)
  case 0
  then show ?case using branchOk_length [of S path r] by simp
next
  case (Suc k)
  have r: "r \<notin> set path" using branchOk_cycle [OF Suc.prems(1)] Suc.prems(2) by blast
  show ?case unfolding flattenedJSONKeys.simps
  proof (rule keyLoop_returns, rule Suc.IH)
    fix f t assume "f \<in> set (mFields (msgAt S r))" "flattenTarget f = Some t"
    then have t: "(r, t) \<in> flattens S" by (auto simp: flattens_iff fieldsAt_def)
    show "branchOk S (path @ [r]) t" by (rule branchOk_step [OF Suc.prems(1) r t S])
    show "flattenEnds S t" using t Suc.prems(2) flattenEnds_step by blast
  qed (use Suc.prems(3) in simp)
qed

lemma validateCompiledMessage_returns:
  assumes S: "nestingOk S"
  shows "length (schMessages S) < r + k \<Longrightarrow> 0 < k \<Longrightarrow> calm True (validateCompiledMessage k S opts path r names)"
proof (induction k arbitrary: r names)
  case (Suc k)
  have "calm True (validateCompiledMessage k S opts path q n)" if q: "q \<in> set (mNested (msgAt S r))" for q n
  proof -
    from q have "r < length (schMessages S)" by (auto simp: msgAt_def nilMessage_def split: if_splits)
    with nestingOkD [OF S this q] Suc.prems(1) show ?thesis by (intro Suc.IH) auto
  qed
  then show ?case
    unfolding validateCompiledMessage.simps by (intro calm_intros safe_validateCompiledField)
qed simp

lemma wellFormed_flattensIn: "wellFormed S \<Longrightarrow> flattensIn S"
proof -
  assume S: "wellFormed S"
  have "r < length (schMessages S) \<and> t < length (schMessages S)" if "(r, t) \<in> flattens S" for r t
  proof -
    from that obtain f where f: "f \<in> set (fieldsAt S r)" "fType f = Some (TMessage t)"
      unfolding flattens_iff flattenTarget_iff by blast
    then have r: "r < length (schMessages S)" by (auto simp: fieldsAt_def msgAt_def nilMessage_def split: if_splits)
    with S f have "fieldIn S r f" by (simp add: wellFormed_def)
    with f(2) r show ?thesis by (simp add: fieldIn_def)
  qed
  then show ?thesis by (auto simp: flattensIn_def)
qed

lemma flattens_core:
  assumes "keepsCore S S'"
  shows "flattens S' = flattens S"
proof -
  have *: "flattens B \<subseteq> flattens A" if c: "keepsCore A B" for A B
  proof (intro subrelI)
    fix r t assume "(r, t) \<in> flattens B"
    then obtain f where f: "f \<in> set (fieldsAt B r)" "flattenTarget f = Some t" by (auto simp: flattens_iff)
    from keepsCore_field [OF c f(1)] obtain g where g: "g \<in> set (fieldsAt A r)" "fieldCore f = fieldCore g" by blast
    from fieldCore_decorator [OF g(2), of "''flatten''"] fieldCore_type [OF g(2)] f(2) have "flattenTarget g = Some t"
      by (simp add: flattenTarget_iff)
    with g(1) show "(r, t) \<in> flattens A" by (auto simp: flattens_iff)
  qed
  show ?thesis using * assms keepsCore_sym by blast
qed

text \<open>References are not shared, so a message nested below a node is not the root of another.\<close>

lemma nested_not_root:
  assumes "distinct (concat (map nodeRefs nds))" "nd \<in> set nds" "q \<in> set (nodeRefs nd)" "q \<noteq> nodeRef nd"
  shows "q \<notin> nodeRef ` set nds"
proof
  assume "q \<in> nodeRef ` set nds"
  then obtain nd' where nd': "nd' \<in> set nds" "q = nodeRef nd'" by auto
  with assms(4) have "nd \<noteq> nd'" by auto
  moreover have "q \<in> set (nodeRefs nd')" using nd'(2) nodeRef_in by simp
  ultimately show False using assms(1-3) nd'(1)
    by (induction nds) auto
qed

lemma flattenEnds_core: "keepsCore S S' \<Longrightarrow> flattenEnds S' r = flattenEnds S r"
  by (simp add: flattenEnds_def flattens_core)

lemma contractFuel_enough: "r < length (schMessages S) \<Longrightarrow> length (schMessages S) < contractFuel S + length ([] :: mref list)"
  by (simp add: contractFuel_def)

text \<open>Only nested messages can make it diverge: cycles through others are found first.\<close>

lemma validateTopMessage_returns:
  assumes S: "wellFormed S" and r: "r < length (schMessages S)"
    and ends: "flattenEnds S r \<Longrightarrow> \<forall>q \<in> set (the (messagesDeep S [r])). q < length (schMessages S) \<and> flattenEnds S q"
  shows "validateTopMessage (contractFuel S) S opts path r names \<noteq> Inl NoReturn"
proof -
  have n: "nestingOk S" and i: "flattensIn S" using S wellFormed_flattensIn by (auto simp: wellFormed_def)
  have cyc: "validateFlattenCycle (contractFuel S) S path r [] \<noteq> Inl NoReturn"
      "validateFlattenCycle (contractFuel S) S path r [] = Inr () \<longleftrightarrow> flattenEnds S r"
    using validateFlattenCycle_decides [OF i branchOk_start [OF r], of "contractFuel S" path] contractFuel_enough [OF r] by blast+
  have keys: "validateFlattenKeys (contractFuel S) S path r \<noteq> Inl NoReturn" if e: "flattenEnds S r"
  proof -
    obtain rs where rs: "messagesDeep S [r] = Some rs" using messagesDeep_enough [OF n] by blast
    have "calm True (checkFlattenKeys (contractFuel S) S path q)" if "q \<in> set rs" for q
    proof -
      from ends [OF e] rs that have q: "q < length (schMessages S)" "flattenEnds S q" by auto
      have "flattenedJSONKeys (contractFuel S) S q [] (\<lambda>_. None) (mName (msgAt S q)) \<noteq> Inl NoReturn"
        by (rule flattenedJSONKeys_returns [OF i branchOk_start [OF q(1)] q(2) contractFuel_enough [OF q(1)]])
      then show ?thesis
        unfolding checkFlattenKeys_def by (intro calm_intros calm_and_returns [OF safe_flattenedJSONKeys])
    qed
    then have "calm True (validateFlattenKeys (contractFuel S) S path r)"
      unfolding validateFlattenKeys_def rs by (simp add: calm_eachE)
    then show ?thesis by (simp add: calm_def)
  qed
  have "calm True (validateCompiledMessage (contractFuel S) S opts path r names)"
    by (rule validateCompiledMessage_returns [OF n]) (simp_all add: contractFuel_def)
  then show ?thesis
    using cyc keys by (auto simp: validateTopMessage_def bindE_eq_Inl calm_def)
qed

lemma contract_returns:
  assumes S: "wellFormed S" "idsTyped S" "nodesOf S forest"
    and ends: "\<forall>r < length (schMessages S). r \<notin> set (concat (map flMessages (schFiles S))) \<longrightarrow> flattenEnds S r"
  shows "calm True (validateContract S opts)"
proof (rule safe_validateContract [OF S(2)])
  show "\<forall>m \<in> set (methodsOf S). methodIn S m" using S(1) by (simp add: wellFormed_def)
  fix fl r names assume fl: "fl \<in> set (schFiles S)" "r \<in> set (flMessages fl)"
  have n: "nestingOk S" using S(1) by (simp add: wellFormed_def)
  have roots: "set (concat (map flMessages (schFiles S))) \<subseteq> {..<length (schMessages S)}"
    using S(1) refsInD(4) by (fastforce simp: wellFormed_def)
  from fl roots have r: "r < length (schMessages S)" by auto
  show "validateTopMessage (contractFuel S) S opts (flPath fl) r names \<noteq> Inl NoReturn"
  proof (rule validateTopMessage_returns [OF S(1) r], intro ballI)
    fix q assume e: "flattenEnds S r" and q: "q \<in> set (the (messagesDeep S [r]))"
    from fl(2) fl(1) have "r \<in> set (concat (map flMessages (schFiles S)))" by auto
    then have "r \<in> set (map nodeRef (concat forest))" by (simp only: nodesOf_roots [OF S(3)])
    then obtain nd where nd: "nd \<in> set (concat forest)" "r = nodeRef nd" by auto
    with q deep_root [OF S(3) n] have q: "q \<in> set (nodeRefs nd)" by simp
    with nd(1) have "q \<in> set (concat (map nodeRefs (concat forest)))" by auto
    then have l: "q < length (schMessages S)" using S(3) by (simp only: nodesOf_def set_upt) simp
    show "q < length (schMessages S) \<and> flattenEnds S q"
    proof (cases "q = r")
      case False
      have "q \<notin> set (map nodeRef (concat forest))"
        using S(3) nd q False nested_not_root [of "concat forest" nd q] by (simp add: nodesOf_def)
      with l ends e show ?thesis by (simp only: nodesOf_roots [OF S(3)]) simp
    qed (use e l in simp)
  qed
qed

lemma keepsCore_roots: "keepsCore S S' \<Longrightarrow> map flMessages (schFiles S') = map flMessages (schFiles S)"
  using sameShape_files(2) by (auto simp: keepsCore_def)

definition nested :: "schema \<Rightarrow> mref \<Rightarrow> bool" where
  "nested S r \<longleftrightarrow> r < length (schMessages S) \<and> r \<notin> set (concat (map flMessages (schFiles S)))"

lemma compile_diverges:
  assumes "\<forall>s \<in> set sources. sourceShaped s" "compileWithOptions lib sources opts = Inl NoReturn"
  shows "\<exists>sc forest S r. validateAndBuildImportScopes sources = Some (Inr sc) \<and> buildSchema opts sc sources = Inr (forest, S) \<and>
    nested S r \<and> \<not> flattenEnds S r"
proof (rule ccontr)
  assume no: "\<not> ?thesis"
  have "calm True (compileWithOptions lib sources opts)"
  proof (rule compile_calm [OF assms(1)])
    fix sc forest c S0 S
    assume b: "built opts sc sources forest c S0" and k: "keepsCore S0 S" and ok: "\<forall>s \<in> set sources. sourceOk opts s"
      and run: "validateAndBuildImportScopes sources = Some (Inr sc)" "buildSchema opts sc sources = Inr (forest, S0)"
    show "calm True (validateContract S opts)"
    proof (rule contract_returns [OF wellFormed_core [OF k built_wellFormed [OF b]] idsTyped_core [OF k built_idsTyped [OF b ok]] built_nodes [OF b k]])
      show "\<forall>r < length (schMessages S). r \<notin> set (concat (map flMessages (schFiles S))) \<longrightarrow> flattenEnds S r"
        using no run by (auto simp: nested_def keepsCore_length [OF k] flattenEnds_core [OF k] keepsCore_roots [OF k])
    qed
  qed
  with assms(2) show False by (simp add: calm_def)
qed

subsection \<open>What a compiled package satisfies\<close>

lemma flattenedJSONKeys_ended:
  "fieldsNamed S \<Longrightarrow> flattenedJSONKeys k S r pre keys owner = Inr (keys', [], own) \<Longrightarrow> flatKeys k S r pre \<noteq> None"
proof (induction k arbitrary: r pre keys keys' owner own)
  case (Suc k)
  have "keyLoop (flattenedJSONKeys k S) pre owner fs keys = Inr (keys', [], own) \<Longrightarrow> \<forall>f \<in> set fs. fName f \<noteq> [] \<Longrightarrow>
      keysIn (flatKeys k S) pre fs \<noteq> None" for fs keys
  proof (induction fs arbitrary: keys)
    case (Cons f fs)
    show ?case
    proof (cases "flattenTarget f")
      case None
      with Cons.prems have "keyLoop (flattenedJSONKeys k S) pre owner fs (keys(pre @ fName f \<mapsto> owner @ ''.'' @ fName f)) = Inr (keys', [], own)"
        by (auto simp: Let_def split: option.splits)
      from Cons.IH [OF this] Cons.prems(2) None show ?thesis by (simp add: keysIn_Cons)
    next
      case (Some t)
      with Cons.prems obtain keys1 own1 where
        1: "flattenedJSONKeys k S t (pre @ flattenPrefix f) keys (owner @ ''.'' @ fName f) = Inr (keys1, [], own1)"
        and 2: "keyLoop (flattenedJSONKeys k S) pre owner fs keys1 = Inr (keys', [], own)"
        by (auto simp: bindE_eq_Inr split: if_splits)
      from Suc.IH [OF Suc.prems(1) 1] Cons.IH [OF 2] Cons.prems(2) Some show ?thesis by (auto simp: keysIn_Cons)
    qed
  qed (simp add: keysIn_Nil)
  with Suc.prems show ?case by (simp add: flatKeys_Suc fieldsAt_def fieldsNamed_def del: flatKeys.simps)
qed simp

lemma checkFlattenKeys_ok:
  assumes "fieldsNamed S" "checkFlattenKeys k S path r = Inr ()"
  shows "\<exists>ks. flatKeys k S r [] = Some ks \<and> distinct ks"
proof -
  from assms(2) obtain keys' own where run: "flattenedJSONKeys k S r [] (\<lambda>_. None) (mName (msgAt S r)) = Inr (keys', [], own)"
    by (auto simp: checkFlattenKeys_def bindE_eq_Inr contractError_def split: if_splits)
  then obtain ks where ks: "flatKeys k S r [] = Some ks" using flattenedJSONKeys_ended [OF assms(1)] by blast
  from flattenedJSONKeys_run [OF assms(1) ks, of "\<lambda>_. None" "mName (msgAt S r)"] run ks show ?thesis
    by (auto simp: keyRun_def split: if_splits)
qed

lemma stages_contract:
  assumes "stages lib sources opts sc forest c S0 S1 S" "fl \<in> set (schFiles S)" "r \<in> set (flMessages fl)"
  shows "validateFlattenCycle (contractFuel S) S (flPath fl) r [] = Inr () \<and> validateFlattenKeys (contractFuel S) S (flPath fl) r = Inr ()"
proof -
  from assms(1) obtain t where "foldE (validateFileContract (contractFuel S) S opts) (schFiles S) (\<lambda>_. None) = Inr t"
    by (auto simp: stages_def validateContract_def bindE_eq_Inr)
  from foldE_each [OF this assms(2)] obtain s u where "foldE (validateTopMessage (contractFuel S) S opts (flPath fl)) (flMessages fl) s = Inr u"
    by (auto simp: validateFileContract_def bindE_eq_Inr)
  from foldE_each [OF this assms(3)] show ?thesis by (auto simp: validateTopMessage_def bindE_eq_Inr)
qed

lemma compiled_fieldsNamed:
  assumes "stages lib sources opts sc forest c S0 S1 S" "\<not> allowLegacy opts"
  shows "fieldsNamed S"
  unfolding fieldsNamed_def
proof (intro allI ballI)
  from assms(1) have b: "built opts sc sources forest c S0" and v: "validateSyntax lib sources opts = passed" by (simp_all add: stages_def)
  fix r f assume "f \<in> set (fieldsAt S r)"
  from keepsCore_field [OF stages_core [OF assms(1)] this] obtain g where g: "g \<in> set (fieldsAt S0 r)" "fieldCore f = fieldCore g" by blast
  from built_field [OF b g(1)] obtain d fd where d: "d \<in> set (allDecls sources)" "fd \<in> set (mdFields (snd d))"
      and fd: "buildField opts sc c (fst d) r fd = Inr g" by blast
  have "messageOk opts (snd d)" by (rule allDecls_ok [OF validateSyntax_ok(1) [OF v] d(1)])
  with d(2) assms(2) have "fdName fd \<noteq> []" by (cases "snd d") simp
  moreover have "tablesOk c" using b by (simp add: built_def declOk_def)
  ultimately show "fName f \<noteq> []" using buildField_in [OF fd] fieldCore_type [OF g(2)] by simp
qed

lemma compiled_flattening:
  assumes "compileWithOptions lib sources opts = Inr S" "r < length (schMessages S)"
  shows "\<not> nested S r \<Longrightarrow> flattenEnds S r"
    and "\<not> allowLegacy opts \<Longrightarrow> \<exists>ks. flatKeys (contractFuel S) S r [] = Some ks \<and> distinct ks"
proof -
  obtain sc forest c S0 S1 where st: "stages lib sources opts sc forest c S0 S1 S" using compile_stages [OF assms(1)] by blast
  note nodes = stages_nodes [OF st]
  have S: "wellFormed S" by (rule compiled_wellFormed [OF assms(1)])
  then have n: "nestingOk S" by (simp add: wellFormed_def)
  show "flattenEnds S r" if "\<not> nested S r"
  proof -
    from that assms(2) obtain fl where fl: "fl \<in> set (schFiles S)" "r \<in> set (flMessages fl)" by (auto simp: nested_def)
    with validateFlattenCycle_decides [OF wellFormed_flattensIn [OF S] branchOk_start [OF assms(2)] contractFuel_enough [OF assms(2)]]
    show ?thesis using stages_contract [OF st] by blast
  qed
  show "\<exists>ks. flatKeys (contractFuel S) S r [] = Some ks \<and> distinct ks" if l: "\<not> allowLegacy opts"
  proof -
    from root_of [OF nodes assms(2)] obtain nd fl where
      nd: "nd \<in> set (concat forest)" "r \<in> set (nodeRefs nd)" "fl \<in> set (schFiles S)" "nodeRef nd \<in> set (flMessages fl)" by blast
    from stages_contract [OF st nd(3,4)] deep_root [OF nodes n nd(1)] nd(2)
    have "checkFlattenKeys (contractFuel S) S (flPath fl) r = Inr ()"
      by (simp add: validateFlattenKeys_def eachE_Inr)
    then show ?thesis by (rule checkFlattenKeys_ok [OF compiled_fieldsNamed [OF st l]])
  qed
qed

lemma compiled_names:
  "compileWithOptions lib sources opts = Inr S \<Longrightarrow> inj_on (messageFullName S) {r. r < length (schMessages S) \<and> packagedMessage S r}"
  using compile_stages contract_names stages_nodes unfolding stages_def by meson

lemma compiled_messages: "compileWithOptions lib sources opts = Inr S \<Longrightarrow> schemaMessages S = Some [0..<length (schMessages S)]"
  using compile_stages schemaMessages_all stages_nodes compiled_wellFormed unfolding wellFormed_def by meson

subsection \<open>Where the parts of a request go\<close>

definition pathBound :: "schema \<Rightarrow> mref \<Rightarrow> string \<Rightarrow> string \<Rightarrow> bool" where
  "pathBound S req route name \<longleftrightarrow> (\<exists>f k. findField S (Some req) name = Some f \<and> fType f = Some (TScalar k) \<and>
     \<not> fRepeated f \<and> \<not> fOptional f \<and> isHTTPParameterScalar k \<and> (isWildcardParam route name \<longrightarrow> k = ScalarString))"

definition queryName :: "field \<Rightarrow> string" where
  "queryName f = (case Option.bind (fieldDecorator f ''query'') decoratorValue of
     Some v \<Rightarrow> if v = [] then fName f else v | None \<Rightarrow> fName f)"

definition routeOf :: "rpc \<Rightarrow> string" where
  "routeOf m = (case webSocketPath m of Some p \<Rightarrow> p | None \<Rightarrow> pathOf m)"

text \<open>
  Path parameters are distinct scalar fields, no field is bound to two places, query names are
  distinct, the body is a field, and a required field is sent whenever the verb has no whole body.
\<close>

definition requestBound :: "schema \<Rightarrow> rpc \<Rightarrow> mref \<Rightarrow> bool" where
  "requestBound S m req \<longleftrightarrow> (let params = pathParameterNames (routeOf m); fs = fieldsAt S req; query = filter (\<lambda>f. fieldHasDecorator f ''query'') fs in
     distinct params \<and> (\<forall>p \<in> set params. pathBound S req (routeOf m) p) \<and>
     distinct (map queryName query) \<and> (\<forall>f \<in> set query. fName f \<notin> set params) \<and>
     (\<forall>b. bodyField m = Some b \<longrightarrow> (\<exists>f. findField S (Some req) b = Some f \<and> b \<notin> set params \<and> \<not> fieldHasDecorator f ''query'')) \<and>
     (isWebSocket m \<or> isBodyBearingVerb (verbOf m) \<and> bodyField m = None \<or>
       (\<forall>f \<in> set fs. fieldHasDecorator f ''required'' \<longrightarrow> fName f \<in> set params \<or> f \<in> set query \<or> bodyField m = Some (fName f))))"

lemma checkPathParam_ok:
  "checkPathParam path S m req route name seen = Inr seen' \<Longrightarrow> name \<notin> set seen \<and> pathBound S req route name \<and> seen' = name # seen"
  by (auto simp: checkPathParam_def contractError_def pathBound_def split: option.splits irType.splits if_splits)

lemma checkPathParams_ok:
  "foldE (checkPathParam path S m req route) ps seen = Inr seen' \<Longrightarrow>
     distinct ps \<and> set ps \<inter> set seen = {} \<and> (\<forall>p \<in> set ps. pathBound S req route p) \<and> set seen' = set ps \<union> set seen"
proof (induction ps arbitrary: seen)
  case (Cons p ps)
  then obtain s1 where 1: "checkPathParam path S m req route p seen = Inr s1" "foldE (checkPathParam path S m req route) ps s1 = Inr seen'"
    by (auto simp: bindE_eq_Inr)
  from checkPathParam_ok [OF 1(1)] Cons.IH [OF 1(2)] show ?case by auto
qed simp

definition queryKey :: "field \<Rightarrow> string list" where
  "queryKey f = (if fieldHasDecorator f ''query'' then [queryName f] else [])"

lemma checkQueryField_ok:
  assumes "checkQueryField path opts m inPath f seen = Inr seen'"
  shows "distinct (queryKey f) \<and> set (queryKey f) \<inter> dom seen = {} \<and> dom seen' = dom seen \<union> set (queryKey f)"
    and "fieldHasDecorator f ''query'' \<Longrightarrow> fName f \<notin> set inPath"
proof -
  have "fieldHasDecorator f ''query'' \<longleftrightarrow> fieldDecorator f ''query'' \<noteq> None"
    by (simp add: fieldHasDecorator_def hasDecorator_def fieldDecorator_def)
  with assms show "distinct (queryKey f) \<and> set (queryKey f) \<inter> dom seen = {} \<and> dom seen' = dom seen \<union> set (queryKey f)"
    "fieldHasDecorator f ''query'' \<Longrightarrow> fName f \<notin> set inPath"
    by (auto simp: checkQueryField_def contractError_def queryKey_def queryName_def Let_def split: option.splits if_splits)
qed

lemma checkQueryFields_ok:
  assumes "foldE (checkQueryField path opts m inPath) fs (\<lambda>_. None) = Inr t"
  shows "distinct (map queryName (filter (\<lambda>f. fieldHasDecorator f ''query'') fs)) \<and>
    (\<forall>f \<in> set fs. fieldHasDecorator f ''query'' \<longrightarrow> fName f \<notin> set inPath)"
proof
  have "distinct (concat (map queryKey fs))"
    by (rule foldE_disjoint [where m = id, unfolded id_apply, THEN conjunct1, OF _ assms]) (rule checkQueryField_ok(1))
  moreover have "concat (map queryKey xs) = map queryName (filter (\<lambda>f. fieldHasDecorator f ''query'') xs)" for xs
    by (induction xs) (simp_all add: queryKey_def)
  ultimately show "distinct (map queryName (filter (\<lambda>f. fieldHasDecorator f ''query'') fs))" by simp
  show "\<forall>f \<in> set fs. fieldHasDecorator f ''query'' \<longrightarrow> fName f \<notin> set inPath"
    using foldE_each [OF assms] checkQueryField_ok(2) by blast
qed

lemma checkBodyField_ok:
  assumes "checkBodyField path S m req inPath = Inr ()" "bodyField m = Some b"
  shows "\<exists>f. findField S (Some req) b = Some f \<and> b \<notin> set inPath \<and> \<not> fieldHasDecorator f ''query''"
proof -
  have "fName f = b" if "findField S (Some req) b = Some f" for f using that by (auto simp: findField_def find_Some_iff)
  with assms show ?thesis by (auto simp: checkBodyField_def contractError_def split: option.splits if_splits)
qed

lemma validateUnboundFields_ok:
  assumes "validateUnboundFields path S opts m req inPath = Inr ()" "\<not> isWebSocket m" "\<not> (isBodyBearingVerb (verbOf m) \<and> bodyField m = None)"
    "f \<in> set (fieldsAt S req)" "fieldHasDecorator f ''required''"
  shows "fName f \<in> set inPath \<or> fieldHasDecorator f ''query'' \<or> bodyField m = Some (fName f)"
  using assms
  by (auto simp: validateUnboundFields_def contractError_def Let_def fieldsAt_def find_None_iff unboundField_def split: option.splits if_splits)

lemma validateMethodBindings_ok:
  assumes "validateMethodBindings path S opts m req resp = Inr ()"
  shows "requestBound S m req"
proof -
  from assms obtain inPath t where
    1: "foldE (checkPathParam path S m req (routeOf m)) (pathParameterNames (routeOf m)) [] = Inr inPath"
    and 2: "foldE (checkQueryField path opts m inPath) (fieldsAt S req) (\<lambda>_. None) = Inr t"
    and 3: "checkBodyField path S m req inPath = Inr ()" and 4: "validateUnboundFields path S opts m req inPath = Inr ()"
    by (auto simp: validateMethodBindings_def bindE_eq_Inr Let_def routeOf_def fieldsAt_def)
  from checkPathParams_ok [OF 1] have p: "set inPath = set (pathParameterNames (routeOf m))" by simp
  have sent: "isWebSocket m \<or> isBodyBearingVerb (verbOf m) \<and> bodyField m = None \<or>
      (\<forall>f \<in> set (fieldsAt S req). fieldHasDecorator f ''required'' \<longrightarrow>
        fName f \<in> set inPath \<or> fieldHasDecorator f ''query'' \<or> bodyField m = Some (fName f))"
    using validateUnboundFields_ok [OF 4] by blast
  from checkPathParams_ok [OF 1] checkQueryFields_ok [OF 2] checkBodyField_ok [OF 3] sent
  show ?thesis unfolding requestBound_def Let_def p by simp
qed

lemma compiled_methods:
  assumes "compileWithOptions lib sources opts = Inr S" "m \<in> set (methodsOf S)"
  shows "\<exists>path req resp. rRequest m = Some req \<and> rResponse m = Some resp \<and>
    validateMethodBindings path S opts m req resp = Inr () \<and> validateRawHTTPContract path S m req resp = Inr ()"
proof -
  obtain sc forest c S0 S1 where "stages lib sources opts sc forest c S0 S1 S" using compile_stages [OF assms(1)] by blast
  then obtain t where f: "foldE (validateFileContract (contractFuel S) S opts) (schFiles S) (\<lambda>_. None) = Inr t"
    by (auto simp: stages_def validateContract_def bindE_eq_Inr)
  from assms(2) obtain fl sv where fl: "fl \<in> set (schFiles S)" "sv \<in> set (flServices fl)" "m \<in> set (sMethods sv)"
    by (auto simp: methodsOf_def allMethods_def)
  from foldE_each [OF f fl(1)] have "eachE (validateMethod (flPath fl) S opts) (concat (map sMethods (flServices fl))) = Inr ()"
    by (auto simp: validateFileContract_def bindE_eq_Inr)
  with fl have "validateMethod (flPath fl) S opts m = Inr ()" by (auto simp: eachE_Inr)
  then show ?thesis by (auto simp: validateMethod_def bindE_eq_Inr split: option.splits)
qed

lemma compiled_bindings:
  "compileWithOptions lib sources opts = Inr S \<Longrightarrow> m \<in> set (methodsOf S) \<Longrightarrow> \<exists>req. rRequest m = Some req \<and> requestBound S m req"
  using compiled_methods validateMethodBindings_ok by blast

end
