(* ===== verification/PassProps.thy ===== *)
theory PassProps
  imports ContractProps
begin

text \<open>
  What the passes over the built schema compute: the marked sets are the messages reachable from
  requests and responses, \<open>reachesMessage\<close> is transitive mention, and the response-only mark says
  exactly that a message is received and never sent.
\<close>

subsection \<open>What a search visits\<close>

context finite_search begin

lemma searchItems_visits:
  assumes v: "\<And>m seen r s. go m seen = Some (r, s) \<Longrightarrow> set s \<subseteq> set seen \<union> R m"
  shows "searchItems go is seen = Some (r, s) \<Longrightarrow> set s \<subseteq> set seen \<union> (\<Union>m \<in> {m. Visit m \<in> set is}. R m)"
proof (induction "is" arbitrary: seen)
  case (Cons i "is")
  show ?case
  proof (cases i)
    case (Visit m)
    with Cons.prems obtain q s1 where 1: "go m seen = Some (q, s1)" by (auto split: option.splits)
    with Cons.prems Visit consider "q \<noteq> None" "s = s1" | "q = None" "searchItems go is s1 = Some (r, s)"
      by (cases q) auto
    then show ?thesis
    proof cases
      case 1
      with v [OF \<open>go m seen = Some (q, s1)\<close>] Visit show ?thesis by auto
    next
      case 2
      from Cons.IH [OF 2(2)] v [OF 1] Visit show ?thesis by fastforce
    qed
  qed (use Cons.prems in auto)
qed simp

lemma search_visits: "search items skip k m seen = Some (r, s) \<Longrightarrow> set s \<subseteq> set seen \<union> {a. reach items skip m a}"
proof (induction k arbitrary: m seen r s)
  case (Suc k)
  show ?case
  proof (cases "m \<in> set seen \<or> skip m")
    case False
    with Suc.prems have run: "searchItems (search items skip k) (items m) (m # seen) = Some (r, s)" by simp
    have "set s \<subseteq> set (m # seen) \<union> (\<Union>b \<in> {b. Visit b \<in> set (items m)}. {a. reach items skip b a})"
      by (rule searchItems_visits [OF _ run]) (rule Suc.IH)
    then show ?thesis using False by (auto intro: R_here reach_front)
  qed (use Suc.prems in auto)
qed simp

text \<open>A search of some items, with enough levels for each.\<close>

lemma items_sound:
  "searchItems (search items skip k) is seen = Some (Some x, s) \<Longrightarrow>
     Hit x \<in> set is \<or> (\<exists>m. Visit m \<in> set is \<and> (\<exists>a. reach items skip m a \<and> Hit x \<in> set (items a)))"
  by (rule searchItems_sound) (rule search_sound)

lemma items_complete:
  "searchItems (search items skip k) is seen = Some (None, s) \<Longrightarrow> covers seen s \<and> explored items skip s is"
  by (rule searchItems_complete) (rule search_complete)

lemma items_enough: "unseen seen < k \<Longrightarrow> \<exists>r s. searchItems (search items skip k) is seen = Some (r, s)"
  using searchItems_enough [of k "search items skip k"] search_enough by blast

end

interpretation reaches: finite_search "reachItems S" "\<lambda>_. False" "length (schMessages S)" for S
  by unfold_locales (simp add: reachItems_def mentions_def msgAt_outside nilMessage_def)

interpretation targets: finite_search "targetItems S t" "\<lambda>_. False" "length (schMessages S)" for S t
  by unfold_locales (simp add: targetItems_def mentions_def msgAt_outside nilMessage_def)

definition mentionsOf :: "schema \<Rightarrow> (mref \<times> mref) set" where
  "mentionsOf S = {(a, b). b \<in> set (mentions S a)}"

lemma reach_mentions: "reach (reachItems S) (\<lambda>_. False) r a \<longleftrightarrow> (r, a) \<in> (mentionsOf S)\<^sup>*"
proof
  show "(r, a) \<in> (mentionsOf S)\<^sup>*" if "reach (reachItems S) (\<lambda>_. False) r a"
    using that by induction (auto simp: reachItems_def mentionsOf_def intro: rtrancl_into_rtrancl)
  show "reach (reachItems S) (\<lambda>_. False) r a" if "(r, a) \<in> (mentionsOf S)\<^sup>*"
    using that
  proof induction
    case (step a b)
    then have "Visit b \<in> set (reachItems S a)" by (simp add: reachItems_def mentionsOf_def)
    then show ?case by (rule R_step [OF step.IH]) simp
  qed (rule R_here, simp)
qed

subsection \<open>Sets of messages\<close>

definition closedMentions :: "schema \<Rightarrow> mref list \<Rightarrow> bool" where
  "closedMentions S seen \<longleftrightarrow> (\<forall>a \<in> set seen. set (mentions S a) \<subseteq> set seen)"

lemma reachMessages_exact:
  assumes "closedMentions S seen"
  shows "closedMentions S (reachMessages S m seen)"
    and "set (reachMessages S m seen) = set seen \<union> {a. \<exists>r. m = Some r \<and> (r, a) \<in> (mentionsOf S)\<^sup>*}"
proof -
  have "closedMentions S (reachMessages S m seen) \<and>
      set (reachMessages S m seen) = set seen \<union> {a. \<exists>r. m = Some r \<and> (r, a) \<in> (mentionsOf S)\<^sup>*}"
  proof (cases m)
    case None
    with assms show ?thesis by (simp add: reachMessages_def)
  next
    case (Some r)
    have "reaches.unseen S seen < Suc (length (schMessages S))"
      using card_mono [of "{..<length (schMessages S)}" "{..<length (schMessages S)} - set seen"] by (simp add: reaches.unseen_def)
    then obtain h s where run: "search (reachItems S) (\<lambda>_. False) (Suc (length (schMessages S))) r seen = Some (h, s)"
      using reaches.search_enough by blast
    have "h = None"
    proof (rule ccontr)
      assume "h \<noteq> None"
      with run reaches.search_sound show False by (fastforce simp: reachItems_def)
    qed
    with run have run: "search (reachItems S) (\<lambda>_. False) (Suc (length (schMessages S))) r seen = Some (None, s)" by simp
    from reaches.search_complete [OF run] have c: "reaches.covers S seen s" "r \<in> set s" by auto
    have m: "reachMessages S m seen = s" using run Some by (simp add: reachMessages_def del: search.simps)
    have closed: "closedMentions S s"
      unfolding closedMentions_def
    proof (intro ballI subsetI)
      fix a b assume ab: "a \<in> set s" "b \<in> set (mentions S a)"
      then have "Visit b \<in> set (reachItems S a)" by (simp add: reachItems_def)
      with ab c(1) assms show "b \<in> set s"
        by (cases "a \<in> set seen") (auto simp: reaches.covers_def closedMentions_def explored_def)
    qed
    have "a \<in> set s" if "(r, a) \<in> (mentionsOf S)\<^sup>*" for a
      using that c(2) closed by induction (auto simp: mentionsOf_def closedMentions_def)
    moreover have "set s \<subseteq> set seen \<union> {a. (r, a) \<in> (mentionsOf S)\<^sup>*}"
      using reaches.search_visits [OF run] by (simp add: reach_mentions)
    moreover have "set seen \<subseteq> set s" using c(1) by (simp add: reaches.covers_def)
    ultimately show ?thesis using m closed Some by auto
  qed
  then show "closedMentions S (reachMessages S m seen)"
    "set (reachMessages S m seen) = set seen \<union> {a. \<exists>r. m = Some r \<and> (r, a) \<in> (mentionsOf S)\<^sup>*}" by simp_all
qed

text \<open>A loop that adds what is reachable from each of some roots.\<close>

definition addsReachable :: "schema \<Rightarrow> ('a \<Rightarrow> mref set) \<Rightarrow> (mref list \<Rightarrow> 'a \<Rightarrow> mref list) \<Rightarrow> bool" where
  "addsReachable S roots add \<longleftrightarrow> (\<forall>seen x. closedMentions S seen \<longrightarrow> closedMentions S (add seen x) \<and>
     set (add seen x) = set seen \<union> (mentionsOf S)\<^sup>* `` roots x)"

lemma addsReachable_one: "addsReachable S (\<lambda>m. set_option m) (\<lambda>seen m. reachMessages S m seen)"
  unfolding addsReachable_def using reachMessages_exact by (auto simp: Image_def)

lemma addsReachable_foldl:
  assumes "addsReachable S roots add" "closedMentions S seen"
  shows "closedMentions S (foldl add seen xs) \<and> set (foldl add seen xs) = set seen \<union> (mentionsOf S)\<^sup>* `` (\<Union>x \<in> set xs. roots x)"
  using assms(2)
proof (induction xs arbitrary: seen)
  case (Cons x xs)
  with assms(1) have "closedMentions S (add seen x)" "set (add seen x) = set seen \<union> (mentionsOf S)\<^sup>* `` roots x"
    unfolding addsReachable_def by blast+
  with Cons.IH [OF this(1)] show ?case by (auto simp: Image_Un)
qed simp

lemma closedMentions_Nil: "closedMentions S []"
  by (simp add: closedMentions_def)

lemma requestMessages_exact:
  "set (requestMessages S) = (mentionsOf S)\<^sup>* `` (\<Union>m \<in> set (methodsOf S). set_option (rRequest m))"
proof -
  have "addsReachable S (\<lambda>m. set_option (rRequest m)) (\<lambda>seen m. reachMessages S (rRequest m) seen)"
    using addsReachable_one [of S] unfolding addsReachable_def by blast
  from addsReachable_foldl [OF this closedMentions_Nil, of "methodsOf S"] show ?thesis by (simp add: requestMessages_def)
qed

lemma responseMessages_exact:
  "set (responseMessages S) = (mentionsOf S)\<^sup>* `` (\<Union>m \<in> set (methodsOf S). set_option (rResponse m) \<union> set (rErrorTypes m))"
proof -
  have e: "addsReachable S (\<lambda>e. {e}) (\<lambda>seen e. reachMessages S (Some e) seen)"
    unfolding addsReachable_def
  proof (intro allI impI)
    fix seen e assume "closedMentions S seen"
    with addsReachable_one [of S] show "closedMentions S (reachMessages S (Some e) seen) \<and>
        set (reachMessages S (Some e) seen) = set seen \<union> (mentionsOf S)\<^sup>* `` {e}"
      unfolding addsReachable_def by (metis option.set(2))
  qed
  have "addsReachable S (\<lambda>m. set_option (rResponse m) \<union> set (rErrorTypes m))
     (\<lambda>seen m. foldl (\<lambda>s e. reachMessages S (Some e) s) (reachMessages S (rResponse m) seen) (rErrorTypes m))"
    unfolding addsReachable_def
  proof (intro allI impI)
    fix seen m assume "closedMentions S seen"
    with addsReachable_one [of S] have 1: "closedMentions S (reachMessages S (rResponse m) seen)"
      "set (reachMessages S (rResponse m) seen) = set seen \<union> (mentionsOf S)\<^sup>* `` set_option (rResponse m)"
      unfolding addsReachable_def by blast+
    from addsReachable_foldl [OF e 1(1), of "rErrorTypes m"] 1(2)
    show "closedMentions S (foldl (\<lambda>s e. reachMessages S (Some e) s) (reachMessages S (rResponse m) seen) (rErrorTypes m)) \<and>
      set (foldl (\<lambda>s e. reachMessages S (Some e) s) (reachMessages S (rResponse m) seen) (rErrorTypes m)) =
      set seen \<union> (mentionsOf S)\<^sup>* `` (set_option (rResponse m) \<union> set (rErrorTypes m))" by (auto simp: Image_Un)
  qed
  from addsReachable_foldl [OF this closedMentions_Nil, of "methodsOf S"] show ?thesis by (simp add: responseMessages_def)
qed

subsection \<open>Mentioning through others\<close>

lemma Visit_targets: "Visit b \<in> set (targetItems S t a) \<longleftrightarrow> b \<in> set (mentions S a) \<and> b \<noteq> t"
  by (auto simp: targetItems_def)

lemma Hit_targets: "Hit u \<in> set (targetItems S t a) \<longleftrightarrow> t \<in> set (mentions S a)"
  by (auto simp: targetItems_def)

lemma reach_targets: "reach (targetItems S t) (\<lambda>_. False) r a \<Longrightarrow> (r, a) \<in> (mentionsOf S)\<^sup>*"
  by (induction rule: reach.induct) (auto simp: Visit_targets mentionsOf_def intro: rtrancl_into_rtrancl)

lemma targets_run:
  "\<exists>r s. searchItems (search (targetItems S t) (\<lambda>_. False) (Suc (length (schMessages S)))) is [] = Some (r, s)"
proof -
  have "targets.unseen S [] < Suc (length (schMessages S))" by (simp add: targets.unseen_def)
  then show ?thesis by (rule targets.items_enough)
qed

lemma reachesMessage_iff: "reachesMessage S r t \<longleftrightarrow> (r, t) \<in> (mentionsOf S)\<^sup>+"
proof -
  let ?search = "search (targetItems S t) (\<lambda>_. False) (Suc (length (schMessages S)))"
  obtain h s where run: "searchItems ?search (targetItems S t r) [] = Some (h, s)" using targets_run by blast
  have found: "reachesMessage S r t \<longleftrightarrow> h \<noteq> None"
    using run by (auto simp: reachesMessage_def simp del: search.simps split: option.split)
  have "(r, t) \<in> (mentionsOf S)\<^sup>+" if "h = Some u" for u
  proof -
    from targets.items_sound [OF run [unfolded that]]
    consider "Hit u \<in> set (targetItems S t r)"
      | m a where "Visit m \<in> set (targetItems S t r)" "reach (targetItems S t) (\<lambda>_. False) m a" "Hit u \<in> set (targetItems S t a)" by blast
    then show ?thesis
    proof cases
      case 1
      then show ?thesis by (auto simp: Hit_targets mentionsOf_def)
    next
      case 2
      then have "(r, m) \<in> mentionsOf S" "(a, t) \<in> mentionsOf S" by (auto simp: Hit_targets Visit_targets mentionsOf_def)
      moreover have "(m, a) \<in> (mentionsOf S)\<^sup>*" using 2(2) by (rule reach_targets)
      ultimately show ?thesis by (metis converse_rtrancl_into_rtrancl rtrancl_into_trancl1)
    qed
  qed
  moreover have "(r, t) \<notin> (mentionsOf S)\<^sup>+" if "h = None"
  proof -
    have c: "targets.covers S t [] s" "explored (targetItems S t) (\<lambda>_. False) s (targetItems S t r)"
      using targets.items_complete [OF run [unfolded that]] by blast+
    have none: "t \<notin> set (mentions S a) \<and> set (mentions S a) \<subseteq> set s" if "a = r \<or> a \<in> set s" for a
    proof -
      from that c have "explored (targetItems S t) (\<lambda>_. False) s (targetItems S t a)" by (auto simp: targets.covers_def)
      then show ?thesis unfolding explored_def Hit_targets Visit_targets by auto
    qed
    have "a \<in> set s \<and> a \<noteq> t" if "(r, a) \<in> (mentionsOf S)\<^sup>+" for a
      using that by induction (use none in \<open>auto simp: mentionsOf_def\<close>)
    then show ?thesis by blast
  qed
  ultimately show ?thesis using found by (cases h) auto
qed

subsection \<open>The response-only mark\<close>

lemma msgAt_foldl_setMessage:
  assumes "distinct rs" "\<And>S x. h S x = setMessage x (g x) S"
  shows "q < length (schMessages S) \<Longrightarrow>
    msgAt (foldl h S rs) q = (if q \<in> set rs then g q (msgAt S q) else msgAt S q) \<and>
    length (schMessages (foldl h S rs)) = length (schMessages S)"
  using assms(1)
proof (induction rs arbitrary: S)
  case (Cons x rs)
  have l: "length (schMessages (h S x)) = length (schMessages S)" by (simp add: assms(2) setMessage_def)
  have m: "msgAt (h S x) q = (if q = x then g x (msgAt S x) else msgAt S q)"
    using Cons.prems(1) by (auto simp: assms(2) setMessage_def msgAt_def)
  from Cons.IH [of "h S x"] Cons.prems l m show ?case by auto
qed simp

definition receivedOnly :: "schema \<Rightarrow> mref \<Rightarrow> bool" where
  "receivedOnly S r \<longleftrightarrow>
     r \<in> (mentionsOf S)\<^sup>* `` (\<Union>m \<in> set (methodsOf S). set_option (rResponse m) \<union> set (rErrorTypes m)) \<and>
     r \<notin> (mentionsOf S)\<^sup>* `` (\<Union>m \<in> set (methodsOf S). set_option (rRequest m))"

lemma markResponseOnlyMessages_marks:
  assumes "markResponseOnlyMessages S z = Some S'" "schemaMessages S = Some [0..<length (schMessages S)]" "r < length (schMessages S)"
  shows "mResponseOnly (msgAt S' r) \<longleftrightarrow> receivedOnly S r"
proof -
  let ?only = "\<lambda>x. x \<in> set (responseMessages S) \<and> x \<notin> set (requestMessages S)"
  let ?g = "\<lambda>x m. m\<lparr>mResponseOnly := ?only x, mFields := (if ?only x then markFields S z x (mFields m) else mFields m)\<rparr>"
  have S': "S' = foldl (markResponseOnly S z) S [0..<length (schMessages S)]"
    using assms(1,2) by (simp add: markResponseOnlyMessages_def)
  have "msgAt S' r = ?g r (msgAt S r)"
    unfolding S' using msgAt_foldl_setMessage [of "[0..<length (schMessages S)]" "markResponseOnly S z" ?g r S] assms(3)
    by (simp add: markResponseOnly_def Let_def)
  then show ?thesis by (simp add: receivedOnly_def requestMessages_exact responseMessages_exact)
qed

lemma mResponseOnly_foldl:
  assumes "\<And>S x r. mResponseOnly (msgAt (h S x) r) = mResponseOnly (msgAt S r)"
  shows "mResponseOnly (msgAt (foldl h S xs) r) = mResponseOnly (msgAt S r)"
  by (induction xs arbitrary: S) (simp_all add: assms)

lemma mResponseOnly_fields: "mResponseOnly (msgAt (setMessage x (\<lambda>m. m\<lparr>mFields := g m\<rparr>) S) r) = mResponseOnly (msgAt S r)"
  by (simp add: setMessage_def msgAt_def nth_list_update)

lemma markValueItems_responseOnly:
  assumes "markValueItems S = Some S'"
  shows "mResponseOnly (msgAt S' r) = mResponseOnly (msgAt S r)"
proof -
  let ?h = "\<lambda>T q. if q \<in> set (wsMessages S) then T else setMessage q (\<lambda>m. m\<lparr>mFields := map markValueItem (mFields m)\<rparr>) T"
  have "mResponseOnly (msgAt (?h T q) r) = mResponseOnly (msgAt T r)" for T q r by (simp add: mResponseOnly_fields)
  from mResponseOnly_foldl [of ?h, OF this] assms show ?thesis by (auto simp: markValueItems_def)
qed

lemma bindBodylessQueryFields_responseOnly: "mResponseOnly (msgAt (bindBodylessQueryFields S) r) = mResponseOnly (msgAt S r)"
  unfolding bindBodylessQueryFields_def bindQueryFields_def Let_def
  by (rule mResponseOnly_foldl) (simp add: mResponseOnly_fields)

lemma mentions_core:
  assumes "keepsCore S S'"
  shows "mentionsOf S' = mentionsOf S"
proof -
  let ?m = "\<lambda>f. optMessages (fType f) @ (case fOneof f of None \<Rightarrow> [] | Some o1 \<Rightarrow> concat (map (\<lambda>v. optMessages (vType v)) (oVariants o1)))"
  have m: "?m f = ?m (fieldCore f)" for f by (simp add: fieldCore_def)
  have "concat (map ?m fs) = concat (map ?m (map fieldCore fs))" for fs by (simp only: map_map o_def flip: m)
  then have "mentions T r = concat (map ?m (map fieldCore (fieldsAt T r)))" for T r unfolding mentions_def fieldsAt_def .
  then have "mentions S' r = mentions S r" for r using assms by (simp only: keepsCore_def)
  then show ?thesis by (simp add: mentionsOf_def)
qed

lemma receivedOnly_core:
  assumes "keepsCore S S'"
  shows "receivedOnly S' r = receivedOnly S r"
proof -
  have m: "map methodCore (methodsOf S') = map methodCore (methodsOf S)" using assms by (simp add: keepsCore_def)
  have u: "(\<Union>m \<in> set ms. f m) = (\<Union>m \<in> set ms'. f m)"
    if "map methodCore ms = map methodCore ms'" "\<And>m. f (methodCore m) = f m" for ms ms' and f :: "rpc \<Rightarrow> mref set"
  proof -
    have "f ` set ms = f ` set ms'" using that by (metis (no_types, lifting) image_cong image_image list.set_map)
    then show ?thesis by simp
  qed
  have "(\<Union>m \<in> set (methodsOf S'). set_option (rRequest m)) = (\<Union>m \<in> set (methodsOf S). set_option (rRequest m))"
    "(\<Union>m \<in> set (methodsOf S'). set_option (rResponse m) \<union> set (rErrorTypes m)) =
     (\<Union>m \<in> set (methodsOf S). set_option (rResponse m) \<union> set (rErrorTypes m))"
    by (rule u [OF m], simp add: methodCore_def)+
  then show ?thesis by (simp only: receivedOnly_def mentions_core [OF assms])
qed

lemma compiled_responseOnly:
  assumes "compileWithOptions lib sources opts = Inr S" "r < length (schMessages S)"
  shows "mResponseOnly (msgAt S r) \<longleftrightarrow> receivedOnly S r"
proof -
  from assms(1) obtain sc forest S0 S1 S2 S3 where
    2: "buildSchema opts sc sources = Inr (forest, S0)" "validateAuthorize S0 sources forest = Inr S1"
    and 4: "markResponseOnlyMessages S1 (emitZeroValues opts) = Some S2"
    and 5: "(if repeatedValues opts then orNoReturn (markValueItems S2) else Inr S2) = Inr S3"
    and 6: "S = bindBodylessQueryFields S3"
    by (auto simp: compileWithOptions_def bindE_eq_Inr Let_def split: prod.splits)
  obtain c where c: "built opts sc sources forest c S0" using buildSchema_built [OF 2(1)] by blast
  have k01: "keepsCore S0 S1" by (rule built_authorize [OF c 2(2)])
  have k12: "keepsCore S1 S2" by (rule markResponseOnlyMessages_core [OF 4])
  also have "keepsCore S2 S3" using 5 markValueItems_core by (auto split: if_splits)
  also have "keepsCore S3 S" unfolding 6 by (rule bindBodylessQueryFields_core)
  finally have k: "keepsCore S1 S" .
  have n: "nestingOk S1" using wellFormed_core [OF k01 built_wellFormed [OF c]] by (simp add: wellFormed_def)
  have l: "length (schMessages S1) = length (schMessages S)" using keepsCore_length [OF k] by simp
  have "mResponseOnly (msgAt S r) = mResponseOnly (msgAt S2 r)"
    using 5 markValueItems_responseOnly by (auto simp: 6 bindBodylessQueryFields_responseOnly split: if_splits)
  also have "\<dots> \<longleftrightarrow> receivedOnly S1 r"
    by (rule markResponseOnlyMessages_marks [OF 4 schemaMessages_all [OF built_nodes [OF c k01] n]]) (simp add: l assms(2))
  finally show ?thesis by (simp add: receivedOnly_core [OF k])
qed

end
