(* ===== verification/Recheck.thy ===== *)
theory Recheck
  imports PassProps
begin

text \<open>
  Rules are checked on the built schema, before the passes that write flags and \<open>@query\<close>
  decorators. Checking does not read what the passes write: it commutes with forgetting it, in the
  schema (\<open>coreSchema\<close>) and in the fields stored in trees (\<open>bare\<close>). So every rule of a compiled
  package still compiles.
\<close>

subsection \<open>Forgetting what the passes write\<close>

definition coreMessage :: "message \<Rightarrow> message" where
  "coreMessage m = (messageShape m)\<lparr>mFields := map fieldCore (mFields m)\<rparr>"

definition coreSchema :: "schema \<Rightarrow> schema" where
  "coreSchema S = \<lparr>schMessages = map coreMessage (schMessages S), schEnums = schEnums S, schFiles = []\<rparr>"

fun bare :: "node \<Rightarrow> node" where
  "bare (ListLit p t es) = ListLit p t (map bare es)"
| "bare (Select p t x name f) = Select p t (bare x) name (map_option fieldCore f)"
| "bare (Index p t x i) = Index p t (bare x) (bare i)"
| "bare (Call p t fn args re) = Call p t fn (map bare args) re"
| "bare (Macro p t k r v b) = Macro p t k (bare r) v (bare b)"
| "bare (Unary p t op1 x) = Unary p t op1 (bare x)"
| "bare (Binary p t op1 l r) = Binary p t op1 (bare l) (bare r)"
| "bare (Ternary p t c a b) = Ternary p t (bare c) (bare a) (bare b)"
| "bare n = n"

lemma bare_position [simp]: "position (bare n) = position n"
  by (cases n) auto

lemma bare_nodeType [simp]: "nodeType (bare n) = nodeType n"
  by (cases n) auto

lemma bare_typeOf [simp]: "typeOf (bare n) = typeOf n"
  by (simp add: typeOf_def)

lemma bare_setType [simp]: "setType t (bare n) = bare (setType t n)"
  by (cases n) auto

lemma bare_height [simp]: "height (bare n) = height n"
proof (induction n rule: bare.induct)
  case (1 p t es)
  then have "map height (map bare es) = map height es" by simp
  then show ?case by (simp only: bare.simps height.simps)
next
  case (4 p t fn args re)
  then have "map height (map bare args) = map height args" by simp
  then show ?case by (simp only: bare.simps height.simps)
qed auto

lemma bare_resolved [simp]: "isResolvedSelect (bare n) = isResolvedSelect n"
  by (cases n) (auto simp: isResolvedSelect_def split: option.split)

lemma fieldType_core [simp]: "fieldType (fieldCore f) = fieldType f"
  by (cases f) (simp add: fieldType_def fieldCore_def split: option.split)

lemma fName_core [simp]: "fName (fieldCore f) = fName f"
  by (simp add: fieldCore_def)

lemma msgAt_core [simp]: "msgAt (coreSchema S) m = coreMessage (msgAt S m)"
  by (simp add: msgAt_def coreSchema_def coreMessage_def messageShape_def nilMessage_def)

lemma coreMessage_simps [simp]: "mName (coreMessage m) = mName m" "mFields (coreMessage m) = map fieldCore (mFields m)"
  by (simp_all add: coreMessage_def messageShape_def)

lemma enumAt_core [simp]: "enumAt (coreSchema S) = enumAt S"
  by (simp add: fun_eq_iff enumAt_def coreSchema_def)

lemma find_core: "find (\<lambda>f. fName f = name) (map fieldCore fs) = map_option fieldCore (find (\<lambda>f. fName f = name) fs)"
  by (induction fs) auto

lemma coreSchema_eq:
  assumes "keepsCore S S'"
  shows "coreSchema S' = coreSchema S"
proof -
  have sh: "sameShape S S'" and f: "map fieldCore (fieldsAt S' r) = map fieldCore (fieldsAt S r)" for r using assms by (simp_all add: keepsCore_def)
  have "map coreMessage (schMessages S') = map coreMessage (schMessages S)"
  proof (rule nth_equalityI)
    show "length (map coreMessage (schMessages S')) = length (map coreMessage (schMessages S))" using keepsCore_length [OF assms] by simp
    fix r assume "r < length (map coreMessage (schMessages S'))"
    then have r: "r < length (schMessages S')" "r < length (schMessages S)" using keepsCore_length [OF assms] by simp_all
    have "messageShape (msgAt S' r) = messageShape (msgAt S r)" using sameShape_msgAt [OF sh] by simp
    with f [of r] have "coreMessage (msgAt S' r) = coreMessage (msgAt S r)" by (simp add: coreMessage_def fieldsAt_def)
    with r show "map coreMessage (schMessages S') ! r = map coreMessage (schMessages S) ! r" by (simp add: msgAt_def)
  qed
  moreover have "schEnums S' = schEnums S" using sh by (simp add: sameShape_def)
  ultimately show ?thesis by (simp add: coreSchema_def)
qed

subsection \<open>Checking commutes\<close>

lemma stepC_apfst:
  assumes "m' = apfst g m" "\<And>x. f' (g x) = h (f x)" "\<And>x a. k' (g x) a = apfst h (k x a)"
  shows "stepC m' f' k' = apfst h (stepC m f k)"
  using assms by (cases m; cases "snd m") (auto simp: stepC_def)

lemma inferMatches_bare: "inferMatches p (map bare args) ts = inferMatches p args ts"
proof (cases "length args = 2")
  case True
  then have "map bare args ! 1 = bare (args ! 1)" "hd (map bare args) = bare (hd args)"
    by (simp, cases args, simp_all)
  then show ?thesis by (cases "args ! 1") (auto simp: inferMatches_def arity_def split: sum.split)
qed (simp add: inferMatches_def arity_def)

lemma allStrings_bare: "allStrings fn (zip (map bare args) ts) = allStrings fn (zip args ts)"
  by (induction args arbitrary: ts) (auto simp: zip_Cons1 split: list.split)

lemma inferFn_bare: "inferFn p fn (map bare args) ts re = inferFn p fn args ts re"
proof -
  have "isResolvedSelect (hd (map bare args)) = isResolvedSelect (hd args)" if "length args = 1"
    using that by (cases args) auto
  then show ?thesis by (auto simp: inferFn_def arity_def inferMatches_bare allStrings_bare)
qed

lemma enumLiteral_core [simp]: "enumLiteral (coreSchema S) = enumLiteral S"
  by (simp add: fun_eq_iff enumLiteral_def)

lemma enumLiteral_bare: "enumLiteral S p ot v e = apfst bare (enumLiteral S p ot v e)"
  by (simp add: enumLiteral_def)

lemma enumMembers_bare: "enumMembers (coreSchema S) e (map bare es) = apfst (map bare) (enumMembers S e es)"
proof (induction es)
  case (Cons x es)
  show ?case
  proof (cases x)
    case (StringLit p ot v)
    then show ?thesis
      by (auto intro!: stepC_apfst [where g = bare] stepC_apfst [where g = "map bare"] enumLiteral_bare simp: Cons)
  qed auto
qed simp

lemma enumRight_bare: "enumRight (coreSchema S) t (bare r) = apfst bare (enumRight S t r)"
  by (cases r) (auto simp: enumRight_def split: ty.split intro: enumLiteral_bare)

text \<open>The contract of the recursive calls.\<close>

locale commuting_checker =
  fixes chk chk' :: checkFn
  assumes commutes: "chk' scope (bare n) = apfst bare (chk scope n)"
begin

lemma checkElems_bare: "checkElems (chk' scope) t (map bare es) = apfst (map bare) (checkElems (chk scope) t es)"
  by (induction es) (auto intro!: stepC_apfst [where g = bare] stepC_apfst [where g = "map bare"] simp: commutes)

lemma inferList_bare: "inferList (chk' scope) p ot (map bare es) = apfst bare (inferList (chk scope) p ot es)"
  unfolding inferList_def
  by (cases es) (auto intro!: stepC_apfst [where g = bare] stepC_apfst [where g = "map bare"] simp: commutes checkElems_bare split: ty.split)

lemma inferSelect_bare:
  "inferSelect (coreSchema S) (chk' scope) p ot (bare x) name (map_option fieldCore f) = apfst bare (inferSelect S (chk scope) p ot x name f)"
  unfolding inferSelect_def
  by (rule stepC_apfst [where g = bare]) (auto simp: commutes find_core o_def split: ty.split option.split sum.split)

lemma inferIndex_bare: "inferIndex (chk' scope) p ot (bare x) (bare i) = apfst bare (inferIndex (chk scope) p ot x i)"
  unfolding inferIndex_def by (intro stepC_apfst [where g = bare]) (simp_all add: commutes split: ty.split)

lemma checkArgs_bare: "checkArgs (chk' scope) (map bare es) = apfst (map bare) (checkArgs (chk scope) es)"
  by (induction es) (auto intro!: stepC_apfst [where g = bare] stepC_apfst [where g = "map bare"] simp: commutes)

lemma inferUnary_bare: "inferUnary (chk' scope) p ot op1 (bare x) = apfst bare (inferUnary (chk scope) p ot op1 x)"
  unfolding inferUnary_def by (rule stepC_apfst [where g = bare]) (simp_all add: commutes)

lemma inferTernary_bare:
  "inferTernary (chk' scope) p ot (bare c) (bare a) (bare b) = apfst bare (inferTernary (chk scope) p ot c a b)"
  unfolding inferTernary_def
  by (rule stepC_apfst [where g = bare]) (auto intro!: stepC_apfst [where g = bare] simp: commutes)

lemma inferMacro_bare:
  "inferMacro chk' scope p ot kind (bare r) v (bare b) = apfst bare (inferMacro chk scope p ot kind r v b)"
  unfolding inferMacro_def
  by (rule stepC_apfst [where g = bare]) (auto intro!: stepC_apfst [where g = bare] simp: commutes split: ty.split)

lemma inferCall_bare: "inferCall (chk' scope) p ot fn (map bare args) re = apfst bare (inferCall (chk scope) p ot fn args re)"
  unfolding inferCall_def
  by (rule stepC_apfst [where g = "map bare"]) (auto simp: checkArgs_bare inferFn_bare split: sum.split)

lemma inferIn_bare: "inferIn (coreSchema S) (chk' scope) p t (bare r) = apfst bare (inferIn S (chk scope) p t r)"
proof -
  have other: "stepC (chk' scope (bare r)) (\<lambda>r'. r') (\<lambda>r' tr. (r', inferContainer p t tr)) =
      apfst bare (stepC (chk scope r) (\<lambda>r'. r') (\<lambda>r' tr. (r', inferContainer p t tr)))"
    by (rule stepC_apfst [where g = bare]) (simp_all add: commutes)
  show ?thesis
  proof (cases r)
    case (ListLit lp lt es)
    have "stepC (enumMembers (coreSchema S) e (map bare es)) (\<lambda>es'. ListLit lp lt es') (\<lambda>es' _. (ListLit lp (Some (TyList (TyEnum e))) es', Inr TyBool)) =
        apfst bare (stepC (enumMembers S e es) (\<lambda>es'. ListLit lp lt es') (\<lambda>es' _. (ListLit lp (Some (TyList (TyEnum e))) es', Inr TyBool)))" for e
      by (rule stepC_apfst [where g = "map bare"]) (simp_all add: enumMembers_bare)
    with other ListLit show ?thesis by (auto simp: inferIn_def Let_def split: ty.split)
  qed (use other in \<open>simp_all add: inferIn_def Let_def\<close>)
qed

lemma enumLeft_bare:
  "enumLeft (coreSchema S) (chk' scope) (bare l) (bare r) = apfst (map_prod bare bare) (enumLeft S (chk scope) l r)"
proof (cases l)
  case (StringLit p ot v)
  obtain r' res where chk: "chk scope r = (r', res)" by (cases "chk scope r")
  have lit: "stepC (enumLiteral S p ot v e) (\<lambda>l'. (l', bare r')) (\<lambda>l' _. ((l', bare r'), Inr ())) =
      apfst (map_prod bare bare) (stepC (enumLiteral S p ot v e) (\<lambda>l'. (l', r')) (\<lambda>l' _. ((l', r'), Inr ())))" for e
    by (rule stepC_apfst [where g = bare, OF enumLiteral_bare]) simp_all
  show ?thesis using StringLit chk lit by (auto simp: enumLeft_def commutes split: sum.split ty.split)
qed (simp_all add: enumLeft_def)

lemma inferBinary_bare:
  "inferBinary (coreSchema S) (chk' scope) p ot op1 (bare l) (bare r) = apfst bare (inferBinary S (chk scope) p ot op1 l r)"
  unfolding inferBinary_def
proof (rule stepC_apfst [where g = bare])
  fix l1 t
  have left: "(if isEqualityOp op1 then enumLeft (coreSchema S) (chk' scope) (bare l1) (bare r1) else ((bare l1, bare r1), Inr ())) =
      apfst (map_prod bare bare) (if isEqualityOp op1 then enumLeft S (chk scope) l1 r1 else ((l1, r1), Inr ()))" for r1
    by (simp add: enumLeft_bare)
  have right: "(if isEqualityOp op1 then enumRight (coreSchema S) t (bare r) else (bare r, Inr ())) =
      apfst bare (if isEqualityOp op1 then enumRight S t r else (r, Inr ()))"
    by (simp add: enumRight_bare)
  show "(if op1 = ''in''
        then case inferIn (coreSchema S) (chk' scope) p t (bare r) of (r', res) \<Rightarrow> (Binary p ot op1 (bare l1) r', res)
        else stepC (if isEqualityOp op1 then enumRight (coreSchema S) t (bare r) else (bare r, Inr ()))
              (Binary p ot op1 (bare l1))
              (\<lambda>r1 _. stepC (if isEqualityOp op1 then enumLeft (coreSchema S) (chk' scope) (bare l1) r1 else ((bare l1, r1), Inr ()))
                  (\<lambda>(l', r'). Binary p ot op1 l' r')
                  (\<lambda>(l2, r2) _. stepC (chk' scope r2) (Binary p ot op1 l2)
                      (\<lambda>r3 tr. (Binary p ot op1 l2 r3, inferOperator p op1 (typeOf l2) tr))))) =
       apfst bare
        (if op1 = ''in''
        then case inferIn S (chk scope) p t r of (r', res) \<Rightarrow> (Binary p ot op1 l1 r', res)
        else stepC (if isEqualityOp op1 then enumRight S t r else (r, Inr ()))
              (Binary p ot op1 l1)
              (\<lambda>r1 _. stepC (if isEqualityOp op1 then enumLeft S (chk scope) l1 r1 else ((l1, r1), Inr ()))
                  (\<lambda>(l', r'). Binary p ot op1 l' r')
                  (\<lambda>(l2, r2) _. stepC (chk scope r2) (Binary p ot op1 l2)
                      (\<lambda>r3 tr. (Binary p ot op1 l2 r3, inferOperator p op1 (typeOf l2) tr)))))"
  proof (cases "op1 = ''in''")
    case True
    then show ?thesis by (simp add: inferIn_bare split: prod.split)
  next
    case False
    show ?thesis
      unfolding if_not_P [OF False]
      by (rule stepC_apfst [where g = bare, OF right], simp,
          rule stepC_apfst [where g = "map_prod bare bare", OF left])
        (auto intro!: stepC_apfst [where g = bare] simp: commutes split: prod.split)
  qed
qed (simp_all add: commutes)

lemma infer_bare: "infer (coreSchema S) env chk' scope (bare n) = apfst bare (infer S env chk scope n)"
  by (cases n) (simp_all add: infer_def inferList_bare inferSelect_bare inferIndex_bare inferCall_bare inferMacro_bare
      inferUnary_bare inferBinary_bare inferTernary_bare)

end

lemma checkD_commutes: "commuting_checker (checkD S env k) (checkD (coreSchema S) env k)"
proof (induction k)
  case (Suc k)
  show ?case
    by (rule commuting_checker.intro)
      (simp add: commuting_checker.infer_bare [OF Suc] stepC_apfst [where g = bare])
qed (rule commuting_checker.intro, simp)

interpretation recheck: commuting_checker "checkD S env k" "checkD (coreSchema S) env k" for S env k
  by (rule checkD_commutes)

subsection \<open>Rules stay compilable\<close>

lemma check_bare: "check (coreSchema S) env (bare n) = apfst bare (check S env n)"
  by (simp add: check_def recheck.commutes del: checkD.simps)

lemma checkRule_keeps:
  assumes "keepsCore S S'"
  shows "isOk (checkRule S' env src) = isOk (checkRule S env src)"
proof (cases "parseExpr src")
  case (Inr n)
  have "check (coreSchema S') env (bare n) = check (coreSchema S) env (bare n)" by (simp add: coreSchema_eq [OF assms])
  then have "apfst bare (check S' env n) = apfst bare (check S env n)" by (simp add: check_bare)
  then have "snd (check S' env n) = snd (check S env n)" by (metis snd_apfst)
  with Inr show ?thesis
    by (cases "check S env n"; cases "check S' env n") (auto simp: checkRule_def isOk_def split: sum.split)
qed (simp add: checkRule_def)

definition ruleChecked :: "schema \<Rightarrow> string \<Rightarrow> messageDecl \<Rightarrow> mref \<Rightarrow> bool" where
  "ruleChecked S path md r \<longleftrightarrow> (\<forall>d \<in> set (rulesOf (mdDecorators md)). checkRuleDecorator S path r None d = Inr ()) \<and>
     (\<forall>(fd, f) \<in> set (zip (mdFields md) (fieldsAt S r)). \<forall>d \<in> set (rulesOf (fdDecorators fd)). checkRuleDecorator S path r (Some f) d = Inr ())"

lemma validateMessageRules_checked:
  "nodeMatches S md nd \<Longrightarrow> validateMessageRules S path md nd = Inr () \<Longrightarrow> list_all2 (ruleChecked S path) (declsIn md) (nodeRefs nd)"
proof (induction md nd rule: nodeMatches.induct)
  case (1 r name decs ns nested doc fds nestedEn line col)
  let ?md = "MessageDecl name doc decs fds nested nestedEn line col"
  from 1(5) have each: "\<forall>(md, n) \<in> set (zip nested ns). validateMessageRules S path md n = Inr ()"
    and own: "ruleChecked S path ?md r"
    by (auto simp: Let_def bindE_eq_Inr eachE_Inr ruleChecked_def fieldsAt_def)
  have "list_all2 (\<lambda>md nd. validateMessageRules S path md nd = Inr ()) nested ns"
    using each list_all2_lengthD [OF 1(4)] by (auto simp: list_all2_iff)
  with 1(4) have "list_all2 (\<lambda>md nd. list_all2 (ruleChecked S path) (declsIn md) (nodeRefs nd)) nested ns"
    by (rule list_all2_both) blast
  with own show ?case by (simp add: list_all2_concat)
qed

lemma validateRules_checked:
  assumes b: "built opts sc sources forest c S" and v: "validateRules S sources forest = Inr ()"
  shows "list_all2 (\<lambda>d r. ruleChecked S (fst d) (snd d) r) (allDecls sources) [0..<length (schMessages S)]"
proof -
  from b have m: "list_all2 (\<lambda>s nds. list_all2 (nodeMatches S) (fldMessages (srcAST s)) nds) sources forest"
    and r: "concat (map nodeRefs (concat forest)) = [0..<length (schMessages S)]"
    by (simp_all add: built_def forestMatches_def)
  have each: "list_all2 (\<lambda>s nds. \<forall>(md, n) \<in> set (zip (fldMessages (srcAST s)) nds). validateMessageRules S (srcPath s) md n = Inr ()) sources forest"
  proof -
    have "list_all2 (\<lambda>s nds. eachE (\<lambda>(md, n). validateMessageRules S (srcPath s) md n) (zip (fldMessages (srcAST s)) nds) = Inr ()) sources forest"
      using v list_all2_lengthD [OF m] by (auto simp: validateRules_def eachE_Inr [of _ "zip sources forest"] list_all2_iff)
    then show ?thesis by (rule list.rel_mono_strong) (auto simp: eachE_Inr)
  qed
  have "list_all2 (\<lambda>s nds. list_all2 (\<lambda>md nd. list_all2 (ruleChecked S (srcPath s)) (declsIn md) (nodeRefs nd)) (fldMessages (srcAST s)) nds) sources forest"
    using m each
  proof (rule list_all2_both)
    fix s nds assume l: "list_all2 (nodeMatches S) (fldMessages (srcAST s)) nds"
      and e: "\<forall>(md, n) \<in> set (zip (fldMessages (srcAST s)) nds). validateMessageRules S (srcPath s) md n = Inr ()"
    have "list_all2 (\<lambda>md nd. validateMessageRules S (srcPath s) md nd = Inr ()) (fldMessages (srcAST s)) nds"
      using e list_all2_lengthD [OF l] by (auto simp: list_all2_iff)
    with l show "list_all2 (\<lambda>md nd. list_all2 (ruleChecked S (srcPath s)) (declsIn md) (nodeRefs nd)) (fldMessages (srcAST s)) nds"
      by (rule list_all2_both) (rule validateMessageRules_checked)
  qed
  from decls_all2 [where P = "ruleChecked S", OF this] show ?thesis by (simp add: r)
qed

text \<open>A rule that was checked on its declaration compiles from the decorator made of it.\<close>

lemma checkRuleDecorator_ok:
  "checkRuleDecorator S path r fld d = Inr () \<Longrightarrow> isOk (compileRule S (argValue (ddArgs d ! 0)) r fld)"
  by (cases "compileRule S (argValue (ddArgs d ! 0)) r fld")
    (auto simp: checkRuleDecorator_def bindE_eq_Inr argValueAt_def split: if_splits)

lemma compileRule_keeps:
  assumes "keepsCore S S'" "fld = map_option fieldCore f" "fld = map_option fieldCore g"
  shows "isOk (compileRule S' src r g) = isOk (compileRule S src r f)"
proof -
  have "ruleEnv r h = ruleEnv r (map_option fieldCore h)" for h by (cases h) (simp_all add: ruleEnv_def)
  then have "ruleEnv r g = ruleEnv r f" using assms(2,3) by metis
  then show ?thesis using checkRule_keeps [OF assms(1)] by (auto simp: compileRule_def split: sum.split)
qed

lemma rulesAdd_ok:
  assumes "\<forall>d \<in> set ds. decName d = ''rule'' \<longrightarrow> length (decArgs d) = 2 \<and> isOk (compileRule S (argValue (decArgs d ! 0)) r fld)"
  shows "isOk (rulesAdd S r ds fld)"
proof -
  have ok: "isOk (ruleOf S r fld d)" if "d \<in> set (filter (\<lambda>d. decName d = ruleDecorator) ds)" for d
    using assms that by (auto simp: ruleOf_def ruleDecorator_def isOk_def split: sum.splits)
  have "isOk (mapE (ruleOf S r fld) xs)" if "\<forall>d \<in> set xs. isOk (ruleOf S r fld d)" for xs
    using that by (induction xs) (auto simp: isOk_iff)
  with ok show ?thesis by (simp add: rulesAdd_def)
qed

lemma convertDecorator_args: "ddName d = ''rule'' \<Longrightarrow> length (decArgs (convertDecorator d)) = length (ddArgs d) \<and>
    (0 < length (ddArgs d) \<longrightarrow> argValue (decArgs (convertDecorator d) ! 0) = argValue (ddArgs d ! 0))"
  by (simp add: convertDecorator_def convertArgs_def numericDecorators_def)

lemma buildField_decorators:
  "buildField opts sc c path owner fd = Inr f \<Longrightarrow> set (fDecorators f) \<subseteq> set (convertDecorators (fdDecorators fd))"
  by (auto simp: buildField_def Let_def bindE_eq_Inr newField_def applyInt64_def applyNullable_def withoutDecorator_def
      split: option.splits if_splits)

text \<open>Each rule decorator of a message or field comes from a checked declaration with two arguments.\<close>

lemma rulesAdd_declared:
  assumes "\<forall>d \<in> set (rulesOf dds). checkRuleDecorator S0 path r fld0 d = Inr ()" "ruleArgsOk dds" "keepsCore S0 S"
    "map_option fieldCore fld0 = map_option fieldCore fld"
    "\<forall>d \<in> set ds. decName d = ''rule'' \<longrightarrow> d \<in> set (convertDecorators dds)"
  shows "isOk (rulesAdd S r ds fld)"
proof (rule rulesAdd_ok, intro ballI impI)
  fix d assume d: "d \<in> set ds" "decName d = ''rule''"
  with assms(5) obtain dd where dd: "dd \<in> set dds" "d = convertDecorator dd" by (auto simp: convertDecorators_def)
  with d(2) have n: "ddName dd = ''rule''" by (simp add: convertDecorator_def)
  with assms(2) dd(1) have l: "length (ddArgs dd) = 2" by (auto simp: ruleArgsOk_def)
  have "isOk (compileRule S0 (argValue (ddArgs dd ! 0)) r fld0)"
    using assms(1) dd(1) n by (intro checkRuleDecorator_ok) (auto simp: rulesOf_def)
  then have "isOk (compileRule S (argValue (ddArgs dd ! 0)) r fld)"
    using compileRule_keeps [OF assms(3) refl assms(4)] by simp
  with convertDecorator_args [OF n] l dd(2) show "length (decArgs d) = 2 \<and> isOk (compileRule S (argValue (decArgs d ! 0)) r fld)" by simp
qed

lemma rulesReadable_fields:
  "rulesReadable md \<Longrightarrow> ruleArgsOk (mdDecorators md) \<and> (\<forall>fd \<in> set (mdFields md). ruleArgsOk (fdDecorators fd))"
  by (cases md) simp

lemma compiled_rules:
  assumes "compileWithOptions lib sources opts = Inr S" "r < length (schMessages S)"
  shows "\<exists>rs. rulesFor S r = Inr rs"
proof -
  obtain sc forest c S0 S1 where st: "stages lib sources opts sc forest c S0 S1 S" using compile_stages [OF assms(1)] by blast
  then have b: "built opts sc sources forest c S0" and v: "validateSyntax lib sources opts = passed"
    and vr: "validateRules S0 sources forest = Inr ()" by (simp_all add: stages_def)
  have k: "keepsCore S0 S" by (rule stages_core [OF st])
  have r: "r < length (schMessages S0)" using assms(2) keepsCore_length [OF k] by simp
  let ?d = "allDecls sources ! r"
  obtain path md where d: "?d = (path, md)" by (cases ?d)
  have len: "length (allDecls sources) = length (schMessages S0)" using list_all2_lengthD [OF built_represents [OF b]] by simp
  have rep: "represents (buildField opts sc c path) S0 md r"
    using list_all2_nthD2 [OF built_represents [OF b], of r] r d by (simp add: representsDecl_def)
  have chk: "ruleChecked S0 path md r"
    using list_all2_nthD2 [OF validateRules_checked [OF b vr], of r] r d by simp
  have "messageOk opts (snd ?d)" by (rule allDecls_ok [OF validateSyntax_ok(1) [OF v]]) (use r len in simp)
  then have args: "ruleArgsOk (mdDecorators md)" "\<forall>fd \<in> set (mdFields md). ruleArgsOk (fdDecorators fd)"
    using d rulesReadable_fields [OF messageOk_readable] by auto
  have same: "mDecorators (msgAt S r) = mDecorators (msgAt S0 r)"
    by (rule sameShape_fields(5)) (use k in \<open>simp add: keepsCore_def\<close>)
  have own: "isOk (rulesAdd S r (mDecorators (msgAt S r)) None)"
    by (rule rulesAdd_declared [OF _ args(1) k, of path r None]) (use chk rep same in \<open>auto simp: ruleChecked_def represents_def\<close>)
  have fields: "isOk (rulesAdd S r (fDecorators g) (Some g))" if g: "g \<in> set (fieldsAt S r)" for g
  proof -
    from g obtain i where i: "i < length (fieldsAt S r)" "g = fieldsAt S r ! i" by (auto simp: in_set_conv_nth)
    have cores: "map fieldCore (fieldsAt S r) = map fieldCore (fieldsAt S0 r)" using k by (simp add: keepsCore_def)
    then have l: "length (fieldsAt S r) = length (fieldsAt S0 r)" by (rule map_eq_imp_length_eq)
    let ?f = "fieldsAt S0 r ! i"
    let ?fd = "mdFields md ! i"
    from cores i l have core: "fieldCore g = fieldCore ?f" by (metis nth_map)
    from rep have m: "list_all2 (\<lambda>fd f. buildField opts sc c path r fd = Inr f) (mdFields md) (fieldsAt S0 r)"
      by (simp add: represents_def mapE_Inr)
    then have li: "i < length (mdFields md)" using i l by (simp add: list_all2_lengthD)
    then have fd: "buildField opts sc c path r ?fd = Inr ?f" using list_all2_nthD [OF m] by simp
    have "(?fd, ?f) \<in> set (zip (mdFields md) (fieldsAt S0 r))" using li i l by (auto simp: set_zip)
    with chk have c: "\<forall>d \<in> set (rulesOf (fdDecorators ?fd)). checkRuleDecorator S0 path r (Some ?f) d = Inr ()"
      unfolding ruleChecked_def by blast
    have from_decl: "d \<in> set (convertDecorators (fdDecorators ?fd))" if "d \<in> set (fDecorators g)" "decName d = ''rule''" for d
    proof -
      from that have "d \<in> set (fDecorators (fieldCore g))" by (simp add: fieldCore_def)
      with core have "d \<in> set (fDecorators (fieldCore ?f))" by simp
      then have "d \<in> set (fDecorators ?f)" by (simp add: fieldCore_def)
      with buildField_decorators [OF fd] show ?thesis by blast
    qed
    have arg: "ruleArgsOk (fdDecorators ?fd)" using args(2) li by simp
    show ?thesis by (rule rulesAdd_declared [OF c arg k]) (use core from_decl in auto)
  qed
  obtain rs where rs: "rulesAdd S r (mDecorators (msgAt S r)) None = Inr rs" using own by (auto simp: isOk_iff)
  have "\<exists>rss. mapE (\<lambda>f. rulesAdd S r (fDecorators f) (Some f)) fs = Inr rss" if "set fs \<subseteq> set (fieldsAt S r)" for fs
    using that by (induction fs) (use fields in \<open>auto simp: isOk_iff\<close>, fastforce)
  from this [of "fieldsAt S r"] rs show ?thesis by (auto simp: rulesFor_def fieldsAt_def)
qed

lemma distinct_concat_each: "distinct (concat (map f xs)) \<Longrightarrow> (\<And>x. x \<in> set xs \<Longrightarrow> f x \<noteq> []) \<Longrightarrow> distinct (map (\<lambda>x. hd (f x)) xs)"
proof (induction xs)
  case (Cons x xs)
  have "hd (f x) \<notin> (\<lambda>x. hd (f x)) ` set xs"
  proof
    assume "hd (f x) \<in> (\<lambda>x. hd (f x)) ` set xs"
    then obtain y where y: "y \<in> set xs" "hd (f x) = hd (f y)" by auto
    with Cons.prems(2) have "hd (f x) \<in> set (f x)" "hd (f x) \<in> set (f y)" by (metis list.set_intros hd_in_set)+
    with Cons.prems(1) y(1) show False by auto
  qed
  with Cons show ?case by simp
qed simp

lemma messageOk_names: "messageOk opts md \<Longrightarrow> distinct (map fdName (mdFields md))"
proof (cases md)
  case (MessageDecl name doc decs fds nested en line col)
  assume "messageOk opts md"
  with MessageDecl have "distinct (concat (map (memberIds opts) fds))" by simp
  then have "distinct (map (\<lambda>fd. hd (memberIds opts fd)) fds)" by (rule distinct_concat_each) (simp add: memberIds_def)
  then have "distinct (map (\<lambda>fd. generatedIdentifier (fdName fd)) fds)" by (simp add: memberIds_def)
  then have "distinct (map generatedIdentifier (map fdName fds))" by (simp add: o_def)
  then have "distinct (map fdName fds)" using distinct_map by blast
  with MessageDecl show ?thesis by simp
qed

lemma compiled_fieldNames:
  assumes "compileWithOptions lib sources opts = Inr S" "r < length (schMessages S)"
  shows "distinct (map fName (mFields (msgAt S r)))"
proof -
  obtain sc forest c S0 S1 where st: "stages lib sources opts sc forest c S0 S1 S" using compile_stages [OF assms(1)] by blast
  then have b: "built opts sc sources forest c S0" and v: "validateSyntax lib sources opts = passed" by (simp_all add: stages_def)
  have k: "keepsCore S0 S" by (rule stages_core [OF st])
  have r: "r < length (schMessages S0)" using assms(2) keepsCore_length [OF k] by simp
  obtain path md where d: "allDecls sources ! r = (path, md)" by (cases "allDecls sources ! r")
  have rep: "represents (buildField opts sc c path) S0 md r"
    using list_all2_nthD2 [OF built_represents [OF b], of r] r d by (simp add: representsDecl_def)
  have "allDecls sources ! r \<in> set (allDecls sources)" using r list_all2_lengthD [OF built_represents [OF b]] by simp
  from allDecls_ok [OF validateSyntax_ok(1) [OF v] this] d have names: "distinct (map fdName (mdFields md))"
    by (simp add: messageOk_names)
  have "tablesOk c" using b by (simp add: built_def declOk_def)
  have "list_all2 (\<lambda>fd f. buildField opts sc c path r fd = Inr f) (mdFields md) (fieldsAt S0 r)"
    using rep by (simp add: represents_def mapE_Inr)
  then have "list_all2 (\<lambda>fd f. fName f = fdName fd) (mdFields md) (fieldsAt S0 r)"
    by (rule list_all2_mono) (use buildField_in \<open>tablesOk c\<close> in blast)
  then have "map fName (fieldsAt S0 r) = map fdName (mdFields md)"
    by (auto simp: list_all2_conv_all_nth intro: nth_equalityI)
  moreover have "map fName (fieldsAt S r) = map fName (fieldsAt S0 r)"
  proof -
    have "map fName fs = map fName (map fieldCore fs)" for fs by simp
    then show ?thesis using k unfolding keepsCore_def by metis
  qed
  ultimately show ?thesis using names by (simp add: fieldsAt_def)
qed

lemma compiled_violations:
  assumes "compileWithOptions lib sources opts = Inr S" "r < length (schMessages S)" "conforms S (VMap value1) (TyMessage r)"
  shows "\<exists>rs out. rulesFor S r = Inr rs \<and> violations S r value1 = Inr out \<and> subseq out (map ruMessage rs)"
  using compiled_rules [OF assms(1,2)] violations_decided [OF compiled_wfSchema [OF assms(1)] assms(3) _ compiled_fieldNames [OF assms(1,2)]]
  by blast

end
