(* ===== verification/Sample.thy ===== *)
theory Sample
  imports Recheck "HOL-Library.Code_Target_Nat"
begin

text \<open>A small package for the witnesses, and what the compiler makes of it.\<close>

definition lib0 :: goLib where
  "lib0 = \<lparr>libUpper = (\<lambda>_. False), libPattern = (\<lambda>_. Inr (ReTree OpOther []))\<rparr>"

definition opts0 :: compileOptions where
  "opts0 = \<lparr>allowLegacy = False, int64Encoding = [], emitZeroValues = False, repeatedValues = False, targets = None\<rparr>"

definition noSpan :: span where
  "noSpan = \<lparr>spLine = 0, spCol = 0, spEndLine = 0, spEndCol = 0\<rparr>"

definition namedType :: "string \<Rightarrow> typeRef option" where
  "namedType t = Some (TypeRef noSpan t False [] None)"

definition sampleDecorator :: "string \<Rightarrow> string list \<Rightarrow> decoratorDecl" where
  "sampleDecorator n args = \<lparr>ddName = n, ddArgs = map (\<lambda>v. \<lparr>argName = [], argValue = v, argQuoted = True\<rparr>) args, ddLine = 2, ddCol = 1\<rparr>"

definition sampleField :: "string \<Rightarrow> string \<Rightarrow> decoratorDecl list \<Rightarrow> fieldDecl" where
  "sampleField n t ds = \<lparr>fdName = n, fdDoc = [], fdType = namedType t, fdRepeated = False, fdOptional = False,
     fdDecorators = ds, fdOneof = None, fdLine = 2, fdCol = 1\<rparr>"

definition sampleMessage :: "string \<Rightarrow> decoratorDecl list \<Rightarrow> fieldDecl list \<Rightarrow> messageDecl list \<Rightarrow> messageDecl" where
  "sampleMessage n ds fs ms = MessageDecl n [] ds fs ms [] 1 1"

definition sampleCall :: "string \<Rightarrow> string \<Rightarrow> string \<Rightarrow> decoratorDecl list \<Rightarrow> rpcDecl" where
  "sampleCall n q r ds = \<lparr>rdName = n, rdDoc = [], rdRequestSpan = noSpan, rdResponseSpan = noSpan, rdErrorSpans = [],
     rdRequestType = q, rdResponseType = r, rdErrorTypes = [], rdDecorators = ds, rdHeaders = [], rdLine = 9, rdCol = 1\<rparr>"

definition src0 :: source where
  "src0 = \<lparr>srcPath = ''shop/order.onk'', srcAST = \<lparr>fldPackage = ''shop'', fldImports = [],
     fldMessages = [
       sampleMessage ''GetOrder'' [] [sampleField ''id'' ''string'' []] [],
       sampleMessage ''Order'' [sampleDecorator ''rule'' [''self.total > 0'', ''total must be positive'']]
         [sampleField ''id'' ''string'' [], sampleField ''total'' ''int32'' [], sampleField ''line'' ''Line'' [sampleDecorator ''flatten'' []]]
         [sampleMessage ''Line'' [] [sampleField ''sku'' ''string'' []] []]],
     fldEnums = [\<lparr>edName = ''Status'', edDoc = [], edValues = [\<lparr>evdName = ''OPEN'', evdDoc = [], evdDecorators = [], evdLine = 5, evdCol = 1\<rparr>],
       edLine = 4, edCol = 1\<rparr>],
     fldServices = [\<lparr>sdName = ''Orders'', sdDoc = [], sdBasePath = ''/v1'', sdHeaders = [],
       sdRPCs = [sampleCall ''Get'' ''GetOrder'' ''Order'' [sampleDecorator ''get'' [''/orders/{id}'']]], sdLine = 8, sdCol = 1\<rparr>]\<rparr>\<rparr>"

text \<open>What the compiler makes of it.\<close>

definition scalarField :: "string \<Rightarrow> scalarKind \<Rightarrow> mref \<Rightarrow> field" where
  "scalarField n k r = \<lparr>fName = n, fLine = 2, fDoc = [], fType = Some (TScalar k), fRepeated = False, fOptional = False,
     fDecorators = [], fOneof = None, fMessage = r, fInt64Number = False, fEmitZero = False, fAlwaysSent = False,
     fValueItems = False, fNullable = False\<rparr>"

definition quotedArg :: "string \<Rightarrow> arg" where
  "quotedArg v = \<lparr>argName = [], argValue = v, argQuoted = True\<rparr>"

definition pkg0 :: schema where
  "pkg0 = \<lparr>
     schMessages =
       [\<lparr>mName = ''GetOrder'', mSchemaName = ''shop.GetOrder'', mDoc = [], mErrorType = False,
          mFields = [scalarField ''id'' ScalarString 0], mNested = [], mNestedEnums = [], mDecorators = [],
          mFile = Some 0, mParent = None, mResponseOnly = False\<rparr>,
        \<lparr>mName = ''Order'', mSchemaName = ''shop.Order'', mDoc = [], mErrorType = False,
          mFields = [scalarField ''id'' ScalarString 1, scalarField ''total'' ScalarInt32 1,
            (scalarField ''line'' ScalarString 1)\<lparr>fType := Some (TMessage 2), fDecorators := [\<lparr>decName = ''flatten'', decArgs = []\<rparr>]\<rparr>],
          mNested = [2], mNestedEnums = [],
          mDecorators = [\<lparr>decName = ''rule'', decArgs = [quotedArg ''self.total > 0'', quotedArg ''total must be positive'']\<rparr>],
          mFile = Some 0, mParent = None, mResponseOnly = True\<rparr>,
        \<lparr>mName = ''Line'', mSchemaName = ''shop.Order.Line'', mDoc = [], mErrorType = False,
          mFields = [scalarField ''sku'' ScalarString 2], mNested = [], mNestedEnums = [], mDecorators = [],
          mFile = Some 0, mParent = Some 1, mResponseOnly = True\<rparr>],
     schEnums = [\<lparr>enName = ''Status'', enSchemaName = ''shop.Status'', enDoc = [],
          enValues = [\<lparr>evName = ''OPEN'', evDoc = [], evDecorators = [], evIndex = 0\<rparr>], enFile = Some 0, enParent = None\<rparr>],
     schFiles = [\<lparr>flPath = ''shop/order.onk'', flPackage = ''shop'', flImports = [], flMessages = [0, 1], flEnums = [0],
          flServices = [\<lparr>sName = ''Orders'', sDoc = [], sBasePath = ''/v1'', sHeaders = [],
            sMethods = [\<lparr>rName = ''Get'', rLine = 9, rDoc = [], rRequest = Some 0, rResponse = Some 1, rErrorTypes = [],
              rDecorators = [\<lparr>decName = ''get'', decArgs = [quotedArg ''/orders/{id}'']\<rparr>], rHeaders = [], rPrincipal = None\<rparr>]\<rparr>]\<rparr>]\<rparr>"

lemma src0_compiles: "compileWithOptions lib0 [src0] opts0 = Inr pkg0"
  by code_simp

lemma src0_shaped: "\<forall>s \<in> set [src0]. sourceShaped s"
  by code_simp

lemma src0_syntax: "validateSyntax lib0 [src0] opts0 = passed"
  by code_simp

lemma src0_declares: "isOk (eachS declareSource [src0] emptyCompiler)"
  by code_simp

text \<open>A message that nests one which flattens into itself.\<close>

definition loopSource :: source where
  "loopSource = \<lparr>srcPath = ''a.onk'', srcAST = \<lparr>fldPackage = [], fldImports = [],
     fldMessages = [sampleMessage ''A'' [] [] [sampleMessage ''B'' [] [sampleField ''b'' ''B'' [sampleDecorator ''flatten'' []]] []]], fldEnums = [], fldServices = []\<rparr>\<rparr>"

lemma loop_diverges: "compileWithOptions lib0 [loopSource] opts0 = Inl NoReturn"
  by code_simp

lemma loop_shaped: "\<forall>s \<in> set [loopSource]. sourceShaped s"
  by code_simp

end
