(* ===== verification/Guarantees.thy ===== *)
theory Guarantees
  imports Sample StringOrder
begin

text \<open>
  The properties of the schema compiler as a whole, each with a witness on the package of \<open>Sample\<close>.
\<close>

section \<open>Sources\<close>

text \<open>
  C20: Imports are checked and closed: \<open>validateAndBuildImportScopes\<close> always returns. If it accepts,
  source paths are distinct after cleaning, no file imports itself through others, and the scope of
  a file with imports is exactly the set of directories its imports reach. If it rejects, the error is one
  of a path or an import that does not resolve, or names a file on a cycle.
\<close>

theorem import_scopes:
  "\<exists>r. validateAndBuildImportScopes sources = Some r \<and>
     (case r of
        Inr scopes \<Rightarrow> acyclic (edges (importsFrom sources)) \<and> scopes = scopesOf sources \<and>
          distinct (map (\<lambda>s. pathClean (srcPath s)) sources)
      | Inl e \<Rightarrow>
          (\<exists>byPath. indexSourcesByPath sources = Inl e \<or>
             indexSourcesByPath sources = Inr byPath \<and> buildImportGraph byPath sources (\<lambda>p. []) = Inl e)
          \<or> cyclicError (importsFrom sources) e)"
  using importScopes_result .

text \<open>
  C19: Accepted declarations are unambiguous: after \<open>validateSyntax\<close> every message, enum and service
  obeys the rules of declarations (distinct generated names of fields, variants, enum values and
  RPCs, distinct JSON names of enum values, decorators with the right number of arguments), no two RPCs of all sources
  share a verb and a route, and no two services of a package share a name.
\<close>

theorem accepted_sources:
  assumes "validateSyntax lib sources opts = passed"
  shows "(\<forall>s \<in> set sources. sourceOk opts s) \<and> distinct (concat (map sourceKeys sources)) \<and>
    distinct (concat (map serviceNames sources))"
  using validateSyntax_ok [OF assms] by simp

theorem accepted_sources_witness: "sourceOk opts0 src0 \<and> sourceKeys src0 \<noteq> [] \<and> distinct (sourceKeys src0)"
proof -
  have "sourceKeys src0 \<noteq> []" by code_simp
  with accepted_sources [OF src0_syntax] show ?thesis by simp
qed

text \<open>
  C36: An accepted route starts with a slash; each of its segments is free of braces or one whole
  parameter; only the last segment can be a wildcard; the compiler and the generated code read the
  same parameters off it, and all are valid identifiers.
\<close>

theorem accepted_route:
  assumes "validateHTTPPath v allowEmpty = None" "v \<noteq> []"
  shows "hasPrefix v ''/'' \<and>
    (\<forall>seg \<in> set (splitOn (CHR ''/'') v). noBraces seg \<or> (\<exists>n. noBraces n \<and> seg = CHR ''{'' # n @ ''}'')) \<and>
    pathParameterNames v = pathParamNames v \<and>
    (\<forall>seg \<in> set (butlast (splitOn (CHR ''/'') v)). \<not> hasSuffix seg ''...}'') \<and>
    (\<forall>n \<in> set (pathParamNames v). validParam n = None)"
  using accepted_path [OF assms] by simp

theorem accepted_route_witness:
  "pathParameterNames ''/orders/{id}/{rest...}'' = [''id'', ''rest''] \<and>
   pathParameterNames ''/orders/{id}/{rest...}'' = pathParamNames ''/orders/{id}/{rest...}''"
proof -
  have "validateHTTPPath ''/orders/{id}/{rest...}'' False = None"
    "pathParameterNames ''/orders/{id}/{rest...}'' = [''id'', ''rest'']" by code_simp+
  with accepted_route [of "''/orders/{id}/{rest...}''" False] show ?thesis by simp
qed

text \<open>
  \<open>Decode\<close> accepts a document exactly when it has the supported version, every file of it has
  the shape the compiler relies on (types present, names not empty, maps with key and value) and
  no path is repeated; it never changes the document.
\<close>

theorem document_accepted:
  "decodeDocument d = Inr d' \<longleftrightarrow> d' = d \<and> docVersion d = documentVersion \<and>
     (\<forall>s \<in> set (docFiles d). sourceShaped s) \<and> distinct (map srcPath (docFiles d))"
  using decodeDocument_iff .

theorem document_accepted_witness:
  "decodeDocument \<lparr>docVersion = 1, docFiles = [src0]\<rparr> = Inr \<lparr>docVersion = 1, docFiles = [src0]\<rparr>"
proof -
  have "documentVersion = 1" by code_simp
  with src0_shaped show ?thesis unfolding document_accepted by simp
qed

text \<open>
  C8: Names resolve to the only visible declaration. After declaring the sources, the lookup of an
  unqualified message (enum) name from a file finds \<open>r\<close> exactly when \<open>r\<close> is the declaration of
  that name in the directories of the file's imports or, without imports, in its own directory or, failing that, the
  only one anywhere; it finds nothing exactly when none is visible, and reports an ambiguity otherwise.
\<close>

theorem names_resolve:
  assumes "eachS declareSource sources emptyCompiler = Inr (forest, c)"
  shows "(lookupMessageForSource sc c path n = Inr (Some r) \<longleftrightarrow> visibleOne sc (declaredMsg (cSchema c)) path n r) \<and>
    (lookupMessageForSource sc c path n = Inr None \<longleftrightarrow> visibleNone sc (declaredMsg (cSchema c)) path n) \<and>
    (lookupEnumForSource sc c path n = Inr (Some e) \<longleftrightarrow> visibleOne sc (declaredEnum (cSchema c)) path n e) \<and>
    (lookupEnumForSource sc c path n = Inr None \<longleftrightarrow> visibleNone sc (declaredEnum (cSchema c)) path n)"
proof -
  have t: "declTableOk (cMsgByDir c) (cMsgAll c) (declaredMsg (cSchema c))" "declTableOk (cEnumByDir c) (cEnumAll c) (declaredEnum (cSchema c))"
    using declareSources_ok(1) [OF assms] by (simp_all add: declOk_def tablesOk_def)
  show ?thesis using lookupTable_Some [OF t(1)] lookupTable_Some [OF t(2)] lookupTable_None [OF t(1)] lookupTable_None [OF t(2)]
    by (simp add: lookup_tables)
qed

definition comp0 :: compiler where
  "comp0 = (case eachS declareSource [src0] emptyCompiler of Inr (f, c) \<Rightarrow> c | Inl _ \<Rightarrow> emptyCompiler)"

theorem names_resolve_witness:
  "lookupMessageForSource (\<lambda>_. None) comp0 ''shop/order.onk'' ''Line'' = Inr (Some 2) \<and>
   visibleOne (\<lambda>_. None) (declaredMsg (cSchema comp0)) ''shop/order.onk'' ''Line'' 2"
proof -
  obtain forest where d: "eachS declareSource [src0] emptyCompiler = Inr (forest, comp0)"
    using src0_declares by (auto simp: isOk_iff comp0_def simp del: eachS.simps)
  have "lookupMessageForSource (\<lambda>_. None) comp0 ''shop/order.onk'' ''Line'' = Inr (Some 2)" by code_simp
  with names_resolve [OF d] show ?thesis by blast
qed

section \<open>Compiled packages\<close>

definition fieldFrom :: "mref \<Rightarrow> fieldDecl \<Rightarrow> field \<Rightarrow> bool" where
  "fieldFrom r fd f \<longleftrightarrow> fName f = fdName fd \<and> fRepeated f = fdRepeated fd \<and> fOptional f = fdOptional fd \<and>
     fMessage f = r \<and> (fOneof f = None \<longleftrightarrow> fdOneof fd = None)"

definition messageFrom :: "schema \<Rightarrow> messageDecl \<Rightarrow> mref \<Rightarrow> bool" where
  "messageFrom S md r \<longleftrightarrow> mName (msgAt S r) = mdName md \<and> mDecorators (msgAt S r) = convertDecorators (mdDecorators md) \<and>
     list_all2 (fieldFrom r) (mdFields md) (fieldsAt S r)"

lemma buildField_oneof: "buildField opts sc c path r fd = Inr f \<Longrightarrow> fOneof f = None \<longleftrightarrow> fdOneof fd = None"
  by (auto simp: buildField_def Let_def bindE_eq_Inr newField_def dest!: applyNullable_keeps applyInt64_keeps split: option.splits)

lemma fieldFrom_core: "fieldFrom r fd (fieldCore f) = fieldFrom r fd f"
  by (simp add: fieldFrom_def fieldCore_def)

lemma messageFrom_core:
  assumes "keepsCore S S'" "messageFrom S md r"
  shows "messageFrom S' md r"
proof -
  have sh: "sameShape S S'" and f: "map fieldCore (fieldsAt S' r) = map fieldCore (fieldsAt S r)" using assms(1) by (simp_all add: keepsCore_def)
  have "list_all2 (fieldFrom r) fds fs = list_all2 (fieldFrom r) fds (map fieldCore fs)" for fds fs
    by (simp add: list_all2_map2 fieldFrom_core)
  then have "list_all2 (fieldFrom r) (mdFields md) (fieldsAt S' r) = list_all2 (fieldFrom r) (mdFields md) (fieldsAt S r)"
    by (metis f)
  then show ?thesis
    using assms(2) sameShape_fields(1,5) [OF sh] by (simp add: messageFrom_def)
qed

lemma compiled_declarations:
  assumes "compileWithOptions lib sources opts = Inr S"
  shows "list_all2 (\<lambda>d r. messageFrom S (snd d) r) (allDecls sources) [0..<length (schMessages S)]"
proof -
  obtain sc forest c S0 S1 where st: "stages lib sources opts sc forest c S0 S1 S" using compile_stages [OF assms] by blast
  then have b: "built opts sc sources forest c S0" by (simp add: stages_def)
  then have t: "tablesOk c" by (simp add: built_def declOk_def)
  have "messageFrom S (snd d) r" if "representsDecl opts sc c S0 d r" for d r
  proof (rule messageFrom_core [OF stages_core [OF st]])
    from that have "list_all2 (\<lambda>fd f. buildField opts sc c (fst d) r fd = Inr f) (mdFields (snd d)) (fieldsAt S0 r)"
      by (simp add: representsDecl_def represents_def mapE_Inr)
    then have "list_all2 (fieldFrom r) (mdFields (snd d)) (fieldsAt S0 r)"
    proof (rule list_all2_mono)
      fix fd f assume f: "buildField opts sc c (fst d) r fd = Inr f"
      from buildField_in [OF f t] buildField_oneof [OF f] show "fieldFrom r fd f" by (simp add: fieldFrom_def fieldIn_def)
    qed
    with that show "messageFrom S0 (snd d) r" by (simp add: messageFrom_def representsDecl_def represents_def)
  qed
  then have "list_all2 (\<lambda>d r. messageFrom S (snd d) r) (allDecls sources) [0..<length (schMessages S0)]"
    using built_represents [OF b] by (auto elim: list_all2_mono)
  then show ?thesis using keepsCore_length [OF stages_core [OF st]] by simp
qed

text \<open>
  C9: The messages of a compiled package are the declarations of its sources, one for one and in order
  (an outer message before those nested in it), with their names, decorators and fields in order;
  walking the files and the nesting visits each of them once.
\<close>

theorem messages_are_declarations:
  assumes "compileWithOptions lib sources opts = Inr S"
  shows "list_all2 (\<lambda>d r. messageFrom S (snd d) r) (allDecls sources) [0..<length (schMessages S)] \<and>
    schemaMessages S = Some [0..<length (schMessages S)]"
  using compiled_declarations [OF assms] compiled_messages [OF assms] by simp

theorem messages_are_declarations_witness:
  "map (mdName \<circ> snd) (allDecls [src0]) = [''GetOrder'', ''Order'', ''Line''] \<and>
   list_all2 (\<lambda>d r. messageFrom pkg0 (snd d) r) (allDecls [src0]) [0..<length (schMessages pkg0)]"
proof -
  have "map (mdName \<circ> snd) (allDecls [src0]) = [''GetOrder'', ''Order'', ''Line'']" by code_simp
  with messages_are_declarations [OF src0_compiles] show ?thesis by simp
qed

text \<open>
  C13: A compiled package is well formed: every reference to a message, enum or file is in range,
  nested messages come after the one that holds them, each field has a type or a oneof whose variants have
  types, knows its message, methods have a request and a response, and every enum that is used has a value.
\<close>

theorem compiled_well_formed:
  assumes "compileWithOptions lib sources opts = Inr S"
  shows "wellFormed S \<and> wfSchema S"
  using compiled_wellFormed [OF assms] compiled_wfSchema [OF assms] by simp

theorem compiled_well_formed_witness: "wellFormed pkg0 \<and> wfSchema pkg0"
  by (rule compiled_well_formed [OF src0_compiles])

text \<open>
  C38: Two compiled packages can always be compared, and the comparison has no finding exactly when
  the new one is compatible with the old one.
\<close>

theorem compiled_packages_compare:
  assumes "compileWithOptions lib sources opts = Inr S" "compileWithOptions lib' sources' opts' = Inr S'"
  shows "\<exists>fs. comparePackages (Some S) (Some S') = Some fs \<and> (fs = [] \<longleftrightarrow> compatible S S')"
  using comparePackages_returns [OF wellFormed_compat(1,2) [OF compiled_wellFormed [OF assms(1)]]
      wellFormed_compat(1,2) [OF compiled_wellFormed [OF assms(2)]]] comparePackages_compatible
  by blast

theorem compiled_packages_compare_witness: "compatible pkg0 pkg0"
proof -
  have "comparePackages (Some pkg0) (Some pkg0) = Some []" by code_simp
  with compiled_packages_compare [OF src0_compiles src0_compiles] show ?thesis by auto
qed

text \<open>
  C3: Compiling a document the front end accepts never panics: no nil type, argument index or
  method without messages is ever dereferenced, whatever the sources and options are.
\<close>

theorem compile_never_panics:
  assumes "decodeDocument d = Inr d'"
  shows "compileWithOptions lib (docFiles d') opts \<noteq> Inl (Failed Panic)"
  using compile_safe [of "docFiles d'" lib opts] assms by (simp add: decodeDocument_iff calm_def)

lemma badDocument: "decodeDocument \<lparr>docVersion = 1, docFiles = [loopSource]\<rparr> = Inr \<lparr>docVersion = 1, docFiles = [loopSource]\<rparr>"
  by code_simp

theorem compile_never_panics_witness:
  "compileWithOptions lib0 [loopSource] opts0 \<noteq> Inl (Failed Panic) \<and> \<not> isOk (compileWithOptions lib0 [loopSource] opts0)"
  using compile_never_panics [OF badDocument, of lib0 opts0] by (simp add: loop_diverges)

section \<open>The contract of compiled packages\<close>

text \<open>
  C35: On a well-formed package the search for \<open>@flatten\<close> cycles always returns, and accepts a
  message exactly when no message it flattens, directly or through others, flattens into itself.
\<close>

theorem flatten_cycle_decided:
  assumes "wellFormed S" "r < length (schMessages S)"
  shows "validateFlattenCycle (contractFuel S) S path r [] \<noteq> Inl NoReturn \<and>
    (validateFlattenCycle (contractFuel S) S path r [] = Inr () \<longleftrightarrow> flattenEnds S r)"
  by (rule validateFlattenCycle_decides [OF wellFormed_flattensIn [OF assms(1)] branchOk_start [OF assms(2)] contractFuel_enough [OF assms(2)]])

lemma pkg0_length: "length (schMessages pkg0) = 3"
  by (simp add: pkg0_def)

theorem flatten_cycle_decided_witness: "(1, 2) \<in> flattens pkg0 \<and> flattenEnds pkg0 1"
proof -
  have "map flattenTarget (fieldsAt pkg0 1) = [None, None, Some 2]" by code_simp
  then have "Some 2 \<in> set (map flattenTarget (fieldsAt pkg0 1))" by simp
  then have f: "(1, 2) \<in> flattens pkg0" by (auto simp: flattens_iff)
  have "validateFlattenCycle (contractFuel pkg0) pkg0 [] 1 [] = Inr ()" by code_simp
  with flatten_cycle_decided [OF compiled_wellFormed [OF src0_compiles], of 1 "[]"] f show ?thesis by (simp add: pkg0_length)
qed

text \<open>
  C14: The JSON keys of every message of a compiled package are distinct: its own fields and, under
  their prefixes, those of the messages it flattens, at any depth (unless legacy names are allowed).
\<close>

theorem json_keys_distinct:
  assumes "compileWithOptions lib sources opts = Inr S" "\<not> allowLegacy opts" "r < length (schMessages S)"
  shows "\<exists>ks. flatKeys (contractFuel S) S r [] = Some ks \<and> distinct ks"
  using compiled_flattening(2) [OF assms(1,3,2)] .

theorem json_keys_distinct_witness:
  "flatKeys (contractFuel pkg0) pkg0 1 [] = Some [''id'', ''total'', ''sku''] \<and> distinct [''id'', ''total'', ''sku'']"
proof -
  have "flatKeys (contractFuel pkg0) pkg0 1 [] = Some [''id'', ''total'', ''sku'']" by code_simp
  with json_keys_distinct [OF src0_compiles, of 1] show ?thesis by (simp add: pkg0_length opts0_def del: flatKeys.simps)
qed

text \<open>
  C33: Full names identify the messages of a compiled package that belong to a declared package.
\<close>

theorem full_names_unique:
  assumes "compileWithOptions lib sources opts = Inr S"
  shows "inj_on (messageFullName S) {r. r < length (schMessages S) \<and> packagedMessage S r}"
  using compiled_names [OF assms] .

theorem full_names_unique_witness:
  "map (messageFullName pkg0) [0, 1, 2] = [''shop.GetOrder'', ''shop.Order'', ''shop.Order.Line''] \<and>
   inj_on (messageFullName pkg0) {0, 1, 2}"
proof -
  have m: "map (messageFullName pkg0) [0, 1, 2] = [''shop.GetOrder'', ''shop.Order'', ''shop.Order.Line'']"
    "list_all (packagedMessage pkg0) [0, 1, 2]" by code_simp+
  have "{0, 1, 2} \<subseteq> {r. r < length (schMessages pkg0) \<and> packagedMessage pkg0 r}"
    using m(2) by (auto simp: pkg0_length)
  from inj_on_subset [OF full_names_unique [OF src0_compiles] this] m(1) show ?thesis by simp
qed

text \<open>
  C15: Every part of a request has one place. For each method of a compiled package, the parameters of
  its route are distinct and name single scalar fields that must be present (strings, for the rest
  of a path); no field is bound to both the path and the query or the body, query names are distinct, a declared body is a
  field, and a required field is sent whenever the verb does not carry the whole message as its body.
\<close>

theorem requests_bound:
  assumes "compileWithOptions lib sources opts = Inr S" "m \<in> set (methodsOf S)"
  shows "\<exists>req. rRequest m = Some req \<and> requestBound S m req"
  using compiled_bindings [OF assms] .

theorem requests_bound_witness: "\<exists>m. methodsOf pkg0 = [m] \<and> routeOf m = ''/orders/{id}'' \<and> pathBound pkg0 0 (routeOf m) ''id''"
proof -
  obtain m where m: "methodsOf pkg0 = [m]" by (simp add: pkg0_def methodsOf_def allMethods_def)
  have "map routeOf (methodsOf pkg0) = [''/orders/{id}'']" "map rRequest (methodsOf pkg0) = [Some 0]"
    "pathParameterNames ''/orders/{id}'' = [''id'']" by code_simp+
  with requests_bound [OF src0_compiles, of m] m show ?thesis by (auto simp: requestBound_def Let_def)
qed

text \<open>
  C34: A message is marked response-only exactly when it is reachable, through the types of fields and variants,
  from a response or an error of some method and from no request.
\<close>

theorem response_only_marks:
  assumes "compileWithOptions lib sources opts = Inr S" "r < length (schMessages S)"
  shows "mResponseOnly (msgAt S r) \<longleftrightarrow> receivedOnly S r"
  using compiled_responseOnly [OF assms] .

theorem response_only_marks_witness: "receivedOnly pkg0 2 \<and> \<not> receivedOnly pkg0 0"
proof -
  have "map (\<lambda>r. mResponseOnly (msgAt pkg0 r)) [0, 2] = [False, True]" by code_simp
  with response_only_marks [OF src0_compiles] show ?thesis by (simp add: pkg0_length)
qed

text \<open>
  C2: The rules of a compiled package always decide. Every rule of every message compiles again
  after the passes, and on any value that conforms to its message the violations are the texts of
  some of its rules, in their order; evaluation never fails or panics.
\<close>

theorem compiled_rules_decide:
  assumes "compileWithOptions lib sources opts = Inr S" "r < length (schMessages S)" "conforms S (VMap value1) (TyMessage r)"
  shows "\<exists>rs out. rulesFor S r = Inr rs \<and> violations S r value1 = Inr out \<and> subseq out (map ruMessage rs)"
  using compiled_violations [OF assms] .

theorem compiled_rules_decide_witness:
  "violations pkg0 1 [(''total'', VInt 0)] = Inr [''total must be positive''] \<and>
   (\<exists>rs out. rulesFor pkg0 1 = Inr rs \<and> violations pkg0 1 [(''total'', VInt 0)] = Inr out \<and> subseq out (map ruMessage rs))"
proof
  show "violations pkg0 1 [(''total'', VInt 0)] = Inr [''total must be positive'']" by code_simp
  have "conforms pkg0 (VMap [(''total'', VInt 0)]) (TyMessage 1)"
    by (rule C_Message) (auto simp: pkg0_def msgAt_def scalarField_def fieldType_def intro: C_Int)
  with compiled_rules_decide [OF src0_compiles] show "\<exists>rs out. rulesFor pkg0 1 = Inr rs \<and> violations pkg0 1 [(''total'', VInt 0)] = Inr out \<and> subseq out (map ruMessage rs)"
    by (simp add: pkg0_length)
qed

text \<open>
  C4: Compilation returns. On sources of the accepted shape it ends, whatever cycles imports, types
  and flattening form, except that a message nested in another must not flatten into itself.
\<close>

theorem compile_returns:
  assumes "\<forall>s \<in> set sources. sourceShaped s"
    and "\<forall>sc forest S r. validateAndBuildImportScopes sources = Some (Inr sc) \<and> buildSchema opts sc sources = Inr (forest, S) \<and>
      nested S r \<longrightarrow> flattenEnds S r"
  shows "compileWithOptions lib sources opts \<noteq> Inl NoReturn"
  using compile_diverges [OF assms(1)] assms(2) by blast

definition scopes0 :: scopes where
  "scopes0 = (case validateAndBuildImportScopes [src0] of Some (Inr sc) \<Rightarrow> sc | _ \<Rightarrow> (\<lambda>_. None))"

definition built0 :: schema where
  "built0 = (case buildSchema opts0 scopes0 [src0] of Inr (f, S) \<Rightarrow> S | Inl _ \<Rightarrow> pkg0)"

theorem compile_returns_witness: "compileWithOptions lib0 [src0] opts0 \<noteq> Inl NoReturn"
proof (rule compile_returns [OF src0_shaped], intro allI impI)
  fix sc forest S r
  assume a: "validateAndBuildImportScopes [src0] = Some (Inr sc) \<and> buildSchema opts0 sc [src0] = Inr (forest, S) \<and> nested S r"
  then have S: "S = built0" by (simp add: scopes0_def built0_def)
  have "filter (\<lambda>r. r \<notin> set (concat (map flMessages (schFiles built0)))) [0..<length (schMessages built0)] = [2]"
    "map flattenTarget (fieldsAt built0 2) = [None]" by code_simp+
  moreover have "r \<in> set (filter (\<lambda>r. r \<notin> set (concat (map flMessages (schFiles built0)))) [0..<length (schMessages built0)])"
    using a S by (simp add: nested_def)
  ultimately have "r = 2" "\<forall>f \<in> set (fieldsAt built0 2). flattenTarget f = None" by auto
  then have "(2, t) \<notin> flattens built0" for t by (auto simp: flattens_iff)
  then show "flattenEnds S r" unfolding S \<open>r = 2\<close> flattenEnds_def by (metis converse_tranclE converse_rtranclE)
qed

section \<open>What the source does not catch\<close>




text \<open>The bounds of \<open>@range\<close> are compared as floats, so two large integers that differ by one count as equal.\<close>

definition rangeDecl :: decoratorDecl where
  "rangeDecl = \<lparr>ddName = ''range'', ddArgs = map (\<lambda>v. \<lparr>argName = [], argValue = v, argQuoted = False\<rparr>)
     [''9007199254740993'', ''9007199254740992''], ddLine = 2, ddCol = 1\<rparr>"

definition plainFile :: "string \<Rightarrow> messageDecl list \<Rightarrow> enumDecl list \<Rightarrow> source" where
  "plainFile p ms es = \<lparr>srcPath = p, srcAST = \<lparr>fldPackage = [], fldImports = [], fldMessages = ms, fldEnums = es, fldServices = []\<rparr>\<rparr>"

lemma empty_range_accepted:
  "isOk (compileWithOptions lib0 [plainFile ''a.onk'' [sampleMessage ''A'' [] [sampleField ''n'' ''int64'' [rangeDecl]] []] []] opts0)"
  by code_simp

text \<open>
  Messages are looked up everywhere before enums are looked up in the file's own directory, so a message added to
  another directory takes over the name of a local enum.
\<close>

definition colorDecl :: enumDecl where
  "colorDecl = \<lparr>edName = ''Color'', edDoc = [], edValues = [\<lparr>evdName = ''RED'', evdDoc = [], evdDecorators = [], evdLine = 5, evdCol = 1\<rparr>],
     edLine = 4, edCol = 1\<rparr>"

definition compiledTypes :: "source list \<Rightarrow> irType option list list" where
  "compiledTypes ss = (case compileWithOptions lib0 ss opts0 of Inr S \<Rightarrow> map (\<lambda>m. map fType (mFields m)) (schMessages S) | Inl _ \<Rightarrow> [])"

lemma foreign_message_shadows_enum:
  "compiledTypes [plainFile ''a/x.onk'' [sampleMessage ''A'' [] [sampleField ''c'' ''Color'' []] []] [colorDecl]] = [[Some (TEnum 0)]]"
  "compiledTypes [plainFile ''a/x.onk'' [sampleMessage ''A'' [] [sampleField ''c'' ''Color'' []] []] [colorDecl],
     plainFile ''b/y.onk'' [sampleMessage ''Color'' [] [sampleField ''d'' ''string'' []] []] []] = [[Some (TMessage 1)], [Some (TScalar ScalarString)]]"
  by code_simp+

text \<open>
  Without packages, two directories may declare messages of one full name; the comparison keeps one of them and
  misses breaking changes of the other.
\<close>

definition compiledSources :: "source list \<Rightarrow> schema" where
  "compiledSources ss = (case compileWithOptions lib0 ss opts0 of Inr S \<Rightarrow> S | Inl _ \<Rightarrow> pkg0)"

definition twoFiles :: "string \<Rightarrow> source list" where
  "twoFiles t = [plainFile ''a/x.onk'' [sampleMessage ''M'' [] [sampleField ''c'' t []] []] [], plainFile ''b/y.onk'' [sampleMessage ''M'' [] [sampleField ''d'' ''string'' []] []] []]"

lemma colliding_names_unreported:
  "isOk (compileWithOptions lib0 (twoFiles ''int32'') opts0)"
  "comparePackages (Some (compiledSources (twoFiles ''int32''))) (Some (compiledSources (twoFiles ''string''))) = Some []"
  by code_simp+

end
