(* ===== verification/Bounds.thy ===== *)
theory Bounds
  imports DeclProps
begin

text \<open>
  The numeric arguments of decorators. The checks compare the two bounds of a decorator as
  doubles; integers below \<open>2^53\<close> are exact there, so for \<open>@len\<close> the comparison is that of the
  integers.
\<close>

definition signed :: "bool \<Rightarrow> int \<Rightarrow> int" where "signed s n = (if s then - n else n)"

text \<open>\<open>x\<close> is the double of the integer \<open>n\<close>; zero may have either sign.\<close>

definition isInt :: "f64 \<Rightarrow> int \<Rightarrow> bool" where
  "isInt x n \<longleftrightarrow> (\<exists>s e. x = FNum s (\<bar>n\<bar> * 2 ^ nat (- e)) e \<and> e \<le> 0 \<and> signed s \<bar>n\<bar> = n)"

lemma align_scaled:
  assumes "c \<le> e" "e \<le> 0"
  shows "alignTo c s (n * 2 ^ nat (- e)) e = signed s n * 2 ^ nat (- c)"
proof -
  have "nat (- e) + nat (e - c) = nat (- c)" using assms by simp
  then have "(n * 2 ^ nat (- e)) * 2 ^ nat (e - c) = n * 2 ^ nat (- c)"
    by (simp add: mult.assoc flip: power_add)
  then show ?thesis by (simp add: alignTo_def signedMant_def signed_def)
qed

lemma fless_isInt: "isInt x a \<Longrightarrow> isInt y b \<Longrightarrow> fless x y \<longleftrightarrow> a < b"
  unfolding isInt_def
proof (elim exE conjE)
  fix s e t f
  assume *: "x = FNum s (\<bar>a\<bar> * 2 ^ nat (- e)) e" "e \<le> 0" "signed s \<bar>a\<bar> = a"
    "y = FNum t (\<bar>b\<bar> * 2 ^ nat (- f)) f" "f \<le> 0" "signed t \<bar>b\<bar> = b"
  define c where "c = min e f"
  have "alignTo c s (\<bar>a\<bar> * 2 ^ nat (- e)) e = a * 2 ^ nat (- c)" "alignTo c t (\<bar>b\<bar> * 2 ^ nat (- f)) f = b * 2 ^ nat (- c)"
    using align_scaled [of c e s "\<bar>a\<bar>"] align_scaled [of c f t "\<bar>b\<bar>"] * by (simp_all add: c_def)
  then show "fless x y \<longleftrightarrow> a < b" using * by (simp add: c_def [symmetric] Let_def)
qed

lemma scan_digits:
  "list_all isDigit s \<Longrightarrow> \<not> mtDot m \<Longrightarrow> mtFrac m = 0 \<Longrightarrow>
   scanMantissa False m s = (m\<lparr>mtValue := foldl (\<lambda>v c. v * 10 + digitVal c) (mtValue m) s, mtDigits := mtDigits m \<or> s \<noteq> []\<rparr>, [])"
proof (induction s arbitrary: m)
  case (Cons c s)
  then have c: "isDigit c" "c \<noteq> CHR ''_''" "c \<noteq> CHR ''.''" by (auto simp: isDigit_def)
  with Cons show ?case by (simp add: mantDigit_def)
qed simp

lemma digits_not_special:
  assumes "isDigit c"
  shows "toLower (c # s) \<noteq> ''inf''" "toLower (c # s) \<noteq> ''infinity''" "toLower (c # s) \<noteq> ''nan''"
  using assms by (auto simp: toLower_def lowerChar_def isDigit_def)

lemma parseFloat_int:
  assumes "parseBigInt v = Some n" "\<bar>n\<bar> < 2 ^ 53"
  shows "\<exists>x. parseFloat v = Some x \<and> isInt x n"
proof -
  obtain neg t where sg: "signOf v = (neg, t)" by (cases "signOf v")
  with assms(1) have t: "t \<noteq> []" "list_all isDigit t" "n = signed neg (digitsVal t)"
    by (auto simp: parseBigInt_def decimalInt_def signed_def split: if_splits)
  then obtain c u where cu: "t = c # u" "isDigit c" by (cases t) auto
  have v: "v = t \<or> v = CHR ''-'' # t \<or> v = CHR ''+'' # t" using sg by (auto simp: signOf_def split: list.splits if_splits)
  have "specialFloat v = None" using digits_not_special [OF cu(2), of u] v sg cu(1)
    by (auto simp: specialFloat_def toLower_def lowerChar_def)
  moreover have "basePrefix t \<noteq> Some (CHR ''x'')"
    using t(2) cu by (auto simp: basePrefix_def lowerChar_def isDigit_def split: list.splits if_splits)
  moreover have nn: "0 \<le> digitsVal t" by (rule digitsVal_nonneg) (rule t(2))
  ultimately have f: "parseFloat v = floatValue neg False (digitsVal t) 0"
    using t scan_digits [of t "\<lparr>mtValue = 0, mtFrac = 0, mtDot = False, mtDigits = False, mtUnder = False\<rparr>"]
    by (simp add: parseFloat_def readFloat_def sg digitsVal_def)
  have a: "digitsVal t = \<bar>n\<bar>" using nn t(3) by (auto simp: signed_def)
  show ?thesis
  proof (cases "digitsVal t = 0")
    case True
    then have "n = 0" using a by simp
    then have "isInt (fzero neg) n" by (auto simp: isInt_def fzero_def signed_def intro: exI [of _ neg] exI [of _ "- 1074"])
    then show ?thesis using f True by (simp add: floatValue_def Let_def fzero_def)
  next
    case False
    with nn a assms(2) have b: "0 < digitsVal t" "digitsVal t < 2 ^ 53" by auto
    have "isInt (roundF neg (digitsVal t) 1) n"
    proof -
      have "roundF neg (digitsVal t) 1 = FNum neg (\<bar>n\<bar> * 2 ^ nat (- (bitlen \<bar>n\<bar> - 53))) (bitlen \<bar>n\<bar> - 53)"
        using roundF_int [OF b] a by simp
      moreover have "bitlen \<bar>n\<bar> - 53 \<le> 0" using bitlen_le_53 [OF b] a by simp
      moreover have "signed neg \<bar>n\<bar> = n" using t(3) a by simp
      ultimately show ?thesis unfolding isInt_def by blast
    qed
    then show ?thesis using f False by (auto simp: floatValue_def Let_def isInt_def)
  qed
qed

text \<open>The checks of one decorator of an accepted field.\<close>

lemma accepted_decorator:
  assumes "validateFieldDecl lib path fd opts = passed" "fdOneof fd = None" "fdType fd = Some t" "d \<in> set (fdDecorators fd)"
  shows "validateFieldDecoratorType path fd t (ddName d) = passed \<and>
    validateDecoratorValue lib path (fdLine fd) d = passed \<and> validateNumericBounds path (fdLine fd) d t = passed"
  using assms by (auto simp: validateFieldDecl_def validateFieldDecoratorSemantics_def checkAll_passed split: if_splits)

lemma numericArg_ok: "numericArg path line d i = Inr x \<Longrightarrow> i < length (ddArgs d) \<and> parseFloat (argValue (ddArgs d ! i)) = Some x"
  by (auto simp: numericArg_def bindE_eq_Inr argValueAt_def split: option.splits if_splits)

lemma fitsInteger_iff: "fitsInteger v lo hi \<longleftrightarrow> (\<exists>n. parseBigInt v = Some n \<and> lo \<le> n \<and> n \<le> hi)"
  by (auto simp: fitsInteger_def split: option.split)

lemma count_args:
  assumes "validateNumericBounds path line d t = passed" "ddName d \<in> set countDecorators" "a \<in> set (ddArgs d)"
  shows "\<exists>n. parseBigInt (argValue a) = Some n \<and> 0 \<le> n \<and> n < 2 ^ 31"
proof -
  from assms have "fitsInteger (argValue a) 0 (2 ^ 31 - 1)"
    by (auto simp: validateNumericBounds_def Let_def checkAll_passed split: if_splits)
  then show ?thesis by (auto simp: fitsInteger_iff)
qed

lemma len_ordered:
  assumes "validateFieldDecl lib path fd opts = passed" "fdOneof fd = None" "fdType fd = Some t"
    and d: "d \<in> set (fdDecorators fd)" "ddName d = ''len''"
  shows "\<exists>lo hi. map argValue (ddArgs d) = [lo, hi] \<and>
    (\<exists>m n. parseBigInt lo = Some m \<and> parseBigInt hi = Some n \<and> 0 \<le> m \<and> m \<le> n \<and> n < 2 ^ 31)"
proof -
  note a = accepted_decorator [OF assms(1-3) d(1)]
  from a d(2) obtain x y where xy: "numericArg path (fdLine fd) d 0 = Inr x" "numericArg path (fdLine fd) d 1 = Inr y" "\<not> fless y x"
    by (auto simp: validateDecoratorValue_def bindE_eq_Inr split: if_splits)
  have "fieldOk fd" by (rule validateFieldDecl_ok) (rule assms(1))
  then have "length (ddArgs d) = 2" using d by (auto simp: fieldOk_def decsOk_def fieldDecorators_def)
  then obtain p q where pq: "ddArgs d = [p, q]" by (auto simp: numeral_2_eq_2 length_Suc_conv)
  have cnt: "ddName d \<in> set countDecorators" using d(2) by (simp add: countDecorators_def)
  note c = count_args [OF a [THEN conjunct2, THEN conjunct2] cnt]
  obtain m where m: "parseBigInt (argValue p) = Some m" "0 \<le> m" "m < 2 ^ 31" using c [of p] pq by auto
  obtain n where n: "parseBigInt (argValue q) = Some n" "0 \<le> n" "n < 2 ^ 31" using c [of q] pq by auto
  have "isInt x m" using parseFloat_int [OF m(1)] m(2,3) numericArg_ok [OF xy(1)] pq by auto
  moreover have "isInt y n" using parseFloat_int [OF n(1)] n(2,3) numericArg_ok [OF xy(2)] pq by auto
  ultimately have "m \<le> n" using xy(3) fless_isInt [of y n x m] by simp
  with m n pq show ?thesis by auto
qed

end
