(* ===== verification/FromJson.thy ===== *)
theory FromJson
  imports Rules GoParse "HOL-Library.AList"
begin

text \<open>
  \<open>FromJSON\<close> of \<open>internal/onkexpr/eval.go\<close>: values of the rule language out of decoded JSON, and
  \<open>base64.StdEncoding\<close>, which it uses for bytes. What \<open>int64(c)\<close> gives for a double outside the
  range of \<open>int64\<close> depends on the machine, so it is an argument \<open>conv\<close>.
\<close>

subsection \<open>Base64\<close>

definition base64Value :: "char \<Rightarrow> nat option" where
  "base64Value c =
     (let b = byte c in
      if 65 \<le> b \<and> b \<le> 90 then Some (b - 65)
      else if 97 \<le> b \<and> b \<le> 122 then Some (b - 71)
      else if 48 \<le> b \<and> b \<le> 57 then Some (b + 4)
      else if b = 43 then Some 62
      else if b = 47 then Some 63
      else None)"

text \<open>Groups of four; padding only ends the text. The unused bits of a padded group are not looked at.\<close>

fun base64Groups :: "string \<Rightarrow> string option" where
  "base64Groups [] = Some []"
| "base64Groups (a # b # c # d # rest) =
     (case (base64Value a, base64Value b) of
        (Some x, Some y) \<Rightarrow>
          (let first = chr (4 * x + y div 16) in
           if c = CHR ''='' then (if d = CHR ''='' \<and> rest = [] then Some [first] else None)
           else case base64Value c of
             None \<Rightarrow> None
           | Some z \<Rightarrow>
               let second = chr (16 * (y mod 16) + z div 4) in
               if d = CHR ''='' then (if rest = [] then Some [first, second] else None)
               else case base64Value d of
                 None \<Rightarrow> None
               | Some w \<Rightarrow> map_option (\<lambda>s. first # second # chr (64 * (z mod 4) + w) # s) (base64Groups rest))
      | _ \<Rightarrow> None)"
| "base64Groups _ = None"

definition base64Decode :: "string \<Rightarrow> string option" where
  "base64Decode s = base64Groups (filter (\<lambda>c. byte c \<noteq> 13 \<and> byte c \<noteq> 10) s)"

subsection \<open>Decoded JSON\<close>

text \<open>What \<open>encoding/json\<close> decodes into an \<open>any\<close>; the members of an object have distinct names.\<close>

datatype rawJSON = RawNull | RawBool bool | RawNumber f64 | RawString string | RawArray "rawJSON list"
  | RawObject "(string \<times> rawJSON) list"

inductive rawOk :: "rawJSON \<Rightarrow> bool" where
  "rawOk RawNull"
| "rawOk (RawBool b)"
| "rawOk (RawNumber c)"
| "rawOk (RawString s)"
| "\<forall>r \<in> set rs. rawOk r \<Longrightarrow> rawOk (RawArray rs)"
| "distinct (map fst kvs) \<Longrightarrow> \<forall>kv \<in> set kvs. rawOk (snd kv) \<Longrightarrow> rawOk (RawObject kvs)"

datatype jsonError = Expected string | BadInteger string | BadNumber string | BadBase64 string
  | UnknownEnumValue string | InField string jsonError

definition floatToInt :: "(f64 \<Rightarrow> int64) \<Rightarrow> f64 \<Rightarrow> int64" where
  "floatToInt conv c =
     (case c of
        FNum s m e \<Rightarrow> if fless c f2p63 \<and> \<not> fless c (fneg f2p63) then i64 (truncInt s m e) else conv c
      | _ \<Rightarrow> conv c)"

definition intFromJSON :: "(f64 \<Rightarrow> int64) \<Rightarrow> rawJSON \<Rightarrow> jsonError + val" where
  "intFromJSON conv raw =
     (case raw of
        RawNumber c \<Rightarrow> Inr (VInt (floatToInt conv c))
      | RawString s \<Rightarrow> (case parseInt s of Some i \<Rightarrow> Inr (VInt (i64 i)) | None \<Rightarrow> Inl (BadInteger s))
      | _ \<Rightarrow> Inl (Expected ''an integer''))"

definition doubleFromJSON :: "rawJSON \<Rightarrow> jsonError + val" where
  "doubleFromJSON raw =
     (case raw of
        RawNumber c \<Rightarrow> Inr (VDouble c)
      | RawString s \<Rightarrow> (case parseFloat s of Some c \<Rightarrow> Inr (VDouble c) | None \<Rightarrow> Inl (BadNumber s))
      | _ \<Rightarrow> Inl (Expected ''a number''))"

definition enumFromJSON :: "schema \<Rightarrow> eref \<Rightarrow> rawJSON \<Rightarrow> jsonError + val" where
  "enumFromJSON S e raw =
     (case raw of
        RawString s \<Rightarrow>
          (case find (\<lambda>v. enumJSONName v = s \<or> evName v = s) (enValues (enumAt S e)) of
             Some v \<Rightarrow> Inr (VString (evName v))
           | None \<Rightarrow> Inl (UnknownEnumValue s))
      | _ \<Rightarrow> Inl (Expected ''an enum name''))"

text \<open>One field of a message: nothing when it is absent, a oneof or of a type rules cannot use.\<close>

definition fieldFromJSON :: "(ty \<Rightarrow> rawJSON \<Rightarrow> jsonError + val) \<Rightarrow> (string \<times> rawJSON) list \<Rightarrow> field \<Rightarrow> jsonError + (string \<times> val) list" where
  "fieldFromJSON decode obj f =
     (case map_of obj (fName f) of
        None \<Rightarrow> Inr []
      | Some item \<Rightarrow>
          if fOneof f \<noteq> None then Inr []
          else case fieldType f of
            Inl _ \<Rightarrow> Inr []
          | Inr ft \<Rightarrow>
              (case decode ft item of Inl e \<Rightarrow> Inl (InField (fName f) e) | Inr v \<Rightarrow> Inr [(fName f, v)]))"

lemma fieldFromJSON_cong [fundef_cong]:
  assumes "obj = obj'" "f = f'" "\<And>t item. map_of obj' (fName f') = Some item \<Longrightarrow> decode t item = decode' t item"
  shows "fieldFromJSON decode obj f = fieldFromJSON decode' obj' f'"
  using assms by (auto simp: fieldFromJSON_def split: option.splits sum.splits)

function (sequential) fromJSON :: "(f64 \<Rightarrow> int64) \<Rightarrow> schema \<Rightarrow> ty \<Rightarrow> rawJSON \<Rightarrow> jsonError + val" where
  "fromJSON conv S TyBool raw = (case raw of RawBool b \<Rightarrow> Inr (VBool b) | _ \<Rightarrow> Inl (Expected ''a bool''))"
| "fromJSON conv S TyInt raw = intFromJSON conv raw"
| "fromJSON conv S TyDouble raw = doubleFromJSON raw"
| "fromJSON conv S TyString raw = (case raw of RawString s \<Rightarrow> Inr (VString s) | _ \<Rightarrow> Inl (Expected ''a string''))"
| "fromJSON conv S TyBytes raw =
     (case raw of
        RawString s \<Rightarrow> (case base64Decode s of Some b \<Rightarrow> Inr (VBytes b) | None \<Rightarrow> Inl (BadBase64 s))
      | _ \<Rightarrow> Inl (Expected ''base64''))"
| "fromJSON conv S (TyEnum e) raw = enumFromJSON S e raw"
| "fromJSON conv S (TyList t) (RawArray items) = bindE (mapE (fromJSON conv S t) items) (\<lambda>vs. Inr (VList vs))"
| "fromJSON conv S (TyList t) raw = Inl (Expected ''a list'')"
| "fromJSON conv S (TyMap t) (RawObject obj) =
     bindE (mapE (\<lambda>kv. bindE (fromJSON conv S t (snd kv)) (\<lambda>v. Inr (fst kv, v))) obj) (\<lambda>kvs. Inr (VMap kvs))"
| "fromJSON conv S (TyMap t) raw = Inl (Expected ''an object'')"
| "fromJSON conv S (TyMessage m) (RawObject obj) =
     bindE (mapE (fieldFromJSON (\<lambda>t item. fromJSON conv S t item) obj) (mFields (msgAt S m)))
       (\<lambda>outs. Inr (VMap (fold (\<lambda>(k, v). AList.update k v) (concat outs) [])))"
| "fromJSON conv S (TyMessage m) raw = Inl (Expected ''an object'')"
  by pat_completeness auto
termination
proof (relation "measure (\<lambda>(conv, S, t, raw). size raw)", goal_cases)
  case (4 conv S m obj f t item)
  then have "(fName f, item) \<in> set obj" by (simp add: map_of_SomeD)
  then have "size item \<le> size_list (size_prod (\<lambda>x. 0) size) obj" by (rule size_list_estimation') simp
  then show ?case by simp
qed (auto simp: less_Suc_eq_le intro: size_list_estimation')

subsection \<open>Values that conform\<close>

lemma enumFromJSON_conforms: "enumFromJSON S e raw = Inr v \<Longrightarrow> conforms S v (TyEnum e)"
  by (auto simp: enumFromJSON_def find_Some_iff enumMember_def list_ex_iff
      split: rawJSON.splits option.splits intro!: C_Enum bexI [OF _ nth_mem])

lemma list_all2_result: "list_all2 P xs ys \<Longrightarrow> y \<in> set ys \<Longrightarrow> \<exists>x \<in> set xs. P x y"
  by (induction rule: list_all2_induct) auto

lemma fold_update_distinct: "distinct (map fst kvs) \<Longrightarrow> distinct (map fst (fold (\<lambda>(k, v). AList.update k v) xs kvs))"
  by (induction xs arbitrary: kvs) (auto simp: distinct_update)

lemma fold_update_set: "kv \<in> set (fold (\<lambda>(k, v). AList.update k v) xs kvs) \<Longrightarrow> kv \<in> set xs \<or> kv \<in> set kvs"
proof (induction xs arbitrary: kvs)
  case (Cons x xs)
  then have "kv \<in> set xs \<or> kv \<in> set (AList.update (fst x) (snd x) kvs)" by (cases x) auto
  moreover have "set (AList.update k v m) \<subseteq> insert (k, v) (set m)" for k v and m :: "('a \<times> 'b) list"
    by (induction m) auto
  ultimately show ?case by (cases x) auto
qed simp

text \<open>A field's value is decoded at the field's type.\<close>

lemma fieldFromJSON_Inr:
  "fieldFromJSON decode obj f = Inr out \<Longrightarrow> kv \<in> set out \<Longrightarrow>
     fst kv = fName f \<and> (\<exists>t item. fieldType f = Inr t \<and> map_of obj (fName f) = Some item \<and> decode t item = Inr (snd kv))"
  by (auto simp: fieldFromJSON_def split: option.splits sum.splits if_splits)

definition rawNamesDistinct :: "schema \<Rightarrow> bool" where
  "rawNamesDistinct S \<longleftrightarrow> list_all (\<lambda>m. distinct (map fName (mFields m))) (schMessages S)"

lemma rawNamesDistinct_at: "rawNamesDistinct S \<Longrightarrow> distinct (map fName (mFields (msgAt S m)))"
  by (auto simp: rawNamesDistinct_def msgAt_def nilMessage_def list_all_iff)

lemma fromJSON_conforms: "fromJSON conv S t raw = Inr v \<Longrightarrow> rawOk raw \<Longrightarrow> rawNamesDistinct S \<Longrightarrow> conforms S v t"
proof (induction conv S t raw arbitrary: v rule: fromJSON.induct)
  case (7 conv S t items)
  then obtain vs where vs: "v = VList vs" "list_all2 (\<lambda>r v. fromJSON conv S t r = Inr v) items vs"
    by (auto simp: bindE_eq_Inr mapE_Inr)
  have ok: "\<forall>r \<in> set items. rawOk r" using 7(3) by (auto elim: rawOk.cases)
  have "conforms S w t" if "w \<in> set vs" for w
    using list_all2_result [OF vs(2) that] 7(1,4) ok by blast
  then show ?case by (simp add: vs C_List)
next
  case (9 conv S t obj)
  then obtain kvs where kvs: "v = VMap kvs"
    "list_all2 (\<lambda>kv out. bindE (fromJSON conv S t (snd kv)) (\<lambda>v. Inr (fst kv, v)) = Inr out) obj kvs"
    by (auto simp: bindE_eq_Inr mapE_Inr)
  have ok: "distinct (map fst obj)" "\<forall>kv \<in> set obj. rawOk (snd kv)" using 9(3) by (auto elim: rawOk.cases)
  have "map fst kvs = map fst obj" using kvs(2) by (induction rule: list_all2_induct) (auto simp: bindE_eq_Inr)
  moreover have "conforms S (snd w) t" if "w \<in> set kvs" for w
  proof -
    obtain kv where "kv \<in> set obj" "fromJSON conv S t (snd kv) = Inr (snd w)"
      using list_all2_result [OF kvs(2) \<open>w \<in> set kvs\<close>] by (auto simp: bindE_eq_Inr)
    then show ?thesis using 9(1,4) ok(2) by blast
  qed
  ultimately show ?case using ok(1) by (simp add: kvs C_Map)
next
  case (11 conv S m obj)
  let ?fields = "mFields (msgAt S m)" and ?decode = "\<lambda>t item. fromJSON conv S t item"
  from 11(2) obtain outs where outs: "list_all2 (\<lambda>f out. fieldFromJSON ?decode obj f = Inr out) ?fields outs"
    and v: "v = VMap (fold (\<lambda>(k, v). AList.update k v) (concat outs) [])" by (auto simp: bindE_eq_Inr mapE_Inr)
  have ok: "\<forall>kv \<in> set obj. rawOk (snd kv)" using 11(3) by (auto elim: rawOk.cases)
  show ?case unfolding v
  proof (rule C_Message)
    show "distinct (map fst (fold (\<lambda>(k, v). AList.update k v) (concat outs) []))" by (rule fold_update_distinct) simp
    show "\<forall>kv \<in> set (fold (\<lambda>(k, v). AList.update k v) (concat outs) []). \<forall>f t.
        find (\<lambda>f. fName f = fst kv) ?fields = Some f \<longrightarrow> fieldType f = Inr t \<longrightarrow> conforms S (snd kv) t"
    proof (intro ballI allI impI)
      fix kv f t
      assume kv: "kv \<in> set (fold (\<lambda>(k, v). AList.update k v) (concat outs) [])" and f: "find (\<lambda>f. fName f = fst kv) ?fields = Some f"
        and t: "fieldType f = Inr t"
      from fold_update_set [OF kv] obtain out where out: "out \<in> set outs" "kv \<in> set out" by auto
      then obtain g where g: "g \<in> set ?fields" "fieldFromJSON ?decode obj g = Inr out"
        using list_all2_result [OF outs] by blast
      from fieldFromJSON_Inr [OF g(2) out(2)] obtain u item where u: "fst kv = fName g" "fieldType g = Inr u"
        "map_of obj (fName g) = Some item" "fromJSON conv S u item = Inr (snd kv)" by blast
      have "f = g" using find_distinct [OF g(1) rawNamesDistinct_at [OF 11(4)]] f u(1) by simp
      moreover have "conforms S (snd kv) u" using 11(1) [OF g(1) u(3,4)] map_of_SomeD [OF u(3)] ok 11(4) by auto
      ultimately show "conforms S (snd kv) t" using t u(2) by simp
    qed
  qed
qed (auto simp: intFromJSON_def doubleFromJSON_def intro: conforms.intros enumFromJSON_conforms split: rawJSON.splits option.splits)

text \<open>A message comes out as a map.\<close>

lemma fromJSON_message: "fromJSON conv S (TyMessage m) raw = Inr v \<Longrightarrow> \<exists>kvs. v = VMap kvs"
  by (cases raw) (auto simp: bindE_eq_Inr)

text \<open>
  C18: JSON input is checked by the rules without a panic. Whatever JSON \<open>FromJSON\<close> accepts for a message
  is a value of the message's type, and \<open>Violations\<close> decides all rules of the message on it.
\<close>

theorem json_input_decided:
  assumes "wfSchema S" "rawNamesDistinct S" "rulesFor S m = Inr rs" "rawOk raw" "fromJSON conv S (TyMessage m) raw = Inr v"
  shows "conforms S v (TyMessage m) \<and> (\<exists>kvs out. v = VMap kvs \<and> violations S m kvs = Inr out \<and> subseq out (map ruMessage rs))"
proof -
  have c: "conforms S v (TyMessage m)" using fromJSON_conforms [OF assms(5,4,2)] .
  moreover obtain kvs where v: "v = VMap kvs" using fromJSON_message [OF assms(5)] by blast
  ultimately show ?thesis
    using violations_decided [OF assms(1) _ assms(3) rawNamesDistinct_at [OF assms(2)]] by blast
qed

definition jsonField :: "string \<Rightarrow> irType \<Rightarrow> bool \<Rightarrow> field" where
  "jsonField n t rep = \<lparr>fName = n, fLine = 0, fDoc = [], fType = Some t, fRepeated = rep, fOptional = False, fDecorators = [],
     fOneof = None, fMessage = 0, fInt64Number = False, fEmitZero = False, fAlwaysSent = False, fValueItems = False, fNullable = False\<rparr>"

definition jsonSchema :: schema where
  "jsonSchema = \<lparr>schMessages = [nilMessage\<lparr>mName := ''M'', mDecorators := [\<lparr>decName = ''rule'', decArgs =
       [\<lparr>argName = [], argValue = ''self.a > 1'', argQuoted = True\<rparr>, \<lparr>argName = [], argValue = ''too small'', argQuoted = True\<rparr>]\<rparr>],
     mFields := [jsonField ''a'' (TScalar ScalarInt64) False, jsonField ''b'' (TScalar ScalarBytes) True]\<rparr>],
     schEnums = [], schFiles = []\<rparr>"

definition jsonRules :: "compiledRule list" where
  "jsonRules = (case rulesFor jsonSchema 0 of Inr rs \<Rightarrow> rs | Inl e \<Rightarrow> [])"

definition jsonInput :: rawJSON where
  "jsonInput = RawObject [(''b'', RawArray [RawString ''aGk='', RawString []]), (''a'', RawString ''-7''), (''c'', RawNull)]"

lemma jsonInput_value:
  "fromJSON (\<lambda>_. 0) jsonSchema (TyMessage 0) jsonInput = Inr (VMap [(''a'', VInt (i64 (- 7))), (''b'', VList [VBytes ''hi'', VBytes []])])"
  by code_simp

theorem json_input_decided_witness:
  "\<exists>out. violations jsonSchema 0 [(''a'', VInt (i64 (- 7))), (''b'', VList [VBytes ''hi'', VBytes []])] = Inr out \<and>
     subseq out (map ruMessage jsonRules) \<and> map ruMessage jsonRules = [''too small'']"
proof -
  have "wfSchema jsonSchema" "rawNamesDistinct jsonSchema"
    by (simp_all add: wfSchema_def rawNamesDistinct_def jsonSchema_def jsonField_def)
  moreover have "map ruMessage jsonRules = [''too small'']" by code_simp
  moreover have "rulesFor jsonSchema 0 = Inr jsonRules" by code_simp
  moreover have "rawOk jsonInput" by (simp add: jsonInput_def rawOk.intros)
  ultimately show ?thesis using json_input_decided [OF _ _ _ _ jsonInput_value] by auto
qed

end
