(* ===== verification/GoNet.thy ===== *)
theory GoNet
  imports GoFmt
begin

text \<open>
  What \<open>httpkit/state.go\<close> uses of \<open>net\<close>, \<open>net/netip\<close> and \<open>net/textproto\<close>: splitting a host from
  its port, parsing and printing addresses and prefixes, and the canonical form of header names.
  An address is its bits as a number, an IPv6 address with its zone.
\<close>

subsection \<open>Numbers and characters\<close>

definition isDigitChar :: "char \<Rightarrow> bool" where "isDigitChar c \<longleftrightarrow> 48 \<le> byte c \<and> byte c \<le> 57"

definition hexNibble :: "char \<Rightarrow> nat option" where
  "hexNibble c =
     (if isDigitChar c then Some (byte c - 48)
      else if 97 \<le> byte c \<and> byte c \<le> 102 then Some (byte c - 87)
      else if 65 \<le> byte c \<and> byte c \<le> 70 then Some (byte c - 55)
      else None)"

definition decimal :: "string \<Rightarrow> nat" where "decimal s = foldl (\<lambda>n c. 10 * n + (byte c - 48)) 0 s"

text \<open>The text before and after the last occurrence of a character.\<close>

definition lastCut :: "char \<Rightarrow> string \<Rightarrow> (string \<times> string) option" where
  "lastCut c s =
     (if c \<in> set s then
        Some (rev (drop 1 (dropWhile (\<lambda>x. x \<noteq> c) (rev s))), rev (takeWhile (\<lambda>x. x \<noteq> c) (rev s)))
      else None)"

lemma lastCut_Some: "lastCut c s = Some (a, b) \<Longrightarrow> s = a @ c # b \<and> c \<notin> set b"
proof -
  assume a: "lastCut c s = Some (a, b)"
  then have c: "c \<in> set (rev s)" by (auto simp: lastCut_def split: if_splits)
  then obtain t where t: "dropWhile (\<lambda>x. x \<noteq> c) (rev s) = c # t"
    by (cases "dropWhile (\<lambda>x. x \<noteq> c) (rev s)") (use hd_dropWhile [of "\<lambda>x. x \<noteq> c" "rev s"] in \<open>auto simp: dropWhile_eq_Nil_conv\<close>)
  with a c have ab: "a = rev t" "b = rev (takeWhile (\<lambda>x. x \<noteq> c) (rev s))" by (auto simp: lastCut_def)
  have "rev s = takeWhile (\<lambda>x. x \<noteq> c) (rev s) @ c # t" by (simp flip: t)
  then have "s = rev (takeWhile (\<lambda>x. x \<noteq> c) (rev s) @ c # t)" by (metis rev_rev_ident)
  then show ?thesis using ab by (auto dest: set_takeWhileD)
qed

subsection \<open>net.SplitHostPort\<close>

definition splitHost :: "string \<Rightarrow> string option" where
  "splitHost hostport =
     (case lastCut (CHR '':'') hostport of
        None \<Rightarrow> None
      | Some (front, port) \<Rightarrow>
          if hasPrefix hostport ''['' then
            (if CHR '']'' \<notin> set hostport then None
             else
               let inner = takeWhile (\<lambda>c. c \<noteq> CHR '']'') (drop 1 hostport) in
               if front = ''['' @ inner @ '']'' \<and> CHR ''['' \<notin> set (inner @ port) \<and> CHR '']'' \<notin> set port
               then Some inner else None)
          else if CHR '':'' \<in> set front \<or> CHR ''['' \<in> set hostport \<or> CHR '']'' \<in> set hostport then None
          else Some front)"

subsection \<open>netip.ParseAddr\<close>

datatype ipAddr = IPv4 nat | IPv6 nat string

definition octet :: "string \<Rightarrow> nat option" where
  "octet s =
     (if s \<noteq> [] \<and> list_all isDigitChar s \<and> (length s = 1 \<or> hd s \<noteq> CHR ''0'') \<and> decimal s \<le> 255
      then Some (decimal s) else None)"

definition ipv4Bits :: "string \<Rightarrow> nat option" where
  "ipv4Bits s =
     (case map octet (splitOn (CHR ''.'') s) of
        [Some a, Some b, Some c, Some d] \<Rightarrow> Some (((a * 256 + b) * 256 + c) * 256 + d)
      | _ \<Rightarrow> None)"

text \<open>
  The hexadecimal fields of an IPv6 address: those before the ellipsis, then those after it. A
  group is followed by the end, by a colon and more, or, as the first of the last two groups of
  sixteen bits, by the rest of an IPv4 address. \<open>n\<close> counts the groups read and \<open>seen\<close> says whether
  an ellipsis has been met.
\<close>

definition hexGroup :: "string \<Rightarrow> (nat \<times> string) option" where
  "hexGroup s =
     (let digits = takeWhile (\<lambda>c. hexNibble c \<noteq> None) s in
      if digits = [] \<or> length digits > 4 then None
      else Some (foldl (\<lambda>n c. 16 * n + the (hexNibble c)) 0 digits, drop (length digits) s))"

function ipv6Groups :: "nat \<Rightarrow> bool \<Rightarrow> string \<Rightarrow> (nat list \<times> nat list option) option" where
  "ipv6Groups n seen s =
     (if n \<ge> 8 then None
      else case hexGroup s of
        None \<Rightarrow> None
      | Some (g, rest) \<Rightarrow>
          if hasPrefix rest ''.'' then
            (if \<not> seen \<and> n \<noteq> 6 \<or> n > 6 then None
             else case ipv4Bits s of
               None \<Rightarrow> None
             | Some v \<Rightarrow> Some ([v div 65536, v mod 65536], None))
          else if rest = [] then Some ([g], None)
          else if \<not> hasPrefix rest '':'' \<or> length rest = 1 then None
          else if hasPrefix rest ''::'' then
            (if seen then None
             else if length rest = 2 then Some ([g], Some [])
             else case ipv6Groups (n + 1) True (drop 2 rest) of
               Some (more, None) \<Rightarrow> Some ([g], Some more)
             | _ \<Rightarrow> None)
          else case ipv6Groups (n + 1) seen (drop 1 rest) of
            None \<Rightarrow> None
          | Some (more, after) \<Rightarrow> Some (g # more, after))"
  by pat_completeness auto
termination by (relation "measure (\<lambda>(n, seen, s). 8 - n)") auto

declare ipv6Groups.simps [simp del]

definition ofGroups :: "nat list \<Rightarrow> nat" where "ofGroups gs = foldl (\<lambda>n g. 65536 * n + g) 0 gs"

definition expand :: "nat list \<times> nat list option \<Rightarrow> nat option" where
  "expand p =
     (case p of
        (gs, None) \<Rightarrow> if length gs = 8 then Some (ofGroups gs) else None
      | (gs, Some more) \<Rightarrow>
          if length gs + length more < 8
          then Some (ofGroups (gs @ replicate (8 - length gs - length more) 0 @ more)) else None)"

definition ipv6Bits :: "string \<Rightarrow> nat option" where
  "ipv6Bits s =
     (if s = ''::'' then Some 0
      else if hasPrefix s ''::'' then
        (case ipv6Groups 0 True (drop 2 s) of Some (gs, None) \<Rightarrow> expand ([], Some gs) | _ \<Rightarrow> None)
      else (case ipv6Groups 0 False s of Some p \<Rightarrow> expand p | None \<Rightarrow> None))"

definition parseIPv6 :: "string \<Rightarrow> ipAddr option" where
  "parseIPv6 s =
     (let addr = takeWhile (\<lambda>c. c \<noteq> CHR ''%'') s; zone = drop 1 (dropWhile (\<lambda>c. c \<noteq> CHR ''%'') s) in
      if CHR ''%'' \<in> set s \<and> zone = [] then None
      else map_option (\<lambda>v. IPv6 v zone) (ipv6Bits addr))"

definition parseAddr :: "string \<Rightarrow> ipAddr option" where
  "parseAddr s =
     (case find (\<lambda>c. c = CHR ''.'' \<or> c = CHR '':'' \<or> c = CHR ''%'') s of
        None \<Rightarrow> None
      | Some c \<Rightarrow>
          if c = CHR ''.'' then map_option IPv4 (ipv4Bits s)
          else if c = CHR '':'' then parseIPv6 s else None)"

subsection \<open>Prefixes\<close>

definition bitLen :: "ipAddr \<Rightarrow> nat" where
  "bitLen a = (case a of IPv4 _ \<Rightarrow> 32 | IPv6 _ _ \<Rightarrow> 128)"

definition addrBits :: "ipAddr \<Rightarrow> nat" where
  "addrBits a = (case a of IPv4 v \<Rightarrow> v | IPv6 v _ \<Rightarrow> v)"

definition hasZone :: "ipAddr \<Rightarrow> bool" where
  "hasZone a = (case a of IPv4 _ \<Rightarrow> False | IPv6 _ z \<Rightarrow> z \<noteq> [])"

type_synonym ipPrefix = "ipAddr \<times> nat"

definition prefixFrom :: "ipAddr \<Rightarrow> nat \<Rightarrow> ipPrefix" where
  "prefixFrom a bits = (case a of IPv4 v \<Rightarrow> IPv4 v | IPv6 v _ \<Rightarrow> IPv6 v [], bits)"

definition parsePrefix :: "string \<Rightarrow> ipPrefix option" where
  "parsePrefix s =
     (case lastCut (CHR ''/'') s of
        None \<Rightarrow> None
      | Some (front, bits) \<Rightarrow>
          (case parseAddr front of
             None \<Rightarrow> None
           | Some a \<Rightarrow>
               if hasZone a \<or> bits = [] \<or> \<not> list_all isDigitChar bits \<or> length bits > 1 \<and> hd bits = CHR ''0''
                  \<or> decimal bits > bitLen a
               then None else Some (prefixFrom a (decimal bits))))"

definition prefixContains :: "ipPrefix \<Rightarrow> ipAddr \<Rightarrow> bool" where
  "prefixContains p a =
     (\<not> hasZone a \<and> bitLen (fst p) = bitLen a \<and>
      addrBits a div 2 ^ (bitLen a - snd p) = addrBits (fst p) div 2 ^ (bitLen a - snd p))"

text \<open>An IPv4 address written as IPv6, \<open>::ffff:a.b.c.d\<close>.\<close>

definition is4In6 :: "ipAddr \<Rightarrow> bool" where
  "is4In6 a = (case a of IPv4 _ \<Rightarrow> False | IPv6 v _ \<Rightarrow> v div 2 ^ 32 = 0xFFFF)"

definition unmapAddr :: "ipAddr \<Rightarrow> ipAddr" where
  "unmapAddr a = (if is4In6 a then IPv4 (addrBits a mod 2 ^ 32) else a)"

subsection \<open>Addr.String\<close>

definition showIPv4 :: "nat \<Rightarrow> string" where
  "showIPv4 v = joinWith ''.'' (map showNat [v div 16777216 mod 256, v div 65536 mod 256, v div 256 mod 256, v mod 256])"

fun showHex :: "nat \<Rightarrow> string" where
  "showHex n = (if n < 16 then [''0123456789abcdef'' ! n] else showHex (n div 16) @ [''0123456789abcdef'' ! (n mod 16)])"

declare showHex.simps [simp del]

definition toGroups :: "nat \<Rightarrow> nat list" where
  "toGroups v = map (\<lambda>i. v div 65536 ^ (7 - i) mod 65536) [0..<8]"

text \<open>The first longest run of at least two zero groups, as its start and end.\<close>

definition zeroRun :: "nat list \<Rightarrow> nat \<Rightarrow> nat" where
  "zeroRun gs i = length (takeWhile (\<lambda>g. g = 0) (drop i gs))"

definition longestZeros :: "nat list \<Rightarrow> (nat \<times> nat) option" where
  "longestZeros gs = foldl (\<lambda>best i.
     let l = zeroRun gs i in
     if 2 \<le> l \<and> (case best of None \<Rightarrow> True | Some (s, e) \<Rightarrow> e - s < l) then Some (i, i + l) else best)
     None [0..<length gs]"

definition showIPv6 :: "nat \<Rightarrow> string" where
  "showIPv6 v =
     (let gs = toGroups v in
      case longestZeros gs of
        None \<Rightarrow> joinWith '':'' (map showHex gs)
      | Some (s, e) \<Rightarrow> joinWith '':'' (map showHex (take s gs)) @ ''::'' @ joinWith '':'' (map showHex (drop e gs)))"

definition showAddr :: "ipAddr \<Rightarrow> string" where
  "showAddr a =
     (case a of
        IPv4 v \<Rightarrow> showIPv4 v
      | IPv6 v zone \<Rightarrow>
          (if is4In6 a then ''::ffff:'' @ showIPv4 (v mod 2 ^ 32) else showIPv6 v) @
          (if zone = [] then [] else ''%'' @ zone))"

subsection \<open>Header names\<close>

definition tokenChars :: string where
  "tokenChars = ''!#$%&*+-.^_`|~0123456789ABCDEFGHIJKLMNOPQRSTUVWXYZabcdefghijklmnopqrstuvwxyz'' @ [char_of (39::nat)]"

definition asciiUpper :: "char \<Rightarrow> char" where
  "asciiUpper c = (if 97 \<le> byte c \<and> byte c \<le> 122 then chr (byte c - 32) else c)"

fun canonicalFrom :: "bool \<Rightarrow> string \<Rightarrow> string" where
  "canonicalFrom up [] = []"
| "canonicalFrom up (c # s) = (if up then asciiUpper c else lowerChar c) # canonicalFrom (c = CHR ''-'') s"

text \<open>\<open>textproto.CanonicalMIMEHeaderKey\<close>: a name with a byte that is no token character is left alone.\<close>

definition canonicalHeader :: "string \<Rightarrow> string" where
  "canonicalHeader s = (if list_all (\<lambda>c. c \<in> set tokenChars) s then canonicalFrom True s else s)"

end
