(* ===== verification/GoGlob.thy ===== *)
theory GoGlob
  imports GoPath
begin

text \<open>
  Two more functions of the standard library's paths, as the build tool uses them: \<open>path.Match\<close>,
  the shell-style patterns of service and package filters, and \<open>filepath.Rel\<close> and
  \<open>filepath.Base\<close> on a Unix system. A malformed pattern (\<open>ErrBadPattern\<close>) is \<open>None\<close>.
\<close>

subsection \<open>path.Match\<close>

text \<open>The length of the pattern up to the next star outside a character class.\<close>

fun scanEnd :: "bool \<Rightarrow> string \<Rightarrow> nat" where
  "scanEnd inrange [] = 0"
| "scanEnd inrange (c # s) =
     (if c = CHR 0x5C then (case s of [] \<Rightarrow> 1 | d # t \<Rightarrow> 2 + scanEnd inrange t)
      else if c = CHR ''*'' \<and> \<not> inrange then 0
      else 1 + scanEnd (c = CHR ''['' \<or> inrange \<and> c \<noteq> CHR '']'') s)"

definition scanChunk :: "string \<Rightarrow> bool \<times> string \<times> string" where
  "scanChunk pat =
     (let p = dropWhile (\<lambda>c. c = CHR ''*'') pat; i = scanEnd False p in
      (hasPrefix pat ''*'', take i p, drop i p))"

lemma dropWhile_shorter: "hasPrefix pat ''*'' \<Longrightarrow> length (dropWhile (\<lambda>c. c = CHR ''*'') pat) < length pat"
  by (cases pat) (auto simp: hasPrefix_def le_imp_less_Suc length_dropWhile_le)

lemma scanChunk_shorter:
  assumes "scanChunk pat = (star, chunk, rest)" "pat \<noteq> []"
  shows "length rest < length pat"
proof (cases "hasPrefix pat ''*''")
  case True
  then show ?thesis using assms dropWhile_shorter [of pat] by (auto simp: scanChunk_def Let_def)
next
  case False
  then obtain c s where c: "pat = c # s" "c \<noteq> CHR ''*''" using assms(2) by (cases pat) (auto simp: hasPrefix_def)
  then have "0 < scanEnd False pat" by (auto split: list.split)
  then show ?thesis using assms c by (auto simp: scanChunk_def Let_def)
qed

text \<open>One bound of a range, possibly escaped.\<close>

definition getEsc :: "string \<Rightarrow> (rune \<times> string) option" where
  "getEsc chunk =
     (if chunk = [] \<or> hd chunk = CHR ''-'' \<or> hd chunk = CHR '']'' then None
      else
        let c1 = (if hd chunk = CHR 0x5C then tl chunk else chunk) in
        if c1 = [] then None
        else
          let (r, n) = decodeRune c1 in
          if r = runeError \<and> n = 1 \<or> drop n c1 = [] then None else Some (r, drop n c1))"

lemma getEsc_shorter: "getEsc chunk = Some (r, rest) \<Longrightarrow> length rest < length chunk \<and> rest \<noteq> []"
proof -
  assume g: "getEsc chunk = Some (r, rest)"
  define c1 where "c1 = (if hd chunk = CHR 0x5C then tl chunk else chunk)"
  from g have ne: "chunk \<noteq> []" "c1 \<noteq> []" by (auto simp: getEsc_def c1_def Let_def split: if_splits)
  then obtain c s where c: "c1 = c # s" by (cases c1) auto
  from g have r: "rest = drop (snd (decodeRune c1)) c1" "rest \<noteq> []"
    by (auto simp: getEsc_def c1_def Let_def split: if_splits prod.splits)
  then have "length rest < length c1" using decodeRune_width [of c s] by (simp add: c del: decodeRune.simps)
  moreover have "length c1 \<le> length chunk" by (simp add: c1_def)
  ultimately show ?thesis using r by simp
qed

definition oneRange :: "string \<Rightarrow> ((rune \<times> rune) \<times> string) option" where
  "oneRange chunk =
     (case getEsc chunk of
        None \<Rightarrow> None
      | Some (lo, c1) \<Rightarrow>
          if hd c1 = CHR ''-'' then
            (case getEsc (tl c1) of None \<Rightarrow> None | Some (hi, c2) \<Rightarrow> Some ((lo, hi), c2))
          else Some ((lo, lo), c1))"

lemma oneRange_shorter: "oneRange chunk = Some (x, rest) \<Longrightarrow> length rest < length chunk"
proof -
  assume o1: "oneRange chunk = Some (x, rest)"
  then obtain lo c1 where g: "getEsc chunk = Some (lo, c1)" by (auto simp: oneRange_def split: option.splits)
  show ?thesis
  proof (cases "hd c1 = CHR ''-''")
    case True
    with o1 g obtain hi where "getEsc (tl c1) = Some (hi, rest)" by (auto simp: oneRange_def split: option.splits)
    from getEsc_shorter [OF this] getEsc_shorter [OF g] show ?thesis by (metis less_trans length_tl diff_le_self order_less_le_trans)
  next
    case False
    with o1 g getEsc_shorter [OF g] show ?thesis by (simp add: oneRange_def)
  qed
qed

text \<open>The ranges of a class up to its closing bracket, which may not come first.\<close>

function classRanges :: "bool \<Rightarrow> string \<Rightarrow> ((rune \<times> rune) list \<times> string) option" where
  "classRanges some1 chunk =
     (if some1 \<and> hasPrefix chunk '']'' then Some ([], tl chunk)
      else case oneRange chunk of
        None \<Rightarrow> None
      | Some (x, rest) \<Rightarrow> map_option (\<lambda>(xs, after). (x # xs, after)) (classRanges True rest))"
  by pat_completeness auto
termination by (relation "measure (\<lambda>(b, s). length s)") (auto dest: oneRange_shorter)

declare classRanges.simps [simp del]

lemma classRanges_shorter: "classRanges b chunk = Some (xs, rest) \<Longrightarrow> length rest \<le> length chunk"
proof (induction b chunk arbitrary: xs rest rule: classRanges.induct)
  case (1 b chunk)
  from 1(2) consider "b \<and> hasPrefix chunk '']''" "rest = tl chunk"
    | x rest1 ys where "\<not> (b \<and> hasPrefix chunk '']'')" "oneRange chunk = Some (x, rest1)" "classRanges True rest1 = Some (ys, rest)"
    by (auto simp: classRanges.simps [of b chunk] split: if_splits option.splits)
  then show ?case
  proof cases
    case 2
    from 1(1) [OF 2(1,2) refl 2(3)] oneRange_shorter [OF 2(2)] show ?thesis by simp
  qed simp
qed

lemma class_rest: "classRanges False (if hasPrefix ch ''^'' then tl ch else ch) = Some (xs, rest) \<Longrightarrow> length rest \<le> length ch"
  using classRanges_shorter [of False "if hasPrefix ch ''^'' then tl ch else ch" xs rest] by (auto split: if_splits)

definition stepLit :: "char \<Rightarrow> string option \<Rightarrow> string option" where
  "stepLit c s = (case s of Some (d # t) \<Rightarrow> if d = c then Some t else None | _ \<Rightarrow> None)"

definition stepAny :: "string option \<Rightarrow> string option" where
  "stepAny s = (case s of
     Some (d # t) \<Rightarrow> if d = CHR ''/'' then None else Some (drop (snd (decodeRune (d # t))) (d # t)) | _ \<Rightarrow> None)"

definition stepClass :: "bool \<Rightarrow> (rune \<times> rune) list \<Rightarrow> string option \<Rightarrow> string option" where
  "stepClass negated ranges s = (case s of
     Some (d # t) \<Rightarrow>
       (let (r, n) = decodeRune (d # t) in
        if list_ex (\<lambda>(lo, hi). lo \<le> r \<and> r \<le> hi) ranges = negated then None else Some (drop n (d # t)))
   | _ \<Rightarrow> None)"

text \<open>
  \<open>matchChunk\<close>: the rest of the text after the chunk, \<open>Some None\<close> when the text does not match, \<open>None\<close>
  for a malformed chunk. After a mismatch the rest of the chunk is still checked.
\<close>

function matchChunk :: "string \<Rightarrow> string option \<Rightarrow> string option option" where
  "matchChunk [] s = Some s"
| "matchChunk (c # ch) s =
     (if c = CHR ''['' then
        (case classRanges False (if hasPrefix ch ''^'' then tl ch else ch) of
           None \<Rightarrow> None
         | Some (ranges, rest) \<Rightarrow> matchChunk rest (stepClass (hasPrefix ch ''^'') ranges s))
      else if c = CHR ''?'' then matchChunk ch (stepAny s)
      else if c = CHR 0x5C then (case ch of [] \<Rightarrow> None | d # ch1 \<Rightarrow> matchChunk ch1 (stepLit d s))
      else matchChunk ch (stepLit c s))"
  by pat_completeness auto
termination
proof (relation "measure (\<lambda>(c, s). length c)", goal_cases)
  case (2 c ch s p ranges rest)
  then show ?case using class_rest [of ch ranges rest] by simp
qed auto

text \<open>After a star: the first position, not past a slash, where the chunk matches.\<close>

fun skipMatch :: "string \<Rightarrow> bool \<Rightarrow> string \<Rightarrow> string option option" where
  "skipMatch chunk atEnd [] = Some None"
| "skipMatch chunk atEnd (c # name) =
     (if c = CHR ''/'' then Some None
      else case matchChunk chunk (Some name) of
        None \<Rightarrow> None
      | Some None \<Rightarrow> skipMatch chunk atEnd name
      | Some (Some t) \<Rightarrow> if atEnd \<and> t \<noteq> [] then skipMatch chunk atEnd name else Some (Some t))"

function checkRest :: "string \<Rightarrow> bool option" where
  "checkRest pat =
     (if pat = [] then Some False
      else case scanChunk pat of (star, chunk, rest) \<Rightarrow>
        if matchChunk chunk (Some []) = None then None else checkRest rest)"
  by pat_completeness auto
termination by (relation "measure length") (auto dest: scanChunk_shorter [OF sym])

declare checkRest.simps [simp del]

function goMatch :: "string \<Rightarrow> string \<Rightarrow> bool option" where
  "goMatch pat name =
     (if pat = [] then Some (name = [])
      else case scanChunk pat of (star, chunk, rest) \<Rightarrow>
        if star \<and> chunk = [] then Some (CHR ''/'' \<notin> set name)
        else case matchChunk chunk (Some name) of
          None \<Rightarrow> None
        | Some m \<Rightarrow>
            (case (case m of Some t \<Rightarrow> if t = [] \<or> rest \<noteq> [] then Some (Some t) else
                     (if star then skipMatch chunk (rest = []) name else Some None)
                   | None \<Rightarrow> if star then skipMatch chunk (rest = []) name else Some None) of
               None \<Rightarrow> None
             | Some None \<Rightarrow> checkRest rest
             | Some (Some t) \<Rightarrow> goMatch rest t))"
  by pat_completeness auto
termination by (relation "measure (\<lambda>(p, n). length p)") (auto dest: scanChunk_shorter [OF sym])

declare goMatch.simps [simp del]

subsection \<open>Patterns without metacharacters\<close>

definition plainPattern :: "string \<Rightarrow> bool" where
  "plainPattern p \<longleftrightarrow> (\<forall>c \<in> set p. c \<notin> {CHR ''*'', CHR ''?'', CHR ''['', CHR 0x5C})"

lemma scanEnd_plain: "plainPattern p \<Longrightarrow> CHR '']'' \<notin> set p \<or> True \<Longrightarrow> scanEnd False p = length p"
  by (induction p) (auto simp: plainPattern_def)

lemma matchChunk_plain:
  "plainPattern p \<Longrightarrow> matchChunk p s = Some (case s of None \<Rightarrow> None | Some t \<Rightarrow> if prefix p t then Some (drop (length p) t) else None)"
proof (induction p arbitrary: s)
  case (Cons c p)
  then have "matchChunk (c # p) s = matchChunk p (stepLit c s)" by (simp add: plainPattern_def)
  with Cons show ?case by (auto simp: plainPattern_def stepLit_def split: option.split list.split)
qed (auto split: option.split)

lemma goMatch_plain: "plainPattern p \<Longrightarrow> goMatch p name = Some (p = name)"
proof (cases "p = []")
  case False
  assume p: "plainPattern p"
  then have "dropWhile (\<lambda>c. c = CHR ''*'') p = p" "\<not> hasPrefix p ''*''"
    using False by (cases p; auto simp: plainPattern_def hasPrefix_def)+
  then have s: "scanChunk p = (False, p, [])" using scanEnd_plain [OF p] by (simp add: scanChunk_def Let_def)
  have d: "prefix p name \<Longrightarrow> drop (length p) name = [] \<longleftrightarrow> p = name" by (auto simp: prefix_def)
  show ?thesis using False d
    by (auto simp: goMatch.simps [of p] s matchChunk_plain [OF p] checkRest.simps goMatch.simps split: if_splits)
qed (simp add: goMatch.simps eq_commute)

lemma goMatch_star: "goMatch ''*'' name = Some (CHR ''/'' \<notin> set name)"
  by (simp add: goMatch.simps scanChunk_def hasPrefix_def Let_def)

subsection \<open>filepath.Rel and filepath.Base\<close>

fun stripCommon :: "'a list \<Rightarrow> 'a list \<Rightarrow> 'a list \<times> 'a list" where
  "stripCommon (x # xs) (y # ys) = (if x = y then stripCommon xs ys else (x # xs, y # ys))"
| "stripCommon xs ys = (xs, ys)"

definition pathElems :: "string \<Rightarrow> string list" where
  "pathElems p = (let q = trimPrefix p ''/'' in if q = [] then [] else splitOn (CHR ''/'') q)"

text \<open>The way up is one dot-dot for every element of the base that is left.\<close>

definition filepathRel :: "string \<Rightarrow> string \<Rightarrow> string option" where
  "filepathRel base targ =
     (let b = pathClean base; t = pathClean targ; b1 = (if b = ''.'' then [] else b) in
      if t = b then Some ''.''
      else if isAbs b1 \<noteq> isAbs t then None
      else
        let (bs, ts) = stripCommon (pathElems b1) (pathElems t) in
        if bs \<noteq> [] \<and> hd bs = ''..'' then None
        else Some (joinWith ''/'' (map (\<lambda>_. ''..'') bs @ ts)))"

definition pathBase :: "string \<Rightarrow> string" where
  "pathBase p =
     (if p = [] then ''.''
      else
        let q = rev (takeWhile (\<lambda>c. c \<noteq> CHR ''/'') (dropWhile (\<lambda>c. c = CHR ''/'') (rev p))) in
        if q = [] then ''/'' else q)"

definition pathExt :: "string \<Rightarrow> string" where
  "pathExt p =
     (let base = takeWhile (\<lambda>c. c \<noteq> CHR ''/'') (rev p) in
      if CHR ''.'' \<notin> set base then [] else CHR ''.'' # rev (takeWhile (\<lambda>c. c \<noteq> CHR ''.'') base))"

lemma stripCommon_append: "stripCommon xs (xs @ ys) = ([], ys)"
  by (induction xs) (cases ys, auto)

lemma stripCommon_sound: "stripCommon xs ys = (as, bs) \<Longrightarrow> \<exists>zs. xs = zs @ as \<and> ys = zs @ bs"
proof (induction xs ys rule: stripCommon.induct)
  case (1 x xs y ys)
  then show ?case by (auto split: if_splits)
qed auto

end
