(* ===== verification/HttpKit.thy ===== *)
theory HttpKit
  imports GoNet GoGlob GoInt StringOrder
begin

text \<open>
  \<open>httpkit\<close>, the run-time library of generated Go servers: guards of a route (\<open>guard.go\<close>), the state of
  a request and the address of its caller (\<open>state.go\<close>), the recording response writer
  (\<open>recorder.go\<close>), the error envelope (\<open>envelope.go\<close>) and the health, single-page and
  entity-tag handlers (\<open>handlers.go\<close>). Pointers to a request's state are indices into a store.
  The mutexes make every access to a state one step, so a run is a sequence of them.
\<close>

subsection \<open>Guards\<close>

definition unsafeGuardRune :: "rune \<Rightarrow> bool" where
  "unsafeGuardRune r \<longleftrightarrow> r = byte (CHR ''/'') \<or> r = 0x5C \<or> r < 0x20 \<or> r = 0x7F"

definition safeGuardValue :: "string \<Rightarrow> bool" where
  "safeGuardValue value1 =
     (if value1 = [] \<or> value1 = ''.'' \<or> value1 = ''..'' then False
      else \<not> list_ex unsafeGuardRune (runes value1))"

definition guardSegment :: "(string \<Rightarrow> string) \<Rightarrow> string \<Rightarrow> unit + string" where
  "guardSegment pathValue segment =
     (case cutPrefix segment '':'' of
        None \<Rightarrow> Inr segment
      | Some name \<Rightarrow> if safeGuardValue (pathValue name) then Inr (pathValue name) else Inl ())"

definition resolveGuard :: "string \<Rightarrow> (string \<Rightarrow> string) \<Rightarrow> unit + string" where
  "resolveGuard pat pathValue =
     bindE (mapE (guardSegment pathValue) (splitOn (CHR ''/'') pat)) (\<lambda>segments. Inr (joinWith ''/'' segments))"

definition resolveGuards :: "string list \<Rightarrow> (string \<Rightarrow> string) \<Rightarrow> unit + string list" where
  "resolveGuards patterns pathValue = mapE (\<lambda>p. resolveGuard p pathValue) patterns"

subsection \<open>Requests and response headers\<close>

type_synonym headers = "string \<Rightarrow> string list"

definition headerGet :: "headers \<Rightarrow> string \<Rightarrow> string" where
  "headerGet h name = (case h (canonicalHeader name) of [] \<Rightarrow> [] | v # _ \<Rightarrow> v)"

definition headerSet :: "string \<Rightarrow> string \<Rightarrow> headers \<Rightarrow> headers" where
  "headerSet name v h = h(canonicalHeader name := [v])"

record request =
  rqRemoteAddr :: string
  rqHeader :: headers
  rqMethod :: string
  rqPath :: string

subsection \<open>The caller's address\<close>

definition isBlank :: "char \<Rightarrow> bool" where "isBlank c \<longleftrightarrow> c = CHR '' '' \<or> byte c = 9"

definition httpTrimSpace :: "string \<Rightarrow> string" where
  "httpTrimSpace s = rev (dropWhile isBlank (rev (dropWhile isBlank s)))"

definition splitComma :: "string \<Rightarrow> string list" where
  "splitComma value1 = filter (\<lambda>p. p \<noteq> []) (map httpTrimSpace (splitOn (CHR '','') value1))"

definition parseProxy :: "string \<Rightarrow> ipPrefix list" where
  "parseProxy entry =
     (case parsePrefix entry of
        Some p \<Rightarrow> [p]
      | None \<Rightarrow> (case parseAddr entry of Some a \<Rightarrow> [prefixFrom a (bitLen a)] | None \<Rightarrow> []))"

definition parseProxies :: "string list \<Rightarrow> ipPrefix list" where
  "parseProxies entries = concat (map parseProxy entries)"

definition trusts :: "ipPrefix list \<Rightarrow> ipAddr \<Rightarrow> bool" where
  "trusts proxies addr = list_ex (\<lambda>p. prefixContains p (unmapAddr addr) \<or> prefixContains p addr) proxies"

text \<open>The loop over the forwarded chain from its last entry; the argument is the chain reversed.\<close>

fun forwardedIP :: "string \<Rightarrow> ipPrefix list \<Rightarrow> string list \<Rightarrow> string" where
  "forwardedIP host trusted [] = host"
| "forwardedIP host trusted (e # es) =
     (case parseAddr e of
        None \<Rightarrow> host
      | Some a \<Rightarrow> if \<not> trusts trusted a then showAddr a else forwardedIP host trusted es)"

definition peerHost :: "request \<Rightarrow> string" where
  "peerHost r = (case splitHost (rqRemoteAddr r) of Some h \<Rightarrow> h | None \<Rightarrow> rqRemoteAddr r)"

definition forwardedChain :: "request \<Rightarrow> string list" where
  "forwardedChain r = concat (map splitComma (rqHeader r ''X-Forwarded-For''))"

definition clientIP :: "request \<Rightarrow> ipPrefix list \<Rightarrow> string" where
  "clientIP r trusted =
     (let host = peerHost r in
      case parseAddr host of
        None \<Rightarrow> host
      | Some peer \<Rightarrow>
          if \<not> trusts trusted peer then host
          else forwardedIP host trusted (rev (forwardedChain r)))"

subsection \<open>The state of a request\<close>

record 'p kitState =
  ksRequestID :: string
  ksStart :: int
  ksClientIP :: string
  ksFlags :: "string set"
  ksPrincipal :: "'p option"
  ksStatus :: int
  ksBytes :: int64

type_synonym 'p kitStore = "'p kitState list"

text \<open>A context carries a reference to a state, or none.\<close>

type_synonym kitContext = "nat option"

definition stateFrom :: "kitContext \<Rightarrow> 'p kitStore \<Rightarrow> 'p kitState option" where
  "stateFrom ctx st = map_option (\<lambda>i. st ! i) ctx"

definition requestID :: "kitContext \<Rightarrow> 'p kitStore \<Rightarrow> string" where
  "requestID ctx st = (case stateFrom ctx st of Some s \<Rightarrow> ksRequestID s | None \<Rightarrow> [])"

definition updateState :: "kitContext \<Rightarrow> ('p kitState \<Rightarrow> 'p kitState) \<Rightarrow> 'p kitStore \<Rightarrow> 'p kitStore" where
  "updateState ctx f st = (case ctx of None \<Rightarrow> st | Some i \<Rightarrow> st[i := f (st ! i)])"

definition setFlag :: "kitContext \<Rightarrow> string \<Rightarrow> 'p kitStore \<Rightarrow> 'p kitStore" where
  "setFlag ctx name = updateState ctx (\<lambda>s. s\<lparr>ksFlags := insert name (ksFlags s)\<rparr>)"

definition flag :: "'p kitState \<Rightarrow> string \<Rightarrow> bool" where
  "flag s name = (name \<in> ksFlags s)"

definition setPrincipal :: "kitContext \<Rightarrow> 'p option \<Rightarrow> 'p kitStore \<Rightarrow> 'p kitStore" where
  "setPrincipal ctx p = updateState ctx (\<lambda>s. s\<lparr>ksPrincipal := p\<rparr>)"

text \<open>\<open>asT\<close> is the type assertion \<open>principal.(T)\<close>; a nil principal has no type.\<close>

definition principal :: "('p \<Rightarrow> 't option) \<Rightarrow> kitContext \<Rightarrow> 'p kitStore \<Rightarrow> 't option" where
  "principal asT ctx st =
     (case stateFrom ctx st of
        None \<Rightarrow> None
      | Some s \<Rightarrow> (case ksPrincipal s of None \<Rightarrow> None | Some p \<Rightarrow> asT p))"

definition mustPrincipal :: "('p \<Rightarrow> 't option) \<Rightarrow> kitContext \<Rightarrow> 'p kitStore \<Rightarrow> unit + 't" where
  "mustPrincipal asT ctx st = (case principal asT ctx st of Some t \<Rightarrow> Inr t | None \<Rightarrow> Inl ())"

definition defaultRequestIDHeader :: string where "defaultRequestIDHeader = ''X-Request-Id''"

record kitConfig =
  kcRequestIDHeader :: string
  kcTrustedProxies :: "string list"

definition idHeader :: "kitConfig \<Rightarrow> string" where
  "idHeader cfg = (if kcRequestIDHeader cfg = [] then defaultRequestIDHeader else kcRequestIDHeader cfg)"

text \<open>\<open>freshID\<close> and \<open>now1\<close> are what the configured or default callbacks return for this request.\<close>

definition newState :: "request option \<Rightarrow> string \<Rightarrow> string \<Rightarrow> int \<Rightarrow> ipPrefix list \<Rightarrow> 'p kitState" where
  "newState req header freshID now1 trusted =
     (let given = (case req of None \<Rightarrow> [] | Some r \<Rightarrow> headerGet (rqHeader r) header);
          ip = (case req of None \<Rightarrow> [] | Some r \<Rightarrow> clientIP r trusted) in
      \<lparr>ksRequestID = (if given = [] then freshID else given), ksStart = now1, ksClientIP = ip,
       ksFlags = {}, ksPrincipal = None, ksStatus = 0, ksBytes = 0\<rparr>)"

definition ensureState ::
  "kitContext \<Rightarrow> request option \<Rightarrow> string \<Rightarrow> string \<Rightarrow> int \<Rightarrow> ipPrefix list \<Rightarrow> 'p kitStore \<Rightarrow> kitContext \<times> 'p kitStore" where
  "ensureState ctx req header freshID now1 trusted st =
     (case ctx of
        Some i \<Rightarrow> (Some i, st)
      | None \<Rightarrow> (Some (length st), st @ [newState req header freshID now1 trusted]))"

definition ensureStateWith ::
  "kitConfig \<Rightarrow> string \<Rightarrow> int \<Rightarrow> kitContext \<Rightarrow> request option \<Rightarrow> 'p kitStore \<Rightarrow> kitContext \<times> 'p kitStore" where
  "ensureStateWith cfg freshID now1 ctx req st =
     ensureState ctx req (idHeader cfg) freshID now1 (parseProxies (kcTrustedProxies cfg)) st"

subsection \<open>The recording writer\<close>

text \<open>
  What the recorder sends on to the writer it wraps. \<open>recState\<close> is the state it shares, when
  \<open>Middleware\<close> made it.
\<close>

datatype sent = SentHeader int | SentBody string | SentFlush | SentHijack

record recorder =
  recState :: kitContext
  recStatus :: int
  recBytes :: int64
  recWrote :: bool
  recSent :: "sent list"

definition newRecorder :: "kitContext \<Rightarrow> recorder" where
  "newRecorder ctx = \<lparr>recState = ctx, recStatus = 0, recBytes = 0, recWrote = False, recSent = []\<rparr>"

definition setStatus :: "int \<Rightarrow> recorder \<times> 'p kitStore \<Rightarrow> recorder \<times> 'p kitStore" where
  "setStatus status rs = (case rs of (r, st) \<Rightarrow>
     (r\<lparr>recWrote := True, recStatus := status\<rparr>, updateState (recState r) (\<lambda>s. s\<lparr>ksStatus := status\<rparr>) st))"

definition send :: "sent \<Rightarrow> recorder \<times> 'p kitStore \<Rightarrow> recorder \<times> 'p kitStore" where
  "send x rs = (case rs of (r, st) \<Rightarrow> (r\<lparr>recSent := recSent r @ [x]\<rparr>, st))"

definition isInterim :: "int \<Rightarrow> bool" where
  "isInterim status \<longleftrightarrow> 100 \<le> status \<and> status < 200 \<and> status \<noteq> 101"

definition recWriteHeader :: "int \<Rightarrow> recorder \<times> 'p kitStore \<Rightarrow> recorder \<times> 'p kitStore" where
  "recWriteHeader status rs =
     (if isInterim status then send (SentHeader status) rs
      else if recWrote (fst rs) then rs
      else send (SentHeader status) (setStatus status rs))"

text \<open>\<open>n\<close> is the number of bytes the wrapped writer reports.\<close>

definition addBytes :: "nat \<Rightarrow> recorder \<times> 'p kitStore \<Rightarrow> recorder \<times> 'p kitStore" where
  "addBytes n rs = (case rs of (r, st) \<Rightarrow>
     (r\<lparr>recBytes := recBytes r + of_nat n\<rparr>, updateState (recState r) (\<lambda>s. s\<lparr>ksBytes := ksBytes s + of_nat n\<rparr>) st))"

definition recWrite :: "string \<Rightarrow> nat \<Rightarrow> recorder \<times> 'p kitStore \<Rightarrow> recorder \<times> 'p kitStore" where
  "recWrite data n rs =
     (let rs1 = (if \<not> recWrote (fst rs) then recWriteHeader 200 rs else rs) in
      addBytes n (send (SentBody data) rs1))"

text \<open>\<open>canFlush\<close> and \<open>hijacked\<close>: whether the wrapped writer flushes, and whether its hijack succeeds.\<close>

definition recFlush :: "bool \<Rightarrow> recorder \<times> 'p kitStore \<Rightarrow> recorder \<times> 'p kitStore" where
  "recFlush canFlush rs = (if canFlush then send SentFlush rs else rs)"

definition recHijack :: "bool \<Rightarrow> recorder \<times> 'p kitStore \<Rightarrow> recorder \<times> 'p kitStore" where
  "recHijack hijacked rs =
     (if \<not> hijacked then rs
      else let rs1 = send SentHijack rs in if recWrote (fst rs1) then rs1 else setStatus 101 rs1)"

text \<open>\<open>Middleware\<close> up to the call of the next handler: the context, the response headers and the recorder.\<close>

definition enterMiddleware ::
  "kitConfig \<Rightarrow> string \<Rightarrow> int \<Rightarrow> kitContext \<Rightarrow> request \<Rightarrow> headers \<Rightarrow> 'p kitStore \<Rightarrow> kitContext \<times> headers \<times> recorder \<times> 'p kitStore" where
  "enterMiddleware cfg freshID now1 ctx r w st =
     (let header = idHeader cfg;
          (ctx1, st1) = ensureState ctx (Some r) header freshID now1 (parseProxies (kcTrustedProxies cfg)) st in
      (ctx1, headerSet header (requestID ctx1 st1) w, newRecorder ctx1, st1))"

subsection \<open>Error envelopes\<close>

record 'c errorParts =
  epStatus :: int
  epCode :: string
  epMessage :: string
  epField :: string
  epViolations :: "string list"
  epCause :: "'c option"

datatype envelopeValue = EText string | ETexts "string list"

type_synonym envelopeFields = "(string \<times> envelopeValue) list"

text \<open>
  The body sent: the default one around its inner fields, the encoding of what \<open>Wrap\<close> returned, or
  the fixed text when that cannot be encoded. \<open>encode\<close> is \<open>json.Marshal\<close> on the caller's values.
\<close>

datatype envelopeBody = DefaultBody envelopeFields | WrappedBody string | FallbackBody

record ('c, 'b) envelope =
  evContentType :: string
  evRequestIDHeader :: string
  evWrap :: "('c errorParts \<Rightarrow> string \<Rightarrow> envelopeFields \<Rightarrow> 'b) option"

record envelopeReply =
  erLogged :: bool
  erStatus :: int
  erContentType :: string
  erBody :: envelopeBody

definition envelopeID :: "('c, 'b) envelope \<Rightarrow> kitContext \<Rightarrow> 'p kitStore \<Rightarrow> headers \<Rightarrow> string" where
  "envelopeID e ctx st w =
     (if requestID ctx st = []
      then headerGet w (if evRequestIDHeader e = [] then defaultRequestIDHeader else evRequestIDHeader e)
      else requestID ctx st)"

definition envelopeInner :: "'c errorParts \<Rightarrow> string \<Rightarrow> envelopeFields" where
  "envelopeInner f rid =
     [(''code'', EText (epCode f)), (''message'', EText (epMessage f))] @
     (if rid \<noteq> [] then [(''request_id'', EText rid)] else []) @
     (if epField f \<noteq> [] then [(''field'', EText (epField f))] else []) @
     (if epViolations f \<noteq> [] then [(''violations'', ETexts (epViolations f))] else [])"

definition envelopeWrite ::
  "('b \<Rightarrow> string option) \<Rightarrow> ('c, 'b) envelope \<Rightarrow> kitContext \<Rightarrow> 'p kitStore \<Rightarrow> headers \<Rightarrow> 'c errorParts \<Rightarrow> envelopeReply" where
  "envelopeWrite encode e ctx st w f =
     (let rid = envelopeID e ctx st w; inner = envelopeInner f rid in
      \<lparr>erLogged = (500 \<le> epStatus f \<and> epCause f \<noteq> None), erStatus = epStatus f,
       erContentType = (if evContentType e = [] then ''application/json'' else evContentType e),
       erBody = (case evWrap e of
           None \<Rightarrow> DefaultBody inner
         | Some wrap \<Rightarrow> (case encode (wrap f rid inner) of Some text1 \<Rightarrow> WrappedBody text1 | None \<Rightarrow> FallbackBody))\<rparr>)"

subsection \<open>Handlers\<close>

text \<open>A check is its name and what running it gives: \<open>None\<close> without a \<open>Run\<close>, else whether it failed.\<close>

type_synonym healthCheck = "string \<times> bool option"

definition health :: "healthCheck list \<Rightarrow> int \<times> string list" where
  "health checks =
     (let failed = map fst (filter (\<lambda>c. snd c = Some True) checks) in
      if failed \<noteq> [] then (503, sort failed) else (200, []))"

text \<open>
  What is served: the index document, read by \<open>serveFile\<close>, or a file left to \<open>http.FileServerFS\<close>, with
  whether it may be cached for ever. \<open>OnServe\<close> only adds headers.
\<close>

datatype spaReply = SpaNotAllowed | SpaNotFound | SpaIndex string | SpaFile string bool

text \<open>\<open>stat name\<close> is \<open>None\<close> for a missing file, else whether it is a directory.\<close>

definition spaName :: "string \<Rightarrow> string \<Rightarrow> string" where
  "spaName index p = (let name = trimPrefix (pathClean (''/'' @ p)) ''/'' in if name = [] then index else name)"

definition isFile :: "(string \<Rightarrow> bool option) \<Rightarrow> string \<Rightarrow> bool" where
  "isFile stat name \<longleftrightarrow> stat name = Some False"

text \<open>\<open>serveFile\<close> reads the index document itself.\<close>

definition serveIndex :: "(string \<Rightarrow> bool option) \<Rightarrow> string \<Rightarrow> spaReply" where
  "serveIndex stat index = (if isFile stat index then SpaIndex index else SpaNotFound)"

definition spa :: "(string \<Rightarrow> bool option) \<Rightarrow> string \<Rightarrow> (string \<Rightarrow> bool) option \<Rightarrow> request \<Rightarrow> spaReply" where
  "spa stat index0 immutable0 r =
     (let index = (if index0 = [] then ''index.html'' else index0);
          immutable = (case immutable0 of Some f \<Rightarrow> f | None \<Rightarrow> (\<lambda>name. hasPrefix name ''assets/''));
          name = spaName index (rqPath r) in
      if rqMethod r \<noteq> ''GET'' \<and> rqMethod r \<noteq> ''HEAD'' then SpaNotAllowed
      else if \<not> isFile stat name then
        (if pathExt name \<noteq> [] then SpaNotFound else serveIndex stat index)
      else if name = index then serveIndex stat index
      else SpaFile name (immutable name))"

definition ifNoneMatch :: "request \<Rightarrow> string \<Rightarrow> bool" where
  "ifNoneMatch r etag =
     (let header = headerGet (rqHeader r) ''If-None-Match''; want = trimPrefix etag ''W/'' in
      if header = [] \<or> etag = [] then False
      else list_ex (\<lambda>c. let candidate = trimSpace c in candidate = ''*'' \<or> trimPrefix candidate ''W/'' = want)
        (splitOn (CHR '','') header))"

end
