(* ===== verification/HttpKitProps.thy ===== *)
theory HttpKitProps
  imports HttpKit "HOL-Library.Code_Target_Nat"
begin

text \<open>
  What the run-time library guarantees: a resolved guard has the shape of its pattern, a caller
  cannot forge its address past a trusted proxy, the recorder's status is the one on the wire, and
  the single-page handler serves clean names only.
\<close>

subsection \<open>Guards\<close>

lemma decode_ascii: "byte c < 0x80 \<Longrightarrow> decodeRune (c # s) = (byte c, 1)"
  by simp

lemma second_big: "contByte b \<Longrightarrow> 0x80 \<le> b" "secondOk a b \<Longrightarrow> 0x80 \<le> b"
  by (simp_all add: contByte_def secondOk_def)

text \<open>What decoding skips after the first byte are continuation bytes.\<close>

lemma decode_skips:
  "\<forall>x \<in> set (take (snd (decodeRune (c # s)) - 1) s). 0x80 \<le> byte x"
proof (cases s)
  case (Cons c1 s1)
  show ?thesis
  proof (cases s1)
    case Nil
    then show ?thesis using Cons by (simp add: Let_def second_big)
  next
    case s2: (Cons c2 s2)
    show ?thesis
    proof (cases s2)
      case Nil
      then show ?thesis using Cons s2 by (simp add: Let_def second_big)
    next
      case (Cons c3 s3)
      then show ?thesis using \<open>s = c1 # s1\<close> s2 by (simp add: Let_def second_big)
    qed
  qed
qed simp

lemma ascii_rune: "x \<in> set s \<Longrightarrow> byte x < 0x80 \<Longrightarrow> byte x \<in> set (runes s)"
proof (induction s rule: runes.induct)
  case (2 c s)
  define w where "w = snd (decodeRune (c # s))"
  have w: "0 < w" using decodeRune_width [of c s] by (simp add: w_def)
  show ?case
  proof (cases "x = c")
    case True
    then show ?thesis using 2(3) by (simp add: decode_ascii)
  next
    case False
    then have "x \<in> set s" using 2 by simp
    then have "x \<in> set (take (w - 1) s) \<or> x \<in> set (drop (w - 1) s)"
      by (metis Un_iff append_take_drop_id set_append)
    moreover have "x \<notin> set (take (w - 1) s)" using decode_skips [of c s] 2(3) by (auto simp: w_def)
    moreover have "drop w (c # s) = drop (w - 1) s" using w by (simp add: drop_Cons')
    ultimately have "x \<in> set (drop w (c # s))" by simp
    then show ?thesis using 2 unfolding runes.simps w_def by (simp del: runes.simps decodeRune.simps)
  qed
qed simp

text \<open>A value that may fill a segment is one path element: not empty, not a dot or two, without separators.\<close>

definition guardElement :: "string \<Rightarrow> bool" where
  "guardElement v \<longleftrightarrow> v \<notin> {[], ''.'', ''..''} \<and> CHR ''/'' \<notin> set v \<and> CHR 0x5C \<notin> set v \<and> (\<forall>c \<in> set v. 0x20 \<le> byte c \<and> byte c \<noteq> 0x7F)"

lemma safeGuardValue_element: "safeGuardValue v \<Longrightarrow> guardElement v"
proof -
  assume v: "safeGuardValue v"
  then have no: "\<forall>r \<in> set (runes v). \<not> unsafeGuardRune r" by (auto simp: safeGuardValue_def list_ex_iff split: if_splits)
  have "\<not> unsafeGuardRune (byte c)" if "c \<in> set v" for c
  proof (cases "byte c < 0x80")
    case True
    then show ?thesis using no ascii_rune [OF that] by blast
  qed (simp add: unsafeGuardRune_def)
  then have "\<forall>c \<in> set v. byte c \<noteq> byte (CHR ''/'') \<and> byte c \<noteq> 0x5C \<and> 0x20 \<le> byte c \<and> byte c \<noteq> 0x7F"
    unfolding unsafeGuardRune_def by force
  then show ?thesis using v unfolding guardElement_def safeGuardValue_def by (auto split: if_splits)
qed

text \<open>Substituting the placeholders segment by segment.\<close>

definition fillSegment :: "(string \<Rightarrow> string) \<Rightarrow> string \<Rightarrow> string" where
  "fillSegment pv seg = (if hasPrefix seg '':'' then pv (tl seg) else seg)"

definition placeholders :: "string \<Rightarrow> string list" where
  "placeholders pat = map tl (filter (\<lambda>seg. hasPrefix seg '':'') (splitOn (CHR ''/'') pat))"

lemma cutPrefix_colon: "cutPrefix seg '':'' = (if hasPrefix seg '':'' then Some (tl seg) else None)"
  by (cases seg) (simp_all add: cutPrefix_def hasPrefix_def)

lemma guardSegment_Inr:
  "guardSegment pv seg = Inr v \<longleftrightarrow> (hasPrefix seg '':'' \<longrightarrow> safeGuardValue (pv (tl seg))) \<and> v = fillSegment pv seg"
  by (auto simp: guardSegment_def cutPrefix_colon fillSegment_def)

lemma mapE_guardSegment:
  "mapE (guardSegment pv) segs = Inr vs \<longleftrightarrow>
     (\<forall>seg \<in> set segs. hasPrefix seg '':'' \<longrightarrow> safeGuardValue (pv (tl seg))) \<and> vs = map (fillSegment pv) segs"
  by (induction segs arbitrary: vs) (auto simp: bindE_eq_Inr guardSegment_Inr)

lemma resolveGuard_safe:
  "\<forall>name \<in> set (placeholders pat). safeGuardValue (pv name) \<Longrightarrow>
     resolveGuard pat pv = Inr (joinWith ''/'' (map (fillSegment pv) (splitOn (CHR ''/'') pat)))"
  using mapE_guardSegment [of pv "splitOn (CHR ''/'') pat"] by (auto simp: resolveGuard_def bindE_eq_Inr placeholders_def)

lemma resolveGuard_Inr:
  "resolveGuard pat pv = Inr g \<longleftrightarrow>
     (\<forall>name \<in> set (placeholders pat). safeGuardValue (pv name)) \<and> splitOn (CHR ''/'') g = map (fillSegment pv) (splitOn (CHR ''/'') pat)"
  (is "_ \<longleftrightarrow> ?safe \<and> ?split g")
proof -
  let ?segs = "splitOn (CHR ''/'') pat"
  have join: "\<forall>seg \<in> set (map (fillSegment pv) ?segs). CHR ''/'' \<notin> set seg" if ?safe
    using that splitOn_noSep [of _ "CHR ''/''" pat] safeGuardValue_element
    by (auto simp: fillSegment_def placeholders_def guardElement_def)
  have m: "mapE (guardSegment pv) ?segs = Inr vs \<longleftrightarrow> ?safe \<and> vs = map (fillSegment pv) ?segs" for vs
    using mapE_guardSegment by (auto simp: placeholders_def)
  have "resolveGuard pat pv = Inr g \<longleftrightarrow> ?safe \<and> g = joinWith ''/'' (map (fillSegment pv) ?segs)"
    by (auto simp: resolveGuard_def bindE_eq_Inr m)
  also have "\<dots> \<longleftrightarrow> ?safe \<and> ?split g"
    using split_join [OF _ join] join_split [of "CHR ''/''" g] by auto
  finally show ?thesis .
qed

subsection \<open>The caller's address\<close>

text \<open>An entry at which the walk over the chain stops: malformed, or an address that is no trusted proxy.\<close>

definition decisive :: "ipPrefix list \<Rightarrow> string \<Rightarrow> bool" where
  "decisive trusted e = (case parseAddr e of None \<Rightarrow> True | Some a \<Rightarrow> \<not> trusts trusted a)"

definition addressOf :: "string \<Rightarrow> string \<Rightarrow> string" where
  "addressOf host e = (case parseAddr e of None \<Rightarrow> host | Some a \<Rightarrow> showAddr a)"

definition trustedPeer :: "request \<Rightarrow> ipPrefix list \<Rightarrow> bool" where
  "trustedPeer r trusted = (case parseAddr (peerHost r) of None \<Rightarrow> False | Some a \<Rightarrow> trusts trusted a)"

lemma forwardedIP_find:
  "forwardedIP host trusted es = (case find (decisive trusted) es of None \<Rightarrow> host | Some e \<Rightarrow> addressOf host e)"
  by (induction es) (auto simp: decisive_def addressOf_def split: option.splits)

lemma clientIP_eq:
  "clientIP r trusted =
     (if trustedPeer r trusted then
        (case find (decisive trusted) (rev (forwardedChain r)) of None \<Rightarrow> peerHost r | Some e \<Rightarrow> addressOf (peerHost r) e)
      else peerHost r)"
  by (simp add: clientIP_def trustedPeer_def forwardedIP_find Let_def split: option.split)

lemma find_append: "find P (xs @ ys) = (case find P xs of Some x \<Rightarrow> Some x | None \<Rightarrow> find P ys)"
  by (induction xs) auto

lemma find_some: "x \<in> set xs \<Longrightarrow> P x \<Longrightarrow> \<exists>y. find P xs = Some y"
  by (induction xs) auto

text \<open>A proxy appends to the last header value after a comma; the entries follow each other.\<close>

lemma splitOn_append: "splitOn c (a @ c # b) = splitOn c a @ splitOn c b"
proof (induction a)
  case (Cons x a)
  then show ?case by (cases "splitOn c a") auto
qed simp

lemma splitComma_append: "splitComma (a @ '','' @ b) = splitComma a @ splitComma b"
  by (simp add: splitComma_def splitOn_append)

text \<open>What precedes the first decisive entry from the end does not matter.\<close>

lemma clientIP_suffix:
  assumes "peerHost r' = peerHost r" "forwardedChain r = front @ rear" "forwardedChain r' = front' @ rear"
    "e \<in> set rear" "decisive trusted e"
  shows "clientIP r' trusted = clientIP r trusted"
proof -
  obtain y where "find (decisive trusted) (rev rear) = Some y" using find_some [of e "rev rear" "decisive trusted"] assms(4,5) by auto
  then show ?thesis using assms(1-3) by (simp add: clientIP_eq trustedPeer_def find_append)
qed

lemma clientIP_source:
  "clientIP r trusted = peerHost r \<or>
     (\<exists>e a. e \<in> set (forwardedChain r) \<and> parseAddr e = Some a \<and> \<not> trusts trusted a \<and> clientIP r trusted = showAddr a)"
proof (cases "trustedPeer r trusted \<and> find (decisive trusted) (rev (forwardedChain r)) \<noteq> None")
  case True
  then obtain e where f: "find (decisive trusted) (rev (forwardedChain r)) = Some e" by blast
  then have e: "e \<in> set (forwardedChain r)" "decisive trusted e" by (auto simp: find_Some_iff set_conv_nth rev_nth)
  have c: "clientIP r trusted = addressOf (peerHost r) e" using True f by (simp add: clientIP_eq)
  show ?thesis using e c by (cases "parseAddr e") (auto simp: decisive_def addressOf_def)
qed (auto simp: clientIP_eq split: option.splits)

lemma clientIP_untrusted: "\<not> trustedPeer r trusted \<Longrightarrow> clientIP r trusted = peerHost r"
  by (simp add: clientIP_eq)

subsection \<open>The recorder\<close>

text \<open>
  The status on the wire: the first final status sent, or 200 when a body or a flush comes
  first, as \<open>net/http\<close> does, or 101 for a connection that was taken over.
\<close>

fun wireStatus :: "sent list \<Rightarrow> int option" where
  "wireStatus [] = None"
| "wireStatus (SentHeader s # xs) = (if isInterim s then wireStatus xs else Some s)"
| "wireStatus (SentBody b # xs) = Some 200"
| "wireStatus (SentFlush # xs) = Some 200"
| "wireStatus (SentHijack # xs) = Some 101"















text \<open>A flush that comes first is not recorded: a later error status is, although 200 was sent.\<close>

lemma early_flush_unrecorded:
  fixes st :: "'p kitStore"
  shows "recStatus (fst (recWriteHeader 500 (recFlush True (newRecorder None, st)))) = 500 \<and>
   wireStatus (recSent (fst (recWriteHeader 500 (recFlush True (newRecorder None, st))))) = Some 200"
  by (simp add: recWriteHeader_def recFlush_def newRecorder_def send_def setStatus_def isInterim_def)

subsection \<open>The single-page handler\<close>

definition cleanName :: "string \<Rightarrow> bool" where
  "cleanName name \<longleftrightarrow> (\<forall>el \<in> set (splitOn (CHR ''/'') name). el \<notin> {[], ''.'', ''..''})"

lemma rooted_plain: "el \<in> set (foldl (cleanStep True) [] (splitOn (CHR ''/'') p)) \<Longrightarrow> el \<notin> {[], ''.'', ''..''} \<and> CHR ''/'' \<notin> set el"
proof -
  assume el: "el \<in> set (foldl (cleanStep True) [] (splitOn (CHR ''/'') p))"
  have "keptOk True (foldl (cleanStep True) [] (splitOn (CHR ''/'') p))"
    by (rule keptOk_fold) (auto dest: splitOn_noSep)
  with el show ?thesis by (auto simp: keptOk_def plainEl_def)
qed

lemma spaName_clean: "spaName index p = index \<or> cleanName (spaName index p)"
proof -
  define kept where "kept = rev (foldl (cleanStep True) [] (splitOn (CHR ''/'') (''/'' @ p)))"
  have e: "trimPrefix (pathClean (''/'' @ p)) ''/'' = joinWith ''/'' kept"
    by (simp add: pathClean_def kept_def isAbs_def hasPrefix_def trimPrefix_def Let_def)
  have plain: "\<forall>el \<in> set kept. el \<notin> {[], ''.'', ''..''} \<and> CHR ''/'' \<notin> set el"
    using rooted_plain [of _ "''/'' @ p"] unfolding kept_def by auto
  show ?thesis
  proof (cases "kept = []")
    case True
    then show ?thesis using e by (simp add: spaName_def)
  next
    case False
    then have "splitOn (CHR ''/'') (joinWith ''/'' kept) = kept" using split_join plain by blast
    then show ?thesis using e plain by (simp add: spaName_def cleanName_def Let_def)
  qed
qed

lemma spa_file:
  "spa stat index immutable r = SpaFile name imm \<Longrightarrow> cleanName name \<and> stat name = Some False \<and> rqMethod r \<in> {''GET'', ''HEAD''}"
  using spaName_clean by (auto simp: spa_def serveIndex_def isFile_def Let_def split: if_splits)


subsection \<open>Properties\<close>

text \<open>
  C25: A resolved guard has the segments of its pattern: every placeholder is replaced by its path
  value, which is one element without separators, dots or control characters, and every other
  segment is unchanged. Resolution fails only on a placeholder whose value is unsafe.
\<close>

theorem guard_keeps_shape:
  "case resolveGuard pat pv of
     Inl _ \<Rightarrow> \<exists>name \<in> set (placeholders pat). \<not> safeGuardValue (pv name)
   | Inr g \<Rightarrow> list_all2 (\<lambda>seg out. if hasPrefix seg '':'' then out = pv (tl seg) \<and> guardElement out else out = seg)
       (splitOn (CHR ''/'') pat) (splitOn (CHR ''/'') g)"
proof (cases "resolveGuard pat pv")
  case (Inr g)
  then have g: "\<forall>name \<in> set (placeholders pat). safeGuardValue (pv name)"
    "splitOn (CHR ''/'') g = map (fillSegment pv) (splitOn (CHR ''/'') pat)" by (simp_all add: resolveGuard_Inr)
  then have "guardElement (pv (tl seg))" if "seg \<in> set (splitOn (CHR ''/'') pat)" "hasPrefix seg '':''" for seg
    using that safeGuardValue_element by (auto simp: placeholders_def)
  then show ?thesis using Inr g(2) by (auto simp: list_all2_map2 list_all2_same fillSegment_def)
next
  case (Inl u)
  have "resolveGuard pat pv = Inr (joinWith ''/'' (map (fillSegment pv) (splitOn (CHR ''/'') pat)))"
    if "\<forall>name \<in> set (placeholders pat). safeGuardValue (pv name)"
    using that resolveGuard_safe by blast
  with Inl show ?thesis by auto
qed

text \<open>
  C16: The address of a caller cannot be forged. Only the connection's peer counts unless it is a
  trusted proxy, and then nothing a client writes in front of a decisive entry of
  \<open>X-Forwarded-For\<close>, a malformed one or an address that is no trusted proxy, changes the result; the
  result is the peer's host or a forwarded address that is no trusted proxy.
\<close>

theorem address_not_forged:
  assumes "rqRemoteAddr r' = rqRemoteAddr r"
    "\<not> trustedPeer r trusted \<or>
     (\<exists>vs vs' front front' rear. rqHeader r ''X-Forwarded-For'' = vs @ [front @ '','' @ rear] \<and>
        rqHeader r' ''X-Forwarded-For'' = vs' @ [front' @ '','' @ rear] \<and> (\<exists>e \<in> set (splitComma rear). decisive trusted e))"
  shows "clientIP r' trusted = clientIP r trusted \<and>
    (clientIP r trusted = peerHost r \<or>
     (\<exists>e a. e \<in> set (forwardedChain r) \<and> parseAddr e = Some a \<and> \<not> trusts trusted a \<and> clientIP r trusted = showAddr a))"
proof
  have p: "peerHost r' = peerHost r" unfolding peerHost_def assms(1) ..
  show "clientIP r' trusted = clientIP r trusted"
    using assms(2)
  proof
    assume "\<not> trustedPeer r trusted"
    then show ?thesis using p by (simp add: clientIP_untrusted trustedPeer_def)
  next
    assume "\<exists>vs vs' front front' rear. rqHeader r ''X-Forwarded-For'' = vs @ [front @ '','' @ rear] \<and>
        rqHeader r' ''X-Forwarded-For'' = vs' @ [front' @ '','' @ rear] \<and> (\<exists>e \<in> set (splitComma rear). decisive trusted e)"
    then obtain vs vs' front front' rear e where h: "rqHeader r ''X-Forwarded-For'' = vs @ [front @ '','' @ rear]"
      "rqHeader r' ''X-Forwarded-For'' = vs' @ [front' @ '','' @ rear]" and e: "e \<in> set (splitComma rear)" "decisive trusted e" by blast
    have "forwardedChain r = (concat (map splitComma vs) @ splitComma front) @ splitComma rear"
      "forwardedChain r' = (concat (map splitComma vs') @ splitComma front') @ splitComma rear"
      unfolding forwardedChain_def h using splitComma_append by simp_all
    from clientIP_suffix [OF p this e] show ?thesis .
  qed
  show "clientIP r trusted = peerHost r \<or>
     (\<exists>e a. e \<in> set (forwardedChain r) \<and> parseAddr e = Some a \<and> \<not> trusts trusted a \<and> clientIP r trusted = showAddr a)"
    by (rule clientIP_source)
qed

definition forgedRequest :: "string \<Rightarrow> request" where
  "forgedRequest v = \<lparr>rqRemoteAddr = ''10.0.0.1:443'', rqHeader = (\<lambda>_. [v]), rqMethod = ''GET'', rqPath = ''/''\<rparr>"

theorem address_not_forged_witness:
  "clientIP (forgedRequest ''6.6.6.6,1.2.3.4'') (parseProxies [''10.0.0.0/8'']) = clientIP (forgedRequest '',1.2.3.4'') (parseProxies [''10.0.0.0/8''])"
proof -
  have e: "''1.2.3.4'' \<in> set (splitComma ''1.2.3.4'')" "decisive (parseProxies [''10.0.0.0/8'']) ''1.2.3.4''" by code_simp+
  have "rqHeader (forgedRequest '',1.2.3.4'') ''X-Forwarded-For'' = [] @ [[] @ '','' @ ''1.2.3.4'']"
    "rqHeader (forgedRequest ''6.6.6.6,1.2.3.4'') ''X-Forwarded-For'' = [] @ [''6.6.6.6'' @ '','' @ ''1.2.3.4'']"
    by (simp_all add: forgedRequest_def)
  with e have "\<exists>vs vs' front front' rear. rqHeader (forgedRequest '',1.2.3.4'') ''X-Forwarded-For'' = vs @ [front @ '','' @ rear] \<and>
      rqHeader (forgedRequest ''6.6.6.6,1.2.3.4'') ''X-Forwarded-For'' = vs' @ [front' @ '','' @ rear] \<and>
      (\<exists>e \<in> set (splitComma rear). decisive (parseProxies [''10.0.0.0/8'']) e)" by blast
  then show ?thesis using address_not_forged [of "forgedRequest ''6.6.6.6,1.2.3.4''" "forgedRequest '',1.2.3.4''"]
    by (simp add: forgedRequest_def)
qed




text \<open>
  The single-page handler serves a file of its directory only under a clean name: whatever the
  path of the request, no element of the name is empty, a dot or two, and the file exists.
\<close>

theorem spa_serves_clean_names:
  assumes "spa stat index immutable r = SpaFile name imm"
  shows "cleanName name \<and> stat name = Some False \<and> rqMethod r \<in> {''GET'', ''HEAD''}"
  using spa_file [OF assms] .

theorem spa_serves_clean_names_witness:
  "cleanName ''assets/app.js''"
proof -
  have "spa (\<lambda>n. if n = ''assets/app.js'' then Some False else None) [] None
      \<lparr>rqRemoteAddr = [], rqHeader = (\<lambda>_. []), rqMethod = ''GET'', rqPath = ''/../x/..//assets/./app.js''\<rparr> = SpaFile ''assets/app.js'' True"
    by code_simp
  from spa_serves_clean_names [OF this] show ?thesis by simp
qed

end
