(* ===== verification/Directories.thy ===== *)
theory Directories
  imports IrWalk GoGlob StringOrder
begin

text \<open>
  The build tool \<open>internal/onek\<close> between the compiled package and the generators: service and
  package filters (\<open>servicefilter.go\<close>, \<open>packagefilter.go\<close>), base paths (\<open>build_compile.go\<close>,
  \<open>basepath.go\<close>), the grouping of files by directory (\<open>build_compile.go\<close>) and what a directory
  depends on (\<open>packagefilter.go\<close>, \<open>incremental.go\<close>). \<open>FromSlash\<close> and \<open>ToSlash\<close> are the identity on Unix.
\<close>

subsection \<open>Filters\<close>

record serviceFilter =
  includeServices :: "string list"
  excludeServices :: "string list"
  includePackages :: "string list"
  excludePackages :: "string list"

definition filterActive :: "serviceFilter \<Rightarrow> bool" where
  "filterActive f \<longleftrightarrow> includeServices f \<noteq> [] \<or> excludeServices f \<noteq> []"

definition matchesAny :: "string list \<Rightarrow> string \<Rightarrow> bool" where
  "matchesAny patterns name = list_ex (\<lambda>p. goMatch p name = Some True) patterns"

definition keepsService :: "serviceFilter \<Rightarrow> string \<Rightarrow> bool" where
  "keepsService f name =
     (if includeServices f \<noteq> [] \<and> \<not> matchesAny (includeServices f) name then False
      else \<not> matchesAny (excludeServices f) name)"

definition applyFilter :: "serviceFilter \<Rightarrow> schemaFile \<Rightarrow> schemaFile" where
  "applyFilter f fl =
     (if \<not> filterActive f then fl else fl\<lparr>flServices := filter (\<lambda>s. keepsService f (sName s)) (flServices fl)\<rparr>)"

definition withoutRawMethods :: "service \<Rightarrow> service list" where
  "withoutRawMethods s =
     (let kept = filter (\<lambda>m. \<not> isRawHTTP m) (sMethods s) in
      if kept \<noteq> [] \<or> sMethods s = [] then [s\<lparr>sMethods := kept\<rparr>] else [])"

definition withoutRawHTTP :: "schemaFile \<Rightarrow> schemaFile" where
  "withoutRawHTTP fl =
     (if \<not> list_ex (\<lambda>s. list_ex isRawHTTP (sMethods s)) (flServices fl) then fl
      else fl\<lparr>flServices := concat (map withoutRawMethods (flServices fl))\<rparr>)"

definition applyPortable :: "serviceFilter \<Rightarrow> schemaFile \<Rightarrow> schemaFile" where
  "applyPortable f fl = withoutRawHTTP (applyFilter f fl)"

definition packageLabel :: "string \<Rightarrow> string" where
  "packageLabel relDir = (if relDir = [] then ''.'' else relDir)"

definition packageFilterActive :: "serviceFilter \<Rightarrow> bool" where
  "packageFilterActive f \<longleftrightarrow> includePackages f \<noteq> [] \<or> excludePackages f \<noteq> []"

definition keepsPackage :: "serviceFilter \<Rightarrow> string \<Rightarrow> bool" where
  "keepsPackage f relDir =
     (let label = packageLabel relDir in
      if includePackages f \<noteq> [] \<and> \<not> matchesAny (includePackages f) label then False
      else \<not> matchesAny (excludePackages f) label)"

text \<open>A filter of an absent target keeps nothing.\<close>

definition keepsPackageOf :: "serviceFilter option \<Rightarrow> string \<Rightarrow> bool" where
  "keepsPackageOf f relDir = (case f of None \<Rightarrow> False | Some g \<Rightarrow> keepsPackage g relDir)"

text \<open>The loops over the two pattern lists of a filter, with the name of the setting.\<close>

type_synonym buildError = "string \<times> string list"

definition badPattern :: "string \<Rightarrow> string \<times> string list \<Rightarrow> buildError + unit" where
  "badPattern target setting =
     (case find (\<lambda>p. goMatch p [] = None) (snd setting) of
        Some p \<Rightarrow> Inl (''invalid pattern'', [target, fst setting, p]) | None \<Rightarrow> Inr ())"

definition serviceSettings :: "serviceFilter \<Rightarrow> (string \<times> string list) list" where
  "serviceSettings f = [(''include_services'', includeServices f), (''exclude_services'', excludeServices f)]"

definition packageSettings :: "serviceFilter \<Rightarrow> (string \<times> string list) list" where
  "packageSettings f = [(''include_packages'', includePackages f), (''exclude_packages'', excludePackages f)]"

definition validatePackagePatterns :: "string \<Rightarrow> serviceFilter \<Rightarrow> buildError + unit" where
  "validatePackagePatterns target f = bindE (mapE (badPattern target) (packageSettings f)) (\<lambda>_. Inr ())"

definition validateFilter :: "string \<Rightarrow> serviceFilter \<Rightarrow> buildError + unit" where
  "validateFilter target f =
     bindE (mapE (badPattern target) (serviceSettings f)) (\<lambda>_. validatePackagePatterns target f)"

subsection \<open>Base paths\<close>

definition inferBasePath :: "string \<Rightarrow> string" where
  "inferBasePath relDir =
     (if relDir = ''.'' \<or> relDir = [] then ''/''
      else ''/'' @ joinWith ''/'' (map (map (\<lambda>c. if c = CHR ''_'' then CHR ''-'' else c)) (splitOn (CHR ''/'') relDir)))"

definition normalizeBasePath :: "string \<Rightarrow> string" where
  "normalizeBasePath p = (if p = ''/'' then [] else p)"

definition relDirOf :: "string \<Rightarrow> schemaFile \<Rightarrow> buildError + string" where
  "relDirOf top1 fl =
     (case filepathRel top1 (pathDir (flPath fl)) of
        Some rel \<Rightarrow> Inr rel | None \<Rightarrow> Inl (''compute relative dir'', [flPath fl]))"

definition defaultBasePath :: "string \<Rightarrow> service \<Rightarrow> service" where
  "defaultBasePath rel s =
     (if sBasePath s = [] then s\<lparr>sBasePath := normalizeBasePath (inferBasePath rel)\<rparr> else s)"

definition applyDefaultBasePath :: "string \<Rightarrow> schemaFile \<Rightarrow> buildError + schemaFile" where
  "applyDefaultBasePath top1 fl =
     (if flServices fl = [] then Inr fl
      else bindE (relDirOf top1 fl) (\<lambda>rel. Inr (fl\<lparr>flServices := map (defaultBasePath rel) (flServices fl)\<rparr>)))"

definition applyDefaultBasePaths :: "schema \<Rightarrow> string \<Rightarrow> buildError + schema" where
  "applyDefaultBasePaths S top1 =
     bindE (mapE (applyDefaultBasePath top1) (schFiles S)) (\<lambda>fs. Inr (S\<lparr>schFiles := fs\<rparr>))"

definition applyRoutePrefix :: "schema \<Rightarrow> string \<Rightarrow> schema" where
  "applyRoutePrefix S pre = S\<lparr>schFiles := map (\<lambda>fl. fl\<lparr>flServices := map (\<lambda>s.
     s\<lparr>sBasePath := (if pre \<noteq> [] then pre @ normalizeBasePath (sBasePath s) else normalizeBasePath (sBasePath s))\<rparr>)
     (flServices fl)\<rparr>) (schFiles S)\<rparr>"

subsection \<open>Directories\<close>

text \<open>One compiled schema directory with its files merged into one, \<open>sourceGroup\<close>.\<close>

record sourceGroup =
  grDir :: string
  grFile :: schemaFile

record sourceIndex =
  siGroups :: "sourceGroup list"
  siMsgDir :: "mref \<rightharpoonup> string"
  siEnumDir :: "eref \<rightharpoonup> string"
  siUnchanged :: "string set"

definition emptyIndex :: sourceIndex where
  "emptyIndex = \<lparr>siGroups = [], siMsgDir = (\<lambda>_. None), siEnumDir = (\<lambda>_. None), siUnchanged = {}\<rparr>"

text \<open>
  \<open>indexMessage\<close> walks the nested messages; \<open>None\<close> when the levels are used up. A parent is declared
  before its nested messages, so as many levels as there are messages are enough.
\<close>

fun foldO :: "('a \<Rightarrow> 's \<Rightarrow> 's option) \<Rightarrow> 'a list \<Rightarrow> 's \<Rightarrow> 's option" where
  "foldO f [] s = Some s"
| "foldO f (x # xs) s = (case f x s of None \<Rightarrow> None | Some t \<Rightarrow> foldO f xs t)"

fun indexMessage :: "nat \<Rightarrow> schema \<Rightarrow> string \<Rightarrow> mref \<Rightarrow> sourceIndex \<Rightarrow> sourceIndex option" where
  "indexMessage 0 S dir r idx = None"
| "indexMessage (Suc k) S dir r idx =
     (case foldO (indexMessage k S dir) (mNested (msgAt S r)) (idx\<lparr>siMsgDir := (siMsgDir idx)(r \<mapsto> dir)\<rparr>) of
        None \<Rightarrow> None
      | Some t \<Rightarrow> Some (t\<lparr>siEnumDir := (\<lambda>e. if e \<in> set (mNestedEnums (msgAt S r)) then Some dir else siEnumDir t e)\<rparr>))"

definition mergeFile :: "schemaFile \<Rightarrow> schemaFile \<Rightarrow> schemaFile" where
  "mergeFile merged fl = merged\<lparr>flMessages := flMessages merged @ flMessages fl,
     flEnums := flEnums merged @ flEnums fl, flServices := flServices merged @ flServices fl\<rparr>"

definition emptyFile :: schemaFile where
  "emptyFile = \<lparr>flPath = [], flPackage = [], flImports = [], flMessages = [], flEnums = [], flServices = []\<rparr>"

text \<open>The state of the loop over the files: the index and the merged file of every directory met.\<close>

type_synonym grouping = "sourceIndex \<times> (string \<times> schemaFile) list"

definition addToDir :: "string \<Rightarrow> schemaFile \<Rightarrow> (string \<times> schemaFile) list \<Rightarrow> (string \<times> schemaFile) list" where
  "addToDir rel fl byDir =
     (if rel \<in> set (map fst byDir) then map (\<lambda>(d, m). if d = rel then (d, mergeFile m fl) else (d, m)) byDir
      else byDir @ [(rel, mergeFile emptyFile fl)])"

text \<open>\<open>Inl None\<close> is a walk that does not return.\<close>

definition groupFile :: "schema \<Rightarrow> string \<Rightarrow> schemaFile \<Rightarrow> grouping \<Rightarrow> buildError option + grouping" where
  "groupFile S top1 fl g =
     (case relDirOf top1 fl of
        Inl e \<Rightarrow> Inl (Some e)
      | Inr rel \<Rightarrow>
          (case foldO (indexMessage (length (schMessages S)) S rel) (flMessages fl) (fst g) of
             None \<Rightarrow> Inl None
           | Some t \<Rightarrow>
               Inr (t\<lparr>siEnumDir := (\<lambda>e. if e \<in> set (flEnums fl) then Some rel else siEnumDir t e)\<rparr>,
                    addToDir rel fl (snd g))))"

fun foldS :: "('a \<Rightarrow> 's \<Rightarrow> 'e + 's) \<Rightarrow> 'a list \<Rightarrow> 's \<Rightarrow> 'e + 's" where
  "foldS f [] s = Inr s"
| "foldS f (x # xs) s = bindE (f x s) (foldS f xs)"

text \<open>
  The back links of a merged file's own declarations point at the merged file. Merged files have
  the references after the package's own files.
\<close>

definition repoint :: "(string \<times> schemaFile) list \<Rightarrow> schema \<Rightarrow> schema" where
  "repoint dirs S =
     (let n = length (schFiles S);
          home = (\<lambda>P. map_option (\<lambda>(i, _). n + i) (find (\<lambda>(i, d, m). P m) (enumerate 0 dirs))) in
      S\<lparr>schMessages := map (\<lambda>(r, m). case home (\<lambda>f. r \<in> set (flMessages f)) of
            Some i \<Rightarrow> m\<lparr>mFile := Some i\<rparr> | None \<Rightarrow> m) (enumerate 0 (schMessages S)),
        schEnums := map (\<lambda>(r, e). case home (\<lambda>f. r \<in> set (flEnums f)) of
            Some i \<Rightarrow> e\<lparr>enFile := Some i\<rparr> | None \<Rightarrow> e) (enumerate 0 (schEnums S)),
        schFiles := schFiles S @ map snd dirs\<rparr>)"

definition groupByDirectory :: "schema \<Rightarrow> string \<Rightarrow> buildError option + (sourceIndex \<times> schema)" where
  "groupByDirectory S top1 =
     bindE (foldS (groupFile S top1) (schFiles S) (emptyIndex, [])) (\<lambda>(idx, byDir).
       let dirs = map (\<lambda>d. (d, the (map_of byDir d))) (sort (map fst byDir)) in
       Inr (idx\<lparr>siGroups := map (\<lambda>(d, m). \<lparr>grDir = d, grFile = m\<rparr>) dirs\<rparr>, repoint dirs S))"

definition indexHasWS :: "sourceIndex \<Rightarrow> bool" where
  "indexHasWS idx = list_ex (\<lambda>g. fileHasWSMethods (grFile g)) (siGroups idx)"

definition keeping :: "(string \<Rightarrow> bool) \<Rightarrow> sourceIndex \<Rightarrow> sourceIndex" where
  "keeping keep idx = idx\<lparr>siGroups := filter (\<lambda>g. keep (grDir g)) (siGroups idx)\<rparr>"

definition viewOf :: "serviceFilter \<Rightarrow> sourceIndex \<Rightarrow> sourceIndex" where
  "viewOf f idx = (if \<not> packageFilterActive f then idx else keeping (keepsPackage f) idx)"

text \<open>A pattern that matches nothing is reported.\<close>

definition unmatched :: "string \<Rightarrow> string \<Rightarrow> string list \<Rightarrow> string \<times> string list \<Rightarrow> buildError + unit" where
  "unmatched target noun names setting =
     (case find (\<lambda>p. \<not> list_ex (\<lambda>n. goMatch p n = Some True) names) (snd setting) of
        Some p \<Rightarrow> Inl (''pattern matches no '' @ noun, [target, fst setting, p]) | None \<Rightarrow> Inr ())"

definition checkMatches :: "string \<Rightarrow> sourceIndex \<Rightarrow> serviceFilter \<Rightarrow> buildError + unit" where
  "checkMatches target idx f =
     bindE (mapE (unmatched target ''service'' (concat (map (\<lambda>g. map sName (flServices (grFile g))) (siGroups idx))))
       (serviceSettings f)) (\<lambda>_. Inr ())"

definition checkPackageMatches :: "string \<Rightarrow> sourceIndex \<Rightarrow> serviceFilter \<Rightarrow> buildError + unit" where
  "checkPackageMatches target idx f =
     bindE (mapE (unmatched target ''package'' (map (\<lambda>g. packageLabel (grDir g)) (siGroups idx)))
       (packageSettings f)) (\<lambda>_. Inr ())"

subsection \<open>Walks over what a directory uses\<close>

text \<open>
  A walk visits messages once and enums every time they are met, and notes what it visits in a
  state of its own. \<open>children\<close> lists what a message's visit goes on to. \<open>None\<close> when the levels are
  used up.
\<close>

datatype declItem = DMsg mref | DEnum eref

fun visitItem :: "(mref \<Rightarrow> declItem list) \<Rightarrow> (declItem \<Rightarrow> 's \<Rightarrow> 's) \<Rightarrow> nat \<Rightarrow> declItem \<Rightarrow>
    mref list \<times> 's \<Rightarrow> (mref list \<times> 's) option" where
  "visitItem children note1 0 x st = None"
| "visitItem children note1 (Suc k) (DEnum e) (seen, s) = Some (seen, note1 (DEnum e) s)"
| "visitItem children note1 (Suc k) (DMsg r) (seen, s) =
     (if r \<in> set seen then Some (seen, s)
      else foldO (visitItem children note1 k) (children r) (r # seen, note1 (DMsg r) s))"

fun typeItems :: "irType \<Rightarrow> declItem list" where
  "typeItems (TScalar k) = []"
| "typeItems (TMessage r) = [DMsg r]"
| "typeItems (TEnum e) = [DEnum e]"
| "typeItems (TMap k v) = typeItems v"

definition optItems :: "irType option \<Rightarrow> declItem list" where
  "optItems t = (case t of None \<Rightarrow> [] | Some u \<Rightarrow> typeItems u)"

definition fieldItems :: "field \<Rightarrow> declItem list" where
  "fieldItems f = optItems (fType f) @
     (case fOneof f of None \<Rightarrow> [] | Some o1 \<Rightarrow> concat (map (\<lambda>v. optItems (vType v)) (oVariants o1)))"

definition fieldsItems :: "schema \<Rightarrow> mref \<Rightarrow> declItem list" where
  "fieldsItems S r = concat (map fieldItems (mFields (msgAt S r)))"

definition refItems :: "mref option \<Rightarrow> declItem list" where
  "refItems m = (case m of None \<Rightarrow> [] | Some r \<Rightarrow> [DMsg r])"

text \<open>The messages \<open>checkGroupRefs\<close> starts from.\<close>

definition refRoots :: "schemaFile \<Rightarrow> declItem list" where
  "refRoots fl = map DMsg (flMessages fl) @
     concat (map (\<lambda>s. concat (map (\<lambda>m. refItems (rRequest m) @ refItems (rResponse m) @ map DMsg (rErrorTypes m))
       (sMethods s))) (flServices fl))"

definition itemDir :: "sourceIndex \<Rightarrow> declItem \<Rightarrow> string option" where
  "itemDir idx x = (case x of DMsg r \<Rightarrow> siMsgDir idx r | DEnum e \<Rightarrow> siEnumDir idx e)"

definition itemName :: "schema \<Rightarrow> declItem \<Rightarrow> string" where
  "itemName S x = (case x of DMsg r \<Rightarrow> mName (msgAt S r) | DEnum e \<Rightarrow> enName (enumAt S e))"

definition leftOut :: "string set \<Rightarrow> string \<Rightarrow> bool" where
  "leftOut kept dir \<longleftrightarrow> dir \<noteq> [] \<and> packageLabel dir \<notin> kept"

definition noteRef :: "schema \<Rightarrow> sourceIndex \<Rightarrow> string set \<Rightarrow> string \<Rightarrow> string \<Rightarrow> declItem \<Rightarrow> buildError option \<Rightarrow> buildError option" where
  "noteRef S idx kept target from1 x failed =
     (case itemDir idx x of
        None \<Rightarrow> failed
      | Some dir \<Rightarrow>
          if failed = None \<and> leftOut kept dir
          then Some (''%s: package %s uses %s from package %s'', [target, from1, itemName S x, packageLabel dir]) else failed)"

definition checkGroupRefs :: "schema \<Rightarrow> sourceIndex \<Rightarrow> string \<Rightarrow> string set \<Rightarrow> sourceGroup \<Rightarrow> buildError option option" where
  "checkGroupRefs S idx target kept g =
     map_option snd (foldO (visitItem (fieldsItems S) (noteRef S idx kept target (packageLabel (grDir g)))
       (Suc (Suc (length (schMessages S))))) (refRoots (grFile g)) ([], None))"

fun firstFailure :: "('a \<Rightarrow> 'e option option) \<Rightarrow> 'a list \<Rightarrow> 'e option option" where
  "firstFailure f [] = Some None"
| "firstFailure f (x # xs) = (case f x of None \<Rightarrow> None | Some (Some e) \<Rightarrow> Some (Some e) | Some None \<Rightarrow> firstFailure f xs)"

definition checkSelfContained :: "schema \<Rightarrow> sourceIndex \<Rightarrow> string \<Rightarrow> sourceIndex \<Rightarrow> buildError option option" where
  "checkSelfContained S idx target view =
     (if length (siGroups view) = length (siGroups idx) then Some None
      else
        let kept = set (map (\<lambda>g. packageLabel (grDir g)) (siGroups view)) in
        firstFailure (checkGroupRefs S idx target kept) (siGroups view))"

text \<open>What \<open>groupDependencies\<close> follows: nested declarations too, but nothing behind a message without a directory.\<close>

definition depItems :: "schema \<Rightarrow> sourceIndex \<Rightarrow> mref \<Rightarrow> declItem list" where
  "depItems S idx r =
     (if siMsgDir idx r = None then []
      else fieldsItems S r @ map DMsg (mNested (msgAt S r)) @ map DEnum (mNestedEnums (msgAt S r)))"

definition depRoots :: "schemaFile \<Rightarrow> declItem list" where
  "depRoots fl = map DMsg (flMessages fl) @ map DEnum (flEnums fl) @
     concat (map (\<lambda>s. concat (map (\<lambda>m. refItems (rRequest m) @ refItems (rResponse m) @ refItems (rPrincipal m) @
       map DMsg (rErrorTypes m)) (sMethods s))) (flServices fl))"

definition noteDir :: "sourceIndex \<Rightarrow> declItem \<Rightarrow> string set \<times> bool \<Rightarrow> string set \<times> bool" where
  "noteDir idx x p =
     (case itemDir idx x of None \<Rightarrow> (fst p, False) | Some dir \<Rightarrow> (insert dir (fst p), snd p))"

definition groupDependencies :: "schema \<Rightarrow> sourceIndex \<Rightarrow> sourceGroup \<Rightarrow> (string list \<times> bool) option" where
  "groupDependencies S idx g =
     map_option (\<lambda>(_, dirs, ok). (sorted_list_of_set (dirs - {grDir g}), ok))
       (foldO (visitItem (depItems S idx) (noteDir idx) (Suc (Suc (length (schMessages S))))) (depRoots (grFile g)) ([], {}, True))"

subsection \<open>Import aliases\<close>

definition aliasChar :: "rune \<Rightarrow> bool" where
  "aliasChar r \<longleftrightarrow> 97 \<le> r \<and> r \<le> 122 \<or> 65 \<le> r \<and> r \<le> 90 \<or> 48 \<le> r \<and> r \<le> 57 \<or> r = 95"

definition aliasSegment :: "string \<Rightarrow> string" where
  "aliasSegment seg = map (\<lambda>r. if aliasChar r then chr r else CHR ''_'') (runes seg)"

definition goKeywords :: "string list" where
  "goKeywords = [''break'', ''default'', ''func'', ''interface'', ''select'', ''case'', ''defer'', ''go'', ''map'', ''struct'',
     ''chan'', ''else'', ''goto'', ''package'', ''switch'', ''const'', ''fallthrough'', ''if'', ''range'', ''type'',
     ''continue'', ''for'', ''import'', ''return'', ''var'']"

definition digitFirst :: "string \<Rightarrow> bool" where
  "digitFirst s = (case s of [] \<Rightarrow> False | c # _ \<Rightarrow> 48 \<le> byte c \<and> byte c \<le> 57)"

definition goPackageAlias :: "string \<Rightarrow> string" where
  "goPackageAlias relDir =
     (if relDir = ''.'' \<or> relDir = [] then ''root''
      else
        let alias = joinWith ''_'' (map aliasSegment (splitOn (CHR ''/'') relDir)) in
        if alias = [] then ''root''
        else
          let alias1 = (if digitFirst alias then ''pkg_'' @ alias else alias) in
          if alias1 \<in> set goKeywords then ''pkg_'' @ alias1 else alias1)"

definition goImportPath :: "string \<Rightarrow> string \<Rightarrow> string" where
  "goImportPath goModule relDir =
     (if goModule = [] \<or> relDir = ''.'' \<or> relDir = [] then goModule else goModule @ ''/'' @ relDir)"

definition buildGoPackageRefs :: "string \<Rightarrow> sourceGroup list \<Rightarrow> (string \<rightharpoonup> string \<times> string)" where
  "buildGoPackageRefs goModule groups =
     map_of (rev (map (\<lambda>g. (grDir g, goPackageAlias (grDir g), goImportPath goModule (grDir g))) groups))"

definition resolveGo :: "sourceIndex \<Rightarrow> (string \<rightharpoonup> string \<times> string) \<Rightarrow> string \<Rightarrow> declItem \<Rightarrow> (string \<times> string) option" where
  "resolveGo idx packages currentDir x =
     (case itemDir idx x of
        None \<Rightarrow> None | Some dir \<Rightarrow> if dir = currentDir then None else packages dir)"


subsection \<open>References of the generated Go code\<close>

text \<open>
  \<open>internal/gengo/resolver.go\<close>: the declarations whose names the generated types print, nested
  messages included, and those the services print. A package reference is an alias and an import
  path; the distinct ones are sorted by path.
\<close>

fun concatO :: "'a list option list \<Rightarrow> 'a list option" where
  "concatO [] = Some []"
| "concatO (x # xs) = (case x of None \<Rightarrow> None | Some a \<Rightarrow> map_option (\<lambda>b. a @ b) (concatO xs))"

definition printedFieldItems :: "field \<Rightarrow> declItem list" where
  "printedFieldItems f =
     (case fOneof f of Some o1 \<Rightarrow> concat (map (\<lambda>v. optItems (vType v)) (oVariants o1)) | None \<Rightarrow> optItems (fType f))"

fun printedItems :: "nat \<Rightarrow> schema \<Rightarrow> mref \<Rightarrow> declItem list option" where
  "printedItems 0 S r = None"
| "printedItems (Suc k) S r =
     (case concatO (map (printedItems k S) (mNested (msgAt S r))) of
        None \<Rightarrow> None
      | Some inner \<Rightarrow> Some (concat (map printedFieldItems (mFields (msgAt S r))) @ inner @ map DEnum (mNestedEnums (msgAt S r))))"

definition collectExternalItems :: "schema \<Rightarrow> schemaFile \<Rightarrow> declItem list option" where
  "collectExternalItems S fl = concatO (map (printedItems (Suc (length (schMessages S))) S) (flMessages fl))"

definition collectServiceItems :: "schemaFile \<Rightarrow> declItem list" where
  "collectServiceItems fl = concat (map (\<lambda>s. concat (map (\<lambda>m. refItems (rRequest m) @ refItems (rResponse m) @
     refItems (rPrincipal m) @ map DMsg (rErrorTypes m)) (sMethods s))) (flServices fl))"

definition externalRefs :: "(declItem \<Rightarrow> (string \<times> string) option) \<Rightarrow> declItem list \<Rightarrow> (string \<times> string) list" where
  "externalRefs resolve items = sort_key snd (rev (remdups (rev (List.map_filter resolve items))))"

end
