(* ===== verification/Incremental.thy ===== *)
theory Incremental
  imports Directories GoNet
begin

text \<open>
  Which directories a build may skip: \<open>incremental.go\<close>, \<open>buildcache.go\<close> and the expected outputs of
  \<open>build_manifest.go\<close>, with the configuration records of \<open>config.go\<close>. The hash function \<open>sha256.Sum256\<close> is
  an argument \<open>sha\<close> from texts to digests. A disk is what \<open>Lstat\<close> and \<open>ReadFile\<close> see of it; a path whose
  inspection fails is one that is missing, which is how the code treats it.
\<close>

subsection \<open>Configuration\<close>

record targetConfig =
  tgOut :: string
  tgFilter :: serviceFilter

record runtimeConfig =
  rtOut :: string
  rtRuntime :: string
  rtRuntimeDir :: string
  rtMSW :: bool
  rtFilter :: serviceFilter

record generateConfig =
  goServer :: "runtimeConfig option"
  goClient :: "targetConfig option"
  tsClient :: "runtimeConfig option"
  tsServer :: "targetConfig option"
  pythonClient :: "targetConfig option"
  dartClient :: "targetConfig option"
  swiftClient :: "targetConfig option"
  rustClient :: "targetConfig option"
  rustServer :: "targetConfig option"
  openAPI :: "targetConfig option"

record buildConfig =
  bcDir :: string
  bcGenerate :: generateConfig

definition resolvePath :: "buildConfig \<Rightarrow> string \<Rightarrow> string" where
  "resolvePath cfg p = (if isAbs p then p else pathJoin (bcDir cfg) p)"

definition sharedRuntimeDir :: "runtimeConfig option \<Rightarrow> string option" where
  "sharedRuntimeDir c =
     (case c of
        None \<Rightarrow> None
      | Some t \<Rightarrow>
          if rtRuntime t \<noteq> ''shared'' then None
          else if rtRuntimeDir t = [] then Some ''onekitrt'' else Some (pathClean (rtRuntimeDir t)))"

definition validateRuntimeOptions :: "string \<Rightarrow> string \<Rightarrow> string \<Rightarrow> buildError + unit" where
  "validateRuntimeOptions target runtime dir =
     (if runtime = [] \<or> runtime = ''package'' then
        (if dir \<noteq> [] then Inl (''runtime_dir needs runtime = shared'', [target]) else Inr ())
      else if runtime \<noteq> ''shared'' then Inl (''runtime must be package or shared'', [target, runtime])
      else if dir = [] then Inr ()
      else if isAbs dir \<or> dir = ''..'' \<or> hasPrefix dir ''../'' \<or> containsStr dir ''/../'' \<or> dir = ''.''
      then Inl (''runtime_dir must be a directory inside the output path'', [target, dir])
      else Inr ())"

definition routePrefixRune :: "rune \<Rightarrow> bool" where
  "routePrefixRune r \<longleftrightarrow> 97 \<le> r \<and> r \<le> 122 \<or> 65 \<le> r \<and> r \<le> 90 \<or> 48 \<le> r \<and> r \<le> 57 \<or>
     r \<in> set (map byte (''-._~!$&()*+,;=:@'' @ [chr 39]))"

definition validateRoutePrefix :: "string \<Rightarrow> buildError + unit" where
  "validateRoutePrefix pre =
     (if pre = [] then Inr ()
      else if \<not> hasPrefix pre ''/'' then Inl (''route_prefix must start with /'', [])
      else if pre = ''/'' then Inl (''route_prefix must not be /; omit it instead'', [])
      else if hasSuffix pre ''/'' then Inl (''route_prefix must not end with /'', [])
      else if pathClean pre \<noteq> pre \<or> (\<exists>c \<in> set pre. c \<in> set (''?#%{}'' @ [chr 92, chr 34, chr 13, chr 10, chr 9]))
      then Inl (''route_prefix must be a canonical literal URL path'', [])
      else if list_all (\<lambda>seg. list_all routePrefixRune (runes seg)) (splitOn (CHR ''/'') (trimPrefix pre ''/''))
      then Inr () else Inl (''route_prefix contains a character which is not allowed in a URL path'', []))"

subsection \<open>Expected outputs of a directory\<close>

text \<open>An expected output is its cleaned root and its cleaned path below it.\<close>

definition expectOut :: "string \<Rightarrow> string \<Rightarrow> string \<times> string" where
  "expectOut top1 rel = (pathClean top1, pathClean rel)"

definition goFilters :: "buildConfig \<Rightarrow> serviceFilter option \<times> serviceFilter option" where
  "goFilters cfg = (map_option rtFilter (goServer (bcGenerate cfg)), map_option tgFilter (goClient (bcGenerate cfg)))"

definition goOutputs :: "buildConfig \<Rightarrow> string \<Rightarrow> string \<Rightarrow> (string \<times> string) list" where
  "goOutputs cfg rel relDir =
     (let (server, client) = goFilters cfg;
          serverKept = keepsPackageOf server relDir; clientKept = keepsPackageOf client relDir;
          out = (case goServer (bcGenerate cfg) of Some t \<Rightarrow> rtOut t
                 | None \<Rightarrow> (case goClient (bcGenerate cfg) of Some t \<Rightarrow> tgOut t | None \<Rightarrow> []));
          file = (\<lambda>name. expectOut (resolvePath cfg out) (pathJoin rel name)) in
      if \<not> serverKept \<and> \<not> clientKept then []
      else [file ''types.gen.go'', file ''validate.gen.go''] @ (if serverKept then [file ''server.gen.go''] else []) @
        (if clientKept then [file ''client.gen.go''] else []))"

definition tsOutputs :: "buildConfig \<Rightarrow> string \<Rightarrow> string \<Rightarrow> (string \<times> string) list" where
  "tsOutputs cfg rel relDir =
     (case tsClient (bcGenerate cfg) of
        Some t \<Rightarrow>
          if keepsPackage (rtFilter t) relDir then
            (let top1 = resolvePath cfg (rtOut t) in
             (case sharedRuntimeDir (Some t) of Some d \<Rightarrow> [expectOut top1 (pathJoin d ''runtime.ts'')] | None \<Rightarrow> []) @
             [expectOut top1 (pathJoin rel ''types.ts''), expectOut top1 (pathJoin rel ''client.ts'')] @
             (if rtMSW t then [expectOut top1 (pathJoin rel ''msw.ts'')] else []))
          else []
      | None \<Rightarrow> []) @
     (case tsServer (bcGenerate cfg) of
        Some t \<Rightarrow>
          if keepsPackage (tgFilter t) relDir then
            (let top1 = resolvePath cfg (tgOut t) in
             [expectOut top1 (pathJoin rel ''types.ts''), expectOut top1 (pathJoin rel ''server.ts'')])
          else []
      | None \<Rightarrow> [])"

definition pythonKeywords :: "string list" where
  "pythonKeywords = [''match'', ''case'', ''False'', ''None'', ''True'', ''and'', ''as'', ''assert'', ''async'', ''await'', ''break'',
     ''class'', ''continue'', ''def'', ''del'', ''elif'', ''else'', ''except'', ''finally'', ''for'', ''from'', ''global'', ''if'',
     ''import'', ''in'', ''is'', ''lambda'', ''nonlocal'', ''not'', ''or'', ''pass'', ''raise'', ''return'', ''try'', ''while'', ''with'',
     ''yield'']"

definition pythonModuleSegment :: "string \<Rightarrow> string" where
  "pythonModuleSegment value1 =
     (let s0 = aliasSegment value1; s1 = (if s0 = [] then ''pkg'' else s0);
          s2 = (if digitFirst s1 then ''pkg_'' @ s1 else s1) in
      if s2 \<in> set pythonKeywords then s2 @ ''_'' else s2)"

definition pythonRelDir :: "string \<Rightarrow> string" where
  "pythonRelDir relDir =
     (if relDir = ''.'' \<or> relDir = [] then relDir
      else joinWith ''/'' (map pythonModuleSegment (splitOn (CHR ''/'') relDir)))"

text \<open>The loop over the parents of a directory, up to the top.\<close>

fun parentDirs :: "nat \<Rightarrow> string \<Rightarrow> string list" where
  "parentDirs 0 d = []"
| "parentDirs (Suc k) d = (if d = ''.'' \<or> d = [] then [] else d # parentDirs k (pathDir d))"

definition pythonOutputs :: "buildConfig \<Rightarrow> string \<Rightarrow> string \<Rightarrow> (string \<times> string) list" where
  "pythonOutputs cfg rel relDir =
     (case pythonClient (bcGenerate cfg) of
        None \<Rightarrow> []
      | Some t \<Rightarrow>
          if \<not> keepsPackage (tgFilter t) relDir then []
          else
            let top1 = resolvePath cfg (tgOut t); pyRel = pythonRelDir rel in
            [expectOut top1 ''__init__.py'', expectOut top1 (pathJoin pyRel ''models.py''),
             expectOut top1 (pathJoin pyRel ''client.py'')] @
            map (\<lambda>d. expectOut top1 (pathJoin d ''__init__.py'')) (parentDirs (length pyRel) pyRel))"

definition filteredGroup :: "sourceGroup \<Rightarrow> serviceFilter \<Rightarrow> sourceGroup" where
  "filteredGroup g f = g\<lparr>grFile := applyFilter f (grFile g)\<rparr>"

definition openAPIBasePath :: "sourceGroup \<Rightarrow> service \<Rightarrow> string" where
  "openAPIBasePath g s =
     pathJoin (grDir g) (if length (flServices (grFile g)) > 1 then sName s @ ''.openapi'' else ''openapi'')"

definition openAPIOutputs :: "buildConfig \<Rightarrow> sourceGroup \<Rightarrow> (string \<times> string) list" where
  "openAPIOutputs cfg full =
     (case openAPI (bcGenerate cfg) of
        None \<Rightarrow> []
      | Some t \<Rightarrow>
          let g = filteredGroup full (tgFilter t) in
          concat (map (\<lambda>s. let base = openAPIBasePath g s; top1 = resolvePath cfg (tgOut t) in
            [expectOut top1 (base @ ''.yaml''), expectOut top1 (base @ ''.json'')]) (flServices (grFile g))))"

definition expectedGroupOutputs :: "buildConfig \<Rightarrow> sourceGroup \<Rightarrow> string list" where
  "expectedGroupOutputs cfg g =
     (let rel = (if grDir g = ''.'' then [] else grDir g) in
      sort (map (\<lambda>(top1, file). pathJoin top1 file)
        (remdups (goOutputs cfg rel (grDir g) @ tsOutputs cfg rel (grDir g) @ pythonOutputs cfg rel (grDir g) @ openAPIOutputs cfg g))))"

subsection \<open>Fingerprints\<close>

definition hexEncode :: "string \<Rightarrow> string" where
  "hexEncode s = concat (map (\<lambda>c. [''0123456789abcdef'' ! (byte c div 16), ''0123456789abcdef'' ! (byte c mod 16)]) s)"

fun hexDecode :: "string \<Rightarrow> string option" where
  "hexDecode [] = Some []"
| "hexDecode [c] = None"
| "hexDecode (c # d # s) =
     (case (hexNibble c, hexNibble d) of
        (Some a, Some b) \<Rightarrow> map_option (\<lambda>t. chr (16 * a + b) # t) (hexDecode s)
      | _ \<Rightarrow> None)"

type_synonym hashList = "(string \<times> string) list"

definition hashText :: "hashList \<Rightarrow> string" where
  "hashText parts = concat (map (\<lambda>(k, v). k @ [CHR 0x00] @ v @ [CHR 0x00]) parts)"

text \<open>\<open>sort.Slice\<close> by key; with equal keys the order of adding, as its insertion sort keeps it.\<close>

definition hashSum :: "(string \<Rightarrow> string) \<Rightarrow> hashList \<Rightarrow> string" where
  "hashSum sha parts = hexEncode (sha (hashText (sort_key fst parts)))"

fun mapO :: "('a \<Rightarrow> 'b option) \<Rightarrow> 'a list \<Rightarrow> 'b list option" where
  "mapO f [] = Some []"
| "mapO f (x # xs) = (case f x of None \<Rightarrow> None | Some y \<Rightarrow> map_option ((#) y) (mapO f xs))"

type_synonym fileSums = "string \<rightharpoonup> string"

definition fileEntry :: "string \<Rightarrow> fileSums \<Rightarrow> schemaFile \<Rightarrow> (string \<times> string \<times> string) option" where
  "fileEntry top1 digests fl =
     (case relDirOf top1 fl of
        Inl _ \<Rightarrow> None
      | Inr rel \<Rightarrow> map_option (\<lambda>s. (rel, pathBase (flPath fl), s)) (digests (pathClean (flPath fl))))"

definition ownFiles :: "(string \<times> string \<times> string) list \<Rightarrow> string \<Rightarrow> hashList" where
  "ownFiles entries dir = map snd (filter (\<lambda>e. fst e = dir) entries)"

definition groupDirs :: "sourceIndex \<Rightarrow> string list" where "groupDirs idx = map grDir (siGroups idx)"

definition ownHash :: "(string \<Rightarrow> string) \<Rightarrow> sourceIndex \<Rightarrow> (string \<times> string \<times> string) list \<Rightarrow> string \<Rightarrow> string" where
  "ownHash sha idx entries dir = (if dir \<in> set (groupDirs idx) then hashSum sha (ownFiles entries dir) else [])"

definition setParts :: "sourceIndex \<Rightarrow> hashList" where
  "setParts idx = map (\<lambda>d. (d, [])) (sort (groupDirs idx))"

definition groupParts ::
  "(string \<Rightarrow> string) \<Rightarrow> sourceIndex \<Rightarrow> (string \<times> string \<times> string) list \<Rightarrow> string \<Rightarrow> string list \<Rightarrow> hashList" where
  "groupParts sha idx entries dir deps =
     [(''set'', hashSum sha (setParts idx)), (''own'', ownHash sha idx entries dir)] @
     map (\<lambda>d. (d, ownHash sha idx entries d)) deps"

definition groupFingerprint ::
  "(string \<Rightarrow> string) \<Rightarrow> schema \<Rightarrow> sourceIndex \<Rightarrow> (string \<times> string \<times> string) list \<Rightarrow> sourceGroup \<Rightarrow> (string \<times> string) option" where
  "groupFingerprint sha S idx entries g =
     (case groupDependencies S idx g of
        Some (deps, True) \<Rightarrow> Some (grDir g, hashSum sha (groupParts sha idx entries (grDir g) deps))
      | _ \<Rightarrow> None)"

definition groupFingerprints ::
  "(string \<Rightarrow> string) \<Rightarrow> schema \<Rightarrow> sourceIndex \<Rightarrow> string \<Rightarrow> fileSums \<Rightarrow> ((string \<rightharpoonup> string) \<times> string) option" where
  "groupFingerprints sha S idx top1 digests =
     (case mapO (fileEntry top1 digests) (schFiles S) of
        None \<Rightarrow> None
      | Some entries \<Rightarrow>
          if list_ex (\<lambda>d. ownFiles entries d = []) (groupDirs idx) then None
          else map_option (\<lambda>fps. (map_of (rev fps), hashSum sha (setParts idx)))
            (mapO (groupFingerprint sha S idx entries) (siGroups idx)))"

subsection \<open>The previous build\<close>

record cachedOutput =
  coPath :: string
  coSize :: int
  coMTime :: int
  coDigest :: string

record cacheEntry =
  ceFingerprint :: string
  ceExeSize :: int
  ceExeMTime :: int
  ceExeHash :: string
  ceSavedAt :: int
  ceFiles :: int
  ceOutputs :: "cachedOutput list"
  ceConfigHash :: string
  ceGroupSet :: string
  ceGroups :: "(string \<times> string) list"

record diskFile =
  dfRegular :: bool
  dfSize :: int
  dfMTime :: int
  dfData :: "string option"

type_synonym disk = "string \<rightharpoonup> diskFile"

definition buildCacheRacy :: int where "buildCacheRacy = 2000000000"

text \<open>What one recorded output has to show, and its digest when it does.\<close>

definition verifyOutput :: "(string \<Rightarrow> string) \<Rightarrow> int \<Rightarrow> cachedOutput \<Rightarrow> diskFile option \<Rightarrow> string option" where
  "verifyOutput sha savedAt out file =
     (case file of
        None \<Rightarrow> None
      | Some f \<Rightarrow>
          if \<not> dfRegular f \<or> dfSize f \<noteq> coSize out \<or> dfMTime f \<noteq> coMTime out then None
          else case hexDecode (coDigest out) of
            None \<Rightarrow> None
          | Some digest \<Rightarrow>
              if length digest \<noteq> 32 then None
              else if savedAt - dfMTime f \<le> buildCacheRacy \<and> map_option sha (dfData f) \<noteq> Some digest then None
              else Some digest)"

fun verifyPreviousOutputs ::
  "(string \<Rightarrow> string) \<Rightarrow> disk \<Rightarrow> (string \<rightharpoonup> cachedOutput) \<Rightarrow> int \<Rightarrow> string list \<Rightarrow> (string \<times> string) list option" where
  "verifyPreviousOutputs sha disk previous savedAt [] = Some []"
| "verifyPreviousOutputs sha disk previous savedAt (p # ps) =
     (case previous p of
        None \<Rightarrow> if disk p \<noteq> None then None else verifyPreviousOutputs sha disk previous savedAt ps
      | Some out \<Rightarrow>
          (case verifyOutput sha savedAt out (disk p) of
             None \<Rightarrow> None
           | Some digest \<Rightarrow> map_option ((#) (p, digest)) (verifyPreviousOutputs sha disk previous savedAt ps)))"

record incrementalPlan =
  plClean :: "string set"
  plReused :: "(string \<times> string) list"

definition previousOutputs :: "buildConfig \<Rightarrow> cacheEntry \<Rightarrow> (string \<rightharpoonup> cachedOutput)" where
  "previousOutputs cfg prev = map_of (rev (map (\<lambda>o1. (pathJoin (bcDir cfg) (coPath o1), o1)) (ceOutputs prev)))"

definition planGroup ::
  "(string \<Rightarrow> string) \<Rightarrow> disk \<Rightarrow> buildConfig \<Rightarrow> cacheEntry \<Rightarrow> (string \<rightharpoonup> string) \<Rightarrow> sourceGroup \<Rightarrow> incrementalPlan \<Rightarrow> incrementalPlan" where
  "planGroup sha disk cfg prev fps g plan =
     (case fps (grDir g) of
        None \<Rightarrow> plan
      | Some fp \<Rightarrow>
          if fp = [] \<or> map_of (ceGroups prev) (grDir g) \<noteq> Some fp then plan
          else case verifyPreviousOutputs sha disk (previousOutputs cfg prev) (ceSavedAt prev) (expectedGroupOutputs cfg g) of
            None \<Rightarrow> plan
          | Some reused \<Rightarrow> \<lparr>plClean = insert (grDir g) (plClean plan), plReused = plReused plan @ reused\<rparr>)"

definition planIncremental ::
  "(string \<Rightarrow> string) \<Rightarrow> disk \<Rightarrow> buildConfig \<Rightarrow> sourceIndex \<Rightarrow> cacheEntry option \<Rightarrow> (string \<rightharpoonup> string) \<Rightarrow> string \<Rightarrow> string \<Rightarrow>
    incrementalPlan option" where
  "planIncremental sha disk cfg idx prev fps groupSet configHash =
     (case prev of
        None \<Rightarrow> None
      | Some e \<Rightarrow>
          if ceConfigHash e \<noteq> configHash \<or> ceGroupSet e \<noteq> groupSet \<or> ceGroups e = [] then None
          else Some (fold (planGroup sha disk cfg e fps) (siGroups idx) \<lparr>plClean = {}, plReused = []\<rparr>))"

definition changedGroups :: "sourceIndex \<Rightarrow> sourceGroup list" where
  "changedGroups idx = filter (\<lambda>g. grDir g \<notin> siUnchanged idx) (siGroups idx)"

definition outputFresh :: "(string \<Rightarrow> string) \<Rightarrow> disk \<Rightarrow> buildConfig \<Rightarrow> int \<Rightarrow> cachedOutput \<Rightarrow> bool" where
  "outputFresh sha disk cfg savedAt out =
     (case disk (pathJoin (bcDir cfg) (coPath out)) of
        None \<Rightarrow> False
      | Some f \<Rightarrow> dfRegular f \<and> dfSize f = coSize out \<and> dfMTime f = coMTime out \<and>
          (savedAt - dfMTime f > buildCacheRacy \<or> map_option (\<lambda>d. hexEncode (sha d)) (dfData f) = Some (coDigest out)))"

definition outputsUnchanged :: "(string \<Rightarrow> string) \<Rightarrow> disk \<Rightarrow> buildConfig \<Rightarrow> cacheEntry \<Rightarrow> bool" where
  "outputsUnchanged sha disk cfg e =
     (ceOutputs e \<noteq> [] \<and> list_all (outputFresh sha disk cfg (ceSavedAt e)) (ceOutputs e))"

text \<open>The running binary: its size, time and the hash of its bytes, as far as they can be read.\<close>

definition sameExecutable :: "(int \<times> int) option \<Rightarrow> string option \<Rightarrow> cacheEntry \<Rightarrow> bool" where
  "sameExecutable stamp exeHash e =
     (case stamp of
        None \<Rightarrow> False
      | Some (size1, mtime) \<Rightarrow>
          if ceExeHash e = [] then False
          else if size1 = ceExeSize e \<and> mtime = ceExeMTime e then True else exeHash = Some (ceExeHash e))"

definition tryCachedBuild ::
  "(string \<Rightarrow> string) \<Rightarrow> disk \<Rightarrow> buildConfig \<Rightarrow> (int \<times> int) option \<Rightarrow> string option \<Rightarrow> cacheEntry option \<Rightarrow> string \<Rightarrow>
    bool \<times> cacheEntry option" where
  "tryCachedBuild sha disk cfg stamp exeHash loaded fingerprint =
     (case loaded of
        None \<Rightarrow> (False, None)
      | Some e \<Rightarrow>
          if \<not> sameExecutable stamp exeHash e then (False, None)
          else (ceFingerprint e = fingerprint \<and> outputsUnchanged sha disk cfg e, Some e))"

subsection \<open>OpenAPI documents\<close>

text \<open>
  \<open>openAPIServiceFile\<close>: the file of a service with every message and enum it needs. A nested declaration
  is reached through its parent. \<open>None\<close> when the levels are used up.
\<close>

record openAPIState =
  oaMessages :: "mref set"
  oaEnums :: "eref set"
  oaFile :: schemaFile

definition childItems :: "schema \<Rightarrow> mref \<Rightarrow> declItem list" where
  "childItems S r = fieldsItems S r @ map DMsg (mNested (msgAt S r))"

definition oaMark :: "schema \<Rightarrow> mref \<Rightarrow> openAPIState \<Rightarrow> openAPIState" where
  "oaMark S r st = st\<lparr>oaMessages := insert r (oaMessages st),
     oaFile := (if mParent (msgAt S r) = None then (oaFile st)\<lparr>flMessages := flMessages (oaFile st) @ [r]\<rparr> else oaFile st)\<rparr>"

fun oaVisit :: "nat \<Rightarrow> schema \<Rightarrow> declItem \<Rightarrow> openAPIState \<Rightarrow> openAPIState option" where
  "oaVisit 0 S x st = None"
| "oaVisit (Suc k) S (DEnum e) st =
     (case enParent (enumAt S e) of
        Some p \<Rightarrow> oaVisit k S (DMsg p) st
      | None \<Rightarrow>
          if e \<in> oaEnums st then Some st
          else Some (st\<lparr>oaEnums := insert e (oaEnums st), oaFile := (oaFile st)\<lparr>flEnums := flEnums (oaFile st) @ [e]\<rparr>\<rparr>))"
| "oaVisit (Suc k) S (DMsg r) st =
     (if r \<in> oaMessages st then Some st
      else case mParent (msgAt S r) of
        Some p \<Rightarrow>
          if p \<notin> oaMessages st then oaVisit k S (DMsg p) st
          else foldO (oaVisit k S) (childItems S r) (oaMark S r st)
      | None \<Rightarrow> foldO (oaVisit k S) (childItems S r) (oaMark S r st))"

definition openAPIServiceState :: "nat \<Rightarrow> schema \<Rightarrow> service \<Rightarrow> openAPIState option" where
  "openAPIServiceState levels S s =
     foldO (oaVisit levels S)
       (concat (map (\<lambda>m. refItems (rRequest m) @ refItems (rResponse m) @ map DMsg (rErrorTypes m)) (sMethods s)))
       \<lparr>oaMessages = {}, oaEnums = {}, oaFile = emptyFile\<lparr>flServices := [s]\<rparr>\<rparr>"

definition openAPIServiceFile :: "schema \<Rightarrow> service \<Rightarrow> schemaFile option" where
  "openAPIServiceFile S s =
     (let n = length (schMessages S) in map_option oaFile (openAPIServiceState ((n + 2) * (n + 2)) S s))"

end
