(* ===== verification/DirectoryProps.thy ===== *)
theory DirectoryProps
  imports Directories
begin

text \<open>
  What the walks of the build tool compute: a walk always ends and visits exactly what is reachable
  from its roots, so \<open>groupDependencies\<close> lists exactly the directories a directory uses, and
  \<open>checkSelfContained\<close> reports exactly the uses its walk can see.
\<close>

subsection \<open>A walk visits what is reachable\<close>

inductive itemReach :: "(mref \<Rightarrow> declItem list) \<Rightarrow> declItem list \<Rightarrow> declItem \<Rightarrow> bool" for children roots where
  I_root: "x \<in> set roots \<Longrightarrow> itemReach children roots x"
| I_step: "itemReach children roots (DMsg r) \<Longrightarrow> y \<in> set (children r) \<Longrightarrow> itemReach children roots y"

lemma itemReach_mono: "itemReach children roots x \<Longrightarrow> set roots \<subseteq> set roots' \<Longrightarrow> itemReach children roots' x"
  by (induction rule: itemReach.induct) (auto intro: itemReach.intros)

lemma itemReach_children: "itemReach children (children r) x \<Longrightarrow> itemReach children [DMsg r] x"
proof (induction rule: itemReach.induct)
  case (I_root x)
  have "itemReach children [DMsg r] (DMsg r)" by (rule itemReach.I_root) simp
  with I_root show ?case by (rule itemReach.I_step [rotated])
qed (rule itemReach.I_step)

text \<open>The walk that only records what it visits; every other one is a fold over its record.\<close>

abbreviation logWalk :: "(mref \<Rightarrow> declItem list) \<Rightarrow> nat \<Rightarrow> declItem \<Rightarrow> mref list \<times> declItem list \<Rightarrow> (mref list \<times> declItem list) option" where
  "logWalk children \<equiv> visitItem children (\<lambda>x l. l @ [x])"

abbreviation noted :: "(declItem \<Rightarrow> 's \<Rightarrow> 's) \<Rightarrow> 's \<Rightarrow> mref list \<times> declItem list \<Rightarrow> mref list \<times> 's" where
  "noted note1 s \<equiv> \<lambda>(seen, l). (seen, fold note1 l s)"

lemma foldO_map:
  assumes "\<And>x t. x \<in> set xs \<Longrightarrow> f x (h t) = map_option h (g x t)"
  shows "foldO f xs (h t) = map_option h (foldO g xs t)"
  using assms by (induction xs arbitrary: t) (auto split: option.splits)

lemma visitItem_log:
  "visitItem children note1 k x (noted note1 s t) = map_option (noted note1 s) (logWalk children k x t)"
proof (induction k arbitrary: x t)
  case (Suc k)
  obtain seen l where t: "t = (seen, l)" by (cases t)
  show ?case
  proof (cases x)
    case (DMsg r)
    have "foldO (visitItem children note1 k) ys (noted note1 s u) = map_option (noted note1 s) (foldO (logWalk children k) ys u)" for ys u
      by (rule foldO_map) (rule Suc.IH)
    from this [of "children r" "(r # seen, l @ [DMsg r])"] show ?thesis using DMsg t by simp
  qed (simp add: t)
qed (cases t; simp)

definition logged :: "declItem list \<Rightarrow> mref list \<Rightarrow> bool" where
  "logged l seen \<longleftrightarrow> (\<forall>r. r \<in> set seen \<longleftrightarrow> DMsg r \<in> set l)"

text \<open>From one state of the log to a later one, having visited the items.\<close>

definition logStep :: "(mref \<Rightarrow> declItem list) \<Rightarrow> declItem list \<Rightarrow> mref list \<times> declItem list \<Rightarrow> mref list \<times> declItem list \<Rightarrow> bool" where
  "logStep children xs t u \<longleftrightarrow> logged (snd u) (fst u) \<and> set (snd t) \<subseteq> set (snd u) \<and> set xs \<subseteq> set (snd u) \<and>
     (\<forall>y \<in> set (snd u). y \<in> set (snd t) \<or> itemReach children xs y) \<and>
     (\<forall>r. DMsg r \<in> set (snd u) \<longrightarrow> DMsg r \<in> set (snd t) \<or> set (children r) \<subseteq> set (snd u))"

lemma logStep_trans:
  assumes "logStep children xs t u" "logStep children ys u v"
  shows "logStep children (xs @ ys) t v"
proof -
  have r: "itemReach children xs y \<Longrightarrow> itemReach children (xs @ ys) y" "itemReach children ys y \<Longrightarrow> itemReach children (xs @ ys) y" for y
    using itemReach_mono [of children xs y "xs @ ys"] itemReach_mono [of children ys y "xs @ ys"] by auto
  from assms(1) have 1: "set (snd t) \<subseteq> set (snd u)" "set xs \<subseteq> set (snd u)"
    "\<And>y. y \<in> set (snd u) \<Longrightarrow> y \<in> set (snd t) \<or> itemReach children xs y"
    "\<And>q. DMsg q \<in> set (snd u) \<Longrightarrow> DMsg q \<in> set (snd t) \<or> set (children q) \<subseteq> set (snd u)" by (simp_all add: logStep_def)
  from assms(2) have 2: "logged (snd v) (fst v)" "set (snd u) \<subseteq> set (snd v)" "set ys \<subseteq> set (snd v)"
    "\<And>y. y \<in> set (snd v) \<Longrightarrow> y \<in> set (snd u) \<or> itemReach children ys y"
    "\<And>q. DMsg q \<in> set (snd v) \<Longrightarrow> DMsg q \<in> set (snd u) \<or> set (children q) \<subseteq> set (snd v)" by (simp_all add: logStep_def)
  have 3: "y \<in> set (snd t) \<or> itemReach children (xs @ ys) y" if "y \<in> set (snd v)" for y
    using 2(4) [OF that] 1(3) [of y] r [of y] by argo
  have 4: "DMsg q \<in> set (snd t) \<or> set (children q) \<subseteq> set (snd v)" if "DMsg q \<in> set (snd v)" for q
    using 2(5) [OF that] 1(4) [of q] 2(2) by auto
  show ?thesis unfolding logStep_def using 1(1,2) 2(1,2,3) 3 4 by auto
qed

lemma logStep_fold:
  assumes "\<And>x t u. f x t = Some u \<Longrightarrow> logged (snd t) (fst t) \<Longrightarrow> logStep children [x] t u"
  shows "foldO f xs t = Some u \<Longrightarrow> logged (snd t) (fst t) \<Longrightarrow> logStep children xs t u"
proof (induction xs arbitrary: t)
  case Nil
  then show ?case by (auto simp: logStep_def)
next
  case (Cons x xs)
  then obtain v where v: "f x t = Some v" "foldO f xs v = Some u" by (auto split: option.splits)
  from assms [OF v(1) Cons.prems(2)] have 1: "logStep children [x] t v" .
  then have "logged (snd v) (fst v)" by (simp add: logStep_def)
  from logStep_trans [OF 1 Cons.IH [OF v(2) this]] show ?case by simp
qed

lemma logWalk_step: "logWalk children k x t = Some u \<Longrightarrow> logged (snd t) (fst t) \<Longrightarrow> logStep children [x] t u"
proof (induction k arbitrary: x t u)
  case (Suc k)
  obtain seen l where t: "t = (seen, l)" by (cases t)
  show ?case
  proof (cases x)
    case (DEnum e)
    have "itemReach children [x] x" by (rule I_root) simp
    with Suc.prems t DEnum show ?thesis by (auto simp: logStep_def logged_def)
  next
    case (DMsg r)
    show ?thesis
    proof (cases "r \<in> set seen")
      case True
      then have u: "u = (seen, l)" using Suc.prems(1) DMsg t by simp
      have "DMsg r \<in> set l" using True Suc.prems(2) t by (simp add: logged_def)
      then show ?thesis using Suc.prems(2) t u DMsg by (simp add: logStep_def)
    next
      case False
      let ?t1 = "(r # seen, l @ [DMsg r])"
      from False Suc.prems DMsg t have f: "foldO (logWalk children k) (children r) ?t1 = Some u" by simp
      have g: "logged (snd ?t1) (fst ?t1)" using Suc.prems(2) t by (auto simp: logged_def)
      have s: "logStep children (children r) ?t1 u" by (rule logStep_fold [OF Suc.IH f g])
      note s1 = s [unfolded logStep_def, simplified]
      have self: "itemReach children [DMsg r] (DMsg r)" by (rule I_root) simp
      show ?thesis unfolding logStep_def t DMsg
      proof (intro conjI ballI allI impI)
        show "logged (snd u) (fst u)" "set (snd (seen, l)) \<subseteq> set (snd u)" "set [DMsg r] \<subseteq> set (snd u)" using s1 by simp_all
        fix y assume "y \<in> set (snd u)"
        then show "y \<in> set (snd (seen, l)) \<or> itemReach children [DMsg r] y" using s1 self itemReach_children by fastforce
      next
        fix q assume "DMsg q \<in> set (snd u)"
        then show "DMsg q \<in> set (snd (seen, l)) \<or> set (children q) \<subseteq> set (snd u)" using s1 by fastforce
      qed
    qed
  qed
qed simp

locale finite_walk =
  fixes children :: "mref \<Rightarrow> declItem list" and n :: nat
  assumes outside: "n \<le> r \<Longrightarrow> children r = []"
begin

definition unseenMsgs :: "mref list \<Rightarrow> nat" where "unseenMsgs seen = card ({..<n} - set seen)"

lemma unseenMsgs_mono: "set seen \<subseteq> set s \<Longrightarrow> unseenMsgs s \<le> unseenMsgs seen"
  by (auto simp: unseenMsgs_def intro: card_mono)

lemma fold_total:
  assumes "\<And>x seen l. unseenMsgs seen < k \<Longrightarrow> \<exists>seen' l'. f x (seen, l) = Some (seen', l') \<and> set seen \<subseteq> set seen'"
  shows "unseenMsgs seen < k \<Longrightarrow> \<exists>seen' l'. foldO f xs (seen, l) = Some (seen', l') \<and> set seen \<subseteq> set seen'"
proof (induction xs arbitrary: seen l)
  case (Cons x xs)
  obtain s1 l1 where 1: "f x (seen, l) = Some (s1, l1)" "set seen \<subseteq> set s1" using assms [OF Cons.prems, of x l] by blast
  have "unseenMsgs s1 < k" using unseenMsgs_mono [OF 1(2)] Cons.prems by simp
  from Cons.IH [OF this, of l1] obtain s2 l2 where 2: "foldO f xs (s1, l1) = Some (s2, l2)" "set s1 \<subseteq> set s2" by blast
  then show ?case using 1 by (intro exI [of _ s2] exI [of _ l2]) auto
qed simp

lemma walk_total: "unseenMsgs seen < k \<Longrightarrow> \<exists>seen' l'. logWalk children k x (seen, l) = Some (seen', l') \<and> set seen \<subseteq> set seen'"
proof (induction k arbitrary: x seen l)
  case (Suc k)
  show ?case
  proof (cases x)
    case (DMsg r)
    show ?thesis
    proof (cases "r \<in> set seen \<or> n \<le> r")
      case True
      then show ?thesis using DMsg outside [of r] by auto
    next
      case False
      then have "r \<in> {..<n} - set seen" by simp
      moreover have "{..<n} - set (r # seen) = ({..<n} - set seen) - {r}" by auto
      ultimately have "unseenMsgs (r # seen) < unseenMsgs seen" unfolding unseenMsgs_def
        using card_Diff1_less [of "{..<n} - set seen" r] by (simp only: finite_Diff finite_lessThan)
      then have "unseenMsgs (r # seen) < k" using Suc.prems by simp
      from fold_total [where f = "logWalk children k", OF Suc.IH this, of "children r" "l @ [DMsg r]"]
      have "\<exists>s1 l1. foldO (logWalk children k) (children r) (r # seen, l @ [DMsg r]) = Some (s1, l1) \<and> set (r # seen) \<subseteq> set s1" .
      then obtain s1 l1 where "foldO (logWalk children k) (children r) (r # seen, l @ [DMsg r]) = Some (s1, l1)" "set (r # seen) \<subseteq> set s1"
        by (elim exE conjE)
      then show ?thesis using False DMsg by simp
    qed
  qed simp
qed simp

lemma walk_visits:
  "\<exists>seen log1. foldO (visitItem children note1 (Suc (Suc n))) roots ([], s) = Some (seen, fold note1 log1 s) \<and>
     set log1 = {x. itemReach children roots x}"
proof -
  have "unseenMsgs [] < Suc (Suc n)" by (simp add: unseenMsgs_def)
  from fold_total [where f = "logWalk children (Suc (Suc n))", OF walk_total this, of roots "[]"] obtain seen log1 where l: "foldO (logWalk children (Suc (Suc n))) roots ([], []) = Some (seen, log1)"
    by blast
  have "logStep children roots ([], []) (seen, log1)" 
    using logStep_fold [where f = "logWalk children (Suc (Suc n))", OF logWalk_step l] by (simp add: logged_def)
  then have st: "set roots \<subseteq> set log1" "\<forall>y \<in> set log1. itemReach children roots y"
    "\<forall>r. DMsg r \<in> set log1 \<longrightarrow> set (children r) \<subseteq> set log1" by (auto simp: logStep_def)
  have "x \<in> set log1" if "itemReach children roots x" for x using that by induction (use st in auto)
  moreover have "foldO (visitItem children note1 (Suc (Suc n))) roots (noted note1 s ([], [])) =
      map_option (noted note1 s) (foldO (logWalk children (Suc (Suc n))) roots ([], []))"
    by (rule foldO_map) (rule visitItem_log)
  ultimately show ?thesis using st(2) l by (intro exI [of _ seen] exI [of _ log1]) auto
qed

end

lemma msgAt_beyond: "length (schMessages S) \<le> r \<Longrightarrow> msgAt S r = nilMessage"
  by (simp add: msgAt_def)

interpretation refs: finite_walk "fieldsItems S" "length (schMessages S)" for S
  by unfold_locales (simp add: fieldsItems_def msgAt_beyond nilMessage_def)

interpretation deps: finite_walk "depItems S idx" "length (schMessages S)" for S idx
  by unfold_locales (simp add: depItems_def fieldsItems_def msgAt_beyond nilMessage_def)

subsection \<open>Dependencies\<close>

lemma fold_noteDir:
  "fold (noteDir idx) log1 (dirs, ok) =
     (dirs \<union> {d. \<exists>x \<in> set log1. itemDir idx x = Some d}, ok \<and> (\<forall>x \<in> set log1. itemDir idx x \<noteq> None))"
  by (induction log1 arbitrary: dirs ok) (auto simp: noteDir_def split: option.splits)

definition usesItem :: "schema \<Rightarrow> sourceIndex \<Rightarrow> sourceGroup \<Rightarrow> declItem \<Rightarrow> bool" where
  "usesItem S idx g = itemReach (depItems S idx) (depRoots (grFile g))"

definition usedDirs :: "schema \<Rightarrow> sourceIndex \<Rightarrow> sourceGroup \<Rightarrow> string set" where
  "usedDirs S idx g = {d. \<exists>x. usesItem S idx g x \<and> itemDir idx x = Some d}"

lemma groupDependencies_eq:
  "groupDependencies S idx g =
     Some (sorted_list_of_set (usedDirs S idx g - {grDir g}), \<forall>x. usesItem S idx g x \<longrightarrow> itemDir idx x \<noteq> None)"
proof -
  obtain seen log1 where l: "foldO (visitItem (depItems S idx) (noteDir idx) (Suc (Suc (length (schMessages S))))) (depRoots (grFile g)) ([], {}, True) =
      Some (seen, fold (noteDir idx) log1 ({}, True))" "set log1 = {x. usesItem S idx g x}"
    using deps.walk_visits [of S idx "noteDir idx" "depRoots (grFile g)" "({}, True)"] unfolding usesItem_def by blast
  then show ?thesis by (simp add: groupDependencies_def fold_noteDir usedDirs_def)
qed

lemma usedDirs_finite: "finite (usedDirs S idx g)"
proof -
  obtain log1 where "set log1 = {x. usesItem S idx g x}"
    using deps.walk_visits [of S idx "noteDir idx" "depRoots (grFile g)" "({}, True)"] unfolding usesItem_def by blast
  moreover have "usedDirs S idx g \<subseteq> (\<lambda>x. the (itemDir idx x)) ` {x. usesItem S idx g x}"
    unfolding usedDirs_def by (force simp: image_iff)
  ultimately show ?thesis by (metis List.finite_set finite_imageI finite_subset)
qed

subsection \<open>Self-contained views\<close>

lemma fold_noteRef:
  "fold (noteRef S idx kept target from1) log1 failed = None \<longleftrightarrow>
     failed = None \<and> (\<forall>x \<in> set log1. \<forall>d. itemDir idx x = Some d \<longrightarrow> \<not> leftOut kept d)"
  by (induction log1 arbitrary: failed) (auto simp: noteRef_def split: option.splits)

definition printsItem :: "schema \<Rightarrow> sourceGroup \<Rightarrow> declItem \<Rightarrow> bool" where
  "printsItem S g = itemReach (fieldsItems S) (refRoots (grFile g))"

lemma checkGroupRefs_None:
  "\<exists>r. checkGroupRefs S idx target kept g = Some r \<and>
     (r = None \<longleftrightarrow> (\<forall>x d. printsItem S g x \<and> itemDir idx x = Some d \<longrightarrow> \<not> leftOut kept d))"
proof -
  let ?note = "noteRef S idx kept target (packageLabel (grDir g))"
  obtain seen log1 where l: "foldO (visitItem (fieldsItems S) ?note (Suc (Suc (length (schMessages S))))) (refRoots (grFile g)) ([], None) =
      Some (seen, fold ?note log1 None)" "set log1 = {x. printsItem S g x}"
    using refs.walk_visits [of S ?note "refRoots (grFile g)" None] unfolding printsItem_def by blast
  then show ?thesis by (auto simp: checkGroupRefs_def fold_noteRef)
qed

lemma firstFailure_None:
  assumes "\<And>x. x \<in> set xs \<Longrightarrow> \<exists>r. f x = Some r \<and> (r = None \<longleftrightarrow> P x)"
  shows "\<exists>r. firstFailure f xs = Some r \<and> (r = None \<longleftrightarrow> (\<forall>x \<in> set xs. P x))"
  using assms
proof (induction xs)
  case (Cons x xs)
  obtain r where r: "f x = Some r" "r = None \<longleftrightarrow> P x" using Cons.prems [of x] by auto
  obtain q where q: "firstFailure f xs = Some q" "q = None \<longleftrightarrow> (\<forall>x \<in> set xs. P x)" using Cons by auto
  show ?case using r q by (cases r) auto
qed simp

definition keptLabels :: "sourceIndex \<Rightarrow> string set" where
  "keptLabels view = {packageLabel (grDir g) |g. g \<in> set (siGroups view)}"

lemma checkSelfContained_None:
  "\<exists>r. checkSelfContained S idx target view = Some r \<and>
     (r = None \<longleftrightarrow> length (siGroups view) = length (siGroups idx) \<or>
       (\<forall>g \<in> set (siGroups view). \<forall>x d. printsItem S g x \<and> itemDir idx x = Some d \<longrightarrow> \<not> leftOut (keptLabels view) d))"
proof (cases "length (siGroups view) = length (siGroups idx)")
  case False
  have k: "set (map (\<lambda>g. packageLabel (grDir g)) (siGroups view)) = keptLabels view" by (auto simp: keptLabels_def)
  from firstFailure_None [where f = "checkGroupRefs S idx target (keptLabels view)", OF checkGroupRefs_None] False
  show ?thesis by (simp add: checkSelfContained_def k [simplified])
qed (simp add: checkSelfContained_def)


subsection \<open>What the generated Go code imports\<close>

lemma itemReach_sub:
  assumes "itemReach children roots (DMsg r)" "itemReach children (children r) x"
  shows "itemReach children roots x"
  using assms(2) by induction (use assms(1) in \<open>auto intro: itemReach.intros\<close>)

lemma concatO_Some: "concatO xs = Some ys \<Longrightarrow> y \<in> set ys \<Longrightarrow> \<exists>zs. Some zs \<in> set xs \<and> y \<in> set zs"
proof (induction xs arbitrary: ys)
  case (Cons a xs)
  then obtain zs ws where a: "a = Some zs" "concatO xs = Some ws" "ys = zs @ ws" by (auto split: option.splits)
  show ?case
  proof (cases "y \<in> set zs")
    case True
    then show ?thesis using a(1) by auto
  next
    case False
    then have "y \<in> set ws" using Cons.prems(2) a(3) by simp
    from Cons.IH [OF a(2) this] show ?thesis by auto
  qed
qed simp

lemma printedFieldItems_sub: "set (printedFieldItems f) \<subseteq> set (fieldItems f)"
  by (auto simp: printedFieldItems_def fieldItems_def split: option.splits)

lemma fieldsItems_in: "f \<in> set (mFields (msgAt S r)) \<Longrightarrow> x \<in> set (fieldItems f) \<Longrightarrow> x \<in> set (fieldsItems S r)"
  by (auto simp: fieldsItems_def)

text \<open>What a message prints is reached from it, as long as the message itself has a directory.\<close>

lemma printedItems_reached:
  assumes "\<And>x. itemReach (depItems S idx) roots x \<Longrightarrow> itemDir idx x \<noteq> None"
  shows "printedItems k S r = Some items \<Longrightarrow> itemReach (depItems S idx) roots (DMsg r) \<Longrightarrow> x \<in> set items \<Longrightarrow>
    itemReach (depItems S idx) roots x"
proof (induction k arbitrary: r items)
  case (Suc k)
  have "siMsgDir idx r \<noteq> None" using assms [OF Suc.prems(2)] by (simp add: itemDir_def)
  then have c: "depItems S idx r = fieldsItems S r @ map DMsg (mNested (msgAt S r)) @ map DEnum (mNestedEnums (msgAt S r))"
    unfolding depItems_def by (rule if_not_P)
  then have step: "y \<in> set (fieldsItems S r @ map DMsg (mNested (msgAt S r)) @ map DEnum (mNestedEnums (msgAt S r))) \<Longrightarrow>
      itemReach (depItems S idx) roots y" for y using I_step [OF Suc.prems(2), of y] by simp
  obtain inner where i: "concatO (map (printedItems k S) (mNested (msgAt S r))) = Some inner"
    "items = concat (map printedFieldItems (mFields (msgAt S r))) @ inner @ map DEnum (mNestedEnums (msgAt S r))"
    using Suc.prems(1) by (auto split: option.splits)
  consider (field) f where "f \<in> set (mFields (msgAt S r))" "x \<in> set (printedFieldItems f)" | (inner) "x \<in> set inner"
    | (enum) "x \<in> set (map DEnum (mNestedEnums (msgAt S r)))"
    using Suc.prems(3) i(2) by auto
  then show ?case
  proof cases
    case field
    then show ?thesis using printedFieldItems_sub [of f] fieldsItems_in [of f S r x] step [of x] by auto
  next
    case inner
    then obtain q zs where q: "q \<in> set (mNested (msgAt S r))" "printedItems k S q = Some zs" "x \<in> set zs"
      using concatO_Some [OF i(1)] by force
    have "itemReach (depItems S idx) roots (DMsg q)" using step [of "DMsg q"] q(1) by simp
    from Suc.IH [OF q(2) this q(3)] show ?thesis .
  next
    case enum
    then show ?thesis using step [of x] by auto
  qed
qed simp

lemma service_root: "x \<in> set (collectServiceItems fl) \<Longrightarrow> x \<in> set (depRoots fl)"
  by (auto simp: collectServiceItems_def depRoots_def)

definition importedItems :: "schema \<Rightarrow> sourceGroup \<Rightarrow> declItem list" where
  "importedItems S g =
     (case collectExternalItems S (grFile g) of None \<Rightarrow> [] | Some xs \<Rightarrow> xs) @ collectServiceItems (grFile g)"

lemma importedItems_used:
  assumes "\<And>x. usesItem S idx g x \<Longrightarrow> itemDir idx x \<noteq> None" "x \<in> set (importedItems S g)"
  shows "usesItem S idx g x"
proof (cases "x \<in> set (collectServiceItems (grFile g))")
  case True
  then show ?thesis unfolding usesItem_def by (intro I_root service_root)
next
  case False
  then obtain xs where "collectExternalItems S (grFile g) = Some xs" "x \<in> set xs"
    using assms(2) by (cases "collectExternalItems S (grFile g)") (auto simp: importedItems_def)
  then obtain r zs where r: "r \<in> set (flMessages (grFile g))" "printedItems (Suc (length (schMessages S))) S r = Some zs" "x \<in> set zs"
    unfolding collectExternalItems_def using concatO_Some by force
  have "itemReach (depItems S idx) (depRoots (grFile g)) (DMsg r)" using r(1) by (intro I_root) (simp add: depRoots_def)
  from printedItems_reached [OF _ r(2) this r(3)] assms(1) show ?thesis unfolding usesItem_def by blast
qed

text \<open>Two directories with one alias.\<close>

lemma aliases_collide: "goPackageAlias ''common/pagination'' = goPackageAlias ''common_pagination''"
  by code_simp

end
