(* ===== verification/IncrementalProps.thy ===== *)
theory IncrementalProps
  imports Incremental DirectoryProps "HOL-Library.Multiset"
begin

text \<open>
  What the incremental build may rely on. The hashed texts can be read back, so equal fingerprints
  mean equal inputs unless the hash collides on a text that was hashed; a directory that is kept has
  the fingerprint of the previous build and all its outputs as that build left them.
\<close>

subsection \<open>Hashed texts can be read back\<close>

abbreviation nul :: char where "nul \<equiv> CHR 0x00"

lemma upto_nul: "nul \<notin> set k \<Longrightarrow> nul \<notin> set l \<Longrightarrow> k @ nul # x = l @ nul # y \<Longrightarrow> k = l \<and> x = y"
proof (induction k arbitrary: l)
  case Nil
  then show ?case by (cases l) auto
next
  case (Cons c k)
  then show ?case by (cases l) auto
qed

text \<open>Values whose end can be told from what follows.\<close>

locale terminated_values =
  fixes okValue :: "string \<Rightarrow> bool"
  assumes upto: "okValue v \<Longrightarrow> okValue w \<Longrightarrow> v @ nul # x = w @ nul # y \<Longrightarrow> v = w \<and> x = y"
begin

definition okParts :: "hashList \<Rightarrow> bool" where
  "okParts ps \<longleftrightarrow> (\<forall>p \<in> set ps. nul \<notin> set (fst p) \<and> okValue (snd p))"

lemma okParts_sort: "okParts (sort_key fst ps) = okParts ps"
  by (simp add: okParts_def)

lemma hashText_inj: "okParts ps \<Longrightarrow> okParts qs \<Longrightarrow> hashText ps = hashText qs \<Longrightarrow> ps = qs"
proof (induction ps arbitrary: qs)
  case Nil
  then show ?case by (cases qs) (auto simp: hashText_def)
next
  case (Cons p ps)
  then obtain q rs where q: "qs = q # rs" using Cons.prems(3) by (cases qs; cases p) (auto simp: hashText_def)
  have t: "fst p @ nul # snd p @ nul # hashText ps = fst q @ nul # snd q @ nul # hashText rs"
    using Cons.prems(3) q by (simp add: hashText_def case_prod_beta)
  have ok: "nul \<notin> set (fst p)" "nul \<notin> set (fst q)" "okValue (snd p)" "okValue (snd q)" "okParts ps" "okParts rs"
    using Cons.prems(1,2) q by (auto simp: okParts_def)
  from upto_nul [OF ok(1,2) t] have k: "fst p = fst q" "snd p @ nul # hashText ps = snd q @ nul # hashText rs" by auto
  from upto [OF ok(3,4) k(2)] have "snd p = snd q" "hashText ps = hashText rs" by auto
  with Cons.IH [OF ok(5,6)] k(1) q show ?case by (simp add: prod_eq_iff)
qed

lemma sortedText_inj:
  assumes "okParts ps" "okParts qs" "hashText (sort_key fst ps) = hashText (sort_key fst qs)"
  shows "sort_key fst ps = sort_key fst qs"
  using hashText_inj [of "sort_key fst ps" "sort_key fst qs"] assms by (simp add: okParts_sort)

end

interpretation digests: terminated_values "\<lambda>v. length v = 32"
  by unfold_locales (simp add: append_eq_append_conv)

interpretation texts: terminated_values "\<lambda>v. nul \<notin> set v"
  by unfold_locales (rule upto_nul)

lemma byte_high: "byte c div 16 < 16"
  using nat_of_char_less_256 [of c] by linarith

lemma hexChars_inj: "i < 16 \<Longrightarrow> j < 16 \<Longrightarrow> ''0123456789abcdef'' ! i = ''0123456789abcdef'' ! j \<Longrightarrow> i = j"
  by (subst (asm) nth_eq_iff_index_eq) simp_all

lemma hexEncode_inj: "hexEncode s = hexEncode t \<Longrightarrow> s = t"
proof (induction s arbitrary: t)
  case Nil
  then show ?case by (cases t) (auto simp: hexEncode_def)
next
  case (Cons c s)
  then obtain d u where t: "t = d # u" by (cases t) (auto simp: hexEncode_def)
  note b = byte_high [of c] byte_high [of d]
  from Cons.prems t have "byte c div 16 = byte d div 16" "byte c mod 16 = byte d mod 16" "hexEncode s = hexEncode u"
    using b hexChars_inj [of "byte c div 16" "byte d div 16"] hexChars_inj [of "byte c mod 16" "byte d mod 16"]
    by (auto simp: hexEncode_def)
  then show ?case using Cons.IH t by (metis div_mod_decomp of_char_eq_iff)
qed

lemma hexEncode_nul: "nul \<notin> set (hexEncode s)"
proof -
  have "nul \<noteq> ''0123456789abcdef'' ! i" if "i < 16" for i
  proof -
    have "''0123456789abcdef'' ! i \<in> set ''0123456789abcdef''" using that by (intro nth_mem) simp
    then show ?thesis by auto
  qed
  then show ?thesis using byte_high by (auto simp: hexEncode_def)
qed

lemma hashSum_eq:
  "hashSum sha ps = hashSum sha qs \<Longrightarrow> inj_on sha X \<Longrightarrow> hashText (sort_key fst ps) \<in> X \<Longrightarrow> hashText (sort_key fst qs) \<in> X \<Longrightarrow>
     hashText (sort_key fst ps) = hashText (sort_key fst qs)"
  unfolding hashSum_def using hexEncode_inj inj_onD by metis

text \<open>Sorting by key keeps the parts of one key in order.\<close>

lemma sort_parts: "sort_key fst ps = sort_key fst qs \<Longrightarrow> filter (\<lambda>p. fst p = k) ps = filter (\<lambda>p. fst p = k) (qs :: hashList)"
  by (metis sort_key_stable)

lemma sort_mset: "sort_key f ps = sort_key f qs \<Longrightarrow> mset ps = mset qs"
  by (metis mset_sort)

subsection \<open>Equal fingerprints\<close>

definition plainText :: "string \<Rightarrow> bool" where "plainText s \<longleftrightarrow> nul \<notin> set s"

text \<open>No name holds a zero byte and every file's digest has 32 bytes.\<close>

definition plainBuild :: "sourceIndex \<Rightarrow> (string \<times> string \<times> string) list \<Rightarrow> bool" where
  "plainBuild idx entries \<longleftrightarrow> (\<forall>d \<in> set (groupDirs idx). plainText d) \<and>
     (\<forall>e \<in> set entries. plainText (fst (snd e)) \<and> length (snd (snd e)) = 32) \<and>
     (\<forall>x d. itemDir idx x = Some d \<longrightarrow> plainText d)"

definition groupTexts :: "(string \<Rightarrow> string) \<Rightarrow> schema \<Rightarrow> sourceIndex \<Rightarrow> (string \<times> string \<times> string) list \<Rightarrow> sourceGroup \<Rightarrow> string set" where
  "groupTexts sha S idx entries g =
     (case groupDependencies S idx g of
        Some (deps, _) \<Rightarrow> {hashText (sort_key fst (groupParts sha idx entries (grDir g) deps))} | None \<Rightarrow> {})"

text \<open>Every text a build hashes for its fingerprints.\<close>

definition hashedTexts :: "(string \<Rightarrow> string) \<Rightarrow> schema \<Rightarrow> sourceIndex \<Rightarrow> (string \<times> string \<times> string) list \<Rightarrow> string set" where
  "hashedTexts sha S idx entries =
     insert (hashText (sort_key fst (setParts idx)))
       ((\<lambda>d. hashText (sort_key fst (ownFiles entries d))) ` set (groupDirs idx) \<union>
        (\<Union>g \<in> set (siGroups idx). groupTexts sha S idx entries g))"

lemma ownFiles_ok: "plainBuild idx entries \<Longrightarrow> digests.okParts (ownFiles entries d)"
  by (auto simp: plainBuild_def digests.okParts_def ownFiles_def plainText_def)

lemma setParts_ok: "plainBuild idx entries \<Longrightarrow> texts.okParts (setParts idx)"
  by (auto simp: plainBuild_def texts.okParts_def setParts_def plainText_def)

lemma ownHash_nul: "nul \<notin> set (ownHash sha idx entries d)"
  by (simp add: ownHash_def hashSum_def hexEncode_nul)

lemma groupParts_ok:
  assumes "plainBuild idx entries" "set deps \<subseteq> usedDirs S idx g"
  shows "texts.okParts (groupParts sha idx entries d deps)"
proof -
  have "nul \<notin> set x" if "x \<in> set deps" for x
    using assms that by (auto simp: usedDirs_def plainBuild_def plainText_def)
  moreover have "nul \<notin> set (hashSum sha ps)" for ps by (simp add: hashSum_def hexEncode_nul)
  ultimately show ?thesis by (auto simp: texts.okParts_def groupParts_def ownHash_nul)
qed

lemma mapO_Some: "mapO f xs = Some ys \<longleftrightarrow> list_all2 (\<lambda>x y. f x = Some y) xs ys"
  by (induction xs arbitrary: ys) (auto split: option.splits simp: list_all2_Cons1)

definition entriesOf :: "string \<Rightarrow> fileSums \<Rightarrow> schema \<Rightarrow> (string \<times> string \<times> string) list" where
  "entriesOf top1 digests S = (case mapO (fileEntry top1 digests) (schFiles S) of Some es \<Rightarrow> es | None \<Rightarrow> [])"

lemma groupFingerprints_at:
  assumes "groupFingerprints sha S idx top1 dg = Some (fps, gs)" "g \<in> set (siGroups idx)" "distinct (groupDirs idx)"
  shows "\<exists>deps. groupDependencies S idx g = Some (deps, True) \<and> set deps = usedDirs S idx g - {grDir g} \<and>
    fps (grDir g) = Some (hashSum sha (groupParts sha idx (entriesOf top1 dg S) (grDir g) deps))"
proof -
  obtain entries where e: "mapO (fileEntry top1 dg) (schFiles S) = Some entries"
    using assms(1) by (auto simp: groupFingerprints_def split: option.splits)
  then obtain ps where ps: "mapO (groupFingerprint sha S idx entries) (siGroups idx) = Some ps" "fps = map_of (rev ps)"
    using assms(1) by (auto simp: groupFingerprints_def split: if_splits)
  from ps(1) have all: "list_all2 (\<lambda>g p. groupFingerprint sha S idx entries g = Some p) (siGroups idx) ps" by (simp add: mapO_Some)
  then have "map fst ps = groupDirs idx"
    unfolding groupDirs_def by (induction rule: list_all2_induct) (auto simp: groupFingerprint_def split: option.splits bool.splits)
  then have d: "distinct (map fst (rev ps))" using assms(3) by (simp add: rev_map [symmetric])
  obtain i where i: "i < length (siGroups idx)" "siGroups idx ! i = g" using assms(2) by (auto simp: in_set_conv_nth)
  define p where "p = ps ! i"
  have p: "p \<in> set ps" "groupFingerprint sha S idx entries g = Some p"
    using list_all2_nthD [OF all i(1)] list_all2_lengthD [OF all] i by (simp_all add: p_def)
  then obtain deps where deps: "groupDependencies S idx g = Some (deps, True)"
    "p = (grDir g, hashSum sha (groupParts sha idx entries (grDir g) deps))"
    by (auto simp: groupFingerprint_def split: option.splits bool.splits)
  have "set deps = usedDirs S idx g - {grDir g}"
    using deps(1) usedDirs_finite [of S idx g] by (auto simp: groupDependencies_eq)
  moreover have "fps (grDir g) = Some (snd p)" using p(1) d deps(2) ps(2) by (auto intro: map_of_is_SomeI)
  ultimately show ?thesis using deps e by (auto simp: entriesOf_def)
qed

text \<open>The parts of two equal fingerprints.\<close>

lemma parts_agree:
  fixes h h' :: "string \<Rightarrow> string"
  assumes "\<And>k. filter (\<lambda>p. fst p = k) ([(''set'', s), (''own'', w)] @ map (\<lambda>d. (d, h d)) deps) =
      filter (\<lambda>p. fst p = k) ([(''set'', s'), (''own'', w')] @ map (\<lambda>d. (d, h' d)) deps')"
  shows "s = s'" "w = w'" "set deps = set deps'" "\<forall>d \<in> set deps. h d = h' d"
proof -
  show "s = s'" "w = w'" using assms [of "''set''"] assms [of "''own''"] by simp_all
  then have rest: "filter (\<lambda>p. fst p = k) (map (\<lambda>d. (d, h d)) deps) = filter (\<lambda>p. fst p = k) (map (\<lambda>d. (d, h' d)) deps')" for k
    using assms [of k] by (simp split: if_splits)
  have *: "{p \<in> (\<lambda>d. (d, h d)) ` set deps. fst p = k} = {p \<in> (\<lambda>d. (d, h' d)) ` set deps'. fst p = k}" for k
    using arg_cong [OF rest [of k], of set] by simp
  then have **: "(k, v) \<in> (\<lambda>d. (d, h d)) ` set deps \<longleftrightarrow> (k, v) \<in> (\<lambda>d. (d, h' d)) ` set deps'" for k v
  proof -
    have "((k, v) \<in> {p \<in> (\<lambda>d. (d, h d)) ` set deps. fst p = k}) = ((k, v) \<in> {p \<in> (\<lambda>d. (d, h' d)) ` set deps'. fst p = k})"
      by (simp only: *)
    then show ?thesis by (simp only: mem_Collect_eq fst_conv simp_thms)
  qed
  show "set deps = set deps'" using ** by (auto simp: image_iff) 
  show "\<forall>d \<in> set deps. h d = h' d" using ** by (auto simp: image_iff)
qed

lemma fingerprints_agree:
  assumes f1: "groupFingerprints sha S1 idx1 top1 dg1 = Some (fps1, gs1)" "g1 \<in> set (siGroups idx1)" "distinct (groupDirs idx1)"
      "plainBuild idx1 (entriesOf top1 dg1 S1)"
    and f2: "groupFingerprints sha S2 idx2 top2 dg2 = Some (fps2, gs2)" "g2 \<in> set (siGroups idx2)" "distinct (groupDirs idx2)"
      "plainBuild idx2 (entriesOf top2 dg2 S2)"
    and d: "grDir g1 = grDir g2" "fps1 (grDir g1) = fps2 (grDir g2)"
    and inj: "inj_on sha (hashedTexts sha S1 idx1 (entriesOf top1 dg1 S1) \<union> hashedTexts sha S2 idx2 (entriesOf top2 dg2 S2))"
  shows "set (groupDirs idx1) = set (groupDirs idx2) \<and> usedDirs S1 idx1 g1 - {grDir g1} = usedDirs S2 idx2 g2 - {grDir g2} \<and>
    (\<forall>d' \<in> insert (grDir g1) (usedDirs S1 idx1 g1). d' \<in> set (groupDirs idx1) \<longrightarrow>
       mset (ownFiles (entriesOf top1 dg1 S1) d') = mset (ownFiles (entriesOf top2 dg2 S2) d'))"
proof -
  let ?e1 = "entriesOf top1 dg1 S1" and ?e2 = "entriesOf top2 dg2 S2"
  let ?X = "hashedTexts sha S1 idx1 ?e1 \<union> hashedTexts sha S2 idx2 ?e2"
  obtain deps1 where 1: "groupDependencies S1 idx1 g1 = Some (deps1, True)" "set deps1 = usedDirs S1 idx1 g1 - {grDir g1}"
    "fps1 (grDir g1) = Some (hashSum sha (groupParts sha idx1 ?e1 (grDir g1) deps1))"
    using groupFingerprints_at [OF f1(1-3)] by blast
  obtain deps2 where 2: "groupDependencies S2 idx2 g2 = Some (deps2, True)" "set deps2 = usedDirs S2 idx2 g2 - {grDir g2}"
    "fps2 (grDir g2) = Some (hashSum sha (groupParts sha idx2 ?e2 (grDir g2) deps2))"
    using groupFingerprints_at [OF f2(1-3)] by blast
  have s: "sort_key fst (groupParts sha idx1 ?e1 (grDir g1) deps1) = sort_key fst (groupParts sha idx2 ?e2 (grDir g2) deps2)"
  proof (rule texts.sortedText_inj)
    show "texts.okParts (groupParts sha idx1 ?e1 (grDir g1) deps1)" "texts.okParts (groupParts sha idx2 ?e2 (grDir g2) deps2)"
      using groupParts_ok [OF f1(4)] groupParts_ok [OF f2(4)] 1(2) 2(2) by blast+
    have "hashText (sort_key fst (groupParts sha idx1 ?e1 (grDir g1) deps1)) \<in> ?X"
      using 1(1) f1(2) by (force simp: hashedTexts_def groupTexts_def)
    moreover have "hashText (sort_key fst (groupParts sha idx2 ?e2 (grDir g2) deps2)) \<in> ?X"
      using 2(1) f2(2) by (force simp: hashedTexts_def groupTexts_def)
    ultimately show "hashText (sort_key fst (groupParts sha idx1 ?e1 (grDir g1) deps1)) = hashText (sort_key fst (groupParts sha idx2 ?e2 (grDir g2) deps2))"
      using 1(3) 2(3) d(2) by (intro hashSum_eq [OF _ inj]) simp_all
  qed
  note agree = parts_agree [OF sort_parts [OF s, unfolded groupParts_def]]
  have X: "hashText (sort_key fst (setParts idx1)) \<in> ?X" "hashText (sort_key fst (setParts idx2)) \<in> ?X" by (simp_all add: hashedTexts_def)
  have "sort_key fst (setParts idx1) = sort_key fst (setParts idx2)"
    by (rule texts.sortedText_inj [OF setParts_ok [OF f1(4)] setParts_ok [OF f2(4)] hashSum_eq [OF agree(1) inj X]])
  then have "mset (setParts idx1) = mset (setParts idx2)" by (rule sort_mset)
  then have "fst ` set (setParts idx1) = fst ` set (setParts idx2)" by (metis set_mset_mset)
  then have dirs: "set (groupDirs idx1) = set (groupDirs idx2)" by (simp add: setParts_def image_image)
  have own: "mset (ownFiles ?e1 d') = mset (ownFiles ?e2 d')"
    if "ownHash sha idx1 ?e1 d' = ownHash sha idx2 ?e2 d'" "d' \<in> set (groupDirs idx1)" for d'
  proof -
    have h: "hashSum sha (ownFiles ?e1 d') = hashSum sha (ownFiles ?e2 d')" using that dirs by (simp add: ownHash_def)
    have "hashText (sort_key fst (ownFiles ?e1 d')) \<in> ?X" "hashText (sort_key fst (ownFiles ?e2 d')) \<in> ?X"
      using that(2) dirs by (auto simp: hashedTexts_def)
    from digests.sortedText_inj [OF ownFiles_ok [OF f1(4)] ownFiles_ok [OF f2(4)] hashSum_eq [OF h inj this]]
    show ?thesis by (rule sort_mset)
  qed
  have "ownHash sha idx1 ?e1 d' = ownHash sha idx2 ?e2 d'" if "d' \<in> insert (grDir g1) (usedDirs S1 idx1 g1)" for d'
    using that agree(2,4) 1(2) d(1) by auto
  then have "\<forall>d' \<in> insert (grDir g1) (usedDirs S1 idx1 g1). d' \<in> set (groupDirs idx1) \<longrightarrow> mset (ownFiles ?e1 d') = mset (ownFiles ?e2 d')"
    using own by auto
  moreover have "usedDirs S1 idx1 g1 - {grDir g1} = usedDirs S2 idx2 g2 - {grDir g2}" using agree(3) 1(2) 2(2) by simp
  ultimately show ?thesis using dirs by blast
qed

subsection \<open>Kept directories\<close>

text \<open>An expected output as the previous build left it: recorded and unchanged, or absent both times.\<close>

definition asLeft :: "(string \<Rightarrow> string) \<Rightarrow> disk \<Rightarrow> buildConfig \<Rightarrow> cacheEntry \<Rightarrow> string \<Rightarrow> bool" where
  "asLeft sha disk cfg e p =
     (case previousOutputs cfg e p of
        None \<Rightarrow> disk p = None
      | Some out \<Rightarrow> \<exists>f. disk p = Some f \<and> dfRegular f \<and> dfSize f = coSize out \<and> dfMTime f = coMTime out \<and>
          (ceSavedAt e - dfMTime f \<le> buildCacheRacy \<longrightarrow> map_option sha (dfData f) = hexDecode (coDigest out)))"

lemma verify_asLeft:
  "verifyPreviousOutputs sha disk (previousOutputs cfg e) (ceSavedAt e) ps = Some reused \<Longrightarrow> \<forall>p \<in> set ps. asLeft sha disk cfg e p"
proof (induction ps arbitrary: reused)
  case (Cons p ps)
  show ?case
  proof (cases "previousOutputs cfg e p")
    case None
    then show ?thesis using Cons by (auto simp: asLeft_def split: if_splits)
  next
    case (Some out)
    then obtain digest rest where v: "verifyOutput sha (ceSavedAt e) out (disk p) = Some digest"
      "verifyPreviousOutputs sha disk (previousOutputs cfg e) (ceSavedAt e) ps = Some rest"
      using Cons.prems by (auto split: option.splits)
    from v(1) have "asLeft sha disk cfg e p"
      using Some by (auto simp: verifyOutput_def asLeft_def split: option.splits if_splits)
    with Cons.IH [OF v(2)] show ?thesis by simp
  qed
qed simp

definition keptSoundly :: "(string \<Rightarrow> string) \<Rightarrow> disk \<Rightarrow> buildConfig \<Rightarrow> sourceIndex \<Rightarrow> cacheEntry \<Rightarrow> (string \<rightharpoonup> string) \<Rightarrow> string \<Rightarrow> bool" where
  "keptSoundly sha disk cfg idx e fps d \<longleftrightarrow> (\<exists>g \<in> set (siGroups idx). grDir g = d \<and>
     (\<exists>fp. fps d = Some fp \<and> map_of (ceGroups e) d = Some fp) \<and> (\<forall>p \<in> set (expectedGroupOutputs cfg g). asLeft sha disk cfg e p))"

lemma planGroup_kept:
  assumes "g \<in> set (siGroups idx)" "\<forall>d \<in> plClean plan. keptSoundly sha disk cfg idx e fps d"
  shows "\<forall>d \<in> plClean (planGroup sha disk cfg e fps g plan). keptSoundly sha disk cfg idx e fps d"
  using assms verify_asLeft unfolding planGroup_def keptSoundly_def
  by (auto split: option.splits if_splits)

lemma plan_kept:
  assumes "planIncremental sha disk cfg idx (Some e) fps gs ch = Some plan" "d \<in> plClean plan"
  shows "ceConfigHash e = ch \<and> ceGroupSet e = gs \<and> keptSoundly sha disk cfg idx e fps d"
proof -
  have "\<forall>d \<in> plClean (fold (planGroup sha disk cfg e fps) gs1 plan1). keptSoundly sha disk cfg idx e fps d"
    if "set gs1 \<subseteq> set (siGroups idx)" "\<forall>d \<in> plClean plan1. keptSoundly sha disk cfg idx e fps d" for gs1 plan1
    using that
  proof (induction gs1 arbitrary: plan1)
    case (Cons g gs1)
    then have "\<forall>d \<in> plClean (planGroup sha disk cfg e fps g plan1). keptSoundly sha disk cfg idx e fps d"
      by (intro planGroup_kept) auto
    from Cons.IH [OF _ this] Cons.prems(1) show ?case by simp
  qed simp
  from this [of "siGroups idx" "\<lparr>plClean = {}, plReused = []\<rparr>"] assms show ?thesis
    by (auto simp: planIncremental_def split: if_splits)
qed

end
