(* ===== verification/BuildGuarantees.thy ===== *)
theory BuildGuarantees
  imports IncrementalProps
begin

text \<open>
  The properties of the build tool's planning, each with a small project: grouping by directory,
  dependencies, filtered views and the directories an incremental build keeps.
\<close>

subsection \<open>Grouping\<close>

definition filesIn :: "string \<Rightarrow> schemaFile list \<Rightarrow> string \<Rightarrow> schemaFile list" where
  "filesIn top1 files d = filter (\<lambda>fl. relDirOf top1 fl = Inr d) files"

definition mergedFrom :: "schemaFile list \<Rightarrow> schemaFile \<Rightarrow> bool" where
  "mergedFrom files m \<longleftrightarrow> flMessages m = concat (map flMessages files) \<and> flEnums m = concat (map flEnums files) \<and>
     flServices m = concat (map flServices files)"

definition groupingOk :: "string \<Rightarrow> schemaFile list \<Rightarrow> (string \<times> schemaFile) list \<Rightarrow> bool" where
  "groupingOk top1 files byDir \<longleftrightarrow> distinct (map fst byDir) \<and>
     (\<forall>fl \<in> set files. \<exists>d. relDirOf top1 fl = Inr d \<and> d \<in> set (map fst byDir)) \<and>
     (\<forall>(d, m) \<in> set byDir. mergedFrom (filesIn top1 files d) m \<and> filesIn top1 files d \<noteq> [])"

lemma mergedFrom_one: "mergedFrom [fl] (mergeFile emptyFile fl)"
  by (simp add: mergedFrom_def mergeFile_def emptyFile_def)

lemma mergedFrom_more: "mergedFrom files m \<Longrightarrow> mergedFrom (files @ [fl]) (mergeFile m fl)"
  by (simp add: mergedFrom_def mergeFile_def)

lemma groupingOk_add:
  assumes "groupingOk top1 files byDir" "relDirOf top1 fl = Inr rel"
  shows "groupingOk top1 (files @ [fl]) (addToDir rel fl byDir)"
proof (cases "rel \<in> set (map fst byDir)")
  case True
  have keys: "map fst (addToDir rel fl byDir) = map fst byDir" using True by (auto simp: addToDir_def)
  have "mergedFrom (filesIn top1 (files @ [fl]) d) m \<and> filesIn top1 (files @ [fl]) d \<noteq> []" if "(d, m) \<in> set (addToDir rel fl byDir)" for d m
  proof -
    obtain m0 where m0: "(d, m0) \<in> set byDir" "m = (if d = rel then mergeFile m0 fl else m0)"
    proof -
      have "addToDir rel fl byDir = map (\<lambda>(d, m). if d = rel then (d, mergeFile m fl) else (d, m)) byDir"
        using True by (simp add: addToDir_def)
      then obtain p where p: "p \<in> set byDir" "(d, m) = (case p of (d, m) \<Rightarrow> if d = rel then (d, mergeFile m fl) else (d, m))"
        using \<open>(d, m) \<in> set (addToDir rel fl byDir)\<close> by auto
      show ?thesis using that [of "snd p"] p by (cases p) (auto split: if_splits)
    qed
    then have "mergedFrom (filesIn top1 files d) m0 \<and> filesIn top1 files d \<noteq> []" using assms(1) by (auto simp: groupingOk_def)
    then show ?thesis using m0(2) assms(2) mergedFrom_more by (auto simp: filesIn_def)
  qed
  then show ?thesis using assms True unfolding groupingOk_def keys by auto
next
  case False
  then have new: "filesIn top1 files rel = []"
  proof -
    have "relDirOf top1 x \<noteq> Inr rel" if "x \<in> set files" for x
    proof -
      obtain d where "relDirOf top1 x = Inr d" "d \<in> set (map fst byDir)" using assms(1) \<open>x \<in> set files\<close> unfolding groupingOk_def by blast
      then show ?thesis using False by auto
    qed
    then show ?thesis by (simp add: filesIn_def filter_empty_conv)
  qed
  have "mergedFrom (filesIn top1 (files @ [fl]) d) m \<and> filesIn top1 (files @ [fl]) d \<noteq> []" if "(d, m) \<in> set (addToDir rel fl byDir)" for d m
  proof (cases "(d, m) \<in> set byDir")
    case True
    then have "d \<noteq> rel" using False by force
    then show ?thesis using True assms by (auto simp: groupingOk_def filesIn_def)
  next
    case f: False
    then have "d = rel" "m = mergeFile emptyFile fl" using that False by (auto simp: addToDir_def)
    then show ?thesis using new assms(2) mergedFrom_one [of fl] by (simp add: filesIn_def)
  qed
  moreover have keys: "map fst (addToDir rel fl byDir) = map fst byDir @ [rel]" using False by (simp add: addToDir_def)
  moreover have "distinct (map fst (addToDir rel fl byDir))" using assms(1) False by (simp add: keys groupingOk_def)
  moreover have "\<exists>d. relDirOf top1 x = Inr d \<and> d \<in> set (map fst (addToDir rel fl byDir))" if "x \<in> set (files @ [fl])" for x
  proof (cases "x \<in> set files")
    case True
    then obtain d where "relDirOf top1 x = Inr d" "d \<in> set (map fst byDir)" using assms(1) unfolding groupingOk_def by blast
    then show ?thesis by (simp add: keys)
  next
    case f: False
    then show ?thesis using that assms(2) by (simp add: keys)
  qed
  ultimately show ?thesis unfolding groupingOk_def by blast
qed

lemma groupFiles_ok:
  "foldS (groupFile S top1) files (idx, byDir) = Inr (idx', byDir') \<Longrightarrow> groupingOk top1 done1 byDir \<Longrightarrow> groupingOk top1 (done1 @ files) byDir'"
proof (induction files arbitrary: idx byDir done1)
  case (Cons fl files)
  then obtain idx1 byDir1 where s: "groupFile S top1 fl (idx, byDir) = Inr (idx1, byDir1)"
    "foldS (groupFile S top1) files (idx1, byDir1) = Inr (idx', byDir')" by (auto simp: bindE_eq_Inr)
  then obtain rel where "relDirOf top1 fl = Inr rel" "byDir1 = addToDir rel fl byDir"
    by (auto simp: groupFile_def split: sum.splits option.splits)
  with groupingOk_add [OF Cons.prems(2)] have "groupingOk top1 (done1 @ [fl]) byDir1" by simp
  from Cons.IH [OF s(2) this] show ?case by simp
qed simp

text \<open>Every declaration the index locates is in one of the groups.\<close>

definition locatedIn :: "string set \<Rightarrow> sourceIndex \<Rightarrow> bool" where
  "locatedIn D idx \<longleftrightarrow> (\<forall>x d. itemDir idx x = Some d \<longrightarrow> d \<in> D)"

lemma locatedIn_msg: "locatedIn D idx \<Longrightarrow> d \<in> D \<Longrightarrow> locatedIn D (idx\<lparr>siMsgDir := (siMsgDir idx)(r \<mapsto> d)\<rparr>)"
  by (auto simp: locatedIn_def itemDir_def split: declItem.splits)

lemma locatedIn_enum: "locatedIn D idx \<Longrightarrow> d \<in> D \<Longrightarrow> locatedIn D (idx\<lparr>siEnumDir := (\<lambda>e. if e \<in> A then Some d else siEnumDir idx e)\<rparr>)"
  by (auto simp: locatedIn_def itemDir_def split: declItem.splits if_splits)

lemma foldO_keeps: "foldO f xs s = Some t \<Longrightarrow> P s \<Longrightarrow> (\<And>x s t. f x s = Some t \<Longrightarrow> P s \<Longrightarrow> P t) \<Longrightarrow> P t"
  by (induction xs arbitrary: s) (auto split: option.splits)

lemma indexMessage_located: "indexMessage k S d r idx = Some idx' \<Longrightarrow> d \<in> D \<Longrightarrow> locatedIn D idx \<Longrightarrow> locatedIn D idx'"
proof (induction k arbitrary: r idx idx')
  case (Suc k)
  then obtain t where t: "foldO (indexMessage k S d) (mNested (msgAt S r)) (idx\<lparr>siMsgDir := (siMsgDir idx)(r \<mapsto> d)\<rparr>) = Some t"
    "idx' = t\<lparr>siEnumDir := (\<lambda>e. if e \<in> set (mNestedEnums (msgAt S r)) then Some d else siEnumDir t e)\<rparr>"
    by (auto split: option.splits)
  have "locatedIn D t" by (rule foldO_keeps [OF t(1), where P = "locatedIn D"]) (use Suc locatedIn_msg in auto)
  then show ?case using locatedIn_enum [OF _ Suc.prems(2)] t(2) by simp
qed simp

lemma groupFiles_located:
  "foldS (groupFile S top1) files (idx, byDir) = Inr (idx', byDir') \<Longrightarrow> locatedIn (set (map fst byDir)) idx \<Longrightarrow>
     locatedIn (set (map fst byDir')) idx'"
proof (induction files arbitrary: idx byDir)
  case (Cons fl files)
  then obtain idx1 byDir1 where s: "groupFile S top1 fl (idx, byDir) = Inr (idx1, byDir1)"
    "foldS (groupFile S top1) files (idx1, byDir1) = Inr (idx', byDir')" by (auto simp: bindE_eq_Inr)
  then obtain rel t where r: "foldO (indexMessage (length (schMessages S)) S rel) (flMessages fl) idx = Some t"
    "idx1 = t\<lparr>siEnumDir := (\<lambda>e. if e \<in> set (flEnums fl) then Some rel else siEnumDir t e)\<rparr>" "byDir1 = addToDir rel fl byDir"
    by (auto simp: groupFile_def split: sum.splits option.splits)
  have keys: "set (map fst byDir1) = insert rel (set (map fst byDir))" unfolding r(3) addToDir_def by force
  have "locatedIn (set (map fst byDir1)) idx" using Cons.prems(2) unfolding keys by (auto simp: locatedIn_def)
  then have "locatedIn (set (map fst byDir1)) t"
    using foldO_keeps [OF r(1), of "locatedIn (set (map fst byDir1))"] indexMessage_located [of _ S rel _ _ _ "set (map fst byDir1)"] keys
    by blast
  then have "locatedIn (set (map fst byDir1)) idx1" unfolding r(2) by (rule locatedIn_enum) (simp only: keys insertI1)
  then show ?case by (rule Cons.IH [OF s(2)])
qed simp

lemma groupByDirectory_located:
  assumes "groupByDirectory S top1 = Inr (idx, S')" "itemDir idx x = Some d"
  shows "d \<in> set (groupDirs idx)"
proof -
  obtain idx1 byDir where f: "foldS (groupFile S top1) (schFiles S) (emptyIndex, []) = Inr (idx1, byDir)"
    and idx: "idx = idx1\<lparr>siGroups := map (\<lambda>d. \<lparr>grDir = d, grFile = the (map_of byDir d)\<rparr>) (sort (map fst byDir))\<rparr>"
    using assms by (auto simp: groupByDirectory_def bindE_eq_Inr Let_def comp_def)
  have "locatedIn (set (map fst byDir)) idx1"
    by (rule groupFiles_located [OF f]) (simp add: locatedIn_def itemDir_def emptyIndex_def split: declItem.splits)
  moreover have "itemDir idx = itemDir idx1" by (rule ext) (simp add: idx itemDir_def split: declItem.splits)
  ultimately show ?thesis using assms(2) by (auto simp: locatedIn_def groupDirs_def idx)
qed

text \<open>
  C37: Grouping loses and invents nothing. There is one group for every directory with a file, in
  order of their names, and its merged file has the messages, enums and services of exactly the
  files of that directory, in the order of the package. Every declaration the index locates lies in
  one of the groups.
\<close>

theorem groups_partition_files:
  assumes "groupByDirectory S top1 = Inr (idx, S')"
  shows "sorted_wrt (<) (groupDirs idx) \<and> set (groupDirs idx) = {d. filesIn top1 (schFiles S) d \<noteq> []} \<and>
    (\<forall>g \<in> set (siGroups idx). mergedFrom (filesIn top1 (schFiles S) (grDir g)) (grFile g)) \<and>
    (\<forall>x d. itemDir idx x = Some d \<longrightarrow> d \<in> set (groupDirs idx))"
proof -
  obtain idx1 byDir where f: "foldS (groupFile S top1) (schFiles S) (emptyIndex, []) = Inr (idx1, byDir)"
    and idx: "siGroups idx = map (\<lambda>d. \<lparr>grDir = d, grFile = the (map_of byDir d)\<rparr>) (sort (map fst byDir))"
    using assms by (auto simp: groupByDirectory_def bindE_eq_Inr Let_def comp_def)
  have ok: "groupingOk top1 (schFiles S) byDir"
    using groupFiles_ok [OF f, of "[]"] by (simp add: groupingOk_def)
  have dirs: "groupDirs idx = sort (map fst byDir)" by (simp add: groupDirs_def idx comp_def)
  have d: "distinct (map fst byDir)" using ok by (simp add: groupingOk_def)
  have "sorted_wrt (<) (groupDirs idx)" using d by (simp add: dirs strict_sorted_iff)
  moreover have "set (map fst byDir) = {d. filesIn top1 (schFiles S) d \<noteq> []}"
    using ok by (force simp: groupingOk_def filesIn_def filter_empty_conv)
  moreover have "mergedFrom (filesIn top1 (schFiles S) (grDir g)) (grFile g)" if "g \<in> set (siGroups idx)" for g
  proof -
    have "grDir g \<in> set (groupDirs idx)" using that by (simp add: groupDirs_def)
    then have "grDir g \<in> set (map fst byDir)" by (simp add: dirs)
    then obtain m where "(grDir g, m) \<in> set byDir" by auto
    then have "grFile g = m" "mergedFrom (filesIn top1 (schFiles S) (grDir g)) m"
      using that d ok by (auto simp: idx groupingOk_def)
    then show ?thesis by simp
  qed
  ultimately show ?thesis using groupByDirectory_located [OF assms] by (simp add: dirs)
qed

subsection \<open>A small project\<close>

text \<open>
  A service in \<open>a\<close> takes a request with a field of the type \<open>N\<close>, which is nested in the message \<open>M\<close> of
  \<open>b\<close>; \<open>M\<close> also has a field of the type \<open>C\<close> of the directory \<open>c\<close>.
\<close>

definition projField :: "string \<Rightarrow> mref \<Rightarrow> field" where
  "projField n r = \<lparr>fName = n, fLine = 0, fDoc = [], fType = Some (TMessage r), fRepeated = False,
     fOptional = False, fDecorators = [], fOneof = None, fMessage = 0, fInt64Number = False,
     fEmitZero = False, fAlwaysSent = False, fValueItems = False, fNullable = False\<rparr>"

definition projFile :: "string \<Rightarrow> mref list \<Rightarrow> service list \<Rightarrow> schemaFile" where
  "projFile p ms ss = \<lparr>flPath = p, flPackage = [], flImports = [], flMessages = ms, flEnums = [], flServices = ss\<rparr>"

definition projService :: service where
  "projService = \<lparr>sName = ''A'', sDoc = [], sBasePath = [], sHeaders = [], sMethods =
     [\<lparr>rName = ''Get'', rLine = 0, rDoc = [], rRequest = Some 0, rResponse = Some 0, rErrorTypes = [], rDecorators = [],
       rHeaders = [], rPrincipal = None\<rparr>]\<rparr>"

definition proj :: schema where
  "proj = \<lparr>schMessages = [nilMessage\<lparr>mName := ''Req'', mFields := [projField ''n'' 2]\<rparr>,
       nilMessage\<lparr>mName := ''M'', mFields := [projField ''c'' 3], mNested := [2]\<rparr>,
       nilMessage\<lparr>mName := ''N'', mParent := Some 1\<rparr>, nilMessage\<lparr>mName := ''C''\<rparr>],
     schEnums = [], schFiles = [projFile ''/p/a/a.tsp'' [0] [projService], projFile ''/p/b/b.tsp'' [1] [], projFile ''/p/c/c.tsp'' [3] []]\<rparr>"

definition projIndex :: sourceIndex where
  "projIndex = (case groupByDirectory proj ''/p'' of Inr (idx, _) \<Rightarrow> idx | Inl _ \<Rightarrow> emptyIndex)"

definition projGroup :: "nat \<Rightarrow> sourceGroup" where "projGroup i = siGroups projIndex ! i"


lemma projIndex_eq: "groupByDirectory proj ''/p'' = Inr (projIndex, snd (case groupByDirectory proj ''/p'' of Inr p \<Rightarrow> p | Inl _ \<Rightarrow> (projIndex, proj)))"
proof -
  have "isOk (groupByDirectory proj ''/p'')" by code_simp
  then show ?thesis by (auto simp: isOk_iff projIndex_def)
qed

lemma projDirs: "groupDirs projIndex = [''a'', ''b'', ''c'']" by code_simp

theorem groups_partition_files_witness:
  "set (groupDirs projIndex) = {d. filesIn ''/p'' (schFiles proj) d \<noteq> []} \<and> groupDirs projIndex = [''a'', ''b'', ''c'']"
  using groups_partition_files [OF projIndex_eq] projDirs by simp

subsection \<open>Dependencies\<close>

text \<open>
  C29: \<open>groupDependencies\<close> always returns and lists, in order and without repetition, exactly the other
  directories of the declarations that the messages, enums and methods of the directory reach
  through fields, oneofs, maps and nesting; it is in doubt exactly when one of them has no directory.
\<close>

theorem dependencies_exact:
  "\<exists>deps ok. groupDependencies S idx g = Some (deps, ok) \<and> sorted_wrt (<) deps \<and>
     set deps = {d. \<exists>x. usesItem S idx g x \<and> itemDir idx x = Some d \<and> d \<noteq> grDir g} \<and>
     (ok \<longleftrightarrow> \<not> (\<exists>x. usesItem S idx g x \<and> itemDir idx x = None))"
  using usedDirs_finite [of S idx g] by (auto simp: groupDependencies_eq usedDirs_def strict_sorted_iff)

text \<open>
  C22: Whatever package the generated Go code of a directory imports, for the types it prints or the
  services it serves, is among the dependencies its fingerprint covers.
\<close>

theorem imports_are_dependencies:
  assumes "groupDependencies S idx g = Some (deps, True)" "x \<in> set (importedItems S g)"
    "resolveGo idx packages (grDir g) x = Some ref"
  shows "\<exists>d \<in> set deps. itemDir idx x = Some d \<and> packages d = Some ref"
proof -
  have ok: "\<And>y. usesItem S idx g y \<Longrightarrow> itemDir idx y \<noteq> None"
    and deps: "set deps = usedDirs S idx g - {grDir g}"
    using assms(1) usedDirs_finite [of S idx g] by (auto simp: groupDependencies_eq)
  obtain d where d: "itemDir idx x = Some d" "d \<noteq> grDir g" "packages d = Some ref"
    using assms(3) by (auto simp: resolveGo_def split: option.splits if_splits)
  have "usesItem S idx g x" by (rule importedItems_used [OF ok assms(2)])
  then have "d \<in> set deps" using d(1,2) by (auto simp: deps usedDirs_def)
  with d show ?thesis by blast
qed

lemma projDeps: "groupDependencies proj projIndex (projGroup 0) = Some ([''b''], True)"
  by code_simp

definition projPackages :: "string \<rightharpoonup> string \<times> string" where
  "projPackages = buildGoPackageRefs ''example.com/p'' (siGroups projIndex)"

theorem imports_are_dependencies_witness: "projPackages ''b'' = Some (''b'', ''example.com/p/b'')"
proof -
  have x: "DMsg 2 \<in> set (importedItems proj (projGroup 0))" by code_simp
  have r: "resolveGo projIndex projPackages (grDir (projGroup 0)) (DMsg 2) = Some (''b'', ''example.com/p/b'')" by code_simp
  from imports_are_dependencies [OF projDeps x r] show ?thesis by simp
qed

text \<open>
  The fingerprint of a directory misses what an OpenAPI document shows: the document of the service
  of \<open>a\<close> includes the message \<open>C\<close> of \<open>c\<close>, reached through the parent of a nested message, but \<open>c\<close> is
  not among the dependencies of \<open>a\<close>. A change of \<open>c\<close> leaves the document stale.
\<close>

theorem openapi_reaches_beyond_fingerprint:
  "\<exists>fl. openAPIServiceFile proj projService = Some fl \<and> 3 \<in> set (flMessages fl) \<and> itemDir projIndex (DMsg 3) = Some ''c'' \<and>
     groupDependencies proj projIndex (projGroup 0) = Some ([''b''], True)"
proof -
  have "map_option flMessages (openAPIServiceFile proj projService) = Some [0, 1, 3]" by code_simp
  moreover have "itemDir projIndex (DMsg 3) = Some ''c''" by code_simp
  ultimately show ?thesis using projDeps by auto
qed

subsection \<open>Filtered views\<close>


text \<open>
  A nested message is not looked at: with \<open>b\<close> declaring \<open>P\<close>, whose nested \<open>Q\<close> has a field of the type
  \<open>C\<close> of \<open>c\<close>, the view that keeps \<open>b\<close> alone is accepted, although the types generated for \<open>b\<close> print \<open>C\<close>.
\<close>

definition inner :: schema where
  "inner = \<lparr>schMessages = [nilMessage\<lparr>mName := ''P'', mNested := [1]\<rparr>,
       nilMessage\<lparr>mName := ''Q'', mParent := Some 0, mFields := [projField ''c'' 2]\<rparr>, nilMessage\<lparr>mName := ''C''\<rparr>],
     schEnums = [], schFiles = [projFile ''/p/b/b.tsp'' [0] [], projFile ''/p/c/c.tsp'' [2] []]\<rparr>"

definition innerIndex :: sourceIndex where
  "innerIndex = (case groupByDirectory inner ''/p'' of Inr (idx, _) \<Rightarrow> idx | Inl _ \<Rightarrow> emptyIndex)"

definition onlyB :: serviceFilter where
  "onlyB = \<lparr>includeServices = [], excludeServices = [], includePackages = [''b''], excludePackages = []\<rparr>"

lemma nested_reference_unchecked:
  "checkSelfContained inner innerIndex ''go-server'' (viewOf onlyB innerIndex) = Some None \<and>
   map grDir (siGroups (viewOf onlyB innerIndex)) = [''b''] \<and> itemDir innerIndex (DMsg 2) = Some ''c'' \<and>
   collectExternalItems inner (grFile (siGroups (viewOf onlyB innerIndex) ! 0)) = Some [DMsg 2]"
  by code_simp

subsection \<open>Kept directories\<close>

definition sameInputs ::
  "schema \<Rightarrow> sourceIndex \<Rightarrow> (string \<times> string \<times> string) list \<Rightarrow> sourceGroup \<Rightarrow>
   schema \<Rightarrow> sourceIndex \<Rightarrow> (string \<times> string \<times> string) list \<Rightarrow> sourceGroup \<Rightarrow> bool" where
  "sameInputs S idx es g S0 idx0 es0 g0 \<longleftrightarrow> set (groupDirs idx) = set (groupDirs idx0) \<and>
     usedDirs S idx g - {grDir g} = usedDirs S0 idx0 g0 - {grDir g0} \<and>
     (\<forall>d' \<in> insert (grDir g) (usedDirs S idx g). d' \<in> set (groupDirs idx) \<longrightarrow> mset (ownFiles es d') = mset (ownFiles es0 d'))"

lemma groupFingerprints_dom:
  assumes "groupFingerprints sha S idx top1 dg = Some (fps, gs)"
  shows "dom fps = set (groupDirs idx)"
proof -
  obtain entries ps where ps: "mapO (groupFingerprint sha S idx entries) (siGroups idx) = Some ps" "fps = map_of (rev ps)"
    using assms by (auto simp: groupFingerprints_def split: option.splits if_splits)
  then have "list_all2 (\<lambda>g p. groupFingerprint sha S idx entries g = Some p) (siGroups idx) ps" by (simp add: mapO_Some)
  then have "map fst ps = groupDirs idx"
    unfolding groupDirs_def by (induction rule: list_all2_induct) (auto simp: groupFingerprint_def split: option.splits bool.splits)
  then have "fst ` set ps = set (groupDirs idx)" by (metis list.set_map)
  then show ?thesis by (simp add: ps(2) dom_map_of_conv_image_fst)
qed

text \<open>
  C6: An incremental build keeps a directory only when nothing it is generated from has changed. If the
  recorded fingerprints are those of the previous build and the hash does not collide on the texts
  of the two builds, a kept directory has the same dependencies as then, it and they have the same
  files with the same contents, the project the same directories and the same configuration, and
  every output the directory should have is on disk as that build left it, or was absent and still is.
\<close>

theorem kept_directories_are_current:
  assumes "planIncremental sha disk cfg idx (Some e) fps gs ch = Some plan" "d \<in> plClean plan"
    "groupFingerprints sha S idx top1 dg = Some (fps, gs)" "distinct (groupDirs idx)" "plainBuild idx (entriesOf top1 dg S)"
    "groupFingerprints sha S0 idx0 top0 dg0 = Some (map_of (ceGroups e), gs0)" "distinct (groupDirs idx0)" "plainBuild idx0 (entriesOf top0 dg0 S0)"
    "inj_on sha (hashedTexts sha S idx (entriesOf top1 dg S) \<union> hashedTexts sha S0 idx0 (entriesOf top0 dg0 S0))"
  shows "ceConfigHash e = ch \<and> (\<exists>g \<in> set (siGroups idx). \<exists>g0 \<in> set (siGroups idx0). grDir g = d \<and> grDir g0 = d \<and>
    sameInputs S idx (entriesOf top1 dg S) g S0 idx0 (entriesOf top0 dg0 S0) g0 \<and>
    (\<forall>p \<in> set (expectedGroupOutputs cfg g). asLeft sha disk cfg e p))"
proof -
  obtain g fp where g: "g \<in> set (siGroups idx)" "grDir g = d" "fps d = Some fp" "map_of (ceGroups e) d = Some fp"
    "\<forall>p \<in> set (expectedGroupOutputs cfg g). asLeft sha disk cfg e p" and c: "ceConfigHash e = ch"
    using plan_kept [OF assms(1,2)] unfolding keptSoundly_def by blast
  have "d \<in> set (groupDirs idx0)" using groupFingerprints_dom [OF assms(6)] g(4) by blast
  then obtain g0 where g0: "g0 \<in> set (siGroups idx0)" "grDir g0 = d" by (auto simp: groupDirs_def)
  have "sameInputs S idx (entriesOf top1 dg S) g S0 idx0 (entriesOf top0 dg0 S0) g0"
    unfolding sameInputs_def
    by (rule fingerprints_agree [OF assms(3) g(1) assms(4,5) assms(6) g0(1) assms(7,8) _ _ assms(9)]) (use g g0 in simp_all)
  with g g0 c show ?thesis by blast
qed

text \<open>The project before and after a change of \<open>c\<close>, with the identity for the hash.\<close>

definition projDigests :: "char \<Rightarrow> fileSums" where
  "projDigests c p = (if p = ''/p/c/c.tsp'' then Some (replicate 32 c)
     else if p \<in> {''/p/a/a.tsp'', ''/p/b/b.tsp''} then Some (replicate 32 (CHR ''x'')) else None)"

definition projPrints :: "char \<Rightarrow> (string \<rightharpoonup> string) \<times> string" where
  "projPrints c = (case groupFingerprints id proj projIndex ''/p'' (projDigests c) of Some p \<Rightarrow> p | None \<Rightarrow> (\<lambda>_. None, []))"

definition projConfig :: buildConfig where
  "projConfig = \<lparr>bcDir = ''/p'', bcGenerate = \<lparr>goServer = Some \<lparr>rtOut = ''gen'', rtRuntime = [], rtRuntimeDir = [], rtMSW = False,
       rtFilter = onlyB\<lparr>includePackages := []\<rparr>\<rparr>, goClient = None, tsClient = None, tsServer = None, pythonClient = None,
     dartClient = None, swiftClient = None, rustClient = None, rustServer = None, openAPI = None\<rparr>\<rparr>"

definition projOutputs :: "string list" where
  "projOutputs = [''gen/a/types.gen.go'', ''gen/a/validate.gen.go'', ''gen/a/server.gen.go'']"

definition projCache :: cacheEntry where
  "projCache = \<lparr>ceFingerprint = [], ceExeSize = 0, ceExeMTime = 0, ceExeHash = ''h'', ceSavedAt = 10000000000, ceFiles = 3,
     ceOutputs = map (\<lambda>p. \<lparr>coPath = p, coSize = 7, coMTime = 1, coDigest = hexEncode (replicate 32 (CHR ''d''))\<rparr>) projOutputs,
     ceConfigHash = ''cfg'', ceGroupSet = snd (projPrints (CHR ''1'')),
     ceGroups = map (\<lambda>d. (d, the (fst (projPrints (CHR ''1'')) d))) (groupDirs projIndex)\<rparr>"

definition projDisk :: disk where
  "projDisk p = (if p \<in> set (map (pathJoin ''/p'') projOutputs)
     then Some \<lparr>dfRegular = True, dfSize = 7, dfMTime = 1, dfData = None\<rparr> else None)"

definition projPlan :: "incrementalPlan option" where
  "projPlan = planIncremental id projDisk projConfig projIndex (Some projCache) (fst (projPrints (CHR ''2'')))
     (snd (projPrints (CHR ''2''))) ''cfg''"

lemma proj_rel:
  "relDirOf ''/p'' (projFile ''/p/a/a.tsp'' ms ss) = Inr ''a''" "relDirOf ''/p'' (projFile ''/p/b/b.tsp'' ms ss) = Inr ''b''"
  "relDirOf ''/p'' (projFile ''/p/c/c.tsp'' ms ss) = Inr ''c''"
  by code_simp+

lemma proj_names:
  "pathBase ''/p/a/a.tsp'' = ''a.tsp''" "pathBase ''/p/b/b.tsp'' = ''b.tsp''" "pathBase ''/p/c/c.tsp'' = ''c.tsp''"
  "pathClean ''/p/a/a.tsp'' = ''/p/a/a.tsp''" "pathClean ''/p/b/b.tsp'' = ''/p/b/b.tsp''" "pathClean ''/p/c/c.tsp'' = ''/p/c/c.tsp''"
  by code_simp+

lemma projEntries:
  "mapO (fileEntry ''/p'' (projDigests c)) (schFiles proj) =
     Some [(''a'', ''a.tsp'', replicate 32 (CHR ''x'')), (''b'', ''b.tsp'', replicate 32 (CHR ''x'')), (''c'', ''c.tsp'', replicate 32 c)]"
proof -
  have p: "flPath (projFile q ms ss) = q" for q ms ss by (simp add: projFile_def)
  have d: "projDigests c ''/p/a/a.tsp'' = Some (replicate 32 (CHR ''x''))" "projDigests c ''/p/b/b.tsp'' = Some (replicate 32 (CHR ''x''))"
    "projDigests c ''/p/c/c.tsp'' = Some (replicate 32 c)" by (simp_all add: projDigests_def)
  have "schFiles proj = [projFile ''/p/a/a.tsp'' [0] [projService], projFile ''/p/b/b.tsp'' [1] [], projFile ''/p/c/c.tsp'' [3] []]"
    by (simp add: proj_def)
  then show ?thesis by (simp only: mapO.simps fileEntry_def proj_rel p proj_names d sum.case option.case option.map)
qed

lemma projGroups_deps:
  "\<exists>A B C. siGroups projIndex = [A, B, C] \<and> grDir A = ''a'' \<and> grDir B = ''b'' \<and> grDir C = ''c'' \<and>
     groupDependencies proj projIndex A = Some ([''b''], True) \<and>
     (\<exists>ds. groupDependencies proj projIndex B = Some (ds, True)) \<and> (\<exists>ds. groupDependencies proj projIndex C = Some (ds, True))"
proof -
  have dirs: "map grDir (siGroups projIndex) = [''a'', ''b'', ''c'']" using projDirs by (simp add: groupDirs_def)
  then obtain A B C where *: "siGroups projIndex = [A, B, C]" "grDir A = ''a''" "grDir B = ''b''" "grDir C = ''c''" by auto
  have "map_option snd (groupDependencies proj projIndex (projGroup 1)) = Some True"
    "map_option snd (groupDependencies proj projIndex (projGroup 2)) = Some True" by code_simp+
  then show ?thesis using * projDeps by (auto simp: projGroup_def)
qed

lemma entriesOf_proj:
  "entriesOf ''/p'' (projDigests c) proj =
     [(''a'', ''a.tsp'', replicate 32 (CHR ''x'')), (''b'', ''b.tsp'', replicate 32 (CHR ''x'')), (''c'', ''c.tsp'', replicate 32 c)]"
  by (simp add: entriesOf_def projEntries)

lemma projPrints_eq:
  "groupFingerprints id proj projIndex ''/p'' (projDigests c) = Some (fst (projPrints c), snd (projPrints c))"
proof -
  have "groupFingerprints id proj projIndex ''/p'' (projDigests c) \<noteq> None"
    using projGroups_deps by (auto simp: groupFingerprints_def projEntries groupFingerprint_def projDirs ownFiles_def)
  then show ?thesis by (auto simp: projPrints_def)
qed

lemma map_of_dom: "dom f = set ds \<Longrightarrow> map_of (map (\<lambda>d. (d, the (f d))) ds) = f"
proof
  fix x assume *: "dom f = set ds"
  show "map_of (map (\<lambda>d. (d, the (f d))) ds) x = f x"
  proof (cases "x \<in> set ds")
    case True
    then have "f x \<noteq> None" using * by auto
    then show ?thesis using True by (simp add: map_of_map_restrict)
  next
    case False
    then have "f x = None" using * by auto
    moreover have "map_of (map (\<lambda>d. (d, the (f d))) ds) x = None" using False by (simp add: map_of_eq_None_iff image_image)
    ultimately show ?thesis by simp
  qed
qed

lemma proj_itemDir: "itemDir projIndex x = Some d \<Longrightarrow> plainText d"
  using groupByDirectory_located [OF projIndex_eq, of x d] by (auto simp: projDirs plainText_def)

lemma projPlain: "plainBuild projIndex (entriesOf ''/p'' (projDigests c) proj)"
  using proj_itemDir by (auto simp: plainBuild_def projDirs plainText_def entriesOf_proj)

text \<open>The fingerprint of \<open>a\<close> does not depend on the digest of \<open>c\<close>.\<close>

lemma projPrints_a: "\<exists>fp. fst (projPrints c) ''a'' = Some fp \<and> fst (projPrints c') ''a'' = Some fp \<and> fp \<noteq> []"
proof -
  obtain A B C where g: "siGroups projIndex = [A, B, C]" "grDir A = ''a''" "groupDependencies proj projIndex A = Some ([''b''], True)"
    using projGroups_deps by blast
  have A: "A \<in> set (siGroups projIndex)" using g by simp
  have dist: "distinct (groupDirs projIndex)" by (simp add: projDirs)
  have fp: "fst (projPrints c) ''a'' = Some (hashSum id (groupParts id projIndex (entriesOf ''/p'' (projDigests c) proj) ''a'' [''b'']))" for c
    using groupFingerprints_at [OF projPrints_eq A dist] g(2,3) by auto
  have own: "ownHash id projIndex (entriesOf ''/p'' (projDigests c) proj) d = ownHash id projIndex (entriesOf ''/p'' (projDigests c') proj) d"
    if "d \<in> {''a'', ''b''}" for d using that by (auto simp: ownHash_def entriesOf_proj ownFiles_def)
  have parts: "groupParts id projIndex (entriesOf ''/p'' (projDigests c) proj) ''a'' [''b''] =
      groupParts id projIndex (entriesOf ''/p'' (projDigests c') proj) ''a'' [''b'']" by (simp add: groupParts_def own)
  have "hashSum id (groupParts id projIndex es ''a'' [''b'']) \<noteq> []" for es
  proof -
    let ?ps = "sort_key fst (groupParts id projIndex es ''a'' [''b''])"
    have "?ps \<noteq> []" using set_sort [of fst "groupParts id projIndex es ''a'' [''b'']"] by (auto simp: groupParts_def)
    then have "hashText ?ps \<noteq> []" by (cases ?ps) (auto simp: hashText_def)
    then show ?thesis by (cases "hashText ?ps") (simp_all add: hashSum_def hexEncode_def)
  qed
  then show ?thesis using fp parts by auto
qed

lemma planGroup_keeps: "plClean plan \<subseteq> plClean (planGroup sha disk cfg e fps g plan)"
  by (auto simp: planGroup_def split: option.splits)

lemma verifies:
  assumes "\<forall>p \<in> set ps. \<exists>out d. previous p = Some out \<and> verifyOutput sha savedAt out (disk p) = Some d"
  shows "\<exists>ds. verifyPreviousOutputs sha disk previous savedAt ps = Some ds"
  using assms by (induction ps) auto

lemma proj_verified:
  "\<exists>reused. verifyPreviousOutputs id projDisk (previousOutputs projConfig projCache) (ceSavedAt projCache)
     (expectedGroupOutputs projConfig (projGroup 0)) = Some reused"
proof (rule verifies)
  have paths: "map (pathJoin ''/p'') projOutputs = [''/p/gen/a/types.gen.go'', ''/p/gen/a/validate.gen.go'', ''/p/gen/a/server.gen.go'']"
    by code_simp
  have "set (expectedGroupOutputs projConfig (projGroup 0)) = set (map (pathJoin ''/p'') projOutputs)" by code_simp
  moreover have "hexDecode (hexEncode (replicate 32 (CHR ''d''))) = Some (replicate 32 (CHR ''d''))" by code_simp
  then have "verifyOutput id (ceSavedAt projCache) \<lparr>coPath = q, coSize = 7, coMTime = 1, coDigest = hexEncode (replicate 32 (CHR ''d''))\<rparr>
      (projDisk p) = Some (replicate 32 (CHR ''d''))" if "p \<in> set (map (pathJoin ''/p'') projOutputs)" for p q
    using that by (simp add: verifyOutput_def projDisk_def buildCacheRacy_def projCache_def)
  moreover have "\<exists>q. previousOutputs projConfig projCache p =
      Some \<lparr>coPath = q, coSize = 7, coMTime = 1, coDigest = hexEncode (replicate 32 (CHR ''d''))\<rparr>"
    if "p \<in> set (map (pathJoin ''/p'') projOutputs)" for p
  proof -
    have "pathJoin (bcDir projConfig) = pathJoin ''/p''" by (simp add: projConfig_def)
    then have "previousOutputs projConfig projCache = map_of (rev (map (\<lambda>q. (pathJoin ''/p'' q,
        \<lparr>coPath = q, coSize = 7, coMTime = 1, coDigest = hexEncode (replicate 32 (CHR ''d''))\<rparr>)) projOutputs))"
      by (simp add: previousOutputs_def projCache_def o_def)
    then show ?thesis using that paths by (auto simp: projOutputs_def)
  qed
  ultimately show "\<forall>p \<in> set (expectedGroupOutputs projConfig (projGroup 0)). \<exists>out d.
      previousOutputs projConfig projCache p = Some out \<and> verifyOutput id (ceSavedAt projCache) out (projDisk p) = Some d"
    by metis
qed

lemma projCache_groups: "map_of (ceGroups projCache) = fst (projPrints (CHR ''1''))"
  unfolding projCache_def using map_of_dom [OF groupFingerprints_dom [OF projPrints_eq [of "CHR ''1''"]]] by simp

lemma projPlan_a: "\<exists>plan. projPlan = Some plan \<and> ''a'' \<in> plClean plan"
proof -
  let ?f = "planGroup id projDisk projConfig projCache (fst (projPrints (CHR ''2'')))" and ?none = "\<lparr>plClean = {}, plReused = []\<rparr>"
  obtain A B C where g: "siGroups projIndex = [A, B, C]" "grDir A = ''a''" using projGroups_deps by blast
  obtain fp where fp: "fst (projPrints (CHR ''1'')) ''a'' = Some fp" "fst (projPrints (CHR ''2'')) ''a'' = Some fp" "fp \<noteq> []"
    using projPrints_a by blast
  obtain reused where "verifyPreviousOutputs id projDisk (previousOutputs projConfig projCache) (ceSavedAt projCache)
      (expectedGroupOutputs projConfig A) = Some reused" using proj_verified g by (auto simp: projGroup_def)
  then have "''a'' \<in> plClean (?f A ?none)" using fp g by (simp add: planGroup_def projCache_groups)
  then have "''a'' \<in> plClean (?f C (?f B (?f A ?none)))" using planGroup_keeps by blast
  moreover have "ceGroups projCache \<noteq> []" "ceConfigHash projCache = ''cfg''" by (simp_all add: projCache_def projDirs)
  moreover have "ceGroupSet projCache = snd (projPrints (CHR ''2''))"
  proof -
    have "snd (projPrints c) = hashSum id (setParts projIndex)" for c
      using projPrints_eq [of c] by (auto simp: groupFingerprints_def projEntries split: if_splits option.splits) (metis snd_conv)
    then show ?thesis by (simp add: projCache_def)
  qed
  ultimately show ?thesis using g by (simp add: projPlan_def planIncremental_def)
qed

theorem kept_directories_are_current_witness:
  "(\<exists>plan. projPlan = Some plan \<and> ''a'' \<in> plClean plan \<and> ''c'' \<notin> plClean plan) \<and>
   list_all (asLeft id projDisk projConfig projCache) (map (pathJoin ''/p'') projOutputs)"
proof -
  obtain plan where plan: "projPlan = Some plan" "''a'' \<in> plClean plan" using projPlan_a by blast
  have dist: "distinct (groupDirs projIndex)" by (simp add: projDirs)
  have prev: "groupFingerprints id proj projIndex ''/p'' (projDigests (CHR ''1'')) = Some (map_of (ceGroups projCache), snd (projPrints (CHR ''1'')))"
    using projPrints_eq [of "CHR ''1''"] by (simp add: projCache_groups)
  note current = kept_directories_are_current [OF plan(1) [unfolded projPlan_def] _ projPrints_eq dist projPlain prev dist projPlain inj_on_id]
  have "''c'' \<notin> plClean plan"
  proof
    assume "''c'' \<in> plClean plan"
    from current [OF this] obtain g g0 where "grDir g = ''c''" and
      same: "sameInputs proj projIndex (entriesOf ''/p'' (projDigests (CHR ''2'')) proj) g proj projIndex (entriesOf ''/p'' (projDigests (CHR ''1'')) proj) g0"
      by blast
    then show False by (simp add: sameInputs_def projDirs entriesOf_proj ownFiles_def)
  qed
  moreover obtain g where g: "g \<in> set (siGroups projIndex)" "grDir g = ''a''"
    "\<forall>p \<in> set (expectedGroupOutputs projConfig g). asLeft id projDisk projConfig projCache p" using current [OF plan(2)] by blast
  moreover have "list_all (\<lambda>g. grDir g = ''a'' \<longrightarrow> list_all (\<lambda>p. p \<in> set (expectedGroupOutputs projConfig g)) (map (pathJoin ''/p'') projOutputs))
      (siGroups projIndex)" by code_simp
  then have "\<forall>p \<in> set (map (pathJoin ''/p'') projOutputs). p \<in> set (expectedGroupOutputs projConfig g)"
    using g by (auto simp: list_all_iff)
  ultimately have "list_all (asLeft id projDisk projConfig projCache) (map (pathJoin ''/p'') projOutputs)"
    unfolding list_all_iff by blast
  with plan \<open>''c'' \<notin> plClean plan\<close> show ?thesis by blast
qed

subsection \<open>Runtime directories\<close>

text \<open>The directory \<open>./..\<close> is accepted for a shared runtime although it lies outside the output path.\<close>

lemma runtime_dir_escapes:
  "validateRuntimeOptions ''go-server'' ''shared'' ''./..'' = Inr () \<and> pathClean ''./..'' = ''..'' \<and>
   pathJoin ''/p/gen'' (pathClean ''./..'') = ''/p''"
  by code_simp

end
