(* ===== verification/Outputs.thy ===== *)
theory Outputs
  imports Incremental
begin

text \<open>
  The files of a build as a whole: the outputs expected from every target and the manifest that
  records them (\<open>build_manifest.go\<close>), the removal of stale outputs, the containment checks of
  \<open>safety.go\<close>, and the fingerprint and cache entry of a build (\<open>buildcache.go\<close>). The disk is what
  \<open>Lstat\<close>, \<open>Stat\<close>, \<open>Open\<close> and \<open>Remove\<close> answer; \<open>sha\<close> is \<open>sha256.Sum256\<close>.
\<close>

subsection \<open>Targets\<close>

definition serviceFilters :: "generateConfig \<Rightarrow> (string \<times> serviceFilter) list" where
  "serviceFilters g =
     (let named = (\<lambda>name f. case f of None \<Rightarrow> [] | Some x \<Rightarrow> [(name, x)]) in
      named ''go-server'' (map_option rtFilter (goServer g)) @ named ''go-client'' (map_option tgFilter (goClient g)) @
      named ''ts-client'' (map_option rtFilter (tsClient g)) @ named ''ts-server'' (map_option tgFilter (tsServer g)) @
      named ''python-client'' (map_option tgFilter (pythonClient g)) @ named ''dart-client'' (map_option tgFilter (dartClient g)) @
      named ''swift-client'' (map_option tgFilter (swiftClient g)) @ named ''rust-client'' (map_option tgFilter (rustClient g)) @
      named ''rust-server'' (map_option tgFilter (rustServer g)) @ named ''openapi'' (map_option tgFilter (openAPI g)))"

definition enabledTargets :: "generateConfig \<Rightarrow> string list" where
  "enabledTargets g =
     map fst (filter snd
       [(''go-server'', goServer g \<noteq> None), (''go-client'', goClient g \<noteq> None), (''ts-client'', tsClient g \<noteq> None),
        (''ts-server'', tsServer g \<noteq> None), (''python-client'', pythonClient g \<noteq> None), (''dart-client'', dartClient g \<noteq> None),
        (''swift-client'', swiftClient g \<noteq> None), (''rust-client'', rustClient g \<noteq> None),
        (''rust-server'', rustServer g \<noteq> None), (''openapi'', openAPI g \<noteq> None)])"

definition validateFieldNames :: "string \<Rightarrow> string \<Rightarrow> buildError + unit" where
  "validateFieldNames target value1 =
     (if value1 \<in> {[], ''camel'', ''wire''} then Inr () else Inl (''field_names must be camel or wire'', [target, value1]))"

definition validateInt64Encoding :: "string \<Rightarrow> buildError + unit" where
  "validateInt64Encoding value1 =
     (if value1 \<in> {[], ''string'', ''number''} then Inr () else Inl (''int64_encoding must be string or number'', [value1]))"

definition validateRepeatedStyle :: "string \<Rightarrow> buildError + unit" where
  "validateRepeatedStyle value1 =
     (if value1 \<in> {[], ''pointers'', ''values''} then Inr () else Inl (''repeated_style must be pointers or values'', [value1]))"

text \<open>The checks of the filters in \<open>build\<close>, before any target is generated. \<open>Inl None\<close> is a walk that does not return.\<close>

definition checkFilter :: "schema \<Rightarrow> sourceIndex \<Rightarrow> string \<times> serviceFilter \<Rightarrow> buildError option + unit" where
  "checkFilter S idx named =
     (let target = fst named; f = snd named; lift = (\<lambda>r. case r of Inl e \<Rightarrow> Inl (Some e) | Inr u \<Rightarrow> Inr u) in
      bindE (lift (checkMatches target idx f)) (\<lambda>_.
      bindE (lift (checkPackageMatches target idx f)) (\<lambda>_.
      case checkSelfContained S idx target (viewOf f idx) of
        None \<Rightarrow> Inl None | Some (Some e) \<Rightarrow> Inl (Some e) | Some None \<Rightarrow> Inr ())))"

definition checkFilters :: "schema \<Rightarrow> sourceIndex \<Rightarrow> buildConfig \<Rightarrow> buildError option + unit" where
  "checkFilters S idx cfg = bindE (mapE (checkFilter S idx) (serviceFilters (bcGenerate cfg))) (\<lambda>_. Inr ())"

subsection \<open>Expected outputs of every target\<close>

definition swiftSlug :: "string \<Rightarrow> string" where
  "swiftSlug relDir =
     (let joined = joinWith ''__'' (splitOn (CHR ''/'') relDir); cut = (\<lambda>c. c = CHR ''.'' \<or> c = CHR ''_'');
          slug = rev (dropWhile cut (rev (dropWhile cut joined))) in
      if slug = [] then ''Root'' else slug)"

definition swiftFileNames :: "string \<Rightarrow> string \<times> string" where
  "swiftFileNames relDir = (swiftSlug relDir @ ''__Models.swift'', swiftSlug relDir @ ''__Client.swift'')"

text \<open>\<open>genswift.GenerateClient\<close> writes a client unless every method is a WebSocket.\<close>

definition swiftHasClient :: "schemaFile \<Rightarrow> bool" where
  "swiftHasClient fl = list_ex (\<lambda>s. list_ex (\<lambda>m. \<not> isWebSocket m) (sMethods s)) (flServices fl)"

definition dartOutputs :: "buildConfig \<Rightarrow> sourceIndex \<Rightarrow> sourceGroup \<Rightarrow> string \<Rightarrow> (string \<times> string) list" where
  "dartOutputs cfg idx g rel =
     (case dartClient (bcGenerate cfg) of
        None \<Rightarrow> []
      | Some t \<Rightarrow>
          if \<not> keepsPackage (tgFilter t) (grDir g) then []
          else
            let file = expectOut (resolvePath cfg (tgOut t)) in
            [file ''onekit.dart''] @
            (if indexHasWS (viewOf (tgFilter t) idx)
             then [file ''onekit_ws.dart'', file ''onekit_ws_io.dart'', file ''onekit_ws_web.dart''] else []) @
            [file (pathJoin rel ''models.dart'')] @
            (if flServices (applyPortable (tgFilter t) (grFile g)) \<noteq> [] then [file (pathJoin rel ''client.dart'')] else []))"

definition swiftOutputs :: "buildConfig \<Rightarrow> sourceGroup \<Rightarrow> string \<Rightarrow> (string \<times> string) list" where
  "swiftOutputs cfg g rel =
     (case swiftClient (bcGenerate cfg) of
        None \<Rightarrow> []
      | Some t \<Rightarrow>
          if \<not> keepsPackage (tgFilter t) (grDir g) then []
          else
            let file = expectOut (resolvePath cfg (tgOut t)); (models, client) = swiftFileNames rel in
            [file ''Onekit.swift'', file (pathJoin rel models)] @
            (if swiftHasClient (applyPortable (tgFilter t) (grFile g)) then [file (pathJoin rel client)] else []))"

text \<open>One side of the Rust output: the filter of an absent side keeps nothing.\<close>

definition rustServes :: "serviceFilter option \<Rightarrow> sourceGroup \<Rightarrow> bool" where
  "rustServes f g = (case f of None \<Rightarrow> False
     | Some x \<Rightarrow> keepsPackage x (grDir g) \<and> flServices (applyPortable x (grFile g)) \<noteq> [])"

definition rustGroupOutputs :: "(string \<Rightarrow> string \<times> string) \<Rightarrow> serviceFilter option \<Rightarrow> serviceFilter option \<Rightarrow> sourceGroup \<Rightarrow> (string \<times> string) list" where
  "rustGroupOutputs file client server g =
     (if \<not> keepsPackageOf client (grDir g) \<and> \<not> keepsPackageOf server (grDir g) then []
      else
        let rel = (if grDir g = ''.'' then [] else grDir g); up = pathDir rel in
        [file (pathJoin rel ''types.rs'')] @
        (if rustServes client g then [file (pathJoin rel ''client.rs'')] else []) @
        (if rustServes server g then [file (pathJoin rel ''server.rs'')] else []) @
        map (\<lambda>d. file (pathJoin d ''mod.rs'')) (parentDirs (length up) up) @
        (if rel \<noteq> [] then [file (pathJoin rel ''mod.rs'')] else []))"

definition rustOutputs ::
  "buildConfig \<Rightarrow> sourceIndex \<Rightarrow> targetConfig option \<Rightarrow> serviceFilter option \<Rightarrow> serviceFilter option \<Rightarrow> (string \<times> string) list" where
  "rustOutputs cfg idx target client server =
     (case target of
        None \<Rightarrow> []
      | Some t \<Rightarrow>
          let file = expectOut (resolvePath cfg (tgOut t)) in
          file ''mod.rs'' # concat (map (rustGroupOutputs file client server) (siGroups idx)))"

text \<open>A client and a server in one directory are generated together.\<close>

definition allRustOutputs :: "buildConfig \<Rightarrow> sourceIndex \<Rightarrow> (string \<times> string) list" where
  "allRustOutputs cfg idx =
     (let client = rustClient (bcGenerate cfg); server = rustServer (bcGenerate cfg);
          separate = rustOutputs cfg idx client (map_option tgFilter client) None @
            rustOutputs cfg idx server None (map_option tgFilter server) in
      case (client, server) of
        (Some c, Some s) \<Rightarrow>
          if pathClean (resolvePath cfg (tgOut c)) = pathClean (resolvePath cfg (tgOut s))
          then rustOutputs cfg idx client (Some (tgFilter c)) (Some (tgFilter s)) else separate
      | _ \<Rightarrow> separate)"

definition allOpenAPIOutputs :: "buildConfig \<Rightarrow> sourceIndex \<Rightarrow> (string \<times> string) list" where
  "allOpenAPIOutputs cfg idx =
     (case openAPI (bcGenerate cfg) of
        None \<Rightarrow> []
      | Some t \<Rightarrow> concat (map (openAPIOutputs cfg) (siGroups (viewOf (tgFilter t) idx))))"

definition groupOutputs :: "buildConfig \<Rightarrow> sourceIndex \<Rightarrow> sourceGroup \<Rightarrow> (string \<times> string) list" where
  "groupOutputs cfg idx g =
     (let rel = (if grDir g = ''.'' then [] else grDir g) in
      goOutputs cfg rel (grDir g) @ tsOutputs cfg rel (grDir g) @ dartOutputs cfg idx g rel @ swiftOutputs cfg g rel @
      pythonOutputs cfg rel (grDir g))"

definition runtimeOutputs :: "buildConfig \<Rightarrow> (string \<times> string) list" where
  "runtimeOutputs cfg =
     (case goServer (bcGenerate cfg) of
        None \<Rightarrow> []
      | Some t \<Rightarrow>
          (case sharedRuntimeDir (Some t) of
             Some d \<Rightarrow> [expectOut (resolvePath cfg (rtOut t)) (pathJoin d ''runtime.gen.go'')] | None \<Rightarrow> []))"

definition expectedGeneratedOutputs :: "buildConfig \<Rightarrow> sourceIndex \<Rightarrow> (string \<times> string) list" where
  "expectedGeneratedOutputs cfg idx =
     concat (map (groupOutputs cfg idx) (siGroups idx)) @ allRustOutputs cfg idx @ allOpenAPIOutputs cfg idx @ runtimeOutputs cfg"

text \<open>The roots of the map; that of OpenAPI is there even without a document.\<close>

definition expectedRoots :: "buildConfig \<Rightarrow> sourceIndex \<Rightarrow> string list" where
  "expectedRoots cfg idx =
     remdups (map fst (expectedGeneratedOutputs cfg idx) @
       (case openAPI (bcGenerate cfg) of None \<Rightarrow> [] | Some t \<Rightarrow> [pathClean (resolvePath cfg (tgOut t))]))"

subsection \<open>Paths inside a directory\<close>

definition escapes :: "string \<Rightarrow> bool" where
  "escapes rel \<longleftrightarrow> rel = ''..'' \<or> hasPrefix rel ''../''"

definition pathWithin :: "string \<Rightarrow> string \<Rightarrow> bool" where
  "pathWithin parent child =
     (case filepathRel parent child of
        None \<Rightarrow> False
      | Some rel \<Rightarrow> if rel = ''.'' \<or> isAbs rel then False else \<not> escapes rel)"

definition insideAny :: "string list \<Rightarrow> string \<Rightarrow> bool" where
  "insideAny roots p = list_ex (\<lambda>r. pathClean r = pathClean p \<or> pathWithin r p) roots"

datatype fileKind = KDir | KRegular | KSymlink | KOther

text \<open>The answer of \<open>Lstat\<close>: nothing there, another error, or a kind of file.\<close>

datatype inspected = Missing | Unreadable | Found fileKind

text \<open>The directories from a path up to the root, the path first.\<close>

fun pathsUp :: "nat \<Rightarrow> string \<Rightarrow> string list" where
  "pathsUp 0 p = []"
| "pathsUp (Suc k) p = p # (if pathDir p = p then [] else pathsUp k (pathDir p))"

definition rejectSymlink :: "(string \<Rightarrow> inspected) \<Rightarrow> string \<Rightarrow> buildError + unit" where
  "rejectSymlink lstat p =
     (case lstat p of
        Found KSymlink \<Rightarrow> Inl (''refusing symlink path component'', [p])
      | Unreadable \<Rightarrow> Inl (''inspect path'', [p])
      | _ \<Rightarrow> Inr ())"

definition rejectSymlinkPath :: "(string \<Rightarrow> inspected) \<Rightarrow> string \<Rightarrow> buildError + unit" where
  "rejectSymlinkPath lstat p =
     (let q = pathClean p in bindE (mapE (rejectSymlink lstat) (pathsUp (Suc (length q)) q)) (\<lambda>_. Inr ()))"

definition validateContainedOutput :: "(string \<Rightarrow> inspected) \<Rightarrow> string \<Rightarrow> string \<Rightarrow> buildError + unit" where
  "validateContainedOutput lstat top1 output =
     (if isAbs output then Inl (''generator output path must be relative to the project'', [output])
      else
        let clean = pathClean output; full = pathJoin top1 clean in
        case filepathRel top1 full of
          None \<Rightarrow> Inl (''generator output path must stay inside the project'', [output])
        | Some rel \<Rightarrow>
            if rel = ''.'' \<or> isAbs rel \<or> escapes rel
            then Inl (''generator output path must stay inside the project'', [output])
            else bindE (rejectSymlinkPath lstat full) (\<lambda>_.
              case lstat full of
                Found k \<Rightarrow> if k = KDir then Inr () else Inl (''generator output path is not a directory'', [output])
              | Missing \<Rightarrow> Inr ()
              | Unreadable \<Rightarrow> Inl (''inspect generator output path'', [output])))"

definition schemaPathRune :: "rune \<Rightarrow> bool" where
  "schemaPathRune r \<longleftrightarrow> 97 \<le> r \<and> r \<le> 122 \<or> 65 \<le> r \<and> r \<le> 90 \<or> 48 \<le> r \<and> r \<le> 57 \<or> r = 95 \<or> r = 45 \<or> r = 46"

definition validateSchemaPath :: "string \<Rightarrow> string \<Rightarrow> buildError + unit" where
  "validateSchemaPath top1 p =
     (case filepathRel top1 p of
        None \<Rightarrow> Inl (''relative path'', [p])
      | Some rel \<Rightarrow>
          (case find (\<lambda>seg. \<not> list_all schemaPathRune (runes seg)) (splitOn (CHR ''/'') rel) of
             Some seg \<Rightarrow> Inl (''schema path contains unsafe path segment'', [p, seg]) | None \<Rightarrow> Inr ()))"

subsection \<open>The manifest and stale outputs\<close>

type_synonym manifestOutputs = "(string \<times> string list) list"

text \<open>The outputs a manifest lists: each root and its sorted files, relative to the project.\<close>

definition manifestRoot :: "string \<Rightarrow> (string \<times> string) list \<Rightarrow> string \<Rightarrow> (string \<times> string list) option" where
  "manifestRoot dir expected r =
     map_option (\<lambda>rel. (rel, sort (remdups (map (\<lambda>e. pathJoin rel (snd e)) (filter (\<lambda>e. fst e = r) expected))))) (filepathRel dir r)"

definition writtenManifest :: "string \<Rightarrow> string list \<Rightarrow> (string \<times> string) list \<Rightarrow> manifestOutputs option" where
  "writtenManifest dir roots expected = mapO (manifestRoot dir expected) roots"

definition ownedFile :: "string \<Rightarrow> string \<Rightarrow> string list" where
  "ownedFile rootRel file =
     (case filepathRel rootRel file of
        None \<Rightarrow> [] | Some rel \<Rightarrow> if isAbs rel \<or> escapes rel then [] else [pathClean rel])"

definition ownedRoot :: "string \<Rightarrow> string \<times> string list \<Rightarrow> (string \<times> string) list" where
  "ownedRoot dir entry =
     (let r = pathClean (pathJoin dir (fst entry)) in
      if \<not> pathWithin dir r then []
      else map (\<lambda>rel. (r, rel)) (concat (map (ownedFile (fst entry)) (snd entry))))"

definition previousGeneratedOutputs :: "string \<Rightarrow> manifestOutputs \<Rightarrow> (string \<times> string) list" where
  "previousGeneratedOutputs dir m = concat (map (ownedRoot dir) m)"

text \<open>
  The disk of the cleanup: \<open>Lstat\<close>, \<open>Stat\<close>, the first bytes a file holds when it can be opened, and
  whether removing it succeeds.
\<close>

record cleanupDisk =
  cdLstat :: "string \<Rightarrow> inspected"
  cdStat :: "string \<Rightarrow> inspected"
  cdHead :: "string \<Rightarrow> string option"
  cdRemovable :: "string \<Rightarrow> bool"

fun dirsUp :: "nat \<Rightarrow> string \<Rightarrow> string \<Rightarrow> string list" where
  "dirsUp 0 top1 current = []"
| "dirsUp (Suc k) top1 current =
     (if current \<noteq> pathClean top1 \<and> pathWithin top1 current then current # dirsUp k top1 (pathDir current) else [])"

definition hasSymlinkBelow :: "(string \<Rightarrow> inspected) \<Rightarrow> string \<Rightarrow> string \<Rightarrow> bool" where
  "hasSymlinkBelow lstat top1 dir =
     (let d = pathClean dir in
      list_ex (\<lambda>p. case lstat p of Found k \<Rightarrow> k = KSymlink | _ \<Rightarrow> True) (dirsUp (length d) top1 d))"

definition hasGeneratedBanner :: "(string \<Rightarrow> string option) \<Rightarrow> string \<Rightarrow> bool" where
  "hasGeneratedBanner head1 p =
     (if pathExt p \<notin> {''.go'', ''.ts'', ''.py'', ''.dart'', ''.swift'', ''.rs''} then True
      else case head1 p of None \<Rightarrow> False | Some data \<Rightarrow> containsStr (take 1024 data) ''Code generated by onkt'')"

definition removesFile :: "cleanupDisk \<Rightarrow> string \<Rightarrow> string \<Rightarrow> string list \<Rightarrow> string list \<Rightarrow> string \<Rightarrow> bool" where
  "removesFile disk dir r protected removed p \<longleftrightarrow>
     \<not> (\<not> pathWithin r p \<or> insideAny protected p \<or> hasSymlinkBelow (cdLstat disk) dir (pathDir p)) \<and>
     p \<notin> set removed \<and> cdLstat disk p = Found KRegular \<and> hasGeneratedBanner (cdHead disk) p"

text \<open>The paths removed so far; a failing removal ends the loop.\<close>

fun cleanupFiles :: "cleanupDisk \<Rightarrow> string \<Rightarrow> string \<Rightarrow> string list \<Rightarrow> string list \<Rightarrow> string list \<Rightarrow> buildError option \<times> string list" where
  "cleanupFiles disk dir r protected [] removed = (None, removed)"
| "cleanupFiles disk dir r protected (rel # rels) removed =
     (let p = pathJoin r rel in
      if \<not> removesFile disk dir r protected removed p then cleanupFiles disk dir r protected rels removed
      else if \<not> cdRemovable disk p then (Some (''remove stale generated output'', [p]), removed)
      else cleanupFiles disk dir r protected rels (removed @ [p]))"

definition staleOutputs :: "(string \<times> string) list \<Rightarrow> (string \<times> string) list \<Rightarrow> string \<Rightarrow> string list" where
  "staleOutputs expected owned r =
     sort (remdups (map snd (filter (\<lambda>o1. fst o1 = r \<and> (r, snd o1) \<notin> set expected) owned)))"

definition cleanupGeneratedRoot ::
  "cleanupDisk \<Rightarrow> string \<Rightarrow> (string \<times> string) list \<Rightarrow> (string \<times> string) list \<Rightarrow> string list \<Rightarrow> string \<Rightarrow> string list \<Rightarrow> buildError option \<times> string list" where
  "cleanupGeneratedRoot disk dir expected owned protected r removed =
     (if cdLstat disk r = Found KSymlink then (None, removed)
      else case cdStat disk r of
        Missing \<Rightarrow> (None, removed)
      | Unreadable \<Rightarrow> (Some (''stat generated output root'', [r]), removed)
      | Found k \<Rightarrow>
          if k \<noteq> KDir then (Some (''generated output root is not a directory'', [r]), removed)
          else cleanupFiles disk dir r protected (staleOutputs expected owned r) removed)"

fun cleanupRoots ::
  "cleanupDisk \<Rightarrow> string \<Rightarrow> (string \<times> string) list \<Rightarrow> (string \<times> string) list \<Rightarrow> string list \<Rightarrow> string list \<Rightarrow> string list \<Rightarrow> buildError option \<times> string list" where
  "cleanupRoots disk dir expected owned allRoots [] removed = (None, removed)"
| "cleanupRoots disk dir expected owned allRoots (r # rs) removed =
     (case cleanupGeneratedRoot disk dir expected owned (filter (\<lambda>other. r \<noteq> other \<and> pathWithin r other) allRoots) r removed of
        (Some e, removed1) \<Rightarrow> (Some e, removed1)
      | (None, removed1) \<Rightarrow> cleanupRoots disk dir expected owned allRoots rs removed1)"

text \<open>\<open>expectedBy\<close> are the roots expected now; a root only owned is cleaned too.\<close>

definition cleanupStale ::
  "cleanupDisk \<Rightarrow> string \<Rightarrow> string list \<Rightarrow> (string \<times> string) list \<Rightarrow> (string \<times> string) list \<Rightarrow> buildError option \<times> string list" where
  "cleanupStale disk dir expectedBy expected owned =
     (let roots = sort (remdups (expectedBy @ map fst owned)) in
      cleanupRoots disk dir expected owned roots roots [])"

definition cleanupStaleGeneratedOutputs ::
  "cleanupDisk \<Rightarrow> buildConfig \<Rightarrow> sourceIndex \<Rightarrow> manifestOutputs \<Rightarrow> buildError option \<times> string list" where
  "cleanupStaleGeneratedOutputs disk cfg idx m =
     cleanupStale disk (bcDir cfg) (expectedRoots cfg idx) (expectedGeneratedOutputs cfg idx) (previousGeneratedOutputs (bcDir cfg) m)"

subsection \<open>The fingerprint and the cache entry of a build\<close>

text \<open>The hashed text of a whole build: the schema files in order with their digests, then the configuration.\<close>

definition fingerprintText :: "(string \<times> string) list \<Rightarrow> string \<Rightarrow> string" where
  "fingerprintText files config =
     [CHR 0x02] @ concat (map (\<lambda>(rel, digest). rel @ [CHR 0x00] @ digest) files) @ [CHR 0x01] @ config"

record schemaFingerprint =
  sfSum :: string
  sfFiles :: fileSums
  sfConfigHash :: string

text \<open>\<open>files\<close> are the paths found with their contents, \<open>None\<close> for one that cannot be read.\<close>

definition fingerprintFile :: "(string \<Rightarrow> string) \<Rightarrow> string \<Rightarrow> string \<times> string option \<Rightarrow> (string \<times> string) option" where
  "fingerprintFile sha schemaDir f =
     (case snd f of
        None \<Rightarrow> None | Some data \<Rightarrow> map_option (\<lambda>rel. (rel, sha data)) (filepathRel schemaDir (fst f)))"

definition buildFingerprint ::
  "(string \<Rightarrow> string) \<Rightarrow> string \<Rightarrow> (string \<times> string option) list \<Rightarrow> string option \<Rightarrow> schemaFingerprint option" where
  "buildFingerprint sha schemaDir files configData =
     (let sorted1 = sort_key fst files in
      case (mapO (fingerprintFile sha schemaDir) sorted1, configData) of
        (Some hashed, Some config) \<Rightarrow>
          Some \<lparr>sfSum = hexEncode (sha (fingerprintText hashed config)),
                sfFiles = map_of (rev (map (\<lambda>(p, data). (pathClean p, sha (the data))) sorted1)),
                sfConfigHash = hexEncode (sha config)\<rparr>
      | _ \<Rightarrow> None)"

definition cacheOutput :: "string \<Rightarrow> disk \<Rightarrow> string \<times> string \<Rightarrow> cachedOutput option" where
  "cacheOutput dir disk written =
     (case filepathRel dir (fst written) of
        None \<Rightarrow> None
      | Some rel \<Rightarrow>
          (case disk (fst written) of
             None \<Rightarrow> None
           | Some f \<Rightarrow>
               if \<not> dfRegular f then None
               else Some \<lparr>coPath = rel, coSize = dfSize f, coMTime = dfMTime f, coDigest = hexEncode (snd written)\<rparr>))"

text \<open>What \<open>saveBuildCache\<close> writes: the files written, by path, with their digests. \<open>None\<close> when nothing is saved.\<close>

definition savedEntry ::
  "buildConfig \<Rightarrow> disk \<Rightarrow> (int \<times> int) option \<Rightarrow> int \<Rightarrow> schemaFingerprint \<Rightarrow> string \<Rightarrow> (string \<times> string) list \<Rightarrow> int \<Rightarrow> string \<Rightarrow>
    (string \<times> string) list \<Rightarrow> cacheEntry option" where
  "savedEntry cfg disk stamp now1 fp exeHash digests files groupSet groups =
     (case stamp of
        None \<Rightarrow> None
      | Some (size1, mtime) \<Rightarrow>
          if exeHash = [] then None
          else case mapO (cacheOutput (bcDir cfg) disk) (sort_key fst digests) of
            None \<Rightarrow> None
          | Some outputs \<Rightarrow>
              Some \<lparr>ceFingerprint = sfSum fp, ceExeSize = size1, ceExeMTime = mtime, ceExeHash = exeHash, ceSavedAt = now1,
                    ceFiles = files, ceOutputs = outputs, ceConfigHash = sfConfigHash fp, ceGroupSet = groupSet, ceGroups = groups\<rparr>)"

text \<open>The digests of a partial build: those of the files written, then those reused and not written.\<close>

definition withReused :: "(string \<times> string) list \<Rightarrow> (string \<times> string) list \<Rightarrow> (string \<times> string) list" where
  "withReused written reused = written @ filter (\<lambda>(p, d). p \<notin> set (map fst written)) (remdups reused)"

end
