(* ===== verification/OutputProps.thy ===== *)
theory OutputProps
  imports Outputs
begin

text \<open>
  Absolute paths as lists of elements: cleaning, joining, \<open>Rel\<close> and \<open>pathWithin\<close> on them, and what the
  loops of the cleanup remove.
\<close>

subsection \<open>Absolute paths\<close>

definition properEl :: "string \<Rightarrow> bool" where
  "properEl el \<longleftrightarrow> el \<noteq> [] \<and> el \<noteq> ''.'' \<and> el \<noteq> ''..'' \<and> CHR ''/'' \<notin> set el"

definition absPath :: "string list \<Rightarrow> string" where "absPath els = ''/'' @ joinWith ''/'' els"

lemma isAbs_absPath [simp]: "isAbs (absPath els)" by (simp add: absPath_def isAbs_def hasPrefix_def)

lemma proper_split: "list_all properEl els \<Longrightarrow> els \<noteq> [] \<Longrightarrow> splitOn (CHR ''/'') (joinWith ''/'' els) = els"
  by (rule split_join) (auto simp: list_all_iff properEl_def)

lemma proper_join_hd:
  assumes "list_all properEl els" "els \<noteq> []"
  shows "takeWhile (\<lambda>c. c \<noteq> CHR ''/'') (joinWith ''/'' els) = hd els" "joinWith ''/'' els \<noteq> []" "hd (joinWith ''/'' els) \<noteq> CHR ''/''"
proof -
  obtain x xs where e: "els = x # xs" using assms(2) by (cases els) auto
  then have x: "x \<noteq> []" "CHR ''/'' \<notin> set x" using assms(1) by (auto simp: properEl_def)
  have all: "\<forall>c \<in> set x. c \<noteq> CHR ''/''" using x(2) by blast
  have t: "takeWhile (\<lambda>c. c \<noteq> CHR ''/'') (x @ y) = x @ takeWhile (\<lambda>c. c \<noteq> CHR ''/'') y" for y
    by (rule takeWhile_append2) (use all in blast)
  obtain r where r: "joinWith ''/'' els = x @ r" "takeWhile (\<lambda>c. c \<noteq> CHR ''/'') r = []" unfolding e by (cases xs) auto
  show "takeWhile (\<lambda>c. c \<noteq> CHR ''/'') (joinWith ''/'' els) = hd els" unfolding r(1) t r(2) by (simp add: e)
  show "joinWith ''/'' els \<noteq> []" using x(1) unfolding r(1) by simp
  show "hd (joinWith ''/'' els) \<noteq> CHR ''/''" using x(1) all unfolding r(1) by (metis hd_append2 hd_in_set)
qed

lemma proper_kept: "list_all properEl (rev kept) \<Longrightarrow> keptOk r kept"
proof -
  assume p: "list_all properEl (rev kept)"
  have "properEl el" if "el \<in> set kept" for el using p that unfolding list_all_iff by simp
  then have "\<forall>el \<in> set kept. plainEl el \<and> el \<noteq> ''..''" unfolding properEl_def plainEl_def by blast
  then show ?thesis unfolding keptOk_def by (intro conjI exI [of _ kept] exI [of _ "[]"]) simp_all
qed

lemma fold_proper: "list_all properEl els \<Longrightarrow> foldl (cleanStep r) [] els = rev els"
  using fold_kept [OF proper_kept, of "rev els" r] by simp

lemma clean_absPath: "list_all properEl els \<Longrightarrow> pathClean (absPath els) = absPath els"
proof (cases "els = []")
  case True
  then show ?thesis by (simp add: absPath_def pathClean_def isAbs_def hasPrefix_def cleanStep_def)
next
  case False
  assume "list_all properEl els"
  with False show ?thesis
    by (simp add: absPath_def pathClean_def isAbs_def hasPrefix_def cleanStep_def proper_split fold_proper Let_def)
qed

lemma clean_proper: "list_all properEl els \<Longrightarrow> els \<noteq> [] \<Longrightarrow> pathClean (joinWith ''/'' els) = joinWith ''/'' els"
proof -
  assume e: "list_all properEl els" "els \<noteq> []"
  have "\<not> isAbs (joinWith ''/'' els)"
    using proper_join_hd(2,3) [OF e] by (cases "joinWith ''/'' els") (auto simp: isAbs_def hasPrefix_def)
  then show ?thesis using e proper_join_hd(2) [OF e] by (simp add: pathClean_def proper_split fold_proper Let_def)
qed

definition elemsOf :: "string \<Rightarrow> string list" where "elemsOf p = pathElems (pathClean p)"

lemma pathElems_absPath: "list_all properEl els \<Longrightarrow> pathElems (absPath els) = els"
  using proper_join_hd(2) [of els] proper_split [of els]
  by (cases "els = []") (auto simp: pathElems_def absPath_def trimPrefix_def hasPrefix_def Let_def)

lemma clean_abs:
  assumes "isAbs p"
  shows "list_all properEl (elemsOf p) \<and> pathClean p = absPath (elemsOf p)"
proof -
  define kept where "kept = foldl (cleanStep True) [] (splitOn (CHR ''/'') p)"
  have c: "pathClean p = absPath (rev kept)" using assms by (simp add: pathClean_def kept_def absPath_def Let_def)
  have "keptOk True kept" unfolding kept_def by (rule keptOk_fold) (auto dest: splitOn_noSep)
  then have "list_all properEl (rev kept)" by (auto simp: keptOk_def plainEl_def properEl_def list_all_iff)
  then show ?thesis using c pathElems_absPath by (simp add: elemsOf_def)
qed

lemma elemsOf_absPath: "list_all properEl els \<Longrightarrow> elemsOf (absPath els) = els"
  by (simp add: elemsOf_def clean_absPath pathElems_absPath)

lemma absPath_inj: "list_all properEl a \<Longrightarrow> list_all properEl b \<Longrightarrow> absPath a = absPath b \<longleftrightarrow> a = b"
  by (metis elemsOf_absPath)

lemma join_absPath:
  assumes "list_all properEl a" "list_all properEl fs" "fs \<noteq> []"
  shows "pathJoin (absPath a) (joinWith ''/'' fs) = absPath (a @ fs)"
proof -
  have ne: "absPath a \<noteq> []" by (simp add: absPath_def)
  have "pathClean (absPath a @ ''/'' @ joinWith ''/'' fs) = absPath (a @ fs)"
  proof (cases "a = []")
    case True
    then show ?thesis using assms
      by (simp add: absPath_def pathClean_def isAbs_def hasPrefix_def cleanStep_def proper_split fold_proper Let_def)
  next
    case False
    have "joinWith ''/'' (a @ fs) = joinWith ''/'' a @ ''/'' @ joinWith ''/'' fs"
      using False assms(3) by (induction a rule: induct_list012) (auto simp: joinWith_Cons)
    then have "absPath a @ ''/'' @ joinWith ''/'' fs = absPath (a @ fs)" by (simp add: absPath_def)
    then show ?thesis using assms clean_absPath [of "a @ fs"] by simp
  qed
  then show ?thesis using ne by (simp add: pathJoin_def)
qed

lemma pathWithin_clean: "pathWithin (pathClean p) (pathClean q) = pathWithin p q"
  by (simp add: pathWithin_def filepathRel_def pathClean_idem)

text \<open>A relative path that goes up first escapes.\<close>

lemma escapes_up: "xs \<noteq> [] \<Longrightarrow> escapes (joinWith ''/'' (map (\<lambda>_. ''..'') xs @ ys))"
  by (cases xs; cases "tl xs"; cases ys) (auto simp: escapes_def hasPrefix_def)

lemma proper_stays:
  assumes "list_all properEl ys" "ys \<noteq> []"
  shows "joinWith ''/'' ys \<noteq> ''.''" "\<not> isAbs (joinWith ''/'' ys)" "\<not> escapes (joinWith ''/'' ys)"
proof -
  note j = proper_join_hd [OF assms]
  have h: "properEl (hd ys)" using assms by (cases ys) auto
  show "joinWith ''/'' ys \<noteq> ''.''" using j(1) h by (auto simp: properEl_def)
  show "\<not> isAbs (joinWith ''/'' ys)" using j(2,3) by (cases "joinWith ''/'' ys") (auto simp: isAbs_def hasPrefix_def)
  have "joinWith ''/'' ys \<noteq> ''..''" using j(1) h by (auto simp: properEl_def)
  moreover have "\<not> hasPrefix (joinWith ''/'' ys) ''../''"
  proof
    assume "hasPrefix (joinWith ''/'' ys) ''../''"
    then have "take 3 (joinWith ''/'' ys) = ''../''" by (simp add: hasPrefix_def numeral_3_eq_3)
    then have "joinWith ''/'' ys = ''../'' @ drop 3 (joinWith ''/'' ys)" by (metis append_take_drop_id)
    then have "takeWhile (\<lambda>c. c \<noteq> CHR ''/'') (''../'' @ drop 3 (joinWith ''/'' ys)) = hd ys" using j(1) by simp
    then show False using h by (simp add: properEl_def)
  qed
  ultimately show "\<not> escapes (joinWith ''/'' ys)" by (simp add: escapes_def)
qed

lemma rel_absPath:
  assumes "list_all properEl a" "list_all properEl b" "a \<noteq> b"
  shows "\<exists>zs x y. a = zs @ x \<and> b = zs @ y \<and> filepathRel (absPath a) (absPath b) = Some (joinWith ''/'' (map (\<lambda>_. ''..'') x @ y))"
proof -
  obtain x y where s: "stripCommon a b = (x, y)" by (cases "stripCommon a b")
  then obtain zs where z: "a = zs @ x" "b = zs @ y" using stripCommon_sound by blast
  have "absPath a \<noteq> ''.''" by (simp add: absPath_def)
  moreover have "absPath b \<noteq> absPath a" using absPath_inj assms by blast
  moreover have "x = [] \<or> hd x \<noteq> ''..''" using assms(1) z(1) by (cases x) (auto simp: properEl_def)
  ultimately have "filepathRel (absPath a) (absPath b) = Some (joinWith ''/'' (map (\<lambda>_. ''..'') x @ y))"
    using assms s by (auto simp: filepathRel_def clean_absPath pathElems_absPath Let_def)
  with z show ?thesis by blast
qed

lemma stripCommon_extends: "stripCommon a (a @ ts) = ([], ts)" by (rule stripCommon_append)

lemma within_absPath:
  assumes "list_all properEl a" "list_all properEl b"
  shows "pathWithin (absPath a) (absPath b) \<longleftrightarrow> (\<exists>ts. ts \<noteq> [] \<and> b = a @ ts)"
proof (cases "a = b")
  case True
  then show ?thesis by (simp add: pathWithin_def filepathRel_def Let_def)
next
  case False
  obtain x y where s: "stripCommon a b = (x, y)" by (cases "stripCommon a b")
  then obtain zs where z: "a = zs @ x" "b = zs @ y" using stripCommon_sound by blast
  have "absPath a \<noteq> ''.''" by (simp add: absPath_def)
  moreover have "absPath b \<noteq> absPath a" using absPath_inj assms False by blast
  moreover have "x = [] \<or> hd x \<noteq> ''..''" using assms(1) z(1) by (cases x) (auto simp: properEl_def)
  ultimately have r: "filepathRel (absPath a) (absPath b) = Some (joinWith ''/'' (map (\<lambda>_. ''..'') x @ y))"
    using assms s by (auto simp: filepathRel_def clean_absPath pathElems_absPath Let_def)
  show ?thesis
  proof (cases "x = []")
    case True
    then have "y \<noteq> []" "list_all properEl y" using z False assms(2) by auto
    then show ?thesis using r True z proper_stays [of y] by (auto simp: pathWithin_def)
  next
    case f: False
    have "\<not> (\<exists>ts. b = a @ ts)"
    proof
      assume "\<exists>ts. b = a @ ts"
      then obtain ts where "b = a @ ts" by blast
      then show False using s f stripCommon_append [of a ts] by simp
    qed
    then show ?thesis using r escapes_up [OF f, of y] by (auto simp: pathWithin_def)
  qed
qed

lemma isAbs_clean: "isAbs (pathClean p) \<longleftrightarrow> isAbs p"
proof (cases "isAbs p")
  case False
  define kept where "kept = foldl (cleanStep False) [] (splitOn (CHR ''/'') p)"
  have ok: "keptOk False kept" unfolding kept_def by (rule keptOk_fold) (auto dest: splitOn_noSep)
  have c: "pathClean p = (if joinWith ''/'' (rev kept) = [] then ''.'' else joinWith ''/'' (rev kept))"
    using False by (simp add: pathClean_def kept_def Let_def)
  have "\<not> isAbs (joinWith ''/'' (rev kept))"
  proof (cases "rev kept")
    case (Cons x xs)
    then have "plainEl x" using ok unfolding keptOk_def by (metis list.set_intros(1) set_rev)
    then show ?thesis using Cons by (cases x; cases xs) (auto simp: plainEl_def isAbs_def hasPrefix_def)
  qed (simp add: isAbs_def hasPrefix_def)
  then show ?thesis using False c by (auto simp: isAbs_def hasPrefix_def)
qed (use clean_abs in auto)

text \<open>\<open>pathWithin\<close> below an absolute directory: one list of elements extends the other.\<close>

lemma within_abs:
  assumes "isAbs p"
  shows "pathWithin p q \<longleftrightarrow> isAbs q \<and> (\<exists>ts. ts \<noteq> [] \<and> elemsOf q = elemsOf p @ ts)"
proof (cases "isAbs q")
  case True
  have "pathWithin p q = pathWithin (absPath (elemsOf p)) (absPath (elemsOf q))"
    using clean_abs [OF assms] clean_abs [OF True] pathWithin_clean [of p q] by simp
  then show ?thesis using within_absPath clean_abs [OF assms] clean_abs [OF True] True by simp
next
  case False
  have "pathClean p \<noteq> ''.''" using clean_abs [OF assms] by (simp add: absPath_def)
  moreover have "isAbs (pathClean p)" "\<not> isAbs (pathClean q)" using assms False isAbs_clean by auto
  ultimately show ?thesis using False by (auto simp: pathWithin_def filepathRel_def Let_def)
qed

subsection \<open>Directories between two paths\<close>

lemma dirPart_snoc: "CHR ''/'' \<notin> set x \<Longrightarrow> dirPart (p @ ''/'' @ x) = p @ ''/''"
proof -
  assume x: "CHR ''/'' \<notin> set x"
  have "dropWhile (\<lambda>c. c \<noteq> CHR ''/'') (rev x @ CHR ''/'' # rev p) = CHR ''/'' # rev p"
    using x by (subst dropWhile_append2) auto
  then show ?thesis by (simp add: dirPart_def)
qed

lemma join_snoc: "els \<noteq> [] \<Longrightarrow> joinWith ''/'' (els @ [x]) = joinWith ''/'' els @ ''/'' @ x"
  by (induction els rule: induct_list012) auto

lemma pathDir_absPath:
  assumes "list_all properEl els" "properEl x"
  shows "pathDir (absPath (els @ [x])) = absPath els"
proof (cases "els = []")
  case True
  have "dirPart (''/'' @ x) = ''/''" using dirPart_snoc [of x "[]"] assms(2) by (simp add: properEl_def)
  then show ?thesis using clean_absPath [of "[]"] True by (simp add: pathDir_def absPath_def)
next
  case False
  have "absPath (els @ [x]) = absPath els @ ''/'' @ x" using join_snoc [OF False] by (simp add: absPath_def)
  then have d: "dirPart (absPath (els @ [x])) = absPath els @ ''/''"
    using dirPart_snoc [of x "absPath els"] assms(2) by (simp add: properEl_def)
  have "splitOn (CHR ''/'') (joinWith ''/'' els @ ''/'') = els @ [[]]"
  proof -
    have "joinWith ''/'' els @ ''/'' = joinWith ''/'' (els @ [[]])" using join_snoc [OF False, of "[]"] by simp
    moreover have "splitOn (CHR ''/'') (joinWith ''/'' (els @ [[]])) = els @ [[]]"
      by (rule split_join) (use assms(1) in \<open>auto simp: list_all_iff properEl_def\<close>)
    ultimately show ?thesis by simp
  qed
  then have "pathClean (absPath els @ ''/'') = absPath els"
    using assms(1) by (simp add: absPath_def pathClean_def isAbs_def hasPrefix_def cleanStep_def fold_proper Let_def)
  then show ?thesis by (simp add: pathDir_def d)
qed

text \<open>The loop meets every directory below the top, given as many levels as there are elements.\<close>

lemma dirsUp_absPath:
  assumes "list_all properEl a" "list_all properEl ts" "length ts \<le> k"
  shows "dirsUp (Suc k) (absPath a) (absPath (a @ ts)) = map (\<lambda>i. absPath (a @ take i ts)) (rev [1..<Suc (length ts)])"
  using assms(2,3)
proof (induction ts arbitrary: k rule: rev_induct)
  case Nil
  then show ?case using clean_absPath [OF assms(1)] by simp
next
  case (snoc x ts)
  obtain k' where k: "k = Suc k'" using snoc.prems(2) by (cases k) auto
  have p: "list_all properEl (a @ ts @ [x])" "list_all properEl (a @ ts)" "properEl x" using assms(1) snoc.prems(1) by auto
  have "pathWithin (absPath a) (absPath (a @ ts @ [x]))" using within_absPath [OF assms(1) p(1)] by blast
  moreover have "absPath (a @ ts @ [x]) \<noteq> pathClean (absPath a)"
    using absPath_inj [OF p(1) assms(1)] clean_absPath [OF assms(1)] by simp
  moreover have "pathDir (absPath (a @ ts @ [x])) = absPath (a @ ts)" using pathDir_absPath [OF p(2,3)] by simp
  moreover have "dirsUp (Suc k') (absPath a) (absPath (a @ ts)) = map (\<lambda>i. absPath (a @ take i ts)) (rev [1..<Suc (length ts)])"
    by (rule snoc.IH) (use snoc.prems k in auto)
  moreover have "map (\<lambda>i. absPath (a @ take i (ts @ [x]))) (rev [1..<Suc (length ts)]) = map (\<lambda>i. absPath (a @ take i ts)) (rev [1..<Suc (length ts)])"
    by (rule map_cong) auto
  ultimately show ?case by (simp add: k)
qed

lemma joinWith_length: "list_all properEl els \<Longrightarrow> length els \<le> length (joinWith ''/'' els)"
proof (induction els rule: induct_list012)
  case (2 x)
  then show ?case by (cases x) (auto simp: properEl_def)
qed auto

lemma noSymlinkBelow:
  assumes "isAbs top1" "\<not> hasSymlinkBelow lstat top1 d" "isAbs d" "pathWithin top1 q" "q = d \<or> pathWithin q d"
  shows "\<exists>k. lstat (pathClean q) = Found k \<and> k \<noteq> KSymlink"
proof -
  let ?a = "elemsOf top1" and ?e = "elemsOf d"
  note a = clean_abs [OF assms(1)] and e = clean_abs [OF assms(3)]
  obtain us where us: "us \<noteq> []" "elemsOf q = ?a @ us" "isAbs q" using within_abs [OF assms(1)] assms(4) by blast
  have q: "pathClean q = absPath (?a @ us)" using clean_abs [OF us(3)] us(2) by simp
  obtain vs where vs: "?e = ?a @ us @ vs"
  proof (cases "q = d")
    case True
    then show ?thesis using that [of "[]"] us(2) by simp
  next
    case False
    then have "pathWithin q d" using assms(5) by simp
    then show ?thesis using that within_abs [OF us(3)] us(2) by auto
  qed
  have ok: "list_all properEl ?a" "list_all properEl (us @ vs)" using a e vs by auto
  have "pathClean d = absPath (?a @ us @ vs)" using e vs by simp
  moreover have "dirsUp (length (absPath (?a @ us @ vs))) top1 (absPath (?a @ us @ vs)) =
      dirsUp (length (absPath (?a @ us @ vs))) (absPath ?a) (absPath (?a @ us @ vs))" for k
  proof -
    have "dirsUp k top1 p = dirsUp k (absPath ?a) p" for k p
    proof (induction k arbitrary: p)
      case (Suc k)
      have "pathClean (absPath ?a) = pathClean top1" "pathWithin (absPath ?a) p = pathWithin top1 p"
        using a pathWithin_clean [of top1 p] pathWithin_clean [of "absPath ?a" p] clean_absPath by simp_all
      then show ?case using Suc by simp
    qed simp
    then show ?thesis by blast
  qed
  moreover have "length (us @ vs) \<le> length (joinWith ''/'' (?a @ us @ vs))"
    using joinWith_length [of "?a @ us @ vs"] ok by simp
  ultimately have dirs: "dirsUp (length (pathClean d)) top1 (pathClean d) =
      map (\<lambda>i. absPath (?a @ take i (us @ vs))) (rev [1..<Suc (length (us @ vs))])"
    using dirsUp_absPath [OF ok, of "length (joinWith ''/'' (?a @ us @ vs))"] by (simp add: absPath_def)
  have "length us \<in> set (rev [1..<Suc (length (us @ vs))])" proof -
    have "1 \<le> length us" using us(1) by (simp add: Suc_le_eq)
    then show ?thesis by (simp add: set_upt del: upt_Suc)
  qed
  moreover have "absPath (?a @ take (length us) (us @ vs)) = pathClean q" using q by simp
  ultimately have "pathClean q \<in> set (dirsUp (length (pathClean d)) top1 (pathClean d))" unfolding dirs set_map by (metis imageI)
  moreover have "list_all (\<lambda>p. \<not> (case lstat p of Found k \<Rightarrow> k = KSymlink | _ \<Rightarrow> True)) (dirsUp (length (pathClean d)) top1 (pathClean d))"
    using assms(2) by (simp add: hasSymlinkBelow_def Let_def list_ex_iff list_all_iff)
  ultimately have "\<not> (case lstat (pathClean q) of Found k \<Rightarrow> k = KSymlink | _ \<Rightarrow> True)" by (simp add: list_all_iff)
  then show ?thesis by (cases "lstat (pathClean q)") auto
qed

lemma elems_eq: "isAbs p \<Longrightarrow> pathClean p = p \<Longrightarrow> isAbs q \<Longrightarrow> pathClean q = q \<Longrightarrow> elemsOf p = elemsOf q \<Longrightarrow> p = q"
  using clean_abs [of p] clean_abs [of q] by simp

text \<open>Joining a directory with any elements: they are cleaned from where the directory stands.\<close>

lemma join_elems:
  assumes "list_all properEl a" "ws \<noteq> []" "\<forall>w \<in> set ws. CHR ''/'' \<notin> set w"
  shows "pathJoin (absPath a) (joinWith ''/'' ws) = absPath (rev (foldl (cleanStep True) (rev a) ws))"
proof -
  have ne: "absPath a \<noteq> []" by (simp add: absPath_def)
  have split: "splitOn (CHR ''/'') (joinWith ''/'' ws) = ws" by (rule split_join [OF assms(2,3)])
  have "pathClean (absPath a @ ''/'' @ joinWith ''/'' ws) = absPath (rev (foldl (cleanStep True) (rev a) ws))"
  proof (cases "a = []")
    case True
    then show ?thesis using split
      by (simp add: absPath_def pathClean_def isAbs_def hasPrefix_def cleanStep_def Let_def)
  next
    case False
    have "joinWith ''/'' a @ ''/'' @ joinWith ''/'' ws = joinWith ''/'' (a @ ws)"
      using False assms(2) by (induction a rule: induct_list012) (auto simp: joinWith_Cons)
    moreover have "splitOn (CHR ''/'') (joinWith ''/'' (a @ ws)) = a @ ws"
      by (rule split_join) (use assms False in \<open>auto simp: list_all_iff properEl_def\<close>)
    ultimately show ?thesis using fold_proper [OF assms(1), of True]
      by (simp add: absPath_def pathClean_def isAbs_def hasPrefix_def cleanStep_def Let_def)
  qed
  then show ?thesis using ne by (simp add: pathJoin_def)
qed

lemma join_dot: "isAbs r \<Longrightarrow> pathClean r = r \<Longrightarrow> pathJoin r ''.'' = r"
  using join_elems [of "elemsOf r" "[''.'']"] clean_abs [of r] by (simp add: cleanStep_def)

lemma fold_up: "list_all properEl x \<Longrightarrow> foldl (cleanStep True) (rev x @ kept) (map (\<lambda>_. ''..'') x) = kept"
proof (induction x arbitrary: kept rule: rev_induct)
  case (snoc el x)
  have "map (\<lambda>_. ''..'') (x @ [el]) = ''..'' # map (\<lambda>_. ''..'') x"
    by (induction x) auto
  then show ?case using snoc by (simp add: cleanStep_def properEl_def)
qed simp

lemma fold_down: "list_all properEl y \<Longrightarrow> foldl (cleanStep True) kept y = rev y @ kept"
  by (induction y arbitrary: kept) (auto simp: cleanStep_def properEl_def)

lemma splitOn_sep: "splitOn c (a @ c # b) = splitOn c a @ splitOn c b"
proof (induction a)
  case (Cons x a)
  then show ?case by (cases "splitOn c a") auto
qed simp

lemma fold_abs:
  assumes "isAbs d"
  shows "foldl (cleanStep True) [] (splitOn (CHR ''/'') d) = rev (elemsOf d)"
proof -
  define kept where "kept = foldl (cleanStep True) [] (splitOn (CHR ''/'') d)"
  have c: "pathClean d = absPath (rev kept)" using assms by (simp add: pathClean_def kept_def absPath_def Let_def)
  have "keptOk True kept" unfolding kept_def by (rule keptOk_fold) (auto dest: splitOn_noSep)
  then have "list_all properEl (rev kept)" by (auto simp: keptOk_def plainEl_def properEl_def list_all_iff)
  then have "elemsOf d = rev kept" using c pathElems_absPath by (simp add: elemsOf_def)
  then show ?thesis by (simp add: kept_def)
qed

lemma join_abs: "isAbs d \<Longrightarrow> pathJoin d x = absPath (rev (foldl (cleanStep True) (rev (elemsOf d)) (splitOn (CHR ''/'') x)))"
proof -
  assume d: "isAbs d"
  then have "d \<noteq> []" "isAbs (d @ ''/'' @ x)" by (cases d; simp add: isAbs_def hasPrefix_def)+
  moreover have "splitOn (CHR ''/'') (d @ ''/'' @ x) = splitOn (CHR ''/'') d @ splitOn (CHR ''/'') x" using splitOn_sep by simp
  ultimately show ?thesis using fold_abs [OF d] by (simp add: pathJoin_def pathClean_def absPath_def Let_def)
qed

lemma join_clean_left: "isAbs d \<Longrightarrow> pathJoin (pathClean d) x = pathJoin d x"
  using join_abs [of d x] join_abs [of "pathClean d" x] isAbs_clean [of d] by (simp add: elemsOf_def pathClean_idem)

text \<open>\<open>Join\<close> undoes \<open>Rel\<close>.\<close>

lemma join_rel:
  assumes "isAbs d" "isAbs r" "pathClean r = r" "filepathRel d r = Some rel" "pathClean d = d"
  shows "pathJoin d rel = r"
proof -
  have d: "list_all properEl (elemsOf d)" "absPath (elemsOf d) = d" using clean_abs [OF assms(1)] assms(5) by simp_all
  have r: "list_all properEl (elemsOf r)" "absPath (elemsOf r) = r" using clean_abs [OF assms(2)] assms(3) by simp_all
  show ?thesis
  proof (cases "elemsOf d = elemsOf r")
    case True
    then have "r = d" using elems_eq [OF assms(2,3,1,5)] by simp
    moreover from this have "rel = ''.''" using assms(4) by (simp add: filepathRel_def Let_def)
    ultimately show ?thesis using join_dot [OF assms(1,5)] by simp
  next
    case False
    obtain zs x y where z: "elemsOf d = zs @ x" "elemsOf r = zs @ y"
      "filepathRel (absPath (elemsOf d)) (absPath (elemsOf r)) = Some (joinWith ''/'' (map (\<lambda>_. ''..'') x @ y))"
      using rel_absPath [OF d(1) r(1) False] by blast
    have "rel = joinWith ''/'' (map (\<lambda>_. ''..'') x @ y)" using z(3) assms(4) by (simp only: d(2) r(2) option.inject)
    note xy = z(1,2) this
    have ne: "map (\<lambda>_. ''..'') x @ y \<noteq> []" using False by (auto simp only: xy(1,2) append_Nil2 append_is_Nil_conv map_is_Nil_conv)
    have px: "list_all properEl x" using d(1) by (simp only: xy(1) list_all_append)
    have py: "list_all properEl y" using r(1) by (simp only: xy(2) list_all_append)
    have noSep: "\<forall>w \<in> set (map (\<lambda>_. ''..'') x @ y). CHR ''/'' \<notin> set w"
    proof
      fix w assume "w \<in> set (map (\<lambda>_. ''..'') x @ y)"
      then consider "w = ''..''" | "w \<in> set y" unfolding set_append set_map by blast
      then show "CHR ''/'' \<notin> set w"
      proof cases
        case 2
        then show ?thesis using py unfolding list_all_iff properEl_def by blast
      qed simp
    qed
    have "foldl (cleanStep True) (rev (elemsOf d)) (map (\<lambda>_. ''..'') x @ y) = rev (elemsOf r)"
      using fold_up [OF px, of "rev zs"] fold_down [OF py, of "rev zs"] by (simp only: xy(1,2) rev_append foldl_append)
    then have "absPath (rev (foldl (cleanStep True) (rev (elemsOf d)) (map (\<lambda>_. ''..'') x @ y))) = r" by (simp only: rev_rev_ident r(2))
    then show ?thesis using join_elems [OF d(1) ne noSep] by (simp only: xy(3) d(2))
  qed
qed

subsection \<open>The loops of the cleanup\<close>

text \<open>What every removed path satisfies, for the root it is removed under.\<close>

definition removable :: "cleanupDisk \<Rightarrow> string \<Rightarrow> (string \<times> string) list \<Rightarrow> (string \<times> string) list \<Rightarrow> string list \<Rightarrow> string \<Rightarrow> bool" where
  "removable disk dir expected owned roots p \<longleftrightarrow>
     (\<exists>r rel. (r, rel) \<in> set owned \<and> (r, rel) \<notin> set expected \<and> r \<in> set roots \<and> p = pathJoin r rel \<and> pathWithin r p \<and>
        \<not> insideAny (filter (\<lambda>other. r \<noteq> other \<and> pathWithin r other) roots) p \<and> \<not> hasSymlinkBelow (cdLstat disk) dir (pathDir p) \<and>
        cdLstat disk p = Found KRegular \<and> hasGeneratedBanner (cdHead disk) p)"

lemma cleanupFiles_removes:
  "cleanupFiles disk dir r protected rels removed = (e, removed') \<Longrightarrow> p \<in> set removed' \<Longrightarrow>
     p \<in> set removed \<or> (\<exists>rel \<in> set rels. p = pathJoin r rel \<and> (\<exists>before1. removesFile disk dir r protected before1 p))"
proof (induction rels arbitrary: removed)
  case (Cons rel rels)
  let ?p = "pathJoin r rel"
  show ?case
  proof (cases "removesFile disk dir r protected removed ?p")
    case False
    then show ?thesis using Cons by (auto simp: Let_def)
  next
    case True
    show ?thesis
    proof (cases "cdRemovable disk ?p")
      case t: True
      then have "cleanupFiles disk dir r protected rels (removed @ [?p]) = (e, removed')" using Cons.prems(1) True by (simp add: Let_def)
      from Cons.IH [OF this Cons.prems(2)] show ?thesis using True by auto
    next
      case False
      then show ?thesis using Cons.prems True by (auto simp: Let_def)
    qed
  qed
qed simp

lemma staleOutputs_set: "rel \<in> set (staleOutputs expected owned r) \<longleftrightarrow> (r, rel) \<in> set owned \<and> (r, rel) \<notin> set expected"
  by (force simp: staleOutputs_def)

lemma cleanupGeneratedRoot_removes:
  assumes "cleanupGeneratedRoot disk dir expected owned (filter (\<lambda>other. r \<noteq> other \<and> pathWithin r other) roots) r removed = (e, removed')"
    "p \<in> set removed'" "r \<in> set roots"
  shows "p \<in> set removed \<or> removable disk dir expected owned roots p"
proof -
  consider "removed' = removed"
    | "cleanupFiles disk dir r (filter (\<lambda>other. r \<noteq> other \<and> pathWithin r other) roots) (staleOutputs expected owned r) removed = (e, removed')"
    using assms(1) by (auto simp: cleanupGeneratedRoot_def split: if_splits inspected.splits)
  then show ?thesis
  proof cases
    case 2
    from cleanupFiles_removes [OF this assms(2)] consider "p \<in> set removed"
      | rel before1 where "(r, rel) \<in> set owned" "(r, rel) \<notin> set expected" "p = pathJoin r rel"
        "removesFile disk dir r (filter (\<lambda>other. r \<noteq> other \<and> pathWithin r other) roots) before1 p"
      by (auto simp: staleOutputs_set)
    then show ?thesis
    proof cases
      case 2
      from 2(4) have "pathWithin r p \<and> \<not> insideAny (filter (\<lambda>other. r \<noteq> other \<and> pathWithin r other) roots) p \<and>
        \<not> hasSymlinkBelow (cdLstat disk) dir (pathDir p) \<and> cdLstat disk p = Found KRegular \<and> hasGeneratedBanner (cdHead disk) p"
        by (simp add: removesFile_def)
      with 2(1-3) assms(3) show ?thesis unfolding removable_def by blast
    qed simp
  qed (use assms(2) in simp)
qed

lemma cleanupRoots_removes:
  "cleanupRoots disk dir expected owned roots rs removed = (e, removed') \<Longrightarrow> set rs \<subseteq> set roots \<Longrightarrow> p \<in> set removed' \<Longrightarrow>
     p \<in> set removed \<or> removable disk dir expected owned roots p"
proof (induction rs arbitrary: removed)
  case (Cons r rs)
  let ?c = "cleanupGeneratedRoot disk dir expected owned (filter (\<lambda>other. r \<noteq> other \<and> pathWithin r other) roots) r removed"
  obtain e1 removed1 where c: "?c = (e1, removed1)" by (cases ?c)
  have r: "r \<in> set roots" using Cons.prems(2) by simp
  show ?case
  proof (cases e1)
    case None
    then have "cleanupRoots disk dir expected owned roots rs removed1 = (e, removed')" using Cons.prems(1) c by simp
    from Cons.IH [OF this] show ?thesis using Cons.prems(2,3) cleanupGeneratedRoot_removes [OF c _ r] by auto
  next
    case (Some x)
    then have "removed' = removed1" using Cons.prems(1) c by simp
    then show ?thesis using Cons.prems(3) cleanupGeneratedRoot_removes [OF c _ r] by auto
  qed
qed simp

lemma cleanupStale_removes:
  assumes "cleanupStale disk dir expectedBy expected owned = (e, removed)" "p \<in> set removed"
  shows "removable disk dir expected owned (sort (remdups (expectedBy @ map fst owned))) p"
  using cleanupRoots_removes [OF assms(1) [unfolded cleanupStale_def Let_def] subset_refl assms(2)] by simp

subsection \<open>Owned outputs\<close>

lemma owned_root: "(r, rel) \<in> set (previousGeneratedOutputs dir m) \<Longrightarrow> pathWithin dir r \<and> pathClean r = r"
  by (auto simp: previousGeneratedOutputs_def ownedRoot_def Let_def pathClean_idem split: if_splits)

lemma isAbs_append: "isAbs a \<Longrightarrow> isAbs (a @ b)" by (cases a) (auto simp: isAbs_def hasPrefix_def)

lemma pathJoin_abs: "isAbs a \<Longrightarrow> isAbs (pathJoin a b)"
proof -
  assume a: "isAbs a"
  then have "a \<noteq> []" by (auto simp: isAbs_def hasPrefix_def)
  then show ?thesis using isAbs_append [OF a] by (simp add: pathJoin_def isAbs_clean)
qed

text \<open>Distinct plain names below a root give distinct paths.\<close>

definition plainRel :: "string \<Rightarrow> bool" where
  "plainRel rel \<longleftrightarrow> (\<exists>fs. fs \<noteq> [] \<and> list_all properEl fs \<and> rel = joinWith ''/'' fs)"

lemma plainRel_join: "isAbs r \<Longrightarrow> pathClean r = r \<Longrightarrow> plainRel rel \<Longrightarrow>
    \<exists>fs. fs \<noteq> [] \<and> list_all properEl fs \<and> rel = joinWith ''/'' fs \<and> pathJoin r rel = absPath (elemsOf r @ fs) \<and>
      elemsOf (pathJoin r rel) = elemsOf r @ fs"
proof -
  assume r: "isAbs r" "pathClean r = r" and "plainRel rel"
  then obtain fs where fs: "fs \<noteq> []" "list_all properEl fs" "rel = joinWith ''/'' fs" unfolding plainRel_def by blast
  note a = clean_abs [OF r(1), unfolded r(2)]
  have "pathJoin r rel = absPath (elemsOf r @ fs)" using join_absPath [OF _ fs(2,1)] a fs(3) by metis
  moreover have "elemsOf (absPath (elemsOf r @ fs)) = elemsOf r @ fs" by (rule elemsOf_absPath) (use a fs in auto)
  ultimately show ?thesis using fs by auto
qed

lemma plainRel_inj:
  assumes "isAbs r" "pathClean r = r" "plainRel a" "plainRel b" "pathJoin r a = pathJoin r b"
  shows "a = b"
proof -
  obtain fs where fs: "a = joinWith ''/'' fs" "elemsOf (pathJoin r a) = elemsOf r @ fs" using plainRel_join [OF assms(1-3)] by blast
  obtain gs where gs: "b = joinWith ''/'' gs" "elemsOf (pathJoin r b) = elemsOf r @ gs" using plainRel_join [OF assms(1,2,4)] by blast
  have "elemsOf r @ fs = elemsOf r @ gs" using fs(2) gs(2) assms(5) by metis
  then show ?thesis using fs(1) gs(1) by simp
qed

text \<open>A relative path that does not escape is the directory itself or plain.\<close>

lemma keptOk_tail:
  assumes "keptOk r kept" "rev kept = zs @ ts" "ts \<noteq> []" "hd ts \<noteq> ''..''"
  shows "list_all properEl ts"
proof -
  obtain names dots where k: "\<forall>el \<in> set kept. plainEl el" "kept = names @ dots" "\<forall>el \<in> set names. el \<noteq> ''..''"
    "\<forall>el \<in> set dots. el = ''..''" using assms(1) unfolding keptOk_def by blast
  have e: "rev dots @ rev names = zs @ ts" using assms(2) k(2) by simp
  have "length dots \<le> length zs"
  proof (rule ccontr)
    assume "\<not> length dots \<le> length zs"
    then have "length zs < length (rev dots)" by simp
    moreover have "hd ts = (zs @ ts) ! length zs" using assms(3) by (simp add: hd_conv_nth nth_append)
    ultimately have "hd ts = rev dots ! length zs" unfolding e [symmetric] by (simp add: nth_append)
    then have "hd ts \<in> set (rev dots)" using \<open>length zs < length (rev dots)\<close> nth_mem [of "length zs" "rev dots"] by simp
    then show False using k(4) assms(4) by simp
  qed
  moreover obtain us where "zs = rev dots @ us \<and> rev names = us @ ts \<or> rev dots = zs @ us \<and> ts = us @ rev names"
    using e unfolding append_eq_append_conv2 by metis
  ultimately obtain us where "rev names = us @ ts"
  proof (elim disjE conjE)
    assume l: "length dots \<le> length zs" "rev dots = zs @ us" "ts = us @ rev names"
    have "length dots = length zs + length us" using arg_cong [OF l(2), of length] by simp
    then have "us = []" using l(1) by simp
    then show ?thesis using that [of "[]"] l(3) by simp
  qed blast
  then have "set ts \<subseteq> set (rev names)" by (simp only: set_append Un_upper2)
  then have "set ts \<subseteq> set names" by simp
  then show ?thesis using k(1-3) unfolding list_all_iff plainEl_def properEl_def by auto
qed

lemma join_hd: "xs \<noteq> [] \<Longrightarrow> hd xs = ''..'' \<Longrightarrow> escapes (joinWith ''/'' xs)"
  using escapes_up [of "[hd xs]" "tl xs"] by (cases xs) auto

lemma rel_plain:
  assumes "filepathRel b t = Some rel" "\<not> escapes rel"
  shows "pathClean rel = ''.'' \<or> plainRel rel"
proof -
  define kept where "kept = foldl (cleanStep (isAbs t)) [] (splitOn (CHR ''/'') t)"
  have ok: "keptOk (isAbs t) kept" unfolding kept_def by (rule keptOk_fold) (auto dest: splitOn_noSep)
  have c: "pathClean t = (if isAbs t then absPath (rev kept)
      else if joinWith ''/'' (rev kept) = [] then ''.'' else joinWith ''/'' (rev kept))"
    by (simp add: pathClean_def kept_def absPath_def Let_def)
  obtain xs ys where sc: "stripCommon (pathElems (if pathClean b = ''.'' then [] else pathClean b)) (pathElems (pathClean t)) = (xs, ys)"
    by fastforce
  have "rel = ''.'' \<or> rel = joinWith ''/'' (map (\<lambda>_. ''..'') xs @ ys)"
    using assms(1) sc unfolding filepathRel_def Let_def by (simp split: if_splits)
  then consider "rel = ''.''" | "rel = joinWith ''/'' (map (\<lambda>_. ''..'') xs @ ys)" by blast
  then show ?thesis
  proof cases
    case 1
    have "pathClean ''.'' = ''.''" by code_simp
    then show ?thesis using 1 by simp
  next
    case 2
    then have xs: "xs = []" using escapes_up [of xs ys] assms(2) by blast
    obtain zs where z: "pathElems (pathClean t) = zs @ ys" using stripCommon_sound [OF sc] by blast
    have dot: "pathClean [] = ''.''" "pathClean ''.'' = ''.''" by code_simp+
    show ?thesis
    proof (cases "ys = [] \<or> rev kept = []")
      case True
      have "pathElems (pathClean t) \<in> {[], [''.'']}" if "rev kept = []"
        using that unfolding c by (auto simp: pathElems_def absPath_def trimPrefix_def hasPrefix_def)
      then have "ys = [] \<or> ys = [''.'']" using True z by (cases zs) auto
      then show ?thesis using 2 xs dot by auto
    next
      case False
      have plain: "\<forall>el \<in> set (rev kept). plainEl el" using ok by (simp add: keptOk_def)
      have split: "splitOn (CHR ''/'') (joinWith ''/'' (rev kept)) = rev kept"
        by (rule split_join) (use False plain in \<open>auto simp: plainEl_def\<close>)
      obtain x rest where h: "rev kept = x # rest" using False by (cases "rev kept") auto
      then obtain d x' where x: "x = d # x'" "d \<noteq> CHR ''/''" using plain by (cases x) (auto simp: plainEl_def)
      have j: "\<exists>u. joinWith ''/'' (rev kept) = d # u" unfolding h x by (cases rest) auto
      have "pathElems (pathClean t) = rev kept"
        using j x(2) split unfolding c by (auto simp: pathElems_def absPath_def trimPrefix_def hasPrefix_def Let_def)
      then have "rev kept = zs @ ys" using z by simp
      moreover have "ys \<noteq> []" "hd ys \<noteq> ''..''" using False join_hd [of ys] assms(2) 2 xs by auto
      ultimately have "list_all properEl ys" by (rule keptOk_tail [OF ok])
      then show ?thesis using 2 xs \<open>ys \<noteq> []\<close> unfolding plainRel_def by auto
    qed
  qed
qed

lemma owned_plain: "(r, rel) \<in> set (previousGeneratedOutputs dir m) \<Longrightarrow> rel = ''.'' \<or> plainRel rel"
proof -
  assume "(r, rel) \<in> set (previousGeneratedOutputs dir m)"
  then obtain b t rel0 where "filepathRel b t = Some rel0" "\<not> escapes rel0" "rel = pathClean rel0"
    by (auto simp: previousGeneratedOutputs_def ownedRoot_def ownedFile_def Let_def split: if_splits option.splits) metis
  with rel_plain [of b t rel0] show ?thesis using clean_proper unfolding plainRel_def by auto
qed

end
