(* ===== verification/OutputGuarantees.thy ===== *)
theory OutputGuarantees
  imports OutputProps IncrementalProps
begin

text \<open>
  The properties of a build's outputs: what the cleanup may remove and what it leaves, and that the
  manifest gives back what it recorded.
\<close>

subsection \<open>Roots and joined paths\<close>

lemma expectOut_root: "isAbs (bcDir cfg) \<Longrightarrow> e = expectOut (resolvePath cfg out) rel \<Longrightarrow> isAbs (fst e) \<and> pathClean (fst e) = fst e"
  by (auto simp: expectOut_def resolvePath_def pathClean_idem isAbs_clean intro: pathJoin_abs)

definition fromTarget :: "buildConfig \<Rightarrow> (string \<times> string) list \<Rightarrow> bool" where
  "fromTarget cfg outs \<longleftrightarrow> (\<forall>e \<in> set outs. \<exists>out rel. e = expectOut (resolvePath cfg out) rel)"

lemma fromTarget_simps [simp]:
  "fromTarget cfg []" "fromTarget cfg (a # as) \<longleftrightarrow> (\<exists>out rel. a = expectOut (resolvePath cfg out) rel) \<and> fromTarget cfg as"
  "fromTarget cfg (as @ bs) \<longleftrightarrow> fromTarget cfg as \<and> fromTarget cfg bs"
  "fromTarget cfg (concat xss) \<longleftrightarrow> (\<forall>xs \<in> set xss. fromTarget cfg xs)"
  by (auto simp: fromTarget_def)

lemma fromTarget_map: "(\<And>x. \<exists>out rel. f x = expectOut (resolvePath cfg out) rel) \<Longrightarrow> fromTarget cfg (map f xs)"
  by (auto simp: fromTarget_def)

lemma expected_here [simp]: "\<exists>out' rel'. expectOut (resolvePath cfg out) rel = expectOut (resolvePath cfg out') rel'"
  by blast

lemma outputs_fromTarget:
  "fromTarget cfg (goOutputs cfg rel d)" "fromTarget cfg (tsOutputs cfg rel d)" "fromTarget cfg (pythonOutputs cfg rel d)"
  "fromTarget cfg (dartOutputs cfg idx g rel)" "fromTarget cfg (swiftOutputs cfg g rel)" "fromTarget cfg (openAPIOutputs cfg g)"
  "fromTarget cfg (runtimeOutputs cfg)"
  by (simp_all add: goOutputs_def tsOutputs_def pythonOutputs_def dartOutputs_def swiftOutputs_def openAPIOutputs_def
      runtimeOutputs_def Let_def fromTarget_map split: option.split prod.split)

lemma rustGroup_fromTarget: "fromTarget cfg (rustGroupOutputs (expectOut (resolvePath cfg out)) client server g)"
  by (simp add: rustGroupOutputs_def Let_def fromTarget_map)

lemma rust_fromTarget: "fromTarget cfg (rustOutputs cfg idx target client server)"
  by (simp add: rustOutputs_def Let_def rustGroup_fromTarget split: option.split)

lemma expected_fromTarget: "fromTarget cfg (expectedGeneratedOutputs cfg idx)"
  by (simp add: expectedGeneratedOutputs_def groupOutputs_def allRustOutputs_def allOpenAPIOutputs_def outputs_fromTarget
      rust_fromTarget Let_def split: option.split)

lemma expected_root:
  "isAbs (bcDir cfg) \<Longrightarrow> (r, rel) \<in> set (expectedGeneratedOutputs cfg idx) \<Longrightarrow> isAbs r \<and> pathClean r = r"
  using expected_fromTarget [of cfg idx] expectOut_root unfolding fromTarget_def by fastforce

subsection \<open>The cleanup\<close>

text \<open>
  C10: The cleanup stays inside the project and touches its own files only. A removed path lies below the
  project directory with no symbolic link in between, is a regular file with the generated banner where
  its format has one, was recorded by the manifest of the previous build, whatever that says, and is
  not expected under its root by this one.
\<close>

theorem cleanup_stays_inside:
  assumes "isAbs (bcDir cfg)" "cleanupStaleGeneratedOutputs disk cfg idx m = (e, removed)" "p \<in> set removed"
  shows "pathWithin (bcDir cfg) p \<and> cdLstat disk p = Found KRegular \<and> hasGeneratedBanner (cdHead disk) p \<and>
    (\<forall>q. pathWithin (bcDir cfg) q \<and> pathWithin q p \<longrightarrow> (\<exists>k. cdLstat disk (pathClean q) = Found k \<and> k \<noteq> KSymlink)) \<and>
    (\<exists>r rel. (r, rel) \<in> set (previousGeneratedOutputs (bcDir cfg) m) \<and> (r, rel) \<notin> set (expectedGeneratedOutputs cfg idx) \<and>
       p = pathJoin r rel)"
proof -
  from cleanupStale_removes [OF assms(2) [unfolded cleanupStaleGeneratedOutputs_def] assms(3)]
  obtain r rel where r: "(r, rel) \<in> set (previousGeneratedOutputs (bcDir cfg) m)" "(r, rel) \<notin> set (expectedGeneratedOutputs cfg idx)"
    "p = pathJoin r rel" "pathWithin r p" and s: "\<not> hasSymlinkBelow (cdLstat disk) (bcDir cfg) (pathDir p)"
    and k: "cdLstat disk p = Found KRegular" "hasGeneratedBanner (cdHead disk) p" unfolding removable_def by blast
  have root: "pathWithin (bcDir cfg) r" "isAbs r" using owned_root [OF r(1)] within_abs [OF assms(1)] by auto
  obtain us where us: "us \<noteq> []" "elemsOf r = elemsOf (bcDir cfg) @ us" using root within_abs [OF assms(1)] by blast
  obtain ts where ts: "ts \<noteq> []" "elemsOf p = elemsOf r @ ts" "isAbs p" using r(4) within_abs [OF root(2)] by blast
  have p: "pathWithin (bcDir cfg) p" using us ts within_abs [OF assms(1)] by auto
  have pc: "pathClean p = p" using r(3) root(2) by (auto simp: pathJoin_def pathClean_idem isAbs_def hasPrefix_def)
  have proper: "list_all properEl (elemsOf p)" "p = absPath (elemsOf p)" using clean_abs [OF ts(3)] pc by auto
  obtain front x where fx: "elemsOf p = front @ [x]" using ts by (metis append_is_Nil_conv rev_exhaust)
  have front: "list_all properEl front" "properEl x" using proper(1) fx by auto
  have d: "pathDir p = absPath front" using pathDir_absPath [OF front] proper(2) fx by simp
  have "\<exists>k. cdLstat disk (pathClean q) = Found k \<and> k \<noteq> KSymlink" if q: "pathWithin (bcDir cfg) q" "pathWithin q p" for q
  proof -
    have qa: "isAbs q" using q(1) within_abs [OF assms(1)] by blast
    obtain vs where vs: "vs \<noteq> []" "elemsOf p = elemsOf q @ vs" using q(2) within_abs [OF qa] by blast
    then obtain vs' where "front = elemsOf q @ vs'" using fx by (cases vs rule: rev_cases) auto
    then have f: "elemsOf (absPath front) = elemsOf q @ vs'" using elemsOf_absPath [OF front(1)] by simp
    have "pathClean q = absPath front \<or> pathWithin q (absPath front)"
    proof (cases "vs' = []")
      case True
      then show ?thesis using f clean_abs [OF qa] elemsOf_absPath [OF front(1)] by auto
    next
      case False
      then show ?thesis using f within_abs [OF qa] by auto
    qed
    moreover have "pathWithin (bcDir cfg) (pathClean q)" "pathWithin (pathClean q) (absPath front) = pathWithin q (absPath front)"
      using q(1) pathWithin_clean [of "bcDir cfg" q] pathWithin_clean [of "bcDir cfg" "pathClean q"] pathWithin_clean [of q "absPath front"]
        pathWithin_clean [of "pathClean q" "absPath front"] by (simp_all add: pathClean_idem)
    ultimately show ?thesis
      using noSymlinkBelow [OF assms(1) s, of "pathClean q"] d by (simp add: pathClean_idem)
  qed
  with p k r show ?thesis by blast
qed

text \<open>
  A project \<open>/p\<close> with a Go client in \<open>gen\<close> and the directories \<open>.\<close> and \<open>sub\<close>. Its previous build also had the
  directory \<open>old\<close>, and put the client in \<open>gen/sub\<close> before that.
\<close>

definition outConfig :: buildConfig where
  "outConfig = \<lparr>bcDir = ''/p'', bcGenerate = \<lparr>goServer = None,
     goClient = Some \<lparr>tgOut = ''gen'', tgFilter = \<lparr>includeServices = [], excludeServices = [], includePackages = [], excludePackages = []\<rparr>\<rparr>,
     tsClient = None, tsServer = None, pythonClient = None, dartClient = None, swiftClient = None, rustClient = None,
     rustServer = None, openAPI = None\<rparr>\<rparr>"

definition outIndex :: sourceIndex where
  "outIndex = emptyIndex\<lparr>siGroups := [\<lparr>grDir = ''.'', grFile = emptyFile\<rparr>, \<lparr>grDir = ''sub'', grFile = emptyFile\<rparr>]\<rparr>"

definition outDisk :: cleanupDisk where
  "outDisk = \<lparr>cdLstat = (\<lambda>p. Found (if hasSuffix p ''.go'' then KRegular else KDir)),
     cdStat = (\<lambda>p. Found (if hasSuffix p ''.go'' then KRegular else KDir)),
     cdHead = (\<lambda>_. Some ''// Code generated by onkt. DO NOT EDIT.''), cdRemovable = (\<lambda>_. True)\<rparr>"

definition oldManifest :: manifestOutputs where
  "oldManifest = [(''gen'', [''gen/old/types.gen.go'', ''gen/types.gen.go'']), (''../q'', [''../q/a.gen.go''])]"

definition movedManifest :: manifestOutputs where
  "movedManifest = [(''gen/sub'', [''gen/sub/types.gen.go''])]"

lemma outConfig_dir: "isAbs (bcDir outConfig)" "pathClean (bcDir outConfig) = bcDir outConfig" by code_simp+

lemma outExpected: "expectedGeneratedOutputs outConfig outIndex =
    map (Pair ''/p/gen'') [''types.gen.go'', ''validate.gen.go'', ''client.gen.go'', ''sub/types.gen.go'', ''sub/validate.gen.go'', ''sub/client.gen.go'']"
  by code_simp

lemma oldOwned: "previousGeneratedOutputs (bcDir outConfig) oldManifest = map (Pair ''/p/gen'') [''old/types.gen.go'', ''types.gen.go'']"
  by code_simp

lemma old_cleanup: "cleanupStaleGeneratedOutputs outDisk outConfig outIndex oldManifest = (None, [''/p/gen/old/types.gen.go''])"
  by code_simp

theorem cleanup_stays_inside_witness:
  "cleanupStaleGeneratedOutputs outDisk outConfig outIndex oldManifest = (None, [''/p/gen/old/types.gen.go'']) \<and>
     pathWithin ''/p'' ''/p/gen/old/types.gen.go''"
  using old_cleanup cleanup_stays_inside [OF outConfig_dir(1) old_cleanup] by (simp add: outConfig_def)

text \<open>
  C11: The cleanup keeps what this build expects. An expected output under a root that holds no root of the
  previous build below it survives, also when the roots are nested the other way round.
\<close>

theorem cleanup_keeps_current:
  assumes "isAbs (bcDir cfg)" "cleanupStaleGeneratedOutputs disk cfg idx m = (e, removed)"
    "(r', rel') \<in> set (expectedGeneratedOutputs cfg idx)" "plainRel rel'"
    "\<And>r rel. (r, rel) \<in> set (previousGeneratedOutputs (bcDir cfg) m) \<Longrightarrow> \<not> pathWithin r' r"
  shows "pathJoin r' rel' \<notin> set removed"
proof
  let ?roots = "sort (remdups (expectedRoots cfg idx @ map fst (previousGeneratedOutputs (bcDir cfg) m)))" and ?p = "pathJoin r' rel'"
  assume "?p \<in> set removed"
  from cleanupStale_removes [OF assms(2) [unfolded cleanupStaleGeneratedOutputs_def] this]
  obtain r rel where r: "(r, rel) \<in> set (previousGeneratedOutputs (bcDir cfg) m)" "(r, rel) \<notin> set (expectedGeneratedOutputs cfg idx)"
    "?p = pathJoin r rel" "pathWithin r ?p" and out: "\<not> insideAny (filter (\<lambda>other. r \<noteq> other \<and> pathWithin r other) ?roots) ?p"
    unfolding removable_def by blast
  note r' = expected_root [OF assms(1,3)]
  have ra: "isAbs r" "pathClean r = r" using owned_root [OF r(1)] within_abs [OF assms(1)] by auto
  obtain fs where fs: "fs \<noteq> []" "?p = absPath (elemsOf r' @ fs)" "elemsOf ?p = elemsOf r' @ fs"
    using plainRel_join [OF _ _ assms(4)] r' by blast
  obtain ts where ts: "ts \<noteq> []" "elemsOf ?p = elemsOf r @ ts" "isAbs ?p" using r(4) within_abs [OF ra(1)] by blast
  have "r \<noteq> r'"
  proof
    assume eq: "r = r'"
    show False
    proof (cases "plainRel rel")
      case True
      then show False using plainRel_inj [OF ra assms(4) True] r(2,3) assms(3) eq by simp
    next
      case False
      then have "rel = ''.''" using owned_plain [OF r(1)] by blast
      moreover have "pathJoin r ''.'' = r" by (rule join_dot [OF ra])
      ultimately have "?p = r" using r(3) by simp
      then show False using ts by simp
    qed
  qed
  have "r' \<in> set ?roots" using assms(3) by (force simp: expectedRoots_def)
  obtain us where "elemsOf r' = elemsOf r @ us \<or> elemsOf r = elemsOf r' @ us"
    using fs(3) ts(2) append_eq_append_conv2 [of "elemsOf r'" fs "elemsOf r" ts] by metis
  then show False
  proof (elim disjE)
    assume u: "elemsOf r' = elemsOf r @ us"
    have "us \<noteq> []" using elems_eq [OF ra, of r'] r' u \<open>r \<noteq> r'\<close> by auto
    then have "pathWithin r r'" using within_abs [OF ra(1)] u r' by auto
    moreover have "pathWithin r' ?p" using within_abs [of r'] r' fs ts(3) by auto
    ultimately show False using out \<open>r \<noteq> r'\<close> \<open>r' \<in> set ?roots\<close> by (auto simp: insideAny_def list_ex_iff)
  next
    assume u: "elemsOf r = elemsOf r' @ us"
    have "us \<noteq> []" using elems_eq [OF ra, of r'] r' u \<open>r \<noteq> r'\<close> by auto
    then have "pathWithin r' r" using within_abs [of r'] u r' ra(1) by auto
    then show False using assms(5) [OF r(1)] by blast
  qed
qed

lemma plain_file: "properEl f \<Longrightarrow> plainRel f"
  unfolding plainRel_def by (rule exI [of _ "[f]"]) simp

theorem cleanup_keeps_current_witness:
  "cleanupStaleGeneratedOutputs outDisk outConfig outIndex oldManifest = (None, [''/p/gen/old/types.gen.go'']) \<and>
     pathJoin ''/p/gen'' ''types.gen.go'' \<notin> set [''/p/gen/old/types.gen.go'']"
proof -
  have "(''/p/gen'', ''types.gen.go'') \<in> set (expectedGeneratedOutputs outConfig outIndex)" by (simp add: outExpected)
  moreover have "plainRel ''types.gen.go''" by (rule plain_file) (simp add: properEl_def)
  moreover have "\<not> pathWithin ''/p/gen'' ''/p/gen''" by code_simp
  then have "\<not> pathWithin ''/p/gen'' r" if "(r, rel) \<in> set (previousGeneratedOutputs (bcDir outConfig) oldManifest)" for r rel
    using that by (auto simp: oldOwned)
  ultimately show ?thesis using old_cleanup cleanup_keeps_current [OF outConfig_dir(1) old_cleanup] by blast
qed

text \<open>
  The hypothesis about nested roots is needed: a root of the previous build that lies below a present one is
  cleaned without regard to the present one, and the cleanup runs after the files are written.
\<close>

lemma cleanup_removes_current:
  "cleanupStaleGeneratedOutputs outDisk outConfig outIndex movedManifest = (None, [''/p/gen/sub/types.gen.go'']) \<and>
     (''/p/gen'', ''sub/types.gen.go'') \<in> set (expectedGeneratedOutputs outConfig outIndex) \<and>
     pathJoin ''/p/gen'' ''sub/types.gen.go'' = ''/p/gen/sub/types.gen.go''"
  unfolding outExpected by (intro conjI) (code_simp, simp, code_simp)

subsection \<open>The manifest\<close>

lemma rel_within:
  assumes "isAbs d" "pathWithin d r" "pathClean r = r"
  obtains us where "us \<noteq> []" "list_all properEl us" "filepathRel d r = Some (joinWith ''/'' us)" "r = absPath (elemsOf d @ us)"
proof -
  obtain us where us: "us \<noteq> []" "elemsOf r = elemsOf d @ us" "isAbs r" using assms within_abs [OF assms(1)] by blast
  have r: "r = absPath (elemsOf d @ us)" "list_all properEl (elemsOf d @ us)" using clean_abs [OF us(3)] assms(3) us(2) by auto
  then have p: "list_all properEl (elemsOf d)" "list_all properEl us" by simp_all
  have "filepathRel d r = filepathRel (absPath (elemsOf d)) (absPath (elemsOf d @ us))"
  proof -
    have "pathClean d = absPath (elemsOf d)" "pathClean (absPath (elemsOf d)) = absPath (elemsOf d)"
      using clean_abs [OF assms(1)] clean_absPath [OF p(1)] by simp_all
    then show ?thesis unfolding filepathRel_def using r(1) by simp
  qed
  moreover have "filepathRel (absPath (elemsOf d)) (absPath (elemsOf d @ us)) = Some (joinWith ''/'' us)"
  proof -
    have "absPath (elemsOf d @ us) \<noteq> absPath (elemsOf d)" using absPath_inj [of "elemsOf d @ us" "elemsOf d"] r(2) p(1) us(1) by simp
    moreover have "absPath (elemsOf d) \<noteq> ''.''" by (simp add: absPath_def)
    ultimately show ?thesis using p r(2) us(1) stripCommon_extends [of "elemsOf d" us]
      by (simp add: filepathRel_def clean_absPath pathElems_absPath Let_def)
  qed
  ultimately show thesis using that us(1) p(2) r(1) by simp
qed

lemma relative_elems: "list_all properEl us \<Longrightarrow> us \<noteq> [] \<Longrightarrow> pathElems (joinWith ''/'' us) = us"
  using proper_join_hd(2,3) [of us] proper_split [of us]
  by (cases "joinWith ''/'' us") (auto simp: pathElems_def trimPrefix_def hasPrefix_def Let_def)

lemma relative_not_abs: "list_all properEl us \<Longrightarrow> us \<noteq> [] \<Longrightarrow> \<not> isAbs (joinWith ''/'' us) \<and> joinWith ''/'' us \<noteq> ''.''"
  using proper_stays by blast

lemma owned_written:
  assumes "list_all properEl us" "us \<noteq> []" "plainRel rel"
  shows "ownedFile (joinWith ''/'' us) (pathJoin (joinWith ''/'' us) rel) = [rel]"
proof -
  obtain fs where fs: "fs \<noteq> []" "list_all properEl fs" "rel = joinWith ''/'' fs" using assms(3) unfolding plainRel_def by blast
  have p: "list_all properEl (us @ fs)" "us @ fs \<noteq> []" using assms fs by simp_all
  have "joinWith ''/'' us @ ''/'' @ joinWith ''/'' fs = joinWith ''/'' (us @ fs)"
    using assms(2) fs(1) by (induction us rule: induct_list012) (auto simp: joinWith_Cons)
  moreover have "joinWith ''/'' us \<noteq> []" "rel \<noteq> []" using proper_join_hd(2) assms(1,2) fs by auto
  ultimately have j: "pathJoin (joinWith ''/'' us) rel = joinWith ''/'' (us @ fs)"
    using clean_proper [OF p] fs(3) by (simp add: pathJoin_def)
  have ne: "joinWith ''/'' (us @ fs) \<noteq> joinWith ''/'' us"
    using relative_elems [OF p] relative_elems [OF assms(1,2)] fs(1) by (metis append_self_conv)
  have "filepathRel (joinWith ''/'' us) (joinWith ''/'' (us @ fs)) = Some rel"
    using ne relative_not_abs [OF assms(1,2)] relative_not_abs [OF p] stripCommon_extends [of us fs] fs(3)
    by (simp add: filepathRel_def clean_proper [OF p] clean_proper [OF assms(1,2)] relative_elems [OF p]
        relative_elems [OF assms(1,2)] Let_def)
  then show ?thesis using j proper_stays [OF fs(2,1)] fs clean_proper [OF fs(2,1)] by (simp add: ownedFile_def)
qed

lemma mapO_Some_set: "mapO f xs = Some ys \<Longrightarrow> set ys = {y. \<exists>x \<in> set xs. f x = Some y}"
  by (induction xs arbitrary: ys) (auto split: option.splits)

lemma mapO_defined: "mapO f xs = Some ys \<Longrightarrow> x \<in> set xs \<Longrightarrow> \<exists>y \<in> set ys. f x = Some y"
  by (induction xs arbitrary: ys) (auto split: option.splits)

lemma owned_manifestRoot:
  assumes "isAbs d" "manifestRoot d E r = Some entry" "\<And>rel. (r, rel) \<in> set E \<Longrightarrow> pathWithin d r \<and> pathClean r = r \<and> plainRel rel"
  shows "set (ownedRoot d entry) = {e \<in> set E. fst e = r}"
proof (cases "filter (\<lambda>e. fst e = r) E = []")
  case True
  then have "snd entry = []" using assms(2) by (auto simp: manifestRoot_def)
  moreover have "{e \<in> set E. fst e = r} = {}" using True unfolding filter_empty_conv by blast
  ultimately show ?thesis by (simp add: ownedRoot_def Let_def)
next
  case False
  then obtain rel0 where "(r, rel0) \<in> set E" unfolding filter_empty_conv by (metis prod.collapse)
  then have w: "pathWithin d r" "pathClean r = r" using assms(3) by auto
  obtain us where us: "us \<noteq> []" "list_all properEl us" "filepathRel d r = Some (joinWith ''/'' us)"
    "r = absPath (elemsOf d @ us)" using rel_within [OF assms(1) w] by blast
  let ?b = "joinWith ''/'' us"
  have j: "pathJoin d ?b = r"
    using join_absPath [OF _ us(2,1), of "elemsOf d"] us(4) join_clean_left [OF assms(1), of ?b] clean_abs [OF assms(1)] by simp
  have e: "fst entry = ?b" "set (snd entry) = (\<lambda>e. pathJoin ?b (snd e)) ` {e \<in> set E. fst e = r}"
  proof -
    have "entry = (?b, sort (remdups (map (\<lambda>e. pathJoin ?b (snd e)) (filter (\<lambda>e. fst e = r) E))))"
      using assms(2) us(3) by (simp add: manifestRoot_def)
    then show "fst entry = ?b" "set (snd entry) = (\<lambda>e. pathJoin ?b (snd e)) ` {e \<in> set E. fst e = r}" by simp_all
  qed
  have o: "ownedFile ?b (pathJoin ?b (snd e)) = [snd e]" if "e \<in> {e \<in> set E. fst e = r}" for e
    using owned_written [OF us(2,1)] assms(3) [of "snd e"] that by (cases e) simp
  have "set (concat (map (ownedFile (fst entry)) (snd entry))) = (\<Union>e \<in> {e \<in> set E. fst e = r}. set (ownedFile ?b (pathJoin ?b (snd e))))"
    by (simp add: e)
  also have "\<dots> = snd ` {e \<in> set E. fst e = r}" using o by auto
  finally have f: "set (concat (map (ownedFile (fst entry)) (snd entry))) = snd ` {e \<in> set E. fst e = r}" .
  have "ownedRoot d entry = map (Pair r) (concat (map (ownedFile (fst entry)) (snd entry)))"
    using w j e(1) by (simp add: ownedRoot_def)
  then have "set (ownedRoot d entry) = Pair r ` snd ` {e \<in> set E. fst e = r}" using f by (simp only: set_map)
  also have "\<dots> = {e \<in> set E. fst e = r}" by force
  finally show ?thesis .
qed

text \<open>
  C12: The manifest gives back what it recorded. When every expected root lies below the project directory
  and every output is a name below its root, the outputs a later build reads from the written manifest are
  exactly the outputs expected when it was written.
\<close>

theorem manifest_roundtrip:
  assumes "isAbs (bcDir cfg)" "writtenManifest (bcDir cfg) (expectedRoots cfg idx) (expectedGeneratedOutputs cfg idx) = Some m"
    "\<And>r rel. (r, rel) \<in> set (expectedGeneratedOutputs cfg idx) \<Longrightarrow> pathWithin (bcDir cfg) r \<and> plainRel rel"
  shows "set (previousGeneratedOutputs (bcDir cfg) m) = set (expectedGeneratedOutputs cfg idx)"
proof -
  let ?E = "expectedGeneratedOutputs cfg idx" and ?d = "bcDir cfg"
  note m = assms(2) [unfolded writtenManifest_def]
  have owned: "set (ownedRoot ?d entry) = {e \<in> set ?E. fst e = r}" if "manifestRoot ?d ?E r = Some entry" for r entry
    by (rule owned_manifestRoot [OF assms(1) that]) (use assms(3) expected_root [OF assms(1)] in blast)
  have p: "set (previousGeneratedOutputs ?d m) = (\<Union>entry \<in> set m. set (ownedRoot ?d entry))"
    by (simp add: previousGeneratedOutputs_def)
  show ?thesis
  proof (intro equalityI subsetI)
    fix e assume "e \<in> set (previousGeneratedOutputs ?d m)"
    then obtain entry where entry: "entry \<in> set m" "e \<in> set (ownedRoot ?d entry)" unfolding p by blast
    then obtain r where "manifestRoot ?d ?E r = Some entry" using mapO_Some_set [OF m] by blast
    from owned [OF this] show "e \<in> set ?E" using entry(2) by blast
  next
    fix e assume e: "e \<in> set ?E"
    then have "fst e \<in> set (expectedRoots cfg idx)" by (simp add: expectedRoots_def)
    then obtain entry where entry: "entry \<in> set m" "manifestRoot ?d ?E (fst e) = Some entry" using mapO_defined [OF m] by blast
    from owned [OF this(2)] show "e \<in> set (previousGeneratedOutputs ?d m)" using entry(1) e unfolding p by blast
  qed
qed

theorem manifest_roundtrip_witness:
  "\<exists>m. writtenManifest ''/p'' (expectedRoots outConfig outIndex) (expectedGeneratedOutputs outConfig outIndex) = Some m \<and>
     set (previousGeneratedOutputs ''/p'' m) = set (expectedGeneratedOutputs outConfig outIndex) \<and>
     (''/p/gen'', ''sub/client.gen.go'') \<in> set (expectedGeneratedOutputs outConfig outIndex)"
proof -
  have d: "bcDir outConfig = ''/p''" by (simp add: outConfig_def)
  have w: "writtenManifest ''/p'' (expectedRoots outConfig outIndex) (expectedGeneratedOutputs outConfig outIndex) \<noteq> None" by code_simp
  then obtain m where m: "writtenManifest (bcDir outConfig) (expectedRoots outConfig outIndex) (expectedGeneratedOutputs outConfig outIndex) = Some m"
    using d by auto
  have "pathWithin (bcDir outConfig) ''/p/gen''" by code_simp
  moreover have "plainRel f" if "f \<in> {''types.gen.go'', ''validate.gen.go'', ''client.gen.go''}" for f
    using that by (auto intro!: plain_file simp: properEl_def)
  moreover have "plainRel (''sub/'' @ f)" if "f \<in> {''types.gen.go'', ''validate.gen.go'', ''client.gen.go''}" for f
    unfolding plainRel_def by (rule exI [of _ "[''sub'', f]"]) (use that in \<open>auto simp: properEl_def\<close>)
  ultimately have "pathWithin (bcDir outConfig) r \<and> plainRel rel"
    if "(r, rel) \<in> set (expectedGeneratedOutputs outConfig outIndex)" for r rel using that unfolding outExpected by auto
  from manifest_roundtrip [OF outConfig_dir(1) m this] show ?thesis using m d by (auto simp: outExpected)
qed

end
