(* ===== verification/Spec2Isabelle.thy ===== *)
theory Spec2Isabelle
  imports Guarantees Bounds FromJson HttpKitProps BuildGuarantees OutputGuarantees
begin

text \<open>
  A model of onekit, a schema compiler and build tool written in Go. Schema files declare messages, enums
  and services; decorators constrain them, and \<open>@rule\<close> and \<open>@authorize\<close> hold expressions of a small rule
  language. Front ends hand a declared document to the compiler (\<open>internal/onkcompile\<close>), which checks it,
  resolves names and builds the schema (\<open>internal/onkir\<close>) that code generators, the compatibility check
  (\<open>internal/onkcompat\<close>) and the build tool (\<open>internal/onek\<close>) read. Generated Go servers use the run-time
  library \<open>httpkit\<close>.

  Conventions. A Go function that returns a value and an error is a function into a sum, \<open>Inl\<close> the error
  with its message and arguments, and \<open>bindE\<close> is the early return. Strings are byte lists and \<open>runes\<close> decodes
  them as Go does. \<open>int64\<close> is \<open>64 word\<close> with Go's wrapping operations, \<open>float64\<close> an exact binary64 number with
  rounding to nearest even. Pointers to messages and enums are indices into the tables of a schema, so that
  cycles and sharing are those of the code. Go maps are maps, or association lists where order shows. The code's
  mutation of shared records is a state that is passed on and returned.

  The theories, from the bottom:
  \<^item> \<^bold>\<open>Prelude, Search, GoStrings, GoInt, GoFloat, GoFmt, GoParse, GoPath, GoGlob, GoNet, StringOrder\<close>: what the code
    uses of Go's language and standard library, and a depth-first search with its correctness in a locale.
  \<^item> \<^bold>\<open>Ir, IrWalk\<close>: \<open>internal/onkir\<close>. Records of the schema, the queries of \<open>helpers.go\<close> and its walks.
  \<^item> \<^bold>\<open>ExprAst, Lexer, Parser, Checker, Eval, FromJson, Lower, Rules, Regex, GoRegexp\<close>: \<open>internal/onkexpr\<close>, the rule
    language: lexer, parser, pattern validator, type checker, evaluator with the decoding of JSON values, lowering
    to operations, and the rules of messages and methods. \<open>GoRegexp\<close> is the part of Go's \<open>regexp\<close> that
    portable patterns use. Their properties are in \<^bold>\<open>Typing, EvalProps, RegexCompiles, Soundness\<close>.
  \<^item> \<^bold>\<open>Decl, Document\<close>: \<open>internal/onkschema\<close>, the declared document and \<open>Decode\<close>.
  \<^item> \<^bold>\<open>Imports, DeclChecks, ServiceChecks, Compile, Passes, Contract\<close>: \<open>internal/onkcompile\<close> in the order of
    \<open>CompileWithOptions\<close>: import scopes, checks of declarations and services, name resolution and building,
    rules, the passes that write flags and decorators, and the contract of the compiled schema. Properties:
    \<^bold>\<open>DeclProps, Bounds, ServiceProps, CompileProps, Resolve, BuildProps, Compiled, Pipeline, ContractProps, PassProps,
    Recheck\<close>, and \<^bold>\<open>Guarantees\<close> for the compiler as a whole, with the package of \<^bold>\<open>Sample\<close> for witnesses.
  \<^item> \<^bold>\<open>Compat, CompatProps\<close>: \<open>internal/onkcompat\<close>, \<open>Compare\<close> and the relation it decides.
  \<^item> \<^bold>\<open>HttpKit, HttpKitProps\<close>: \<open>httpkit\<close>, guards, request state, trusted proxies, the recording writer, handlers.
  \<^item> \<^bold>\<open>Directories, Incremental, Outputs\<close>: \<open>internal/onek\<close>. Grouping by directory, filters, dependencies and import
    aliases; fingerprints and the plan of an incremental build; expected outputs, manifest, cleanup and path
    checks. Properties: \<^bold>\<open>DirectoryProps, IncrementalProps, BuildGuarantees, OutputProps, OutputGuarantees\<close>.

  What the groups of lemmas show. Rule language: tokens are in order, parsing returns, checking changes
  annotations only and decides a declarative type system, an accepted rule evaluates to a bool or a run-time
  error and never panics, accepted patterns compile in Go and are matched exactly, a checked rule always
  lowers to a well-formed program. Compiler: it returns on every document and never panics on a decoded
  one, names resolve to the one visible declaration, compiled packages are well formed and are their
  declarations, rules of a compiled package decide, JSON keys are distinct, every part of a request has
  one place, routes are read alike on both sides. Compatibility: \<open>Compare\<close> returns, and reports nothing exactly for compatible packages.
  Run-time library: a caller cannot forge its address, a resolved guard keeps its shape, the recorded status is
  the one sent. Build tool: the groups are a partition of the files, dependencies are exactly what is reachable
  and contain every package printed code imports, a kept directory has unchanged inputs and outputs, the cleanup
  stays inside the project and keeps what is expected, and the manifest gives back what it recorded. Some
  lemmas show behaviour that the code does not mean: \<open>nested_flatten_overflow\<close>, \<open>cleanup_removes_current\<close>,
  \<open>foreign_message_shadows_enum\<close>, \<open>early_flush_unrecorded\<close> and the like.

  Interfaces are locales, each interpreted on the model: \<open>token_parser\<close> (the levels of the parser),
  \<open>annotator\<close> with \<open>bounded_checker\<close> and \<open>typing_checker\<close> (what a checker owes its parts), \<open>commuting_checker\<close>
  (checking before and after the passes), \<open>group_parsers\<close> (the validator against Go's parser),
  \<open>finite_search\<close> and \<open>finite_walk\<close> (walks over finitely many messages), \<open>param_reader\<close> (the two readers of path
  parameters) and \<open>terminated_values\<close> (hashed texts that can be read back).

  Bounds. The parser's depth and the pattern depth are the code's own limits. The checker gets the
  height of the tree and never uses it up (\<open>check_decides\<close>). Walks over messages get one level more than there are
  messages, or two where the start counts, and \<open>messagesDeep\<close> the same for nesting: on well-formed packages the
  levels suffice, as nesting is well founded. \<open>contractFuel\<close> is two more than the number of messages; beyond it
  the recursion over flattened messages is \<open>NoReturn\<close>, which well-formed packages without a flatten cycle
  never reach, and which is a stack overflow of the code for nested ones. Import closures get the number of files.
  OpenAPI files get the square of the number of messages plus two, for going up to parents and down
  again. Loops up a path get its length, since each step shortens it. Where a loop could run out, the claims
  that it returns are stated as such.

  Parameters. \<open>goLib\<close> holds \<open>unicode.IsUpper\<close> and the parser of \<open>regexp/syntax\<close> for patterns of decorators;
  \<open>sha\<close> is \<open>sha256.Sum256\<close>, with its collisions named in the statements; the disk is what \<open>Lstat\<close>, \<open>Stat\<close> and
  \<open>ReadFile\<close> answer; random request ids and clocks are arguments.

  Not modelled: the text the generators print (\<open>internal/gen*\<close>), the converters \<open>internal/onktsp\<close> and
  \<open>internal/onkimport\<close>, the text of JSON and TOML files, writing files, running processes, watching and the command
  line, the mock server, tests and examples. They are input, output or printing around the parts above.
\<close>

section \<open>A schema for the witnesses\<close>

text \<open>One message \<open>M\<close> with an int \<open>a\<close>, a list \<open>xs\<close> and an enum \<open>e\<close> whose only value is \<open>A\<close>.\<close>

definition exField :: "string \<Rightarrow> irType \<Rightarrow> bool \<Rightarrow> field" where
  "exField name t rep = \<lparr>fName = name, fLine = 0, fDoc = [], fType = Some t, fRepeated = rep,
     fOptional = False, fDecorators = [], fOneof = None, fMessage = 0, fInt64Number = False,
     fEmitZero = False, fAlwaysSent = False, fValueItems = False, fNullable = False\<rparr>"

definition exRule :: decorator where
  "exRule = \<lparr>decName = ''rule'', decArgs = [\<lparr>argName = [], argValue = ''self.a > 1'', argQuoted = True\<rparr>,
     \<lparr>argName = [], argValue = ''a is too small'', argQuoted = True\<rparr>]\<rparr>"

definition exMessage :: message where
  "exMessage = nilMessage\<lparr>mName := ''M'', mDecorators := [exRule], mFields := [exField ''a'' (TScalar ScalarInt32) False,
     exField ''xs'' (TScalar ScalarInt32) True, exField ''e'' (TEnum 0) False]\<rparr>"

definition exEnum :: enum where
  "exEnum = nilEnum\<lparr>enName := ''E'', enValues := [\<lparr>evName = ''A'', evDoc = [], evDecorators = [], evIndex = 0\<rparr>]\<rparr>"

definition exSchema :: schema where
  "exSchema = \<lparr>schMessages = [exMessage], schEnums = [exEnum], schFiles = []\<rparr>"

definition exEnv :: tenv where "exEnv = [(''self'', TyMessage 0)]"

definition exValue :: "(string \<times> val) list" where
  "exValue = [(''a'', VInt 5)]"

definition exVars :: vars where "exVars = [''self'' \<mapsto> VMap exValue]"

definition exTree :: node where
  "exTree = (case checkRule exSchema exEnv ''self.a > 1'' of Inr n \<Rightarrow> n | Inl e \<Rightarrow> BoolLit 0 None False)"

lemma exSchema_wf: "wfSchema exSchema"
  by (simp add: wfSchema_def exSchema_def exMessage_def exField_def exEnum_def enumAt_def nilMessage_def)

lemma exTree_checked: "checkRule exSchema exEnv ''self.a > 1'' = Inr exTree"
  by code_simp

lemma exField_find: "find (\<lambda>f. fName f = ''a'') (mFields (msgAt exSchema 0)) = Some (exField ''a'' (TScalar ScalarInt32) False)"
  by (simp add: exSchema_def msgAt_def exMessage_def exField_def)

lemma exValue_conforms: "conforms exSchema (VMap exValue) (TyMessage 0)"
  unfolding exValue_def
  by (rule C_Message)
    (auto simp: exSchema_def msgAt_def exMessage_def exField_def fieldType_def intro: C_Int)

lemma exVars_conform: "conformVars exSchema exVars (map_of exEnv)"
  using exValue_conforms by (auto simp: conformVars_def exVars_def exEnv_def)

section \<open>Properties of the rule language\<close>

text \<open>
  C1: Type soundness. A rule that \<open>CheckRule\<close> accepts, on variables that conform to its
  environment, evaluates to a bool, which \<open>EvalBool\<close> returns, or stops with a run-time error
  (index, key, overflow, division, non-finite, conversion); it never panics.
\<close>

theorem rule_evaluates:
  assumes "wfSchema S" "checkRule S env src = Inr n" "conformVars S vars (map_of env)"
  shows "(\<exists>b. evalExpr S n vars = Inr (VBool b) \<and> evalBool S n vars = Inr b) \<or>
    (\<exists>f. evalBool S n vars = Inl f \<and> runtimeError f)"
  using checkRule_sound [OF assms] .

theorem rule_evaluates_witness:
  "evalBool exSchema exTree exVars = Inr True \<and>
   ((\<exists>b. evalExpr exSchema exTree exVars = Inr (VBool b) \<and> evalBool exSchema exTree exVars = Inr b) \<or>
    (\<exists>f. evalBool exSchema exTree exVars = Inl f \<and> runtimeError f))"
proof
  show "evalBool exSchema exTree exVars = Inr True" by code_simp
qed (rule rule_evaluates [OF exSchema_wf exTree_checked exVars_conform])

definition exParsed :: node where
  "exParsed = (case parseExpr ''self.a > 1'' of Inr n \<Rightarrow> n | Inl e \<Rightarrow> BoolLit 0 None False)"

lemma exParsed_parse: "parseExpr ''self.a > 1'' = Inr exParsed"
  by code_simp

lemma exParsed_check: "check exSchema exEnv exParsed = (exTree, Inr TyBool)"
  by code_simp

text \<open>
  C5: The checker implements the typing relation: the annotated tree of a parsed expression that
  \<open>Check\<close> accepts is well typed at the returned type, and checking changed annotations only.
\<close>

theorem check_implements_typing:
  assumes "parseExpr src = Inr n" "check S env n = (n', Inr t)"
  shows "typed S (map_of env) n' t \<and> nodeType n' = Some t \<and> strip n' = strip n"
proof -
  have "litsOk S n" using parseExpr_result [of src] assms(1) by (auto intro: fresh_litsOk)
  from check_typed [OF assms(2) this] show ?thesis by (auto dest: typed_nodeType)
qed

theorem check_implements_typing_witness:
  "typed exSchema (map_of exEnv) exTree TyBool \<and> nodeType exTree = Some TyBool \<and> strip exTree = strip exParsed"
  by (rule check_implements_typing [OF exParsed_parse exParsed_check])






text \<open>
  C23: Integer arithmetic is exact: each operator returns the mathematical result when it fits in
  64 bits and an overflow error otherwise, a zero divisor apart; the one case where the result
  fits and overflow is still reported is the smallest integer modulo \<open>-1\<close>.
\<close>

theorem int_arithmetic_exact:
  assumes "op1 \<in> set intOps"
  shows "intArithmetic op1 a b =
    (if op1 \<in> {''/'', ''%''} \<and> sint b = 0 then evalErr DivByZero
     else if inInt64 (exactInt op1 (sint a) (sint b)) \<and> \<not> (op1 = ''%'' \<and> a = minInt64 \<and> b = -1)
     then Inr (VInt (i64 (exactInt op1 (sint a) (sint b))))
     else evalErr IntOverflow)"
  using intArithmetic_exact [OF assms] .

theorem int_arithmetic_exact_witness:
  "intArithmetic ''*'' (i64 (- 3)) (i64 7) = Inr (VInt (i64 (- 21)))"
  using int_arithmetic_exact [of "''*''" "i64 (- 3)" "i64 7"]
  by (simp add: intOps_def exactInt_def inInt64_def)

text \<open>
  C21: A pattern that \<open>ValidateRegex\<close> accepts compiles in Go, so \<open>fullMatch\<close> never panics on it,
  and it matches a string exactly when the runes are in the language of the compiled pattern.
\<close>

theorem accepted_regex_matches:
  assumes "validateRegex re = Inr ()"
  shows "\<exists>r. goCompile re = Some r \<and> fullMatch re s = Some (runes s \<in> lang r)"
  using validateRegex_compiles [OF assms] by (auto simp: fullMatch_def matchRe_lang)

theorem accepted_regex_matches_witness:
  "fullMatch ''(ab|c)[0-9]{2}'' ''ab12'' = Some True \<and>
   (\<exists>r. goCompile ''(ab|c)[0-9]{2}'' = Some r \<and>
      fullMatch ''(ab|c)[0-9]{2}'' ''ab12'' = Some (runes ''ab12'' \<in> lang r))"
proof
  show "fullMatch ''(ab|c)[0-9]{2}'' ''ab12'' = Some True" by code_simp
  have "validateRegex ''(ab|c)[0-9]{2}'' = Inr ()" by code_simp
  from accepted_regex_matches [OF this]
  show "\<exists>r. goCompile ''(ab|c)[0-9]{2}'' = Some r \<and>
      fullMatch ''(ab|c)[0-9]{2}'' ''ab12'' = Some (runes ''ab12'' \<in> lang r)" .
qed

text \<open>
  C26: \<open>Parse\<close> always returns: an error inside the source, never an overrun of the model's loop
  bound, or, for a source within the size limit, a tree whose positions are in the source and
  whose annotations are empty.
\<close>

theorem parse_returns:
  "case parseExpr src of
     Inl e \<Rightarrow> eOffset e \<le> length src \<and> eMsg e \<noteq> ParseMsg LoopBound
   | Inr nd \<Rightarrow> length src \<le> maxSourceBytes \<and> fresh {0..length src} nd"
  by (rule parseExpr_result)

text \<open>
  C27: The lexer's tokens come in source order: their offsets increase strictly, the list ends with
  the only end-of-expression token, and that one stands at the end of the source.
\<close>

theorem lex_ordered:
  assumes "lex src = Inr ts"
  shows "wfToks ts \<and> sorted_wrt (<) (map tkPos ts) \<and> tkPos (last ts) = length src"
  using assms lexFrom_tokens [of 0 src ts] by (auto simp: lex_def split: if_splits)

theorem lex_ordered_witness:
  "\<exists>ts. lex ''a + 1'' = Inr ts \<and> map tkPos ts = [0, 2, 4, 5] \<and>
     wfToks ts \<and> sorted_wrt (<) (map tkPos ts) \<and> tkPos (last ts) = length ''a + 1''"
proof -
  define ts where "ts = (case lex ''a + 1'' of Inr x \<Rightarrow> x | Inl e \<Rightarrow> [])"
  have lx: "lex ''a + 1'' = Inr ts" unfolding ts_def by code_simp
  have "map tkPos ts = [0, 2, 4, 5]" unfolding ts_def by code_simp
  then show ?thesis by (intro exI [of _ ts] conjI lx) (use lex_ordered [OF lx] in simp_all)
qed

text \<open>
  C28: A checked rule always lowers, for every owner field with a type: the program is well formed
  (operand counts, slots below the macro depth, pattern indices in the table) and every pattern in
  the table is one that \<open>ValidateRegex\<close> accepts, without duplicates.
\<close>

theorem checked_rule_lowers:
  assumes "checkRule S env src = Inr n" "\<forall>f. fld = Some f \<longrightarrow> zeroFor f \<noteq> None"
  shows "\<exists>x ps. lowerRule S n fld [] = Some (x, ps) \<and> wfOp ps 0 x \<and> tableOk ps"
proof -
  have "typed S (map_of env) n TyBool" by (rule checkRule_typed [OF assms(1)])
  moreover have "okCtx \<lparr>lcField = fld, lcBound = []\<rparr>" using assms(2) by (auto simp: okCtx_def)
  moreover have "tableOk []" by (simp add: tableOk_def)
  ultimately show ?thesis using typed_lowers [of S "map_of env" n TyBool] by (fastforce simp: lowerRule_def lowers_def)
qed

theorem checked_rule_lowers_witness:
  "\<exists>x ps. lowerRule exSchema exTree None [] = Some (x, ps) \<and> wfOp ps 0 x \<and> tableOk ps"
  by (rule checked_rule_lowers [OF exTree_checked]) simp

text \<open>
  C31: Evaluation leaves the scope as it found it, on every exit of every macro: after a result, an
  error or a panic the variables are the ones it started with.
\<close>

theorem eval_restores_scope: "snd (eval S n vars) = vars"
  by (rule eval_vars)


text \<open>
  The checker's hand-written \<open>sortStrings\<close>, which orders the names of a hint, computes the
  sorted list of Go's string order.
\<close>

theorem sort_strings_sorts: "sortStrings vs = sort vs"
  by (rule sortStrings_sort)

text \<open>
  A repetition bound with a leading zero is accepted by \<open>ValidateRegex\<close> but Go reads it as
  literal text: \<open>a{01}\<close> does not match \<open>a\<close>, and it matches its own five characters.
\<close>

theorem leading_zero_bound_is_literal:
  "validateRegex ''a{01}'' = Inr () \<and> fullMatch ''a{01}'' ''a'' = Some False \<and>
   fullMatch ''a{01}'' ''a{01}'' = Some True"
  by code_simp

text \<open>
  The pattern table is a set without duplicates that only grows: the index returned for a
  pattern points at it, and earlier indices keep their patterns.
\<close>

theorem regex_table_index:
  assumes "regexIndex ps p = (i, ps')"
  shows "i < length ps' \<and> ps' ! i = p \<and> prefix ps ps' \<and> set ps' = insert p (set ps) \<and>
    (distinct ps \<longrightarrow> distinct ps')"
  using regexIndex_result [OF assms] .

theorem regex_table_index_witness:
  "regexIndex [''a'', ''b''] ''b'' = (1, [''a'', ''b'']) \<and> [''a'', ''b''] ! 1 = ''b''"
proof -
  have e: "regexIndex [''a'', ''b''] ''b'' = (1, [''a'', ''b''])" by code_simp
  with regex_table_index [OF e] show ?thesis by blast
qed

text \<open>
  \<open>int\<close> of a double is exact: an accepted double is truncated without wrapping, and an
  integer below 2^53 in size survives \<open>double\<close> and back.
\<close>

theorem int_of_double_exact:
  "(0 \<le> m \<longrightarrow> toInt (VDouble (FNum s m e)) = Inr (VInt i) \<longrightarrow> sint i = truncInt s m e) \<and>
   (\<bar>z\<bar> < 2 ^ 53 \<longrightarrow> callFn ''double'' re [VInt (i64 z)] = Inr (VDouble (ofInt z)) \<and>
      callFn ''int'' re [VDouble (ofInt z)] = Inr (VInt (i64 z)))"
proof (intro conjI impI)
  assume "0 \<le> m" "toInt (VDouble (FNum s m e)) = Inr (VInt i)"
  then show "sint i = truncInt s m e" by (rule toInt_exact)
next
  assume z: "\<bar>z\<bar> < 2 ^ 53"
  then have "inInt64 z" by (auto simp: inInt64_def)
  then show "callFn ''double'' re [VInt (i64 z)] = Inr (VDouble (ofInt z))"
    by (simp add: callFn_def argAt_def)
  show "callFn ''int'' re [VDouble (ofInt z)] = Inr (VInt (i64 z))"
    using toInt_ofInt [OF z] by (simp add: callFn_def argAt_def)
qed

theorem int_of_double_exact_witness:
  "callFn ''int'' [] [VDouble (ofInt (- 12345))] = Inr (VInt (i64 (- 12345))) \<and>
   sint (i64 6) = truncInt False 13 (- 1)"
proof -
  have t: "toInt (VDouble (FNum False 13 (- 1))) = Inr (VInt (i64 6))" by code_simp
  show ?thesis using int_of_double_exact [of 13 False "- 1" "i64 6" "- 12345" "[]"] t by simp
qed

section \<open>Properties of the schema queries\<close>

text \<open>
  Scalar kind names and kinds are in bijection: \<open>ParseScalarKind\<close> accepts exactly the names
  \<open>String\<close> prints, and returns the kind they name.
\<close>

theorem scalar_kind_names: "parseScalarKind s = Some k \<longleftrightarrow> s = scalarKindName k"
  by (rule parseScalarKind_iff)

text \<open>
  The wildcard parameter of a route is the last of its parameters, and its placeholder is the
  last segment of the route.
\<close>

theorem wildcard_is_last_parameter:
  assumes "wildcardParam path = Some w" "noBraces w"
  shows "pathParamNames path \<noteq> [] \<and> last (pathParamNames path) = w \<and>
    pathPlaceholder path w = last (splitOn (CHR ''/'') path)"
  using wildcardParam_last [OF assms] .

theorem wildcard_is_last_parameter_witness:
  "pathParamNames ''/v1/{id}/{rest...}'' = [''id'', ''rest''] \<and>
   last (pathParamNames ''/v1/{id}/{rest...}'') = ''rest'' \<and>
   pathPlaceholder ''/v1/{id}/{rest...}'' ''rest'' = ''{rest...}''"
proof -
  have "wildcardParam ''/v1/{id}/{rest...}'' = Some ''rest''" by code_simp
  moreover have "noBraces ''rest''" by code_simp
  ultimately have "last (pathParamNames ''/v1/{id}/{rest...}'') = ''rest'' \<and>
      pathPlaceholder ''/v1/{id}/{rest...}'' ''rest'' = last (splitOn (CHR ''/'') ''/v1/{id}/{rest...}'')"
    using wildcard_is_last_parameter [of "''/v1/{id}/{rest...}''" "''rest''"] by blast
  moreover have "last (splitOn (CHR ''/'') ''/v1/{id}/{rest...}'') = ''{rest...}''" by code_simp
  moreover have "pathParamNames ''/v1/{id}/{rest...}'' = [''id'', ''rest'']" by code_simp
  ultimately show ?thesis by simp
qed

definition exVariant :: "mref \<Rightarrow> variant" where
  "exVariant r = \<lparr>vName = ''v'', vType = Some (TMessage r), vDecorators = []\<rparr>"

definition exDec :: "string \<Rightarrow> decorator" where "exDec n = \<lparr>decName = n, decArgs = []\<rparr>"

text \<open>Message 0 has a oneof whose variants are itself and message 1; message 1 has \<open>@ws_id\<close> and \<open>@raw\<close> fields.\<close>

definition exFrame :: message where
  "exFrame = nilMessage\<lparr>mName := ''Frame'', mFields := [(exField ''kind'' (TScalar ScalarString) False)
     \<lparr>fType := None, fOneof := Some \<lparr>oArgs = [], oVariants = [exVariant 0, exVariant 1]\<rparr>\<rparr>]\<rparr>"

definition exReply :: message where
  "exReply = nilMessage\<lparr>mName := ''Reply'', mFields :=
     [(exField ''call'' (TScalar ScalarString) False)\<lparr>fDecorators := [exDec ''ws_id'']\<rparr>,
      (exField ''data'' (TScalar ScalarBytes) False)\<lparr>fDecorators := [exDec ''raw'']\<rparr>]\<rparr>"

definition exFrames :: schema where
  "exFrames = \<lparr>schMessages = [exFrame, exReply], schEnums = [], schFiles = []\<rparr>"

text \<open>
  \<open>WSIDField\<close> finds a field exactly when a message reachable through the variants of oneof
  fields has one of its own, whatever cycles the messages form, and what it finds is such a field.
\<close>

theorem ws_id_field_found:
  "(wsIDField S (Some m) \<noteq> None \<longleftrightarrow> (\<exists>a. variantReach S m a \<and> findWSIDDirect S a \<noteq> None)) \<and>
   (\<forall>f. wsIDField S (Some m) = Some f \<longrightarrow>
      fOneof f = None \<and> fieldHasDecorator f ''ws_id'' \<and>
      (\<exists>a. variantReach S m a \<and> f \<in> set (mFields (msgAt S a))))"
  by (rule wsIDField_exact)

theorem ws_id_field_found_witness:
  "map_option fName (wsIDField exFrames (Some 0)) = Some ''call'' \<and>
   (\<exists>a. variantReach exFrames 0 a \<and> findWSIDDirect exFrames a \<noteq> None)"
proof -
  have e: "map_option fName (wsIDField exFrames (Some 0)) = Some ''call''" by code_simp
  then have "wsIDField exFrames (Some 0) \<noteq> None" by auto
  then have "\<exists>a. variantReach exFrames 0 a \<and> findWSIDDirect exFrames a \<noteq> None"
    using ws_id_field_found [of exFrames 0] by blast
  with e show ?thesis by simp
qed

text \<open>
  \<open>MessageHasRaw\<close> is true exactly when a raw field is reachable without entering an external
  message, and then, and only then, \<open>RawSteps\<close> has a step to take.
\<close>

theorem raw_fields_found:
  assumes "\<not> external m"
  shows "(messageHasRaw S external (Some m) \<longleftrightarrow>
      (\<exists>a. rawReach S external m a \<and> (\<exists>f \<in> set (mFields (msgAt S a)). fOneof f = None \<and> isRaw f))) \<and>
    (rawSteps S external m \<noteq> [] \<longleftrightarrow> messageHasRaw S external (Some m))"
  using messageHasRaw_iff [of S external m] rawSteps_iff [of external m S] assms by blast

theorem raw_fields_found_witness:
  "map rsChild (rawSteps exFrames (\<lambda>_. False) 0) = [Some 0, Some 1] \<and>
   messageHasRaw exFrames (\<lambda>_. False) (Some 0) \<and> \<not> messageHasRaw exFrames (\<lambda>r. r = 1) (Some 0)"
proof -
  have e: "map rsChild (rawSteps exFrames (\<lambda>_. False) 0) = [Some 0, Some 1]" by code_simp
  then have "rawSteps exFrames (\<lambda>_. False) 0 \<noteq> []" by auto
  then have "messageHasRaw exFrames (\<lambda>_. False) (Some 0)"
    using raw_fields_found [of "\<lambda>_. False" 0 exFrames] by simp
  moreover have "\<not> messageHasRaw exFrames (\<lambda>r. r = 1) (Some 0)" by code_simp
  ultimately show ?thesis using e by simp
qed



section \<open>Properties of the compatibility check\<close>

text \<open>
  A package with a request message 0 that holds message 1, a response message 2, and one method.
  The parameter is the field's \<open>@in\<close> list.
\<close>

definition exRpc :: rpc where
  "exRpc = \<lparr>rName = ''Get'', rLine = 1, rDoc = [], rRequest = Some 0, rResponse = Some 2, rErrorTypes = [],
     rDecorators = [\<lparr>decName = ''post'', decArgs = [\<lparr>argName = [], argValue = ''/get'', argQuoted = True\<rparr>]\<rparr>],
     rHeaders = [], rPrincipal = None\<rparr>"

definition exIn :: "string list \<Rightarrow> decorator" where
  "exIn vs = \<lparr>decName = ''in'', decArgs = map (\<lambda>v. \<lparr>argName = [], argValue = v, argQuoted = True\<rparr>) vs\<rparr>"

definition exPackage :: "string list \<Rightarrow> schema" where
  "exPackage vs = \<lparr>schMessages =
       [nilMessage\<lparr>mName := ''Req'', mFields := [exField ''inner'' (TMessage 1) False]\<rparr>,
        nilMessage\<lparr>mName := ''Inner'', mFields := [(exField ''kind'' (TScalar ScalarString) False)\<lparr>fDecorators := [exIn vs]\<rparr>]\<rparr>,
        nilMessage\<lparr>mName := ''Resp''\<rparr>],
     schEnums = [exEnum],
     schFiles = [\<lparr>flPath = ''a.tsp'', flPackage = ''p'', flImports = [], flMessages = [0, 1, 2], flEnums = [0],
       flServices = [\<lparr>sName = ''Svc'', sDoc = [], sBasePath = ''/v1'', sHeaders = [], sMethods = [exRpc]\<rparr>]\<rparr>]\<rparr>"

lemma exPackage_messages: "length (schMessages (exPackage vs)) = 3"
  by (simp add: exPackage_def)

lemma exPackage_nested: "mNested (msgAt (exPackage vs) r) = []"
  by (simp add: msgAt_def exPackage_def nilMessage_def nth_Cons split: nat.split)

lemma exPackage_nesting: "nestingOk (exPackage vs)"
  by (simp add: nestingOk_def exPackage_nested)

lemma exPackage_methods: "methodsOk (exPackage vs)"
  by (simp add: methodsOk_def allMethods_def exPackage_def exRpc_def)

lemma exPackage_enums: "distinct (map evName (enValues (enumAt (exPackage vs) e)))"
  by (simp add: enumAt_def exPackage_def exEnum_def nilEnum_def)




text \<open>
  An unchanged package has no breaking change, when the values of each of its enums have
  distinct names (the compiler rejects the others).
\<close>

theorem unchanged_is_compatible:
  assumes "comparePackages (Some S) (Some S) = Some fs"
    and "\<And>e. distinct (map evName (enValues (enumAt S e)))"
  shows "fs = []"
  using comparePackages_compatible [OF assms(1)] compatible_same [OF assms(2)] by simp

theorem unchanged_is_compatible_witness: "comparePackages (Some (exPackage [''a''])) (Some (exPackage [''a''])) = Some []"
proof -
  obtain fs where c: "comparePackages (Some (exPackage [''a''])) (Some (exPackage [''a''])) = Some fs"
    using comparePackages_returns [OF exPackage_nesting exPackage_methods exPackage_nesting exPackage_methods] by blast
  with unchanged_is_compatible [OF c exPackage_enums] show ?thesis by simp
qed

text \<open>
  A message carries the request (response) bit exactly when it is reachable, through field and
  variant types, from a method's request (response or error) message.
\<close>

theorem usage_is_reachability:
  assumes "namesOk S" "rootsIn S (set (usageRoots S))" "messageUsage (Some S) = Some u"
    "single d" "a < length (schMessages S)"
  shows "marks u d (messageFullName S a) \<longleftrightarrow> (\<exists>r. (Some r, d) \<in> set (usageRoots S) \<and> usesReach S r a)"
  using messageUsage_exact [OF assms] .

lemma exPackage_fullName:
  "messageFullName (exPackage vs) r = (if r = 0 then ''Req'' else if r = 1 then ''Inner'' else if r = 2 then ''Resp'' else [])"
  by (simp add: messageFullName_def msgAt_def exPackage_def nilMessage_def qualifiedName_def filePackage_def Let_def
      nth_Cons split: nat.split)

lemma exPackage_uses: "messageUses (exPackage vs) r = (if r = 0 then [UseMessage 1] else [])"
  by (simp add: messageUses_def msgAt_def exPackage_def exField_def optUses_def nilMessage_def nth_Cons split: nat.split)

lemma exPackage_names: "namesOk (exPackage vs)"
  unfolding namesOk_def
proof (intro conjI allI impI)
  show "inj_on (messageFullName (exPackage vs)) {..<length (schMessages (exPackage vs))}"
    by (auto simp: inj_on_def exPackage_fullName exPackage_messages split: if_splits)
  show "messageFullName (exPackage vs) a \<noteq> enumUsageKey e" for a e
    by (simp add: exPackage_fullName enumUsageKey_def)
  show "b < length (schMessages (exPackage vs))" if "UseMessage b \<in> set (messageUses (exPackage vs) a)" for a b
    using that by (simp add: exPackage_uses exPackage_messages split: if_splits)
qed

lemma exPackage_roots: "set (usageRoots (exPackage vs)) = {(Some 0, usedInRequest), (Some 2, usedInResponse)}"
  by (auto simp: usageRoots_def allMethods_def methodRoots_def exPackage_def exRpc_def)

lemma exPackage_rootsIn: "rootsIn (exPackage vs) (set (usageRoots (exPackage vs)))"
  unfolding rootsIn_def exPackage_roots by (auto simp: exPackage_messages)

theorem usage_is_reachability_witness:
  "\<exists>u. messageUsage (Some (exPackage [])) = Some u \<and> marks u usedInRequest ''Inner''"
proof -
  obtain u where u: "messageUsage (Some (exPackage [])) = Some u" using messageUsage_enough by blast
  have r: "usesReach (exPackage []) 0 1"
    by (rule UR_step [OF UR_here]) (simp add: exPackage_uses)
  have "\<exists>r. (Some r, usedInRequest) \<in> set (usageRoots (exPackage [])) \<and> usesReach (exPackage []) r 1"
    using r by (auto simp: exPackage_roots)
  then have "marks u usedInRequest (messageFullName (exPackage []) 1)"
    using usage_is_reachability [OF exPackage_names exPackage_rootsIn u, of usedInRequest 1]
    by (simp add: exPackage_messages)
  with u show ?thesis by (simp add: exPackage_fullName)
qed

text \<open>
  Decorator signatures are not injective: replacing \<open>@in("a", "b")\<close> by \<open>@in("a:=b")\<close> on a
  request field, which rejects every value the old contract accepted, is not reported.
\<close>

theorem colliding_decorators_unreported:
  "exIn [''a'', ''b''] \<noteq> exIn [''a:=b''] \<and>
   decoratorSignature (exIn [''a'', ''b'']) = decoratorSignature (exIn [''a:=b'']) \<and>
   comparePackages (Some (exPackage [''a'', ''b''])) (Some (exPackage [''a:=b''])) = Some []"
  by code_simp

end
